(* ===== verification/Prelude.thy ===== *)
theory Prelude
  imports Main "HOL-Library.AList" "HOL-Library.List_Lexorder" "HOL-Library.Char_ord"
begin

text \<open>
  Shared ground of the development: Go's 64-bit integers with their wrap-around and truncating
  division, the association lists that stand for Go maps, results that are an error or a value,
  and the locale of a machine that runs events from a start state under an invariant.

  A Go map is an association list with distinct keys: \<open>map_of m k\<close> looks a key up,
  \<open>AList.update\<close> stores (an existing key keeps its place), \<open>AList.delete\<close> removes and
  \<open>length\<close> is Go's \<open>len\<close>. The order of the list stands for the iteration order, which Go
  leaves open: lemmas hold for every list, hence for every order the state may be in.
\<close>

named_theorems wf_intros \<open>rules that an operation keeps a well-formedness predicate\<close>
named_theorems op_simps \<open>what an operation does to the fields of its state\<close>

section \<open>Results\<close>

type_synonym ('e, 'a) result = "'e + 'a"

fun is_ok :: "'e + 'a \<Rightarrow> bool" where
  "is_ok (Inl _) = False"
| "is_ok (Inr _) = True"

lemma is_ok_iff: "is_ok r \<longleftrightarrow> (\<exists>a. r = Inr a)"
  by (cases r) auto

section \<open>Go integers\<close>

text \<open>
  Go's \<open>int\<close> and \<open>int64\<close> are two's-complement 64-bit values. They are HOL integers here, and
  \<open>wrap64\<close> is written wherever the code's arithmetic can leave the range.
\<close>

definition wrap64 :: "int \<Rightarrow> int" where
  "wrap64 x = (x + 2 ^ 63) mod 2 ^ 64 - 2 ^ 63"

definition in64 :: "int \<Rightarrow> bool" where
  "in64 x \<longleftrightarrow> - (2 ^ 63) \<le> x \<and> x < 2 ^ 63"

lemma wrap64_id [simp]: "in64 x \<Longrightarrow> wrap64 x = x"
  by (simp add: wrap64_def in64_def)

lemma in64_wrap64 [simp]: "in64 (wrap64 x)"
proof -
  have "0 \<le> (x + 2 ^ 63) mod 2 ^ 64" and "(x + 2 ^ 63) mod 2 ^ 64 < (2 ^ 64 :: int)"
    by simp_all
  then show ?thesis unfolding in64_def wrap64_def by simp
qed

lemma in64_between: "in64 a \<Longrightarrow> in64 b \<Longrightarrow> a \<le> x \<Longrightarrow> x \<le> b \<Longrightarrow> in64 x"
  by (simp add: in64_def)

text \<open>Go's integer division and remainder truncate towards zero.\<close>

definition go_div :: "int \<Rightarrow> int \<Rightarrow> int" where
  "go_div a b = sgn a * sgn b * (\<bar>a\<bar> div \<bar>b\<bar>)"

definition go_mod :: "int \<Rightarrow> int \<Rightarrow> int" where
  "go_mod a b = a - b * go_div a b"

lemma go_div_nonneg: "0 \<le> a \<Longrightarrow> 0 < b \<Longrightarrow> go_div a b = a div b"
  by (cases "a = 0") (auto simp: go_div_def)

lemma go_mod_nonneg: "0 \<le> a \<Longrightarrow> 0 < b \<Longrightarrow> go_mod a b = a mod b"
  by (simp add: go_mod_def go_div_nonneg minus_mult_div_eq_mod)

section \<open>Association lists as Go maps\<close>

type_synonym ('k, 'v) gomap = "('k \<times> 'v) list"

definition wf_map :: "('k, 'v) gomap \<Rightarrow> bool" where
  "wf_map m \<longleftrightarrow> distinct (map fst m)"

definition has_key :: "('k, 'v) gomap \<Rightarrow> 'k \<Rightarrow> bool" where
  "has_key m k \<longleftrightarrow> map_of m k \<noteq> None"

text \<open>Reading an absent key of a Go map gives the zero value.\<close>

definition get_or :: "'v \<Rightarrow> ('k, 'v) gomap \<Rightarrow> 'k \<Rightarrow> 'v" where
  "get_or z m k = (case map_of m k of None \<Rightarrow> z | Some v \<Rightarrow> v)"

text \<open>A loop that deletes the entries that fail a test keeps those that pass it.\<close>

definition keep :: "('k \<Rightarrow> 'v \<Rightarrow> bool) \<Rightarrow> ('k, 'v) gomap \<Rightarrow> ('k, 'v) gomap" where
  "keep P m = filter (\<lambda>(k, v). P k v) m"

lemma wf_map_Nil [simp]: "wf_map []"
  by (simp add: wf_map_def)

lemma wf_map_update [simp, wf_intros]: "wf_map m \<Longrightarrow> wf_map (AList.update k v m)"
  by (simp add: wf_map_def distinct_update)

lemma wf_map_delete [simp, wf_intros]: "wf_map m \<Longrightarrow> wf_map (AList.delete k m)"
  by (simp add: wf_map_def distinct_delete)

lemma wf_map_keep [simp, wf_intros]: "wf_map m \<Longrightarrow> wf_map (keep P m)"
  by (induction m) (auto simp: wf_map_def keep_def)

lemma map_of_keep: "wf_map m \<Longrightarrow> map_of (keep P m) k =
    (case map_of m k of None \<Rightarrow> None | Some v \<Rightarrow> if P k v then Some v else None)"
proof (induction m)
  case Nil
  then show ?case by (simp add: keep_def)
next
  case (Cons e m)
  obtain k' v' where e: "e = (k', v')" by (cases e)
  from Cons.prems e have "map_of m k' = None" and wf: "wf_map m"
    by (auto simp: wf_map_def map_of_eq_None_iff)
  with Cons.IH show ?case
    by (auto simp: e keep_def split: option.splits)
qed

lemma map_of_delete [simp]: "map_of (AList.delete k m) = (map_of m)(k := None)"
  by (rule ext) (simp add: delete_conv')

lemma map_of_update [simp]: "map_of (AList.update k v m) = (map_of m)(k \<mapsto> v)"
  by (rule ext) (simp add: update_conv')

lemma wf_map_mem_iff: "wf_map m \<Longrightarrow> (k, v) \<in> set m \<longleftrightarrow> map_of m k = Some v"
  by (simp add: wf_map_def)

lemma length_delete_le: "length (AList.delete k m) \<le> length m"
  by (simp add: AList.delete_eq)

lemma length_keep_le: "length (keep P m) \<le> length m"
  by (simp add: keep_def)

lemma length_update_new: "map_of m k = None \<Longrightarrow> length (AList.update k v m) = Suc (length m)"
  by (induction m) auto

lemma length_update_old: "map_of m k = Some w \<Longrightarrow> length (AList.update k v m) = length m"
  by (induction m) (auto split: if_splits)

lemma length_update_le: "length (AList.update k v m) \<le> Suc (length m)"
  by (induction m) auto

lemma length_delete_old:
  "wf_map m \<Longrightarrow> map_of m k = Some v \<Longrightarrow> Suc (length (AList.delete k m)) = length m"
proof (induction m)
  case Nil
  then show ?case by simp
next
  case (Cons e m)
  then show ?case
  proof (cases "fst e = k")
    case True
    with Cons.prems have "k \<notin> fst ` set m" by (auto simp: wf_map_def)
    then have "AList.delete k m = m" by (force simp: AList.delete_eq filter_id_conv)
    with True show ?thesis by (cases e) auto
  next
    case False
    with Cons show ?thesis by (cases e) (auto simp: wf_map_def)
  qed
qed

lemma delete_absent: "map_of m k = None \<Longrightarrow> AList.delete k m = m"
  by (auto simp: AList.delete_eq filter_id_conv map_of_eq_None_iff image_iff)

lemma set_update_subset: "set (AList.update k v m) \<subseteq> insert (k, v) (set m)"
  by (induction m) auto

lemma set_delete_subset: "set (AList.delete k m) \<subseteq> set m"
  by (simp add: AList.delete_eq)

lemma set_keep: "set (keep P m) = {(k, v). (k, v) \<in> set m \<and> P k v}"
  by (auto simp: keep_def)

lemma keep_id: "(\<And>k v. (k, v) \<in> set m \<Longrightarrow> P k v) \<Longrightarrow> keep P m = m"
  by (auto simp: keep_def filter_id_conv)

lemma keep_Nil [simp]: "keep P [] = []"
  by (simp add: keep_def)

lemma keep_keep: "keep P (keep Q m) = keep (\<lambda>k v. P k v \<and> Q k v) m"
  by (induction m) (auto simp: keep_def)

section \<open>Machines\<close>

text \<open>
  Every stateful component is a step function over its events. A component that keeps an
  invariant keeps it over any run; the locale proves that once, and each component interprets it
  on its own step function and its own invariant.
\<close>

primrec run_steps :: "('s \<Rightarrow> 'e \<Rightarrow> 's) \<Rightarrow> 's \<Rightarrow> 'e list \<Rightarrow> 's" where
  "run_steps step s [] = s"
| "run_steps step s (e # es) = run_steps step (step s e) es"

lemma run_steps_append: "run_steps step s (es @ fs) = run_steps step (run_steps step s es) fs"
  by (induction es arbitrary: s) auto

locale machine =
  fixes start :: 's
    and step :: "'s \<Rightarrow> 'e \<Rightarrow> 's"
    and ok :: "'s \<Rightarrow> bool"
  assumes ok_start: "ok start"
    and ok_step: "ok s \<Longrightarrow> ok (step s e)"
begin

lemma ok_run: "ok s \<Longrightarrow> ok (run_steps step s es)"
  by (induction es arbitrary: s) (simp_all add: ok_step)

lemma ok_reachable: "ok (run_steps step start es)"
  by (rule ok_run) (rule ok_start)

lemma ok_prefix: "ok s \<Longrightarrow> ok (run_steps step s (take n es))"
  by (rule ok_run)

end

text \<open>A machine with a quantity that no step lowers: it never goes down along a run.\<close>

locale monotone_machine = machine start step ok
  for start :: 's and step :: "'s \<Rightarrow> 'e \<Rightarrow> 's" and ok :: "'s \<Rightarrow> bool" +
  fixes level :: "'s \<Rightarrow> 'q::preorder"
  assumes level_step: "ok s \<Longrightarrow> level s \<le> level (step s e)"
begin

lemma level_run: "ok s \<Longrightarrow> level s \<le> level (run_steps step s es)"
proof (induction es arbitrary: s)
  case Nil
  then show ?case by simp
next
  case (Cons e es)
  from Cons.prems have "level s \<le> level (step s e)" by (rule level_step)
  also have "\<dots> \<le> level (run_steps step (step s e) es)"
    by (rule Cons.IH) (rule ok_step [OF Cons.prems])
  finally show ?case by simp
qed

end

section \<open>Normalizers\<close>

text \<open>
  Several inputs are brought into a normal form or refused before anything uses them. What the
  callers rely on is that a value that was accepted once is accepted again, unchanged.
\<close>

locale normalizer =
  fixes norm :: "'a \<Rightarrow> 'e + 'a"
  assumes norm_fixed: "norm x = Inr y \<Longrightarrow> norm y = Inr y"
begin

lemma accepted_iff: "(\<exists>x. norm x = Inr y) \<longleftrightarrow> norm y = Inr y"
  using norm_fixed by blast

lemma norm_rounds: "norm x = Inr y \<Longrightarrow>
    ((\<lambda>r. case r of Inl e \<Rightarrow> Inl e | Inr z \<Rightarrow> norm z) ^^ n) (norm x) = norm x"
  by (induction n) (simp_all add: norm_fixed)

end

end
