(* ===== verification/GoText.thy ===== *)
theory GoText
  imports Prelude "HOL-Library.Sublist"
begin

text \<open>
  What the code uses of Go's \<open>strings\<close>, \<open>strconv\<close> and \<open>fmt\<close> packages. A Go string is a
  sequence of bytes, and so is a HOL \<open>string\<close>. \<open>trim_space\<close> removes the bytes of every Unicode
  white-space character, as \<open>strings.TrimSpace\<close> does. The case mappings act on the ASCII letters
  and leave every other byte as it is, so letters beyond ASCII are outside the model.
\<close>

section \<open>Case\<close>

definition lower_char :: "char \<Rightarrow> char" where
  "lower_char c = (let n = (of_char c :: nat) in if 65 \<le> n \<and> n \<le> 90 then char_of (n + 32) else c)"

definition upper_char :: "char \<Rightarrow> char" where
  "upper_char c = (let n = (of_char c :: nat) in if 97 \<le> n \<and> n \<le> 122 then char_of (n - 32) else c)"

definition to_lower :: "string \<Rightarrow> string" where
  "to_lower s = map lower_char s"

definition to_upper :: "string \<Rightarrow> string" where
  "to_upper s = map upper_char s"

definition equal_fold :: "string \<Rightarrow> string \<Rightarrow> bool" where
  "equal_fold s t \<longleftrightarrow> to_lower s = to_lower t"

lemma lower_char_idem [simp]: "lower_char (lower_char c) = lower_char c"
  by (simp add: lower_char_def Let_def)

lemma upper_char_idem [simp]: "upper_char (upper_char c) = upper_char c"
proof (cases "97 \<le> (of_char c :: nat) \<and> (of_char c :: nat) \<le> 122")
  case True
  then have "((of_char c :: nat) - 32) mod 256 = of_char c - 32" by (intro mod_less) arith
  moreover from True have "\<not> 97 \<le> (of_char c :: nat) - 32" by arith
  ultimately show ?thesis using True by (simp add: upper_char_def Let_def)
next
  case False
  then show ?thesis by (auto simp: upper_char_def Let_def)
qed

lemma to_lower_idem [simp]: "to_lower (to_lower s) = to_lower s"
  by (simp add: to_lower_def)

lemma to_upper_idem [simp]: "to_upper (to_upper s) = to_upper s"
  by (simp add: to_upper_def)

lemma to_case_Nil [simp]: "to_lower [] = []" "to_upper [] = []"
  by (simp_all add: to_lower_def to_upper_def)

lemma to_lower_Nil_iff [simp]: "to_lower s = [] \<longleftrightarrow> s = []"
  by (simp add: to_lower_def)

lemma to_upper_Nil_iff [simp]: "to_upper s = [] \<longleftrightarrow> s = []"
  by (simp add: to_upper_def)

section \<open>White space\<close>

text \<open>The UTF-8 encodings of the characters for which \<open>unicode.IsSpace\<close> holds.\<close>

definition space_codes :: "nat list list" where
  "space_codes = [[9], [10], [11], [12], [13], [32], [0xC2, 0x85], [0xC2, 0xA0],
     [0xE1, 0x9A, 0x80], [0xE2, 0x80, 0x80], [0xE2, 0x80, 0x81], [0xE2, 0x80, 0x82],
     [0xE2, 0x80, 0x83], [0xE2, 0x80, 0x84], [0xE2, 0x80, 0x85], [0xE2, 0x80, 0x86],
     [0xE2, 0x80, 0x87], [0xE2, 0x80, 0x88], [0xE2, 0x80, 0x89], [0xE2, 0x80, 0x8A],
     [0xE2, 0x80, 0xA8], [0xE2, 0x80, 0xA9], [0xE2, 0x80, 0xAF], [0xE2, 0x81, 0x9F],
     [0xE3, 0x80, 0x80]]"

definition codes :: "string \<Rightarrow> nat list" where
  "codes s = map of_char s"

text \<open>The number of bytes of the space that a byte sequence starts with, 0 when it starts with none.\<close>

definition leading_space :: "nat list \<Rightarrow> nat" where
  "leading_space ns = (case find (\<lambda>p. prefix p ns) space_codes of None \<Rightarrow> 0 | Some p \<Rightarrow> length p)"

definition trailing_space :: "nat list \<Rightarrow> nat" where
  "trailing_space ns = (case find (\<lambda>p. suffix p ns) space_codes of None \<Rightarrow> 0 | Some p \<Rightarrow> length p)"

function trim_left_codes :: "nat list \<Rightarrow> nat list" where
  "trim_left_codes ns = (if leading_space ns = 0 \<or> ns = [] then ns
     else trim_left_codes (drop (leading_space ns) ns))"
  by pat_completeness auto
termination
  by (relation "measure length") auto

function trim_right_codes :: "nat list \<Rightarrow> nat list" where
  "trim_right_codes ns = (if trailing_space ns = 0 \<or> ns = [] then ns
     else trim_right_codes (take (length ns - trailing_space ns) ns))"
  by pat_completeness auto
termination
  by (relation "measure length") auto

declare trim_left_codes.simps [simp del] trim_right_codes.simps [simp del]

definition trim_space :: "string \<Rightarrow> string" where
  "trim_space s = map char_of (trim_right_codes (trim_left_codes (codes s)))"

lemma space_codes_nonempty: "p \<in> set space_codes \<Longrightarrow> p \<noteq> []"
  by (auto simp: space_codes_def)

lemma leading_space_0_iff: "leading_space ns = 0 \<longleftrightarrow> (\<forall>p \<in> set space_codes. \<not> prefix p ns)"
  using space_codes_nonempty
  by (auto simp: leading_space_def find_None_iff find_Some_iff split: option.splits
      dest: nth_mem)

lemma trailing_space_0_iff: "trailing_space ns = 0 \<longleftrightarrow> (\<forall>p \<in> set space_codes. \<not> suffix p ns)"
  using space_codes_nonempty
  by (auto simp: trailing_space_def find_None_iff find_Some_iff split: option.splits
      dest: nth_mem)

lemma leading_space_Nil [simp]: "leading_space [] = 0"
  using space_codes_nonempty by (auto simp: leading_space_0_iff)

lemma trailing_space_Nil [simp]: "trailing_space [] = 0"
  using space_codes_nonempty by (auto simp: trailing_space_0_iff)

lemma trim_left_done: "leading_space (trim_left_codes ns) = 0"
proof (induction ns rule: trim_left_codes.induct)
  case (1 ns)
  then show ?case by (cases "leading_space ns = 0 \<or> ns = []") (auto simp: trim_left_codes.simps [of ns])
qed

lemma trim_right_done: "trailing_space (trim_right_codes ns) = 0"
proof (induction ns rule: trim_right_codes.induct)
  case (1 ns)
  then show ?case by (cases "trailing_space ns = 0 \<or> ns = []") (auto simp: trim_right_codes.simps [of ns])
qed

lemma trim_right_prefix: "prefix (trim_right_codes ns) ns"
proof (induction ns rule: trim_right_codes.induct)
  case (1 ns)
  show ?case
  proof (cases "trailing_space ns = 0 \<or> ns = []")
    case True
    then show ?thesis by (auto simp: trim_right_codes.simps [of ns])
  next
    case False
    with 1 have "prefix (trim_right_codes ns) (take (length ns - trailing_space ns) ns)"
      by (simp add: trim_right_codes.simps [of ns])
    then show ?thesis using take_is_prefix prefix_order.trans by blast
  qed
qed

lemma trim_left_suffix: "suffix (trim_left_codes ns) ns"
proof (induction ns rule: trim_left_codes.induct)
  case (1 ns)
  show ?case
  proof (cases "leading_space ns = 0 \<or> ns = []")
    case True
    then show ?thesis by (auto simp: trim_left_codes.simps [of ns])
  next
    case False
    with 1 have "suffix (trim_left_codes ns) (drop (leading_space ns) ns)"
      by (simp add: trim_left_codes.simps [of ns])
    then show ?thesis using suffix_drop suffix_order.trans by blast
  qed
qed

lemma trim_left_fix: "leading_space ns = 0 \<Longrightarrow> trim_left_codes ns = ns"
  by (simp add: trim_left_codes.simps [of ns])

lemma trim_right_fix: "trailing_space ns = 0 \<Longrightarrow> trim_right_codes ns = ns"
  by (simp add: trim_right_codes.simps [of ns])

lemma leading_space_prefix:
  "leading_space ns = 0 \<Longrightarrow> prefix ms ns \<Longrightarrow> leading_space ms = 0"
  by (meson leading_space_0_iff prefix_order.trans)

definition trimmed :: "string \<Rightarrow> bool" where
  "trimmed s \<longleftrightarrow> leading_space (codes s) = 0 \<and> trailing_space (codes s) = 0"

lemma codes_map_char_of: "\<forall>n \<in> set ns. n < 256 \<Longrightarrow> codes (map char_of ns) = ns"
  by (induction ns) (auto simp: codes_def of_char_of)

lemma codes_bound: "n \<in> set (codes s) \<Longrightarrow> n < 256"
  by (auto simp: codes_def)

lemma map_char_of_codes [simp]: "map char_of (codes s) = s"
  by (simp add: codes_def comp_def)

lemma codes_trim_space:
  "codes (trim_space s) = trim_right_codes (trim_left_codes (codes s))"
proof -
  have "set (trim_right_codes (trim_left_codes (codes s))) \<subseteq> set (codes s)"
    using trim_right_prefix trim_left_suffix by (meson order_trans set_mono_prefix set_mono_suffix)
  then show ?thesis
    unfolding trim_space_def using codes_bound by (intro codes_map_char_of) blast
qed

lemma trimmed_trim_space [simp]: "trimmed (trim_space s)"
  unfolding trimmed_def codes_trim_space
  using leading_space_prefix trim_left_done trim_right_done trim_right_prefix by blast

lemma trim_space_fix: "trimmed s \<Longrightarrow> trim_space s = s"
  by (simp add: trimmed_def trim_space_def trim_left_fix trim_right_fix)

lemma trim_space_idem [simp]: "trim_space (trim_space s) = trim_space s"
  by (simp add: trim_space_fix)

lemma trimmed_Nil [simp]: "trimmed []"
  by (simp add: trimmed_def codes_def)

lemma trim_space_Nil [simp]: "trim_space [] = []"
  by (simp add: trim_space_fix)

text \<open>Text that starts and ends with a visible ASCII character has nothing to trim.\<close>

definition plain_char :: "char \<Rightarrow> bool" where
  "plain_char c \<longleftrightarrow> 32 < (of_char c :: nat) \<and> (of_char c :: nat) < 128"

lemma space_codes_edges:
  "p \<in> set space_codes \<Longrightarrow> (hd p \<le> 32 \<or> 128 \<le> hd p) \<and> (last p \<le> 32 \<or> 128 \<le> last p)"
  by (auto simp: space_codes_def)

lemma trim_space_plain:
  assumes "plain_char (hd s)" and "plain_char (last s)"
  shows "trim_space s = s"
proof (cases "s = []")
  case False
  then have ends: "hd (codes s) = of_char (hd s)" "last (codes s) = of_char (last s)" "codes s \<noteq> []"
    by (simp_all add: codes_def hd_map last_map)
  have "\<not> prefix p (codes s) \<and> \<not> suffix p (codes s)" if "p \<in> set space_codes" for p
  proof -
    have "p \<noteq> []" using that by (rule space_codes_nonempty)
    then have "prefix p (codes s) \<Longrightarrow> hd p = hd (codes s)" "suffix p (codes s) \<Longrightarrow> last p = last (codes s)"
      by (auto elim!: prefixE suffixE)
    with space_codes_edges [OF that] ends assms show ?thesis by (auto simp: plain_char_def)
  qed
  then have "trimmed s" by (auto simp: trimmed_def leading_space_0_iff trailing_space_0_iff)
  then show ?thesis by (rule trim_space_fix)
qed simp

lemmas text_eval = trim_space_plain plain_char_def to_lower_def lower_char_def to_upper_def
  upper_char_def equal_fold_def char_of_eq_iff

text \<open>Case mapping moves no byte into or out of a space, so it commutes with trimming.\<close>

definition space_byte :: "nat \<Rightarrow> bool" where
  "space_byte n \<longleftrightarrow> n < 65 \<or> 122 < n"

lemma space_codes_bytes: "p \<in> set space_codes \<Longrightarrow> n \<in> set p \<Longrightarrow> space_byte n"
  by (auto simp: space_codes_def space_byte_def)

lemma map_eq_on_fixed:
  assumes fixed: "\<And>n. f n = n \<or> (\<not> space_byte n \<and> \<not> space_byte (f n))"
    and p: "\<forall>n \<in> set p. space_byte n"
  shows "map f ns = p \<longleftrightarrow> ns = p"
  using p
proof (induction p arbitrary: ns)
  case Nil
  then show ?case by simp
next
  case (Cons n p)
  show ?case
  proof (cases ns)
    case Nil
    then show ?thesis by simp
  next
    case (Cons m ms)
    with Cons.prems fixed [of m] Cons.IH [of ms] show ?thesis by auto
  qed
qed

lemma prefix_map_fixed:
  assumes "\<And>n. f n = n \<or> (\<not> space_byte n \<and> \<not> space_byte (f n))" and "\<forall>n \<in> set p. space_byte n"
  shows "prefix p (map f ns) \<longleftrightarrow> prefix p ns"
proof -
  have "take (length p) (map f ns) = p \<longleftrightarrow> take (length p) ns = p"
    using map_eq_on_fixed [OF assms, of "take (length p) ns"] by (simp add: take_map)
  then show ?thesis by (metis append_eq_conv_conj prefix_def take_is_prefix)
qed

lemma suffix_map_fixed:
  assumes "\<And>n. f n = n \<or> (\<not> space_byte n \<and> \<not> space_byte (f n))" and "\<forall>n \<in> set p. space_byte n"
  shows "suffix p (map f ns) \<longleftrightarrow> suffix p ns"
  using prefix_map_fixed [OF assms(1), of "rev p" "rev ns"] assms(2)
  by (simp add: suffix_to_prefix rev_map)

lemma trimmed_map_fixed:
  assumes "\<And>n. f n = n \<or> (\<not> space_byte n \<and> \<not> space_byte (f n))" and "codes t = map f (codes s)"
  shows "trimmed t \<longleftrightarrow> trimmed s"
  using assms(2) prefix_map_fixed [OF assms(1)] suffix_map_fixed [OF assms(1)] space_codes_bytes
  by (auto simp: trimmed_def leading_space_0_iff trailing_space_0_iff)

lemma trimmed_to_lower [simp]: "trimmed (to_lower s) \<longleftrightarrow> trimmed s"
  by (rule trimmed_map_fixed [where f = "\<lambda>n. if 65 \<le> n \<and> n \<le> 90 then n + 32 else n"])
    (auto simp: space_byte_def codes_def to_lower_def lower_char_def Let_def)

lemma trimmed_to_upper [simp]: "trimmed (to_upper s) \<longleftrightarrow> trimmed s"
  by (rule trimmed_map_fixed [where f = "\<lambda>n. if 97 \<le> n \<and> n \<le> 122 then n - 32 else n"])
    (auto simp: space_byte_def codes_def to_upper_def upper_char_def Let_def)

section \<open>Searching and splitting\<close>

text \<open>\<open>strings.Index\<close>: the first position at which \<open>sub\<close> occurs.\<close>

fun index_of :: "string \<Rightarrow> string \<Rightarrow> nat option" where
  "index_of [] sub = (if sub = [] then Some 0 else None)"
| "index_of (c # s) sub = (if prefix sub (c # s) then Some 0 else map_option Suc (index_of s sub))"

definition contains :: "string \<Rightarrow> string \<Rightarrow> bool" where
  "contains s sub \<longleftrightarrow> index_of s sub \<noteq> None"

lemma index_of_bound: "index_of s sub = Some i \<Longrightarrow> i + length sub \<le> length s"
  by (induction s arbitrary: i) (auto split: if_splits dest: prefix_length_le)

lemma index_of_drop_shorter:
  assumes "sep \<noteq> []" and "index_of s sep = Some i"
  shows "length (drop (i + length sep) s) < length s"
proof -
  have "i + length sep \<le> length s" and "0 < length sep"
    using assms by (auto dest: index_of_bound)
  then show ?thesis unfolding length_drop by linarith
qed

text \<open>\<open>strings.Split\<close> with a separator that is not empty.\<close>

function split_str :: "string \<Rightarrow> string \<Rightarrow> string list" where
  "split_str sep s =
    (if sep = [] then [s] else
     case index_of s sep of None \<Rightarrow> [s]
     | Some i \<Rightarrow> take i s # split_str sep (drop (i + length sep) s))"
  by pat_completeness auto
termination
  by (relation "measure (\<lambda>(sep, s). length s)") (auto dest: index_of_drop_shorter simp del: length_drop)

declare split_str.simps [simp del]

lemma split_str_nonempty: "split_str sep s \<noteq> []"
  by (subst split_str.simps) (auto split: option.splits)

text \<open>\<open>strings.SplitN\<close> with at most two parts.\<close>

definition split_str2 :: "string \<Rightarrow> string \<Rightarrow> string list" where
  "split_str2 sep s = (case index_of s sep of None \<Rightarrow> [s]
     | Some i \<Rightarrow> [take i s, drop (i + length sep) s])"

text \<open>\<open>strings.ReplaceAll\<close>: joining the parts with the new text; \<open>replace1\<close> replaces the first one.\<close>

fun join :: "string \<Rightarrow> string list \<Rightarrow> string" where
  "join sep [] = []"
| "join sep [s] = s"
| "join sep (s # t # ts) = s @ sep @ join sep (t # ts)"

definition replace_all :: "string \<Rightarrow> string \<Rightarrow> string \<Rightarrow> string" where
  "replace_all s old new = join new (split_str old s)"

definition replace1 :: "string \<Rightarrow> string \<Rightarrow> string \<Rightarrow> string" where
  "replace1 s old new = join new (split_str2 old s)"

definition trim_prefix :: "string \<Rightarrow> string \<Rightarrow> string" where
  "trim_prefix s p = (if prefix p s then drop (length p) s else s)"

text \<open>\<open>strings.Fields\<close>: the maximal runs of bytes that are not white space.\<close>

fun fields_codes :: "nat list \<Rightarrow> nat \<Rightarrow> nat list \<Rightarrow> nat list list" where
  "fields_codes [] skip acc = (if acc = [] then [] else [rev acc])"
| "fields_codes (n # ns) (Suc skip) acc = fields_codes ns skip acc"
| "fields_codes (n # ns) 0 acc = (case leading_space (n # ns) of
      0 \<Rightarrow> fields_codes ns 0 (n # acc)
    | Suc k \<Rightarrow> (if acc = [] then fields_codes ns k [] else rev acc # fields_codes ns k []))"

definition fields :: "string \<Rightarrow> string list" where
  "fields s = map (map char_of) (fields_codes (codes s) 0 [])"

section \<open>Decimal numbers\<close>

definition digit_char :: "nat \<Rightarrow> char" where
  "digit_char d = char_of (48 + d)"

definition digit_val :: "char \<Rightarrow> nat option" where
  "digit_val c = (let n = (of_char c :: nat) in if 48 \<le> n \<and> n \<le> 57 then Some (n - 48) else None)"

function show_nat :: "nat \<Rightarrow> string" where
  "show_nat n = (if n < 10 then [digit_char n] else show_nat (n div 10) @ [digit_char (n mod 10)])"
  by pat_completeness auto
termination
  by (relation "measure id") auto

declare show_nat.simps [simp del]

definition show_int :: "int \<Rightarrow> string" where
  "show_int i = (if i < 0 then CHR ''-'' # show_nat (nat (- i)) else show_nat (nat i))"

text \<open>\<open>%0<w>d\<close> pads with zeros between the sign and the digits.\<close>

definition pad_int :: "nat \<Rightarrow> int \<Rightarrow> string" where
  "pad_int w i =
    (if i < 0 then (let d = show_nat (nat (- i)) in CHR ''-'' # replicate (w - Suc (length d)) (CHR ''0'') @ d)
     else (let d = show_nat (nat i) in replicate (w - length d) (CHR ''0'') @ d))"

fun digits_val :: "nat \<Rightarrow> string \<Rightarrow> nat option" where
  "digits_val acc [] = Some acc"
| "digits_val acc (c # s) = (case digit_val c of None \<Rightarrow> None | Some d \<Rightarrow> digits_val (10 * acc + d) s)"

text \<open>\<open>strconv.ParseInt(s, 10, 64)\<close>: an optional sign, at least one digit, and the 64-bit range.\<close>

definition parse_int64 :: "string \<Rightarrow> int option" where
  "parse_int64 s =
    (let (neg, ds) = (case s of [] \<Rightarrow> (False, [])
        | c # t \<Rightarrow> if c = CHR ''-'' then (True, t) else if c = CHR ''+'' then (False, t) else (False, s))
     in if ds = [] then None
        else case digits_val 0 ds of None \<Rightarrow> None
          | Some n \<Rightarrow> (let i = (if neg then - int n else int n) in if in64 i then Some i else None))"

lemma digit_val_char: "d < 10 \<Longrightarrow> digit_val (digit_char d) = Some d"
  by (simp add: digit_val_def digit_char_def Let_def)

lemma digits_val_append:
  "digits_val acc (s @ t) = (case digits_val acc s of None \<Rightarrow> None | Some n \<Rightarrow> digits_val n t)"
  by (induction s arbitrary: acc) (auto split: option.splits)

lemma digits_val_show_nat: "digits_val 0 (show_nat n) = Some n"
proof (induction n rule: show_nat.induct)
  case (1 n)
  then show ?case
    by (subst show_nat.simps) (auto simp: digits_val_append digit_val_char)
qed

lemma digits_val_zeros: "digits_val 0 (replicate k (CHR ''0'') @ s) = digits_val 0 s"
  by (induction k) (auto simp: digit_val_def)

lemma show_nat_nonempty [simp]: "show_nat n \<noteq> []"
  by (subst show_nat.simps) simp

lemma set_show_nat: "c \<in> set (show_nat n) \<Longrightarrow> digit_val c \<noteq> None"
proof (induction n rule: show_nat.induct)
  case (1 n)
  then show ?case
    by (subst (asm) (2) show_nat.simps) (auto split: if_splits simp: digit_val_char)
qed

lemma parse_int64_digits:
  assumes "ds \<noteq> []" and "\<forall>c \<in> set ds. digit_val c \<noteq> None" and "digits_val 0 ds = Some n" and "int n < 2 ^ 63"
  shows "parse_int64 ds = Some (int n)"
proof -
  obtain c t where ds: "ds = c # t" using assms(1) by (cases ds) auto
  have "c \<noteq> CHR ''-''" and "c \<noteq> CHR ''+''"
    using assms(2) by (auto simp: ds digit_val_def)
  with assms(3,4) show ?thesis
    by (simp add: parse_int64_def ds in64_def split: option.splits)
qed

lemma length_show_nat: "n < 10 ^ k \<Longrightarrow> 0 < k \<Longrightarrow> length (show_nat n) \<le> k"
proof (induction k arbitrary: n)
  case 0
  then show ?case by simp
next
  case (Suc k)
  show ?case
  proof (cases "n < 10")
    case True
    then show ?thesis by (subst show_nat.simps) simp
  next
    case False
    with Suc.prems have "n div 10 < 10 ^ k" and "0 < k"
      by (auto simp: less_mult_imp_div_less) (cases k; simp)
    with Suc.IH False show ?thesis by (subst show_nat.simps) simp
  qed
qed

lemma parse_pad_int:
  assumes "0 \<le> i" and "i < 2 ^ 63"
  shows "parse_int64 (pad_int w i) = Some i"
proof -
  let ?ds = "replicate (w - length (show_nat (nat i))) (CHR ''0'') @ show_nat (nat i)"
  have "parse_int64 ?ds = Some (int (nat i))"
  proof (rule parse_int64_digits)
    show "\<forall>c \<in> set ?ds. digit_val c \<noteq> None"
      using set_show_nat by (auto simp: digit_val_def)
  qed (use assms in \<open>auto simp: digits_val_zeros digits_val_show_nat\<close>)
  with assms(1) show ?thesis by (simp add: pad_int_def Let_def)
qed

lemma length_pad_int:
  assumes "0 \<le> i" and "i < 10 ^ w" and "0 < w"
  shows "length (pad_int w i) = w"
proof -
  have "nat i < 10 ^ w" using assms(1,2) by (simp add: nat_less_iff)
  then have "length (show_nat (nat i)) \<le> w" using assms(3) by (rule length_show_nat)
  with assms(1) show ?thesis by (simp add: pad_int_def Let_def)
qed

lemma digit_val_0 [simp]: "digit_val (CHR ''0'') = Some 0"
  by (simp add: digit_val_def)

lemma set_pad_int: "0 \<le> i \<Longrightarrow> c \<in> set (pad_int w i) \<Longrightarrow> digit_val c \<noteq> None"
  using set_show_nat [of c "nat i"] by (auto simp: pad_int_def Let_def)

end
