(* ===== verification/Access.thy ===== *)
theory Access
  imports GoText
begin

text \<open>
  \<open>backend/access/policy.go\<close>: the content policy an owner gives a profile. \<open>validate\<close> brings a
  requested policy into normal form or refuses it; \<open>allows\<close> decides about one piece of content.
\<close>

section \<open>Policies and content\<close>

record policy =
  po_library_ids :: "string list"
  po_rating_region :: string
  po_max_rating :: string
  po_unrated :: string
  po_allow_tags :: "string list"
  po_deny_tags :: "string list"
  po_version :: int

record content =
  co_library_ids :: "string list"
  co_rating :: string
  co_tags :: "string list"

datatype access_error = ErrInvalidPolicy

definition UnratedAllow :: string where "UnratedAllow = ''allow''"
definition UnratedDeny :: string where "UnratedDeny = ''deny''"

definition zero_policy :: policy where
  "zero_policy = \<lparr>po_library_ids = [], po_rating_region = [], po_max_rating = [], po_unrated = [],
     po_allow_tags = [], po_deny_tags = [], po_version = 0\<rparr>"

definition rating_levels :: "(string, (string, int) gomap) gomap" where
  "rating_levels =
    [(''US'', [(''G'', 1), (''TV-Y'', 1), (''TV-Y7'', 1), (''TV-G'', 1), (''PG'', 2), (''TV-PG'', 2),
       (''PG-13'', 3), (''TV-14'', 3), (''R'', 4), (''TV-MA'', 4), (''NC-17'', 5)]),
     (''GB'', [(''U'', 1), (''PG'', 2), (''12'', 3), (''12A'', 3), (''15'', 4), (''18'', 5), (''R18'', 6)])]"

section \<open>Operations\<close>

fun normalized_loop :: "bool \<Rightarrow> string list \<Rightarrow> string list \<Rightarrow> string list" where
  "normalized_loop folds seen [] = []"
| "normalized_loop folds seen (v # vs) =
    (let value = trim_space v; value = (if folds then to_lower value else value)
     in if value = [] \<or> value \<in> set seen then normalized_loop folds seen vs
        else value # normalized_loop folds (value # seen) vs)"

definition normalized :: "string list \<Rightarrow> bool \<Rightarrow> string list" where
  "normalized values folds = sort (normalized_loop folds [] values)"

definition restricted :: "policy \<Rightarrow> bool" where
  "restricted p \<longleftrightarrow> po_library_ids p \<noteq> [] \<or> po_max_rating p \<noteq> [] \<or> po_allow_tags p \<noteq> [] \<or> po_deny_tags p \<noteq> []"

definition validate :: "policy \<Rightarrow> access_error + policy" where
  "validate p0 =
    (let p = p0\<lparr>po_library_ids := normalized (po_library_ids p0) False,
        po_allow_tags := normalized (po_allow_tags p0) True,
        po_deny_tags := normalized (po_deny_tags p0) True,
        po_rating_region := to_upper (trim_space (po_rating_region p0)),
        po_max_rating := to_upper (trim_space (po_max_rating p0))\<rparr>;
      p = (if po_unrated p = [] then p\<lparr>po_unrated := UnratedAllow\<rparr> else p)
    in if po_unrated p \<noteq> UnratedAllow \<and> po_unrated p \<noteq> UnratedDeny then Inl ErrInvalidPolicy
       else if po_max_rating p = [] then
         (if po_rating_region p \<noteq> [] then Inl ErrInvalidPolicy else Inr (p\<lparr>po_version := 0\<rparr>))
       else case map_of rating_levels (po_rating_region p) of
           None \<Rightarrow> Inl ErrInvalidPolicy
         | Some levels \<Rightarrow> (case map_of levels (po_max_rating p) of
               None \<Rightarrow> Inl ErrInvalidPolicy
             | Some _ \<Rightarrow> Inr (p\<lparr>po_version := 0\<rparr>)))"

definition unrestricted :: policy where
  "unrestricted = (case validate zero_policy of Inl _ \<Rightarrow> zero_policy | Inr p \<Rightarrow> p)"

text \<open>A string set is kept as the list it was built from; membership is all the code asks of it.\<close>

definition string_set :: "string list \<Rightarrow> string set" where
  "string_set values = set values"

fun intersects :: "string set \<Rightarrow> string list \<Rightarrow> bool \<Rightarrow> bool" where
  "intersects allowed [] folds = False"
| "intersects allowed (v # vs) folds =
    (let value = trim_space v; value = (if folds then to_lower value else value)
     in if value \<in> allowed then True else intersects allowed vs folds)"

definition rating_allowed :: "policy \<Rightarrow> content \<Rightarrow> bool" where
  "rating_allowed p c =
    (let rating = to_upper (trim_space (co_rating c))
     in if rating = [] then po_unrated p = UnratedAllow
        else (let levels = get_or [] rating_levels (po_rating_region p)
              in case (map_of levels rating, map_of levels (po_max_rating p)) of
                  (Some actual, Some limit) \<Rightarrow> \<not> actual > limit
                | _ \<Rightarrow> False))"

definition allows :: "policy \<Rightarrow> content \<Rightarrow> bool" where
  "allows p c =
    (if \<not> restricted p then True
     else if (\<exists>tag \<in> set (po_deny_tags p). to_lower tag \<in> string_set (normalized (co_tags c) True)) then False
     else if po_library_ids p \<noteq> [] \<and> \<not> intersects (string_set (po_library_ids p)) (co_library_ids c) False then False
     else if po_max_rating p \<noteq> [] \<and> \<not> rating_allowed p c then False
     else po_allow_tags p = [] \<or> intersects (string_set (po_allow_tags p)) (co_tags c) True)"

section \<open>Normal forms\<close>

definition fold_value :: "bool \<Rightarrow> string \<Rightarrow> string" where
  "fold_value folds v = (if folds then to_lower (trim_space v) else trim_space v)"

lemma fold_value_idem [simp]: "fold_value b (fold_value b v) = fold_value b v"
  by (simp add: fold_value_def trim_space_fix)

lemma set_normalized_loop: "set (normalized_loop b seen vs) = fold_value b ` set vs - {[]} - set seen"
  by (induction b seen vs rule: normalized_loop.induct) (auto simp: Let_def fold_value_def)

lemma distinct_normalized_loop: "distinct (normalized_loop b seen vs)"
  by (induction b seen vs rule: normalized_loop.induct) (auto simp: Let_def set_normalized_loop)

lemma set_normalized: "set (normalized vs b) = fold_value b ` set vs - {[]}"
  by (simp add: normalized_def set_normalized_loop)

lemma sorted_normalized: "sorted (normalized vs b)" and distinct_normalized: "distinct (normalized vs b)"
  by (simp_all add: normalized_def distinct_normalized_loop)

lemma normalized_idem [simp]: "normalized (normalized vs b) b = normalized vs b"
proof (rule sorted_distinct_set_unique)
  have "fold_value b ` (fold_value b ` A - {[]}) - {[]} = fold_value b ` A - {[]}" for A
  proof (intro equalityI subsetI)
    fix x
    assume "x \<in> fold_value b ` A - {[]}"
    then have "x = fold_value b x" and "x \<in> fold_value b ` A - {[]}" by auto
    then show "x \<in> fold_value b ` (fold_value b ` A - {[]}) - {[]}" by blast
  qed auto
  then show "set (normalized (normalized vs b) b) = set (normalized vs b)"
    by (simp add: set_normalized)
qed (simp_all add: sorted_normalized distinct_normalized)

lemma intersects_iff: "intersects allowed vs b \<longleftrightarrow> (\<exists>v \<in> set vs. fold_value b v \<in> allowed)"
  by (induction allowed vs b rule: intersects.induct) (auto simp: Let_def fold_value_def)

definition normal_form :: "policy \<Rightarrow> policy" where
  "normal_form p = \<lparr>po_library_ids = normalized (po_library_ids p) False,
     po_rating_region = to_upper (trim_space (po_rating_region p)),
     po_max_rating = to_upper (trim_space (po_max_rating p)),
     po_unrated = (if po_unrated p = [] then UnratedAllow else po_unrated p),
     po_allow_tags = normalized (po_allow_tags p) True,
     po_deny_tags = normalized (po_deny_tags p) True, po_version = 0\<rparr>"

definition acceptable :: "policy \<Rightarrow> bool" where
  "acceptable p \<longleftrightarrow> po_unrated p \<in> {UnratedAllow, UnratedDeny} \<and>
     (if po_max_rating p = [] then po_rating_region p = []
      else has_key (get_or [] rating_levels (po_rating_region p)) (po_max_rating p))"

lemma validate_eq:
  "validate p = (if acceptable (normal_form p) then Inr (normal_form p) else Inl ErrInvalidPolicy)"
proof -
  have "UnratedAllow \<noteq> []" and "UnratedDeny \<noteq> []"
    by (simp_all add: UnratedAllow_def UnratedDeny_def)
  then show ?thesis
    by (cases "po_unrated p = []"; cases "trim_space (po_max_rating p) = []")
      (auto simp: validate_def Let_def normal_form_def acceptable_def has_key_def get_or_def
        split: option.splits)
qed

lemma normal_form_idem [simp]: "normal_form (normal_form p) = normal_form p"
  by (simp add: normal_form_def trim_space_fix UnratedAllow_def)

lemma validate_Inr: "validate p = Inr q \<Longrightarrow> q = normal_form p \<and> acceptable q"
  by (auto simp: validate_eq split: if_splits)

lemma validate_fixed: "validate p = Inr q \<Longrightarrow> validate q = Inr q"
  by (auto simp: validate_eq split: if_splits)

interpretation policy_norm: normalizer validate
  by unfold_locales (rule validate_fixed)

section \<open>Properties\<close>

text \<open>
  validating a policy twice is validating it once. Whatever an owner submits, a policy that
  was accepted is a fixed point of \<open>validate\<close>, so loading a stored policy and saving it again
  never changes or refuses it.
\<close>

theorem validate_idempotent:
  assumes "validate p = Inr q"
  shows "validate q = Inr q \<and> sorted (po_library_ids q) \<and> distinct (po_allow_tags q) \<and> [] \<notin> set (po_deny_tags q)"
  using policy_norm.norm_fixed [OF assms] validate_Inr [OF assms]
  by (simp add: normal_form_def sorted_normalized distinct_normalized set_normalized)

definition sample_request :: policy where
  "sample_request = zero_policy\<lparr>po_library_ids := [''tv '', ''films'', ''tv''], po_rating_region := ''us'',
     po_max_rating := '' pg-13'', po_deny_tags := [''Horror'', ''gore'', ''HORROR'']\<rparr>"

definition sample_policy :: policy where
  "sample_policy = zero_policy\<lparr>po_library_ids := [''films'', ''tv''], po_rating_region := ''US'',
     po_max_rating := ''PG-13'', po_unrated := ''allow'', po_deny_tags := [''gore'', ''horror'']\<rparr>"

lemma validate_sample: "validate sample_request = Inr sample_policy"
  by code_simp

theorem validate_idempotent_witness: "validate sample_policy = Inr sample_policy"
  using validate_idempotent [OF validate_sample] by blast

text \<open>What the policy promises, with each dimension as one condition on folded values.\<close>

definition folded_tags :: "content \<Rightarrow> string set" where
  "folded_tags c = fold_value True ` set (co_tags c) - {[]}"

definition library_visible :: "policy \<Rightarrow> content \<Rightarrow> bool" where
  "library_visible p c \<longleftrightarrow> po_library_ids p = [] \<or>
     (\<exists>v \<in> set (co_library_ids c). trim_space v \<in> set (po_library_ids p))"

definition tags_visible :: "policy \<Rightarrow> content \<Rightarrow> bool" where
  "tags_visible p c \<longleftrightarrow> (\<forall>t \<in> set (po_deny_tags p). to_lower t \<notin> folded_tags c) \<and>
     (po_allow_tags p = [] \<or> (\<exists>v \<in> set (co_tags c). fold_value True v \<in> set (po_allow_tags p)))"

definition rating_visible :: "policy \<Rightarrow> content \<Rightarrow> bool" where
  "rating_visible p c \<longleftrightarrow> po_max_rating p = [] \<or> rating_allowed p c"

lemmas visible_defs = library_visible_def tags_visible_def rating_visible_def

lemma allows_spec: "allows p c \<longleftrightarrow> library_visible p c \<and> tags_visible p c \<and> rating_visible p c"
  by (auto simp: allows_def restricted_def visible_defs string_set_def set_normalized folded_tags_def
      intersects_iff fold_value_def)


text \<open>
  One policy is stricter than another when every dimension is: it denies more tags, and where
  the other limits libraries, allowed tags or the rating, it limits them within those bounds.
\<close>

definition rating_limit :: "policy \<Rightarrow> int option" where
  "rating_limit p = map_of (get_or [] rating_levels (po_rating_region p)) (po_max_rating p)"

definition stricter :: "policy \<Rightarrow> policy \<Rightarrow> bool" where
  "stricter p q \<longleftrightarrow>
     (po_library_ids q = [] \<or> po_library_ids p \<noteq> [] \<and> set (po_library_ids p) \<subseteq> set (po_library_ids q)) \<and>
     (po_allow_tags q = [] \<or> po_allow_tags p \<noteq> [] \<and> set (po_allow_tags p) \<subseteq> set (po_allow_tags q)) \<and>
     to_lower ` set (po_deny_tags q) \<subseteq> to_lower ` set (po_deny_tags p) \<and>
     (po_max_rating q = [] \<or> po_max_rating p \<noteq> [] \<and> po_rating_region p = po_rating_region q \<and>
        (po_unrated p = UnratedAllow \<longrightarrow> po_unrated q = UnratedAllow) \<and>
        (\<exists>l k. rating_limit p = Some l \<and> rating_limit q = Some k \<and> l \<le> k))"

lemma stricter_rating:
  assumes "stricter p q" and "rating_visible p c"
  shows "rating_visible q c"
proof (cases "po_max_rating q = []")
  case True
  then show ?thesis by (simp add: rating_visible_def)
next
  case False
  with assms(1) obtain l k where lim: "rating_limit p = Some l" "rating_limit q = Some k" "l \<le> k"
    and region: "po_rating_region p = po_rating_region q" and "po_max_rating p \<noteq> []"
    and unrated: "po_unrated p = UnratedAllow \<longrightarrow> po_unrated q = UnratedAllow"
    by (auto simp: stricter_def)
  with assms(2) have "rating_allowed p c" by (simp add: rating_visible_def)
  with lim region unrated show ?thesis
    by (auto simp: rating_visible_def rating_allowed_def rating_limit_def Let_def
        split: option.splits if_splits)
qed

text \<open>
  tightening a policy never reveals content. If a policy is stricter than another in every
  dimension, whatever it allows the other allows too; adding a deny tag, dropping a library or
  lowering the rating limit can only hide content.
\<close>

theorem stricter_hides:
  assumes "stricter p q" and "allows p c"
  shows "allows q c"
proof -
  from assms(2) have "library_visible p c" "tags_visible p c" "rating_visible p c"
    by (simp_all add: allows_spec)
  moreover from this assms(1) have "library_visible q c" and "tags_visible q c"
    by (auto 0 4 simp: stricter_def library_visible_def tags_visible_def)
  ultimately show ?thesis using stricter_rating [OF assms(1)] by (simp add: allows_spec)
qed

definition sample_content :: content where
  "sample_content = \<lparr>co_library_ids = [''films''], co_rating = ''pg'', co_tags = [''Drama'']\<rparr>"

theorem stricter_hides_witness: "allows unrestricted sample_content"
proof (rule stricter_hides)
  show "stricter sample_policy unrestricted"
    by (simp add: stricter_def unrestricted_def validate_def zero_policy_def normalized_def Let_def
        UnratedAllow_def UnratedDeny_def to_upper_def)
  show "allows sample_policy sample_content" by code_simp
qed

text \<open>
  Deny wins: content that carries a denied tag, however it is spelled in case and outer
  white space, is hidden whatever else the policy says, and content of another library is hidden
  from a profile restricted to some libraries.
\<close>

theorem deny_wins:
  assumes "t \<in> set (po_deny_tags p)" and "v \<in> set (co_tags c)"
    and "to_lower (trim_space v) = to_lower t" and "to_lower t \<noteq> []"
  shows "\<not> allows p c"
proof -
  from assms(2-4) have "to_lower t \<in> folded_tags c"
    by (auto simp: folded_tags_def fold_value_def image_iff) (metis to_lower_Nil_iff)
  with assms(1) show ?thesis by (auto simp: allows_spec tags_visible_def)
qed

theorem deny_wins_witness: "\<not> allows sample_policy (sample_content\<lparr>co_tags := ['' GORE '']\<rparr>)"
  by (rule deny_wins [of "''gore''" _ "'' GORE ''"])
    (code_simp, simp add: sample_content_def, code_simp, code_simp)

end
