(* ===== verification/Rounding.thy ===== *)
theory Rounding
  imports Complex_Main Prelude
begin

text \<open>
  IEEE 754 double precision on positive normal values, as Go's \<open>float64\<close> arithmetic uses it: the
  exact rational result is rounded to 53 significant bits, ties to even. \<open>binade\<close> is the
  exponent of the leading bit.
\<close>

definition round_even :: "rat \<Rightarrow> int" where
  "round_even x = (let f = \<lfloor>x\<rfloor>; d = x - of_int f
    in if d < 1 / 2 then f else if d > 1 / 2 then f + 1 else if even f then f else f + 1)"

fun halvings :: "nat \<Rightarrow> nat" where
  "halvings n = (if n < 2 then 0 else Suc (halvings (n div 2)))"

declare halvings.simps [simp del]

definition binade :: "rat \<Rightarrow> int" where
  "binade x = (case quotient_of x of (p, q) \<Rightarrow>
     (let k = int (halvings (nat p)) - int (halvings (nat q))
      in if 2 powi k \<le> x then k else k - 1))"

definition fl :: "rat \<Rightarrow> rat" where
  "fl x = (if x \<le> 0 then 0 else
    (let u = 2 powi (binade x - 52) in of_int (round_even (x / u)) * u))"

text \<open>Go's conversion of a positive float to an integer drops the fraction.\<close>

definition float_to_int :: "rat \<Rightarrow> int" where
  "float_to_int x = \<lfloor>x\<rfloor>"

lemma round_even_error: "\<bar>of_int (round_even x) - x\<bar> \<le> 1 / 2"
proof -
  define f where "f = \<lfloor>x\<rfloor>"
  have "of_int f \<le> x" and "x < of_int f + 1"
    unfolding f_def by linarith+
  then show ?thesis unfolding round_even_def Let_def f_def [symmetric] by (auto simp: abs_if)
qed

lemma halvings_bounds: "0 < n \<Longrightarrow> 2 ^ halvings n \<le> n \<and> n < 2 ^ Suc (halvings n)"
proof (induction n rule: halvings.induct)
  case (1 n)
  show ?case
  proof (cases "n < 2")
    case True
    with "1.prems" show ?thesis by (subst (1 2) halvings.simps) simp
  next
    case False
    with "1.IH" have "2 ^ halvings (n div 2) \<le> n div 2 \<and> n div 2 < 2 ^ Suc (halvings (n div 2))"
      by simp
    with False show ?thesis by (subst (1 2) halvings.simps) auto
  qed
qed

lemma binade_le: 
  assumes "0 < x"
  shows "2 powi binade x \<le> x"
proof -
  obtain p q where pq: "quotient_of x = (p, q)" by (cases "quotient_of x")
  have q: "0 < q" using pq by (rule quotient_of_denom_pos)
  have x: "x = of_int p / of_int q" using pq by (rule quotient_of_div)
  with assms q have p: "0 < p" by (simp add: zero_less_divide_iff)
  let ?a = "halvings (nat p)" and ?b = "halvings (nat q)"
  have "2 ^ ?a \<le> nat p" and "nat q < 2 ^ Suc ?b"
    using halvings_bounds [of "nat p"] halvings_bounds [of "nat q"] p q by simp_all
  then have "(2::int) ^ ?a \<le> p" and "q \<le> 2 ^ Suc ?b"
    using p q by (simp_all add: le_nat_iff nat_less_iff)
  then have "(2::rat) ^ ?a \<le> of_int p" and "of_int q \<le> (2::rat) ^ Suc ?b"
    by (metis of_int_le_iff of_int_numeral of_int_power)+
  then have "(2::rat) ^ ?a / 2 ^ Suc ?b \<le> x"
    unfolding x using p q by (intro frac_le) simp_all
  then have "2 powi (int ?a - int ?b - 1) \<le> x"
    by (simp add: power_int_diff power_int_minus divide_simps)
  then show ?thesis by (simp add: binade_def pq Let_def)
qed

text \<open>Rounding changes a positive value by at most one part in \<open>2 ^ 53\<close>.\<close>

lemma fl_error:
  assumes "0 < x"
  shows "\<bar>fl x - x\<bar> \<le> x / 2 ^ 53"
proof -
  let ?u = "2 powi (binade x - 52) :: rat"
  have u: "0 < ?u" by simp
  have "fl x - x = (of_int (round_even (x / ?u)) - x / ?u) * ?u"
    using assms u by (simp add: fl_def Let_def left_diff_distrib)
  then have "\<bar>fl x - x\<bar> = \<bar>of_int (round_even (x / ?u)) - x / ?u\<bar> * ?u"
    using u by (simp add: abs_mult)
  also have "\<dots> \<le> 1 / 2 * ?u"
    using round_even_error u by (intro mult_right_mono) auto
  also have "\<dots> = 2 powi binade x / 2 ^ 53"
    by (simp add: power_int_diff)
  also have "\<dots> \<le> x / 2 ^ 53"
    using binade_le [OF assms] by (intro divide_right_mono) auto
  finally show ?thesis .
qed

lemma fl_0: "x \<le> 0 \<Longrightarrow> fl x = 0"
  by (simp add: fl_def)

lemma fl_bounds:
  assumes "0 < x"
  shows "x * (1 - 1 / 2 ^ 53) \<le> fl x" and "fl x \<le> x * (1 + 1 / 2 ^ 53)"
proof -
  have "fl x - x \<le> x / 2 ^ 53" and "- (fl x - x) \<le> x / 2 ^ 53"
    using fl_error [OF assms] by (simp_all only: abs_le_iff)
  then show "x * (1 - 1 / 2 ^ 53) \<le> fl x" and "fl x \<le> x * (1 + 1 / 2 ^ 53)"
    by (simp_all add: algebra_simps)
qed

lemma fl_upper: "0 \<le> x \<Longrightarrow> fl x \<le> x * (1 + 1 / 2 ^ 53)"
  using fl_bounds(2) [of x] fl_0 [of x] by (cases "x = 0") simp_all

lemma fl_nonneg: "0 \<le> fl x"
proof (cases "0 < x")
  case True
  then have "0 \<le> x * (1 - 1 / 2 ^ 53)" by simp
  then show ?thesis using fl_bounds(1) [OF True] by linarith
qed (simp add: fl_0)

lemma round_even_of_int [simp]: "round_even (of_int n) = n"
  by (simp add: round_even_def)

text \<open>Integers below \<open>2 ^ 53\<close> are represented exactly.\<close>

lemma fl_of_int:
  assumes "0 < n" and "n < 2 ^ 53"
  shows "fl (of_int n) = of_int n"
proof -
  have pos: "(0::rat) < of_int n" using assms(1) by simp
  have "(2::rat) powi binade (of_int n) \<le> of_int n" by (rule binade_le [OF pos])
  also have "(of_int n :: rat) < of_int (2 ^ 53)" unfolding of_int_less_iff by (rule assms(2))
  also have "\<dots> = 2 powi 53" by simp
  finally have "binade (of_int n) \<le> 52"
    using power_int_increasing [of 53 "binade (of_int n)" "2::rat"] by (cases "53 \<le> binade (of_int n)") auto
  then obtain k where k: "52 - binade (of_int n) = int k" using zle_iff_zadd [of 0] by fastforce
  define u where "u = (2::rat) powi (binade (of_int n) - 52)"
  have "u = inverse (2 ^ k)"
    unfolding u_def by (metis k minus_diff_eq power_int_minus power_int_of_nat)
  then have q: "(of_int n :: rat) / u = of_int (n * 2 ^ k)" and u: "u \<noteq> 0"
    by (simp_all add: divide_inverse)
  have "fl (of_int n) = of_int (round_even (of_int n / u)) * u"
    using pos by (simp add: fl_def Let_def u_def)
  also have "\<dots> = of_int n / u * u" by (simp only: q round_even_of_int)
  finally show ?thesis using u by simp
qed

text \<open>
  Scaling a length by the quotient that maps it to a limit: two roundings may lift the product
  above the limit, but not to the next integer.
\<close>

lemma scaled_le_limit:
  assumes "0 < n" and "n < 2 ^ 53" and "0 < m" and "m \<le> 2 ^ 40"
    and "0 \<le> s" and "s \<le> fl (fl (of_int m) / fl (of_int n))"
  shows "float_to_int (fl (fl (of_int n) * s)) \<le> m"
proof -
  have n: "fl (of_int n) = of_int n" and m: "fl (of_int m) = of_int m"
    using assms by (auto intro: fl_of_int)
  let ?e = "1 + 1 / 2 ^ 53 :: rat"
  have "s \<le> of_int m / of_int n * ?e"
    using assms(6) fl_upper [of "of_int m / of_int n"] assms(1,3) by (simp add: n m)
  then have "of_int n * s \<le> of_int n * (of_int m / of_int n * ?e)"
    using assms(1) by (intro mult_left_mono) auto
  also have "\<dots> = of_int m * ?e" using assms(1) by simp
  finally have "of_int n * s \<le> of_int m * ?e" .
  moreover have "fl (of_int n * s) \<le> of_int n * s * ?e"
    using assms(1,5) by (intro fl_upper) simp
  ultimately have "fl (of_int n * s) \<le> of_int m * ?e * ?e"
    by (meson order_trans mult_right_mono zero_le_divide_1_iff add_nonneg_nonneg zero_le_one zero_le_power zero_le_numeral)
  also have "\<dots> = of_int m + of_int m * (?e * ?e - 1)" by (simp add: algebra_simps)
  also have "\<dots> \<le> of_int m + 2 ^ 40 * (?e * ?e - 1)"
  proof -
    have "(of_int m :: rat) \<le> of_int (2 ^ 40)" unfolding of_int_le_iff by (rule assms(4))
    then show ?thesis by (intro add_left_mono mult_right_mono) simp_all
  qed
  also have "\<dots> < of_int m + 1" by simp
  finally have "fl (of_int n * s) < of_int (m + 1)" by simp
  then have "\<lfloor>fl (of_int n * s)\<rfloor> < m + 1" unfolding floor_less_iff .
  then show ?thesis by (simp add: float_to_int_def n)
qed

lemma float_to_int_nonneg: "0 \<le> float_to_int (fl x)"
  by (simp add: float_to_int_def fl_nonneg)

end
