(* ===== verification/Plan.thy ===== *)
theory Plan
  imports GoText Rounding
begin

text \<open>
  \<open>backend/playback/plan.go\<close>: from the recorded properties of a medium, the capabilities a client
  declares, the server's readiness and a quality request, \<open>plan_for_quality\<close> chooses between
  direct playback, a stream copy, a bounded transcode and refusal. Go's \<open>int\<close> and \<open>int64\<close> are
  integers; \<open>wrap64\<close> marks the one place where their products can leave 64 bits.
\<close>

section \<open>Data\<close>

datatype plan_error = ErrUnsupported | ErrFFmpegUnavailable | ErrInvalidCapabilities
  | ErrUnknownCapability | ErrInvalidQuality

definition QualityAuto :: string where "QualityAuto = ''auto''"
definition QualityDataSaver :: string where "QualityDataSaver = ''data_saver''"
definition QualityOriginal :: string where "QualityOriginal = ''original''"

lemmas quality_modes = QualityAuto_def QualityDataSaver_def QualityOriginal_def

record quality_request =
  qr_mode :: string
  qr_max_video_bitrate :: int
  qr_max_width :: int
  qr_max_height :: int

record media_properties =
  mp_container :: string
  mp_video_codec :: string
  mp_video_profile :: string
  mp_video_level :: int
  mp_width :: int
  mp_height :: int
  mp_video_bitrate :: int
  mp_frame_rate_milli :: int
  mp_bit_depth :: int
  mp_hdr :: string
  mp_audio_codec :: string
  mp_audio_profile :: string
  mp_audio_channels :: int
  mp_audio_sample_rate :: int
  mp_audio_bitrate :: int
  mp_audio_stream_index :: int
  mp_audio_source_stream_index :: int
  mp_audio_external :: bool
  mp_audio_selected :: bool
  mp_requires_audio_mapping :: bool
  mp_subtitles :: "string list"

record client_capabilities =
  cc_containers :: "string list"
  cc_video_codecs :: "string list"
  cc_video_profiles :: "string list"
  cc_audio_codecs :: "string list"
  cc_supports_fmp4_hls :: bool
  cc_supports_direct :: bool
  cc_supports_remux :: bool
  cc_supports_transcode :: bool
  cc_max_width :: int
  cc_max_height :: int
  cc_max_frame_rate_milli :: int
  cc_max_bit_depth :: int
  cc_max_audio_channels :: int
  cc_hdr :: "string list"

record server_readiness =
  sr_ffmpeg :: bool

text \<open>\<open>NoKind\<close> is the zero value of the string type \<open>Kind\<close>, the kind of the empty plan.\<close>

datatype kind = NoKind | Direct | Remux | Transcode | Unsupported

record media_audio_track =
  ma_index :: int
  ma_codec :: string
  ma_profile :: string
  ma_channels :: int
  ma_sample_rate :: int
  ma_bitrate :: int
  ma_language :: string
  ma_title :: string
  ma_default :: bool
  ma_forced :: bool
  ma_external :: bool

record media_capability_input =
  mc_container :: string
  mc_video_codec :: string
  mc_video_profile :: string
  mc_video_level :: int
  mc_width :: int
  mc_height :: int
  mc_bitrate :: int
  mc_frame_rate_milli :: int
  mc_bit_depth :: int
  mc_hdr :: string
  mc_audio :: "media_audio_track list"

record media_version =
  mv_id :: string
  mv_label :: string
  mv_edition_id :: string
  mv_edition_label :: string
  mv_width :: int
  mv_height :: int
  mv_hdr :: string
  mv_video_codec :: string
  mv_container :: string
  mv_bitrate :: int
  mv_selected :: bool
  mv_available :: bool
  mv_capability_input :: media_capability_input

record subtitle_source =
  ss_index :: int
  ss_source_index :: int
  ss_source_key :: string
  ss_codec :: string
  ss_external :: bool

record plan =
  pl_source_key :: string
  pl_version_id :: string
  pl_version_explicit :: bool
  pl_version :: media_version
  pl_kind :: kind
  pl_container :: string
  pl_video_codec :: string
  pl_video_profile :: string
  pl_video_level :: int
  pl_width :: int
  pl_height :: int
  pl_video_bitrate :: int
  pl_frame_rate_milli :: int
  pl_bit_depth :: int
  pl_hdr :: string
  pl_audio_codec :: string
  pl_audio_profile :: string
  pl_audio_channels :: int
  pl_audio_sample_rate :: int
  pl_audio_bitrate :: int
  pl_bandwidth :: int
  pl_quality_mode :: string
  pl_quality_max_video_bitrate :: int
  pl_quality_max_width :: int
  pl_quality_max_height :: int
  pl_audio_stream_index :: int
  pl_audio_source_stream_index :: int
  pl_audio_external :: bool
  pl_audio_selected :: bool
  pl_description :: string
  pl_subtitle_sources :: "subtitle_source list"
  pl_subtitle_selection_index :: int
  pl_subtitle_external :: bool
  pl_subtitle_selected :: bool

definition zero_capability_input :: media_capability_input where
  "zero_capability_input = \<lparr>mc_container = [], mc_video_codec = [], mc_video_profile = [],
     mc_video_level = 0, mc_width = 0, mc_height = 0, mc_bitrate = 0, mc_frame_rate_milli = 0,
     mc_bit_depth = 0, mc_hdr = [], mc_audio = []\<rparr>"

definition zero_version :: media_version where
  "zero_version = \<lparr>mv_id = [], mv_label = [], mv_edition_id = [], mv_edition_label = [], mv_width = 0,
     mv_height = 0, mv_hdr = [], mv_video_codec = [], mv_container = [], mv_bitrate = 0,
     mv_selected = False, mv_available = False, mv_capability_input = zero_capability_input\<rparr>"

definition zero_plan :: plan where
  "zero_plan = \<lparr>pl_source_key = [], pl_version_id = [], pl_version_explicit = False,
     pl_version = zero_version, pl_kind = NoKind, pl_container = [], pl_video_codec = [],
     pl_video_profile = [], pl_video_level = 0, pl_width = 0, pl_height = 0, pl_video_bitrate = 0,
     pl_frame_rate_milli = 0, pl_bit_depth = 0, pl_hdr = [], pl_audio_codec = [],
     pl_audio_profile = [], pl_audio_channels = 0, pl_audio_sample_rate = 0, pl_audio_bitrate = 0,
     pl_bandwidth = 0, pl_quality_mode = [], pl_quality_max_video_bitrate = 0,
     pl_quality_max_width = 0, pl_quality_max_height = 0, pl_audio_stream_index = 0,
     pl_audio_source_stream_index = 0, pl_audio_external = False, pl_audio_selected = False,
     pl_description = [], pl_subtitle_sources = [], pl_subtitle_selection_index = 0,
     pl_subtitle_external = False, pl_subtitle_selected = False\<rparr>"

section \<open>Normalizing requests\<close>

definition quality_of :: "string \<Rightarrow> int \<Rightarrow> int \<Rightarrow> int \<Rightarrow> quality_request" where
  "quality_of m b w h = \<lparr>qr_mode = m, qr_max_video_bitrate = b, qr_max_width = w, qr_max_height = h\<rparr>"

definition quality_normalized :: "quality_request \<Rightarrow> plan_error + quality_request" where
  "quality_normalized quality =
    (if qr_mode quality = [] then Inr (quality_of QualityOriginal 0 0 0)
     else if quality = quality_of QualityOriginal 0 0 0 then Inr quality
     else if quality \<in> {quality_of QualityAuto 2500000 1280 720, quality_of QualityAuto 1000000 854 480,
         quality_of QualityAuto 500000 640 360, quality_of QualityDataSaver 1000000 854 480} then Inr quality
     else Inl ErrInvalidQuality)"

definition container_names :: "(string, string) gomap" where
  "container_names = [(''mp4'', ''mp4''), (''mov'', ''mp4''), (''m4a'', ''mp4''), (''3gp'', ''mp4''),
     (''3g2'', ''mp4''), (''mj2'', ''mp4''), (''webm'', ''webm''), (''matroska'', ''matroska''), (''mkv'', ''matroska'')]"

definition video_codec_names :: "(string, string) gomap" where
  "video_codec_names = [(''h264'', ''h264''), (''avc'', ''h264''), (''avc1'', ''h264''), (''vp9'', ''vp9''),
     (''hevc'', ''hevc''), (''h265'', ''hevc''), (''mpeg4'', ''mpeg4''), (''mpeg2video'', ''mpeg2video'')]"

definition video_profile_names :: "(string, string) gomap" where
  "video_profile_names = [(''baseline'', ''Baseline''), (''main'', ''Main''), (''high'', ''High'')]"

definition audio_codec_names :: "(string, string) gomap" where
  "audio_codec_names = [(''aac'', ''aac''), (''mp4a'', ''aac''), (''opus'', ''opus''), (''mp3'', ''mp3''), (''mp2'', ''mp2'')]"

definition hdr_names :: "(string, string) gomap" where
  "hdr_names = [(''smpte2084'', ''smpte2084''), (''arib-std-b67'', ''arib-std-b67'')]"

fun normalize_values :: "string list \<Rightarrow> (string, string) gomap \<Rightarrow> plan_error + string list" where
  "normalize_values [] known = Inr []"
| "normalize_values (value # values) known =
    (case map_of known (to_lower (trim_space value)) of
       None \<Rightarrow> Inl ErrUnknownCapability
     | Some canonical \<Rightarrow> (case normalize_values values known of
           Inl e \<Rightarrow> Inl e | Inr rest \<Rightarrow> Inr (canonical # rest)))"

fun shape_ok :: "string list list \<Rightarrow> bool" where
  "shape_ok [] = True"
| "shape_ok (values # rest) =
    (if length values > 16 then False
     else if \<exists>value \<in> set values. value = [] \<or> length value > 64 then False
     else shape_ok rest)"

definition limits_ok :: "int list \<Rightarrow> bool" where
  "limits_ok values \<longleftrightarrow> \<not> (\<exists>value \<in> set values. value < 0 \<or> value > 100000000)"

definition client_normalized :: "client_capabilities \<Rightarrow> plan_error + client_capabilities" where
  "client_normalized client =
    (if \<not> shape_ok [cc_containers client, cc_video_codecs client, cc_video_profiles client, cc_audio_codecs client, cc_hdr client]
     then Inl ErrInvalidCapabilities
     else if \<not> limits_ok [cc_max_width client, cc_max_height client, cc_max_frame_rate_milli client, cc_max_bit_depth client, cc_max_audio_channels client]
     then Inl ErrInvalidCapabilities
     else case normalize_values (cc_containers client) container_names of Inl e \<Rightarrow> Inl e | Inr containers \<Rightarrow>
     (case normalize_values (cc_video_codecs client) video_codec_names of Inl e \<Rightarrow> Inl e | Inr video_codecs \<Rightarrow>
     (case normalize_values (cc_video_profiles client) video_profile_names of Inl e \<Rightarrow> Inl e | Inr video_profiles \<Rightarrow>
     (case normalize_values (cc_audio_codecs client) audio_codec_names of Inl e \<Rightarrow> Inl e | Inr audio_codecs \<Rightarrow>
     (case normalize_values (cc_hdr client) hdr_names of Inl e \<Rightarrow> Inl e | Inr hdr \<Rightarrow>
       Inr (client\<lparr>cc_containers := containers, cc_video_codecs := video_codecs,
         cc_video_profiles := video_profiles, cc_audio_codecs := audio_codecs, cc_hdr := hdr\<rparr>))))))"

section \<open>Compatibility\<close>

definition contains_fold :: "string list \<Rightarrow> string \<Rightarrow> bool" where
  "contains_fold values value =
    (if value = [] then False else (\<exists>candidate \<in> set values. equal_fold candidate value))"

definition container_compatible :: "string \<Rightarrow> string list \<Rightarrow> bool" where
  "container_compatible container accepted =
    (\<exists>candidate \<in> set (split_str '','' container). contains_fold accepted (trim_space candidate))"

definition codec_compatible :: "media_properties \<Rightarrow> client_capabilities \<Rightarrow> bool" where
  "codec_compatible media client =
    (if \<not> contains_fold (cc_video_codecs client) (mp_video_codec media) \<or>
        (mp_audio_codec media \<noteq> [] \<and> \<not> contains_fold (cc_audio_codecs client) (mp_audio_codec media))
     then False
     else let profile = (if equal_fold (trim_space (mp_video_profile media)) ''Constrained Baseline''
            then ''Baseline'' else mp_video_profile media)
       in profile = [] \<or> length (cc_video_profiles client) = 0 \<or> contains_fold (cc_video_profiles client) profile)"

text \<open>A recorded value that is not positive is unknown and never exceeds a limit.\<close>

definition over :: "int \<Rightarrow> int \<Rightarrow> bool" where
  "over value limit \<longleftrightarrow> value > 0 \<and> (limit \<le> 0 \<or> value > limit)"

definition limits_compatible :: "media_properties \<Rightarrow> client_capabilities \<Rightarrow> bool" where
  "limits_compatible media client =
    (if over (mp_width media) (cc_max_width client) \<or> over (mp_height media) (cc_max_height client) \<or>
        over (mp_frame_rate_milli media) (cc_max_frame_rate_milli client) \<or>
        over (mp_bit_depth media) (cc_max_bit_depth client) \<or>
        over (mp_audio_channels media) (cc_max_audio_channels client)
     then False
     else mp_hdr media = [] \<or> contains_fold (cc_hdr client) (mp_hdr media))"

definition direct_compatible :: "media_properties \<Rightarrow> client_capabilities \<Rightarrow> bool" where
  "direct_compatible media client \<longleftrightarrow> cc_supports_direct client \<and>
     container_compatible (mp_container media) (cc_containers client) \<and>
     codec_compatible media client \<and> limits_compatible media client"

definition remux_compatible :: "media_properties \<Rightarrow> client_capabilities \<Rightarrow> bool" where
  "remux_compatible media client \<longleftrightarrow> cc_supports_remux client \<and> mp_video_bitrate media > 0 \<and>
     (mp_audio_codec media = [] \<or> mp_audio_bitrate media > 0) \<and>
     codec_compatible media client \<and> limits_compatible media client"

definition compatibilityMaxWidth :: int where "compatibilityMaxWidth = 1920"
definition compatibilityMaxHeight :: int where "compatibilityMaxHeight = 1080"
definition compatibilityMaxFrameRate :: int where "compatibilityMaxFrameRate = 30000"
definition compatibilityVideoBitrate :: int where "compatibilityVideoBitrate = 5000000"
definition compatibilityAudioChannels :: int where "compatibilityAudioChannels = 2"
definition compatibilityAudioSampleRate :: int where "compatibilityAudioSampleRate = 48000"
definition compatibilityAudioBitrate :: int where "compatibilityAudioBitrate = 128000"

lemmas compatibility_constants = compatibilityMaxWidth_def compatibilityMaxHeight_def
  compatibilityMaxFrameRate_def compatibilityVideoBitrate_def compatibilityAudioChannels_def
  compatibilityAudioSampleRate_def compatibilityAudioBitrate_def

definition compatibility_dimensions :: "int \<Rightarrow> int \<Rightarrow> bool" where
  "compatibility_dimensions width height \<longleftrightarrow>
     width \<le> compatibilityMaxWidth \<and> height \<le> compatibilityMaxHeight \<or>
     width \<le> compatibilityMaxHeight \<and> height \<le> compatibilityMaxWidth"

definition transcode_compatible :: "media_properties \<Rightarrow> client_capabilities \<Rightarrow> bool" where
  "transcode_compatible media client =
    (if \<not> cc_supports_transcode client \<or> mp_width media \<le> 0 \<or> mp_height media \<le> 0 \<or>
        go_mod (mp_width media) 2 \<noteq> 0 \<or> go_mod (mp_height media) 2 \<noteq> 0 \<or> mp_frame_rate_milli media \<le> 0 \<or>
        \<not> compatibility_dimensions (mp_width media) (mp_height media) \<or>
        mp_frame_rate_milli media > compatibilityMaxFrameRate \<or> mp_hdr media \<noteq> []
     then False
     else if \<not> has_key video_codec_names (to_lower (trim_space (mp_video_codec media))) then False
     else if mp_audio_codec media \<noteq> [] \<and> \<not> has_key audio_codec_names (to_lower (trim_space (mp_audio_codec media)))
     then False
     else True)"

definition fallback_compatible :: "client_capabilities \<Rightarrow> bool" where
  "fallback_compatible client \<longleftrightarrow> cc_supports_fmp4_hls client \<and>
     contains_fold (cc_video_codecs client) ''h264'' \<and> contains_fold (cc_audio_codecs client) ''aac''"

section \<open>Renditions\<close>

definition oriented_limits :: "int \<Rightarrow> int \<Rightarrow> int \<Rightarrow> int \<Rightarrow> int \<times> int" where
  "oriented_limits width height max_width max_height =
    (if height > width then (max_height, max_width) else (max_width, max_height))"

definition quality_audio_bitrate :: "quality_request \<Rightarrow> int" where
  "quality_audio_bitrate quality =
    (if qr_max_video_bitrate quality = 500000 then 64000
     else if qr_max_video_bitrate quality = 1000000 then 96000
     else compatibilityAudioBitrate)"

definition source_within_quality :: "media_properties \<Rightarrow> quality_request \<Rightarrow> bool" where
  "source_within_quality media quality =
    (if qr_mode quality = QualityOriginal then True
     else let (max_width, max_height) =
         oriented_limits (mp_width media) (mp_height media) (qr_max_width quality) (qr_max_height quality)
       in mp_width media > 0 \<and> mp_height media > 0 \<and> mp_video_bitrate media > 0 \<and>
          mp_width media \<le> max_width \<and> mp_height media \<le> max_height \<and>
          mp_video_bitrate media \<le> qr_max_video_bitrate quality \<and>
          (mp_audio_codec media = [] \<or>
             (mp_audio_bitrate media > 0 \<and> mp_audio_bitrate media \<le> quality_audio_bitrate quality)))"

text \<open>
  The quotients and products of \<open>fitDimensions\<close> are double precision numbers. It is called with
  positive dimensions only (\<open>transcode_compatible\<close>), so no quotient is infinite.
\<close>

definition even_floor :: "rat \<Rightarrow> int" where
  "even_floor x = max 2 (go_div (float_to_int x) 2 * 2)"

definition fit_dimensions :: "int \<Rightarrow> int \<Rightarrow> int \<Rightarrow> int \<Rightarrow> int \<times> int" where
  "fit_dimensions width height max_width0 max_height0 =
    (let (max_width, max_height) = oriented_limits width height max_width0 max_height0
     in if width \<le> max_width \<and> height \<le> max_height then (width, height)
        else let scale = min (fl (fl (of_int max_width) / fl (of_int width)))
                             (fl (fl (of_int max_height) / fl (of_int height)))
          in (even_floor (fl (fl (of_int width) * scale)), even_floor (fl (fl (of_int height) * scale))))"

definition transport_bandwidth :: "int \<Rightarrow> int \<Rightarrow> int" where
  "transport_bandwidth video audio =
    (if video \<le> 0 then 0
     else wrap64 (go_div (wrap64 (go_div (wrap64 (wrap64 (video + audio) * 11)) 10 + 9999)) 10000 * 10000))"

definition source_plan :: "kind \<Rightarrow> media_properties \<Rightarrow> plan" where
  "source_plan k media = zero_plan\<lparr>pl_kind := k, pl_container := mp_container media,
     pl_video_codec := mp_video_codec media, pl_video_profile := mp_video_profile media,
     pl_video_level := mp_video_level media, pl_width := mp_width media, pl_height := mp_height media,
     pl_video_bitrate := mp_video_bitrate media, pl_frame_rate_milli := mp_frame_rate_milli media,
     pl_bit_depth := mp_bit_depth media, pl_hdr := mp_hdr media, pl_audio_codec := mp_audio_codec media,
     pl_audio_profile := mp_audio_profile media, pl_audio_channels := mp_audio_channels media,
     pl_audio_sample_rate := mp_audio_sample_rate media, pl_audio_bitrate := mp_audio_bitrate media,
     pl_audio_stream_index := mp_audio_stream_index media,
     pl_audio_source_stream_index := mp_audio_source_stream_index media,
     pl_audio_external := mp_audio_external media, pl_audio_selected := mp_audio_selected media\<rparr>"

definition apply_quality_intent :: "quality_request \<Rightarrow> plan \<Rightarrow> plan" where
  "apply_quality_intent quality p = p\<lparr>pl_quality_mode := qr_mode quality,
     pl_quality_max_video_bitrate := qr_max_video_bitrate quality,
     pl_quality_max_width := qr_max_width quality, pl_quality_max_height := qr_max_height quality\<rparr>"

definition with_bandwidth :: "plan \<Rightarrow> plan" where
  "with_bandwidth p = p\<lparr>pl_bandwidth := transport_bandwidth (pl_video_bitrate p) (pl_audio_bitrate p)\<rparr>"

definition compatibility_plan :: "media_properties \<Rightarrow> quality_request \<Rightarrow> plan" where
  "compatibility_plan media quality =
    (let (width, height, video_bitrate, audio_bitrate) =
       (if qr_mode quality \<noteq> QualityOriginal
        then (let (w, h) = fit_dimensions (mp_width media) (mp_height media) (qr_max_width quality) (qr_max_height quality)
              in (w, h, min compatibilityVideoBitrate (qr_max_video_bitrate quality), quality_audio_bitrate quality))
        else (mp_width media, mp_height media, compatibilityVideoBitrate, compatibilityAudioBitrate));
      p = zero_plan\<lparr>pl_kind := Transcode, pl_container := ''fmp4-hls'', pl_video_codec := ''h264'',
        pl_video_profile := ''High'', pl_video_level := 40, pl_width := width, pl_height := height,
        pl_video_bitrate := video_bitrate, pl_frame_rate_milli := compatibilityMaxFrameRate,
        pl_bit_depth := 8, pl_audio_stream_index := mp_audio_stream_index media,
        pl_audio_source_stream_index := mp_audio_source_stream_index media,
        pl_audio_external := mp_audio_external media, pl_audio_selected := mp_audio_selected media,
        pl_description := ''Bounded H.264/AAC compatibility stream''\<rparr>;
      p = apply_quality_intent quality p;
      p = (if mp_audio_codec media \<noteq> [] then p\<lparr>pl_audio_codec := ''aac'', pl_audio_profile := ''LC'',
             pl_audio_channels := compatibilityAudioChannels,
             pl_audio_sample_rate := compatibilityAudioSampleRate, pl_audio_bitrate := audio_bitrate\<rparr>
           else p)
     in with_bandwidth p)"

text \<open>Go returns a plan and an error side by side; a refusal may carry the plan that was looked at.\<close>

definition plan_for_quality ::
  "media_properties \<Rightarrow> client_capabilities \<Rightarrow> server_readiness \<Rightarrow> quality_request \<Rightarrow> plan \<times> plan_error option" where
  "plan_for_quality media client0 ready quality0 =
    (case client_normalized client0 of Inl e \<Rightarrow> (zero_plan, Some e) | Inr client \<Rightarrow>
     (case quality_normalized quality0 of Inl e \<Rightarrow> (zero_plan, Some e) | Inr quality \<Rightarrow>
      (let selection = apply_quality_intent quality (source_plan Unsupported media);
           copy_within_cap = source_within_quality media quality
       in if \<not> mp_requires_audio_mapping media \<and> copy_within_cap \<and> direct_compatible media client
          then (with_bandwidth (apply_quality_intent quality
                  ((source_plan Direct media)\<lparr>pl_description := ''Original media''\<rparr>)), None)
          else if \<not> fallback_compatible client then (selection\<lparr>pl_kind := Unsupported\<rparr>, Some ErrUnsupported)
          else if copy_within_cap \<and> remux_compatible media client then
            (if \<not> sr_ffmpeg ready then (zero_plan, Some ErrFFmpegUnavailable)
             else (with_bandwidth (apply_quality_intent quality
                    ((source_plan Remux media)\<lparr>pl_container := ''fmp4-hls'', pl_description := ''Stream-copy fMP4 HLS''\<rparr>)), None))
          else if transcode_compatible media client then
            (if \<not> sr_ffmpeg ready then (zero_plan, Some ErrFFmpegUnavailable)
             else (compatibility_plan media quality, None))
          else (selection, Some ErrUnsupported))))"

definition plan_for :: "media_properties \<Rightarrow> client_capabilities \<Rightarrow> server_readiness \<Rightarrow> plan \<times> plan_error option" where
  "plan_for media client ready = plan_for_quality media client ready (quality_of QualityOriginal 0 0 0)"

end
