(* ===== verification/PlanProps.thy ===== *)
theory PlanProps
  imports Plan
begin

text \<open>
  What the planner guarantees: requests have a normal form, every accepted plan obeys the quality
  request, a plan that plays the original really is playable, FFmpeg is needed exactly by the
  plans that convert, and the cheapest possible path is the one chosen.
\<close>

section \<open>Normal forms\<close>

lemma quality_fixed: "quality_normalized x = Inr y \<Longrightarrow> quality_normalized y = Inr y"
  by (auto simp: quality_normalized_def quality_of_def quality_modes split: if_splits)

definition good_table :: "(string, string) gomap \<Rightarrow> bool" where
  "good_table known \<longleftrightarrow> (\<forall>(k, c) \<in> set known.
     map_of known (to_lower (trim_space c)) = Some c \<and> c \<noteq> [] \<and> length c \<le> 64)"

lemma good_tables:
  "good_table container_names" "good_table video_codec_names" "good_table video_profile_names"
  "good_table audio_codec_names" "good_table hdr_names"
  by (simp_all add: good_table_def container_names_def video_codec_names_def video_profile_names_def
      audio_codec_names_def hdr_names_def text_eval)

lemma normalize_values_fixed:
  assumes "good_table known" and "normalize_values vs known = Inr ws"
  shows "normalize_values ws known = Inr ws \<and> length ws = length vs \<and> (\<forall>w \<in> set ws. w \<noteq> [] \<and> length w \<le> 64)"
  using assms(2)
proof (induction vs arbitrary: ws)
  case Nil
  then show ?case by simp
next
  case (Cons v vs)
  from Cons.prems obtain c rest where
    c: "map_of known (to_lower (trim_space v)) = Some c" and
    rest: "normalize_values vs known = Inr rest" and ws: "ws = c # rest"
    by (auto split: option.splits sum.splits)
  from map_of_SomeD [OF c] assms(1)
  have "map_of known (to_lower (trim_space c)) = Some c \<and> c \<noteq> [] \<and> length c \<le> 64"
    by (auto simp: good_table_def)
  with Cons.IH [OF rest] ws show ?case by simp
qed

lemma shape_ok_iff: "shape_ok vss \<longleftrightarrow>
    (\<forall>vs \<in> set vss. length vs \<le> 16 \<and> (\<forall>v \<in> set vs. v \<noteq> [] \<and> length v \<le> 64))"
  by (induction vss) (auto simp: not_less not_le leD)

declare shape_ok.simps [simp del]

lemma client_Inr:
  assumes "client_normalized x = Inr y"
  shows "shape_ok [cc_containers x, cc_video_codecs x, cc_video_profiles x, cc_audio_codecs x, cc_hdr x]"
    and "limits_ok [cc_max_width x, cc_max_height x, cc_max_frame_rate_milli x, cc_max_bit_depth x, cc_max_audio_channels x]"
    and "normalize_values (cc_containers x) container_names = Inr (cc_containers y)"
    and "normalize_values (cc_video_codecs x) video_codec_names = Inr (cc_video_codecs y)"
    and "normalize_values (cc_video_profiles x) video_profile_names = Inr (cc_video_profiles y)"
    and "normalize_values (cc_audio_codecs x) audio_codec_names = Inr (cc_audio_codecs y)"
    and "normalize_values (cc_hdr x) hdr_names = Inr (cc_hdr y)"
    and "y = x\<lparr>cc_containers := cc_containers y, cc_video_codecs := cc_video_codecs y,
      cc_video_profiles := cc_video_profiles y, cc_audio_codecs := cc_audio_codecs y, cc_hdr := cc_hdr y\<rparr>"
  using assms unfolding client_normalized_def by (auto split: if_split_asm sum.split_asm)

lemma client_fixed:
  assumes "client_normalized x = Inr y"
  shows "client_normalized y = Inr y"
proof -
  note x = client_Inr [OF assms]
  note fixed = good_tables(1) [THEN normalize_values_fixed, OF x(3)] good_tables(2) [THEN normalize_values_fixed, OF x(4)]
    good_tables(3) [THEN normalize_values_fixed, OF x(5)] good_tables(4) [THEN normalize_values_fixed, OF x(6)]
    good_tables(5) [THEN normalize_values_fixed, OF x(7)]
  have same: "cc_max_width y = cc_max_width x" "cc_max_height y = cc_max_height x"
    "cc_max_frame_rate_milli y = cc_max_frame_rate_milli x" "cc_max_bit_depth y = cc_max_bit_depth x"
    "cc_max_audio_channels y = cc_max_audio_channels x"
    by (subst x(8), simp)+
  have "shape_ok [cc_containers y, cc_video_codecs y, cc_video_profiles y, cc_audio_codecs y, cc_hdr y]"
    using x(1) fixed by (simp add: shape_ok_iff)
  then show ?thesis
    using x(2) fixed by (simp add: client_normalized_def same)
qed

interpretation quality_norm: normalizer quality_normalized
  by unfold_locales (rule quality_fixed)

interpretation client_norm: normalizer client_normalized
  by unfold_locales (rule client_fixed)

text \<open>
  the planner's inputs have normal forms. Normalizing an accepted quality request or an
  accepted capability declaration again gives the same value, so planning from the normalized
  request is planning from the request.
\<close>

theorem planning_from_normal_form:
  assumes "client_normalized client = Inr c" and "quality_normalized quality = Inr q"
  shows "plan_for_quality media c ready q = plan_for_quality media client ready quality"
  using assms client_norm.norm_fixed [OF assms(1)] quality_norm.norm_fixed [OF assms(2)]
  by (simp add: plan_for_quality_def)

section \<open>The plan that was chosen\<close>

lemma plan_success:
  assumes "plan_for_quality media client0 ready quality0 = (p, None)"
  obtains client quality where "client_normalized client0 = Inr client" and "quality_normalized quality0 = Inr quality"
    and "p = with_bandwidth (apply_quality_intent quality ((source_plan Direct media)\<lparr>pl_description := ''Original media''\<rparr>))
          \<and> \<not> mp_requires_audio_mapping media \<and> source_within_quality media quality \<and> direct_compatible media client
       \<or> p = with_bandwidth (apply_quality_intent quality ((source_plan Remux media)\<lparr>pl_container := ''fmp4-hls'', pl_description := ''Stream-copy fMP4 HLS''\<rparr>))
          \<and> sr_ffmpeg ready \<and> source_within_quality media quality \<and> remux_compatible media client \<and> fallback_compatible client
       \<or> p = compatibility_plan media quality \<and> sr_ffmpeg ready \<and> transcode_compatible media client \<and> fallback_compatible client"
  using assms
  by (auto simp: plan_for_quality_def Let_def split: sum.splits if_splits)

lemma compatibility_plan_kind [simp]: "pl_kind (compatibility_plan media quality) = Transcode"
  by (simp add: compatibility_plan_def Let_def with_bandwidth_def apply_quality_intent_def split: prod.splits)

lemma source_plan_kind [simp]:
  "pl_kind (with_bandwidth p) = pl_kind p" "pl_kind (apply_quality_intent quality p) = pl_kind p"
  "pl_kind (source_plan k media) = k"
  by (simp_all add: with_bandwidth_def apply_quality_intent_def source_plan_def)

lemma even_floor_bounds:
  assumes "float_to_int x \<le> m" and "2 \<le> m" and "0 \<le> float_to_int x"
  shows "2 \<le> even_floor x \<and> even_floor x \<le> m"
proof -
  have "go_div (float_to_int x) 2 * 2 \<le> float_to_int x"
    using assms(3) by (simp add: go_div_nonneg)
  with assms show ?thesis by (auto simp: even_floor_def)
qed

lemma fit_dimensions_bounds:
  assumes "fit_dimensions w h mw0 mh0 = (w', h')" and "oriented_limits w h mw0 mh0 = (mw, mh)"
    and "2 \<le> w" "w < 2 ^ 53" "2 \<le> h" "h < 2 ^ 53" and "2 \<le> mw" "mw \<le> 2 ^ 40" "2 \<le> mh" "mh \<le> 2 ^ 40"
  shows "2 \<le> w' \<and> w' \<le> mw \<and> 2 \<le> h' \<and> h' \<le> mh"
proof (cases "w \<le> mw \<and> h \<le> mh")
  case True
  with assms show ?thesis by (simp add: fit_dimensions_def)
next
  case False
  define s where "s = min (fl (fl (of_int mw) / fl (of_int w))) (fl (fl (of_int mh) / fl (of_int h)))"
  have s: "0 \<le> s" "s \<le> fl (fl (of_int mw) / fl (of_int w))" "s \<le> fl (fl (of_int mh) / fl (of_int h))"
    by (simp_all add: s_def fl_nonneg)
  from False assms(1,2) have "w' = even_floor (fl (fl (of_int w) * s))" "h' = even_floor (fl (fl (of_int h) * s))"
    by (auto simp: fit_dimensions_def Let_def s_def)
  moreover have "float_to_int (fl (fl (of_int w) * s)) \<le> mw"
    using assms s by (intro scaled_le_limit) auto
  moreover have "float_to_int (fl (fl (of_int h) * s)) \<le> mh"
    using assms s by (intro scaled_le_limit) auto
  ultimately show ?thesis
    using assms even_floor_bounds float_to_int_nonneg by metis
qed

text \<open>The limits a normalized request can carry.\<close>

lemma quality_original_mode: "qr_mode (quality_of QualityOriginal b w h) = QualityOriginal"
  by (simp add: quality_of_def)

lemma quality_limits:
  assumes "quality_normalized x = Inr q" and "qr_mode q \<noteq> QualityOriginal"
  shows "500000 \<le> qr_max_video_bitrate q" "qr_max_video_bitrate q \<le> 2500000"
    "640 \<le> qr_max_width q" "qr_max_width q \<le> 1280" "360 \<le> qr_max_height q" "qr_max_height q \<le> 720"
proof -
  have "q \<in> {quality_of QualityAuto 2500000 1280 720, quality_of QualityAuto 1000000 854 480,
      quality_of QualityAuto 500000 640 360, quality_of QualityDataSaver 1000000 854 480}"
    using assms quality_original_mode [of 0 0 0] unfolding quality_normalized_def
    by (simp only: sum.inject sum.distinct split: if_splits)
  then show "500000 \<le> qr_max_video_bitrate q" "qr_max_video_bitrate q \<le> 2500000"
    "640 \<le> qr_max_width q" "qr_max_width q \<le> 1280" "360 \<le> qr_max_height q" "qr_max_height q \<le> 720"
    by (elim insertE emptyE; simp add: quality_of_def)+
qed

definition obeys :: "media_properties \<Rightarrow> quality_request \<Rightarrow> plan \<Rightarrow> bool" where
  "obeys media q p \<longleftrightarrow>
     (let (mw, mh) = oriented_limits (mp_width media) (mp_height media) (qr_max_width q) (qr_max_height q)
      in 0 < pl_width p \<and> pl_width p \<le> mw \<and> 0 < pl_height p \<and> pl_height p \<le> mh \<and>
         0 < pl_video_bitrate p \<and> pl_video_bitrate p \<le> qr_max_video_bitrate q \<and>
         (pl_audio_codec p = [] \<or> pl_audio_bitrate p \<le> quality_audio_bitrate q))"

lemma compatibility_plan_obeys:
  assumes q: "quality_normalized x = Inr q" "qr_mode q \<noteq> QualityOriginal"
    and media: "transcode_compatible media client"
  shows "obeys media q (compatibility_plan media q)"
proof -
  obtain w h where fit: "fit_dimensions (mp_width media) (mp_height media) (qr_max_width q) (qr_max_height q) = (w, h)"
    by fastforce
  obtain mw mh where lim: "oriented_limits (mp_width media) (mp_height media) (qr_max_width q) (qr_max_height q) = (mw, mh)"
    by fastforce
  have dims: "0 < mp_width media" "go_mod (mp_width media) 2 = 0" "0 < mp_height media" "go_mod (mp_height media) 2 = 0"
      "mp_width media \<le> 1920" "mp_height media \<le> 1920"
    using media by (auto simp: transcode_compatible_def compatibility_dimensions_def compatibility_constants split: if_splits)
  then have "2 \<le> mp_width media" "2 \<le> mp_height media"
    by (auto simp: go_mod_nonneg)
  moreover have "360 \<le> mw" "mw \<le> 1280" "360 \<le> mh" "mh \<le> 1280"
    using lim quality_limits [OF q] by (auto simp: oriented_limits_def split: if_splits)
  ultimately have "2 \<le> w \<and> w \<le> mw \<and> 2 \<le> h \<and> h \<le> mh"
    using dims by (intro fit_dimensions_bounds [OF fit lim]) simp_all
  with quality_limits [OF q] fit lim q(2) show ?thesis
    by (simp add: obeys_def compatibility_plan_def Let_def with_bandwidth_def apply_quality_intent_def
        zero_plan_def compatibility_constants)
qed

lemma source_plan_obeys:
  assumes "source_within_quality media q" and "qr_mode q \<noteq> QualityOriginal"
  shows "obeys media q (with_bandwidth (apply_quality_intent q ((source_plan k media)\<lparr>pl_description := d\<rparr>)))"
    and "obeys media q (with_bandwidth (apply_quality_intent q ((source_plan k media)\<lparr>pl_container := c, pl_description := d\<rparr>)))"
  using assms
  by (auto simp: obeys_def source_within_quality_def with_bandwidth_def apply_quality_intent_def
      source_plan_def Let_def split: prod.splits)

text \<open>
  C19: whatever path the planner takes, an accepted plan obeys the quality request: its picture
  fits the requested box in the orientation of the source, and its video and audio bitrates are
  within the requested ones. For a transcode this includes the two double precision roundings of
  the scaling factor and of the scaled dimension.
\<close>

theorem plan_obeys_quality:
  assumes "plan_for_quality media client ready quality = (p, None)"
    and "quality_normalized quality = Inr q" and "qr_mode q \<noteq> QualityOriginal"
  shows "obeys media q p"
  using assms(1)
proof (rule plan_success)
  fix c q'
  assume "quality_normalized quality = Inr q'" and
    cases: "p = with_bandwidth (apply_quality_intent q' ((source_plan Direct media)\<lparr>pl_description := ''Original media''\<rparr>))
          \<and> \<not> mp_requires_audio_mapping media \<and> source_within_quality media q' \<and> direct_compatible media c
       \<or> p = with_bandwidth (apply_quality_intent q' ((source_plan Remux media)\<lparr>pl_container := ''fmp4-hls'', pl_description := ''Stream-copy fMP4 HLS''\<rparr>))
          \<and> sr_ffmpeg ready \<and> source_within_quality media q' \<and> remux_compatible media c \<and> fallback_compatible c
       \<or> p = compatibility_plan media q' \<and> sr_ffmpeg ready \<and> transcode_compatible media c \<and> fallback_compatible c"
  with assms(2) have "q' = q" by simp
  with cases show ?thesis
    using source_plan_obeys [OF _ assms(3)] compatibility_plan_obeys [OF assms(2,3)] by blast
qed

text \<open>A concrete client and medium, used by the witnesses.\<close>

definition sample_client :: client_capabilities where
  "sample_client = \<lparr>cc_containers = [''mp4''], cc_video_codecs = [''h264''], cc_video_profiles = [],
     cc_audio_codecs = [''aac''], cc_supports_fmp4_hls = True, cc_supports_direct = True,
     cc_supports_remux = True, cc_supports_transcode = True, cc_max_width = 1920, cc_max_height = 1080,
     cc_max_frame_rate_milli = 60000, cc_max_bit_depth = 8, cc_max_audio_channels = 6, cc_hdr = []\<rparr>"

definition sample_media :: media_properties where
  "sample_media = \<lparr>mp_container = ''mkv'', mp_video_codec = ''h264'', mp_video_profile = [],
     mp_video_level = 40, mp_width = 1920, mp_height = 800, mp_video_bitrate = 8000000,
     mp_frame_rate_milli = 24000, mp_bit_depth = 8, mp_hdr = [], mp_audio_codec = ''aac'',
     mp_audio_profile = ''LC'', mp_audio_channels = 2, mp_audio_sample_rate = 48000,
     mp_audio_bitrate = 128000, mp_audio_stream_index = 1, mp_audio_source_stream_index = 1,
     mp_audio_external = False, mp_audio_selected = False, mp_requires_audio_mapping = False,
     mp_subtitles = []\<rparr>"

definition sample_quality :: quality_request where
  "sample_quality = quality_of QualityAuto 1000000 854 480"

lemma sample_normalized:
  "client_normalized sample_client = Inr sample_client" "quality_normalized sample_quality = Inr sample_quality"
  by (simp_all add: client_normalized_def sample_client_def shape_ok_iff limits_ok_def container_names_def
      video_codec_names_def audio_codec_names_def text_eval quality_normalized_def sample_quality_def
      quality_of_def quality_modes)

lemma sample_transcode:
  "plan_for_quality sample_media sample_client \<lparr>sr_ffmpeg = True\<rparr> sample_quality
     = (compatibility_plan sample_media sample_quality, None)"
proof -
  have "\<not> source_within_quality sample_media sample_quality"
    by (simp add: source_within_quality_def sample_media_def sample_quality_def quality_of_def
        quality_modes oriented_limits_def)
  moreover have "fallback_compatible sample_client"
    by (simp add: fallback_compatible_def contains_fold_def sample_client_def equal_fold_def)
  moreover have "transcode_compatible sample_media sample_client"
    by (simp add: transcode_compatible_def sample_media_def sample_client_def compatibility_dimensions_def
        compatibility_constants go_mod_def go_div_def has_key_def video_codec_names_def
        audio_codec_names_def text_eval)
  ultimately show ?thesis by (simp add: plan_for_quality_def sample_normalized)
qed

theorem planning_from_normal_form_witness:
  "plan_for_quality sample_media sample_client \<lparr>sr_ffmpeg = True\<rparr> sample_quality
     = plan_for_quality sample_media sample_client \<lparr>sr_ffmpeg = True\<rparr> sample_quality"
  by (rule planning_from_normal_form [OF sample_normalized])

theorem plan_obeys_quality_witness:
  "obeys sample_media sample_quality (compatibility_plan sample_media sample_quality)"
  by (rule plan_obeys_quality [OF sample_transcode sample_normalized(2)])
    (simp add: sample_quality_def quality_of_def quality_modes)

text \<open>
  a direct plan is sound. The client declared the container, the video codec and, when there
  is sound, the audio codec; nothing known about the picture or the sound exceeds the client's
  limits; a high-dynamic-range picture is one the client declared; and the plan describes the
  medium as it is.
\<close>

theorem direct_plan_sound:
  assumes "plan_for_quality media client ready quality = (p, None)" and "pl_kind p = Direct"
    and "client_normalized client = Inr c"
  shows "container_compatible (mp_container media) (cc_containers c)
    \<and> contains_fold (cc_video_codecs c) (mp_video_codec media)
    \<and> (mp_audio_codec media = [] \<or> contains_fold (cc_audio_codecs c) (mp_audio_codec media))
    \<and> \<not> over (mp_width media) (cc_max_width c) \<and> \<not> over (mp_height media) (cc_max_height c)
    \<and> \<not> over (mp_audio_channels media) (cc_max_audio_channels c)
    \<and> (mp_hdr media = [] \<or> contains_fold (cc_hdr c) (mp_hdr media))
    \<and> pl_container p = mp_container media \<and> pl_video_codec p = mp_video_codec media
    \<and> pl_width p = mp_width media \<and> pl_video_bitrate p = mp_video_bitrate media"
  using assms(1)
proof (rule plan_success)
  fix c' q
  assume "client_normalized client = Inr c'" and
    "p = with_bandwidth (apply_quality_intent q ((source_plan Direct media)\<lparr>pl_description := ''Original media''\<rparr>))
          \<and> \<not> mp_requires_audio_mapping media \<and> source_within_quality media q \<and> direct_compatible media c'
       \<or> p = with_bandwidth (apply_quality_intent q ((source_plan Remux media)\<lparr>pl_container := ''fmp4-hls'', pl_description := ''Stream-copy fMP4 HLS''\<rparr>))
          \<and> sr_ffmpeg ready \<and> source_within_quality media q \<and> remux_compatible media c' \<and> fallback_compatible c'
       \<or> p = compatibility_plan media q \<and> sr_ffmpeg ready \<and> transcode_compatible media c' \<and> fallback_compatible c'"
  with assms(2,3) have "c' = c" "direct_compatible media c"
    and "p = with_bandwidth (apply_quality_intent q ((source_plan Direct media)\<lparr>pl_description := ''Original media''\<rparr>))"
    by (auto simp: source_plan_def)
  then show ?thesis
    by (auto simp: direct_compatible_def codec_compatible_def limits_compatible_def with_bandwidth_def
        apply_quality_intent_def source_plan_def split: if_splits)
qed

definition direct_media :: media_properties where
  "direct_media = sample_media\<lparr>mp_container := ''mov,mp4'', mp_video_bitrate := 900000, mp_width := 640,
     mp_height := 360, mp_audio_bitrate := 96000\<rparr>"

definition direct_client :: client_capabilities where
  "direct_client = sample_client\<lparr>cc_containers := [''mov'', ''mp4'']\<rparr>"

lemma direct_normalized:
  "client_normalized direct_client = Inr (direct_client\<lparr>cc_containers := [''mp4'', ''mp4'']\<rparr>)"
  by (simp add: client_normalized_def direct_client_def sample_client_def shape_ok_iff limits_ok_def
      container_names_def video_codec_names_def audio_codec_names_def text_eval)

lemma direct_plan:
  "plan_for_quality direct_media direct_client \<lparr>sr_ffmpeg = False\<rparr> sample_quality
     = (with_bandwidth (apply_quality_intent sample_quality
          ((source_plan Direct direct_media)\<lparr>pl_description := ''Original media''\<rparr>)), None)"
proof -
  let ?c = "direct_client\<lparr>cc_containers := [''mp4'', ''mp4'']\<rparr>"
  have "source_within_quality direct_media sample_quality"
    by (simp add: source_within_quality_def direct_media_def sample_media_def sample_quality_def
        quality_of_def quality_modes oriented_limits_def quality_audio_bitrate_def)
  moreover have "\<not> mp_requires_audio_mapping direct_media"
    by (simp add: direct_media_def sample_media_def)
  moreover have "direct_compatible direct_media ?c"
    by (simp add: direct_compatible_def container_compatible_def codec_compatible_def limits_compatible_def
        over_def contains_fold_def direct_media_def sample_media_def direct_client_def sample_client_def
        split_str.simps text_eval)
  ultimately show ?thesis
    by (simp add: plan_for_quality_def direct_normalized sample_normalized(2))
qed

theorem direct_plan_sound_witness:
  "container_compatible (mp_container direct_media) [''mp4'', ''mp4'']"
  using direct_plan_sound [OF direct_plan _ direct_normalized] by (simp add: source_plan_def)

text \<open>
  the planner takes the cheapest path. A plan converts only when the original cannot be played
  as it is, and re-encodes only when not even a stream copy would do.
\<close>

theorem cheapest_plan:
  assumes "plan_for_quality media client ready quality = (p, None)"
    and "client_normalized client = Inr c" and "quality_normalized quality = Inr q"
  shows "(pl_kind p = Direct) =
      (\<not> mp_requires_audio_mapping media \<and> source_within_quality media q \<and> direct_compatible media c)
    \<and> (pl_kind p = Transcode \<longrightarrow> \<not> (source_within_quality media q \<and> remux_compatible media c))
    \<and> pl_kind p \<in> {Direct, Remux, Transcode}"
  using assms by (auto simp: plan_for_quality_def Let_def split: if_splits)

theorem cheapest_plan_witness:
  "pl_kind (compatibility_plan sample_media sample_quality) \<in> {Direct, Remux, Transcode}"
  using cheapest_plan [OF sample_transcode sample_normalized] by blast

text \<open>
  without FFmpeg the planner never hands out a plan that needs it: an accepted plan is direct,
  and where only a conversion would do the refusal says that FFmpeg is unavailable.
\<close>

theorem no_ffmpeg_no_conversion:
  assumes "\<not> sr_ffmpeg ready"
  shows "(snd (plan_for_quality media client ready quality) = None \<longrightarrow>
      pl_kind (fst (plan_for_quality media client ready quality)) = Direct)
    \<and> pl_kind (fst (plan_for_quality media client ready quality)) \<notin> {Remux, Transcode}"
  using assms unfolding plan_for_quality_def Let_def
  by (simp add: zero_plan_def source_plan_def with_bandwidth_def apply_quality_intent_def split: sum.split)

theorem no_ffmpeg_no_conversion_witness:
  "pl_kind (fst (plan_for_quality sample_media sample_client \<lparr>sr_ffmpeg = False\<rparr> sample_quality)) \<notin> {Remux, Transcode}"
  using no_ffmpeg_no_conversion [of "\<lparr>sr_ffmpeg = False\<rparr>" sample_media sample_client sample_quality] by simp

text \<open>
  the announced bandwidth. For a total of at most \<open>2 ^ 58\<close> bits per second the 64-bit
  arithmetic does not wrap: the result is a multiple of 10000 that covers the payload plus a tenth
  of it, rounded down to a whole bit, by less than 10000.
\<close>

theorem transport_bandwidth_covers:
  assumes "0 < video" and "0 \<le> audio" and "video + audio \<le> 2 ^ 58"
  shows "transport_bandwidth video audio mod 10000 = 0
    \<and> (video + audio) * 11 div 10 \<le> transport_bandwidth video audio
    \<and> transport_bandwidth video audio < (video + audio) * 11 div 10 + 10000"
proof -
  define x where "x = (video + audio) * 11 div 10"
  define y where "y = (x + 9999) div 10000"
  have "x + 9999 = y * 10000 + (x + 9999) mod 10000" and "0 \<le> (x + 9999) mod 10000" and "(x + 9999) mod 10000 < 10000"
    by (simp_all add: y_def)
  then have y: "y * 10000 \<le> x + 9999" "x < y * 10000 + 1" by linarith+
  have x: "0 \<le> x" "x \<le> 2 ^ 62"
    using assms by (auto simp: x_def)
  have "wrap64 (wrap64 (video + audio) * 11) = (video + audio) * 11"
    using assms by (simp add: in64_def)
  then have "go_div (wrap64 (wrap64 (video + audio) * 11)) 10 = x"
    using assms by (simp add: go_div_nonneg x_def)
  moreover have "wrap64 (x + 9999) = x + 9999" and "0 \<le> x + 9999"
    using x by (simp_all add: in64_def)
  moreover have "wrap64 (y * 10000) = y * 10000"
    using x y by (simp add: in64_def)
  ultimately have "transport_bandwidth video audio = y * 10000"
    using assms(1) unfolding transport_bandwidth_def by (simp add: go_div_nonneg y_def)
  then show ?thesis using y unfolding x_def [symmetric] by simp
qed
theorem transport_bandwidth_covers_witness: "transport_bandwidth 1000000 96000 mod 10000 = 0"
  using transport_bandwidth_covers [of 1000000 96000] by simp

end
