(* ===== verification/Screens.thy ===== *)
theory Screens
  imports GoText
begin

text \<open>
  The screens a household plays on (backend/screens/screens.go): a receiver advertises itself
  and connects with a one-time ticket, a viewer of the same profile obtains a control session,
  and commands travel through a bounded channel to the receiver.

  A \<open>presence\<close> is shared by pointer in the source: the map holds it and the disconnect closure of
  the receiver compares it with the map's entry. Here each presence carries its pointer as
  \<open>pr_ref\<close>, taken from a counter of allocations. A channel is the list of its buffered
  commands; the pointers whose channel was closed and whose context was cancelled are kept in
  the manager, so that closing a channel twice (a panic in Go) or sending on a closed one can
  be stated. Times are integers in nanoseconds; the reading of the clock and the random tokens
  are arguments of the operations (a token that is \<open>None\<close> is a failure of crypto/rand).
\<close>

datatype screens_error = ErrForbidden | ErrExpired | ErrUnavailable | ErrInvalidCommand | ErrRandom

record screen =
  sc_ID :: string
  sc_Name :: string
  sc_State :: string
  sc_CatalogID :: string
  sc_PositionMS :: int

record control_session =
  cs_Token :: string
  cs_ScreenID :: string
  cs_ExpiresAt :: int

record command =
  cm_Type :: string
  cm_CatalogID :: string
  cm_PositionMS :: int

record presence =
  pr_ref :: nat
  pr_screen :: screen
  pr_profileID :: string
  pr_ticket :: string
  pr_expires :: int
  pr_connected :: bool
  pr_commands :: "command list"

record authority =
  au_screenID :: string
  au_profileID :: string
  au_expires :: int
  au_claimed :: bool

record screens_manager =
  sm_ttl :: int
  sm_screens :: "(string, presence) gomap"
  sm_tickets :: "(string, authority) gomap"
  sm_sessions :: "(string, authority) gomap"
  sm_closed :: bool
  sm_cancelled :: bool
  sm_next :: nat
  sm_closed_channels :: "nat list"
  sm_cancelled_refs :: "nat list"

definition new_screens :: "int \<Rightarrow> screens_manager" where
  "new_screens ttl = \<lparr>sm_ttl = ttl, sm_screens = [], sm_tickets = [], sm_sessions = [],
     sm_closed = False, sm_cancelled = False, sm_next = 0,
     sm_closed_channels = [], sm_cancelled_refs = []\<rparr>"

definition zero_authority :: authority where
  "zero_authority = \<lparr>au_screenID = '''', au_profileID = '''', au_expires = 0, au_claimed = False\<rparr>"

definition channel_capacity :: nat where "channel_capacity = 8"
definition max_screens :: nat where "max_screens = 128"
definition max_screen_name :: nat where "max_screen_name = 120"

section \<open>Operations\<close>

text \<open>
  The context a control socket gets ends at the authority's expiry or when the presence's own
  context is cancelled: it is the pair of the two.
\<close>

definition control_context ::
    "string \<Rightarrow> string \<Rightarrow> int \<Rightarrow> screens_manager \<Rightarrow>
     screens_manager \<times> (screens_error, nat \<times> int) result" where
  "control_context value profileID now m =
     (case map_of (sm_sessions m) value of
        None \<Rightarrow> (m, Inl ErrForbidden)
      | Some a \<Rightarrow>
          if au_profileID a \<noteq> profileID \<or> au_claimed a \<or> sm_closed m then (m, Inl ErrForbidden)
          else if \<not> now < au_expires a then (m, Inl ErrExpired)
          else (case map_of (sm_screens m) (au_screenID a) of
              None \<Rightarrow> (m, Inl ErrUnavailable)
            | Some p \<Rightarrow>
                if \<not> pr_connected p then (m, Inl ErrUnavailable)
                else (m\<lparr>sm_sessions := AList.update value (a\<lparr>au_claimed := True\<rparr>) (sm_sessions m)\<rparr>,
                      Inr (pr_ref p, au_expires a))))"

definition release_control :: "string \<Rightarrow> screens_manager \<Rightarrow> screens_manager" where
  "release_control value m = m\<lparr>sm_sessions := AList.delete value (sm_sessions m)\<rparr>"

definition prune_screens :: "int \<Rightarrow> screens_manager \<Rightarrow> screens_manager" where
  "prune_screens now m =
     (let live = (\<lambda>_ a. now < au_expires a);
          stays = (\<lambda>_ p. pr_connected p \<or> now < pr_expires p) in
      m\<lparr>sm_tickets := keep live (sm_tickets m),
        sm_sessions := keep live (sm_sessions m),
        sm_screens := keep stays (sm_screens m),
        sm_cancelled_refs := sm_cancelled_refs m @
          map (\<lambda>(_, p). pr_ref p) (keep (\<lambda>i p. \<not> stays i p) (sm_screens m))\<rparr>)"

definition advertise ::
    "string option \<Rightarrow> string option \<Rightarrow> string \<Rightarrow> string \<Rightarrow> int \<Rightarrow> screens_manager \<Rightarrow>
     screens_manager \<times> (screens_error, screen \<times> string) result" where
  "advertise id_token ticket_token profileID name now m =
     (if profileID = '''' \<or> trim_space name = '''' then (m, Inl ErrForbidden)
      else case id_token of None \<Rightarrow> (m, Inl ErrRandom) | Some i \<Rightarrow>
       (case ticket_token of None \<Rightarrow> (m, Inl ErrRandom) | Some ticket \<Rightarrow>
         if sm_closed m then (m, Inl ErrUnavailable)
         else
           (let m = prune_screens now m in
            if length (sm_screens m) \<ge> max_screens \<or> length name > max_screen_name
            then (m, Inl ErrUnavailable)
            else
              (let p = \<lparr>pr_ref = sm_next m,
                        pr_screen = \<lparr>sc_ID = i, sc_Name = trim_space name, sc_State = ''available'',
                                     sc_CatalogID = '''', sc_PositionMS = 0\<rparr>,
                        pr_profileID = profileID, pr_ticket = ticket,
                        pr_expires = now + sm_ttl m, pr_connected = False, pr_commands = []\<rparr> in
               (m\<lparr>sm_next := Suc (sm_next m),
                  sm_screens := AList.update i p (sm_screens m),
                  sm_tickets := AList.update ticket
                    \<lparr>au_screenID = i, au_profileID = profileID, au_expires = pr_expires p,
                     au_claimed = False\<rparr> (sm_tickets m)\<rparr>,
                Inr (pr_screen p, ticket))))))"

text \<open>The receiver gets the channel of the presence, named by its pointer.\<close>

definition connect_receiver ::
    "string \<Rightarrow> string \<Rightarrow> int \<Rightarrow> screens_manager \<Rightarrow>
     screens_manager \<times> (screens_error, string \<times> nat) result" where
  "connect_receiver ticket profileID now m =
     (let a = get_or zero_authority (sm_tickets m) ticket;
          spent = m\<lparr>sm_tickets := AList.delete ticket (sm_tickets m)\<rparr> in
      case map_of (sm_screens m) (au_screenID a) of
        None \<Rightarrow> (spent, Inl ErrForbidden)
      | Some p \<Rightarrow>
          if \<not> has_key (sm_tickets m) ticket \<or> au_profileID a \<noteq> profileID \<or>
             \<not> now < au_expires a \<or> sm_closed m
          then (spent, Inl ErrForbidden)
          else (spent\<lparr>sm_screens := AList.update (au_screenID a)
                  (p\<lparr>pr_connected := True, pr_screen := (pr_screen p)\<lparr>sc_State := ''available''\<rparr>\<rparr>)
                  (sm_screens m)\<rparr>,
                Inr (au_screenID a, pr_ref p)))"

definition disconnect :: "string \<Rightarrow> nat \<Rightarrow> screens_manager \<Rightarrow> screens_manager" where
  "disconnect screenID ref m =
     (case map_of (sm_screens m) screenID of
        None \<Rightarrow> m
      | Some p \<Rightarrow>
          if pr_ref p \<noteq> ref then m
          else m\<lparr>sm_screens := AList.delete screenID (sm_screens m),
                 sm_sessions := keep (\<lambda>_ a. au_screenID a \<noteq> screenID) (sm_sessions m),
                 sm_closed_channels := sm_closed_channels m @ [ref],
                 sm_cancelled_refs := sm_cancelled_refs m @ [ref]\<rparr>)"

definition list_screens ::
    "string \<Rightarrow> int \<Rightarrow> screens_manager \<Rightarrow> screens_manager \<times> screen list" where
  "list_screens profileID now m =
     (let m = prune_screens now m in
      (m, [pr_screen p. (_, p) \<leftarrow> sm_screens m, pr_profileID p = profileID \<and> pr_connected p]))"

definition list_all_screens :: "int \<Rightarrow> screens_manager \<Rightarrow> screens_manager \<times> screen list" where
  "list_all_screens now m =
     (let m = prune_screens now m in
      (m, [pr_screen p. (_, p) \<leftarrow> sm_screens m, pr_connected p]))"

definition authorize ::
    "string option \<Rightarrow> string \<Rightarrow> string \<Rightarrow> int \<Rightarrow> screens_manager \<Rightarrow>
     screens_manager \<times> (screens_error, control_session) result" where
  "authorize tok screenID profileID now m =
     (let m = prune_screens now m in
      case map_of (sm_screens m) screenID of
        None \<Rightarrow> (m, Inl ErrUnavailable)
      | Some p \<Rightarrow>
          if \<not> pr_connected p then (m, Inl ErrUnavailable)
          else if pr_profileID p \<noteq> profileID then (m, Inl ErrForbidden)
          else if length (sm_sessions m) \<ge> max_screens then (m, Inl ErrUnavailable)
          else (case tok of None \<Rightarrow> (m, Inl ErrRandom) | Some value \<Rightarrow>
            (m\<lparr>sm_sessions := AList.update value
                 \<lparr>au_screenID = screenID, au_profileID = profileID,
                  au_expires = now + sm_ttl m, au_claimed = False\<rparr> (sm_sessions m)\<rparr>,
             Inr \<lparr>cs_Token = value, cs_ScreenID = screenID, cs_ExpiresAt = now + sm_ttl m\<rparr>)))"

definition valid_command :: "command \<Rightarrow> bool" where
  "valid_command c \<longleftrightarrow>
     \<not> (cm_PositionMS c < 0 \<or>
        (cm_Type c \<noteq> ''play'' \<and> cm_Type c \<noteq> ''pause'' \<and> cm_Type c \<noteq> ''seek'' \<and>
         cm_Type c \<noteq> ''handoff'') \<or>
        (cm_Type c = ''play'' \<and> cm_CatalogID c = ''''))"

definition screen_after :: "command \<Rightarrow> screen \<Rightarrow> screen" where
  "screen_after c s =
     (if cm_Type c = ''play'' then
        s\<lparr>sc_State := ''playing'', sc_CatalogID := cm_CatalogID c, sc_PositionMS := cm_PositionMS c\<rparr>
      else if cm_Type c = ''pause'' then s\<lparr>sc_State := ''paused''\<rparr>
      else if cm_Type c = ''seek'' then s\<lparr>sc_PositionMS := cm_PositionMS c\<rparr>
      else if cm_Type c = ''handoff'' then
        s\<lparr>sc_State := ''available'', sc_CatalogID := '''', sc_PositionMS := 0\<rparr>
      else s)"

definition control ::
    "string \<Rightarrow> string \<Rightarrow> command \<Rightarrow> int \<Rightarrow> screens_manager \<Rightarrow>
     screens_manager \<times> (screens_error, screen) result" where
  "control value profileID c now m =
     (if \<not> valid_command c then (m, Inl ErrInvalidCommand)
      else case map_of (sm_sessions m) value of
        None \<Rightarrow> (m, Inl ErrForbidden)
      | Some a \<Rightarrow>
          if au_profileID a \<noteq> profileID then (m, Inl ErrForbidden)
          else if \<not> now < au_expires a
          then (m\<lparr>sm_sessions := AList.delete value (sm_sessions m)\<rparr>, Inl ErrExpired)
          else (case map_of (sm_screens m) (au_screenID a) of
              None \<Rightarrow> (m, Inl ErrUnavailable)
            | Some p \<Rightarrow>
                if \<not> pr_connected p then (m, Inl ErrUnavailable)
                else if length (pr_commands p) \<ge> channel_capacity then (m, Inl ErrUnavailable)
                else
                  (let updated = screen_after c (pr_screen p) in
                   (m\<lparr>sm_screens := AList.update (au_screenID a)
                         (p\<lparr>pr_commands := pr_commands p @ [c], pr_screen := updated\<rparr>)
                         (sm_screens m),
                      sm_sessions := (if cm_Type c = ''handoff''
                        then AList.delete value (sm_sessions m) else sm_sessions m)\<rparr>,
                    Inr updated))))"

text \<open>The receiver's goroutine takes the next command off the channel of its presence.\<close>

definition receive_command ::
    "string \<Rightarrow> nat \<Rightarrow> screens_manager \<Rightarrow> screens_manager \<times> command option" where
  "receive_command screenID ref m =
     (case map_of (sm_screens m) screenID of
        None \<Rightarrow> (m, None)
      | Some p \<Rightarrow>
          if pr_ref p \<noteq> ref then (m, None)
          else (case pr_commands p of
              [] \<Rightarrow> (m, None)
            | c # cs \<Rightarrow> (m\<lparr>sm_screens := AList.update screenID (p\<lparr>pr_commands := cs\<rparr>) (sm_screens m)\<rparr>,
                         Some c)))"

definition shutdown_screens :: "screens_manager \<Rightarrow> screens_manager" where
  "shutdown_screens m =
     (if sm_closed m then m
      else m\<lparr>sm_closed := True, sm_cancelled := True,
             sm_closed_channels := sm_closed_channels m @ map (\<lambda>(_, p). pr_ref p) (sm_screens m),
             sm_cancelled_refs := sm_cancelled_refs m @ map (\<lambda>(_, p). pr_ref p) (sm_screens m),
             sm_screens := [], sm_sessions := [], sm_tickets := []\<rparr>)"

section \<open>The manager as a machine\<close>

datatype screens_event =
    ControlContext string string int
  | ReleaseControl string
  | Advertise "string option" "string option" string string int
  | ConnectReceiver string string int
  | Disconnect string nat
  | ListScreens string int
  | ListAllScreens int
  | Authorize "string option" string string int
  | Control string string command int
  | Receive string nat
  | ShutdownScreens

fun screens_step :: "screens_manager \<Rightarrow> screens_event \<Rightarrow> screens_manager" where
  "screens_step m (ControlContext v p t) = fst (control_context v p t m)"
| "screens_step m (ReleaseControl v) = release_control v m"
| "screens_step m (Advertise i k p n t) = fst (advertise i k p n t m)"
| "screens_step m (ConnectReceiver k p t) = fst (connect_receiver k p t m)"
| "screens_step m (Disconnect i r) = disconnect i r m"
| "screens_step m (ListScreens p t) = fst (list_screens p t m)"
| "screens_step m (ListAllScreens t) = fst (list_all_screens t m)"
| "screens_step m (Authorize k i p t) = fst (authorize k i p t m)"
| "screens_step m (Control v p c t) = fst (control v p c t m)"
| "screens_step m (Receive i r) = fst (receive_command i r m)"
| "screens_step m ShutdownScreens = shutdown_screens m"

section \<open>Bounds, channels and shutdown\<close>

text \<open>
  The invariant of the manager, for any sequence of operations and any tokens: the maps and the
  channels stay within their bounds, the channel of every listed presence is open, no channel
  was closed twice, and a closed manager is empty.
\<close>

definition maps_bounded :: "screens_manager \<Rightarrow> bool" where
  "maps_bounded m \<longleftrightarrow> wf_map (sm_screens m) \<and> wf_map (sm_tickets m) \<and> wf_map (sm_sessions m) \<and>
     length (sm_screens m) \<le> max_screens \<and> length (sm_sessions m) \<le> max_screens"

definition presences_ok :: "screens_manager \<Rightarrow> bool" where
  "presences_ok m \<longleftrightarrow> (\<forall>i p. map_of (sm_screens m) i = Some p \<longrightarrow>
     length (pr_commands p) \<le> channel_capacity \<and> pr_ref p < sm_next m \<and>
     pr_ref p \<notin> set (sm_closed_channels m) \<and>
     (\<forall>j q. map_of (sm_screens m) j = Some q \<and> pr_ref q = pr_ref p \<longrightarrow> j = i))"

definition channels_ok :: "screens_manager \<Rightarrow> bool" where
  "channels_ok m \<longleftrightarrow> distinct (sm_closed_channels m) \<and>
     (\<forall>r \<in> set (sm_closed_channels m). r < sm_next m)"

definition closed_empty :: "screens_manager \<Rightarrow> bool" where
  "closed_empty m \<longleftrightarrow> (sm_closed m \<longrightarrow>
     sm_cancelled m \<and> sm_screens m = [] \<and> sm_tickets m = [] \<and> sm_sessions m = [])"

definition screens_ok :: "screens_manager \<Rightarrow> bool" where
  "screens_ok m \<longleftrightarrow> maps_bounded m \<and> presences_ok m \<and> channels_ok m \<and> closed_empty m"

lemma screens_okI:
  "maps_bounded m \<Longrightarrow> presences_ok m \<Longrightarrow> channels_ok m \<Longrightarrow> closed_empty m \<Longrightarrow> screens_ok m"
  by (simp add: screens_ok_def)

lemma new_screens_ok: "screens_ok (new_screens ttl)"
  by (simp add: screens_ok_def maps_bounded_def presences_ok_def channels_ok_def closed_empty_def
      new_screens_def)

lemma prune_fields [simp]:
  "sm_screens (prune_screens now m) =
     keep (\<lambda>_ p. pr_connected p \<or> now < pr_expires p) (sm_screens m)"
  "sm_tickets (prune_screens now m) = keep (\<lambda>_ a. now < au_expires a) (sm_tickets m)"
  "sm_sessions (prune_screens now m) = keep (\<lambda>_ a. now < au_expires a) (sm_sessions m)"
  "sm_closed (prune_screens now m) = sm_closed m"
  "sm_cancelled (prune_screens now m) = sm_cancelled m"
  "sm_next (prune_screens now m) = sm_next m"
  "sm_ttl (prune_screens now m) = sm_ttl m"
  "sm_closed_channels (prune_screens now m) = sm_closed_channels m"
  by (simp_all add: prune_screens_def Let_def)

lemma map_of_keep_Some:
  "wf_map m \<Longrightarrow> map_of (keep P m) k = Some v \<longleftrightarrow> map_of m k = Some v \<and> P k v"
  by (auto simp: map_of_keep split: option.splits)

lemma prune_screens_ok [wf_intros]:
  assumes "screens_ok m" shows "screens_ok (prune_screens now m)"
proof (rule screens_okI)
  from assms have b: "maps_bounded m" and p: "presences_ok m" and c: "channels_ok m"
    and e: "closed_empty m" by (simp_all add: screens_ok_def)
  from b show "maps_bounded (prune_screens now m)"
    by (auto simp: maps_bounded_def intro: order_trans [OF length_keep_le])
  from p b show "presences_ok (prune_screens now m)"
    by (auto simp: presences_ok_def maps_bounded_def map_of_keep_Some)
  from c show "channels_ok (prune_screens now m)" by (simp add: channels_ok_def)
  from e show "closed_empty (prune_screens now m)" by (simp add: closed_empty_def)
qed

text \<open>Replacing a listed presence by one with the same pointer and a queue within bounds.\<close>

lemma replace_presence_ok:
  assumes ok: "screens_ok m" and p: "map_of (sm_screens m) i = Some p"
    and q: "pr_ref q = pr_ref p" "length (pr_commands q) \<le> channel_capacity"
  shows "screens_ok (m\<lparr>sm_screens := AList.update i q (sm_screens m)\<rparr>)"
proof -
  from ok p have nc: "\<not> sm_closed m" by (auto simp: screens_ok_def closed_empty_def)
  have uniq: "\<And>j x. map_of (sm_screens m) j = Some x \<Longrightarrow> pr_ref x = pr_ref p \<Longrightarrow> j = i"
    using ok p by (auto simp: screens_ok_def presences_ok_def)
  show ?thesis
  proof (rule screens_okI)
    show "maps_bounded (m\<lparr>sm_screens := AList.update i q (sm_screens m)\<rparr>)"
      using ok by (simp add: screens_ok_def maps_bounded_def length_update_old [OF p])
    show "channels_ok (m\<lparr>sm_screens := AList.update i q (sm_screens m)\<rparr>)"
      using ok by (simp add: screens_ok_def channels_ok_def)
    show "closed_empty (m\<lparr>sm_screens := AList.update i q (sm_screens m)\<rparr>)"
      using nc by (simp add: closed_empty_def)
    show "presences_ok (m\<lparr>sm_screens := AList.update i q (sm_screens m)\<rparr>)"
      using ok p q uniq by (auto simp: screens_ok_def presences_ok_def)
  qed
qed

lemma drop_tickets_ok:
  "screens_ok m \<Longrightarrow> screens_ok (m\<lparr>sm_tickets := AList.delete k (sm_tickets m)\<rparr>)"
  by (auto simp: screens_ok_def maps_bounded_def presences_ok_def channels_ok_def closed_empty_def)

lemma drop_session_ok:
  "screens_ok m \<Longrightarrow> screens_ok (m\<lparr>sm_sessions := AList.delete k (sm_sessions m)\<rparr>)"
  by (auto simp: screens_ok_def maps_bounded_def presences_ok_def channels_ok_def closed_empty_def
      intro: order_trans [OF length_delete_le])

lemma set_sessions_ok:
  assumes "screens_ok m" "\<not> sm_closed m" "wf_map ss" "length ss \<le> max_screens"
  shows "screens_ok (m\<lparr>sm_sessions := ss\<rparr>)"
  using assms
  by (auto simp: screens_ok_def maps_bounded_def presences_ok_def channels_ok_def closed_empty_def)

lemma control_context_ok:
  assumes ok: "screens_ok m" shows "screens_ok (fst (control_context v p t m))"
proof -
  have "screens_ok (m\<lparr>sm_sessions := AList.update v b (sm_sessions m)\<rparr>)"
    if "map_of (sm_sessions m) v = Some a" "\<not> sm_closed m" for a b
    by (rule set_sessions_ok [OF ok that(2)])
      (use ok in \<open>simp_all add: screens_ok_def maps_bounded_def length_update_old [OF that(1)]\<close>)
  with ok show ?thesis unfolding control_context_def by (auto split: option.splits)
qed

lemma release_control_ok: "screens_ok m \<Longrightarrow> screens_ok (release_control v m)"
  unfolding release_control_def by (rule drop_session_ok)

lemma advertise_ok:
  assumes "screens_ok m" shows "screens_ok (fst (advertise i k p n t m))"
proof -
  let ?m = "prune_screens t m"
  have add: "screens_ok (?m\<lparr>sm_next := Suc (sm_next ?m),
      sm_screens := AList.update j q (sm_screens ?m),
      sm_tickets := AList.update l a (sm_tickets ?m)\<rparr>)"
    if "\<not> sm_closed m" "length (sm_screens ?m) < max_screens" "pr_ref q = sm_next ?m"
      "pr_commands q = []" for j q l a
  proof (rule screens_okI)
    have ok: "screens_ok ?m" by (rule prune_screens_ok) (rule assms)
    let ?n = "?m\<lparr>sm_next := Suc (sm_next ?m), sm_screens := AList.update j q (sm_screens ?m),
      sm_tickets := AList.update l a (sm_tickets ?m)\<rparr>"
    show "maps_bounded ?n" using ok that(2) length_update_le [of j q "sm_screens ?m"]
      by (simp add: screens_ok_def maps_bounded_def)
    show "channels_ok ?n" using ok by (auto simp: screens_ok_def channels_ok_def)
    show "closed_empty ?n" using that(1) by (simp add: closed_empty_def)
    have "\<And>j' x. map_of (sm_screens ?m) j' = Some x \<Longrightarrow> pr_ref x < sm_next ?m"
      using ok by (auto simp: screens_ok_def presences_ok_def simp del: prune_fields)
    moreover have "sm_next ?m \<notin> set (sm_closed_channels ?m)"
      using ok by (auto simp: screens_ok_def channels_ok_def simp del: prune_fields)
    ultimately show "presences_ok ?n"
      using ok that(3,4)
      by (fastforce simp: screens_ok_def presences_ok_def simp del: prune_fields)
  qed
  from assms show ?thesis
    unfolding advertise_def Let_def
    by (auto split: option.splits intro: prune_screens_ok intro!: add [simplified])
qed

lemma connect_receiver_ok:
  assumes ok: "screens_ok m" shows "screens_ok (fst (connect_receiver k p t m))"
proof -
  let ?m = "m\<lparr>sm_tickets := AList.delete k (sm_tickets m)\<rparr>"
  have ok': "screens_ok ?m" by (rule drop_tickets_ok) (rule ok)
  have "screens_ok (?m\<lparr>sm_screens := AList.update i (q\<lparr>pr_connected := True, pr_screen := s\<rparr>)
      (sm_screens m)\<rparr>)" if q: "map_of (sm_screens m) i = Some q" for i q s
  proof -
    from q ok have "length (pr_commands q) \<le> channel_capacity"
      by (auto simp: screens_ok_def presences_ok_def)
    then show ?thesis
      using replace_presence_ok [OF ok', of i q "q\<lparr>pr_connected := True, pr_screen := s\<rparr>"] q
      by simp
  qed
  with ok' show ?thesis
    unfolding connect_receiver_def Let_def by (auto split: option.splits)
qed

lemma disconnect_ok:
  assumes ok: "screens_ok m" shows "screens_ok (disconnect i r m)"
proof (cases "map_of (sm_screens m) i")
  case None
  with ok show ?thesis by (simp add: disconnect_def)
next
  case (Some p)
  from ok Some have nc: "\<not> sm_closed m" by (auto simp: screens_ok_def closed_empty_def)
  show ?thesis
  proof (cases "pr_ref p = r")
    case False
    with ok Some show ?thesis by (simp add: disconnect_def)
  next
    case True
    let ?n = "disconnect i r m"
    have n: "?n = m\<lparr>sm_screens := AList.delete i (sm_screens m),
        sm_sessions := keep (\<lambda>_ a. au_screenID a \<noteq> i) (sm_sessions m),
        sm_closed_channels := sm_closed_channels m @ [r],
        sm_cancelled_refs := sm_cancelled_refs m @ [r]\<rparr>"
      using Some True by (simp add: disconnect_def)
    have bounds: "maps_bounded ?n"
      using ok unfolding n screens_ok_def maps_bounded_def
      by (auto intro: order_trans [OF length_keep_le] order_trans [OF length_delete_le])
    have chans: "channels_ok ?n"
      using ok Some True unfolding n screens_ok_def channels_ok_def presences_ok_def by auto
    have "presences_ok ?n"
      using ok Some True unfolding n screens_ok_def presences_ok_def
      by (simp split: if_splits) blast
    moreover have "closed_empty ?n" using nc by (simp add: n closed_empty_def)
    ultimately show ?thesis using bounds chans by (rule_tac screens_okI) simp_all
  qed
qed

lemma lists_ok:
  "screens_ok m \<Longrightarrow> screens_ok (fst (list_screens p t m))"
  "screens_ok m \<Longrightarrow> screens_ok (fst (list_all_screens t m))"
  by (simp_all add: list_screens_def list_all_screens_def Let_def prune_screens_ok)

lemma authorize_ok:
  assumes ok: "screens_ok m" shows "screens_ok (fst (authorize k i p t m))"
proof -
  let ?m = "prune_screens t m"
  have ok': "screens_ok ?m" by (rule prune_screens_ok) (rule ok)
  have add: "screens_ok (?m\<lparr>sm_sessions := AList.update v a (sm_sessions ?m)\<rparr>)"
    if "map_of (sm_screens ?m) i = Some q" "\<not> length (sm_sessions ?m) \<ge> max_screens" for v a q
  proof (rule set_sessions_ok [OF ok'])
    show "\<not> sm_closed ?m" using that(1) ok' by (auto simp: screens_ok_def closed_empty_def)
    show "wf_map (AList.update v a (sm_sessions ?m))"
      using ok' by (simp add: screens_ok_def maps_bounded_def)
    show "length (AList.update v a (sm_sessions ?m)) \<le> max_screens"
      using that(2) length_update_le [of v a "sm_sessions ?m"] by simp
  qed
  show ?thesis
    unfolding authorize_def Let_def
    by (auto split: option.splits intro: ok' intro!: add simp del: prune_fields)
qed

lemma control_ok:
  assumes ok: "screens_ok m" shows "screens_ok (fst (control v p c t m))"
proof -
  have upd: "screens_ok (m\<lparr>sm_screens := AList.update i (q\<lparr>pr_commands := pr_commands q @ [c],
      pr_screen := s\<rparr>) (sm_screens m)\<rparr>)"
    if "map_of (sm_screens m) i = Some q" "\<not> length (pr_commands q) \<ge> channel_capacity" for i q s
    by (rule replace_presence_ok [OF ok that(1)]) (use that(2) in simp_all)
  have upd2: "screens_ok (m\<lparr>sm_screens := AList.update i (q\<lparr>pr_commands := pr_commands q @ [c],
      pr_screen := s\<rparr>) (sm_screens m), sm_sessions := AList.delete v (sm_sessions m)\<rparr>)"
    if "map_of (sm_screens m) i = Some q" "\<not> length (pr_commands q) \<ge> channel_capacity" for i q s
    using drop_session_ok [OF upd [OF that], of v] by simp
  show ?thesis
    unfolding control_def Let_def
    by (auto split: option.splits intro: ok drop_session_ok intro!: upd upd2)
qed

lemma receive_command_ok:
  assumes ok: "screens_ok m" shows "screens_ok (fst (receive_command i r m))"
proof -
  have "screens_ok (m\<lparr>sm_screens := AList.update i (q\<lparr>pr_commands := cs\<rparr>) (sm_screens m)\<rparr>)"
    if "map_of (sm_screens m) i = Some q" "pr_commands q = c # cs" for q c cs
    by (rule replace_presence_ok [OF ok that(1)])
      (use ok that in \<open>fastforce simp: screens_ok_def presences_ok_def\<close>)+
  with ok show ?thesis
    unfolding receive_command_def by (auto split: option.splits list.splits)
qed

lemma shutdown_screens_ok:
  assumes ok: "screens_ok m" shows "screens_ok (shutdown_screens m)"
proof -
  have refs: "distinct (map (\<lambda>(_, p). pr_ref p) (sm_screens m))"
  proof -
    have wf: "wf_map (sm_screens m)" using ok by (simp add: screens_ok_def maps_bounded_def)
    have "inj_on (\<lambda>(_, p). pr_ref p) (set (sm_screens m))"
    proof (rule inj_onI)
      fix e f
      assume e: "e \<in> set (sm_screens m)" and f: "f \<in> set (sm_screens m)"
        and eq: "(case e of (_, p) \<Rightarrow> pr_ref p) = (case f of (_, p) \<Rightarrow> pr_ref p)"
      obtain i p where ip: "e = (i, p)" by (cases e)
      obtain j q where jq: "f = (j, q)" by (cases f)
      from e f wf have mi: "map_of (sm_screens m) i = Some p" "map_of (sm_screens m) j = Some q"
        by (simp_all add: ip jq wf_map_mem_iff)
      with ok eq have "j = i" by (simp add: ip jq screens_ok_def presences_ok_def)
      with mi show "e = f" by (simp add: ip jq)
    qed
    with wf show ?thesis by (simp add: distinct_map wf_map_def)
  qed
  have open_refs: "r \<notin> set (sm_closed_channels m) \<and> r < sm_next m"
    if "r \<in> (\<lambda>(_, p). pr_ref p) ` set (sm_screens m)" for r
    using that ok by (auto simp: screens_ok_def presences_ok_def maps_bounded_def wf_map_mem_iff)
  show ?thesis
    using ok refs open_refs unfolding shutdown_screens_def
    by (auto simp: screens_ok_def maps_bounded_def presences_ok_def channels_ok_def closed_empty_def)
qed

lemma screens_step_ok: "screens_ok m \<Longrightarrow> screens_ok (screens_step m e)"
  by (cases e)
    (simp_all add: control_context_ok release_control_ok advertise_ok connect_receiver_ok
      disconnect_ok lists_ok authorize_ok control_ok receive_command_ok shutdown_screens_ok)

interpretation screens: machine "new_screens ttl" screens_step screens_ok for ttl
  by unfold_locales (simp_all add: new_screens_ok screens_step_ok)

text \<open>The same machine read as one whose shutdown is never undone.\<close>

lemma closed_stays: "sm_closed m \<le> sm_closed (screens_step m e)"
  by (cases e)
    (auto simp: control_context_def release_control_def advertise_def connect_receiver_def
      disconnect_def list_screens_def list_all_screens_def authorize_def control_def
      receive_command_def shutdown_screens_def Let_def split: option.splits list.splits)

interpretation closing: monotone_machine "new_screens ttl" screens_step screens_ok sm_closed for ttl
  by unfold_locales (rule closed_stays)

text \<open>
  C8: Whatever sequence of calls, tokens and clock readings the screen manager sees, it never
  lists more than 128 screens nor holds more than 128 control sessions, no command queue is
  longer than its channel's capacity of 8, the channel of every listed screen is still open (so
  that Control never sends on a closed channel), and no channel is closed twice.
\<close>
theorem screens_bounded_and_open:
  "let m = run_steps screens_step (new_screens ttl) es in
   length (sm_screens m) \<le> 128 \<and> length (sm_sessions m) \<le> 128 \<and>
   list_all (\<lambda>(_, p). length (pr_commands p) \<le> 8 \<and> pr_ref p \<notin> set (sm_closed_channels m))
     (sm_screens m) \<and>
   distinct (sm_closed_channels m)"
proof -
  have ok: "screens_ok (run_steps screens_step (new_screens ttl) es)"
    by (rule screens.ok_reachable)
  then show ?thesis
    by (auto simp: screens_ok_def maps_bounded_def presences_ok_def channels_ok_def Let_def
        max_screens_def channel_capacity_def list_all_iff wf_map_mem_iff)
qed

text \<open>
  Shutdown is final: in every state the manager reaches after a Shutdown, whatever is called,
  there is no screen, ticket or session, and advertising, connecting, authorizing, opening a
  control socket and sending a command are all refused.
\<close>
theorem shutdown_is_final:
  "let m = run_steps screens_step
             (shutdown_screens (run_steps screens_step (new_screens ttl) es)) fs in
   sm_screens m = [] \<and> sm_tickets m = [] \<and> sm_sessions m = [] \<and>
   \<not> is_ok (snd (advertise i k p n t m)) \<and> \<not> is_ok (snd (connect_receiver k' p t m)) \<and>
   \<not> is_ok (snd (authorize tok sid p t m)) \<and> \<not> is_ok (snd (control v p c t m)) \<and>
   \<not> is_ok (snd (control_context v p t m))"
proof -
  let ?s = "shutdown_screens (run_steps screens_step (new_screens ttl) es)"
  let ?m = "run_steps screens_step ?s fs"
  have ok: "screens_ok ?s" by (intro shutdown_screens_ok screens.ok_reachable)
  have "sm_closed ?s" by (simp add: shutdown_screens_def)
  then have "sm_closed ?m" using closing.level_run [OF ok, of fs] by simp
  moreover have "screens_ok ?m" by (rule screens.ok_run) (rule ok)
  ultimately have "sm_closed ?m" "sm_screens ?m = []" "sm_tickets ?m = []" "sm_sessions ?m = []"
    by (simp_all add: screens_ok_def closed_empty_def)
  then show ?thesis
    by (simp add: Let_def advertise_def connect_receiver_def authorize_def control_def
        control_context_def has_key_def get_or_def keep_def split: option.split)
qed

section \<open>One-time tickets\<close>

text \<open>An operation other than the Advertise that draws this very ticket does not bring it back.\<close>

fun issues_ticket :: "string \<Rightarrow> screens_event \<Rightarrow> bool" where
  "issues_ticket k (Advertise i k' p n t) = (k' = Some k)"
| "issues_ticket k _ = False"

lemma ticket_gone_step:
  assumes "wf_map (sm_tickets m)" "map_of (sm_tickets m) k = None" "\<not> issues_ticket k e"
  shows "map_of (sm_tickets (screens_step m e)) k = None"
  using assms
  by (cases e)
    (auto simp: control_context_def release_control_def advertise_def connect_receiver_def
      disconnect_def list_screens_def list_all_screens_def authorize_def control_def
      receive_command_def shutdown_screens_def Let_def map_of_keep
      split: option.splits list.splits if_splits)

lemma ticket_gone_run:
  "screens_ok m \<Longrightarrow> map_of (sm_tickets m) k = None \<Longrightarrow> list_all (\<lambda>e. \<not> issues_ticket k e) es \<Longrightarrow>
   map_of (sm_tickets (run_steps screens_step m es)) k = None"
proof (induction es arbitrary: m)
  case Nil
  then show ?case by simp
next
  case (Cons e es)
  from Cons.prems have "wf_map (sm_tickets m)" by (simp add: screens_ok_def maps_bounded_def)
  with Cons.prems have "map_of (sm_tickets (screens_step m e)) k = None"
    by (intro ticket_gone_step) simp_all
  with Cons.prems show ?case by (simp add: Cons.IH screens_step_ok)
qed

lemma connect_spends:
  "map_of (sm_tickets (fst (connect_receiver k p t m))) k = None"
  by (auto simp: connect_receiver_def Let_def split: option.splits)

lemma no_ticket_no_connection:
  "map_of (sm_tickets m) k = None \<Longrightarrow> snd (connect_receiver k p t m) = Inl ErrForbidden"
  by (simp add: connect_receiver_def Let_def has_key_def split: option.split)

text \<open>
  A receiver ticket works once. Once it was presented, whether the connection was accepted
  or not, it is refused in every later state in which no Advertise has drawn the same token
  again, whatever the profile and the time.
\<close>
theorem ticket_used_once:
  assumes "list_all (\<lambda>e. \<not> issues_ticket k e) fs"
  shows "snd (connect_receiver k q t'
      (run_steps screens_step
        (fst (connect_receiver k p t (run_steps screens_step (new_screens ttl) es))) fs)) =
    Inl ErrForbidden"
proof (rule no_ticket_no_connection, rule ticket_gone_run)
  show "screens_ok (fst (connect_receiver k p t (run_steps screens_step (new_screens ttl) es)))"
    by (intro connect_receiver_ok screens.ok_reachable)
qed (simp_all add: connect_spends assms)

theorem ticket_used_once_witness:
  "is_ok (snd (connect_receiver ''k'' ''p'' 5 (run_steps screens_step (new_screens 60)
       [Advertise (Some ''s'') (Some ''k'') ''p'' ''TV'' 0]))) \<and>
   snd (connect_receiver ''k'' ''p'' 6
      (run_steps screens_step
        (fst (connect_receiver ''k'' ''p'' 5 (run_steps screens_step (new_screens 60)
          [Advertise (Some ''s'') (Some ''k'') ''p'' ''TV'' 0])))
        [ListScreens ''p'' 5, Advertise (Some ''s2'') (Some ''k2'') ''p'' ''TV'' 5])) =
    Inl ErrForbidden"
proof
  show "is_ok (snd (connect_receiver ''k'' ''p'' 5 (run_steps screens_step (new_screens 60)
       [Advertise (Some ''s'') (Some ''k'') ''p'' ''TV'' 0])))"
    by (simp add: text_eval advertise_def new_screens_def prune_screens_def connect_receiver_def
        Let_def max_screens_def max_screen_name_def get_or_def has_key_def)
qed (rule ticket_used_once, simp)

section \<open>Authority\<close>

text \<open>
  Screen IDs are drawn from crypto/rand. What is relied on is that an ID in use, by a listed
  screen or in an outstanding ticket or session, is not drawn again.
\<close>

fun fresh_draw :: "screens_manager \<Rightarrow> screens_event \<Rightarrow> bool" where
  "fresh_draw m (Advertise (Some i) k p n t) =
     (\<not> has_key (sm_screens m) i \<and>
      list_all (\<lambda>(_, a). au_screenID a \<noteq> i) (sm_tickets m) \<and>
      list_all (\<lambda>(_, a). au_screenID a \<noteq> i) (sm_sessions m))"
| "fresh_draw m _ = True"

fun fresh_run :: "screens_manager \<Rightarrow> screens_event list \<Rightarrow> bool" where
  "fresh_run m [] = True"
| "fresh_run m (e # es) = (fresh_draw m e \<and> fresh_run (screens_step m e) es)"

text \<open>
  Every control session is for a connected screen of the session's own profile, and a ticket's
  screen, while it is listed, has the ticket's profile.
\<close>

definition backed :: "screens_manager \<Rightarrow> bool" where
  "backed m \<longleftrightarrow> wf_map (sm_screens m) \<and> wf_map (sm_tickets m) \<and> wf_map (sm_sessions m) \<and>
     (\<forall>v a. map_of (sm_sessions m) v = Some a \<longrightarrow>
        (\<exists>p. map_of (sm_screens m) (au_screenID a) = Some p \<and> pr_connected p \<and>
             pr_profileID p = au_profileID a)) \<and>
     (\<forall>k a. map_of (sm_tickets m) k = Some a \<longrightarrow>
        (\<forall>p. map_of (sm_screens m) (au_screenID a) = Some p \<longrightarrow> pr_profileID p = au_profileID a))"

lemma backedD:
  assumes "backed m"
  shows "wf_map (sm_screens m)" "wf_map (sm_tickets m)" "wf_map (sm_sessions m)"
    "map_of (sm_sessions m) v = Some a \<Longrightarrow>
        (\<exists>p. map_of (sm_screens m) (au_screenID a) = Some p \<and> pr_connected p \<and>
             pr_profileID p = au_profileID a)"
    "map_of (sm_tickets m) k = Some a \<Longrightarrow> map_of (sm_screens m) (au_screenID a) = Some p \<Longrightarrow>
       pr_profileID p = au_profileID a"
  using assms by (auto simp: backed_def)

lemma backed_prune [wf_intros]: "backed m \<Longrightarrow> backed (prune_screens t m)"
  unfolding backed_def by (simp add: map_of_keep_Some) blast

lemma backed_replace:
  assumes "backed m" "map_of (sm_screens m) i = Some p" "pr_profileID q = pr_profileID p"
    "pr_connected p \<longrightarrow> pr_connected q"
  shows "backed (m\<lparr>sm_screens := AList.update i q (sm_screens m)\<rparr>)"
proof -
  have "\<exists>x. ((map_of (sm_screens m))(i \<mapsto> q)) (au_screenID a) = Some x \<and> pr_connected x \<and>
      pr_profileID x = au_profileID a" if "map_of (sm_sessions m) v = Some a" for v a
    using backedD(4) [OF assms(1) that] assms(2-4) by (cases "au_screenID a = i") auto
  moreover have "pr_profileID x = au_profileID a"
    if "map_of (sm_tickets m) k = Some a"
      and "((map_of (sm_screens m))(i \<mapsto> q)) (au_screenID a) = Some x" for k a x
    using backedD(5) [OF assms(1) that(1)] that(2) assms(2,3)
    by (cases "au_screenID a = i") auto
  ultimately show ?thesis using assms(1) by (simp add: backed_def)
qed

lemma backed_drop_session: "backed m \<Longrightarrow> backed (m\<lparr>sm_sessions := AList.delete v (sm_sessions m)\<rparr>)"
  unfolding backed_def by auto

lemma backed_drop_ticket: "backed m \<Longrightarrow> backed (m\<lparr>sm_tickets := AList.delete v (sm_tickets m)\<rparr>)"
  unfolding backed_def by auto

lemma backed_add_session:
  assumes "backed m" "map_of (sm_screens m) (au_screenID a) = Some p" "pr_connected p"
    "pr_profileID p = au_profileID a"
  shows "backed (m\<lparr>sm_sessions := AList.update v a (sm_sessions m)\<rparr>)"
  using assms unfolding backed_def by auto

lemma backed_control_context: "backed m \<Longrightarrow> backed (fst (control_context v p t m))"
  unfolding control_context_def
  by (auto split: option.splits intro!: backed_add_session dest: backedD(4))

lemma backed_advertise:
  assumes b: "backed m" and f: "fresh_draw m (Advertise i k p n t)"
  shows "backed (fst (advertise i k p n t m))"
proof -
  let ?m = "prune_screens t m"
  have b': "backed ?m" by (rule backed_prune) (rule b)
  have add: "backed (?m\<lparr>sm_next := nx, sm_screens := AList.update j q (sm_screens ?m),
      sm_tickets := AList.update l a (sm_tickets ?m)\<rparr>)"
    if "i = Some j" "au_screenID a = j" "pr_profileID q = au_profileID a" for j q l a nx
  proof -
    have "au_screenID x \<noteq> j" if "map_of (sm_sessions ?m) v = Some x" for v x
      using f \<open>i = Some j\<close> b that
      by (auto simp: map_of_keep_Some backed_def list_all_iff dest!: map_of_SomeD)
    moreover have "au_screenID x \<noteq> j" if "map_of (sm_tickets ?m) v = Some x" for v x
      using f \<open>i = Some j\<close> b that
      by (auto simp: map_of_keep_Some backed_def list_all_iff dest!: map_of_SomeD)
    ultimately show ?thesis
      using b' that(2,3) by (fastforce simp: backed_def simp del: prune_fields split: if_splits)
  qed
  from b show ?thesis
    unfolding advertise_def Let_def
    by (auto split: option.splits intro: backed_prune intro!: add [simplified])
qed

lemma backed_connect: 
  assumes b: "backed m" shows "backed (fst (connect_receiver k p t m))"
proof -
  let ?m = "m\<lparr>sm_tickets := AList.delete k (sm_tickets m)\<rparr>"
  have b': "backed ?m" by (rule backed_drop_ticket) (rule b)
  have "backed (?m\<lparr>sm_screens := AList.update i (q\<lparr>pr_connected := True, pr_screen := s\<rparr>)
      (sm_screens m)\<rparr>)" if "map_of (sm_screens m) i = Some q" for i q s
    using backed_replace [OF b', of i q "q\<lparr>pr_connected := True, pr_screen := s\<rparr>"] that by simp
  with b' show ?thesis
    unfolding connect_receiver_def Let_def by (auto split: option.splits)
qed

lemma backed_disconnect: "backed m \<Longrightarrow> backed (disconnect i r m)"
  unfolding disconnect_def backed_def
  by (auto simp: map_of_keep_Some split: option.splits if_splits)

lemma backed_authorize:
  assumes b: "backed m" shows "backed (fst (authorize k i p t m))"
proof -
  let ?m = "prune_screens t m"
  have b': "backed ?m" by (rule backed_prune) (rule b)
  show ?thesis
    unfolding authorize_def Let_def
    by (auto split: option.splits intro: b' intro!: backed_add_session [OF b'] simp del: prune_fields)
qed

lemma backed_control:
  assumes b: "backed m" shows "backed (fst (control v p c t m))"
proof -
  have upd: "backed (m\<lparr>sm_screens := AList.update i (q\<lparr>pr_commands := cs, pr_screen := s\<rparr>)
      (sm_screens m)\<rparr>)" if "map_of (sm_screens m) i = Some q" for i q s cs
    by (rule backed_replace [OF b that]) simp_all
  have upd2: "backed (m\<lparr>sm_screens := AList.update i (q\<lparr>pr_commands := cs, pr_screen := s\<rparr>)
      (sm_screens m), sm_sessions := AList.delete v (sm_sessions m)\<rparr>)"
    if "map_of (sm_screens m) i = Some q" for i q s cs
    using backed_drop_session [OF upd [OF that], of v] by simp
  show ?thesis
    unfolding control_def Let_def
    by (auto split: option.splits intro: b backed_drop_session intro!: upd upd2)
qed

lemma backed_receive: "backed m \<Longrightarrow> backed (fst (receive_command i r m))"
  unfolding receive_command_def
  by (auto split: option.splits list.splits intro!: backed_replace)

lemma backed_shutdown: "backed m \<Longrightarrow> backed (shutdown_screens m)"
  by (simp add: shutdown_screens_def backed_def)

lemma backed_step: "backed m \<Longrightarrow> fresh_draw m e \<Longrightarrow> backed (screens_step m e)"
  by (cases e)
    (simp_all add: backed_control_context backed_advertise backed_connect backed_disconnect
      backed_authorize backed_control backed_receive backed_shutdown release_control_def
      backed_drop_session list_screens_def list_all_screens_def Let_def backed_prune
      del: fresh_draw.simps)

lemma backed_run: "backed m \<Longrightarrow> fresh_run m es \<Longrightarrow> backed (run_steps screens_step m es)"
  by (induction es arbitrary: m) (simp_all add: backed_step)

lemma backed_new: "backed (new_screens ttl)"
  by (simp add: backed_def new_screens_def)

text \<open>
  C28: A command that Control accepts was sent under an unexpired session of the caller's own
  profile, for a connected screen of that same profile; it is appended to that screen's queue,
  the screen's shown state changes as the command says, no other screen changes, and after a
  handoff the session is gone.
\<close>
theorem control_reaches_own_screen:
  assumes "fresh_run (new_screens ttl) es"
    and "m = run_steps screens_step (new_screens ttl) es"
    and "control v profileID c now m = (m', Inr s)"
  shows "\<exists>a p. map_of (sm_sessions m) v = Some a \<and> au_profileID a = profileID \<and>
      now < au_expires a \<and> map_of (sm_screens m) (au_screenID a) = Some p \<and>
      pr_connected p \<and> pr_profileID p = profileID \<and> s = screen_after c (pr_screen p) \<and>
      map_of (sm_screens m') = (map_of (sm_screens m))(au_screenID a \<mapsto>
        p\<lparr>pr_commands := pr_commands p @ [c], pr_screen := s\<rparr>) \<and>
      (cm_Type c = ''handoff'' \<longrightarrow> map_of (sm_sessions m') v = None)"
proof -
  have b: "backed m"
    unfolding assms(2) by (rule backed_run [OF backed_new assms(1)])
  from assms(3) obtain a p where a: "map_of (sm_sessions m) v = Some a"
      "au_profileID a = profileID" "now < au_expires a"
    and p: "map_of (sm_screens m) (au_screenID a) = Some p" "pr_connected p"
    and s: "s = screen_after c (pr_screen p)"
    and m': "m' = m\<lparr>sm_screens := AList.update (au_screenID a)
        (p\<lparr>pr_commands := pr_commands p @ [c], pr_screen := s\<rparr>) (sm_screens m),
      sm_sessions := (if cm_Type c = ''handoff'' then AList.delete v (sm_sessions m)
        else sm_sessions m)\<rparr>"
    by (auto simp: control_def Let_def split: option.splits if_splits)
  have "pr_profileID p = profileID"
    using backedD(4) [OF b a(1)] p(1) a(2) by simp
  with a p s m' show ?thesis by auto
qed

definition sample_screens_run :: "screens_event list" where
  "sample_screens_run =
     [Advertise (Some ''s'') (Some ''k'') ''p'' ''TV'' 0, ConnectReceiver ''k'' ''p'' 5,
      Authorize (Some ''v'') ''s'' ''p'' 6]"

definition sample_command :: command where
  "sample_command = \<lparr>cm_Type = ''play'', cm_CatalogID = ''film'', cm_PositionMS = 9\<rparr>"

lemmas screens_eval =
  text_eval advertise_def new_screens_def prune_screens_def connect_receiver_def authorize_def
  control_def Let_def max_screens_def max_screen_name_def get_or_def has_key_def keep_def
  sample_screens_run_def sample_command_def valid_command_def screen_after_def
  channel_capacity_def

theorem control_reaches_own_screen_witness:
  "\<exists>m m' s. m = run_steps screens_step (new_screens 60) sample_screens_run \<and>
     control ''v'' ''p'' sample_command 7 m = (m', Inr s) \<and> sc_State s = ''playing'' \<and>
     (\<exists>a p. map_of (sm_sessions m) ''v'' = Some a \<and> map_of (sm_screens m) (au_screenID a) = Some p \<and>
        pr_profileID p = ''p'' \<and> s = screen_after sample_command (pr_screen p))"
proof -
  let ?m = "run_steps screens_step (new_screens 60) sample_screens_run"
  obtain m' s where c: "control ''v'' ''p'' sample_command 7 ?m = (m', Inr s)"
    and s: "sc_State s = ''playing''"
    by (simp add: screens_eval)
  have "fresh_run (new_screens 60) sample_screens_run" by (simp add: screens_eval)
  from control_reaches_own_screen [OF this refl c] c s show ?thesis by blast
qed

end
