(* ===== verification/GoPath.thy ===== *)
theory GoPath
  imports GoText
begin

text \<open>
  Go's path/filepath on Unix: \<open>Clean\<close>, \<open>Join\<close>, \<open>IsAbs\<close> and \<open>Base\<close>, with the facts on
  absolute paths that the components storing files rely on.
\<close>

section \<open>Splitting at a byte\<close>

fun split_at :: "char \<Rightarrow> string \<Rightarrow> string list" where
  "split_at c [] = [[]]"
| "split_at c (x # s) =
    (if x = c then [] # split_at c s
     else (case split_at c s of [] \<Rightarrow> [[x]] | p # ps \<Rightarrow> (x # p) # ps))"

lemma split_at_nonempty [simp]: "split_at c s \<noteq> []"
  by (induction s) (auto split: list.splits)

lemma split_at_free: "p \<in> set (split_at c s) \<Longrightarrow> c \<notin> set p"
proof (induction s arbitrary: p)
  case Nil
  then show ?case by simp
next
  case (Cons x s)
  then show ?case by (cases "split_at c s") (auto split: if_splits)
qed

lemma split_at_no: "c \<notin> set p \<Longrightarrow> split_at c p = [p]"
  by (induction p) auto

lemma split_at_append: "c \<notin> set p \<Longrightarrow> split_at c (p @ c # s) = p # split_at c s"
  by (induction p) auto

lemma split_at_join:
  "ps \<noteq> [] \<Longrightarrow> \<forall>p \<in> set ps. c \<notin> set p \<Longrightarrow> split_at c (join [c] ps) = ps"
proof (induction "[c]" ps rule: join.induct)
  case 1
  then show ?case by simp
next
  case (2 p)
  then show ?case by (simp add: split_at_no)
next
  case (3 p q ps)
  then show ?case by (simp add: split_at_append)
qed

lemma join_inj:
  "length ps = length qs \<Longrightarrow> \<forall>p \<in> set ps \<union> set qs. c \<notin> set p \<Longrightarrow> join [c] ps = join [c] qs \<Longrightarrow> ps = qs"
  by (metis Un_iff length_0_conv split_at_join)

section \<open>Clean paths\<close>

definition slash :: char where "slash = CHR ''/''"

definition is_abs :: "string \<Rightarrow> bool" where
  "is_abs p \<longleftrightarrow> (case p of [] \<Rightarrow> False | c # _ \<Rightarrow> c = slash)"

text \<open>One component of a path, over the components kept so far, the last one first.\<close>

definition clean_step :: "bool \<Rightarrow> string \<Rightarrow> string list \<Rightarrow> string list" where
  "clean_step rooted part kept =
    (if part = '''' \<or> part = ''.'' then kept
     else if part = ''..'' then
       (case kept of
          [] \<Rightarrow> if rooted then [] else [''..'']
        | k # ks \<Rightarrow> if k = ''..'' then ''..'' # kept else ks)
     else part # kept)"

definition clean_parts :: "bool \<Rightarrow> string \<Rightarrow> string list" where
  "clean_parts rooted p = rev (fold (clean_step rooted) (split_at slash p) [])"

definition clean :: "string \<Rightarrow> string" where
  "clean p =
    (let parts = clean_parts (is_abs p) p in
     if is_abs p then slash # join [slash] parts
     else if parts = [] then ''.'' else join [slash] parts)"

definition join_path :: "string list \<Rightarrow> string" where
  "join_path ps =
    (let qs = filter (\<lambda>p. p \<noteq> '''') ps in if qs = [] then '''' else clean (join [slash] qs))"

definition base_name :: "string \<Rightarrow> string" where
  "base_name p =
    (if p = '''' then ''.''
     else (case filter (\<lambda>q. q \<noteq> '''') (split_at slash p) of [] \<Rightarrow> [slash] | qs \<Rightarrow> last qs))"

text \<open>The components of a cleaned absolute path are names.\<close>

definition path_name :: "string \<Rightarrow> bool" where
  "path_name p \<longleftrightarrow> p \<noteq> '''' \<and> p \<noteq> ''.'' \<and> p \<noteq> ''..'' \<and> slash \<notin> set p"

lemma clean_step_names:
  assumes names: "\<forall>k \<in> set kept. path_name k" and free: "slash \<notin> set p"
  shows "\<forall>k \<in> set (clean_step True p kept). path_name k"
proof (cases "p = '''' \<or> p = ''.'' \<or> p = ''..''")
  case False
  then have "path_name p" using free by (simp only: path_name_def) blast
  moreover have "clean_step True p kept = p # kept" using False by (simp only: clean_step_def) simp
  ultimately show ?thesis using names by simp
next
  case True
  have "set (clean_step True p kept) \<subseteq> set kept"
  proof (cases kept)
    case Nil
    with True show ?thesis by (auto simp: clean_step_def)
  next
    case (Cons k ks)
    then have "k \<noteq> ''..''" using names by (simp add: path_name_def)
    with True Cons show ?thesis by (auto simp: clean_step_def)
  qed
  with names show ?thesis by blast
qed

lemma fold_clean_names:
  "\<forall>p \<in> set ps. slash \<notin> set p \<Longrightarrow> \<forall>k \<in> set kept. path_name k \<Longrightarrow>
   \<forall>k \<in> set (fold (clean_step True) ps kept). path_name k"
proof (induction ps arbitrary: kept)
  case Nil
  then show ?case by simp
next
  case (Cons p ps)
  from Cons.prems have "\<forall>k \<in> set (clean_step True p kept). path_name k"
    by (intro clean_step_names) simp_all
  with Cons show ?case by simp
qed

lemma clean_parts_names: "p \<in> set (clean_parts True q) \<Longrightarrow> path_name p"
  unfolding clean_parts_def using fold_clean_names [of "split_at slash q" "[]"] split_at_free by auto

lemma clean_step_name: "path_name p \<Longrightarrow> clean_step rooted p kept = p # kept"
  by (simp add: clean_step_def path_name_def)

lemma fold_clean_fixed:
  "\<forall>p \<in> set ps. path_name p \<Longrightarrow> fold (clean_step rooted) ps kept = rev ps @ kept"
  by (induction ps arbitrary: kept) (simp_all add: clean_step_name)

lemma clean_abs: "is_abs p \<Longrightarrow> clean p = slash # join [slash] (clean_parts True p)"
  by (simp add: clean_def Let_def)

lemma is_abs_Cons [simp]: "is_abs (slash # s)"
  by (simp add: is_abs_def)

lemma is_abs_clean: "is_abs p \<Longrightarrow> is_abs (clean p)"
  by (simp add: clean_abs)

lemma clean_parts_abs_names:
  assumes "\<forall>p \<in> set ps. path_name p"
  shows "clean_parts True (slash # join [slash] ps) = ps"
proof (cases "ps = []")
  case True
  then show ?thesis by (simp add: clean_parts_def clean_step_def)
next
  case False
  then have "split_at slash (slash # join [slash] ps) = '''' # ps"
    using assms split_at_join [of ps slash] by (auto simp: path_name_def)
  then show ?thesis
    using assms by (simp add: clean_parts_def fold_clean_fixed) (simp add: clean_step_def fold_clean_fixed)
qed

lemma clean_idem: "is_abs p \<Longrightarrow> clean (clean p) = clean p"
  by (simp add: clean_abs clean_parts_abs_names clean_parts_names)

text \<open>A file of a cleaned absolute directory stays inside it.\<close>

lemma join_snoc: "ps \<noteq> [] \<Longrightarrow> join sep (ps @ [p]) = join sep ps @ sep @ p"
  by (induction sep ps rule: join.induct) auto

lemma split_at_snoc: "split_at c (s @ c # t) = split_at c s @ split_at c t"
proof (induction s)
  case Nil
  then show ?case by simp
next
  case (Cons x s)
  then show ?case by (cases "split_at c s") auto
qed

lemma join_path_file:
  assumes "is_abs dir" and "path_name name"
  shows "clean_parts True (join_path [dir, name]) = clean_parts True dir @ [name]"
    and "is_abs (join_path [dir, name])"
proof -
  have jp: "join_path [dir, name] = clean (dir @ slash # name)"
    using assms by (auto simp: join_path_def is_abs_def path_name_def)
  have abs': "is_abs (dir @ slash # name)" using assms(1) by (cases dir) (auto simp: is_abs_def)
  have parts: "clean_parts True (dir @ slash # name) = clean_parts True dir @ [name]"
    using assms(2) by (simp add: clean_parts_def split_at_snoc split_at_no path_name_def)
      (simp add: clean_step_def path_name_def)
  show "is_abs (join_path [dir, name])" by (simp add: jp is_abs_clean abs')
  have "\<forall>p \<in> set (clean_parts True dir @ [name]). path_name p"
    using assms(2) clean_parts_names by auto
  then show "clean_parts True (join_path [dir, name]) = clean_parts True dir @ [name]"
    by (simp only: jp clean_abs [OF abs'] parts clean_parts_abs_names)
qed

section \<open>Decimal text\<close>

lemma parse_show_int: "in64 i \<Longrightarrow> parse_int64 (show_int i) = Some i"
proof (cases "i < 0")
  case True
  moreover assume "in64 i"
  ultimately show ?thesis
    by (simp add: show_int_def parse_int64_def digits_val_show_nat)
next
  case False
  moreover assume "in64 i"
  ultimately have "parse_int64 (show_nat (nat i)) = Some (int (nat i))"
    by (intro parse_int64_digits) (auto simp: set_show_nat digits_val_show_nat in64_def)
  with False show ?thesis by (simp add: show_int_def)
qed

lemma show_nat_inj: "show_nat m = show_nat n \<Longrightarrow> m = n"
  by (metis digits_val_show_nat option.inject)

lemma show_nat_no_minus: "show_nat n \<noteq> CHR ''-'' # s"
proof
  assume "show_nat n = CHR ''-'' # s"
  then have "CHR ''-'' \<in> set (show_nat n)" by simp
  from set_show_nat [OF this] show False by (simp add: digit_val_def)
qed

lemma show_int_inj: "show_int i = show_int j \<Longrightarrow> i = j"
  by (auto simp: show_int_def show_nat_no_minus show_nat_no_minus [symmetric] split: if_splits
      dest!: show_nat_inj)

lemma show_int_no_NUL: "CHR 0x00 \<notin> set (show_int i)"
proof
  assume "CHR 0x00 \<in> set (show_int i)"
  then have "CHR 0x00 \<in> set (show_nat (nat \<bar>i\<bar>))"
    by (auto simp: show_int_def split: if_splits)
  from set_show_nat [OF this] show False by (simp add: digit_val_def)
qed

lemma show_int_nonempty [simp]: "show_int i \<noteq> []"
  by (simp add: show_int_def)

end
