(* ===== verification/Generation.thy ===== *)
theory Generation
  imports GoPath Plan
begin

text \<open>
  One FFmpeg generation (the \<open>generation\<close> of backend/playback/manager.go) and the range of media
  it retains: FFmpeg's sliding HLS playlist is read, and the segments that left it are added to
  the generation's media offset. Also the key that decides which requests share a generation,
  the names of the assets it serves, and its bounded log.

  Media sequence numbers are \<open>uint64\<close>: natural numbers, reduced modulo \<open>2 ^ 64\<close> where the code
  adds to them. Media times are \<open>int64\<close> milliseconds. A generation is shared by pointer; the
  pointer is \<open>ge_ref\<close>.
\<close>

record generation =
  ge_ref :: nat
  ge_id :: string
  ge_jobKey :: string
  ge_kind :: kind
  ge_startMS :: int
  ge_dir :: string
  ge_inputs :: "string list"
  ge_leases :: "(string, int) gomap"
  ge_completed :: bool
  ge_ready :: bool
  ge_startedAt :: int
  ge_log :: string
  ge_mediaSequence :: nat
  ge_mediaOffsetMS :: int
  ge_segmentDuration :: "(nat, int) gomap"

section \<open>The retained range\<close>

text \<open>
  \<open>strconv.ParseUint(s, 10, 64)\<close>: the value and whether it was accepted; a syntax error gives 0,
  a value out of range the greatest one.
\<close>

fun uint_loop :: "nat \<Rightarrow> string \<Rightarrow> nat \<times> bool" where
  "uint_loop acc [] = (acc, True)"
| "uint_loop acc (c # s) =
    (case digit_val c of None \<Rightarrow> (0, False)
     | Some d \<Rightarrow> if 10 * acc + d \<ge> 2 ^ 64 then (2 ^ 64 - 1, False) else uint_loop (10 * acc + d) s)"

definition parse_uint64 :: "string \<Rightarrow> nat \<times> bool" where
  "parse_uint64 s = (if s = '''' then (0, False) else uint_loop 0 s)"

definition cut_prefix :: "string \<Rightarrow> string \<Rightarrow> string option" where
  "cut_prefix s p = (if prefix p s then Some (drop (length p) s) else None)"

definition trim_suffix :: "string \<Rightarrow> string \<Rightarrow> string" where
  "trim_suffix s p = (if suffix p s then take (length s - length p) s else s)"

text \<open>
  \<open>parse_ms\<close> stands for \<open>ParseFloat\<close>, the test for a positive number of seconds and the rounding
  to milliseconds: it gives the milliseconds of a duration that is accepted.
\<close>

fun manifest_loop :: "(string \<Rightarrow> int option) \<Rightarrow> string list \<Rightarrow> nat \<Rightarrow> bool \<Rightarrow> int list \<Rightarrow>
    nat \<times> int list \<times> bool" where
  "manifest_loop parse_ms [] sequence found durations =
    (sequence, durations, found \<and> durations \<noteq> [])"
| "manifest_loop parse_ms (line # lines) sequence found durations =
    (let (sequence, found) =
       (case cut_prefix line ''#EXT-X-MEDIA-SEQUENCE:'' of None \<Rightarrow> (sequence, found)
        | Some value \<Rightarrow> parse_uint64 (trim_space value)) in
     case cut_prefix line ''#EXTINF:'' of
       None \<Rightarrow> manifest_loop parse_ms lines sequence found durations
     | Some value \<Rightarrow>
        (case parse_ms (trim_suffix (trim_space value) '','') of
           None \<Rightarrow> (0, [], False)
         | Some ms \<Rightarrow> manifest_loop parse_ms lines sequence found (durations @ [ms])))"

definition read_retained_manifest ::
    "(string \<Rightarrow> int option) \<Rightarrow> string option \<Rightarrow> nat \<times> int list \<times> bool" where
  "read_retained_manifest parse_ms manifest =
    (case manifest of None \<Rightarrow> (0, [], False)
     | Some text \<Rightarrow> manifest_loop parse_ms (split_at (CHR 0x0A) text) 0 False [])"

fun record_durations :: "nat \<Rightarrow> int list \<Rightarrow> (nat, int) gomap \<Rightarrow> (nat, int) gomap" where
  "record_durations sequence [] m = m"
| "record_durations sequence (d # ds) m =
    record_durations ((sequence + 1) mod 2 ^ 64) ds (AList.update (sequence mod 2 ^ 64) d m)"

text \<open>
  The segments before the playlist's first one are dropped. The sequence number cannot wrap while
  it is below another one.
\<close>

function drop_segments :: "nat \<Rightarrow> generation \<Rightarrow> generation \<times> bool" where
  "drop_segments sequence gen =
    (if ge_mediaSequence gen < sequence then
       (case map_of (ge_segmentDuration gen) (ge_mediaSequence gen) of
          None \<Rightarrow> (gen, False)
        | Some duration \<Rightarrow> drop_segments sequence
            (gen\<lparr>ge_mediaOffsetMS := wrap64 (ge_mediaOffsetMS gen + duration),
                 ge_segmentDuration := AList.delete (ge_mediaSequence gen) (ge_segmentDuration gen),
                 ge_mediaSequence := ge_mediaSequence gen + 1\<rparr>))
     else (gen, True))"
  by pat_completeness auto
termination
  by (relation "measure (\<lambda>(sequence, gen). sequence - ge_mediaSequence gen)") auto

declare drop_segments.simps [simp del]

definition apply_retained_range ::
    "generation \<Rightarrow> nat \<Rightarrow> int list \<Rightarrow> generation \<times> (int \<times> int) option" where
  "apply_retained_range gen sequence durations =
    (if sequence < ge_mediaSequence gen then (gen, None)
     else
       (let gen = gen\<lparr>ge_segmentDuration :=
              record_durations sequence durations (ge_segmentDuration gen)\<rparr>;
            (gen, known) = drop_segments sequence gen in
        if \<not> known then (gen, None)
        else
          (let start = wrap64 (ge_startMS gen + ge_mediaOffsetMS gen) in
           (gen, Some (start, fold (\<lambda>d e. wrap64 (e + d)) durations start)))))"

text \<open>What the playlist of a generation holds is given by \<open>manifest\<close>, its parsed content.\<close>

definition retained_range ::
    "nat \<times> int list \<times> bool \<Rightarrow> generation \<Rightarrow> generation \<times> (int \<times> int) option" where
  "retained_range manifest gen =
    (if \<not> ge_ready gen then (gen, None)
     else case manifest of (sequence, durations, ok) \<Rightarrow>
       if \<not> ok then (gen, None) else apply_retained_range gen sequence durations)"

text \<open>Reading the range touches only the three fields that track the playlist.\<close>

definition same_but_media :: "generation \<Rightarrow> generation \<Rightarrow> bool" where
  "same_but_media g h \<longleftrightarrow> (\<exists>n ms segs. h = g\<lparr>ge_mediaSequence := n,
     ge_mediaOffsetMS := ms, ge_segmentDuration := segs\<rparr>)"

lemma same_but_mediaI:
  "same_but_media g (g\<lparr>ge_mediaSequence := n, ge_mediaOffsetMS := ms, ge_segmentDuration := segs\<rparr>)"
  by (auto simp: same_but_media_def)

lemma same_but_media_refl [simp]: "same_but_media g g"
  using same_but_mediaI [where g = g and n = "ge_mediaSequence g" and ms = "ge_mediaOffsetMS g" and
    segs = "ge_segmentDuration g"] by simp

lemma same_but_media_trans: "same_but_media g h \<Longrightarrow> same_but_media h k \<Longrightarrow> same_but_media g k"
  unfolding same_but_media_def by (elim exE, simp) blast

lemma same_but_media_fields:
  "same_but_media g h \<Longrightarrow> ge_ref h = ge_ref g \<and> ge_id h = ge_id g \<and> ge_jobKey h = ge_jobKey g \<and>
     ge_startMS h = ge_startMS g \<and> ge_inputs h = ge_inputs g \<and> ge_leases h = ge_leases g \<and>
     ge_ready h = ge_ready g"
  unfolding same_but_media_def by (elim exE) simp

lemma drop_segments_media: "same_but_media gen (fst (drop_segments sequence gen))"
proof (induction sequence gen rule: drop_segments.induct)
  case (1 sequence gen)
  show ?case
  proof (cases "ge_mediaSequence gen < sequence")
    case False
    then show ?thesis by (subst drop_segments.simps) simp
  next
    case True
    show ?thesis
    proof (cases "map_of (ge_segmentDuration gen) (ge_mediaSequence gen)")
      case None
      with True show ?thesis by (subst drop_segments.simps) simp
    next
      case (Some d)
      let ?h = "gen\<lparr>ge_mediaOffsetMS := wrap64 (ge_mediaOffsetMS gen + d),
                 ge_segmentDuration := AList.delete (ge_mediaSequence gen) (ge_segmentDuration gen),
                 ge_mediaSequence := ge_mediaSequence gen + 1\<rparr>"
      have "?h = gen\<lparr>ge_mediaSequence := ge_mediaSequence gen + 1,
          ge_mediaOffsetMS := wrap64 (ge_mediaOffsetMS gen + d),
          ge_segmentDuration := AList.delete (ge_mediaSequence gen) (ge_segmentDuration gen)\<rparr>"
        by simp
      then have "same_but_media gen ?h" by (simp only: same_but_mediaI)
      moreover have "same_but_media ?h (fst (drop_segments sequence ?h))"
        using 1 True Some by simp
      moreover have "drop_segments sequence gen = drop_segments sequence ?h"
        using True Some by (subst drop_segments.simps) simp
      ultimately show ?thesis by (metis same_but_media_trans)
    qed
  qed
qed

lemma apply_retained_media: "same_but_media gen (fst (apply_retained_range gen sequence durations))"
proof -
  let ?g = "gen\<lparr>ge_segmentDuration := record_durations sequence durations (ge_segmentDuration gen)\<rparr>"
  have "same_but_media gen ?g"
    using same_but_mediaI [where g = gen and n = "ge_mediaSequence gen" and ms = "ge_mediaOffsetMS gen"] by simp
  then have "same_but_media gen (fst (drop_segments sequence ?g))"
    by (rule same_but_media_trans) (rule drop_segments_media)
  then show ?thesis
    by (cases "drop_segments sequence ?g") (simp add: apply_retained_range_def Let_def)
qed

lemma retained_range_media: "same_but_media gen (fst (retained_range manifest gen))"
  by (auto simp: retained_range_def apply_retained_media split: prod.split)

section \<open>Which requests share a generation\<close>

definition kind_name :: "kind \<Rightarrow> string" where
  "kind_name k = (case k of NoKind \<Rightarrow> '''' | Direct \<Rightarrow> ''direct'' | Remux \<Rightarrow> ''remux''
     | Transcode \<Rightarrow> ''transcode'' | Unsupported \<Rightarrow> ''unsupported'')"

definition show_bool :: "bool \<Rightarrow> string" where
  "show_bool b = (if b then ''true'' else ''false'')"

definition job_key_fields :: "string \<Rightarrow> plan \<Rightarrow> int \<Rightarrow> string list" where
  "job_key_fields catalogID p audioSelectionIndex =
    [catalogID, kind_name (pl_kind p), pl_container p, pl_video_codec p, pl_video_profile p,
     show_int (pl_video_level p), show_int (pl_width p), show_int (pl_height p),
     show_int (pl_video_bitrate p), show_int (pl_frame_rate_milli p), show_int (pl_bit_depth p),
     pl_hdr p, pl_audio_codec p, pl_audio_profile p, show_int (pl_audio_channels p),
     show_int (pl_audio_sample_rate p), show_int (pl_audio_bitrate p), pl_source_key p,
     show_int audioSelectionIndex, show_int (pl_audio_source_stream_index p),
     show_bool (pl_audio_external p), show_bool (pl_audio_selected p), show_int (pl_bandwidth p),
     pl_quality_mode p, show_int (pl_quality_max_video_bitrate p), show_int (pl_quality_max_width p),
     show_int (pl_quality_max_height p)]"

definition generation_job_key :: "string \<Rightarrow> plan \<Rightarrow> int \<Rightarrow> string" where
  "generation_job_key catalogID p audioSelectionIndex =
     join [CHR 0x00] (job_key_fields catalogID p audioSelectionIndex)"

text \<open>The parts of a plan that describe the encoder job: its source and its rendition.\<close>

definition rendition :: "plan \<Rightarrow> kind \<times> string list \<times> int list \<times> bool list" where
  "rendition p = (pl_kind p,
     [pl_container p, pl_video_codec p, pl_video_profile p, pl_hdr p, pl_audio_codec p,
      pl_audio_profile p, pl_source_key p, pl_quality_mode p],
     [pl_video_level p, pl_width p, pl_height p, pl_video_bitrate p, pl_frame_rate_milli p,
      pl_bit_depth p, pl_audio_channels p, pl_audio_sample_rate p, pl_audio_bitrate p,
      pl_audio_source_stream_index p, pl_bandwidth p, pl_quality_max_video_bitrate p,
      pl_quality_max_width p, pl_quality_max_height p],
     [pl_audio_external p, pl_audio_selected p])"

definition nul_free :: "string \<Rightarrow> plan \<Rightarrow> bool" where
  "nul_free catalogID p \<longleftrightarrow> list_all (\<lambda>s. CHR 0x00 \<notin> set s)
     [catalogID, pl_container p, pl_video_codec p, pl_video_profile p, pl_hdr p, pl_audio_codec p,
      pl_audio_profile p, pl_source_key p, pl_quality_mode p]"

lemma kind_name_inj: "kind_name k = kind_name l \<Longrightarrow> k = l"
  by (cases k; cases l) (simp_all add: kind_name_def)

lemma show_bool_inj: "show_bool b = show_bool c \<Longrightarrow> b = c"
  by (cases b; cases c) (simp_all add: show_bool_def)

lemma job_key_fields_free:
  "nul_free c p \<Longrightarrow> s \<in> set (job_key_fields c p i) \<Longrightarrow> CHR 0x00 \<notin> set s"
proof -
  have "CHR 0x00 \<notin> set (kind_name k)" and "CHR 0x00 \<notin> set (show_bool b)" for k b
    by (cases k; simp add: kind_name_def) (simp add: show_bool_def)
  then show "nul_free c p \<Longrightarrow> s \<in> set (job_key_fields c p i) \<Longrightarrow> CHR 0x00 \<notin> set s"
    unfolding job_key_fields_def nul_free_def list.pred_inject list.set insert_iff empty_iff
    by (elim disjE) (simp_all add: show_int_no_NUL)
qed

text \<open>
  Two requests share a generation only if they ask for the same encoder job. Their keys are
  equal only when the catalog item, the source, the selected audio and every field of the
  rendition are the same, as long as no field of them contains a NUL byte.
\<close>
theorem job_key_identifies_job:
  assumes "nul_free c p" and "nul_free d q"
    and "generation_job_key c p i = generation_job_key d q j"
  shows "c = d \<and> i = j \<and> rendition p = rendition q"
proof -
  have "job_key_fields c p i = job_key_fields d q j"
  proof (rule join_inj)
    show "length (job_key_fields c p i) = length (job_key_fields d q j)"
      by (simp add: job_key_fields_def)
    show "\<forall>s \<in> set (job_key_fields c p i) \<union> set (job_key_fields d q j). CHR 0x00 \<notin> set s"
      using job_key_fields_free assms(1,2) by blast
    show "join [CHR 0x00] (job_key_fields c p i) = join [CHR 0x00] (job_key_fields d q j)"
      using assms(3) by (simp only: generation_job_key_def)
  qed
  then show ?thesis
    unfolding job_key_fields_def list.inject rendition_def
    by (elim conjE) (simp add: show_int_inj kind_name_inj show_bool_inj)
qed

theorem job_key_identifies_job_witness:
  "generation_job_key ''film'' (zero_plan\<lparr>pl_width := 640\<rparr>) 1 \<noteq>
   generation_job_key ''film'' (zero_plan\<lparr>pl_width := 854\<rparr>) 1"
  using job_key_identifies_job [of "''film''" "zero_plan\<lparr>pl_width := 640\<rparr>" "''film''"
      "zero_plan\<lparr>pl_width := 854\<rparr>" 1 1]
  by (auto simp: nul_free_def zero_plan_def rendition_def)

section \<open>Asset names and the log\<close>

text \<open>The regular expression of the assets a generation serves, as a function.\<close>

definition asset_name :: "string \<Rightarrow> bool" where
  "asset_name name \<longleftrightarrow>
     name = ''master.m3u8'' \<or> name = ''index.m3u8'' \<or> name = ''init.mp4'' \<or>
     (prefix ''segment-'' name \<and> suffix ''.m4s'' name \<and>
      (let digits = drop 8 (take (length name - 4) name) in
       digits \<noteq> '''' \<and> length name = 12 + length digits \<and>
       list_all (\<lambda>c. digit_val c \<noteq> None) digits))"

definition generation_dir_name :: "string \<Rightarrow> bool" where
  "generation_dir_name name \<longleftrightarrow> length name = 32 \<and>
     list_all (\<lambda>c. (let n = (of_char c :: nat) in 65 \<le> n \<and> n \<le> 90 \<or> 97 \<le> n \<and> n \<le> 122 \<or>
       48 \<le> n \<and> n \<le> 57 \<or> n = 95 \<or> n = 45)) name"

definition asset_path :: "generation \<Rightarrow> string \<Rightarrow> string option" where
  "asset_path gen name =
    (if \<not> asset_name name \<or> base_name name \<noteq> name then None
     else Some (join_path [ge_dir gen, name]))"

lemma asset_name_path_name: "asset_name name \<Longrightarrow> base_name name = name \<Longrightarrow> path_name name"
proof -
  assume a: "asset_name name" and "base_name name = name"
  have len: "8 \<le> length name"
    using a by (auto simp: asset_name_def Let_def)
  have "slash \<notin> set name"
  proof
    assume "slash \<in> set name"
    show False
    proof (cases "filter (\<lambda>q. q \<noteq> '''') (split_at slash name)")
      case Nil
      with \<open>base_name name = name\<close> len show False
        by (cases name) (auto simp: base_name_def)
    next
      case (Cons q qs)
      with \<open>base_name name = name\<close> len have "name = last (filter (\<lambda>q. q \<noteq> '''') (split_at slash name))"
        by (cases name) (auto simp: base_name_def)
      moreover have "\<dots> \<in> set (split_at slash name)"
      proof -
        have "last (filter (\<lambda>q. q \<noteq> '''') (split_at slash name)) \<in>
            set (filter (\<lambda>q. q \<noteq> '''') (split_at slash name))"
          using Cons by (intro last_in_set) simp
        then show ?thesis by (simp only: set_filter mem_Collect_eq)
      qed
      ultimately show False using split_at_free \<open>slash \<in> set name\<close> by metis
    qed
  qed
  with len show "path_name name" by (auto simp: path_name_def)
qed

text \<open>
  An asset request cannot leave its generation's directory: the path that is opened is the
  cleaned directory with one more component, the name itself.
\<close>
theorem asset_inside_generation:
  assumes "asset_path gen name = Some path" and "is_abs (ge_dir gen)"
  shows "is_abs path \<and> clean_parts True path = clean_parts True (ge_dir gen) @ [name]"
proof -
  from assms(1) have "path_name name" and "path = join_path [ge_dir gen, name]"
    using asset_name_path_name by (auto simp: asset_path_def split: if_splits)
  then show ?thesis using join_path_file [OF assms(2)] by simp
qed

text \<open>The log keeps the first 64 KiB of what FFmpeg writes and reports every write as complete.\<close>

definition log_limit :: nat where "log_limit = 65536"

definition log_write :: "string \<Rightarrow> string \<Rightarrow> string \<times> nat" where
  "log_write p buf =
    (if length buf < log_limit then (buf @ take (log_limit - length buf) p, length p)
     else (buf, length p))"

text \<open>
  However FFmpeg splits its output into writes, the log is the first 64 KiB of the output.
\<close>
theorem log_keeps_first_bytes:
  "fold (\<lambda>p buf. fst (log_write p buf)) ps '''' = take 65536 (concat ps)"
proof -
  have "fold (\<lambda>p buf. fst (log_write p buf)) ps (take log_limit s) = take log_limit (s @ concat ps)" for s
  proof (induction ps arbitrary: s)
    case Nil
    then show ?case by simp
  next
    case (Cons p ps)
    have "fst (log_write p (take log_limit s)) = take log_limit (s @ p)"
      by (auto simp: log_write_def min_def)
    with Cons.IH [of "s @ p"] show ?case by simp
  qed
  from this [of "''''"] show ?thesis by (simp add: log_limit_def)
qed

definition sample_generation :: generation where
  "sample_generation = \<lparr>ge_ref = 0, ge_id = ''g'', ge_jobKey = '''', ge_kind = Remux, ge_startMS = 0,
     ge_dir = ''/seg/g'', ge_inputs = [], ge_leases = [], ge_completed = False, ge_ready = True,
     ge_startedAt = 0, ge_log = '''', ge_mediaSequence = 0, ge_mediaOffsetMS = 0,
     ge_segmentDuration = []\<rparr>"

theorem asset_inside_generation_witness:
  "asset_path sample_generation ''index.m3u8'' = Some (join_path [''/seg/g'', ''index.m3u8'']) \<and>
   clean_parts True (join_path [''/seg/g'', ''index.m3u8'']) =
     clean_parts True ''/seg/g'' @ [''index.m3u8'']"
proof -
  have a: "asset_path sample_generation ''index.m3u8'' = Some (join_path [''/seg/g'', ''index.m3u8''])"
    by (simp add: asset_path_def asset_name_def base_name_def slash_def sample_generation_def)
  show ?thesis
    using asset_inside_generation [OF a] a by (simp add: sample_generation_def is_abs_def slash_def)
qed

section \<open>The range follows the stream\<close>

text \<open>
  A stream gives segment \<open>i\<close> the duration \<open>d i\<close>. The generation tracks it up to segment \<open>e\<close> when
  its offset is the time of the segments before its sequence number and it knows exactly the
  durations from there to \<open>e\<close>.
\<close>

definition stream_ms :: "(nat \<Rightarrow> int) \<Rightarrow> nat \<Rightarrow> int" where
  "stream_ms d n = (\<Sum>i<n. d i)"

definition tracks :: "(nat \<Rightarrow> int) \<Rightarrow> nat \<Rightarrow> generation \<Rightarrow> bool" where
  "tracks d e g \<longleftrightarrow> ge_mediaOffsetMS g = stream_ms d (ge_mediaSequence g) \<and>
     (\<forall>i. map_of (ge_segmentDuration g) i =
        (if ge_mediaSequence g \<le> i \<and> i < e then Some (d i) else None))"

lemma map_of_record_durations:
  "s + length ds < 2 ^ 64 \<Longrightarrow> map_of (record_durations s ds m) i =
     (if s \<le> i \<and> i < s + length ds then Some (ds ! (i - s)) else map_of m i)"
proof (induction ds arbitrary: s m)
  case Nil
  then show ?case by auto
next
  case (Cons d ds)
  then have "record_durations s (d # ds) m = record_durations (s + 1) ds (AList.update s d m)" by simp
  with Cons show ?case by (auto simp: nth_Cons' not_less_eq_eq le_Suc_eq)
qed

lemma stream_ms_mono: "(\<And>i. 0 \<le> d i) \<Longrightarrow> m \<le> n \<Longrightarrow> stream_ms d m \<le> stream_ms d n"
  unfolding stream_ms_def by (intro sum_mono2) auto

lemma stream_ms_nonneg: "(\<And>i. 0 \<le> d i) \<Longrightarrow> 0 \<le> stream_ms d n"
  unfolding stream_ms_def by (intro sum_nonneg) auto

lemma stream_ms_Suc: "stream_ms d (Suc n) = stream_ms d n + d n"
  by (simp add: stream_ms_def)

lemma drop_segments_tracks:
  assumes "tracks d e g" and "ge_mediaSequence g \<le> s" and "s \<le> e"
    and "\<And>i. 0 \<le> d i" and "stream_ms d s < 2 ^ 63"
  shows "\<exists>h. drop_segments s g = (h, True) \<and> tracks d e h \<and> ge_mediaSequence h = s"
  using assms(1-3,5)
proof (induction s g rule: drop_segments.induct)
  case (1 s g)
  show ?case
  proof (cases "ge_mediaSequence g < s")
    case False
    with 1 show ?thesis by (subst drop_segments.simps) simp
  next
    case True
    let ?n = "ge_mediaSequence g"
    have known: "map_of (ge_segmentDuration g) ?n = Some (d ?n)"
      using 1 True by (simp add: tracks_def)
    have "stream_ms d (Suc ?n) \<le> stream_ms d s" using True assms(4) by (intro stream_ms_mono) simp_all
    moreover have "0 \<le> stream_ms d (Suc ?n)" using assms(4) by (rule stream_ms_nonneg)
    ultimately have "in64 (stream_ms d (Suc ?n))" using 1(5) by (simp add: in64_def)
    then have off: "wrap64 (ge_mediaOffsetMS g + d ?n) = stream_ms d (Suc ?n)"
      using 1 by (simp add: tracks_def stream_ms_Suc)
    let ?h = "g\<lparr>ge_mediaOffsetMS := wrap64 (ge_mediaOffsetMS g + d ?n),
        ge_segmentDuration := AList.delete ?n (ge_segmentDuration g), ge_mediaSequence := ?n + 1\<rparr>"
    have "tracks d e ?h" using 1 off by (auto simp: tracks_def)
    with 1 True known have "\<exists>h. drop_segments s ?h = (h, True) \<and> tracks d e h \<and> ge_mediaSequence h = s"
      by simp
    moreover have "drop_segments s g = drop_segments s ?h"
      using True known by (subst drop_segments.simps) simp
    ultimately show ?thesis by simp
  qed
qed

lemma fold_end:
  assumes "\<And>i. 0 \<le> d i" and "0 \<le> a" and "a + stream_ms d (s + n) < 2 ^ 63"
  shows "fold (\<lambda>x e. wrap64 (e + x)) (map d [s..<s + n]) (a + stream_ms d s) = a + stream_ms d (s + n)"
  using assms(3)
proof (induction n)
  case 0
  then show ?case by simp
next
  case (Suc n)
  have le: "stream_ms d (s + n) \<le> stream_ms d (s + Suc n)" using assms(1) by (intro stream_ms_mono) simp_all
  have "in64 (a + stream_ms d (s + Suc n))"
    using Suc.prems stream_ms_nonneg [where d = d and n = "s + Suc n"] assms(1,2) by (simp add: in64_def)
  then have "wrap64 (a + stream_ms d (s + n) + d (s + n)) = a + stream_ms d (s + Suc n)"
    by (simp add: stream_ms_Suc add.assoc)
  with Suc le show ?case by simp
qed

lemma apply_retained_tracks:
  assumes "tracks d e g" "ge_mediaSequence g \<le> s" "s \<le> e" "s + n < 2 ^ 64"
    and d: "\<And>i. 0 \<le> d i" and a: "0 \<le> ge_startMS g" "ge_startMS g + stream_ms d (s + n) < 2 ^ 63"
  shows "\<exists>h. apply_retained_range g s (map d [s..<s + n]) =
      (h, Some (ge_startMS g + stream_ms d s, ge_startMS g + stream_ms d (s + n))) \<and>
    tracks d (max e (s + n)) h \<and> ge_mediaSequence h = s \<and> ge_startMS h = ge_startMS g"
proof -
  let ?g = "g\<lparr>ge_segmentDuration := record_durations s (map d [s..<s + n]) (ge_segmentDuration g)\<rparr>"
  have le: "stream_ms d s \<le> stream_ms d (s + n)" using d by (intro stream_ms_mono) simp_all
  have nn: "0 \<le> stream_ms d s" using d by (rule stream_ms_nonneg)
  have "tracks d (max e (s + n)) ?g"
    using assms(1-4) by (auto simp: tracks_def map_of_record_durations)
  then obtain h where h: "drop_segments s ?g = (h, True)" "tracks d (max e (s + n)) h"
      "ge_mediaSequence h = s"
    using drop_segments_tracks [of d "max e (s + n)" ?g s] assms(2,3) d a le nn by fastforce
  have "ge_startMS h = ge_startMS g"
    using drop_segments_media [of ?g s] h(1) same_but_media_fields by fastforce
  moreover have "in64 (ge_startMS g + stream_ms d s)" using a le nn by (simp add: in64_def)
  moreover have "ge_mediaOffsetMS h = stream_ms d s" using h(2,3) by (simp add: tracks_def)
  ultimately show ?thesis
    using assms(2) h fold_end [OF d a(1,2)] by (simp add: apply_retained_range_def Let_def)
qed

text \<open>
  The playlists FFmpeg writes slide over the stream: each starts no earlier than the one before
  and leaves no gap after the segments seen so far.
\<close>

fun sliding :: "nat \<Rightarrow> nat \<Rightarrow> (nat \<times> nat) list \<Rightarrow> bool" where
  "sliding s e [] = True"
| "sliding s e ((s', n) # ws) = (s \<le> s' \<and> s' \<le> e \<and> sliding s' (max e (s' + n)) ws)"

definition see_window :: "(nat \<Rightarrow> int) \<Rightarrow> nat \<times> nat \<Rightarrow> generation \<Rightarrow> generation" where
  "see_window d w g = fst (apply_retained_range g (fst w) (map d [fst w..<fst w + snd w]))"

lemma see_windows_tracks:
  assumes "tracks d e g" "sliding (ge_mediaSequence g) e ws" "\<And>i. 0 \<le> d i" "0 \<le> ge_startMS g"
    and "\<forall>(s, n) \<in> set ws. s + n < 2 ^ 64 \<and> ge_startMS g + stream_ms d (s + n) < 2 ^ 63"
    and "sliding (ge_mediaSequence g) e (ws @ [(s, n)])"
  shows "\<exists>e'. tracks d e' (fold (see_window d) ws g) \<and>
    ge_startMS (fold (see_window d) ws g) = ge_startMS g \<and>
    ge_mediaSequence (fold (see_window d) ws g) \<le> s \<and> s \<le> e'"
  using assms(1,2,4,5,6)
proof (induction ws arbitrary: g e)
  case Nil
  then show ?case by auto
next
  case (Cons w ws)
  obtain s' n' where w: "w = (s', n')" by (cases w)
  from Cons.prems have b: "s' + n' < 2 ^ 64" "ge_startMS g + stream_ms d (s' + n') < 2 ^ 63"
    and sl: "ge_mediaSequence g \<le> s'" "s' \<le> e" "sliding s' (max e (s' + n')) ws"
      "sliding s' (max e (s' + n')) (ws @ [(s, n)])"
    by (simp_all add: w)
  obtain h where h: "apply_retained_range g s' (map d [s'..<s' + n']) =
      (h, Some (ge_startMS g + stream_ms d s', ge_startMS g + stream_ms d (s' + n')))"
    and t: "tracks d (max e (s' + n')) h" "ge_mediaSequence h = s'" "ge_startMS h = ge_startMS g"
    using apply_retained_tracks [OF Cons.prems(1) sl(1,2) b(1) assms(3) Cons.prems(3) b(2)] by blast
  have "see_window d w g = h" by (simp add: see_window_def w h)
  moreover have "\<exists>e'. tracks d e' (fold (see_window d) ws h) \<and>
      ge_startMS (fold (see_window d) ws h) = ge_startMS h \<and>
      ge_mediaSequence (fold (see_window d) ws h) \<le> s \<and> s \<le> e'"
    by (rule Cons.IH [OF t(1)]) (use sl t Cons.prems in \<open>auto simp: w\<close>)
  ultimately show ?case using t(3) by simp
qed

text \<open>
  The retained range follows the media timeline. However the playlist has slid over the
  stream, as long as it left no gap, the range read next starts at the generation's start plus
  the time of every segment that has ever been before the playlist's first, and ends after its
  last; nothing is counted twice or lost.
\<close>
theorem retained_follows_stream:
  assumes "ge_mediaSequence g = 0" "ge_mediaOffsetMS g = 0" "ge_segmentDuration g = []"
    and "\<And>i. 0 \<le> d i" and "0 \<le> ge_startMS g"
    and "sliding 0 0 (ws @ [(s, n)])"
    and "\<forall>(s, n) \<in> set (ws @ [(s, n)]). s + n < 2 ^ 64 \<and> ge_startMS g + stream_ms d (s + n) < 2 ^ 63"
  shows "snd (apply_retained_range (fold (see_window d) ws g) s (map d [s..<s + n])) =
    Some (ge_startMS g + stream_ms d s, ge_startMS g + stream_ms d (s + n))"
proof -
  have t: "tracks d 0 g" using assms(1-3) by (simp add: tracks_def stream_ms_def)
  have "sliding 0 0 ws"
  proof -
    have "sliding a b (ws @ vs) \<Longrightarrow> sliding a b ws" for a b vs
      by (induction ws arbitrary: a b) auto
    with assms(6) show ?thesis by blast
  qed
  then obtain e' where e': "tracks d e' (fold (see_window d) ws g)"
      "ge_startMS (fold (see_window d) ws g) = ge_startMS g"
      "ge_mediaSequence (fold (see_window d) ws g) \<le> s" "s \<le> e'"
    using see_windows_tracks [OF t _ assms(4,5), of ws s n] assms(1,6,7) by auto
  then show ?thesis
    using apply_retained_tracks [OF e'(1) e'(3,4), of n] assms(4,5,7) by auto
qed

theorem retained_follows_stream_witness:
  "snd (apply_retained_range (fold (see_window (\<lambda>_. 2000)) [(0, 3), (1, 3)] sample_generation) 3
      [2000, 2000]) = Some (6000, 10000)"
  using retained_follows_stream [where g = sample_generation and d = "\<lambda>_. 2000" and
      ws = "[(0, 3), (1, 3)]" and s = 3 and n = 2]
  by (simp add: sample_generation_def stream_ms_def upt_rec)

end
