(* ===== verification/PlaySettings.thy ===== *)
theory PlaySettings
  imports GoPath
begin

text \<open>
  The playback resource bounds (backend/playback/settings.go): their defaults and validation, the
  ownership marker of the segment directory, and how they are loaded and saved. The filesystem
  (afero) and the database are parameters: what reading a directory, a file or a row answers is
  an argument. Durations are nanoseconds.
\<close>

datatype settings_error =
    ErrSegmentDir | ErrByteLimits | ErrConcurrency | ErrHeartbeat | ErrTiming | ErrMarker
  | ErrNotOwned | ErrParse string | ErrInput string

record settings =
  st_SegmentDir :: string
  st_GenerationBytes :: int
  st_GlobalBytes :: int
  st_MaxGenerations :: int
  st_LeaseTTL :: int
  st_HeartbeatInterval :: int
  st_SegmentWindow :: int
  st_ProcessGrace :: int

definition second :: int where "second = 1000000000"

definition settingSegmentDir :: string where "settingSegmentDir = ''playback_segment_dir''"
definition settingGenerationBytes :: string where "settingGenerationBytes = ''playback_generation_bytes''"
definition settingGlobalBytes :: string where "settingGlobalBytes = ''playback_global_bytes''"
definition settingMaxGenerations :: string where "settingMaxGenerations = ''playback_max_generations''"
definition segmentDirMarker :: string where "segmentDirMarker = ''.flixr-playback-segments''"
definition segmentDirMarkerContent :: string where
  "segmentDirMarkerContent = ''flixr playback segments v1'' @ [CHR 0x0A]"

definition default_settings :: "string \<Rightarrow> settings" where
  "default_settings data_dir = \<lparr>st_SegmentDir = join_path [data_dir, ''segments''],
     st_GenerationBytes = 268435456, st_GlobalBytes = 536870912, st_MaxGenerations = 2,
     st_LeaseTTL = 45 * second, st_HeartbeatInterval = 15 * second,
     st_SegmentWindow = 60 * second, st_ProcessGrace = 2 * second\<rparr>"

definition validate_settings :: "settings \<Rightarrow> (settings_error, unit) result" where
  "validate_settings s =
    (if st_SegmentDir s = '''' \<or> \<not> is_abs (st_SegmentDir s) then Inl ErrSegmentDir
     else if st_GenerationBytes s \<le> 0 \<or> st_GlobalBytes s < st_GenerationBytes s then Inl ErrByteLimits
     else if st_MaxGenerations s \<le> 0 \<or>
             st_MaxGenerations s > go_div (st_GlobalBytes s) (st_GenerationBytes s) then Inl ErrConcurrency
     else if st_LeaseTTL s \<le> 0 \<or> st_HeartbeatInterval s \<le> 0 \<or>
             wrap64 (st_HeartbeatInterval s * 2) \<ge> st_LeaseTTL s then Inl ErrHeartbeat
     else if st_SegmentWindow s \<le> 0 \<or> st_ProcessGrace s \<le> 0 then Inl ErrTiming
     else Inr ())"

section \<open>Ownership of the segment directory\<close>

text \<open>
  What \<open>afero.ReadDir\<close> answers: the entries with their names and whether they are regular files,
  in the order of their names; a directory that does not exist; or another error. Reading a
  file answers its content or an error of the two kinds.
\<close>

datatype fs_error = NotExist | OtherError

type_synonym dir_entry = "string \<times> bool"

fun first_entry :: "string \<Rightarrow> dir_entry list \<Rightarrow> bool option" where
  "first_entry name [] = None"
| "first_entry name ((n, regular) # es) = (if n = name then Some regular else first_entry name es)"

definition validate_segment_dir_ownership ::
    "(fs_error, dir_entry list) result \<Rightarrow> (fs_error, string) result \<Rightarrow>
     (settings_error, unit) result" where
  "validate_segment_dir_ownership entries marker_content =
    (case entries of
       Inl NotExist \<Rightarrow> Inr ()
     | Inl OtherError \<Rightarrow> Inl (ErrInput ''inspect playback segment directory'')
     | Inr es \<Rightarrow>
        (case first_entry segmentDirMarker es of
           Some regular \<Rightarrow>
             if \<not> regular then Inl ErrMarker
             else (case marker_content of
                 Inl _ \<Rightarrow> Inl (ErrInput ''read playback segment ownership marker'')
               | Inr content \<Rightarrow> if content \<noteq> segmentDirMarkerContent then Inl ErrMarker else Inr ())
         | None \<Rightarrow>
             if list_all (\<lambda>(n, _). n = ''.flixr.lock'') es then Inr () else Inl ErrNotOwned))"

text \<open>
  Claiming creates the directory, checks it, and writes the marker where there is none. The
  value says whether the marker was written.
\<close>

definition claim_segment_dir ::
    "bool \<Rightarrow> (fs_error, dir_entry list) result \<Rightarrow> (fs_error, string) result \<Rightarrow>
     (fs_error, unit) result \<Rightarrow> bool \<Rightarrow> (settings_error, bool) result" where
  "claim_segment_dir made entries marker_content marker_stat written =
    (if \<not> made then Inl (ErrInput ''create segment directory'')
     else case validate_segment_dir_ownership entries marker_content of
       Inl e \<Rightarrow> Inl e
     | Inr _ \<Rightarrow>
        (case marker_stat of
           Inr _ \<Rightarrow> Inr False
         | Inl OtherError \<Rightarrow> Inl (ErrInput ''inspect playback segment ownership marker'')
         | Inl NotExist \<Rightarrow>
             if written then Inr True else Inl (ErrInput ''write playback segment ownership marker'')))"

section \<open>Loading and saving\<close>

definition load_segment_dir :: "(fs_error, string) result \<Rightarrow> string \<Rightarrow> (settings_error, string) result" where
  "load_segment_dir sidecar data_dir =
    (case sidecar of
       Inl NotExist \<Rightarrow> Inr (st_SegmentDir (default_settings data_dir))
     | Inl OtherError \<Rightarrow> Inl (ErrInput ''read playback segment directory'')
     | Inr value \<Rightarrow>
        (let dir = trim_space value in
         if dir = '''' \<or> \<not> is_abs dir then Inl ErrSegmentDir else Inr (clean dir)))"

text \<open>
  A row of the settings table that is absent leaves the text empty, which keeps the default; a
  query that fails for another reason is an error. \<open>strconv.Atoi\<close> is \<open>ParseInt\<close> on the
  64-bit platforms the server is built for.
\<close>

definition parsed_setting :: "string \<Rightarrow> string \<Rightarrow> int \<Rightarrow> (settings_error, int) result" where
  "parsed_setting what value dflt =
    (if value = '''' then Inr dflt
     else case parse_int64 value of None \<Rightarrow> Inl (ErrParse what) | Some n \<Rightarrow> Inr n)"

definition row_text :: "(unit, string option) result \<Rightarrow> (settings_error, string) result" where
  "row_text r = (case r of Inl _ \<Rightarrow> Inl (ErrInput ''load playback setting'')
     | Inr None \<Rightarrow> Inr '''' | Inr (Some v) \<Rightarrow> Inr v)"

definition validated :: "settings \<Rightarrow> (settings_error, settings) result" where
  "validated s = (case validate_settings s of Inl e \<Rightarrow> Inl e | Inr _ \<Rightarrow> Inr s)"

definition load_settings ::
    "(fs_error, string) result \<Rightarrow> (string \<Rightarrow> (unit, string option) result) option \<Rightarrow> string \<Rightarrow>
     (settings_error, settings) result" where
  "load_settings sidecar db data_dir =
    (let s = default_settings data_dir in
     case load_segment_dir sidecar data_dir of Inl e \<Rightarrow> Inl e | Inr dir \<Rightarrow>
      (let s = s\<lparr>st_SegmentDir := dir\<rparr> in
       case db of None \<Rightarrow> validated s | Some query \<Rightarrow>
        (case row_text (query settingGenerationBytes) of Inl e \<Rightarrow> Inl e | Inr gen \<Rightarrow>
         case row_text (query settingGlobalBytes) of Inl e \<Rightarrow> Inl e | Inr glob \<Rightarrow>
         case row_text (query settingMaxGenerations) of Inl e \<Rightarrow> Inl e | Inr count \<Rightarrow>
         case parsed_setting ''generation byte limit'' gen (st_GenerationBytes s) of Inl e \<Rightarrow> Inl e
         | Inr gen' \<Rightarrow>
         case parsed_setting ''global byte limit'' glob (st_GlobalBytes s) of Inl e \<Rightarrow> Inl e
         | Inr glob' \<Rightarrow>
         case parsed_setting ''generation limit'' count (st_MaxGenerations s) of Inl e \<Rightarrow> Inl e
         | Inr count' \<Rightarrow>
           validated (s\<lparr>st_GenerationBytes := gen', st_GlobalBytes := glob',
             st_MaxGenerations := count'\<rparr>))))"

text \<open>
  Saving is a sequence of effects, each of which may fail and ends the call; the deferred
  rollback undoes the rows unless the transaction was committed, and the deferred removal drops
  the staged file unless it was renamed. The stored state is the sidecar and the table.
\<close>

datatype save_effect = StageFile | WriteFile | CloseFile | ChmodFile | BeginTx | PutRow string | CommitTx | RenameFile

record stored =
  sd_sidecar :: "(fs_error, string) result"
  sd_rows :: "(string, string) gomap"

definition setting_rows :: "settings \<Rightarrow> (string \<times> string) list" where
  "setting_rows s =
    [(settingSegmentDir, st_SegmentDir s),
     (settingGenerationBytes, show_int (st_GenerationBytes s)),
     (settingGlobalBytes, show_int (st_GlobalBytes s)),
     (settingMaxGenerations, show_int (st_MaxGenerations s))]"

definition put_rows :: "(string \<times> string) list \<Rightarrow> (string, string) gomap \<Rightarrow> (string, string) gomap" where
  "put_rows rows table = fold (\<lambda>(k, v). AList.update k v) rows table"

definition save_settings ::
    "bool \<Rightarrow> (save_effect \<Rightarrow> bool) \<Rightarrow> settings \<Rightarrow> stored \<Rightarrow> stored \<times> (settings_error, unit) result" where
  "save_settings has_db fails s d =
    (if \<not> has_db then (d, Inl (ErrInput ''playback settings are not durable''))
     else case validate_settings s of Inl e \<Rightarrow> (d, Inl e) | Inr _ \<Rightarrow>
      if list_ex fails ([StageFile, WriteFile, CloseFile, ChmodFile, BeginTx] @
           map (\<lambda>(k, _). PutRow k) (setting_rows s) @ [CommitTx])
      then (d, Inl (ErrInput ''save''))
      else (let d = d\<lparr>sd_rows := put_rows (setting_rows s) (sd_rows d)\<rparr> in
        if fails RenameFile then (d, Inl (ErrInput ''publish segment directory setting''))
        else (d\<lparr>sd_sidecar := Inr (st_SegmentDir s @ [CHR 0x0A])\<rparr>, Inr ())))"

section \<open>Properties\<close>

lemma validate_ok:
  assumes "validate_settings s = Inr u"
  shows "is_abs (st_SegmentDir s)" "0 < st_GenerationBytes s" "0 < st_MaxGenerations s"
    "st_MaxGenerations s * st_GenerationBytes s \<le> st_GlobalBytes s"
    "0 < st_LeaseTTL s" "0 < st_HeartbeatInterval s"
    "wrap64 (st_HeartbeatInterval s * 2) < st_LeaseTTL s"
proof -
  let ?g = "st_GenerationBytes s" and ?n = "st_MaxGenerations s" and ?b = "st_GlobalBytes s"
  from assms show "is_abs (st_SegmentDir s)" and g: "0 < ?g" and "0 < ?n" and "0 < st_LeaseTTL s"
    and "0 < st_HeartbeatInterval s" and "wrap64 (st_HeartbeatInterval s * 2) < st_LeaseTTL s"
    by (auto simp: validate_settings_def split: if_splits)
  from assms have "?g \<le> ?b" and n: "?n \<le> go_div ?b ?g"
    by (auto simp: validate_settings_def split: if_splits)
  with g have "?n \<le> ?b div ?g" by (simp add: go_div_nonneg)
  then have "?n * ?g \<le> ?b div ?g * ?g" using g by (intro mult_right_mono) simp_all
  also have "\<dots> \<le> ?b" using g by (metis minus_mod_eq_div_mult pos_mod_sign diff_le_eq le_add_same_cancel1)
  finally show "?n * ?g \<le> ?b" .
qed

text \<open>
  Validated settings reserve no more than they have: every number of generations up to the
  allowed one fits the global byte budget, its product with the generation's bytes does not
  leave 64 bits, and two heartbeats fit one lease.
\<close>
theorem validated_budget:
  assumes "validate_settings s = Inr u" and "in64 (st_GlobalBytes s)"
    and "st_HeartbeatInterval s < 2 ^ 62" and "0 \<le> n" and "n \<le> st_MaxGenerations s"
  shows "wrap64 (n * st_GenerationBytes s) = n * st_GenerationBytes s \<and>
    n * st_GenerationBytes s \<le> st_GlobalBytes s \<and>
    2 * st_HeartbeatInterval s < st_LeaseTTL s"
proof -
  note ok = validate_ok [OF assms(1)]
  have "n * st_GenerationBytes s \<le> st_MaxGenerations s * st_GenerationBytes s"
    using ok(2) assms(5) by (intro mult_right_mono) simp_all
  with ok(4) have le: "n * st_GenerationBytes s \<le> st_GlobalBytes s" by simp
  have "0 \<le> n * st_GenerationBytes s" using ok(2) assms(4) by simp
  with le assms(2) have "in64 (n * st_GenerationBytes s)" by (auto simp: in64_def)
  moreover have "in64 (st_HeartbeatInterval s * 2)" using ok(6) assms(3) by (simp add: in64_def)
  ultimately show ?thesis using le ok(7) by (simp add: mult.commute)
qed

theorem validated_budget_witness:
  "wrap64 (2 * 268435456) = 2 * 268435456 \<and>
   2 * st_GenerationBytes (default_settings ''/d'') \<le> st_GlobalBytes (default_settings ''/d'')"
  using validated_budget [of "(default_settings ''/d'')\<lparr>st_SegmentDir := ''/d/segments''\<rparr>" "()" 2]
  by (simp add: default_settings_def validate_settings_def is_abs_def slash_def go_div_def second_def
      in64_def)


definition sample_settings :: settings where
  "sample_settings = (default_settings ''/d'')\<lparr>st_SegmentDir := ''/seg''\<rparr>"


text \<open>
  Flixr claims only a directory of its own. If claiming succeeds, the directory is new, holds
  nothing but a lock file, or carries a regular marker file with exactly the expected content;
  the marker is written only where there is none.
\<close>
theorem claims_only_own_directory:
  assumes "claim_segment_dir made entries marker st w = Inr wrote"
  shows "(entries = Inl NotExist \<or>
    (\<exists>es. entries = Inr es \<and>
      ((\<forall>n r. (n, r) \<in> set es \<longrightarrow> n = ''.flixr.lock'') \<or>
       (\<exists>r. first_entry segmentDirMarker es = Some r \<and> r \<and> marker = Inr segmentDirMarkerContent)))) \<and>
    (wrote \<longrightarrow> st = Inl NotExist)"
proof
  from assms have "validate_segment_dir_ownership entries marker = Inr ()"
    by (auto simp: claim_segment_dir_def split: if_splits sum.splits)
  then show "entries = Inl NotExist \<or>
    (\<exists>es. entries = Inr es \<and>
      ((\<forall>n r. (n, r) \<in> set es \<longrightarrow> n = ''.flixr.lock'') \<or>
       (\<exists>r. first_entry segmentDirMarker es = Some r \<and> r \<and> marker = Inr segmentDirMarkerContent)))"
    by (auto simp: validate_segment_dir_ownership_def list_all_iff
        split: sum.splits fs_error.splits option.splits if_splits)
  from assms show "wrote \<longrightarrow> st = Inl NotExist"
    by (auto simp: claim_segment_dir_def split: if_splits sum.splits fs_error.splits)
qed

theorem claims_only_own_directory_witness:
  "\<exists>es. claim_segment_dir True (Inr es) (Inl NotExist) (Inl NotExist) True = Inr True \<and>
     (\<forall>n r. (n, r) \<in> set es \<longrightarrow> n = ''.flixr.lock'') \<and> es \<noteq> []"
proof (intro exI conjI)
  show c: "claim_segment_dir True (Inr [(''.flixr.lock'', True)]) (Inl NotExist) (Inl NotExist) True = Inr True"
    by (simp add: claim_segment_dir_def validate_segment_dir_ownership_def segmentDirMarker_def)
  show "\<forall>n r. (n, r) \<in> set [(''.flixr.lock'', True)] \<longrightarrow> n = ''.flixr.lock''"
    using claims_only_own_directory [OF c] by (auto simp: segmentDirMarker_def)
qed simp

end
