(* ===== verification/Sessions.thy ===== *)
theory Sessions
  imports Generation PlaySettings
begin

text \<open>
  The state of the playback manager (backend/playback/manager.go, sessions.go) and its operations
  that run in one critical section: leases and input authorities, handoffs and their resolution,
  lookups, heartbeats, stops, the sweep and the shutdown. Creating and replacing sessions, which
  release the lock while FFmpeg starts, are in theory Creation.

  Pointers are explicit. A \<open>preparingReplacement\<close> is stored under two keys and written through
  either: the map holds its address and the store \<open>mg_records\<close> its content. Generations carry
  their address in \<open>ge_ref\<close>. Readings of the clock and random tokens are arguments. Retiring a
  generation (ending its process and removing its directory) touches no state of the manager; it
  is recorded in \<open>mg_retired\<close>, and the subtitle jobs whose context was cancelled in
  \<open>mg_cancelledJobs\<close>.
\<close>

datatype play_error =
    ErrUnsupportedMedia | ErrNoFFmpeg | ErrCapacity | ErrPreparing | ErrHandoffConflict
  | ErrSessionInvalid | ErrRestartRequired | ErrSettings settings_error | ErrInvalidCursor
  | ErrContext | ErrToken | ErrCommit | ErrCommand | ErrDirectory | ErrStart | ErrManifest | ErrNoAsset

definition directSessionTTL :: int where "directSessionTTL = 15 * 60 * second"
definition maxPendingHandoffs :: nat where "maxPendingHandoffs = 128"
definition maxHandoffsPerViewer :: nat where "maxHandoffsPerViewer = 4"
definition maxResolvedHandoffs :: nat where "maxResolvedHandoffs = 128"

record session =
  se_ProgressGeneration :: int
  se_ViewerID :: string
  se_ID :: string
  se_OwnerHandle :: string
  se_ProfileID :: string
  se_CatalogID :: string
  se_Plan :: plan
  se_PositionMS :: int
  se_StreamOffsetMS :: int
  se_GenerationID :: string
  se_CreatedAt :: int
  se_ExpiresAt :: int

record input_authority =
  ia_catalogID :: string
  ia_sourceKey :: string
  ia_audioStreamIndex :: int
  ia_external :: bool
  ia_pendingViewerID :: string
  ia_expiresAt :: int

record handoff =
  ho_ID :: string
  ho_Session :: session
  ho_ExpiresAt :: int

record pending_handoff =
  ph_id :: string
  ph_oldID :: string
  ph_newID :: string
  ph_viewerID :: string
  ph_profileID :: string
  ph_expiresAt :: int
  ph_replacementGeneration :: string

record preparing_replacement =
  rp_oldID :: string
  rp_newID :: string
  rp_ownerStoppedID :: string

record resolved_handoff =
  rh_viewerID :: string
  rh_profileID :: string
  rh_attached :: bool
  rh_expiresAt :: int
  rh_stoppedID :: string
  rh_keptID :: string

record manager =
  mg_settings :: settings
  mg_hasExecutor :: bool
  mg_manifestWait :: int
  mg_sessions :: "(string, session) gomap"
  mg_generations :: "(string, generation) gomap"
  mg_inputs :: "(string, input_authority) gomap"
  mg_revokedViewers :: "(string, unit) gomap"
  mg_pendingViewers :: "(string, int) gomap"
  mg_starting :: int
  mg_pendingJobs :: "(string, unit) gomap"
  mg_replacements :: "(string, string) gomap"
  mg_preparingHandoffs :: "(string, int) gomap"
  mg_preparingReplacements :: "(string, nat) gomap"
  mg_records :: "(nat, preparing_replacement) gomap"
  mg_next :: nat
  mg_handoffs :: "(string, pending_handoff) gomap"
  mg_sessionHandoffs :: "(string, string) gomap"
  mg_resolvedHandoffs :: "(string, resolved_handoff) gomap"
  mg_subtitleJobs :: "(string, string list) gomap"
  mg_cancelledJobs :: "string list"
  mg_retired :: "nat list"
  mg_closed :: bool

definition new_manager :: "settings \<Rightarrow> bool \<Rightarrow> int \<Rightarrow> manager" where
  "new_manager settings hasExecutor manifestWait =
    \<lparr>mg_settings = settings, mg_hasExecutor = hasExecutor, mg_manifestWait = manifestWait,
     mg_sessions = [], mg_generations = [], mg_inputs = [], mg_revokedViewers = [],
     mg_pendingViewers = [], mg_starting = 0, mg_pendingJobs = [], mg_replacements = [],
     mg_preparingHandoffs = [], mg_preparingReplacements = [], mg_records = [], mg_next = 0,
     mg_handoffs = [], mg_sessionHandoffs = [], mg_resolvedHandoffs = [], mg_subtitleJobs = [],
     mg_cancelledJobs = [], mg_retired = [], mg_closed = False\<rparr>"

section \<open>Leases and inputs\<close>

definition session_ttl :: "manager \<Rightarrow> session \<Rightarrow> int" where
  "session_ttl m s =
     (if se_GenerationID s \<noteq> '''' then st_LeaseTTL (mg_settings m) else directSessionTTL)"

fun renew_tokens :: "string list \<Rightarrow> int \<Rightarrow> (string, input_authority) gomap \<Rightarrow>
    (string, input_authority) gomap" where
  "renew_tokens [] expires inputs = inputs"
| "renew_tokens (t # ts) expires inputs =
    (case map_of inputs t of
       None \<Rightarrow> renew_tokens ts expires inputs
     | Some a \<Rightarrow> renew_tokens ts expires (AList.update t (a\<lparr>ia_expiresAt := expires\<rparr>) inputs))"

definition renew_inputs :: "generation \<Rightarrow> int \<Rightarrow> manager \<Rightarrow> manager" where
  "renew_inputs gen expires m =
     m\<lparr>mg_inputs := renew_tokens (ge_inputs gen) expires (mg_inputs m)\<rparr>"

text \<open>
  The lines that follow every extension of a session: store it, and renew its lease and the inputs
  of its generation.
\<close>

definition store_renewed :: "string \<Rightarrow> session \<Rightarrow> manager \<Rightarrow> manager" where
  "store_renewed sid s m =
    (let m = m\<lparr>mg_sessions := AList.update sid s (mg_sessions m)\<rparr> in
     case map_of (mg_generations m) (se_GenerationID s) of
       None \<Rightarrow> m
     | Some gen \<Rightarrow>
        (let gen = gen\<lparr>ge_leases := AList.update sid (se_ExpiresAt s) (ge_leases gen)\<rparr> in
         renew_inputs gen (se_ExpiresAt s)
           (m\<lparr>mg_generations := AList.update (se_GenerationID s) gen (mg_generations m)\<rparr>)))"

definition cancel_subtitle_jobs :: "string \<Rightarrow> manager \<Rightarrow> manager" where
  "cancel_subtitle_jobs sessionID m =
     m\<lparr>mg_cancelledJobs := mg_cancelledJobs m @ get_or [] (mg_subtitleJobs m) sessionID,
       mg_subtitleJobs := AList.delete sessionID (mg_subtitleJobs m)\<rparr>"

definition drop_session :: "string \<Rightarrow> manager \<Rightarrow> manager" where
  "drop_session sid m =
     cancel_subtitle_jobs sid (m\<lparr>mg_sessions := AList.delete sid (mg_sessions m)\<rparr>)"

definition delete_all :: "'k list \<Rightarrow> ('k, 'v) gomap \<Rightarrow> ('k, 'v) gomap" where
  "delete_all ks m = fold AList.delete ks m"

definition detach_generation :: "string \<Rightarrow> manager \<Rightarrow> manager \<times> generation option" where
  "detach_generation sid m =
    (case map_of (mg_generations m) sid of
       None \<Rightarrow> (m, None)
     | Some gen \<Rightarrow>
        (fold drop_session (map fst (ge_leases gen))
          (m\<lparr>mg_generations := AList.delete sid (mg_generations m),
             mg_replacements := AList.delete sid (mg_replacements m),
             mg_inputs := delete_all (ge_inputs gen) (mg_inputs m)\<rparr>), Some gen))"

text \<open>Deleting a session's lease from its generation, as \<open>delete(gen.leases, id)\<close> does.\<close>

definition drop_lease :: "string \<Rightarrow> string \<Rightarrow> manager \<Rightarrow> manager" where
  "drop_lease genID sid m =
    (case map_of (mg_generations m) genID of
       None \<Rightarrow> m
     | Some gen \<Rightarrow> m\<lparr>mg_generations := AList.update genID
         (gen\<lparr>ge_leases := AList.delete sid (ge_leases gen)\<rparr>) (mg_generations m)\<rparr>)"

definition leases_of :: "manager \<Rightarrow> string \<Rightarrow> (string, int) gomap" where
  "leases_of m genID =
     (case map_of (mg_generations m) genID of None \<Rightarrow> [] | Some gen \<Rightarrow> ge_leases gen)"

definition stop_session :: "string \<Rightarrow> manager \<Rightarrow> manager \<times> generation option" where
  "stop_session sid m =
    (case map_of (mg_sessions m) sid of
       None \<Rightarrow> (m, None)
     | Some s \<Rightarrow>
        (let m = drop_session sid m in
         if has_key (mg_generations m) (se_GenerationID s) then
           (let m = drop_lease (se_GenerationID s) sid m in
            if leases_of m (se_GenerationID s) = [] then detach_generation (se_GenerationID s) m
            else (m, None))
         else (m, None)))"

definition retire :: "generation option \<Rightarrow> manager \<Rightarrow> manager" where
  "retire gen m = (case gen of None \<Rightarrow> m | Some g \<Rightarrow> m\<lparr>mg_retired := mg_retired m @ [ge_ref g]\<rparr>)"

section \<open>Resolved handoffs\<close>

fun earliest_resolved :: "string \<Rightarrow> (string, resolved_handoff) gomap \<Rightarrow> string \<Rightarrow> int \<Rightarrow> string" where
  "earliest_resolved viewer [] earliestID earliest = earliestID"
| "earliest_resolved viewer ((sid, r) # rs) earliestID earliest =
    (if viewer \<noteq> '''' \<and> rh_viewerID r \<noteq> viewer then earliest_resolved viewer rs earliestID earliest
     else if earliestID = '''' \<or> rh_expiresAt r < earliest
     then earliest_resolved viewer rs sid (rh_expiresAt r)
     else earliest_resolved viewer rs earliestID earliest)"

definition delete_earliest :: "string \<Rightarrow> (string, resolved_handoff) gomap \<Rightarrow>
    (string, resolved_handoff) gomap" where
  "delete_earliest viewer rs = AList.delete (earliest_resolved viewer rs '''' 0) rs"

lemma earliest_resolved_key:
  "earliest_resolved viewer rs i t \<in> insert i (fst ` set rs)"
  by (induction viewer rs i t rule: earliest_resolved.induct) auto

lemma earliest_any_key: "rs \<noteq> [] \<Longrightarrow> earliest_resolved '''' rs '''' t \<in> fst ` set rs"
  using earliest_resolved_key by (cases rs) force+

lemma length_delete_key: "k \<in> fst ` set m \<Longrightarrow> length (AList.delete k m) < length m"
  by (induction m) (auto simp: le_imp_less_Suc length_delete_le)

lemma delete_earliest_shorter: "rs \<noteq> [] \<Longrightarrow> length (delete_earliest '''' rs) < length rs"
  by (simp add: delete_earliest_def length_delete_key earliest_any_key)

function cap_resolved :: "(string, resolved_handoff) gomap \<Rightarrow> (string, resolved_handoff) gomap" where
  "cap_resolved rs =
    (if length rs > maxResolvedHandoffs then cap_resolved (delete_earliest '''' rs) else rs)"
  by pat_completeness auto
termination
  by (relation "measure length") (auto intro!: delete_earliest_shorter)

declare cap_resolved.simps [simp del]

text \<open>How many records each viewer has, and the loop that brings each down to the limit.\<close>

definition viewer_counts :: "(string, resolved_handoff) gomap \<Rightarrow> (string, nat) gomap" where
  "viewer_counts rs =
    fold (\<lambda>(_, r) counts. AList.update (rh_viewerID r) (get_or 0 counts (rh_viewerID r) + 1) counts) rs []"

fun cap_viewer :: "string \<Rightarrow> nat \<Rightarrow> (string, resolved_handoff) gomap \<Rightarrow>
    (string, resolved_handoff) gomap" where
  "cap_viewer viewer 0 rs = rs"
| "cap_viewer viewer (Suc count) rs =
    (if Suc count > maxHandoffsPerViewer then cap_viewer viewer count (delete_earliest viewer rs) else rs)"

definition prune_resolved_map :: "int \<Rightarrow> (string, resolved_handoff) gomap \<Rightarrow>
    (string, resolved_handoff) gomap" where
  "prune_resolved_map now rs =
    (let rs = cap_resolved (keep (\<lambda>_ r. now < rh_expiresAt r) rs) in
     fold (\<lambda>(viewer, count). cap_viewer viewer count) (viewer_counts rs) rs)"

definition prune_resolved :: "int \<Rightarrow> manager \<Rightarrow> manager" where
  "prune_resolved now m = m\<lparr>mg_resolvedHandoffs := prune_resolved_map now (mg_resolvedHandoffs m)\<rparr>"

section \<open>Preparations and handoffs\<close>

definition link_preparing :: "string \<Rightarrow> string \<Rightarrow> manager \<Rightarrow> manager" where
  "link_preparing oldID newID m =
    (if oldID = '''' \<or> newID = '''' then m
     else m\<lparr>mg_records := AList.update (mg_next m)
              \<lparr>rp_oldID = oldID, rp_newID = newID, rp_ownerStoppedID = ''''\<rparr> (mg_records m),
            mg_preparingReplacements :=
              AList.update newID (mg_next m) (AList.update oldID (mg_next m) (mg_preparingReplacements m)),
            mg_next := Suc (mg_next m)\<rparr>)"

definition preparation :: "manager \<Rightarrow> string \<Rightarrow> preparing_replacement option" where
  "preparation m sid =
    (case map_of (mg_preparingReplacements m) sid of None \<Rightarrow> None | Some r \<Rightarrow> map_of (mg_records m) r)"

definition clear_preparing :: "string \<Rightarrow> manager \<Rightarrow> manager" where
  "clear_preparing sid m =
    (case preparation m sid of
       None \<Rightarrow> m
     | Some r \<Rightarrow> m\<lparr>mg_preparingReplacements :=
         AList.delete (rp_newID r) (AList.delete (rp_oldID r) (mg_preparingReplacements m))\<rparr>)"

definition session_handoff :: "manager \<Rightarrow> string \<Rightarrow> pending_handoff option" where
  "session_handoff m sid = map_of (mg_handoffs m) (get_or '''' (mg_sessionHandoffs m) sid)"

definition handoff_control_blocked :: "manager \<Rightarrow> string \<Rightarrow> bool" where
  "handoff_control_blocked m sid \<longleftrightarrow>
     has_key (mg_preparingHandoffs m) sid \<or> preparation m sid \<noteq> None \<or>
     get_or '''' (mg_sessionHandoffs m) sid \<noteq> ''''"

definition is_handoff_candidate :: "string \<Rightarrow> string \<Rightarrow> string \<Rightarrow> manager \<Rightarrow> bool" where
  "is_handoff_candidate sid viewerID profileID m =
    (case session_handoff m sid of None \<Rightarrow> False
     | Some r \<Rightarrow> ph_newID r = sid \<and> ph_viewerID r = viewerID \<and> ph_profileID r = profileID)"

definition is_handoff_control_blocked :: "string \<Rightarrow> string \<Rightarrow> string \<Rightarrow> manager \<Rightarrow> bool" where
  "is_handoff_control_blocked sid viewerID profileID m =
    (case map_of (mg_sessions m) sid of None \<Rightarrow> False
     | Some s \<Rightarrow> se_ViewerID s = viewerID \<and> se_ProfileID s = profileID \<and> handoff_control_blocked m sid)"

text \<open>Dropping a pending handoff with its session links and its replacement credit.\<close>

definition drop_handoff :: "string \<Rightarrow> pending_handoff \<Rightarrow> manager \<Rightarrow> manager" where
  "drop_handoff handoffID r m =
    (let m = m\<lparr>mg_handoffs := AList.delete handoffID (mg_handoffs m),
               mg_sessionHandoffs := AList.delete (ph_newID r)
                 (AList.delete (ph_oldID r) (mg_sessionHandoffs m))\<rparr> in
     if ph_replacementGeneration r \<noteq> '''' \<and>
        get_or '''' (mg_replacements m) (ph_replacementGeneration r) = ph_newID r
     then m\<lparr>mg_replacements := AList.delete (ph_replacementGeneration r) (mg_replacements m)\<rparr>
     else m)"

definition extend_survivor :: "string \<Rightarrow> int \<Rightarrow> manager \<Rightarrow> manager" where
  "extend_survivor sid now m =
    (case map_of (mg_sessions m) sid of None \<Rightarrow> m
     | Some s \<Rightarrow> store_renewed sid (s\<lparr>se_ExpiresAt := now + session_ttl m s\<rparr>) m)"

definition resolve_handoff_locked ::
    "pending_handoff \<Rightarrow> bool \<Rightarrow> int \<Rightarrow> manager \<Rightarrow> manager \<times> generation option" where
  "resolve_handoff_locked r attached now m =
    (let m = drop_handoff (ph_id r) r m;
         (keepID, stopID) = (if attached then (ph_newID r, ph_oldID r) else (ph_oldID r, ph_newID r));
         m = extend_survivor keepID now m;
         (m, retired) = stop_session stopID m;
         m = m\<lparr>mg_resolvedHandoffs := AList.update (ph_id r)
                \<lparr>rh_viewerID = ph_viewerID r, rh_profileID = ph_profileID r, rh_attached = attached,
                 rh_expiresAt = now + st_LeaseTTL (mg_settings m), rh_stoppedID = stopID,
                 rh_keptID = keepID\<rparr> (mg_resolvedHandoffs m)\<rparr> in
     (prune_resolved now m, retired))"

definition resolve_handoff ::
    "string \<Rightarrow> string \<Rightarrow> string \<Rightarrow> bool \<Rightarrow> int \<Rightarrow> manager \<Rightarrow> manager \<times> (play_error, unit) result" where
  "resolve_handoff sid viewerID profileID attached now m =
    (let m = prune_resolved now m in
     case map_of (mg_handoffs m) sid of
       None \<Rightarrow>
        (m, case map_of (mg_resolvedHandoffs m) sid of
              None \<Rightarrow> Inl ErrSessionInvalid
            | Some r \<Rightarrow>
                if rh_viewerID r \<noteq> viewerID \<or> rh_profileID r \<noteq> profileID then Inl ErrSessionInvalid
                else if rh_attached r \<noteq> attached then Inl ErrHandoffConflict
                else Inr ())
     | Some r \<Rightarrow>
        if ph_viewerID r \<noteq> viewerID \<or> ph_profileID r \<noteq> profileID then (m, Inl ErrSessionInvalid)
        else
          (let expired = \<not> now < ph_expiresAt r;
               (m, retired) = resolve_handoff_locked r (attached \<and> \<not> expired) now m in
           (retire retired m,
            if expired \<and> attached then Inl ErrHandoffConflict else Inr ())))"

definition expire_handoff :: "string \<Rightarrow> int \<Rightarrow> manager \<Rightarrow> manager" where
  "expire_handoff sid now m =
    (case session_handoff m sid of
       None \<Rightarrow> m
     | Some r \<Rightarrow>
        if now < ph_expiresAt r then m
        else (let (m, retired) = resolve_handoff_locked r False now m in retire retired m))"

end
