(* ===== verification/SessionOps.thy ===== *)
theory SessionOps
  imports Sessions
begin

text \<open>
  The manager's operations on admitted sessions, each one critical section or a fixed sequence
  of them: lookup, stop, subtitle selection and jobs, heartbeat, the media inputs, the settings,
  the activity page, the sweep and the shutdown.
\<close>

section \<open>Stopping\<close>

text \<open>
  The session an ID stands for when it is stopped: itself, the one kept by a resolved handoff
  that stopped it, or the one that replaces an owner-stopped predecessor.
\<close>

definition resolved_alias :: "string \<Rightarrow> string \<Rightarrow> string \<Rightarrow> manager \<Rightarrow> string option" where
  "resolved_alias sid viewerID profileID m =
    map_option (\<lambda>(_, r). rh_keptID r)
      (find (\<lambda>(_, r). rh_stoppedID r = sid \<and> rh_profileID r = profileID \<and>
                      (viewerID = '''' \<or> rh_viewerID r = viewerID)) (mg_resolvedHandoffs m))"

definition stop_alias :: "string \<Rightarrow> string \<Rightarrow> string \<Rightarrow> manager \<Rightarrow> (string \<times> session) option" where
  "stop_alias sid viewerID profileID m =
    (case map_of (mg_sessions m) sid of
       Some s \<Rightarrow> Some (sid, s)
     | None \<Rightarrow>
        (let kept = (case resolved_alias sid viewerID profileID m of None \<Rightarrow> sid | Some k \<Rightarrow> k) in
         case map_of (mg_sessions m) kept of
           Some s \<Rightarrow> Some (kept, s)
         | None \<Rightarrow>
            (case preparation m kept of
               None \<Rightarrow> None
             | Some r \<Rightarrow>
                if rp_oldID r = kept \<and> rp_ownerStoppedID r = kept
                then map_option (\<lambda>s. (rp_newID r, s)) (map_of (mg_sessions m) (rp_newID r))
                else None)))"

definition authorized :: "string \<Rightarrow> string \<Rightarrow> session \<Rightarrow> bool" where
  "authorized viewerID profileID s \<longleftrightarrow>
     \<not> (viewerID \<noteq> '''' \<and> se_ViewerID s \<noteq> viewerID) \<and> se_ProfileID s = profileID"

fun stop_all :: "string list \<Rightarrow> manager \<Rightarrow> manager" where
  "stop_all [] m = m"
| "stop_all (i # is) m = (let (m, gen) = stop_session i m in stop_all is (retire gen m))"

definition stop_for_viewer :: "string \<Rightarrow> string \<Rightarrow> string \<Rightarrow> int \<Rightarrow> manager \<Rightarrow> manager \<times> bool" where
  "stop_for_viewer sid viewerID profileID now m =
    (let m = prune_resolved now m in
     case stop_alias sid viewerID profileID m of
       None \<Rightarrow> (m, False)
     | Some (i, s) \<Rightarrow>
        if \<not> authorized viewerID profileID s then (m, False)
        else
          (case session_handoff m i of
             Some r \<Rightarrow>
               if get_or '''' (mg_sessionHandoffs m) i \<noteq> ''''
               then (stop_all [ph_oldID r, ph_newID r]
                       (drop_handoff (get_or '''' (mg_sessionHandoffs m) i) r m), True)
               else (stop_all [i] m, True)
           | None \<Rightarrow> (stop_all [i] m, True)))"

definition stop_catalog_ids :: "string list \<Rightarrow> manager \<Rightarrow> manager" where
  "stop_catalog_ids catalogIDs m =
    fold (\<lambda>i m. case map_of (mg_sessions m) i of
            None \<Rightarrow> m
          | Some s \<Rightarrow> if se_CatalogID s \<in> set catalogIDs
                      then (let (m, gen) = stop_session i m in retire gen m) else m)
      (map fst (mg_sessions m)) m"

definition owned_session :: "string \<Rightarrow> int \<Rightarrow> manager \<Rightarrow> string" where
  "owned_session ownerHandle now m =
    (case find (\<lambda>(_, s). se_OwnerHandle s = ownerHandle \<and> now < se_ExpiresAt s) (mg_sessions m) of
       None \<Rightarrow> '''' | Some (i, _) \<Rightarrow> i)"

definition mark_owner_stopped :: "string \<Rightarrow> preparing_replacement \<Rightarrow> manager \<Rightarrow> manager" where
  "mark_owner_stopped sid r m =
    (case map_of (mg_preparingReplacements m) sid of
       None \<Rightarrow> m
     | Some a \<Rightarrow> m\<lparr>mg_records := AList.update a (r\<lparr>rp_ownerStoppedID := sid\<rparr>) (mg_records m)\<rparr>)"

definition release_credit_of :: "string \<Rightarrow> string \<Rightarrow> manager \<Rightarrow> manager" where
  "release_credit_of oldID newID m =
    (case map_of (mg_sessions m) oldID of
       None \<Rightarrow> m
     | Some old \<Rightarrow>
         if get_or '''' (mg_replacements m) (se_GenerationID old) = newID
         then m\<lparr>mg_replacements := AList.delete (se_GenerationID old) (mg_replacements m)\<rparr>
         else m)"

definition stop_owner_preparation :: "string \<Rightarrow> int \<Rightarrow> manager \<Rightarrow> manager" where
  "stop_owner_preparation sid now m =
    (case preparation m sid of
       None \<Rightarrow> m\<lparr>mg_preparingHandoffs := AList.delete sid (mg_preparingHandoffs m)\<rparr>
     | Some r \<Rightarrow>
        (let m = mark_owner_stopped sid r m;
             m = m\<lparr>mg_preparingHandoffs := AList.delete (rp_oldID r) (mg_preparingHandoffs m)\<rparr>;
             survivorID = (if rp_oldID r = sid then rp_newID r else rp_oldID r);
             m = release_credit_of (rp_oldID r) (rp_newID r) m in
         extend_survivor survivorID now m))"

definition stop_owner_handoff :: "string \<Rightarrow> int \<Rightarrow> manager \<Rightarrow> manager" where
  "stop_owner_handoff sid now m =
    (let handoffID = get_or '''' (mg_sessionHandoffs m) sid in
     if handoffID = '''' then m
     else case map_of (mg_handoffs m) handoffID of
       None \<Rightarrow> m
     | Some r \<Rightarrow>
        (let m = drop_handoff handoffID r m in
         extend_survivor (if ph_oldID r = sid then ph_newID r else ph_oldID r) now m))"

definition stop_owner_session :: "string \<Rightarrow> int \<Rightarrow> manager \<Rightarrow> manager \<times> bool" where
  "stop_owner_session ownerHandle now m =
    (let sid = owned_session ownerHandle now m in
     if sid = '''' then (m, False)
     else
       (let m = stop_owner_preparation sid now m;
            m = stop_owner_handoff sid now m;
            m = m\<lparr>mg_resolvedHandoffs :=
                  keep (\<lambda>_ r. \<not> (rh_stoppedID r = sid \<or> rh_keptID r = sid)) (mg_resolvedHandoffs m)\<rparr>;
            (m, gen) = stop_session sid m in
        (retire gen m, True)))"

text \<open>
  StopViewer is two parts: the first, under the lock, fences the viewer and collects its sessions;
  then each is stopped in a critical section of its own.
\<close>

definition fence_viewer :: "string \<Rightarrow> manager \<Rightarrow> manager \<times> (string \<times> string) list" where
  "fence_viewer viewerID m =
    (let m = (if get_or 0 (mg_pendingViewers m) viewerID > 0
              then m\<lparr>mg_revokedViewers := AList.update viewerID () (mg_revokedViewers m)\<rparr> else m);
         m = m\<lparr>mg_inputs := keep (\<lambda>_ a. ia_pendingViewerID a \<noteq> viewerID) (mg_inputs m)\<rparr> in
     (m, [(se_ID s, se_ProfileID s). (_, s) \<leftarrow> mg_sessions m, se_ViewerID s = viewerID]))"

definition superseded_sessions :: "session \<Rightarrow> manager \<Rightarrow> (string \<times> string) list" where
  "superseded_sessions current m =
    (if se_ViewerID current = '''' then []
     else case map_of (mg_sessions m) (se_ID current) of
       None \<Rightarrow> []
     | Some admitted \<Rightarrow>
        if se_ViewerID admitted \<noteq> se_ViewerID current \<or> se_ProfileID admitted \<noteq> se_ProfileID current \<or>
           se_CatalogID admitted \<noteq> se_CatalogID current
        then []
        else [(se_ID s, se_ProfileID s). (_, s) \<leftarrow> mg_sessions m,
                se_ID s \<noteq> se_ID current \<and> se_ViewerID s = se_ViewerID current \<and>
                se_ProfileID s = se_ProfileID current \<and> se_CatalogID s = se_CatalogID current \<and>
                se_ProgressGeneration s \<le> se_ProgressGeneration current])"

section \<open>Lookup, subtitles and heartbeat\<close>

text \<open>The bounds a handoff or a preparation puts on the deadline of a session that is renewed.\<close>

definition bounded_deadline :: "string \<Rightarrow> int \<Rightarrow> manager \<Rightarrow> int" where
  "bounded_deadline sid expires m =
    (let expires = (case session_handoff m sid of None \<Rightarrow> expires | Some r \<Rightarrow> min expires (ph_expiresAt r)) in
     case map_of (mg_preparingHandoffs m) sid of None \<Rightarrow> expires | Some deadline \<Rightarrow> deadline)"

definition lookup_for_viewer ::
    "string \<Rightarrow> string \<Rightarrow> string \<Rightarrow> bool \<Rightarrow> int \<Rightarrow> int \<Rightarrow> manager \<Rightarrow> manager \<times> session option" where
  "lookup_for_viewer sid viewerID profileID touch now stopNow m =
    (let m = expire_handoff sid now m in
     case map_of (mg_sessions m) sid of
       None \<Rightarrow> (m, None)
     | Some s \<Rightarrow>
        if \<not> authorized viewerID profileID s \<or> \<not> now < se_ExpiresAt s
        then ((if se_ProfileID s = profileID then fst (stop_for_viewer sid viewerID profileID stopNow m) else m),
              None)
        else if touch then
          (let s = s\<lparr>se_ExpiresAt := bounded_deadline sid (now + session_ttl m s) m\<rparr> in
           (store_renewed sid s m, Some s))
        else (m, Some s))"

definition lookup_stop_for_viewer ::
    "string \<Rightarrow> string \<Rightarrow> string \<Rightarrow> int \<Rightarrow> manager \<Rightarrow> manager \<times> session option" where
  "lookup_stop_for_viewer sid viewerID profileID now m =
    (let m = prune_resolved now (expire_handoff sid now m);
         found = (case map_of (mg_sessions m) sid of
             Some s \<Rightarrow> Some s
           | None \<Rightarrow>
              (case (case resolved_alias sid viewerID profileID m of
                       None \<Rightarrow> None | Some k \<Rightarrow> map_of (mg_sessions m) k) of
                 Some s \<Rightarrow> Some s
               | None \<Rightarrow>
                  (case preparation m sid of
                     None \<Rightarrow> None
                   | Some r \<Rightarrow> if rp_oldID r = sid \<and> rp_ownerStoppedID r = sid
                               then map_of (mg_sessions m) (rp_newID r) else None))) in
     (m, case found of
           None \<Rightarrow> None
         | Some s \<Rightarrow> if authorized viewerID profileID s \<and> now < se_ExpiresAt s then Some s else None))"

text \<open>
  \<open>commit\<close> is what the caller's durable change answers when it is run under the lock: whether it
  succeeded. The model of a caller that passes no commit is the one whose commit succeeds.
\<close>

definition select_subtitle ::
    "bool \<Rightarrow> string \<Rightarrow> string \<Rightarrow> string \<Rightarrow> int \<Rightarrow> bool \<Rightarrow> bool \<Rightarrow> int \<Rightarrow> manager \<Rightarrow>
     manager \<times> (play_error, session) result" where
  "select_subtitle commit sid viewerID profileID index external selected now m =
    (case map_of (mg_sessions m) sid of
       None \<Rightarrow> (m, Inl ErrSessionInvalid)
     | Some s \<Rightarrow>
        if se_ViewerID s \<noteq> viewerID \<or> se_ProfileID s \<noteq> profileID \<or> \<not> now < se_ExpiresAt s
        then (m, Inl ErrSessionInvalid)
        else if handoff_control_blocked m sid then (m, Inl ErrPreparing)
        else if selected \<and> \<not> list_ex (\<lambda>x. ss_index x = index \<and> ss_external x = external)
                  (pl_subtitle_sources (se_Plan s))
        then (m, Inl ErrSessionInvalid)
        else if \<not> commit then (m, Inl ErrCommit)
        else
          (let s = s\<lparr>se_Plan := (se_Plan s)\<lparr>pl_subtitle_selection_index := index,
                 pl_subtitle_external := external, pl_subtitle_selected := selected\<rparr>\<rparr> in
           (m\<lparr>mg_sessions := AList.update sid s (mg_sessions m)\<rparr>, Inr s)))"

definition subtitle_context ::
    "string option \<Rightarrow> string \<Rightarrow> string \<Rightarrow> string \<Rightarrow> int \<Rightarrow> manager \<Rightarrow>
     manager \<times> (play_error, string) result" where
  "subtitle_context jobToken sid viewerID profileID now m =
    (case jobToken of None \<Rightarrow> (m, Inl ErrToken) | Some jobID \<Rightarrow>
     (case map_of (mg_sessions m) sid of
        None \<Rightarrow> (m, Inl ErrSessionInvalid)
      | Some s \<Rightarrow>
         if se_ViewerID s \<noteq> viewerID \<or> se_ProfileID s \<noteq> profileID \<or> \<not> now < se_ExpiresAt s
         then (m, Inl ErrSessionInvalid)
         else (m\<lparr>mg_subtitleJobs := AList.update sid
                   (get_or [] (mg_subtitleJobs m) sid @ [jobID]) (mg_subtitleJobs m)\<rparr>, Inr jobID)))"

definition release_subtitle :: "string \<Rightarrow> string \<Rightarrow> manager \<Rightarrow> manager" where
  "release_subtitle sid jobID m =
    (let jobs = filter (\<lambda>j. j \<noteq> jobID) (get_or [] (mg_subtitleJobs m) sid);
         m = m\<lparr>mg_cancelledJobs := mg_cancelledJobs m @ [jobID]\<rparr> in
     if jobs = [] then m\<lparr>mg_subtitleJobs := AList.delete sid (mg_subtitleJobs m)\<rparr>
     else m\<lparr>mg_subtitleJobs := AList.update sid jobs (mg_subtitleJobs m)\<rparr>)"

definition heartbeat_for_viewer ::
    "string \<Rightarrow> string \<Rightarrow> string \<Rightarrow> int \<Rightarrow> int \<Rightarrow> int \<Rightarrow> int \<Rightarrow> manager \<Rightarrow>
     manager \<times> (play_error, session) result" where
  "heartbeat_for_viewer sid viewerID profileID positionMS t1 t2 t3 m =
    (let m = expire_handoff sid t1 m in
     case map_of (mg_sessions m) sid of
       None \<Rightarrow> (m, Inl ErrSessionInvalid)
     | Some s \<Rightarrow>
        if \<not> authorized viewerID profileID s \<or> \<not> t2 < se_ExpiresAt s then (m, Inl ErrSessionInvalid)
        else if (case session_handoff m sid of None \<Rightarrow> False | Some r \<Rightarrow> ph_newID r = sid)
        then (m, Inl ErrPreparing)
        else
          (let s = (if positionMS \<ge> 0 then s\<lparr>se_PositionMS := positionMS\<rparr> else s);
               s = s\<lparr>se_ExpiresAt := bounded_deadline sid (t3 + session_ttl m s) m\<rparr> in
           (store_renewed sid s m, Inr s)))"

section \<open>Inputs and settings\<close>

definition input_file :: "string \<Rightarrow> int \<Rightarrow> manager \<Rightarrow> manager \<times> (string \<times> string \<times> int \<times> bool) option" where
  "input_file token now m =
    (case map_of (mg_inputs m) token of
       None \<Rightarrow> (m\<lparr>mg_inputs := AList.delete token (mg_inputs m)\<rparr>, None)
     | Some a \<Rightarrow>
        if \<not> now < ia_expiresAt a then (m\<lparr>mg_inputs := AList.delete token (mg_inputs m)\<rparr>, None)
        else (m, Some (ia_catalogID a, ia_sourceKey a, ia_audioStreamIndex a, ia_external a)))"

definition open_asset ::
    "string \<Rightarrow> string \<Rightarrow> string \<Rightarrow> string \<Rightarrow> int \<Rightarrow> int \<Rightarrow> manager \<Rightarrow> manager \<times> (play_error, string) result" where
  "open_asset sid viewerID profileID name now stopNow m =
    (if \<not> asset_name name \<or> base_name name \<noteq> name then (m, Inl ErrNoAsset)
     else
       (case lookup_for_viewer sid viewerID profileID True now stopNow m of
          (m, None) \<Rightarrow> (m, Inl ErrSessionInvalid)
        | (m, Some s) \<Rightarrow>
            if se_GenerationID s = '''' then (m, Inl ErrSessionInvalid)
            else (case map_of (mg_generations m) (se_GenerationID s) of
                None \<Rightarrow> (m, Inl ErrSessionInvalid)
              | Some gen \<Rightarrow> (m, Inr (join_path [ge_dir gen, name])))))"

text \<open>
  UpdateSettings reads the state in one critical section, stores the settings without the lock,
  and takes effect in a second critical section.
\<close>

definition settings_admitted :: "settings \<Rightarrow> manager \<Rightarrow> (play_error, bool) result" where
  "settings_admitted s m =
    (case validate_settings s of Inl e \<Rightarrow> Inl (ErrSettings e)
     | Inr _ \<Rightarrow>
        if length (mg_generations m) > 0 \<or> mg_starting m > 0 then Inl ErrCapacity
        else Inr (clean (st_SegmentDir s) \<noteq> clean (st_SegmentDir (mg_settings m))))"

definition settings_commit :: "settings \<Rightarrow> manager \<Rightarrow> manager" where
  "settings_commit s m = m\<lparr>mg_settings := s\<rparr>"

section \<open>Sweep and shutdown\<close>

text \<open>
  The first part of a sweep: handoffs past their deadline are resolved in favour of the
  predecessor, then expired sessions lose their lease, then expired inputs are dropped. Deleting
  from a Go map during its iteration is safe; the handoffs and sessions are visited in the order
  of the list, skipping those that are gone.
\<close>

definition sweep_handoffs :: "int \<Rightarrow> manager \<Rightarrow> manager \<times> nat list" where
  "sweep_handoffs now m =
    fold (\<lambda>i (m, gens). case map_of (mg_handoffs m) i of
            None \<Rightarrow> (m, gens)
          | Some r \<Rightarrow>
              if now < ph_expiresAt r then (m, gens)
              else (case resolve_handoff_locked r False now m of
                  (m, None) \<Rightarrow> (m, gens) | (m, Some g) \<Rightarrow> (m, gens @ [ge_ref g])))
      (map fst (mg_handoffs m)) (m, [])"

definition sweep_sessions :: "int \<Rightarrow> manager \<Rightarrow> manager" where
  "sweep_sessions now m =
    fold (\<lambda>i m. case map_of (mg_sessions m) i of
            None \<Rightarrow> m
          | Some s \<Rightarrow> if now < se_ExpiresAt s then m
                      else drop_lease (se_GenerationID s) i (drop_session i m))
      (map fst (mg_sessions m)) m"

definition sweep_begin :: "int \<Rightarrow> manager \<Rightarrow> manager \<times> (string \<times> nat) list \<times> int \<times> nat list" where
  "sweep_begin now m =
    (let m = prune_resolved now m;
         (m, gens) = sweep_handoffs now m;
         m = sweep_sessions now m;
         m = m\<lparr>mg_inputs := keep (\<lambda>_ a. now < ia_expiresAt a) (mg_inputs m)\<rparr> in
     (m, map (\<lambda>(i, g). (i, ge_ref g)) (mg_generations m), st_GenerationBytes (mg_settings m), gens))"

text \<open>
  The measurements are taken without the lock: for each generation, its playlist and the bytes of
  its directory, \<open>None\<close> when reading the directory failed.
\<close>

type_synonym measurement = "(nat \<times> int list \<times> bool) \<times> int option"

definition sweep_one :: "int \<Rightarrow> string \<Rightarrow> nat \<Rightarrow> measurement \<Rightarrow> manager \<Rightarrow> manager \<times> bool" where
  "sweep_one generationBytes i ref measured m =
    (case map_of (mg_generations m) i of
       None \<Rightarrow> (m, False)
     | Some gen \<Rightarrow>
        if ge_ref gen \<noteq> ref then (m, False)
        else
          (case measured of ((sequence, durations, manifestOK), bytes) \<Rightarrow>
            let gen = (if manifestOK then fst (apply_retained_range gen sequence durations) else gen);
                m = m\<lparr>mg_generations := AList.update i gen (mg_generations m)\<rparr> in
            if ge_leases gen = [] \<or> (case bytes of None \<Rightarrow> True | Some b \<Rightarrow> b > generationBytes)
            then (fst (detach_generation i m), True)
            else (m, False)))"

fun sweep_measured ::
    "int \<Rightarrow> ((string \<times> nat) \<times> measurement) list \<Rightarrow> manager \<Rightarrow> manager \<times> nat list" where
  "sweep_measured generationBytes [] m = (m, [])"
| "sweep_measured generationBytes (((i, ref), measured) # rest) m =
    (let (m, gone) = sweep_one generationBytes i ref measured m;
         (m, gens) = sweep_measured generationBytes rest m in
     (m, if gone then ref # gens else gens))"

definition sweep_finish ::
    "int \<Rightarrow> ((string \<times> nat) \<times> measurement) list \<Rightarrow> nat list \<Rightarrow> manager \<Rightarrow> manager" where
  "sweep_finish generationBytes measured gens m =
    (let (m, more) = sweep_measured generationBytes measured m in
     m\<lparr>mg_retired := mg_retired m @ gens @ more\<rparr>)"

text \<open>The shutdown's critical section; its value is the generations it retires afterwards.\<close>

definition shutdown_manager :: "manager \<Rightarrow> manager \<times> nat list" where
  "shutdown_manager m =
    (if mg_closed m then (m, [])
     else
       (let m = m\<lparr>mg_closed := True\<rparr>;
            m = fold cancel_subtitle_jobs (map fst (mg_sessions m)) m;
            gens = map (\<lambda>(_, g). ge_ref g) (mg_generations m);
            m = fold (\<lambda>i m. fst (detach_generation i m)) (map fst (mg_generations m)) m in
        (m\<lparr>mg_sessions := [], mg_inputs := []\<rparr>, gens)))"

end
