(* ===== verification/Creation.thy ===== *)
theory Creation
  imports SessionOps
begin

text \<open>
  Creating and replacing playback sessions (\<open>create\<close>, \<open>SeekForViewerContextWithCommit\<close>,
  \<open>PrepareHandoffContextWithCommit\<close>, \<open>ReplaceContextWithCommit\<close> of backend/playback/manager.go).
  They give up the lock while a process is started and a manifest is awaited, so other calls run
  in between. Each call is a thread: its program counter names the critical section it runs next
  and its locals are the variables of the Go frame. One step of a thread is one critical section,
  with the environment's answers (clock, tokens, filesystem, FFmpeg, context, commit) in a
  \<open>choice\<close>.
\<close>

record create_call =
  cr_viewerID :: string
  cr_profileID :: string
  cr_catalogID :: string
  cr_plan :: plan
  cr_positionMS :: int
  cr_replacingGeneration :: string
  cr_replacingSessionID :: string
  cr_retainCredit :: bool
  cr_progress :: int

record create_frame =
  cf_call :: create_call
  cf_now :: int
  cf_sessionID :: string
  cf_ownerHandle :: string
  cf_credit :: bool
  cf_jobKey :: string
  cf_settings :: settings
  cf_generationID :: string
  cf_inputTokens :: "string list"
  cf_ref :: nat
  cf_session :: "session option"

text \<open>What the environment answers during one step.\<close>

record choice =
  ch_now :: int
  ch_now2 :: int
  ch_ctx :: bool
  ch_ctx2 :: bool
  ch_commit :: bool
  ch_token1 :: "string option"
  ch_token2 :: "string option"
  ch_token3 :: "string option"
  ch_mkdir :: bool
  ch_command :: bool
  ch_started :: bool
  ch_manifest :: bool
  ch_playlists :: "string \<Rightarrow> nat \<times> int list \<times> bool"

datatype create_pc =
    AtAdmit
  | AtReserved
  | AtInputs
  | AtRevoke play_error
  | AtRelease play_error
  | AtUnpublished
  | AtWait
  | AtManifestFailed
  | AtManifestStopped
  | AtNotAdmitted
  | AtNotAdmittedStopped
  | AtReturn "(play_error, session) result"

section \<open>The critical sections of create\<close>

definition viewer_revoked :: "string \<Rightarrow> manager \<Rightarrow> bool" where
  "viewer_revoked viewerID m \<longleftrightarrow> viewerID \<noteq> '''' \<and> has_key (mg_revokedViewers m) viewerID"

definition create_enter :: "bool \<Rightarrow> create_call \<Rightarrow> manager \<Rightarrow> manager \<times> play_error option" where
  "create_enter ctx call m =
    (let viewerID = cr_viewerID call in
     if \<not> ctx then (m, Some ErrContext)
     else if cr_profileID call = '''' \<or> cr_catalogID call = '''' then (m, Some ErrSessionInvalid)
     else if viewerID \<noteq> '''' then
       (if has_key (mg_revokedViewers m) viewerID then (m, Some ErrSessionInvalid)
        else (m\<lparr>mg_pendingViewers :=
               AList.update viewerID (get_or 0 (mg_pendingViewers m) viewerID + 1) (mg_pendingViewers m)\<rparr>,
              None))
     else (m, None))"

definition finish_viewer_create :: "string \<Rightarrow> manager \<Rightarrow> manager" where
  "finish_viewer_create viewerID m =
    (let remaining = get_or 0 (mg_pendingViewers m) viewerID - 1 in
     if remaining > 0
     then m\<lparr>mg_pendingViewers := AList.update viewerID remaining (mg_pendingViewers m)\<rparr>
     else m\<lparr>mg_pendingViewers := AList.delete viewerID (mg_pendingViewers m),
            mg_revokedViewers := AList.delete viewerID (mg_revokedViewers m)\<rparr>)"

fun shareable_loop :: "(string \<Rightarrow> nat \<times> int list \<times> bool) \<Rightarrow> string \<Rightarrow> int \<Rightarrow>
    (string, generation) gomap \<Rightarrow> (string, generation) gomap \<times> string option" where
  "shareable_loop playlists jobKey positionMS [] = ([], None)"
| "shareable_loop playlists jobKey positionMS ((i, gen) # gens) =
    (let (gen, range) = retained_range (playlists i) gen in
     if ge_jobKey gen = jobKey \<and>
        (case range of None \<Rightarrow> False | Some (start, end) \<Rightarrow> start \<le> positionMS \<and> positionMS \<le> end)
     then ((i, gen) # gens, Some i)
     else (let (gens, found) = shareable_loop playlists jobKey positionMS gens in ((i, gen) # gens, found)))"

definition frame_session :: "create_frame \<Rightarrow> int \<Rightarrow> string \<Rightarrow> int \<Rightarrow> session" where
  "frame_session f streamOffsetMS generationID expiresAt =
    (let c = cf_call f in
     \<lparr>se_ProgressGeneration = cr_progress c, se_ViewerID = cr_viewerID c, se_ID = cf_sessionID f,
      se_OwnerHandle = cf_ownerHandle f, se_ProfileID = cr_profileID c, se_CatalogID = cr_catalogID c,
      se_Plan = cr_plan c, se_PositionMS = cr_positionMS c, se_StreamOffsetMS = streamOffsetMS,
      se_GenerationID = generationID, se_CreatedAt = cf_now f, se_ExpiresAt = expiresAt\<rparr>)"

definition audio_selection_index :: "plan \<Rightarrow> int" where
  "audio_selection_index p = (if pl_audio_selected p then pl_audio_stream_index p else -1)"

definition over_capacity :: "int \<Rightarrow> manager \<Rightarrow> bool" where
  "over_capacity reserved m \<longleftrightarrow>
     reserved > st_MaxGenerations (mg_settings m) \<or>
     wrap64 (reserved * st_GenerationBytes (mg_settings m)) > st_GlobalBytes (mg_settings m)"

definition admit_direct :: "create_frame \<Rightarrow> manager \<Rightarrow> create_pc \<times> create_frame \<times> manager" where
  "admit_direct f m =
    (let c = cf_call f; s = frame_session f 0 '''' (cf_now f + directSessionTTL) in
     if mg_closed m \<or> viewer_revoked (cr_viewerID c) m then (AtReturn (Inl ErrSessionInvalid), f, m)
     else (AtReturn (Inr s), f,
           link_preparing (cr_replacingSessionID c) (se_ID s)
             (m\<lparr>mg_sessions := AList.update (se_ID s) s (mg_sessions m)\<rparr>)))"

definition share_generation :: "string \<Rightarrow> create_frame \<Rightarrow> manager \<Rightarrow> session \<times> manager" where
  "share_generation i f m =
    (let gen = the (map_of (mg_generations m) i);
         s = frame_session f (ge_startMS gen) (ge_id gen) (cf_now f + st_LeaseTTL (mg_settings m));
         gen = gen\<lparr>ge_leases := AList.update (se_ID s) (se_ExpiresAt s) (ge_leases gen)\<rparr>;
         m = m\<lparr>mg_generations := AList.update i gen (mg_generations m),
               mg_sessions := AList.update (se_ID s) s (mg_sessions m)\<rparr>;
         m = link_preparing (cr_replacingSessionID (cf_call f)) (se_ID s) m in
     (s, renew_inputs gen (se_ExpiresAt s) m))"

definition replacement_credit :: "string \<Rightarrow> manager \<Rightarrow> bool" where
  "replacement_credit g m =
    (case map_of (mg_generations m) g of None \<Rightarrow> False
     | Some gen \<Rightarrow> length (ge_leases gen) = 1 \<and> \<not> has_key (mg_replacements m) g)"

definition drop_credit :: "create_frame \<Rightarrow> manager \<Rightarrow> manager" where
  "drop_credit f m =
    (let g = cr_replacingGeneration (cf_call f) in
     if get_or '''' (mg_replacements m) g = cf_sessionID f
     then m\<lparr>mg_replacements := AList.delete g (mg_replacements m)\<rparr> else m)"

definition reserve_generation :: "string \<Rightarrow> create_frame \<Rightarrow> manager \<Rightarrow> create_pc \<times> create_frame \<times> manager" where
  "reserve_generation jobKey f m =
    (let g = cr_replacingGeneration (cf_call f);
         credit = replacement_credit g m;
         reserved = int (length (mg_generations m)) + mg_starting m + 1 - (if credit then 1 else 0);
         m' = (if credit then m\<lparr>mg_replacements := AList.update g (cf_sessionID f) (mg_replacements m)\<rparr> else m) in
     if over_capacity reserved m'
     then (AtReturn (Inl ErrCapacity), f, if credit then drop_credit f m' else m')
     else (AtReserved,
           f\<lparr>cf_credit := credit, cf_jobKey := jobKey, cf_settings := mg_settings m\<rparr>,
           m'\<lparr>mg_starting := mg_starting m + 1,
              mg_pendingJobs := AList.update jobKey () (mg_pendingJobs m)\<rparr>))"

definition create_admit :: "choice \<Rightarrow> create_frame \<Rightarrow> manager \<Rightarrow> create_pc \<times> create_frame \<times> manager" where
  "create_admit ch f m =
    (case ch_token1 ch of None \<Rightarrow> (AtReturn (Inl ErrToken), f, m) | Some sessionID \<Rightarrow>
     case ch_token2 ch of None \<Rightarrow> (AtReturn (Inl ErrToken), f, m) | Some ownerHandle \<Rightarrow>
      (let c = cf_call f;
           f = f\<lparr>cf_call := c\<lparr>cr_positionMS := max 0 (cr_positionMS c)\<rparr>, cf_now := ch_now ch,
                 cf_sessionID := sessionID, cf_ownerHandle := ownerHandle\<rparr>;
           c = cf_call f; p = cr_plan c in
       if pl_kind p = Direct then admit_direct f m
       else if pl_kind p \<noteq> Remux \<and> pl_kind p \<noteq> Transcode then (AtReturn (Inl ErrUnsupportedMedia), f, m)
       else if \<not> mg_hasExecutor m then (AtReturn (Inl ErrNoFFmpeg), f, m)
       else if mg_closed m \<or> viewer_revoked (cr_viewerID c) m
       then (AtReturn (Inl ErrSessionInvalid), f, m)
       else
         (let jobKey = generation_job_key (cr_catalogID c) p (audio_selection_index p);
              (gens, found) = shareable_loop (ch_playlists ch) jobKey (cr_positionMS c) (mg_generations m);
              m = m\<lparr>mg_generations := gens\<rparr> in
          case found of
            Some i \<Rightarrow> (let (s, m) = share_generation i f m in (AtReturn (Inr s), f, m))
          | None \<Rightarrow>
              if has_key (mg_pendingJobs m) jobKey then (AtReturn (Inl ErrPreparing), f, m)
              else reserve_generation jobKey f m)))"

definition release_reservation :: "create_frame \<Rightarrow> manager \<Rightarrow> manager" where
  "release_reservation f m =
    (let m = m\<lparr>mg_starting := mg_starting m - 1\<rparr>;
         m = (if cf_credit f then drop_credit f m else m) in
     m\<lparr>mg_pendingJobs := AList.delete (cf_jobKey f) (mg_pendingJobs m)\<rparr>)"

text \<open>
  The steps between the reservation and the registration of the inputs, none of which touches the
  manager, and then the registration: the first failure releases the reservation with its error.
\<close>

definition input_of :: "create_frame \<Rightarrow> int \<Rightarrow> bool \<Rightarrow> input_authority" where
  "input_of f index external =
    (let c = cf_call f in
     \<lparr>ia_catalogID = cr_catalogID c, ia_sourceKey = pl_source_key (cr_plan c),
      ia_audioStreamIndex = index, ia_external = external, ia_pendingViewerID = cr_viewerID c,
      ia_expiresAt = cf_now f + st_LeaseTTL (cf_settings f)\<rparr>)"

definition create_register :: "choice \<Rightarrow> create_frame \<Rightarrow> manager \<Rightarrow> create_pc \<times> create_frame \<times> manager" where
  "create_register ch f m =
    (case ch_token1 ch of None \<Rightarrow> (AtRelease ErrToken, f, m) | Some generationID \<Rightarrow>
     case ch_token2 ch of None \<Rightarrow> (AtRelease ErrToken, f, m) | Some inputToken \<Rightarrow>
      if \<not> ch_mkdir ch then (AtRelease ErrDirectory, f, m)
      else
        (let c = cf_call f; p = cr_plan c; external = pl_audio_external p in
         case (if external then map_option (\<lambda>t. [inputToken, t]) (ch_token3 ch) else Some [inputToken]) of
           None \<Rightarrow> (AtRelease ErrToken, f, m)
         | Some tokens \<Rightarrow>
             if \<not> ch_command ch then (AtRelease ErrCommand, f, m)
             else if mg_closed m \<or> viewer_revoked (cr_viewerID c) m
             then (AtRelease ErrSessionInvalid, f, m)
             else
               (let f = f\<lparr>cf_generationID := generationID, cf_inputTokens := tokens\<rparr>;
                    inputs = AList.update inputToken (input_of f (-1) False) (mg_inputs m);
                    inputs = (if external
                      then AList.update (tokens ! 1) (input_of f (pl_audio_stream_index p) True) inputs
                      else inputs) in
                (AtInputs, f, m\<lparr>mg_inputs := inputs\<rparr>))))"

definition revoke_inputs :: "create_frame \<Rightarrow> manager \<Rightarrow> manager" where
  "revoke_inputs f m = m\<lparr>mg_inputs := delete_all (cf_inputTokens f) (mg_inputs m)\<rparr>"

definition clear_pending :: "string \<Rightarrow> (string, input_authority) gomap \<Rightarrow> (string, input_authority) gomap" where
  "clear_pending token inputs =
    (case map_of inputs token of None \<Rightarrow> inputs
     | Some a \<Rightarrow> AList.update token (a\<lparr>ia_pendingViewerID := ''''\<rparr>) inputs)"

definition frame_generation :: "create_frame \<Rightarrow> manager \<Rightarrow> session \<Rightarrow> generation" where
  "frame_generation f m s =
    \<lparr>ge_ref = mg_next m, ge_id = cf_generationID f, ge_jobKey = cf_jobKey f,
     ge_kind = pl_kind (cr_plan (cf_call f)), ge_startMS = cr_positionMS (cf_call f),
     ge_dir = join_path [st_SegmentDir (cf_settings f), cf_generationID f],
     ge_inputs = cf_inputTokens f, ge_leases = [(se_ID s, se_ExpiresAt s)],
     ge_completed = False, ge_ready = (mg_manifestWait m = 0), ge_startedAt = cf_now f, ge_log = '''',
     ge_mediaSequence = 0, ge_mediaOffsetMS = 0, ge_segmentDuration = []\<rparr>"

definition create_publish :: "choice \<Rightarrow> create_frame \<Rightarrow> manager \<Rightarrow> create_pc \<times> create_frame \<times> manager" where
  "create_publish ch f m =
    (if \<not> ch_started ch then (AtRevoke ErrStart, f, m)
     else
       (let c = cf_call f;
            s = frame_session f (cr_positionMS c) (cf_generationID f)
                  (cf_now f + st_LeaseTTL (cf_settings f));
            gen = frame_generation f m s;
            m = m\<lparr>mg_next := Suc (mg_next m)\<rparr>;
            f = f\<lparr>cf_ref := ge_ref gen, cf_session := Some s\<rparr>;
            m = m\<lparr>mg_starting := mg_starting m - 1\<rparr>;
            m = (if cf_credit f \<and> \<not> cr_retainCredit c then drop_credit f m else m) in
        if mg_closed m \<or> viewer_revoked (cr_viewerID c) m
        then (AtUnpublished, f,
              drop_credit f (m\<lparr>mg_pendingJobs := AList.delete (cf_jobKey f) (mg_pendingJobs m)\<rparr>))
        else
          (let m = m\<lparr>mg_generations := AList.update (cf_generationID f) gen (mg_generations m),
                     mg_sessions := AList.update (se_ID s) s (mg_sessions m)\<rparr>;
               m = link_preparing (cr_replacingSessionID c) (se_ID s) m in
           (AtWait, f, m\<lparr>mg_inputs := fold clear_pending (cf_inputTokens f) (mg_inputs m)\<rparr>))))"

definition create_admitted :: "create_frame \<Rightarrow> manager \<Rightarrow> bool" where
  "create_admitted f m \<longleftrightarrow>
     (let c = cf_call f in
      \<not> mg_closed m \<and> \<not> viewer_revoked (cr_viewerID c) m \<and>
      (case map_of (mg_generations m) (cf_generationID f) of None \<Rightarrow> False
       | Some g \<Rightarrow> ge_ref g = cf_ref f) \<and>
      (case map_of (mg_sessions m) (cf_sessionID f) of None \<Rightarrow> False
       | Some s \<Rightarrow> se_GenerationID s = cf_generationID f \<and> se_ViewerID s = cr_viewerID c \<and>
                   se_ProfileID s = cr_profileID c))"

definition create_ready :: "choice \<Rightarrow> create_frame \<Rightarrow> manager \<Rightarrow> create_pc \<times> create_frame \<times> manager" where
  "create_ready ch f m =
    (if mg_manifestWait m > 0 \<and> \<not> ch_manifest ch then (AtManifestFailed, f, m)
     else
       (let admitted = create_admitted f m;
            m = (if admitted
                 then (case map_of (mg_generations m) (cf_generationID f) of None \<Rightarrow> m
                       | Some g \<Rightarrow> m\<lparr>mg_generations :=
                           AList.update (cf_generationID f) (g\<lparr>ge_ready := True\<rparr>) (mg_generations m)\<rparr>)
                 else m);
            m = m\<lparr>mg_pendingJobs := AList.delete (cf_jobKey f) (mg_pendingJobs m)\<rparr> in
        if admitted then (AtReturn (Inr (the (cf_session f))), f, m) else (AtNotAdmitted, f, m)))"

definition stop_created :: "choice \<Rightarrow> create_frame \<Rightarrow> manager \<Rightarrow> manager" where
  "stop_created ch f m =
    (let c = cf_call f in
     fst (stop_for_viewer (cf_sessionID f) (cr_viewerID c) (cr_profileID c) (ch_now ch) m))"

fun create_step :: "choice \<Rightarrow> create_pc \<Rightarrow> create_frame \<Rightarrow> manager \<Rightarrow> create_pc \<times> create_frame \<times> manager" where
  "create_step ch AtAdmit f m = create_admit ch f m"
| "create_step ch AtReserved f m = create_register ch f m"
| "create_step ch AtInputs f m = create_publish ch f m"
| "create_step ch (AtRevoke e) f m = (AtRelease e, f, revoke_inputs f m)"
| "create_step ch (AtRelease e) f m = (AtReturn (Inl e), f, release_reservation f m)"
| "create_step ch AtUnpublished f m =
     (AtReturn (Inl ErrSessionInvalid), f,
      (revoke_inputs f m)\<lparr>mg_retired := mg_retired m @ [cf_ref f]\<rparr>)"
| "create_step ch AtWait f m = create_ready ch f m"
| "create_step ch AtManifestFailed f m = (AtManifestStopped, f, stop_created ch f m)"
| "create_step ch AtManifestStopped f m =
     (AtReturn (Inl (if viewer_revoked (cr_viewerID (cf_call f)) m then ErrSessionInvalid else ErrManifest)), f,
      clear_preparing (cf_sessionID f)
        ((drop_credit f m)\<lparr>mg_pendingJobs := AList.delete (cf_jobKey f) (mg_pendingJobs m)\<rparr>))"
| "create_step ch AtNotAdmitted f m = (AtNotAdmittedStopped, f, stop_created ch f m)"
| "create_step ch AtNotAdmittedStopped f m =
     (AtReturn (Inl ErrSessionInvalid), f, clear_preparing (cf_sessionID f) (drop_credit f m))"
| "create_step ch (AtReturn r) f m = (AtReturn r, f, m)"

end
