(* ===== verification/Playback.thy ===== *)
theory Playback
  imports Creation
begin

text \<open>
  The playback manager with everything that may run at once: the calls that create a session are
  threads over the create of theory Creation, every other call is one event, and an event of the
  machine is one critical section of one of them. A run is any sequence of events, so whatever
  holds for every run holds for every interleaving of the calls.
\<close>

section \<open>Callers of create\<close>

text \<open>What a caller holds in its frame while create runs, and what it does when create returns.\<close>

record seek_locals =
  sk_sid :: string
  sk_viewerID :: string
  sk_profileID :: string
  sk_session :: session

record prepare_locals =
  pp_sid :: string
  pp_profileID :: string
  pp_old :: session
  pp_handoffID :: string
  pp_leaseTTL :: int

datatype caller =
    Plain
  | Seeking seek_locals
  | Preparing prepare_locals
  | Replacing prepare_locals

datatype outcome = SessionOut session | HandoffOut handoff

type_synonym call_result = "(play_error, outcome) result"

text \<open>
  A caller's critical section after create ends in a result, possibly after the replacement was
  stopped in a critical section of its own; preparing and replacing then run a deferred one.
\<close>

datatype finishing =
    Finished call_result
  | StopThen string string string call_result

definition seek_begin ::
    "choice \<Rightarrow> string \<Rightarrow> string \<Rightarrow> string \<Rightarrow> int \<Rightarrow> manager \<Rightarrow>
     manager \<times> call_result + manager \<times> create_call \<times> caller" where
  "seek_begin ch sid viewerID profileID positionMS m =
    (if \<not> ch_ctx ch then Inl (m, Inl ErrContext)
     else case map_of (mg_sessions m) sid of
       None \<Rightarrow> Inl (m, Inl ErrSessionInvalid)
     | Some s \<Rightarrow>
        if \<not> authorized viewerID profileID s \<or> se_GenerationID s = '''' then Inl (m, Inl ErrSessionInvalid)
        else if handoff_control_blocked m sid then Inl (m, Inl ErrPreparing)
        else
          (let g = se_GenerationID s;
               (m, range) = (case map_of (mg_generations m) g of
                   None \<Rightarrow> (m, None)
                 | Some gen \<Rightarrow>
                    (let (gen, range) = retained_range (ch_playlists ch g) gen in
                     (m\<lparr>mg_generations := AList.update g gen (mg_generations m)\<rparr>, range))) in
           if (case range of None \<Rightarrow> False | Some (start, end) \<Rightarrow> start \<le> positionMS \<and> positionMS \<le> end)
           then
             (if \<not> ch_commit ch then Inl (m, Inl ErrCommit)
              else
                (let s = s\<lparr>se_PositionMS := max 0 positionMS,
                          se_ExpiresAt := ch_now ch + st_LeaseTTL (mg_settings m)\<rparr>;
                     m = m\<lparr>mg_sessions := AList.update sid s (mg_sessions m)\<rparr> in
                 case map_of (mg_generations m) g of
                   None \<Rightarrow> Inl (m, Inr (SessionOut s))
                 | Some gen \<Rightarrow>
                     Inl (m\<lparr>mg_generations := AList.update g
                             (gen\<lparr>ge_leases := AList.update sid (se_ExpiresAt s) (ge_leases gen)\<rparr>)
                             (mg_generations m)\<rparr>, Inr (SessionOut s))))
           else
             Inr (m, \<lparr>cr_viewerID = viewerID, cr_profileID = profileID, cr_catalogID = se_CatalogID s,
                      cr_plan = se_Plan s, cr_positionMS = positionMS, cr_replacingGeneration = g,
                      cr_replacingSessionID = sid, cr_retainCredit = False,
                      cr_progress = se_ProgressGeneration s\<rparr>,
                  Seeking \<lparr>sk_sid = sid, sk_viewerID = viewerID, sk_profileID = profileID,
                           sk_session = s\<rparr>)))"

definition inherit_replacement_state :: "plan \<Rightarrow> plan \<Rightarrow> plan" where
  "inherit_replacement_state p current =
    p\<lparr>pl_source_key := pl_source_key current, pl_version_id := pl_version_id current,
      pl_version_explicit := pl_version_explicit current, pl_version := pl_version current,
      pl_subtitle_sources := pl_subtitle_sources current,
      pl_subtitle_selection_index := pl_subtitle_selection_index current,
      pl_subtitle_external := pl_subtitle_external current,
      pl_subtitle_selected := pl_subtitle_selected current\<rparr>"

text \<open>The end that preparing and replacing share: keep the predecessor alive and reserve it.\<close>

definition reserve_predecessor ::
    "choice \<Rightarrow> string \<Rightarrow> session \<Rightarrow> plan \<Rightarrow> int \<Rightarrow> bool \<Rightarrow> manager \<Rightarrow> manager \<times> create_call" where
  "reserve_predecessor ch sid old p positionMS retain m =
    (let deadline = ch_now2 ch + (st_LeaseTTL (mg_settings m) + max 0 (mg_manifestWait m));
         old' = (if se_ExpiresAt old < deadline then old\<lparr>se_ExpiresAt := deadline\<rparr> else old);
         m = (if se_ExpiresAt old < deadline then store_renewed sid old' m else m);
         m = m\<lparr>mg_preparingHandoffs := AList.update sid deadline (mg_preparingHandoffs m)\<rparr> in
     (m, \<lparr>cr_viewerID = se_ViewerID old, cr_profileID = se_ProfileID old,
          cr_catalogID = se_CatalogID old,
          cr_plan = inherit_replacement_state p (se_Plan old), cr_positionMS = positionMS,
          cr_replacingGeneration = se_GenerationID old, cr_replacingSessionID = sid,
          cr_retainCredit = retain, cr_progress = se_ProgressGeneration old\<rparr>))"

definition viewer_pending :: "string \<Rightarrow> manager \<Rightarrow> nat" where
  "viewer_pending viewerID m =
     length (filter (\<lambda>(_, h). ph_viewerID h = viewerID) (mg_handoffs m)) +
     length (filter (\<lambda>(i, _). case map_of (mg_sessions m) i of None \<Rightarrow> False
                              | Some s \<Rightarrow> se_ViewerID s = viewerID) (mg_preparingHandoffs m))"

definition prepare_begin ::
    "choice \<Rightarrow> string \<Rightarrow> string \<Rightarrow> plan \<Rightarrow> int \<Rightarrow> manager \<Rightarrow>
     manager \<times> call_result + manager \<times> create_call \<times> caller" where
  "prepare_begin ch sid profileID p positionMS m =
    (if \<not> ch_ctx ch then Inl (m, Inl ErrContext)
     else case ch_token1 ch of None \<Rightarrow> Inl (m, Inl ErrToken) | Some handoffID \<Rightarrow>
     (case map_of (mg_sessions m) sid of
        None \<Rightarrow> Inl (m, Inl ErrSessionInvalid)
      | Some old \<Rightarrow>
         if se_ProfileID old \<noteq> profileID \<or> \<not> ch_now ch < se_ExpiresAt old
         then Inl (m, Inl ErrSessionInvalid)
         else if has_key (mg_preparingHandoffs m) sid \<or> get_or '''' (mg_sessionHandoffs m) sid \<noteq> ''''
         then Inl (m, Inl ErrPreparing)
         else if length (mg_handoffs m) + length (mg_preparingHandoffs m) \<ge> maxPendingHandoffs \<or>
                 viewer_pending (se_ViewerID old) m \<ge> maxHandoffsPerViewer
         then Inl (m, Inl ErrCapacity)
         else if \<not> ch_commit ch then Inl (m, Inl ErrCommit)
         else
           (let leaseTTL = st_LeaseTTL (mg_settings m);
                (m, call) = reserve_predecessor ch sid old p positionMS True m in
            Inr (m, call, Preparing \<lparr>pp_sid = sid, pp_profileID = profileID, pp_old = old,
                                     pp_handoffID = handoffID, pp_leaseTTL = leaseTTL\<rparr>))))"

definition replace_begin ::
    "choice \<Rightarrow> string \<Rightarrow> string \<Rightarrow> plan \<Rightarrow> int \<Rightarrow> manager \<Rightarrow>
     manager \<times> call_result + manager \<times> create_call \<times> caller" where
  "replace_begin ch sid profileID p positionMS m =
    (if \<not> ch_ctx ch then Inl (m, Inl ErrContext)
     else case map_of (mg_sessions m) sid of
        None \<Rightarrow> Inl (m, Inl ErrSessionInvalid)
      | Some old \<Rightarrow>
         if se_ProfileID old \<noteq> profileID \<or> \<not> ch_now ch < se_ExpiresAt old
         then Inl (m, Inl ErrSessionInvalid)
         else if handoff_control_blocked m sid then Inl (m, Inl ErrPreparing)
         else if \<not> ch_commit ch then Inl (m, Inl ErrCommit)
         else
           (let leaseTTL = st_LeaseTTL (mg_settings m);
                (m, call) = reserve_predecessor ch sid old p positionMS False m in
            Inr (m, call, Replacing \<lparr>pp_sid = sid, pp_profileID = profileID, pp_old = old,
                                     pp_handoffID = '''', pp_leaseTTL = leaseTTL\<rparr>)))"

text \<open>Whether the predecessor and the candidate are still those the caller saw.\<close>

definition old_valid :: "string \<Rightarrow> string \<Rightarrow> session \<Rightarrow> session option \<Rightarrow> bool" where
  "old_valid viewerID profileID seen current =
    (case current of None \<Rightarrow> False
     | Some s \<Rightarrow> se_ViewerID s = viewerID \<and> se_ProfileID s = profileID \<and>
         se_GenerationID s = se_GenerationID seen \<and>
         se_ProgressGeneration s = se_ProgressGeneration seen)"

definition candidate_valid :: "string \<Rightarrow> string \<Rightarrow> session \<Rightarrow> session option \<Rightarrow> bool" where
  "candidate_valid viewerID profileID replacement current =
    (case current of None \<Rightarrow> False
     | Some s \<Rightarrow> se_ViewerID s = viewerID \<and> se_ProfileID s = profileID \<and>
         se_GenerationID s = se_GenerationID replacement)"

definition unexpired :: "int \<Rightarrow> session option \<Rightarrow> bool" where
  "unexpired now current = (case current of None \<Rightarrow> False | Some s \<Rightarrow> now < se_ExpiresAt s)"

definition owner_stopped :: "string \<Rightarrow> string \<Rightarrow> manager \<Rightarrow> bool" where
  "owner_stopped replacementID sid m =
    (case preparation m replacementID of None \<Rightarrow> False | Some r \<Rightarrow> rp_ownerStoppedID r = sid)"

definition seek_finish :: "choice \<Rightarrow> seek_locals \<Rightarrow> session \<Rightarrow> manager \<Rightarrow> manager \<times> finishing" where
  "seek_finish ch l replacement m =
    (let sid = sk_sid l; viewerID = sk_viewerID l; profileID = sk_profileID l; rid = se_ID replacement;
         current = map_of (mg_sessions m) sid; candidate = map_of (mg_sessions m) rid;
         revoked = viewer_revoked viewerID m;
         oldOk = old_valid viewerID profileID (sk_session l) current \<and> unexpired (ch_now ch) current;
         candOk = candidate_valid viewerID profileID replacement candidate in
     if \<not> ch_ctx ch then (clear_preparing rid m, StopThen rid viewerID profileID (Inl ErrContext))
     else if owner_stopped rid sid m \<and> candOk \<and> \<not> revoked then
       (if \<not> ch_commit ch then (clear_preparing rid m, StopThen rid viewerID profileID (Inl ErrCommit))
        else (clear_preparing rid m, Finished (Inr (SessionOut (the candidate)))))
     else if \<not> oldOk \<or> \<not> candOk \<or> revoked then
       (clear_preparing rid m, StopThen rid viewerID profileID
          (Inl (if \<not> ch_ctx2 ch then ErrContext else ErrSessionInvalid)))
     else if \<not> ch_commit ch then
       (clear_preparing rid m, StopThen rid viewerID profileID (Inl ErrCommit))
     else
       (let (m, gen) = stop_session sid (clear_preparing rid m) in
        (retire gen m, Finished (Inr (SessionOut replacement)))))"

definition prepare_finish :: "choice \<Rightarrow> prepare_locals \<Rightarrow> session \<Rightarrow> manager \<Rightarrow>
    manager \<times> finishing \<times> bool" where
  "prepare_finish ch l replacement m =
    (let sid = pp_sid l; old = pp_old l; viewerID = se_ViewerID old; profileID = pp_profileID l;
         rid = se_ID replacement; now = ch_now ch; deadline = now + pp_leaseTTL l;
         current = map_of (mg_sessions m) sid; candidate = map_of (mg_sessions m) rid;
         revoked = viewer_revoked viewerID m;
         oldOk = old_valid viewerID profileID old current \<and> unexpired now current;
         candOk = candidate_valid viewerID profileID replacement candidate in
     if \<not> ch_ctx ch then (m, StopThen rid viewerID profileID (Inl ErrContext), False)
     else if owner_stopped rid sid m \<and> candOk \<and> \<not> revoked then
       (let c = the candidate;
            m = clear_preparing rid
                  (m\<lparr>mg_preparingHandoffs := AList.delete sid (mg_preparingHandoffs m)\<rparr>);
            m = m\<lparr>mg_resolvedHandoffs := AList.update (pp_handoffID l)
                  \<lparr>rh_viewerID = viewerID, rh_profileID = profileID, rh_attached = True,
                   rh_expiresAt = se_ExpiresAt c, rh_stoppedID = sid, rh_keptID = se_ID c\<rparr>
                  (mg_resolvedHandoffs m)\<rparr> in
        (m, Finished (Inr (HandoffOut \<lparr>ho_ID = pp_handoffID l, ho_Session = c,
                                       ho_ExpiresAt = se_ExpiresAt c\<rparr>)), True))
     else if \<not> oldOk \<or> \<not> candOk \<or> get_or '''' (mg_sessionHandoffs m) sid \<noteq> '''' \<or> revoked then
       (m, StopThen rid viewerID profileID
          (Inl (if \<not> ch_ctx2 ch then ErrContext else ErrSessionInvalid)), False)
     else
       (let m = store_renewed sid ((the current)\<lparr>se_ExpiresAt := deadline\<rparr>) m;
            c = (the candidate)\<lparr>se_ExpiresAt := deadline\<rparr>;
            m = store_renewed rid c m;
            replacementGeneration =
              (if get_or '''' (mg_replacements m) (se_GenerationID old) = se_ID c
               then se_GenerationID old else '''');
            h = pp_handoffID l;
            m = m\<lparr>mg_handoffs := AList.update h
                    \<lparr>ph_id = h, ph_oldID = sid, ph_newID = se_ID c, ph_viewerID = viewerID,
                     ph_profileID = profileID, ph_expiresAt = deadline,
                     ph_replacementGeneration = replacementGeneration\<rparr> (mg_handoffs m),
                  mg_sessionHandoffs := AList.update (se_ID c) h
                    (AList.update sid h (mg_sessionHandoffs m))\<rparr> in
        (clear_preparing rid m,
         Finished (Inr (HandoffOut \<lparr>ho_ID = h, ho_Session = c, ho_ExpiresAt = deadline\<rparr>)), True)))"

definition replace_finish :: "choice \<Rightarrow> prepare_locals \<Rightarrow> session \<Rightarrow> manager \<Rightarrow>
    manager \<times> finishing \<times> bool" where
  "replace_finish ch l replacement m =
    (let sid = pp_sid l; old = pp_old l; viewerID = se_ViewerID old; profileID = pp_profileID l;
         rid = se_ID replacement;
         current = map_of (mg_sessions m) sid; candidate = map_of (mg_sessions m) rid;
         oldOk = old_valid viewerID profileID old current;
         candOk = candidate_valid viewerID profileID replacement candidate in
     if \<not> ch_ctx ch then (m, StopThen rid viewerID profileID (Inl ErrContext), False)
     else if owner_stopped rid sid m \<and> candOk then
       (clear_preparing rid m, Finished (Inr (SessionOut (the candidate))), True)
     else if \<not> oldOk \<or> \<not> candOk then
       (m, StopThen rid viewerID profileID
          (Inl (if \<not> ch_ctx2 ch then ErrContext else ErrSessionInvalid)), False)
     else
       (let m = clear_preparing rid
                  (m\<lparr>mg_preparingHandoffs := AList.delete sid (mg_preparingHandoffs m)\<rparr>);
            (m, gen) = stop_session sid m in
        (retire gen m, Finished (Inr (SessionOut (the candidate))), True)))"

text \<open>The deferred critical sections.\<close>

definition prepare_deferred :: "choice \<Rightarrow> prepare_locals \<Rightarrow> string \<Rightarrow> bool \<Rightarrow> manager \<Rightarrow> manager" where
  "prepare_deferred ch l replacementID activated m =
    (let sid = pp_sid l; g = se_GenerationID (pp_old l);
         m = m\<lparr>mg_preparingHandoffs := AList.delete sid (mg_preparingHandoffs m)\<rparr>;
         m = (if replacementID \<noteq> '''' then clear_preparing replacementID m else m) in
     if activated then m
     else
       (let m = (if g \<noteq> '''' \<and> get_or '''' (mg_replacements m) g = replacementID
                 then m\<lparr>mg_replacements := AList.delete g (mg_replacements m)\<rparr> else m) in
        extend_survivor sid (ch_now ch) m))"

definition replace_deferred :: "choice \<Rightarrow> prepare_locals \<Rightarrow> bool \<Rightarrow> manager \<Rightarrow> manager" where
  "replace_deferred ch l accepted m =
    (let sid = pp_sid l;
         m = clear_preparing sid (m\<lparr>mg_preparingHandoffs := AList.delete sid (mg_preparingHandoffs m)\<rparr>) in
     if accepted then m else extend_survivor sid (ch_now ch) m)"

section \<open>Threads and events\<close>

text \<open>
  A thread is inside create; has a session from create and its caller decides next; stops the
  replacement it gives up; or runs its deferred critical section, after which its result stands.
  StopViewer, UpdateSettings and Sweep are threads of their own, between two critical sections.
\<close>

datatype thread =
    Creating caller create_pc create_frame
  | Deciding caller session
  | Stopping caller string string string call_result
  | Deferring caller string bool call_result
  | StoppingViewer string "(string \<times> string) list"
  | SavingSettings settings
  | Sweeping int "(string \<times> nat) list" "nat list"

record world =
  wo_manager :: manager
  wo_threads :: "(nat, thread) gomap"
  wo_results :: "(nat \<times> call_result) list"

definition new_world :: "manager \<Rightarrow> world" where
  "new_world m = \<lparr>wo_manager = m, wo_threads = [], wo_results = []\<rparr>"

text \<open>What a step leaves: the manager, what becomes of the thread, and the results of the step.\<close>

type_synonym stepped = "manager \<times> thread option \<times> call_result list"

definition empty_frame :: "create_call \<Rightarrow> create_frame" where
  "empty_frame call = \<lparr>cf_call = call, cf_now = 0, cf_sessionID = '''', cf_ownerHandle = '''',
     cf_credit = False, cf_jobKey = '''', cf_settings = default_settings '''', cf_generationID = '''',
     cf_inputTokens = [], cf_ref = 0, cf_session = None\<rparr>"

definition enter_create :: "bool \<Rightarrow> create_call \<Rightarrow> caller \<Rightarrow> manager \<Rightarrow> stepped" where
  "enter_create ctx call caller m =
    (case create_enter ctx call m of
       (m, Some e) \<Rightarrow> (m, Some (Deferring caller '''' False (Inl e)), [])
     | (m, None) \<Rightarrow> (m, Some (Creating caller AtAdmit (empty_frame call)), []))"

definition begin_call :: "choice \<Rightarrow> (manager \<times> call_result + manager \<times> create_call \<times> caller) \<Rightarrow> stepped" where
  "begin_call ch b =
    (case b of
       Inl (m, r) \<Rightarrow> (m, None, [r])
     | Inr (m, call, caller) \<Rightarrow> enter_create (ch_ctx2 ch) call caller m)"

definition finish_create :: "create_frame \<Rightarrow> manager \<Rightarrow> manager" where
  "finish_create f m =
    (let v = cr_viewerID (cf_call f) in if v \<noteq> '''' then finish_viewer_create v m else m)"

definition finishing_thread :: "caller \<Rightarrow> string \<Rightarrow> bool \<Rightarrow> finishing \<Rightarrow> thread" where
  "finishing_thread caller rid kept fin =
    (case fin of Finished r \<Rightarrow> Deferring caller rid kept r
     | StopThen i v p r \<Rightarrow> Stopping caller i v p r)"

definition decide :: "choice \<Rightarrow> caller \<Rightarrow> session \<Rightarrow> manager \<Rightarrow> stepped" where
  "decide ch caller s m =
    (case caller of
       Plain \<Rightarrow> (m, None, [Inr (SessionOut s)])
     | Seeking l \<Rightarrow>
        (let (m, fin) = seek_finish ch l s m in (m, Some (finishing_thread caller (se_ID s) True fin), []))
     | Preparing l \<Rightarrow>
        (let (m, fin, kept) = prepare_finish ch l s m in
         (m, Some (finishing_thread caller (se_ID s) kept fin), []))
     | Replacing l \<Rightarrow>
        (let (m, fin, kept) = replace_finish ch l s m in
         (m, Some (finishing_thread caller (se_ID s) kept fin), [])))"

definition deferred :: "choice \<Rightarrow> caller \<Rightarrow> string \<Rightarrow> bool \<Rightarrow> manager \<Rightarrow> manager" where
  "deferred ch caller rid kept m =
    (case caller of
       Preparing l \<Rightarrow> prepare_deferred ch l rid kept m
     | Replacing l \<Rightarrow> replace_deferred ch l kept m
     | _ \<Rightarrow> m)"

fun advance :: "choice \<Rightarrow> thread \<Rightarrow> manager \<Rightarrow> stepped" where
  "advance ch (Creating caller pc f) m =
    (case pc of
       AtReturn (Inl e) \<Rightarrow> (finish_create f m, Some (Deferring caller '''' False (Inl e)), [])
     | AtReturn (Inr s) \<Rightarrow> (finish_create f m, Some (Deciding caller s), [])
     | _ \<Rightarrow> (let (pc, f, m) = create_step ch pc f m in (m, Some (Creating caller pc f), [])))"
| "advance ch (Deciding caller s) m = decide ch caller s m"
| "advance ch (Stopping caller i v p r) m =
    (fst (stop_for_viewer i v p (ch_now ch) m), Some (Deferring caller i False r), [])"
| "advance ch (Deferring caller rid kept r) m = (deferred ch caller rid kept m, None, [r])"
| "advance ch (StoppingViewer v []) m = (m, None, [])"
| "advance ch (StoppingViewer v ((i, p) # rest)) m =
    (fst (stop_for_viewer i v p (ch_now ch) m), Some (StoppingViewer v rest), [])"
| "advance ch (SavingSettings s) m = (if ch_commit ch then settings_commit s m else m, None, [])"
| "advance ch (Sweeping b gens refs) m = (m, Some (Sweeping b gens refs), [])"

datatype event =
    CallCreate bool create_call
  | CallSeek choice string string string int
  | CallPrepare choice string string plan int
  | CallReplace choice string string plan int
  | CallStopViewer string
  | CallSupersede session
  | CallUpdateSettings settings
  | CallSweep int
  | Lookup string string string bool int int
  | LookupStop string string string int
  | SelectSubtitle bool string string string int bool bool int
  | SubtitleContext "string option" string string string int
  | ReleaseSubtitle string string
  | Heartbeat string string string int int int int
  | ResolveHandoff string string string bool int
  | StopForViewer string string string int
  | StopCatalogIDs "string list"
  | StopOwnerSession string int
  | InputFile string int
  | ProcessExit string nat
  | Shutdown

definition process_exit :: "string \<Rightarrow> nat \<Rightarrow> manager \<Rightarrow> manager" where
  "process_exit i ref m =
    (case map_of (mg_generations m) i of None \<Rightarrow> m
     | Some g \<Rightarrow> if ge_ref g = ref
         then m\<lparr>mg_generations := AList.update i (g\<lparr>ge_completed := True\<rparr>) (mg_generations m)\<rparr>
         else m)"

text \<open>A call made on the manager: its first critical section, and the thread that is left of it.\<close>

fun call :: "event \<Rightarrow> manager \<Rightarrow> stepped" where
  "call (CallCreate ctx c) m = enter_create ctx c Plain m"
| "call (CallSeek ch i v p pos) m = begin_call ch (seek_begin ch i v p pos m)"
| "call (CallPrepare ch i p pl pos) m = begin_call ch (prepare_begin ch i p pl pos m)"
| "call (CallReplace ch i p pl pos) m = begin_call ch (replace_begin ch i p pl pos m)"
| "call (CallStopViewer v) m =
    (if v = '''' then (m, None, [])
     else (let (m, owned) = fence_viewer v m in (m, Some (StoppingViewer v owned), [])))"
| "call (CallSupersede s) m = (m, Some (StoppingViewer (se_ViewerID s) (superseded_sessions s m)), [])"
| "call (CallUpdateSettings s) m =
    (case settings_admitted s m of Inr False \<Rightarrow> (m, Some (SavingSettings s), []) | _ \<Rightarrow> (m, None, []))"
| "call (CallSweep now) m =
    (let (m, gens, b, refs) = sweep_begin now m in (m, Some (Sweeping b gens refs), []))"
| "call (Lookup i v p touch t1 t2) m = (fst (lookup_for_viewer i v p touch t1 t2 m), None, [])"
| "call (LookupStop i v p t) m = (fst (lookup_stop_for_viewer i v p t m), None, [])"
| "call (SelectSubtitle c i v p n x sel t) m = (fst (select_subtitle c i v p n x sel t m), None, [])"
| "call (SubtitleContext tok i v p t) m = (fst (subtitle_context tok i v p t m), None, [])"
| "call (ReleaseSubtitle i j) m = (release_subtitle i j m, None, [])"
| "call (Heartbeat i v p pos t1 t2 t3) m = (fst (heartbeat_for_viewer i v p pos t1 t2 t3 m), None, [])"
| "call (ResolveHandoff i v p a t) m = (fst (resolve_handoff i v p a t m), None, [])"
| "call (StopForViewer i v p t) m = (fst (stop_for_viewer i v p t m), None, [])"
| "call (StopCatalogIDs is) m = (stop_catalog_ids is m, None, [])"
| "call (StopOwnerSession h t) m = (fst (stop_owner_session h t m), None, [])"
| "call (InputFile tok t) m = (fst (input_file tok t m), None, [])"
| "call (ProcessExit i r) m = (process_exit i r m, None, [])"
| "call Shutdown m = (fst (shutdown_manager m), None, [])"

text \<open>
  A move of the world: thread \<open>t\<close>, which must not exist yet, makes a call; an existing thread
  goes on; or an existing sweep finishes with its measurements.
\<close>

datatype move = Start nat event | Go nat choice | Measured nat "measurement list"

definition settle :: "nat \<Rightarrow> stepped \<Rightarrow> world \<Rightarrow> world" where
  "settle t r w =
    (case r of (m, th, rs) \<Rightarrow>
      \<lparr>wo_manager = m,
       wo_threads = (case th of None \<Rightarrow> AList.delete t (wo_threads w)
                     | Some th \<Rightarrow> AList.update t th (wo_threads w)),
       wo_results = wo_results w @ map (\<lambda>x. (t, x)) rs\<rparr>)"

fun world_step :: "world \<Rightarrow> move \<Rightarrow> world" where
  "world_step w (Start t e) =
    (if has_key (wo_threads w) t then w else settle t (call e (wo_manager w)) w)"
| "world_step w (Go t ch) =
    (case map_of (wo_threads w) t of None \<Rightarrow> w
     | Some th \<Rightarrow> settle t (advance ch th (wo_manager w)) w)"
| "world_step w (Measured t ms) =
    (case map_of (wo_threads w) t of
       Some (Sweeping b gens refs) \<Rightarrow>
         settle t (sweep_finish b (zip gens ms) refs (wo_manager w), None, []) w
     | _ \<Rightarrow> w)"

end
