(* ===== verification/ManagerFrame.thy ===== *)
theory ManagerFrame
  imports Playback
begin

text \<open>
  What the manager's operations leave alone. Apart from the few critical sections of create, the
  settings and the shutdown, no operation admits a session, a generation or an input, changes
  whom a session belongs to or what a generation encodes, or touches the counters of the calls in
  flight. That is the relation \<open>quiet\<close>; it is a preorder, so it passes through loops and sequences
  by the locale \<open>frame_relation\<close>.
\<close>

locale frame_relation =
  fixes rel :: "'s \<Rightarrow> 's \<Rightarrow> bool"
  assumes rel_refl: "rel s s"
    and rel_trans: "rel s t \<Longrightarrow> rel t u \<Longrightarrow> rel s u"
begin

lemma rel_fold: "(\<And>x s. rel s (f x s)) \<Longrightarrow> rel s (fold f xs s)"
proof (induction xs arbitrary: s)
  case Nil
  then show ?case by (simp add: rel_refl)
next
  case (Cons x xs)
  from Cons have "rel s (f x s)" and "rel (f x s) (fold f xs (f x s))" by simp_all
  then show ?case by (simp add: rel_trans)
qed

lemma rel_fold_pair: "(\<And>x s a. rel s (fst (f x (s, a)))) \<Longrightarrow> rel s (fst (fold f xs (s, a)))"
proof (induction xs arbitrary: s a)
  case Nil
  then show ?case by (simp add: rel_refl)
next
  case (Cons x xs)
  obtain t b where t: "f x (s, a) = (t, b)" by (cases "f x (s, a)")
  with Cons.prems [of s x a] have "rel s t" by simp
  moreover have "rel t (fst (fold f xs (t, b)))" using Cons by blast
  ultimately show ?case by (simp add: t rel_trans)
qed

end

section \<open>The relation\<close>

definition same_session :: "session \<Rightarrow> session \<Rightarrow> bool" where
  "same_session s t \<longleftrightarrow>
     se_ID t = se_ID s \<and> se_ViewerID t = se_ViewerID s \<and> se_ProfileID t = se_ProfileID s \<and>
     se_CatalogID t = se_CatalogID s \<and> se_GenerationID t = se_GenerationID s \<and>
     se_ProgressGeneration t = se_ProgressGeneration s \<and> se_OwnerHandle t = se_OwnerHandle s \<and>
     se_CreatedAt t = se_CreatedAt s"

definition same_job :: "generation \<Rightarrow> generation \<Rightarrow> bool" where
  "same_job g h \<longleftrightarrow>
     ge_ref h = ge_ref g \<and> ge_id h = ge_id g \<and> ge_jobKey h = ge_jobKey g \<and>
     ge_kind h = ge_kind g \<and> ge_startMS h = ge_startMS g \<and> ge_dir h = ge_dir g \<and>
     ge_inputs h = ge_inputs g"

definition same_input :: "input_authority \<Rightarrow> input_authority \<Rightarrow> bool" where
  "same_input a b \<longleftrightarrow>
     ia_catalogID b = ia_catalogID a \<and> ia_sourceKey b = ia_sourceKey a \<and>
     ia_audioStreamIndex b = ia_audioStreamIndex a \<and> ia_external b = ia_external a \<and>
     ia_pendingViewerID b = ia_pendingViewerID a"

text \<open>Every entry of the second map refines one of the first.\<close>

definition refines :: "('v \<Rightarrow> 'v \<Rightarrow> bool) \<Rightarrow> ('k, 'v) gomap \<Rightarrow> ('k, 'v) gomap \<Rightarrow> bool" where
  "refines same a b \<longleftrightarrow> (wf_map a \<longrightarrow> wf_map b) \<and>
     (wf_map a \<longrightarrow> (\<forall>k v. map_of b k = Some v \<longrightarrow> (\<exists>u. map_of a k = Some u \<and> same u v)))"

lemma refinesI:
  "(wf_map a \<Longrightarrow> wf_map b) \<Longrightarrow>
   (\<And>k v. wf_map a \<Longrightarrow> map_of b k = Some v \<Longrightarrow> \<exists>u. map_of a k = Some u \<and> same u v) \<Longrightarrow> refines same a b"
  by (simp add: refines_def)

lemma refinesD:
  "refines same a b \<Longrightarrow> wf_map a \<Longrightarrow> map_of b k = Some v \<Longrightarrow> \<exists>u. map_of a k = Some u \<and> same u v"
  by (simp add: refines_def)

lemma refines_wf: "refines same a b \<Longrightarrow> wf_map a \<Longrightarrow> wf_map b"
  by (simp add: refines_def)

lemma refines_refl: "(\<And>v. same v v) \<Longrightarrow> refines same a a"
  by (simp add: refines_def)

lemma refines_trans:
  assumes "refines same a b" "refines same b c" "\<And>u v w. same u v \<Longrightarrow> same v w \<Longrightarrow> same u w"
  shows "refines same a c"
proof (rule refinesI)
  show "wf_map a \<Longrightarrow> wf_map c" using assms(1,2) refines_wf by metis
  show "\<exists>u. map_of a k = Some u \<and> same u v" if "wf_map a" "map_of c k = Some v" for k v
    using that assms refines_wf [OF assms(1)] refinesD [OF assms(2)] refinesD [OF assms(1)] by metis
qed

lemma refines_delete: "(\<And>v. same v v) \<Longrightarrow> refines same a (AList.delete k a)"
  by (rule refinesI) (auto split: if_splits)

lemma refines_update:
  "(\<And>v. same v v) \<Longrightarrow> map_of a k = Some u \<Longrightarrow> same u v \<Longrightarrow> refines same a (AList.update k v a)"
  by (rule refinesI) (auto split: if_splits)

lemma refines_keep: "(\<And>v. same v v) \<Longrightarrow> refines same a (keep P a)"
  by (rule refinesI) (auto simp: map_of_keep split: option.splits if_splits)

lemma length_dom: "wf_map m \<Longrightarrow> length m = card (dom (map_of m))"
  using distinct_card [of "map fst m"] by (simp add: wf_map_def dom_map_of_conv_image_fst)

lemma refines_length:
  assumes "refines same a b" "wf_map a" shows "length b \<le> length a"
proof -
  have "dom (map_of b) \<subseteq> dom (map_of a)" using refinesD [OF assms] by blast
  then have "card (dom (map_of b)) \<le> card (dom (map_of a))"
    by (intro card_mono) (simp_all add: finite_dom_map_of)
  then show ?thesis using assms(2) refines_wf [OF assms] by (simp add: length_dom)
qed

lemma refines_empty: "refines same [] b \<Longrightarrow> b = []"
  using refines_length [of same "[]" b] by simp

lemma same_refl [simp]: "same_session s s" "same_job g g" "same_input a a"
  by (simp_all add: same_session_def same_job_def same_input_def)

text \<open>The counters and fences of the calls in flight, with the settings.\<close>

definition in_flight :: "manager \<Rightarrow> _" where
  "in_flight m = (mg_settings m, mg_hasExecutor m, mg_manifestWait m, mg_revokedViewers m,
     mg_pendingViewers m, mg_starting m, mg_pendingJobs m, mg_closed m)"

definition quiet :: "manager \<Rightarrow> manager \<Rightarrow> bool" where
  "quiet m m' \<longleftrightarrow> in_flight m' = in_flight m \<and>
     refines same_session (mg_sessions m) (mg_sessions m') \<and>
     refines same_job (mg_generations m) (mg_generations m') \<and>
     refines same_input (mg_inputs m) (mg_inputs m')"

lemma quietI:
  "in_flight m' = in_flight m \<Longrightarrow> refines same_session (mg_sessions m) (mg_sessions m') \<Longrightarrow>
   refines same_job (mg_generations m) (mg_generations m') \<Longrightarrow>
   refines same_input (mg_inputs m) (mg_inputs m') \<Longrightarrow> quiet m m'"
  by (simp add: quiet_def)

lemma same_trans:
  "same_session s t \<Longrightarrow> same_session t u \<Longrightarrow> same_session s u"
  "same_job g h \<Longrightarrow> same_job h k \<Longrightarrow> same_job g k"
  "same_input a b \<Longrightarrow> same_input b c \<Longrightarrow> same_input a c"
  by (simp_all add: same_session_def same_job_def same_input_def)

lemma quiet_refl [simp]: "quiet m m"
  by (simp add: quiet_def refines_refl)

lemma quiet_trans:
  assumes "quiet m n" "quiet n k" shows "quiet m k"
proof (rule quietI)
  show "in_flight k = in_flight m" using assms by (simp add: quiet_def)
  show "refines same_session (mg_sessions m) (mg_sessions k)"
    using assms same_trans(1) unfolding quiet_def by (metis refines_trans)
  show "refines same_job (mg_generations m) (mg_generations k)"
    using assms same_trans(2) unfolding quiet_def by (metis refines_trans)
  show "refines same_input (mg_inputs m) (mg_inputs k)"
    using assms same_trans(3) unfolding quiet_def by (metis refines_trans)
qed

interpretation quiet: frame_relation quiet
  by unfold_locales (simp, rule quiet_trans)

named_theorems quiet_intros \<open>operations that admit nothing\<close>

text \<open>Changes outside the three maps and the counters.\<close>

lemma quiet_same:
  "in_flight m' = in_flight m \<Longrightarrow> mg_sessions m' = mg_sessions m \<Longrightarrow>
   mg_generations m' = mg_generations m \<Longrightarrow> mg_inputs m' = mg_inputs m \<Longrightarrow> quiet m m'"
  by (simp add: quiet_def refines_refl)

section \<open>The operations\<close>

lemma refines_renew_tokens: "refines same_input inputs (renew_tokens ts e inputs)"
proof (induction ts e inputs rule: renew_tokens.induct)
  case (1 e inputs)
  then show ?case by (simp add: refines_refl)
next
  case (2 t ts e inputs)
  show ?case
  proof (cases "map_of inputs t")
    case None
    with 2 show ?thesis by simp
  next
    case (Some a)
    have "refines same_input inputs (AList.update t (a\<lparr>ia_expiresAt := e\<rparr>) inputs)"
      using Some by (intro refines_update) (simp_all add: same_input_def)
    moreover have "refines same_input (AList.update t (a\<lparr>ia_expiresAt := e\<rparr>) inputs)
        (renew_tokens ts e (AList.update t (a\<lparr>ia_expiresAt := e\<rparr>) inputs))"
      by (rule 2(2)) (rule Some)
    ultimately have "refines same_input inputs
        (renew_tokens ts e (AList.update t (a\<lparr>ia_expiresAt := e\<rparr>) inputs))"
      by (rule refines_trans) (rule same_trans)
    with Some show ?thesis by simp
  qed
qed

lemma quiet_renew_inputs [quiet_intros]: "quiet m (renew_inputs gen e m)"
  by (rule quietI)
    (simp_all add: renew_inputs_def in_flight_def refines_refl refines_renew_tokens)

lemma quiet_set_generation:
  assumes "map_of (mg_generations m) i = Some g" "same_job g h"
  shows "quiet m (m\<lparr>mg_generations := AList.update i h (mg_generations m)\<rparr>)"
  by (rule quietI) (use assms in \<open>simp_all add: in_flight_def refines_refl refines_update\<close>)

lemma quiet_set_session:
  assumes "map_of (mg_sessions m) i = Some s" "same_session s t"
  shows "quiet m (m\<lparr>mg_sessions := AList.update i t (mg_sessions m)\<rparr>)"
  by (rule quietI) (use assms in \<open>simp_all add: in_flight_def refines_refl refines_update\<close>)

lemma quiet_store_renewed:
  assumes "map_of (mg_sessions m) i = Some s" "same_session s t"
  shows "quiet m (store_renewed i t m)"
proof -
  let ?m = "m\<lparr>mg_sessions := AList.update i t (mg_sessions m)\<rparr>"
  have q: "quiet m ?m" by (rule quiet_set_session) fact+
  show ?thesis
  proof (cases "map_of (mg_generations m) (se_GenerationID t)")
    case None
    with q show ?thesis by (simp add: store_renewed_def Let_def)
  next
    case (Some g)
    let ?g = "g\<lparr>ge_leases := AList.update i (se_ExpiresAt t) (ge_leases g)\<rparr>"
    have "quiet ?m (?m\<lparr>mg_generations := AList.update (se_GenerationID t) ?g (mg_generations ?m)\<rparr>)"
      using Some by (intro quiet_set_generation) (simp_all add: same_job_def)
    with q have "quiet m (?m\<lparr>mg_generations := AList.update (se_GenerationID t) ?g (mg_generations ?m)\<rparr>)"
      by (rule quiet_trans)
    then show ?thesis
      using Some by (auto simp: store_renewed_def Let_def intro: quiet_trans quiet_renew_inputs)
  qed
qed

lemma quiet_cancel [quiet_intros]: "quiet m (cancel_subtitle_jobs i m)"
  by (rule quiet_same) (simp_all add: cancel_subtitle_jobs_def in_flight_def)

lemma quiet_drop_session [quiet_intros]: "quiet m (drop_session i m)"
proof -
  have "quiet m (m\<lparr>mg_sessions := AList.delete i (mg_sessions m)\<rparr>)"
    by (rule quietI) (simp_all add: in_flight_def refines_refl refines_delete)
  then show ?thesis unfolding drop_session_def by (rule quiet_trans) (rule quiet_cancel)
qed

lemma refines_delete_all: "(\<And>v. same v v) \<Longrightarrow> (\<And>u v w. same u v \<Longrightarrow> same v w \<Longrightarrow> same u w) \<Longrightarrow>
    refines same a (delete_all ks a)"
proof (induction ks arbitrary: a)
  case Nil
  then show ?case by (simp add: delete_all_def refines_refl)
next
  case (Cons k ks)
  have "refines same a (AList.delete k a)" by (rule refines_delete) (rule Cons.prems)
  moreover have "refines same (AList.delete k a) (delete_all ks (AList.delete k a))"
    by (rule Cons.IH) (use Cons.prems in blast)+
  ultimately have "refines same a (delete_all ks (AList.delete k a))"
    by (rule refines_trans) (use Cons.prems in blast)
  then show ?case by (simp add: delete_all_def)
qed

lemma refines_delete_inputs: "refines same_input a (delete_all ks a)"
  by (rule refines_delete_all) (simp, rule same_trans)

lemma quiet_detach [quiet_intros]: "quiet m (fst (detach_generation i m))"
proof (cases "map_of (mg_generations m) i")
  case None
  then show ?thesis by (simp add: detach_generation_def)
next
  case (Some g)
  let ?m = "m\<lparr>mg_generations := AList.delete i (mg_generations m),
             mg_replacements := AList.delete i (mg_replacements m),
             mg_inputs := delete_all (ge_inputs g) (mg_inputs m)\<rparr>"
  have "quiet m ?m"
    by (rule quietI)
      (simp_all add: in_flight_def refines_refl refines_delete refines_delete_inputs)
  moreover have "quiet ?m (fold drop_session (map fst (ge_leases g)) ?m)"
    by (rule quiet.rel_fold) (rule quiet_drop_session)
  ultimately show ?thesis using Some by (simp add: detach_generation_def) (rule quiet_trans)
qed

lemma quiet_drop_lease [quiet_intros]: "quiet m (drop_lease g i m)"
  by (auto simp: drop_lease_def same_job_def split: option.split intro: quiet_set_generation)

lemma quiet_stop_session [quiet_intros]: "quiet m (fst (stop_session i m))"
proof (cases "map_of (mg_sessions m) i")
  case None
  then show ?thesis by (simp add: stop_session_def)
next
  case (Some s)
  let ?g = "se_GenerationID s"
  have a: "quiet m (drop_session i m)" by (rule quiet_drop_session)
  then have b: "quiet m (drop_lease ?g i (drop_session i m))" by (rule quiet_trans) (rule quiet_drop_lease)
  then have "quiet m (fst (detach_generation ?g (drop_lease ?g i (drop_session i m))))"
    by (rule quiet_trans) (rule quiet_detach)
  with a b Some show ?thesis by (simp add: stop_session_def Let_def)
qed

lemma quiet_retire [quiet_intros]: "quiet m (retire g m)"
  by (cases g) (auto simp: retire_def in_flight_def intro: quiet_same)

lemma quiet_prune [quiet_intros]: "quiet m (prune_resolved t m)"
  by (rule quiet_same) (simp_all add: prune_resolved_def in_flight_def)

lemma quiet_link [quiet_intros]: "quiet m (link_preparing i j m)"
  by (rule quiet_same) (simp_all add: link_preparing_def in_flight_def)

lemma quiet_clear_preparing [quiet_intros]: "quiet m (clear_preparing i m)"
  by (rule quiet_same) (simp_all add: clear_preparing_def in_flight_def split: option.split)

lemma quiet_drop_handoff [quiet_intros]: "quiet m (drop_handoff i r m)"
  by (rule quiet_same) (simp_all add: drop_handoff_def in_flight_def Let_def)

lemma quiet_extend_survivor [quiet_intros]: "quiet m (extend_survivor i t m)"
  by (auto simp: extend_survivor_def same_session_def split: option.split intro: quiet_store_renewed)

lemma quiet_resolve_locked [quiet_intros]: "quiet m (fst (resolve_handoff_locked r a t m))"
proof -
  let ?k = "if a then ph_newID r else ph_oldID r" and ?s = "if a then ph_oldID r else ph_newID r"
  let ?m = "extend_survivor ?k t (drop_handoff (ph_id r) r m)"
  have q: "quiet m ?m" by (rule quiet_trans [OF quiet_drop_handoff quiet_extend_survivor])
  obtain n g where n: "stop_session ?s ?m = (n, g)" by (cases "stop_session ?s ?m")
  have "quiet m n" using quiet_trans [OF q quiet_stop_session [of ?m ?s]] n by simp
  moreover have "quiet n (prune_resolved t (n\<lparr>mg_resolvedHandoffs := x\<rparr>))" for x
    by (rule quiet_trans [OF quiet_same quiet_prune]) (simp_all add: in_flight_def)
  ultimately show ?thesis
    using n by (cases a) (auto simp: resolve_handoff_locked_def Let_def intro: quiet_trans)
qed

lemma quiet_resolve_handoff [quiet_intros]: "quiet m (fst (resolve_handoff i v p a t m))"
proof -
  let ?m = "prune_resolved t m"
  have q: "quiet m ?m" by (rule quiet_prune)
  show ?thesis
  proof (cases "map_of (mg_handoffs ?m) i")
    case None
    with q show ?thesis by (simp add: resolve_handoff_def Let_def)
  next
    case (Some r)
    let ?r = "resolve_handoff_locked r (a \<and> \<not> \<not> t < ph_expiresAt r) t ?m"
    obtain n g where n: "?r = (n, g)" by (cases ?r)
    have "quiet m (retire g n)"
      using quiet_trans [OF quiet_trans [OF q quiet_resolve_locked] quiet_retire] n by (metis fst_conv)
    with q Some n show ?thesis by (simp add: resolve_handoff_def Let_def)
  qed
qed

lemma quiet_expire [quiet_intros]: "quiet m (expire_handoff i t m)"
proof (cases "session_handoff m i")
  case None
  then show ?thesis by (simp add: expire_handoff_def)
next
  case (Some r)
  obtain n g where n: "resolve_handoff_locked r False t m = (n, g)"
    by (cases "resolve_handoff_locked r False t m")
  have "quiet m (retire g n)"
    using quiet_trans [OF quiet_resolve_locked quiet_retire] n by (metis fst_conv)
  with Some n show ?thesis by (simp add: expire_handoff_def)
qed

lemma quiet_stop_all [quiet_intros]: "quiet m (stop_all is m)"
proof (induction "is" arbitrary: m)
  case Nil
  then show ?case by simp
next
  case (Cons i "is")
  obtain n g where n: "stop_session i m = (n, g)" by (cases "stop_session i m")
  have "quiet m (retire g n)"
    using quiet_trans [OF quiet_stop_session quiet_retire] n by (metis fst_conv)
  then have "quiet m (stop_all is (retire g n))" by (rule quiet_trans) (rule Cons.IH)
  with n show ?case by simp
qed

lemma quiet_stop_for_viewer [quiet_intros]: "quiet m (fst (stop_for_viewer i v p t m))"
proof -
  let ?m = "prune_resolved t m"
  have q: "quiet m ?m" by (rule quiet_prune)
  have a: "quiet m (stop_all is ?m)" for "is" using q by (rule quiet_trans) (rule quiet_stop_all)
  have b: "quiet m (stop_all is (drop_handoff h r ?m))" for "is" h r
    using quiet_trans [OF q quiet_drop_handoff] by (rule quiet_trans) (rule quiet_stop_all)
  show ?thesis
    unfolding stop_for_viewer_def Let_def
    using q a b by (auto split: option.split simp del: stop_all.simps)
qed

lemma quiet_stop_and_retire [quiet_intros]:
  "quiet m (case stop_session i m of (n, g) \<Rightarrow> retire g n)"
  using quiet_trans [OF quiet_stop_session quiet_retire] by (simp add: case_prod_unfold)

lemma quiet_stop_catalog [quiet_intros]: "quiet m (stop_catalog_ids cs m)"
  unfolding stop_catalog_ids_def
  by (rule quiet.rel_fold) (simp add: quiet_stop_and_retire split: option.split)

lemma quiet_mark_owner [quiet_intros]: "quiet m (mark_owner_stopped i r m)"
  by (rule quiet_same) (simp_all add: mark_owner_stopped_def in_flight_def split: option.split)

lemma quiet_fields [quiet_intros]:
  "quiet m (m\<lparr>mg_preparingHandoffs := x\<rparr>)" "quiet m (m\<lparr>mg_replacements := y\<rparr>)"
  "quiet m (m\<lparr>mg_resolvedHandoffs := z\<rparr>)" "quiet m (m\<lparr>mg_subtitleJobs := u\<rparr>)"
  "quiet m (m\<lparr>mg_retired := v\<rparr>)"
  by (rule quiet_same; simp add: in_flight_def)+

lemma quiet_release_credit [quiet_intros]: "quiet m (release_credit_of i j m)"
  unfolding release_credit_of_def by (simp add: quiet_fields split: option.split)

lemma quiet_stop_owner_preparation [quiet_intros]: "quiet m (stop_owner_preparation i t m)"
proof (cases "preparation m i")
  case None
  then show ?thesis by (simp add: stop_owner_preparation_def quiet_fields)
next
  case (Some r)
  have "quiet m (extend_survivor k t (release_credit_of x y
      ((mark_owner_stopped i r m)\<lparr>mg_preparingHandoffs := z\<rparr>)))" for k x y z
    by (rule quiet_trans [OF quiet_trans [OF quiet_trans [OF quiet_mark_owner quiet_fields(1)]
      quiet_release_credit] quiet_extend_survivor])
  then show ?thesis
    using Some unfolding stop_owner_preparation_def Let_def by simp
qed

lemma quiet_stop_owner_handoff [quiet_intros]: "quiet m (stop_owner_handoff i t m)"
  unfolding stop_owner_handoff_def Let_def
  by (auto split: option.split intro: quiet_trans [OF quiet_drop_handoff quiet_extend_survivor])

lemma quiet_stop_owner [quiet_intros]: "quiet m (fst (stop_owner_session h t m))"
proof -
  let ?i = "owned_session h t m"
  let ?m = "stop_owner_handoff ?i t (stop_owner_preparation ?i t m)"
  have "quiet m ?m" by (rule quiet_trans [OF quiet_stop_owner_preparation quiet_stop_owner_handoff])
  then have "quiet m (?m\<lparr>mg_resolvedHandoffs := x\<rparr>)" for x by (rule quiet_trans) (rule quiet_fields)
  then have "quiet m (case stop_session ?i (?m\<lparr>mg_resolvedHandoffs := x\<rparr>) of (n, g) \<Rightarrow> retire g n)" for x
    by (rule quiet_trans) (rule quiet_stop_and_retire)
  then show ?thesis
    unfolding stop_owner_session_def Let_def by (simp add: case_prod_unfold)
qed

lemma quiet_lookup [quiet_intros]: "quiet m (fst (lookup_for_viewer i v p touch t1 t2 m))"
proof -
  let ?m = "expire_handoff i t1 m"
  have q: "quiet m ?m" by (rule quiet_expire)
  then have a: "quiet m (fst (stop_for_viewer i v p t2 ?m))" by (rule quiet_trans) (rule quiet_stop_for_viewer)
  have b: "quiet m (store_renewed i (s\<lparr>se_ExpiresAt := e\<rparr>) ?m)" if "map_of (mg_sessions ?m) i = Some s" for s e
    using q by (rule quiet_trans) (rule quiet_store_renewed [OF that], simp add: same_session_def)
  from q a b show ?thesis
    unfolding lookup_for_viewer_def Let_def by (auto split: option.split)
qed

lemma quiet_lookup_stop [quiet_intros]: "quiet m (fst (lookup_stop_for_viewer i v p t m))"
  unfolding lookup_stop_for_viewer_def Let_def
  by (simp add: quiet_trans [OF quiet_expire quiet_prune])

lemma quiet_select [quiet_intros]: "quiet m (fst (select_subtitle c i v p n x sel t m))"
  unfolding select_subtitle_def Let_def
  by (auto split: option.split intro!: quiet_set_session simp: same_session_def)

lemma quiet_subtitle_context [quiet_intros]: "quiet m (fst (subtitle_context tok i v p t m))"
  unfolding subtitle_context_def by (auto split: option.split intro: quiet_fields)

lemma quiet_release_subtitle [quiet_intros]: "quiet m (release_subtitle i j m)"
  by (rule quiet_same) (simp_all add: release_subtitle_def in_flight_def Let_def)

lemma quiet_heartbeat [quiet_intros]: "quiet m (fst (heartbeat_for_viewer i v p pos t1 t2 t3 m))"
proof -
  let ?m = "expire_handoff i t1 m"
  have q: "quiet m ?m" by (rule quiet_expire)
  have b: "quiet m (store_renewed i s' ?m)"
    if "map_of (mg_sessions ?m) i = Some s" "same_session s s'" for s s'
    using q by (rule quiet_trans) (rule quiet_store_renewed [OF that])
  from q show ?thesis
    unfolding heartbeat_for_viewer_def Let_def
    by (auto split: option.split intro!: b simp: same_session_def)
qed

lemma quiet_delete_input: "quiet m (m\<lparr>mg_inputs := AList.delete k (mg_inputs m)\<rparr>)"
  by (rule quietI) (simp_all add: in_flight_def refines_refl refines_delete)

lemma quiet_keep_inputs: "quiet m (m\<lparr>mg_inputs := keep P (mg_inputs m)\<rparr>)"
  by (rule quietI) (simp_all add: in_flight_def refines_refl refines_keep)

lemma quiet_input_file [quiet_intros]: "quiet m (fst (input_file k t m))"
  unfolding input_file_def by (auto split: option.split intro: quiet_delete_input)

lemma quiet_process_exit [quiet_intros]: "quiet m (process_exit i r m)"
  unfolding process_exit_def
  by (auto split: option.split intro!: quiet_set_generation simp: same_job_def)

section \<open>The sweep\<close>

lemma quiet_sweep_handoffs: "quiet m (fst (sweep_handoffs t m))"
  unfolding sweep_handoffs_def
proof (rule quiet.rel_fold_pair)
  fix i m and gens :: "nat list"
  show "quiet m (fst (case (m, gens) of (m, gens) \<Rightarrow> (case map_of (mg_handoffs m) i of
            None \<Rightarrow> (m, gens)
          | Some r \<Rightarrow>
              if t < ph_expiresAt r then (m, gens)
              else (case resolve_handoff_locked r False t m of
                  (m, None) \<Rightarrow> (m, gens) | (m, Some g) \<Rightarrow> (m, gens @ [ge_ref g])))))"
  proof (cases "map_of (mg_handoffs m) i")
    case None
    then show ?thesis by simp
  next
    case (Some r)
    then show ?thesis
      using quiet_resolve_locked [of m r False t] by (auto split: prod.split option.split)
  qed
qed

lemma quiet_sweep_sessions: "quiet m (sweep_sessions t m)"
  unfolding sweep_sessions_def
  by (rule quiet.rel_fold)
    (simp add: quiet_trans [OF quiet_drop_session quiet_drop_lease] split: option.split)

lemma quiet_sweep_begin [quiet_intros]: "quiet m (fst (sweep_begin t m))"
proof -
  obtain n gens where n: "sweep_handoffs t (prune_resolved t m) = (n, gens)"
    by (cases "sweep_handoffs t (prune_resolved t m)")
  have "quiet m n"
    using quiet_trans [OF quiet_prune quiet_sweep_handoffs, of m t t] n by simp
  then have "quiet m (sweep_sessions t n)" by (rule quiet_trans) (rule quiet_sweep_sessions)
  then have "quiet m ((sweep_sessions t n)\<lparr>mg_inputs := keep P (mg_inputs (sweep_sessions t n))\<rparr>)" for P
    by (rule quiet_trans) (rule quiet_keep_inputs)
  then show ?thesis unfolding sweep_begin_def Let_def n by simp
qed

lemma same_but_media_same_job: "same_but_media g h \<Longrightarrow> same_job g h"
  unfolding same_but_media_def same_job_def by (elim exE) simp

lemma quiet_sweep_one [quiet_intros]: "quiet m (fst (sweep_one b i ref x m))"
proof (cases "map_of (mg_generations m) i")
  case None
  then show ?thesis by (simp add: sweep_one_def)
next
  case (Some gen)
  obtain sequence durations ok bytes where x: "x = ((sequence, durations, ok), bytes)" by (metis prod.collapse)
  let ?g = "if ok then fst (apply_retained_range gen sequence durations) else gen"
  let ?m = "m\<lparr>mg_generations := AList.update i ?g (mg_generations m)\<rparr>"
  have q: "quiet m ?m"
    by (rule quiet_set_generation [OF Some])
      (simp add: same_but_media_same_job apply_retained_media)
  then have d: "quiet m (fst (detach_generation i ?m))" by (rule quiet_trans) (rule quiet_detach)
  have "sweep_one b i ref x m =
      (if ge_ref gen \<noteq> ref then (m, False)
       else if ge_leases ?g = [] \<or> (case bytes of None \<Rightarrow> True | Some v \<Rightarrow> v > b)
       then (fst (detach_generation i ?m), True) else (?m, False))"
    unfolding sweep_one_def x by (simp only: Some option.case prod.case Let_def)
  with q d show ?thesis by simp
qed

lemma quiet_sweep_measured [quiet_intros]: "quiet m (fst (sweep_measured b xs m))"
proof (induction b xs m rule: sweep_measured.induct)
  case (1 b m)
  then show ?case by simp
next
  case (2 b i ref x rest m)
  obtain n g where n: "sweep_one b i ref x m = (n, g)" by (cases "sweep_one b i ref x m")
  have "quiet m n" using quiet_sweep_one [of m b i ref x] n by simp
  moreover have "quiet n (fst (sweep_measured b rest n))" using 2 n by simp
  ultimately have "quiet m (fst (sweep_measured b rest n))" by (rule quiet_trans)
  with n show ?case by (simp add: case_prod_unfold Let_def)
qed

lemma quiet_sweep_finish [quiet_intros]: "quiet m (sweep_finish b xs gens m)"
proof -
  obtain n more where n: "sweep_measured b xs m = (n, more)" by (cases "sweep_measured b xs m")
  have "quiet m (n\<lparr>mg_retired := v\<rparr>)" for v
    using quiet_trans [OF quiet_sweep_measured quiet_fields(5)] n by (metis fst_conv)
  with n show ?thesis by (simp add: sweep_finish_def)
qed

end
