(* ===== verification/PlaybackSafety.thy ===== *)
theory PlaybackSafety
  imports ManagerFrame
begin

text \<open>
  Safety of the playback manager over every interleaving of its calls: capacity, shutdown and the
  fence of a revoked viewer.
\<close>

section \<open>What the callers of create leave alone\<close>

lemma quiet_set_both:
  assumes "map_of (mg_sessions m) i = Some s" "same_session s t"
    and "map_of (mg_generations m) g = Some gen" "same_job gen h"
  shows "quiet m (m\<lparr>mg_sessions := AList.update i t (mg_sessions m),
      mg_generations := AList.update g h (mg_generations m)\<rparr>)"
proof -
  let ?m = "m\<lparr>mg_sessions := AList.update i t (mg_sessions m)\<rparr>"
  have "quiet m ?m" by (rule quiet_set_session) fact+
  moreover have "quiet ?m (?m\<lparr>mg_generations := AList.update g h (mg_generations ?m)\<rparr>)"
    by (rule quiet_set_generation) (use assms in simp_all)
  ultimately show ?thesis using quiet_trans by fastforce
qed

text \<open>What beginning a call leaves: quiet, whether it returned at once or entered create.\<close>

definition begun :: "(manager \<times> call_result + manager \<times> create_call \<times> caller) \<Rightarrow> manager" where
  "begun b = (case b of Inl (m, _) \<Rightarrow> m | Inr (m, _, _) \<Rightarrow> m)"

lemma same_job_retained: "same_job g (fst (retained_range x g))"
  by (rule same_but_media_same_job) (rule retained_range_media)

lemma same_job_leases: "same_job g (g\<lparr>ge_leases := l\<rparr>)"
  by (simp add: same_job_def)

lemma same_session_lease: "same_session s (s\<lparr>se_PositionMS := p, se_ExpiresAt := e\<rparr>)"
  by (simp add: same_session_def)

lemma quiet_seek_begin: "quiet m (begun (seek_begin ch i v p pos m))"
proof (cases "map_of (mg_sessions m) i")
  case None
  then show ?thesis by (simp add: seek_begin_def begun_def)
next
  case (Some s)
  let ?g = "se_GenerationID s"
  show ?thesis
  proof (cases "map_of (mg_generations m) ?g")
    case None
    with Some show ?thesis by (simp add: seek_begin_def begun_def Let_def)
  next
    case gen: (Some gen)
    obtain h range where h: "retained_range (ch_playlists ch ?g) gen = (h, range)"
      by (cases "retained_range (ch_playlists ch ?g) gen")
    then have gh: "same_job gen h" using same_job_retained [of gen "ch_playlists ch ?g"] by simp
    let ?m = "m\<lparr>mg_generations := AList.update ?g h (mg_generations m)\<rparr>"
    have q: "quiet m ?m" by (rule quiet_set_generation [OF gen gh])
    have "quiet ?m (?m\<lparr>mg_sessions := AList.update i (s\<lparr>se_PositionMS := a, se_ExpiresAt := b\<rparr>) (mg_sessions ?m),
        mg_generations := AList.update ?g (h\<lparr>ge_leases := l\<rparr>) (mg_generations ?m)\<rparr>)" for a b l
      by (rule quiet_set_both [where s = s and gen = h])
        (simp_all add: Some same_session_lease same_job_leases)
    from quiet_trans [OF q this]
    have r: "quiet m (m\<lparr>mg_sessions := AList.update i (s\<lparr>se_PositionMS := a, se_ExpiresAt := b\<rparr>) (mg_sessions m),
        mg_generations := AList.update ?g (h\<lparr>ge_leases := l\<rparr>) (AList.update ?g h (mg_generations m))\<rparr>)"
      for a b l by simp
    from q r show ?thesis
      unfolding seek_begin_def begun_def Let_def Some option.case gen h prod.case
      by (simp add: gen)
  qed
qed

lemma quiet_reserve_predecessor:
  assumes "map_of (mg_sessions m) i = Some old"
  shows "quiet m (fst (reserve_predecessor ch i old p pos retain m))"
proof -
  have "quiet m (store_renewed i (old\<lparr>se_ExpiresAt := e\<rparr>) m)" for e
    by (rule quiet_store_renewed [OF assms]) (simp add: same_session_def)
  then have "quiet m ((store_renewed i (old\<lparr>se_ExpiresAt := e\<rparr>) m)\<lparr>mg_preparingHandoffs := x\<rparr>)" for e x
    by (rule quiet_trans) (rule quiet_fields)
  then show ?thesis unfolding reserve_predecessor_def Let_def by (simp add: quiet_fields)
qed

lemma quiet_prepare_begin: "quiet m (begun (prepare_begin ch i p pl pos m))"
  unfolding prepare_begin_def begun_def Let_def
  using quiet_reserve_predecessor [of m i]
  by (simp split: option.split) (simp add: case_prod_unfold)

lemma quiet_replace_begin: "quiet m (begun (replace_begin ch i p pl pos m))"
  unfolding replace_begin_def begun_def Let_def
  using quiet_reserve_predecessor [of m i]
  by (simp split: option.split) (simp add: case_prod_unfold)

lemma quiet_seek_finish: "quiet m (fst (seek_finish ch l s m))"
proof -
  have "quiet m (clear_preparing i m)" for i by (rule quiet_clear_preparing)
  moreover from this have "quiet m (case stop_session j (clear_preparing i m) of (n, g) \<Rightarrow> retire g n)" for i j
    by (rule quiet_trans) (rule quiet_stop_and_retire)
  ultimately show ?thesis
    unfolding seek_finish_def Let_def by (simp add: case_prod_unfold)
qed

lemma quiet_replace_finish: "quiet m (fst (replace_finish ch l s m))"
proof -
  have a: "quiet m (clear_preparing i m)" for i by (rule quiet_clear_preparing)
  have "quiet m (clear_preparing i (m\<lparr>mg_preparingHandoffs := x\<rparr>))" for i x
    by (rule quiet_trans [OF quiet_fields(1) quiet_clear_preparing])
  then have "quiet m (case stop_session j (clear_preparing i (m\<lparr>mg_preparingHandoffs := x\<rparr>)) of (n, g) \<Rightarrow> retire g n)"
    for i j x by (rule quiet_trans) (rule quiet_stop_and_retire)
  with a show ?thesis
    unfolding replace_finish_def Let_def by (simp add: case_prod_unfold)
qed

lemma store_renewed_sessions: "mg_sessions (store_renewed i s m) = AList.update i s (mg_sessions m)"
  by (simp add: store_renewed_def Let_def renew_inputs_def split: option.split)

lemma quiet_prepare_finish: "quiet m (fst (prepare_finish ch l s m))"
proof -
  let ?i = "pp_sid l" and ?r = "se_ID s"
  have a: "quiet m (clear_preparing j (m\<lparr>mg_preparingHandoffs := x\<rparr>)\<lparr>mg_resolvedHandoffs := y\<rparr>)" for j x y
    by (rule quiet_trans [OF quiet_trans [OF quiet_fields(1) quiet_clear_preparing] quiet_fields(3)])
  have b: "quiet m (clear_preparing ?r
      (store_renewed ?r (d\<lparr>se_ExpiresAt := e\<rparr>) (store_renewed ?i (c\<lparr>se_ExpiresAt := e\<rparr>) m)
        \<lparr>mg_handoffs := x, mg_sessionHandoffs := y\<rparr>))"
    if c: "map_of (mg_sessions m) ?i = Some c" and d: "map_of (mg_sessions m) ?r = Some d" for c d e x y
  proof -
    let ?m = "store_renewed ?i (c\<lparr>se_ExpiresAt := e\<rparr>) m"
    have q: "quiet m ?m" by (rule quiet_store_renewed [OF c]) (simp add: same_session_def)
    have "\<exists>d'. map_of (mg_sessions ?m) ?r = Some d' \<and> same_session d' (d\<lparr>se_ExpiresAt := e\<rparr>)"
      using c d by (cases "?r = ?i") (simp_all add: store_renewed_sessions same_session_def)
    then obtain d' where "map_of (mg_sessions ?m) ?r = Some d'" "same_session d' (d\<lparr>se_ExpiresAt := e\<rparr>)"
      by blast
    then have "quiet m (store_renewed ?r (d\<lparr>se_ExpiresAt := e\<rparr>) ?m)"
      by (rule quiet_trans [OF q quiet_store_renewed])
    moreover have "quiet n (n\<lparr>mg_handoffs := x, mg_sessionHandoffs := y\<rparr>)" for n
      by (rule quiet_same) (simp_all add: in_flight_def)
    ultimately show ?thesis by (rule quiet_trans [OF quiet_trans quiet_clear_preparing])
  qed
  show ?thesis
    unfolding prepare_finish_def Let_def
    using a b by (auto simp: old_valid_def candidate_valid_def split: option.splits)
qed

lemma quiet_prepare_deferred: "quiet m (prepare_deferred ch l r a m)"
proof -
  let ?m = "m\<lparr>mg_preparingHandoffs := AList.delete (pp_sid l) (mg_preparingHandoffs m)\<rparr>"
  let ?n = "if r \<noteq> '''' then clear_preparing r ?m else ?m"
  have q: "quiet m ?n" using quiet_trans [OF quiet_fields(1) quiet_clear_preparing] quiet_fields(1) by simp
  then have "quiet m (extend_survivor i t (?n\<lparr>mg_replacements := x\<rparr>))"
    and "quiet m (extend_survivor i t ?n)" for i t x
    by (rule quiet_trans [OF quiet_trans [OF _ quiet_fields(2)] quiet_extend_survivor])
      (rule quiet_trans [OF q quiet_extend_survivor])
  with q show ?thesis unfolding prepare_deferred_def Let_def by simp
qed

lemma quiet_replace_deferred: "quiet m (replace_deferred ch l a m)"
proof -
  have q: "quiet m (clear_preparing i (m\<lparr>mg_preparingHandoffs := x\<rparr>))" for i x
    by (rule quiet_trans [OF quiet_fields(1) quiet_clear_preparing])
  then have "quiet m (extend_survivor j t (clear_preparing i (m\<lparr>mg_preparingHandoffs := x\<rparr>)))" for i j t x
    by (rule quiet_trans) (rule quiet_extend_survivor)
  with q show ?thesis unfolding replace_deferred_def Let_def by simp
qed

lemma quiet_deferred: "quiet m (deferred ch c r k m)"
  by (cases c) (simp_all add: deferred_def quiet_prepare_deferred quiet_replace_deferred)

lemma quiet_decide: "quiet m (fst (decide ch c s m))"
  using quiet_seek_finish [of m ch] quiet_prepare_finish [of m ch] quiet_replace_finish [of m ch]
  by (cases c) (simp_all add: decide_def case_prod_unfold Let_def)

text \<open>Every step of a thread is quiet, but those inside create and the change of the settings.\<close>

lemma quiet_advance:
  assumes "\<And>c pc f. th \<noteq> Creating c pc f" and "\<And>s. th \<noteq> SavingSettings s"
  shows "quiet m (fst (advance ch th m))"
proof (cases th)
  case (StoppingViewer v owned)
  then show ?thesis by (cases owned) (auto simp: quiet_stop_for_viewer)
qed (use assms in \<open>simp_all add: quiet_decide quiet_stop_for_viewer quiet_deferred\<close>)

text \<open>Every call is quiet in its first critical section, but create, StopViewer and Shutdown.\<close>

fun loud :: "event \<Rightarrow> bool" where
  "loud (CallCreate ctx c) = True"
| "loud (CallSeek ch i v p pos) = True"
| "loud (CallPrepare ch i p pl pos) = True"
| "loud (CallReplace ch i p pl pos) = True"
| "loud (CallStopViewer v) = True"
| "loud Shutdown = True"
| "loud _ = False"

lemma quiet_call: "\<not> loud e \<Longrightarrow> quiet m (fst (call e m))"
proof (cases e)
  case (CallUpdateSettings s)
  then show ?thesis by (simp split: sum.split bool.split)
next
  case (CallSweep t)
  then show ?thesis using quiet_sweep_begin [of m t] by (simp add: case_prod_unfold Let_def)
qed (simp_all add: quiet_intros)

section \<open>Counting threads\<close>

definition tally :: "('v \<Rightarrow> bool) \<Rightarrow> ('k, 'v) gomap \<Rightarrow> nat" where
  "tally P m = length (filter (\<lambda>(_, v). P v) m)"

definition one_if :: "bool \<Rightarrow> nat" where
  "one_if b = (if b then 1 else 0)"

lemma one_if_simps [simp]: "one_if True = 1" "one_if False = 0"
  by (simp_all add: one_if_def)

lemma tally_Nil [simp]: "tally P [] = 0"
  by (simp add: tally_def)

lemma tally_update_new: "map_of m k = None \<Longrightarrow> tally P (AList.update k v m) = tally P m + one_if (P v)"
  by (induction m) (auto simp: tally_def)

lemma tally_update_old:
  "wf_map m \<Longrightarrow> map_of m k = Some u \<Longrightarrow>
   tally P (AList.update k v m) + one_if (P u) = tally P m + one_if (P v)"
proof (induction m)
  case Nil
  then show ?case by simp
next
  case (Cons e m)
  obtain k' v' where e: "e = (k', v')" by (cases e)
  with Cons show ?case by (cases "k' = k") (auto simp: tally_def wf_map_def one_if_def)
qed

lemma tally_delete_old:
  "wf_map m \<Longrightarrow> map_of m k = Some u \<Longrightarrow> tally P (AList.delete k m) + one_if (P u) = tally P m"
proof (induction m)
  case Nil
  then show ?case by simp
next
  case (Cons e m)
  obtain k' v' where e: "e = (k', v')" by (cases e)
  show ?case
  proof (cases "k' = k")
    case True
    with Cons.prems e have "map_of m k = None" by (auto simp: wf_map_def map_of_eq_None_iff)
    with True e Cons.prems show ?thesis by (auto simp: tally_def one_if_def delete_absent)
  next
    case False
    with Cons e show ?thesis by (auto simp: tally_def wf_map_def one_if_def)
  qed
qed

lemma tally_pos: "map_of m k = Some v \<Longrightarrow> P v \<Longrightarrow> 0 < tally P m"
  by (induction m) (auto simp: tally_def split: if_splits)

lemma tally_two:
  assumes "wf_map m" "map_of m k = Some u" "P u" "map_of m l = Some v" "P v" "k \<noteq> l"
  shows "2 \<le> tally P m"
proof -
  have "map_of (AList.delete k m) l = Some v" using assms(4,6) by simp
  then have "0 < tally P (AList.delete k m)" using assms(5) by (rule tally_pos)
  then show ?thesis using tally_delete_old [OF assms(1,2), of P] assms(3) by simp
qed

section \<open>The steps of create\<close>

text \<open>What create changes in one step, told apart by whether it holds a reservation.\<close>

fun reserved :: "create_pc \<Rightarrow> bool" where
  "reserved AtReserved = True"
| "reserved AtInputs = True"
| "reserved (AtRevoke e) = True"
| "reserved (AtRelease e) = True"
| "reserved _ = False"

text \<open>The invariant of the manager itself.\<close>

definition manager_ok :: "manager \<Rightarrow> bool" where
  "manager_ok m \<longleftrightarrow> wf_map (mg_sessions m) \<and> wf_map (mg_generations m) \<and> wf_map (mg_inputs m) \<and>
     (\<forall>i s. map_of (mg_sessions m) i = Some s \<longrightarrow> se_ID s = i) \<and>
     (\<forall>i g. map_of (mg_generations m) i = Some g \<longrightarrow> ge_id g = i) \<and>
     (mg_closed m \<longrightarrow> mg_sessions m = [] \<and> mg_generations m = [] \<and> mg_inputs m = [])"

lemma manager_ok_quiet:
  assumes "quiet m n" "manager_ok m" shows "manager_ok n"
proof -
  have r: "refines same_session (mg_sessions m) (mg_sessions n)"
    "refines same_job (mg_generations m) (mg_generations n)"
    "refines same_input (mg_inputs m) (mg_inputs n)" and c: "mg_closed n = mg_closed m"
    using assms(1) by (simp_all add: quiet_def in_flight_def)
  have wf: "wf_map (mg_sessions m)" "wf_map (mg_generations m)" "wf_map (mg_inputs m)"
    using assms(2) by (simp_all add: manager_ok_def)
  have "se_ID s = i" if "map_of (mg_sessions n) i = Some s" for i s
    using refinesD [OF r(1) wf(1) that] assms(2) by (auto simp: manager_ok_def same_session_def)
  moreover have "ge_id g = i" if "map_of (mg_generations n) i = Some g" for i g
    using refinesD [OF r(2) wf(2) that] assms(2) by (auto simp: manager_ok_def same_job_def)
  moreover have "mg_sessions n = [] \<and> mg_generations n = [] \<and> mg_inputs n = []" if "mg_closed n"
    using that r assms(2) by (auto simp: manager_ok_def c dest: refines_empty)
  ultimately show ?thesis
    using refines_wf [OF r(1) wf(1)] refines_wf [OF r(2) wf(2)] refines_wf [OF r(3) wf(3)]
    by (simp add: manager_ok_def)
qed

text \<open>
  One step of create: the viewer's counters and the settings stay, the reservation counter follows
  the program counter, generations and reservations together grow only below the limit, and the
  invariant of the manager is kept.
\<close>

definition fences :: "manager \<Rightarrow> _" where
  "fences m = (mg_settings m, mg_revokedViewers m, mg_pendingViewers m, mg_closed m)"

definition load :: "manager \<Rightarrow> int" where
  "load m = int (length (mg_generations m)) + mg_starting m"

definition create_keeps :: "create_pc \<Rightarrow> create_frame \<Rightarrow> manager \<Rightarrow> create_pc \<times> create_frame \<times> manager \<Rightarrow> bool" where
  "create_keeps pc f m r \<longleftrightarrow>
    (case r of (pc', f', m') \<Rightarrow>
      fences m' = fences m \<and> cr_viewerID (cf_call f') = cr_viewerID (cf_call f) \<and>
      mg_starting m' + int (one_if (reserved pc)) = mg_starting m + int (one_if (reserved pc')) \<and>
      (load m' \<le> load m \<or> load m' \<le> st_MaxGenerations (mg_settings m) + 1) \<and> manager_ok m')"

lemma create_keeps_quiet:
  assumes "quiet m m'" "manager_ok m" "reserved pc' = reserved pc"
    "cr_viewerID (cf_call f') = cr_viewerID (cf_call f)"
  shows "create_keeps pc f m (pc', f', m')"
proof -
  have "length (mg_generations m') \<le> length (mg_generations m)"
    using assms(1,2) by (intro refines_length [of same_job]) (simp_all add: quiet_def manager_ok_def)
  moreover have "manager_ok m'" using assms(1,2) by (rule manager_ok_quiet)
  moreover have "fences m' = fences m" "mg_starting m' = mg_starting m"
    using assms(1) by (simp_all add: quiet_def in_flight_def fences_def)
  ultimately show ?thesis using assms(3,4) by (simp add: create_keeps_def load_def)
qed

lemma quiet_drop_credit: "quiet m (drop_credit f m)"
  unfolding drop_credit_def Let_def by (simp add: quiet_fields)

lemma manager_ok_irrelevant:
  "manager_ok m \<Longrightarrow> mg_sessions n = mg_sessions m \<Longrightarrow> mg_generations n = mg_generations m \<Longrightarrow>
   mg_inputs n = mg_inputs m \<Longrightarrow> mg_closed n = mg_closed m \<Longrightarrow> manager_ok n"
  by (simp add: manager_ok_def)

lemma link_fields [simp]:
  "mg_sessions (link_preparing i j m) = mg_sessions m"
  "mg_generations (link_preparing i j m) = mg_generations m"
  "mg_inputs (link_preparing i j m) = mg_inputs m"
  "mg_closed (link_preparing i j m) = mg_closed m"
  "mg_starting (link_preparing i j m) = mg_starting m"
  "fences (link_preparing i j m) = fences m"
  by (simp_all add: link_preparing_def fences_def)

lemma drop_credit_fields [simp]:
  "mg_sessions (drop_credit f m) = mg_sessions m"
  "mg_generations (drop_credit f m) = mg_generations m"
  "mg_inputs (drop_credit f m) = mg_inputs m"
  "mg_closed (drop_credit f m) = mg_closed m"
  "mg_starting (drop_credit f m) = mg_starting m"
  "fences (drop_credit f m) = fences m"
  "mg_settings (drop_credit f m) = mg_settings m"
  "mg_revokedViewers (drop_credit f m) = mg_revokedViewers m"
  "mg_pendingViewers (drop_credit f m) = mg_pendingViewers m"
  by (simp_all add: drop_credit_def fences_def Let_def)

lemma frame_session_ID [simp]: "se_ID (frame_session f a b c) = cf_sessionID f"
  by (simp add: frame_session_def Let_def)

lemma manager_ok_add_session:
  assumes "manager_ok m" "\<not> mg_closed m" "se_ID s = i"
  shows "manager_ok (m\<lparr>mg_sessions := AList.update i s (mg_sessions m)\<rparr>)"
  using assms by (auto simp: manager_ok_def)

lemma admit_direct_keeps:
  assumes "manager_ok m"
  shows "create_keeps AtAdmit f m (admit_direct f m)"
proof -
  let ?s = "frame_session f 0 '''' (cf_now f + directSessionTTL)"
  have "manager_ok (link_preparing x (se_ID ?s) (m\<lparr>mg_sessions := AList.update (se_ID ?s) ?s (mg_sessions m)\<rparr>))"
    if "\<not> mg_closed m" for x
    using manager_ok_add_session [OF assms that, of ?s]
    by (rule manager_ok_irrelevant) simp_all
  with assms show ?thesis
    unfolding admit_direct_def Let_def create_keeps_def
    by (auto simp: load_def) (simp add: fences_def link_preparing_def)
qed

lemma shareable_loop_keeps:
  assumes "shareable_loop ps k pos gens = (gens', found)"
  shows "map fst gens' = map fst gens \<and>
    (\<forall>i g'. map_of gens' i = Some g' \<longrightarrow> (\<exists>g. map_of gens i = Some g \<and> same_job g g')) \<and>
    (\<forall>i. found = Some i \<longrightarrow> map_of gens' i \<noteq> None)"
  using assms
proof (induction gens arbitrary: gens' found)
  case Nil
  then show ?case by simp
next
  case (Cons e gens)
  obtain i g where e: "e = (i, g)" by (cases e)
  obtain h range where h: "retained_range (ps i) g = (h, range)" by (cases "retained_range (ps i) g")
  then have j: "same_job g h" using same_job_retained [of g "ps i"] by simp
  obtain gens'' found' where r: "shareable_loop ps k pos gens = (gens'', found')"
    by (cases "shareable_loop ps k pos gens")
  from Cons.prems h r e have "gens' = (i, h) # gens \<and> found = Some i \<or> gens' = (i, h) # gens'' \<and> found = found'"
    by (auto simp: Let_def split: if_splits)
  then show ?case
    using Cons.IH [OF r] j by (auto simp: e split: if_splits)
qed

lemma share_keeps:
  assumes "manager_ok m" "\<not> mg_closed m" "map_of (mg_generations m) i = Some g"
    and "share_generation i f m = (s, m')"
  shows "manager_ok m' \<and> fences m' = fences m \<and> mg_starting m' = mg_starting m \<and>
    length (mg_generations m') = length (mg_generations m)"
proof -
  let ?s = "frame_session f (ge_startMS g) (ge_id g) (cf_now f + st_LeaseTTL (mg_settings m))"
  let ?g = "g\<lparr>ge_leases := AList.update (se_ID ?s) (se_ExpiresAt ?s) (ge_leases g)\<rparr>"
  let ?m = "m\<lparr>mg_generations := AList.update i ?g (mg_generations m),
      mg_sessions := AList.update (se_ID ?s) ?s (mg_sessions m)\<rparr>"
  have m': "m' = renew_inputs ?g (se_ExpiresAt ?s)
      (link_preparing (cr_replacingSessionID (cf_call f)) (se_ID ?s) ?m)"
    using assms(3,4) by (auto simp: share_generation_def Let_def)
  have "manager_ok ?m" using assms(1-3) by (auto simp: manager_ok_def)
  then have "manager_ok m'"
    unfolding m' by (rule manager_ok_quiet [OF quiet_trans [OF quiet_link quiet_renew_inputs]])
  moreover have "fences m' = fences m" "mg_starting m' = mg_starting m"
    by (simp_all add: m' renew_inputs_def fences_def link_preparing_def)
  moreover have "length (mg_generations m') = length (mg_generations m)"
    using assms(3) by (simp add: m' renew_inputs_def length_update_old)
  ultimately show ?thesis by simp
qed

lemma reserve_keeps:
  assumes "manager_ok m"
  shows "create_keeps AtAdmit f m (reserve_generation k f m)"
proof -
  let ?g = "cr_replacingGeneration (cf_call f)"
  let ?c = "replacement_credit ?g m"
  let ?m = "if ?c then m\<lparr>mg_replacements := AList.update ?g (cf_sessionID f) (mg_replacements m)\<rparr> else m"
  have same: "mg_sessions ?m = mg_sessions m" "mg_generations ?m = mg_generations m"
    "mg_inputs ?m = mg_inputs m" "mg_closed ?m = mg_closed m" "fences ?m = fences m"
    "mg_starting ?m = mg_starting m" "mg_settings ?m = mg_settings m"
    by (simp_all add: fences_def)
  have ok: "manager_ok ?m" by (rule manager_ok_irrelevant [OF assms]) (simp_all add: same)
  then have ok': "manager_ok (if ?c then drop_credit f ?m else ?m)"
    using manager_ok_quiet [OF quiet_drop_credit] by (cases ?c) simp_all
  have "load m + 1 \<le> st_MaxGenerations (mg_settings m) + 1"
    if "\<not> over_capacity (int (length (mg_generations m)) + mg_starting m + 1 - (if ?c then 1 else 0)) ?m"
    using that by (auto simp: over_capacity_def load_def same split: if_splits)
  moreover have "manager_ok (?m\<lparr>mg_starting := x, mg_pendingJobs := y\<rparr>)" for x y
    by (rule manager_ok_irrelevant [OF ok]) simp_all
  ultimately show ?thesis
    using ok' unfolding reserve_generation_def create_keeps_def Let_def
    by (auto simp: load_def fences_def)
qed

lemma create_admit_keeps:
  assumes ok: "manager_ok m"
  shows "create_keeps AtAdmit f m (create_admit ch f m)"
proof (cases "ch_token1 ch")
  case None
  then show ?thesis using create_keeps_quiet [OF quiet_refl ok] by (simp add: create_admit_def)
next
  case t1: (Some sid)
  show ?thesis
  proof (cases "ch_token2 ch")
    case None
    with t1 show ?thesis using create_keeps_quiet [OF quiet_refl ok] by (simp add: create_admit_def)
  next
    case t2: (Some own)
    let ?c = "cf_call f"
    let ?f = "f\<lparr>cf_call := ?c\<lparr>cr_positionMS := max 0 (cr_positionMS ?c)\<rparr>, cf_now := ch_now ch,
                 cf_sessionID := sid, cf_ownerHandle := own\<rparr>"
    have frame: "create_keeps AtAdmit ?f m r \<Longrightarrow> create_keeps AtAdmit f m r" for r
      by (simp add: create_keeps_def split: prod.splits)
    have err: "create_keeps AtAdmit f m (AtReturn (Inl e), ?f, m)" for e
      by (rule create_keeps_quiet [OF quiet_refl ok]) simp_all
    let ?k = "generation_job_key (cr_catalogID ?c) (cr_plan ?c) (audio_selection_index (cr_plan ?c))"
    obtain gens found where loop: "shareable_loop (ch_playlists ch) ?k (max 0 (cr_positionMS ?c))
        (mg_generations m) = (gens, found)" by (metis prod.collapse)
    note keys = shareable_loop_keeps [OF loop]
    let ?m = "m\<lparr>mg_generations := gens\<rparr>"
    have len: "length gens = length (mg_generations m)" using keys by (metis length_map)
    have wf: "wf_map gens" using keys ok by (simp add: wf_map_def manager_ok_def)
    have okm: "manager_ok ?m" using ok wf keys len by (fastforce simp: manager_ok_def same_job_def)
    have same: "fences ?m = fences m" "mg_starting ?m = mg_starting m" "load ?m = load m"
      "mg_settings ?m = mg_settings m"
      by (simp_all add: fences_def load_def len)
    have lift: "create_keeps AtAdmit ?f ?m r \<Longrightarrow> create_keeps AtAdmit f m r" for r
      using same by (simp add: create_keeps_def split: prod.splits)
    have share: "create_keeps AtAdmit f m (case share_generation i ?f ?m of (s, m) \<Rightarrow> (AtReturn (Inr s), ?f, m))"
      if "found = Some i" "\<not> mg_closed m" for i
    proof -
      obtain s m' where s: "share_generation i ?f ?m = (s, m')" by (cases "share_generation i ?f ?m")
      have "map_of gens i \<noteq> None" using that(1) keys by blast
      then obtain g where "map_of (mg_generations ?m) i = Some g" by auto
      then have "manager_ok m' \<and> fences m' = fences ?m \<and> mg_starting m' = mg_starting ?m \<and>
          length (mg_generations m') = length (mg_generations ?m)"
        using share_keeps [OF okm _ _ s] that(2) by simp
      then show ?thesis using s len by (simp add: create_keeps_def fences_def load_def)
    qed
    have reserve: "create_keeps AtAdmit f m (reserve_generation ?k ?f ?m)"
      by (rule lift, rule reserve_keeps) (rule okm)
    have wait: "create_keeps AtAdmit f m (AtReturn (Inl ErrPreparing), ?f, ?m)"
      by (rule lift) (rule create_keeps_quiet [OF quiet_refl okm], simp_all)
    have direct: "create_keeps AtAdmit f m (admit_direct ?f m)"
      by (rule frame) (rule admit_direct_keeps [OF ok])
    show ?thesis
      unfolding create_admit_def t1 t2 option.case Let_def
      using err direct share reserve wait
      by (simp add: loop split: option.split)
  qed
qed

lemma create_register_keeps:
  assumes ok: "manager_ok m"
  shows "create_keeps AtReserved f m (create_register ch f m)"
proof -
  have err: "create_keeps AtReserved f m (AtRelease e, f, m)" for e
    by (rule create_keeps_quiet [OF quiet_refl ok]) simp_all
  have reg: "create_keeps AtReserved f m (AtInputs, f\<lparr>cf_generationID := a, cf_inputTokens := b\<rparr>,
      m\<lparr>mg_inputs := x\<rparr>)" if "\<not> mg_closed m" "wf_map x" for a b x
    using ok that by (auto simp: create_keeps_def fences_def load_def manager_ok_def)
  have wf: "wf_map (mg_inputs m)" using ok by (simp add: manager_ok_def)
  show ?thesis
    unfolding create_register_def Let_def
    using err by (auto split: option.split intro!: reg simp: wf)
qed

lemma manager_ok_clear_pending: "wf_map inputs \<Longrightarrow> wf_map (fold clear_pending ts inputs)"
  by (induction ts arbitrary: inputs) (simp_all add: clear_pending_def split: option.split)

lemma create_publish_keeps:
  assumes ok: "manager_ok m"
  shows "create_keeps AtInputs f m (create_publish ch f m)"
proof (cases "ch_started ch")
  case False
  then show ?thesis
    using create_keeps_quiet [OF quiet_refl ok] by (simp add: create_publish_def)
next
  case True
  let ?c = "cf_call f"
  let ?s = "frame_session f (cr_positionMS ?c) (cf_generationID f) (cf_now f + st_LeaseTTL (cf_settings f))"
  let ?g = "frame_generation f m ?s"
  let ?f = "f\<lparr>cf_ref := ge_ref ?g, cf_session := Some ?s\<rparr>"
  let ?a = "m\<lparr>mg_next := Suc (mg_next m), mg_starting := mg_starting m - 1\<rparr>"
  let ?m = "if cf_credit f \<and> \<not> cr_retainCredit ?c then drop_credit ?f ?a else ?a"
  have same: "mg_sessions ?m = mg_sessions m" "mg_generations ?m = mg_generations m"
    "mg_inputs ?m = mg_inputs m" "mg_closed ?m = mg_closed m" "fences ?m = fences m"
    "mg_starting ?m = mg_starting m - 1" "mg_settings ?m = mg_settings m"
    "mg_revokedViewers ?m = mg_revokedViewers m"
    by (simp_all add: fences_def)
  have refuse: "create_keeps AtInputs f m (AtUnpublished, ?f, drop_credit ?f (?m\<lparr>mg_pendingJobs := x\<rparr>))" for x
  proof -
    have "manager_ok (drop_credit ?f (?m\<lparr>mg_pendingJobs := x\<rparr>))"
      by (rule manager_ok_irrelevant [OF ok]) (simp_all add: same)
    then show ?thesis by (simp add: create_keeps_def load_def same fences_def)
  qed
  let ?n = "link_preparing (cr_replacingSessionID ?c) (se_ID ?s)
      (?m\<lparr>mg_generations := AList.update (cf_generationID f) ?g (mg_generations ?m),
          mg_sessions := AList.update (se_ID ?s) ?s (mg_sessions ?m)\<rparr>)"
  have publish: "create_keeps AtInputs f m (AtWait, ?f, ?n\<lparr>mg_inputs := fold clear_pending ts (mg_inputs ?n)\<rparr>)"
    if "\<not> mg_closed m" for ts
  proof -
    have "manager_ok (?n\<lparr>mg_inputs := fold clear_pending ts (mg_inputs ?n)\<rparr>)"
      using ok that by (auto simp: manager_ok_def same manager_ok_clear_pending frame_generation_def)
    moreover have "length (AList.update (cf_generationID f) ?g (mg_generations m)) \<le> Suc (length (mg_generations m))"
      by (rule length_update_le)
    moreover have "fences (?n\<lparr>mg_inputs := fold clear_pending ts (mg_inputs ?n)\<rparr>) = fences m"
      by (simp add: fences_def link_preparing_def)
    ultimately show ?thesis by (simp add: create_keeps_def load_def same)
  qed
  have "create_publish ch f m =
      (if mg_closed m \<or> viewer_revoked (cr_viewerID ?c) m
       then (AtUnpublished, ?f, drop_credit ?f (?m\<lparr>mg_pendingJobs := AList.delete (cf_jobKey f) (mg_pendingJobs ?m)\<rparr>))
       else (AtWait, ?f, ?n\<lparr>mg_inputs := fold clear_pending (cf_inputTokens f) (mg_inputs ?n)\<rparr>))"
    using True by (simp add: create_publish_def Let_def viewer_revoked_def)
  then show ?thesis using refuse publish by simp
qed

lemma create_ready_keeps:
  assumes ok: "manager_ok m"
  shows "create_keeps AtWait f m (create_ready ch f m)"
proof -
  have q: "create_keeps AtWait f m (pc', f, m'\<lparr>mg_pendingJobs := x\<rparr>)"
    if "quiet m m'" "reserved pc' = False" for pc' m' x
  proof -
    have "create_keeps AtWait f m (pc', f, m')" by (rule create_keeps_quiet [OF that(1) ok]) (simp_all add: that)
    moreover have "manager_ok m' \<Longrightarrow> manager_ok (m'\<lparr>mg_pendingJobs := x\<rparr>)"
      by (rule manager_ok_irrelevant) simp_all
    ultimately show ?thesis using that(2) unfolding create_keeps_def fences_def load_def by auto
  qed
  have r: "quiet m (m\<lparr>mg_generations := AList.update (cf_generationID f) (g\<lparr>ge_ready := True\<rparr>) (mg_generations m)\<rparr>)"
    if "map_of (mg_generations m) (cf_generationID f) = Some g" for g
    by (rule quiet_set_generation [OF that]) (simp add: same_job_def)
  have failed: "create_keeps AtWait f m (AtManifestFailed, f, m)"
    by (rule create_keeps_quiet [OF quiet_refl ok]) simp_all
  show ?thesis
    unfolding create_ready_def Let_def
    using failed q [OF quiet_refl] q [OF r] by (auto split: option.split)
qed

lemma release_keeps:
  assumes ok: "manager_ok m"
  shows "create_keeps (AtRelease e) f m (AtReturn (Inl e), f, release_reservation f m)"
proof -
  have "manager_ok (release_reservation f m)"
    by (rule manager_ok_irrelevant [OF ok]) (simp_all add: release_reservation_def Let_def)
  then show ?thesis
    by (simp add: create_keeps_def release_reservation_def Let_def fences_def load_def)
qed

lemma quiet_revoke_inputs: "quiet m (revoke_inputs f m)"
  by (rule quietI) (simp_all add: revoke_inputs_def in_flight_def refines_refl refines_delete_inputs)

lemma quiet_stop_created: "quiet m (stop_created ch f m)"
  by (simp add: stop_created_def Let_def quiet_stop_for_viewer)

lemma create_step_keeps:
  assumes ok: "manager_ok m"
  shows "create_keeps pc f m (create_step ch pc f m)"
proof -
  have q: "create_keeps pc f m (pc', f, m')" if "quiet m m'" "reserved pc' = reserved pc" for pc' m'
    by (rule create_keeps_quiet [OF that(1) ok that(2)]) simp
  have p: "create_keeps pc f m (pc', f, n)"
    if "create_keeps pc f m (pc', f, m')" "mg_sessions n = mg_sessions m'"
      "mg_generations n = mg_generations m'" "mg_inputs n = mg_inputs m'" "fences n = fences m'"
      "mg_starting n = mg_starting m'" for pc' m' n
    using that by (simp add: create_keeps_def load_def fences_def manager_ok_def)
  show ?thesis
  proof (cases pc)
    case AtUnpublished
    have "quiet m ((revoke_inputs f m)\<lparr>mg_retired := x\<rparr>)" for x
      by (rule quiet_trans [OF quiet_revoke_inputs quiet_fields(5)])
    then show ?thesis using AtUnpublished q by simp
  next
    case AtManifestStopped
    have "quiet m (clear_preparing (cf_sessionID f) (drop_credit f m))"
      by (rule quiet_trans [OF quiet_drop_credit quiet_clear_preparing])
    then have "create_keeps pc f m (AtReturn r, f, clear_preparing (cf_sessionID f) (drop_credit f m))" for r
      using AtManifestStopped by (intro q) simp_all
    from p [OF this] show ?thesis
      using AtManifestStopped by (simp add: clear_preparing_def preparation_def fences_def split: option.split)
  next
    case AtNotAdmittedStopped
    have "quiet m (clear_preparing (cf_sessionID f) (drop_credit f m))"
      by (rule quiet_trans [OF quiet_drop_credit quiet_clear_preparing])
    then show ?thesis using AtNotAdmittedStopped q by simp
  qed (use ok q quiet_revoke_inputs quiet_stop_created in
      \<open>simp_all add: create_admit_keeps create_register_keeps create_publish_keeps create_ready_keeps release_keeps\<close>)
qed

section \<open>The invariant of the world\<close>

fun reserving :: "thread \<Rightarrow> bool" where
  "reserving (Creating c pc f) = reserved pc"
| "reserving _ = False"

fun creating_for :: "string \<Rightarrow> thread \<Rightarrow> bool" where
  "creating_for v (Creating c pc f) = (cr_viewerID (cf_call f) = v)"
| "creating_for v _ = False"

fun saving_within :: "int \<Rightarrow> thread \<Rightarrow> bool" where
  "saving_within n (SavingSettings s) = (st_MaxGenerations s \<le> n)"
| "saving_within n _ = True"

definition counted :: "world \<Rightarrow> bool" where
  "counted w \<longleftrightarrow> wf_map (wo_threads w) \<and>
     mg_starting (wo_manager w) = int (tally reserving (wo_threads w)) \<and>
     wf_map (mg_pendingViewers (wo_manager w)) \<and>
     (\<forall>v. v \<noteq> '''' \<longrightarrow> get_or 0 (mg_pendingViewers (wo_manager w)) v =
        int (tally (creating_for v) (wo_threads w))) \<and>
     (\<forall>v. has_key (mg_revokedViewers (wo_manager w)) v \<longrightarrow>
        v \<noteq> '''' \<and> 0 < tally (creating_for v) (wo_threads w))"

definition bounded :: "int \<Rightarrow> world \<Rightarrow> bool" where
  "bounded n w \<longleftrightarrow> load (wo_manager w) \<le> n + 1 \<and>
     st_MaxGenerations (mg_settings (wo_manager w)) \<le> n \<and>
     (\<forall>t th. map_of (wo_threads w) t = Some th \<longrightarrow> saving_within n th)"

definition world_ok :: "int \<Rightarrow> world \<Rightarrow> bool" where
  "world_ok n w \<longleftrightarrow> manager_ok (wo_manager w) \<and> counted w \<and> bounded n w"

text \<open>
  A step of thread \<open>t\<close>, which was \<open>old\<close> (None: it did not exist) and becomes \<open>new\<close>: the counters
  follow as long as the manager's counters change by what the thread's do.
\<close>

definition thread_count :: "(thread \<Rightarrow> bool) \<Rightarrow> thread option \<Rightarrow> int" where
  "thread_count P th = (case th of None \<Rightarrow> 0 | Some th \<Rightarrow> int (one_if (P th)))"

lemma tally_settle:
  assumes "wf_map (wo_threads w)"
  shows "int (tally P (wo_threads (settle t (m, new, rs) w))) + thread_count P (map_of (wo_threads w) t) =
    int (tally P (wo_threads w)) + thread_count P new"
proof (cases "map_of (wo_threads w) t")
  case None
  then show ?thesis
    by (cases new) (simp_all add: settle_def thread_count_def delete_absent tally_update_new)
next
  case (Some old)
  then show ?thesis
    using tally_update_old [OF assms Some, of P] tally_delete_old [OF assms Some, of P]
    by (cases new) (simp_all add: settle_def thread_count_def flip: of_nat_add)
qed

lemma settle_manager [simp]: "wo_manager (settle t (m, new, rs) w) = m"
  by (simp add: settle_def)

lemma settle_wf: "wf_map (wo_threads w) \<Longrightarrow> wf_map (wo_threads (settle t (m, new, rs) w))"
  by (cases new) (simp_all add: settle_def)

lemma settle_threads:
  "map_of (wo_threads (settle t (m, new, rs) w)) u = (if u = t then new else map_of (wo_threads w) u)"
  by (cases new) (simp_all add: settle_def)

text \<open>The premises a step has to meet, given what the thread was and becomes.\<close>

definition step_ok :: "int \<Rightarrow> thread option \<Rightarrow> manager \<Rightarrow> stepped \<Rightarrow> bool" where
  "step_ok n old m r \<longleftrightarrow> (case r of (m', new, rs) \<Rightarrow>
     manager_ok m' \<and> load m' \<le> n + 1 \<and> st_MaxGenerations (mg_settings m') \<le> n \<and>
     mg_closed m \<le> mg_closed m' \<and>
     (case new of None \<Rightarrow> True | Some th \<Rightarrow> saving_within n th) \<and>
     mg_starting m' + thread_count reserving old = mg_starting m + thread_count reserving new \<and>
     wf_map (mg_pendingViewers m') \<and>
     (\<forall>v. v \<noteq> '''' \<longrightarrow>
        get_or 0 (mg_pendingViewers m') v + thread_count (creating_for v) old =
        get_or 0 (mg_pendingViewers m) v + thread_count (creating_for v) new) \<and>
     (\<forall>v. has_key (mg_revokedViewers m') v \<longrightarrow> v \<noteq> '''' \<and> 0 < get_or 0 (mg_pendingViewers m') v))"

lemma settle_ok:
  assumes w: "world_ok n w" and s: "step_ok n (map_of (wo_threads w) t) (wo_manager w) r"
  shows "world_ok n (settle t r w)"
proof -
  obtain m new rs where r: "r = (m, new, rs)" by (cases r)
  have wf: "wf_map (wo_threads w)" using w by (simp add: world_ok_def counted_def)
  note tally = tally_settle [OF wf, of _ t m new rs]
  have counts: "get_or 0 (mg_pendingViewers m) v = int (tally (creating_for v) (wo_threads (settle t r w)))"
    if "v \<noteq> ''''" for v
  proof -
    have "get_or 0 (mg_pendingViewers m) v + thread_count (creating_for v) (map_of (wo_threads w) t) =
        get_or 0 (mg_pendingViewers (wo_manager w)) v + thread_count (creating_for v) new"
      using s that by (simp add: r step_ok_def)
    moreover have "get_or 0 (mg_pendingViewers (wo_manager w)) v = int (tally (creating_for v) (wo_threads w))"
      using w that by (simp add: world_ok_def counted_def)
    ultimately show ?thesis using tally [of "creating_for v"] by (simp add: r)
  qed
  have "counted (settle t r w)"
    using s w tally [of reserving] counts settle_wf [OF wf, of t m new rs]
    by (auto simp: r step_ok_def world_ok_def counted_def)
  moreover have "bounded n (settle t r w)"
    using s w by (auto simp: r step_ok_def world_ok_def bounded_def settle_threads split: if_splits)
  ultimately show ?thesis using s by (simp add: r world_ok_def step_ok_def)
qed

text \<open>A quiet step of a thread that stays outside create.\<close>

lemma pending_of_world:
  assumes "world_ok n w"
  shows "manager_ok (wo_manager w)" "load (wo_manager w) \<le> n + 1"
    "st_MaxGenerations (mg_settings (wo_manager w)) \<le> n" "wf_map (mg_pendingViewers (wo_manager w))"
    "has_key (mg_revokedViewers (wo_manager w)) v \<Longrightarrow>
       v \<noteq> '''' \<and> 0 < get_or 0 (mg_pendingViewers (wo_manager w)) v"
  using assms by (auto simp: world_ok_def counted_def bounded_def)

lemma load_quiet: "quiet m m' \<Longrightarrow> manager_ok m \<Longrightarrow> load m' \<le> load m"
  using refines_length [of same_job "mg_generations m" "mg_generations m'"]
  by (simp add: load_def quiet_def in_flight_def manager_ok_def)

definition outside :: "thread option \<Rightarrow> bool" where
  "outside th \<longleftrightarrow> (\<forall>c pc f. th \<noteq> Some (Creating c pc f))"

lemma outside_count [simp]:
  "outside th \<Longrightarrow> thread_count reserving th = 0" "outside th \<Longrightarrow> thread_count (creating_for v) th = 0"
  by (cases th; cases "the th"; auto simp: thread_count_def outside_def)+

lemma quiet_step_ok:
  assumes w: "world_ok n w" and q: "quiet (wo_manager w) m'"
    and "outside (map_of (wo_threads w) t)" "outside new"
    and "\<And>th. new = Some th \<Longrightarrow> saving_within n th"
  shows "step_ok n (map_of (wo_threads w) t) (wo_manager w) (m', new, rs)"
proof -
  note p = pending_of_world [OF w]
  have f: "in_flight m' = in_flight (wo_manager w)" using q by (simp add: quiet_def)
  have "load m' \<le> n + 1" using load_quiet [OF q p(1)] p(2) by simp
  with manager_ok_quiet [OF q p(1)] p(3-5) assms(3-5) f show ?thesis
    by (auto simp: step_ok_def in_flight_def split: option.split)
qed

lemma get_or_update [simp]: "get_or z (AList.update k v m) j = (if j = k then v else get_or z m j)"
  by (simp add: get_or_def)

lemma get_or_delete [simp]: "get_or z (AList.delete k m) j = (if j = k then z else get_or z m j)"
  by (simp add: get_or_def)

lemma has_key_simps [simp]:
  "has_key (AList.update k v m) j \<longleftrightarrow> j = k \<or> has_key m j"
  "has_key (AList.delete k m) j \<longleftrightarrow> j \<noteq> k \<and> has_key m j"
  by (simp_all add: has_key_def)

lemma create_step_ok:
  assumes w: "world_ok n w" and th: "map_of (wo_threads w) t = Some (Creating c pc f)"
    and "create_step ch pc f (wo_manager w) = (pc', f', m')"
  shows "step_ok n (map_of (wo_threads w) t) (wo_manager w) (m', Some (Creating c pc' f'), [])"
proof -
  note p = pending_of_world [OF w]
  have k: "create_keeps pc f (wo_manager w) (pc', f', m')"
    using create_step_keeps [OF p(1), of pc f ch] assms(3) by simp
  have "load m' \<le> n + 1" using k p(2,3) by (auto simp: create_keeps_def)
  with k p(3-5) show ?thesis
    by (auto simp: step_ok_def create_keeps_def fences_def th thread_count_def)
qed

lemma finish_create_ok:
  assumes w: "world_ok n w" and th: "map_of (wo_threads w) t = Some (Creating c (AtReturn r) f)"
    and new: "outside (Some new)" "saving_within n new"
  shows "step_ok n (map_of (wo_threads w) t) (wo_manager w)
    (finish_create f (wo_manager w), Some new, rs)"
proof -
  let ?m = "wo_manager w" and ?v = "cr_viewerID (cf_call f)"
  note p = pending_of_world [OF w]
  have cnt: "0 < get_or 0 (mg_pendingViewers ?m) ?v" if "?v \<noteq> ''''"
  proof -
    have "0 < tally (creating_for ?v) (wo_threads w)" using th by (rule tally_pos) simp
    then show ?thesis using w that by (simp add: world_ok_def counted_def)
  qed
  have same: "mg_sessions (finish_create f ?m) = mg_sessions ?m"
    "mg_generations (finish_create f ?m) = mg_generations ?m"
    "mg_inputs (finish_create f ?m) = mg_inputs ?m" "mg_closed (finish_create f ?m) = mg_closed ?m"
    "mg_starting (finish_create f ?m) = mg_starting ?m" "mg_settings (finish_create f ?m) = mg_settings ?m"
    by (simp_all add: finish_create_def finish_viewer_create_def Let_def)
  have ok: "manager_ok (finish_create f ?m)" by (rule manager_ok_irrelevant [OF p(1)]) (simp_all add: same)
  have wf: "wf_map (mg_pendingViewers (finish_create f ?m))"
    using p(4) by (simp add: finish_create_def finish_viewer_create_def Let_def)
  have pend: "get_or 0 (mg_pendingViewers (finish_create f ?m)) v + int (one_if (?v = v)) =
      get_or 0 (mg_pendingViewers ?m) v" if "v \<noteq> ''''" for v
    using cnt that by (auto simp: finish_create_def finish_viewer_create_def Let_def one_if_def)
  have rev: "v \<noteq> '''' \<and> 0 < get_or 0 (mg_pendingViewers (finish_create f ?m)) v"
    if "has_key (mg_revokedViewers (finish_create f ?m)) v" for v
    using that p(5) [of v] by (auto simp: finish_create_def finish_viewer_create_def Let_def split: if_splits)
  have "thread_count reserving (Some (Creating c (AtReturn r) f)) = 0" by (simp add: thread_count_def)
  moreover have "thread_count (creating_for v) (Some (Creating c (AtReturn r) f)) = int (one_if (?v = v))" for v
    by (simp add: thread_count_def)
  ultimately show ?thesis
    using ok wf pend rev p(2,3) new outside_count [OF new(1)]
    by (auto simp: step_ok_def th same load_def)
qed

lemma advance_ok:
  assumes w: "world_ok n w" and th: "map_of (wo_threads w) t = Some th"
  shows "step_ok n (map_of (wo_threads w) t) (wo_manager w) (advance ch th (wo_manager w))"
proof -
  let ?m = "wo_manager w"
  have sav: "saving_within n th" using w th by (auto simp: world_ok_def bounded_def)
  show ?thesis
  proof (cases th)
    case (Creating c pc f)
    have fin: "step_ok n (map_of (wo_threads w) t) ?m (finish_create f ?m, Some new, [])"
      if "pc = AtReturn r" "outside (Some new)" "saving_within n new" for r new
      by (rule finish_create_ok [OF w _ that(2,3)]) (simp add: th Creating that(1))
    obtain pc' f' m' where s: "create_step ch pc f ?m = (pc', f', m')" by (metis prod.collapse)
    have step: "step_ok n (map_of (wo_threads w) t) ?m (m', Some (Creating c pc' f'), [])"
      by (rule create_step_ok [OF w _ s]) (simp add: th Creating)
    have go: "advance ch (Creating c pc f) ?m = (case create_step ch pc f ?m of
        (pc, f, m) \<Rightarrow> (m, Some (Creating c pc f), []))" if "\<forall>r. pc \<noteq> AtReturn r"
      using that by (cases pc) (simp_all add: case_prod_unfold Let_def)
    show ?thesis
    proof (cases "\<exists>r. pc = AtReturn r")
      case True
      then obtain r where "pc = AtReturn r" by blast
      then show ?thesis using Creating fin by (cases r) (simp_all add: outside_def)
    next
      case False
      then show ?thesis using Creating go step s by simp
    qed
  next
    case (SavingSettings s)
    have "step_ok n (map_of (wo_threads w) t) ?m (if b then settings_commit s ?m else ?m, None, [])" for b
    proof -
      note p = pending_of_world [OF w]
      have "manager_ok (settings_commit s ?m)"
        by (rule manager_ok_irrelevant [OF p(1)]) (simp_all add: settings_commit_def)
      moreover have "load (settings_commit s ?m) = load ?m" by (simp add: settings_commit_def load_def)
      moreover have "thread_count reserving (Some (SavingSettings s)) = 0"
        "thread_count (creating_for v) (Some (SavingSettings s)) = 0" for v
        by (simp_all add: thread_count_def)
      ultimately show ?thesis
        using p sav th SavingSettings
        by (auto simp: step_ok_def settings_commit_def thread_count_def)
    qed
    then show ?thesis by (simp add: SavingSettings)
  next
    case (StoppingViewer v owned)
    have q: "step_ok n (map_of (wo_threads w) t) ?m (m', new, [])"
      if "quiet ?m m'" "outside new" "\<And>x. new = Some x \<Longrightarrow> saving_within n x" for m' new
      by (rule quiet_step_ok [OF w that(1) _ that(2,3)]) (simp_all add: th StoppingViewer outside_def)
    show ?thesis
    proof (cases owned)
      case Nil
      then show ?thesis using q [OF quiet_refl, of None] StoppingViewer by (simp add: outside_def)
    next
      case (Cons e rest)
      then show ?thesis using q [OF quiet_stop_for_viewer, of "Some (StoppingViewer v rest)"] StoppingViewer
        by (cases e) (simp add: outside_def)
    qed
  next
    case (Deciding c s)
    have q: "quiet ?m (fst (decide ch c s ?m))" by (rule quiet_decide)
    obtain m' new rs where d: "decide ch c s ?m = (m', new, rs)" by (metis prod.collapse)
    have "outside new \<and> (\<forall>x. new = Some x \<longrightarrow> saving_within n x)"
      using d by (cases c)
        (auto simp: decide_def finishing_thread_def outside_def Let_def split: prod.splits finishing.splits)
    then show ?thesis
      using quiet_step_ok [OF w, of m' t new rs] q d th Deciding by (simp add: outside_def)
  next
    case (Stopping c i v p r)
    then show ?thesis
      using quiet_step_ok [OF w quiet_stop_for_viewer, of t "Some (Deferring c i False r)"] th by (simp add: outside_def)
  next
    case (Deferring c i k r)
    then show ?thesis
      using quiet_step_ok [OF w quiet_deferred, of t None] th by (simp add: outside_def)
  next
    case (Sweeping b gens refs)
    then show ?thesis
      using quiet_step_ok [OF w quiet_refl, of t "Some th"] th by (simp add: outside_def)
  qed
qed

section \<open>The first critical section of a call\<close>

lemma enter_create_ok:
  assumes w: "world_ok n w" and q: "quiet (wo_manager w) m" and old: "map_of (wo_threads w) t = None"
  shows "step_ok n (map_of (wo_threads w) t) (wo_manager w) (enter_create ctx cc c m)"
proof -
  let ?m = "wo_manager w" and ?v = "cr_viewerID cc"
  note p = pending_of_world [OF w]
  have fl: "in_flight m = in_flight ?m" using q by (simp add: quiet_def)
  have ok: "manager_ok m" and load: "load m \<le> n + 1"
    using manager_ok_quiet [OF q p(1)] load_quiet [OF q p(1)] p(2) by simp_all
  have err: "step_ok n (map_of (wo_threads w) t) ?m (m, Some (Deferring c '''' False (Inl e)), [])" for e
    by (rule quiet_step_ok [OF w q]) (simp_all add: old outside_def)
  have plain: "step_ok n (map_of (wo_threads w) t) ?m (m, Some (Creating c AtAdmit (empty_frame cc)), [])"
    if "?v = ''''"
    using fl ok load p(3-5) that
    by (auto simp: step_ok_def old thread_count_def empty_frame_def in_flight_def)
  let ?n = "m\<lparr>mg_pendingViewers := AList.update ?v (get_or 0 (mg_pendingViewers m) ?v + 1) (mg_pendingViewers m)\<rparr>"
  have "manager_ok ?n" by (rule manager_ok_irrelevant [OF ok]) simp_all
  moreover have "load ?n = load m" by (simp add: load_def)
  ultimately have viewer: "step_ok n (map_of (wo_threads w) t) ?m (?n, Some (Creating c AtAdmit (empty_frame cc)), [])"
    if "?v \<noteq> ''''"
    using fl load p(3-5) that less_imp_le [OF conjunct2 [OF p(5)]]
    by (auto simp: step_ok_def old thread_count_def empty_frame_def in_flight_def)
  show ?thesis
    unfolding enter_create_def create_enter_def Let_def
    using err plain viewer by simp
qed

lemma begin_call_ok:
  assumes w: "world_ok n w" and q: "quiet (wo_manager w) (begun b)" and old: "map_of (wo_threads w) t = None"
  shows "step_ok n (map_of (wo_threads w) t) (wo_manager w) (begin_call ch b)"
proof (cases b)
  case (Inl e)
  obtain m r where "e = (m, r)" by (cases e)
  with q have q: "quiet (wo_manager w) m" by (simp add: Inl begun_def)
  show ?thesis
    using quiet_step_ok [OF w q, of t None "[r]"] old \<open>e = (m, r)\<close> by (simp add: begin_call_def Inl outside_def)
next
  case (Inr e)
  obtain m cc c where e: "e = (m, cc, c)" by (cases e)
  with q have "quiet (wo_manager w) m" by (simp add: Inr begun_def)
  from enter_create_ok [OF w this old] show ?thesis by (simp add: begin_call_def Inr e)
qed

lemma detach_generations: "mg_generations (fst (detach_generation i m)) = AList.delete i (mg_generations m)"
proof (cases "map_of (mg_generations m) i")
  case None
  then show ?thesis by (simp add: detach_generation_def delete_absent)
next
  case (Some g)
  have "mg_generations (fold drop_session xs k) = mg_generations k" for xs k
    by (induction xs arbitrary: k) (simp_all add: drop_session_def cancel_subtitle_jobs_def)
  with Some show ?thesis by (simp add: detach_generation_def)
qed

lemma fold_delete: "fold AList.delete ks m = filter (\<lambda>(k, _). k \<notin> set ks) m"
proof (induction ks arbitrary: m)
  case Nil
  then show ?case by simp
next
  case (Cons k ks)
  have "filter (\<lambda>x. k \<noteq> fst x \<and> fst x \<notin> set ks) m = filter (\<lambda>x. fst x \<noteq> k \<and> fst x \<notin> set ks) m"
    by (rule filter_cong) auto
  with Cons show ?case by (simp add: AList.delete_eq case_prod_unfold)
qed

lemma detach_all_generations:
  "mg_generations (fold (\<lambda>i m. fst (detach_generation i m)) ks m) = fold AList.delete ks (mg_generations m)"
  by (induction ks arbitrary: m) (simp_all add: detach_generations)

lemma shutdown_ok:
  assumes ok: "manager_ok m"
  shows "manager_ok (fst (shutdown_manager m)) \<and> load (fst (shutdown_manager m)) \<le> load m \<and>
    mg_settings (fst (shutdown_manager m)) = mg_settings m \<and>
    mg_starting (fst (shutdown_manager m)) = mg_starting m \<and>
    mg_pendingViewers (fst (shutdown_manager m)) = mg_pendingViewers m \<and>
    mg_revokedViewers (fst (shutdown_manager m)) = mg_revokedViewers m"
proof (cases "mg_closed m")
  case True
  with ok show ?thesis by (simp add: shutdown_manager_def)
next
  case False
  let ?a = "m\<lparr>mg_closed := True\<rparr>"
  let ?b = "fold cancel_subtitle_jobs (map fst (mg_sessions ?a)) ?a"
  let ?c = "fold (\<lambda>i m. fst (detach_generation i m)) (map fst (mg_generations ?b)) ?b"
  have q: "quiet ?a ?c"
    by (rule quiet_trans; rule quiet.rel_fold; rule quiet_cancel quiet_detach)
  have "mg_generations ?c = []"
    by (auto simp: detach_all_generations fold_delete filter_empty_conv image_iff case_prod_unfold)
  moreover have "in_flight ?c = in_flight ?a" using q by (simp add: quiet_def)
  moreover have "fst (shutdown_manager m) = ?c\<lparr>mg_sessions := [], mg_inputs := []\<rparr>"
    using False by (simp add: shutdown_manager_def Let_def)
  ultimately show ?thesis
    by (auto simp: manager_ok_def load_def in_flight_def)
qed

lemma shutdown_closes: "mg_closed (fst (shutdown_manager m))"
proof -
  have "mg_closed (fold cancel_subtitle_jobs xs k) = mg_closed k" for xs k
    using quiet.rel_fold [of cancel_subtitle_jobs k xs] quiet_cancel by (simp add: quiet_def in_flight_def)
  moreover have "mg_closed (fold (\<lambda>i m. fst (detach_generation i m)) xs k) = mg_closed k" for xs k
    using quiet.rel_fold [of "\<lambda>i m. fst (detach_generation i m)" k xs] quiet_detach
    by (simp add: quiet_def in_flight_def)
  ultimately show ?thesis by (simp add: shutdown_manager_def Let_def)
qed

lemma fence_viewer_ok:
  assumes w: "world_ok n w" and v: "v \<noteq> ''''" and old: "map_of (wo_threads w) t = None"
  shows "step_ok n (map_of (wo_threads w) t) (wo_manager w)
    (case fence_viewer v (wo_manager w) of (m, owned) \<Rightarrow> (m, Some (StoppingViewer v owned), []))"
proof -
  let ?m = "wo_manager w"
  note p = pending_of_world [OF w]
  obtain m owned where f: "fence_viewer v ?m = (m, owned)" by (cases "fence_viewer v ?m")
  have ok: "manager_ok m"
    using f p(1) by (auto simp: fence_viewer_def Let_def manager_ok_def split: if_splits)
  have same: "load m = load ?m" "mg_settings m = mg_settings ?m" "mg_starting m = mg_starting ?m"
    "mg_closed m = mg_closed ?m"
    "mg_pendingViewers m = mg_pendingViewers ?m"
    using f by (auto simp: fence_viewer_def Let_def load_def split: if_splits)
  have "x \<noteq> '''' \<and> 0 < get_or 0 (mg_pendingViewers ?m) x" if "has_key (mg_revokedViewers m) x" for x
    using f that p(5) [of x] v by (auto simp: fence_viewer_def Let_def split: if_splits)
  with ok same p(2-4) show ?thesis
    by (simp add: f step_ok_def old thread_count_def)
qed

lemma call_ok:
  assumes w: "world_ok n w" and old: "map_of (wo_threads w) t = None"
    and within: "\<And>s. e = CallUpdateSettings s \<Longrightarrow> st_MaxGenerations s \<le> n"
  shows "step_ok n (map_of (wo_threads w) t) (wo_manager w) (call e (wo_manager w))"
proof -
  let ?m = "wo_manager w"
  have q: "step_ok n (map_of (wo_threads w) t) ?m (call e ?m)" if "\<not> loud e"
  proof -
    obtain m' new rs where c: "call e ?m = (m', new, rs)" by (metis prod.collapse)
    have "quiet ?m m'" using quiet_call [OF that, of ?m] c by simp
    moreover have "outside new \<and> (\<forall>x. new = Some x \<longrightarrow> saving_within n x)"
      using c that within
      by (cases e) (auto simp: outside_def split: prod.splits sum.splits bool.splits)
    ultimately show ?thesis using quiet_step_ok [OF w, of m' t new rs] old by (simp add: c outside_def)
  qed
  have empty_stop: "step_ok n (map_of (wo_threads w) t) ?m (?m, None, [])"
    by (rule quiet_step_ok [OF w quiet_refl]) (simp_all add: old outside_def)
  show ?thesis
  proof (cases e)
    case Shutdown
    then show ?thesis
      using shutdown_ok [OF pending_of_world(1) [OF w]] pending_of_world [OF w] shutdown_closes
      by (auto simp: step_ok_def old thread_count_def)
  next
    case (CallStopViewer v)
    then show ?thesis
      using fence_viewer_ok [OF w _ old, of v] empty_stop by (simp split: prod.splits)
  qed (use q enter_create_ok [OF w quiet_refl old] begin_call_ok [OF w quiet_seek_begin old]
        begin_call_ok [OF w quiet_prepare_begin old] begin_call_ok [OF w quiet_replace_begin old]
       in simp_all)
qed

section \<open>Every interleaving\<close>

text \<open>The greatest number of generations any settings of the run allow.\<close>

fun peak :: "int \<Rightarrow> move list \<Rightarrow> int" where
  "peak n [] = n"
| "peak n (Start t (CallUpdateSettings s) # ms) = peak (max n (st_MaxGenerations s)) ms"
| "peak n (_ # ms) = peak n ms"

fun move_within :: "int \<Rightarrow> move \<Rightarrow> bool" where
  "move_within n (Start t (CallUpdateSettings s)) = (st_MaxGenerations s \<le> n)"
| "move_within n _ = True"

definition guarded_step :: "int \<Rightarrow> world \<Rightarrow> move \<Rightarrow> world" where
  "guarded_step n w mv = (if move_within n mv then world_step w mv else w)"

lemma world_step_cases:
  assumes w: "world_ok n w" and "move_within n mv"
  shows "world_step w mv = w \<or>
    (\<exists>t r. world_step w mv = settle t r w \<and> step_ok n (map_of (wo_threads w) t) (wo_manager w) r)"
proof (cases mv)
  case (Start t e)
  show ?thesis
  proof (cases "has_key (wo_threads w) t")
    case True
    with Start show ?thesis by simp
  next
    case False
    then have old: "map_of (wo_threads w) t = None" by (simp add: has_key_def)
    have "step_ok n (map_of (wo_threads w) t) (wo_manager w) (call e (wo_manager w))"
      by (rule call_ok [OF w old]) (use assms(2) Start in simp)
    then show ?thesis using Start False by (intro disjI2 exI conjI) simp_all
  qed
next
  case (Go t ch)
  show ?thesis
  proof (cases "map_of (wo_threads w) t")
    case None
    with Go show ?thesis by simp
  next
    case (Some th)
    with Go have "world_step w mv = settle t (advance ch th (wo_manager w)) w" by simp
    with advance_ok [OF w Some, of ch] show ?thesis by blast
  qed
next
  case (Measured t ms)
  show ?thesis
  proof (cases "\<exists>b gens refs. map_of (wo_threads w) t = Some (Sweeping b gens refs)")
    case True
    then obtain b gens refs where th: "map_of (wo_threads w) t = Some (Sweeping b gens refs)" by blast
    have "step_ok n (map_of (wo_threads w) t) (wo_manager w)
        (sweep_finish b (zip gens ms) refs (wo_manager w), None, [])"
      by (rule quiet_step_ok [OF w quiet_sweep_finish]) (simp_all add: th outside_def)
    moreover have "world_step w mv = settle t (sweep_finish b (zip gens ms) refs (wo_manager w), None, []) w"
      using Measured th by simp
    ultimately show ?thesis by blast
  next
    case False
    then have "world_step w (Measured t ms) = w" by (auto split: option.split thread.split)
    with Measured show ?thesis by simp
  qed
qed

lemma world_step_ok: "world_ok n w \<Longrightarrow> move_within n mv \<Longrightarrow> world_ok n (world_step w mv)"
  using world_step_cases [of n w mv] settle_ok [of n w] by auto

lemma world_step_closed:
  "world_ok n w \<Longrightarrow> move_within n mv \<Longrightarrow>
   mg_closed (wo_manager w) \<le> mg_closed (wo_manager (world_step w mv))"
  using world_step_cases [of n w mv] by (auto simp: step_ok_def)

lemma new_world_ok: "st_MaxGenerations s \<le> n \<Longrightarrow> 0 \<le> n + 1 \<Longrightarrow> world_ok n (new_world (new_manager s e w))"
  by (simp add: world_ok_def manager_ok_def counted_def bounded_def new_world_def new_manager_def
      load_def has_key_def get_or_def)

interpretation playback: machine "new_world (new_manager s e w)"
    "guarded_step (max (max n 0) (st_MaxGenerations s))" "world_ok (max (max n 0) (st_MaxGenerations s))"
  for s e w n
  by unfold_locales (auto simp: guarded_step_def world_step_ok intro!: new_world_ok)

lemma peak_ge: "n \<le> peak n ms"
  by (induction n ms rule: peak.induct) auto

lemma peak_within: "list_all (move_within (peak n ms)) ms"
proof (induction n ms rule: peak.induct)
  case (2 n t s ms)
  have "st_MaxGenerations s \<le> peak (max n (st_MaxGenerations s)) ms"
    using peak_ge [of "max n (st_MaxGenerations s)" ms] by simp
  with 2 show ?case by simp
qed simp_all

lemma move_within_mono: "move_within n mv \<Longrightarrow> n \<le> k \<Longrightarrow> move_within k mv"
  by (cases "(n, mv)" rule: move_within.cases) auto

lemma guarded_run:
  "list_all (move_within n) ms \<Longrightarrow> run_steps (guarded_step n) w ms = run_steps world_step w ms"
  by (induction ms arbitrary: w) (simp_all add: guarded_step_def)

definition playback_run :: "settings \<Rightarrow> bool \<Rightarrow> int \<Rightarrow> move list \<Rightarrow> world" where
  "playback_run s e w ms = run_steps world_step (new_world (new_manager s e w)) ms"

lemma run_world_ok:
  "world_ok (max (max (peak (st_MaxGenerations s) ms) 0) (st_MaxGenerations s)) (playback_run s e w ms)"
proof -
  let ?n = "max (max (peak (st_MaxGenerations s) ms) 0) (st_MaxGenerations s)"
  have "list_all (move_within ?n) ms"
    using peak_within [of "st_MaxGenerations s" ms] by (auto simp: list_all_iff intro: move_within_mono)
  from guarded_run [OF this] show ?thesis
    unfolding playback_run_def using playback.ok_reachable
      [where s = s and n = "peak (st_MaxGenerations s) ms" and e = e and w = w and es = ms] by metis
qed

text \<open>The shutdown of the manager is never undone.\<close>

interpretation playback_closing: monotone_machine "new_world (new_manager s e w)"
    "guarded_step (max (max n 0) (st_MaxGenerations s))" "world_ok (max (max n 0) (st_MaxGenerations s))"
    "\<lambda>w. mg_closed (wo_manager w)"
  for s e w n
  by unfold_locales (use world_step_closed in \<open>auto simp: guarded_step_def\<close>)

end
