(* ===== verification/PlaybackFence.thy ===== *)
theory PlaybackFence
  imports PlaybackSafety
begin

text \<open>
  The fence of StopViewer: a call of the viewer that is inside create when the fence goes up never
  returns a session, and the fence stays up until the last such call has left create.
\<close>

section \<open>The fence holds inside create\<close>

lemma revoked_step:
  assumes "viewer_revoked (cr_viewerID (cf_call f)) m" and "\<forall>s. pc \<noteq> AtReturn (Inr s)"
    and "create_step ch pc f m = (pc', f', m')"
  shows "pc' \<noteq> AtReturn (Inr s)"
proof (cases pc)
  case AtAdmit
  have "pc' \<noteq> AtReturn (Inr s)" if "create_admit ch f m = (pc', f', m')"
    using that assms(1)
    by (auto simp: create_admit_def admit_direct_def viewer_revoked_def Let_def
        split: option.splits if_splits)
  with assms(3) AtAdmit show ?thesis by simp
next
  case AtReserved
  with assms(3) show ?thesis
    by (auto simp: create_register_def Let_def split: option.splits if_splits)
next
  case AtInputs
  with assms(3) show ?thesis
    by (auto simp: create_publish_def Let_def split: if_splits)
next
  case AtWait
  have "\<not> create_admitted f m" using assms(1) by (simp add: create_admitted_def Let_def)
  with assms(3) AtWait show ?thesis
    by (auto simp: create_ready_def Let_def split: if_splits)
next
  case (AtReturn r)
  with assms(2,3) show ?thesis by auto
qed (use assms(3) in auto)

text \<open>
  A thread that is doomed: inside create under the fence and not about to return a session, or on
  its way out with an error, or gone.
\<close>

fun doomed :: "string \<Rightarrow> manager \<Rightarrow> thread option \<Rightarrow> bool" where
  "doomed v m None = True"
| "doomed v m (Some (Creating c pc f)) =
    (cr_viewerID (cf_call f) = v \<and> has_key (mg_revokedViewers m) v \<and> (\<forall>s. pc \<noteq> AtReturn (Inr s)))"
| "doomed v m (Some (Deferring c i k (Inl e))) = True"
| "doomed v m (Some _) = False"

definition errors_since :: "nat \<Rightarrow> nat \<Rightarrow> world \<Rightarrow> bool" where
  "errors_since t k w \<longleftrightarrow> (\<forall>r. (t, r) \<in> set (drop k (wo_results w)) \<longrightarrow> (\<exists>e. r = Inl e))"

lemma doomed_advance:
  assumes w: "world_ok n w" and v: "v \<noteq> ''''" and th: "map_of (wo_threads w) t = Some th"
    and d: "doomed v (wo_manager w) (Some th)" and a: "advance ch th (wo_manager w) = (m', new, rs)"
  shows "doomed v m' new \<and> (\<forall>r \<in> set rs. \<exists>e. r = Inl e)"
proof (cases th)
  case (Creating c pc f)
  let ?m = "wo_manager w"
  have rev: "viewer_revoked (cr_viewerID (cf_call f)) ?m"
    using d v Creating by (simp add: viewer_revoked_def)
  show ?thesis
  proof (cases "\<exists>r. pc = AtReturn r")
    case True
    then obtain r where r: "pc = AtReturn r" by blast
    with d Creating obtain e where "r = Inl e" by (cases r) auto
    with r a Creating show ?thesis by auto
  next
    case False
    obtain pc' f' n' where s: "create_step ch pc f ?m = (pc', f', n')" by (metis prod.collapse)
    have "create_keeps pc f ?m (pc', f', n')"
      using create_step_keeps [OF pending_of_world(1) [OF w], of pc f ch] s by simp
    then have "fences n' = fences ?m" "cr_viewerID (cf_call f') = cr_viewerID (cf_call f)"
      by (simp_all add: create_keeps_def)
    moreover have "pc' \<noteq> AtReturn (Inr x)" for x
      by (rule revoked_step [OF rev _ s]) (use d Creating in auto)
    moreover have "(m', new, rs) = (n', Some (Creating c pc' f'), [])"
    proof -
      have "advance ch (Creating c pc f) ?m = (case create_step ch pc f ?m of
          (pc, f, m) \<Rightarrow> (m, Some (Creating c pc f), []))"
        using False by (cases pc) (simp_all add: case_prod_unfold Let_def)
      with a s Creating show ?thesis by simp
    qed
    ultimately show ?thesis using d Creating by (simp add: fences_def)
  qed
next
  case (Deferring c i k r)
  with d a show ?thesis by (cases r) auto
qed (use d in simp_all)

text \<open>A step of another thread keeps the fence of a viewer with a call inside create.\<close>

lemma advance_keeps_fence:
  assumes w: "world_ok n w" and v: "v \<noteq> ''''"
    and t: "map_of (wo_threads w) t = Some (Creating c pc f)" "cr_viewerID (cf_call f) = v"
    and rev: "has_key (mg_revokedViewers (wo_manager w)) v"
    and u: "map_of (wo_threads w) u = Some th" "u \<noteq> t"
  shows "has_key (mg_revokedViewers (fst (advance ch th (wo_manager w)))) v"
proof -
  let ?m = "wo_manager w"
  have keep: "has_key (mg_revokedViewers m') v" if "quiet ?m m'" for m'
    using that rev by (simp add: quiet_def in_flight_def)
  have other: "has_key (mg_revokedViewers (fst (advance ch th ?m))) v"
    if "\<And>c pc f. th \<noteq> Creating c pc f" "\<And>s. th \<noteq> SavingSettings s"
    using that by (intro keep quiet_advance) auto
  show ?thesis
  proof (cases th)
    case (Creating d qc g)
    show ?thesis
    proof (cases "\<exists>r. qc = AtReturn r")
      case True
      then obtain r where r: "qc = AtReturn r" by blast
      have fin: "fst (advance ch th ?m) = finish_create g ?m" using r Creating by (cases r) simp_all
      show ?thesis
      proof (cases "cr_viewerID (cf_call g) = v")
        case False
        with fin rev show ?thesis by (simp add: finish_create_def finish_viewer_create_def Let_def)
      next
        case True
        have "2 \<le> tally (creating_for v) (wo_threads w)"
          using tally_two [of "wo_threads w" t "Creating c pc f" "creating_for v" u "Creating d qc g"]
            w t u Creating True by (simp add: world_ok_def counted_def)
        then have "2 \<le> get_or 0 (mg_pendingViewers ?m) v"
          using w v by (simp add: world_ok_def counted_def)
        with fin rev v True show ?thesis
          by (simp add: finish_create_def finish_viewer_create_def Let_def)
      qed
    next
      case False
      obtain pc' f' n' where s: "create_step ch qc g ?m = (pc', f', n')" by (metis prod.collapse)
      have "create_keeps qc g ?m (pc', f', n')"
        using create_step_keeps [OF pending_of_world(1) [OF w], of qc g ch] s by simp
      then have "mg_revokedViewers n' = mg_revokedViewers ?m" by (simp add: create_keeps_def fences_def)
      moreover have "fst (advance ch (Creating d qc g) ?m) = n'"
        using False s by (cases qc) (auto simp: Let_def)
      ultimately show ?thesis using rev Creating by simp
    qed
  next
    case (SavingSettings s)
    with rev show ?thesis by (simp add: settings_commit_def)
  qed (rule other; simp)+
qed

lemma enter_create_revoked:
  "mg_revokedViewers (fst (enter_create ctx cc c m)) = mg_revokedViewers m"
  by (simp add: enter_create_def create_enter_def Let_def)

lemma call_keeps_fence:
  assumes rev: "has_key (mg_revokedViewers m) v" and ok: "manager_ok m"
  shows "has_key (mg_revokedViewers (fst (call e m))) v"
proof -
  have q: "has_key (mg_revokedViewers (fst (begin_call ch b))) v" if "quiet m (begun b)" for ch b
  proof (cases b)
    case (Inl x)
    with that rev show ?thesis
      by (cases x) (simp add: begin_call_def begun_def quiet_def in_flight_def)
  next
    case (Inr x)
    obtain k cc c where x: "x = (k, cc, c)" by (cases x)
    have "mg_revokedViewers k = mg_revokedViewers m"
      using that Inr x by (simp add: begun_def quiet_def in_flight_def)
    with rev show ?thesis by (simp add: begin_call_def Inr x enter_create_revoked)
  qed
  show ?thesis
  proof (cases "loud e")
    case False
    then show ?thesis using quiet_call [of e m] rev by (simp add: quiet_def in_flight_def)
  next
    case True
    then show ?thesis
    proof (cases e)
      case (CallStopViewer x)
      with rev show ?thesis by (simp add: fence_viewer_def Let_def)
    next
      case Shutdown
      with rev show ?thesis using shutdown_ok [OF ok] by simp
    qed (use rev q quiet_seek_begin quiet_prepare_begin quiet_replace_begin in
        \<open>simp_all add: enter_create_revoked\<close>)
  qed
qed

definition doomed_world :: "string \<Rightarrow> nat \<Rightarrow> nat \<Rightarrow> world \<Rightarrow> bool" where
  "doomed_world v t k w \<longleftrightarrow> doomed v (wo_manager w) (map_of (wo_threads w) t) \<and> errors_since t k w \<and>
     k \<le> length (wo_results w)"

fun starts :: "nat \<Rightarrow> move \<Rightarrow> bool" where
  "starts t (Start u e) = (u = t)"
| "starts t _ = False"

lemma errors_settle:
  "errors_since t k w \<Longrightarrow> k \<le> length (wo_results w) \<Longrightarrow> (u = t \<Longrightarrow> \<forall>r \<in> set rs. \<exists>e. r = Inl e) \<Longrightarrow>
   errors_since t k (settle u (m, new, rs) w) \<and> k \<le> length (wo_results (settle u (m, new, rs) w))"
  by (auto simp: errors_since_def settle_def)

lemma doomed_other:
  assumes "doomed v m th" and "has_key (mg_revokedViewers m) v \<Longrightarrow> (\<exists>c pc f. th = Some (Creating c pc f) \<and>
      cr_viewerID (cf_call f) = v) \<Longrightarrow> has_key (mg_revokedViewers m') v"
  shows "doomed v m' th"
  using assms by (cases "(v, m, th)" rule: doomed.cases) auto

lemma doomed_step:
  assumes w: "world_ok n w" and v: "v \<noteq> ''''" and d: "doomed_world v t k w" and mv: "\<not> starts t mv"
  shows "doomed_world v t k (world_step w mv)"
proof -
  let ?m = "wo_manager w"
  have ok: "manager_ok ?m" by (rule pending_of_world [OF w])
  have dt: "doomed v ?m (map_of (wo_threads w) t)" and er: "errors_since t k w" "k \<le> length (wo_results w)"
    using d by (simp_all add: doomed_world_def)
  have other: "doomed_world v t k (settle u (m', new, rs) w)"
    if "u \<noteq> t" and "\<And>c pc f. map_of (wo_threads w) t = Some (Creating c pc f) \<Longrightarrow>
      cr_viewerID (cf_call f) = v \<Longrightarrow> has_key (mg_revokedViewers ?m) v \<Longrightarrow> has_key (mg_revokedViewers m') v"
    for u m' new rs
  proof -
    have "doomed v m' (map_of (wo_threads w) t)" by (rule doomed_other [OF dt]) (use that(2) in auto)
    with errors_settle [OF er] that(1) show ?thesis
      by (simp add: doomed_world_def settle_threads)
  qed
  show ?thesis
  proof (cases mv)
    case (Start u e)
    obtain m' new rs where c: "call e ?m = (m', new, rs)" by (metis prod.collapse)
    have "has_key (mg_revokedViewers ?m) v \<Longrightarrow> has_key (mg_revokedViewers m') v"
      using call_keeps_fence [OF _ ok, of v e] c by simp
    then have "doomed_world v t k (settle u (call e ?m) w)" using other [of u m' new rs] mv Start c by simp
    with d Start show ?thesis by simp
  next
    case (Go u ch)
    show ?thesis
    proof (cases "map_of (wo_threads w) u")
      case None
      with d Go show ?thesis by simp
    next
      case (Some th)
      obtain m' new rs where a: "advance ch th ?m = (m', new, rs)" by (metis prod.collapse)
      have "doomed_world v t k (settle u (m', new, rs) w)"
      proof (cases "u = t")
        case True
        have "doomed v m' new \<and> (\<forall>r \<in> set rs. \<exists>e. r = Inl e)"
          by (rule doomed_advance [OF w v Some _ a]) (use dt Some True in simp)
        with errors_settle [OF er] True show ?thesis by (simp add: doomed_world_def settle_threads)
      next
        case False
        then show ?thesis
          using other [of u m' new rs] advance_keeps_fence [OF w v, of t _ _ _ u th ch] Some a by auto
      qed
      with Go Some a show ?thesis by simp
    qed
  next
    case (Measured u ms)
    show ?thesis
    proof (cases "\<exists>b gens refs. map_of (wo_threads w) u = Some (Sweeping b gens refs)")
      case False
      then have "world_step w mv = w" using Measured by (auto split: option.split thread.split)
      with d show ?thesis by simp
    next
      case True
      then obtain b gens refs where th: "map_of (wo_threads w) u = Some (Sweeping b gens refs)" by blast
      let ?n = "sweep_finish b (zip gens ms) refs ?m"
      have "u \<noteq> t" using dt th by auto
      moreover have "mg_revokedViewers ?n = mg_revokedViewers ?m"
        using quiet_sweep_finish [of ?m b "zip gens ms" refs] by (simp add: quiet_def in_flight_def)
      ultimately have "doomed_world v t k (settle u (?n, None, []) w)" using other [of u ?n None "[]"] by simp
      with Measured th show ?thesis by simp
    qed
  qed
qed

lemma doomed_run:
  assumes "world_ok n w" "v \<noteq> ''''" "doomed_world v t k w"
    "list_all (move_within n) ms" "list_all (\<lambda>mv. \<not> starts t mv) ms"
  shows "doomed_world v t k (run_steps world_step w ms)"
  using assms(1,3-5)
proof (induction ms arbitrary: w)
  case Nil
  then show ?case by simp
next
  case (Cons mv ms)
  then show ?case using doomed_step [OF _ assms(2), of n w t k mv] world_step_ok [of n w mv] by simp
qed

end
