(* ===== verification/PlaybackProps.thy ===== *)
theory PlaybackProps
  imports PlaybackFence
begin

text \<open>
  The properties of the playback manager over every interleaving of its calls, and the two sample
  runs that witness them.
\<close>

text \<open>
  C1: FFmpeg never runs away. In every interleaving of calls, generations that are running and
  those being started are together at most one more than the greatest number any settings of the
  run allow; the one more is the replacement that is prepared while its predecessor still plays.
\<close>
theorem capacity_never_exceeded:
  "let m = wo_manager (playback_run s e w ms) in
   int (length (mg_generations m)) + mg_starting m \<le> max 0 (peak (st_MaxGenerations s) ms) + 1 \<and>
   0 \<le> mg_starting m"
proof -
  let ?n = "max (max (peak (st_MaxGenerations s) ms) 0) (st_MaxGenerations s)"
  have "?n = max 0 (peak (st_MaxGenerations s) ms)"
    using peak_ge [of "st_MaxGenerations s" ms] by simp
  with run_world_ok [of s ms e w] show ?thesis
    by (simp add: world_ok_def bounded_def counted_def load_def Let_def)
qed

text \<open>
  Nothing leaks. The reservation counter is exactly the number of calls that hold a
  reservation, the count of a viewer's pending creates is exactly the number of its calls inside
  create, and a viewer is fenced only while such a call is in flight.
\<close>
theorem calls_accounted:
  "let m = wo_manager (playback_run s e w ms); ts = wo_threads (playback_run s e w ms) in
   mg_starting m = int (tally reserving ts) \<and>
   (\<forall>v. v = '''' \<or> get_or 0 (mg_pendingViewers m) v = int (tally (creating_for v) ts)) \<and>
   {v. has_key (mg_revokedViewers m) v} \<subseteq> {v. v \<noteq> '''' \<and> 0 < tally (creating_for v) ts}"
  using run_world_ok [of s ms e w] by (auto simp: world_ok_def counted_def Let_def)

text \<open>The critical section of Shutdown, run on the world as it is.\<close>

definition shut_down :: "world \<Rightarrow> world" where
  "shut_down w = w\<lparr>wo_manager := fst (shutdown_manager (wo_manager w))\<rparr>"

lemma shut_down_ok: "world_ok n w \<Longrightarrow> world_ok n (shut_down w)"
  using shutdown_ok [of "wo_manager w"]
  by (auto simp: shut_down_def world_ok_def counted_def bounded_def)

text \<open>
  Shutdown is final for playback too. Once Shutdown ran, whatever calls were in flight and
  whatever is called afterwards, no session, generation or media input is ever admitted again.
\<close>
theorem playback_shutdown_final:
  "let m = wo_manager (run_steps world_step (shut_down (playback_run s e w ms)) ns) in
   mg_closed m \<and> mg_sessions m = [] \<and> mg_generations m = [] \<and> mg_inputs m = []"
proof -
  let ?p = "max (peak (st_MaxGenerations s) ms) (peak (st_MaxGenerations s) ns)"
  let ?n = "max (max ?p 0) (st_MaxGenerations s)"
  let ?w = "playback_run s e w ms"
  have le: "peak (st_MaxGenerations s) ms \<le> ?n" "peak (st_MaxGenerations s) ns \<le> ?n" by simp_all
  have ms: "list_all (move_within ?n) ms" and ns: "list_all (move_within ?n) ns"
    using peak_within [of "st_MaxGenerations s" ms] peak_within [of "st_MaxGenerations s" ns]
      move_within_mono le unfolding list_all_iff by blast+
  have "world_ok ?n (run_steps (guarded_step ?n) (new_world (new_manager s e w)) ms)"
    by (rule playback.ok_reachable)
  then have v: "world_ok ?n (shut_down ?w)"
    unfolding playback_run_def guarded_run [OF ms] by (rule shut_down_ok)
  have "mg_closed (wo_manager (shut_down ?w))" by (simp add: shut_down_def shutdown_closes)
  then have "mg_closed (wo_manager (run_steps (guarded_step ?n) (shut_down ?w) ns))"
    using playback_closing.level_run [OF v, of ns] by simp
  moreover have "world_ok ?n (run_steps (guarded_step ?n) (shut_down ?w) ns)"
    by (rule playback.ok_run [OF v])
  ultimately show ?thesis
    using guarded_run [OF ns] by (simp add: world_ok_def manager_ok_def Let_def)
qed


text \<open>A viewer plays a file directly; StopViewer runs before the call admits the session.\<close>

definition sample_choice :: choice where
  "sample_choice = \<lparr>ch_now = 0, ch_now2 = 0, ch_ctx = True, ch_ctx2 = True, ch_commit = True,
     ch_token1 = Some ''s'', ch_token2 = Some ''o'', ch_token3 = Some ''x'', ch_mkdir = True,
     ch_command = True, ch_started = True, ch_manifest = True, ch_playlists = (\<lambda>_. (0, [], False))\<rparr>"

definition sample_call :: create_call where
  "sample_call = \<lparr>cr_viewerID = ''v'', cr_profileID = ''p'', cr_catalogID = ''film'',
     cr_plan = zero_plan\<lparr>pl_kind := Direct\<rparr>, cr_positionMS = 0, cr_replacingGeneration = '''',
     cr_replacingSessionID = '''', cr_retainCredit = False, cr_progress = 0\<rparr>"

lemmas sample_eval = playback_run_def new_world_def new_manager_def enter_create_def create_enter_def
  sample_call_def sample_choice_def has_key_def get_or_def settle_def empty_frame_def Let_def
  create_admit_def admit_direct_def fence_viewer_def viewer_revoked_def finish_create_def
  finish_viewer_create_def deferred_def zero_plan_def


text \<open>A file that needs remuxing, and settings that halve the budget of a generation.\<close>

definition remux_call :: create_call where
  "remux_call = sample_call\<lparr>cr_plan := zero_plan\<lparr>pl_kind := Remux\<rparr>\<rparr>"

definition smaller_settings :: settings where
  "smaller_settings = (default_settings ''/d'')\<lparr>st_SegmentDir := ''/d/segments'', st_MaxGenerations := 1,
     st_GenerationBytes := 134217728\<rparr>"

definition update_race :: "move list" where
  "update_race = [Start 1 (CallUpdateSettings smaller_settings), Start 2 (CallCreate True remux_call),
     Go 2 sample_choice, Go 2 sample_choice, Go 2 sample_choice, Go 2 sample_choice,
     Go 2 sample_choice, Go 1 sample_choice]"

lemma smaller_settings_valid: "validate_settings smaller_settings = Inr ()"
  by (simp add: smaller_settings_def default_settings_def validate_settings_def is_abs_def slash_def
      go_div_def second_def wrap64_def)

text \<open>
  UpdateSettings admits new settings and stores them in two critical sections. A generation
  can start in between and then runs under settings it was not admitted with: after this run the
  manager has the new settings and a ready generation, a state in which it refuses that very
  update.
\<close>
theorem update_races_with_create:
  "let m = wo_manager (playback_run ((default_settings ''/d'')\<lparr>st_SegmentDir := ''/d/segments''\<rparr>)
             True 0 update_race) in
   mg_settings m = smaller_settings \<and> map (ge_ready \<circ> snd) (mg_generations m) = [True] \<and>
   settings_admitted smaller_settings m = Inl ErrCapacity"
  by code_simp

end
