(* ===== verification/Paging.thy ===== *)
theory Paging
  imports Prelude
begin

text \<open>
  Lists that are handed out page by page, as the activity page of the playback manager and the
  viewing history are. The client asks for the first page and then, with the cursor a page ends
  in, for the next one, until a page has no cursor. The interface says what a page is; what the
  clients rely on is that they end up with the whole list, each item once and in order, after
  finitely many requests.
\<close>

text \<open>Asking for pages, at most a number of times.\<close>

fun collect :: "nat \<Rightarrow> ('k option \<Rightarrow> 'a list \<times> 'k option) \<Rightarrow> 'k option \<Rightarrow> 'a list option" where
  "collect 0 page c = None"
| "collect (Suc n) page c =
    (case page c of (xs, None) \<Rightarrow> Some xs
     | (xs, Some k) \<Rightarrow> map_option ((@) xs) (collect n page (Some k)))"

definition cut_page :: "('a \<Rightarrow> 'k) \<Rightarrow> nat \<Rightarrow> 'a list \<Rightarrow> 'a list \<times> 'k option" where
  "cut_page key limit rest =
    (take limit rest, if limit < length rest then Some (key (rest ! (limit - 1))) else None)"

lemma cut_page_cursor: "snd (cut_page key limit rest) = Some k \<Longrightarrow> 0 < limit \<Longrightarrow> k \<in> key ` set rest"
  by (auto simp: cut_page_def split: if_splits)

lemma last_take_nth: "0 < n \<Longrightarrow> n < length xs \<Longrightarrow> last (take n xs) = xs ! (n - 1)"
  by (subst last_conv_nth) auto

locale pager =
  fixes key :: "'a \<Rightarrow> 'k"
    and before :: "'k \<Rightarrow> 'k \<Rightarrow> bool"
    and arrange :: "'a list \<Rightarrow> 'a list"
    and valid :: "'a \<Rightarrow> bool"
    and page :: "'a list \<Rightarrow> nat \<Rightarrow> 'k option \<Rightarrow> 'a list \<times> 'k option"
  assumes before_asym: "before k l \<Longrightarrow> \<not> before l k"
    and arrange_sorted: "distinct (map key xs) \<Longrightarrow> sorted_wrt (\<lambda>x y. before (key x) (key y)) (arrange xs)"
    and arrange_set: "set (arrange xs) = set xs"
    and arrange_length: "length (arrange xs) = length xs"
    and page_first: "0 < limit \<Longrightarrow> list_all valid xs \<Longrightarrow> page xs limit None = cut_page key limit (arrange xs)"
    and page_after: "0 < limit \<Longrightarrow> page xs limit (Some k) = cut_page key limit (filter (\<lambda>y. before k (key y)) (arrange xs))"
begin

lemma filter_before:
  assumes "distinct (map key items)" and "arrange items = xs @ x # ys"
  shows "filter (\<lambda>y. before (key x) (key y)) (arrange items) = ys"
proof -
  have "\<forall>y \<in> set xs. \<not> before (key x) (key y)" "\<forall>y \<in> set ys. before (key x) (key y)"
    using arrange_sorted [OF assms(1)] before_asym unfolding assms(2) by (auto simp: sorted_wrt_append)
  moreover have "\<not> before (key x) (key x)" using before_asym by blast
  ultimately show ?thesis unfolding assms(2) by simp
qed

lemma collect_cut:
  assumes "distinct (map key items)" and "0 < limit"
    and "arrange items = xs @ ys" and "page items limit c = cut_page key limit ys" and "length ys \<le> n"
  shows "collect (Suc n) (page items limit) c = Some ys"
  using assms(3-5)
proof (induction n arbitrary: xs ys c)
  case 0
  then show ?case by (simp add: cut_page_def)
next
  case (Suc n)
  show ?case
  proof (cases "limit < length ys")
    case False
    with Suc.prems show ?thesis by (simp add: cut_page_def)
  next
    case True
    let ?t = "take limit ys" and ?d = "drop limit ys" and ?x = "ys ! (limit - 1)"
    have t: "?t \<noteq> []" using True assms(2) by auto
    have last: "last ?t = ?x" using last_take_nth True assms(2) by simp
    have "(butlast ?t @ [?x]) @ ?d = ys"
      using append_butlast_last_id [OF t] append_take_drop_id [of limit ys] last by simp
    then have items: "arrange items = (xs @ butlast ?t) @ ?x # ?d" "arrange items = (xs @ ?t) @ ?d"
      using Suc.prems(1) by (metis append.assoc append_Cons append_Nil, simp)
    have "page items limit (Some (key ?x)) = cut_page key limit ?d"
      using page_after [OF assms(2)] filter_before [OF assms(1) items(1)] by simp
    then have "collect (Suc n) (page items limit) (Some (key ?x)) = Some ?d"
      using Suc.IH [OF items(2)] Suc.prems(3) assms(2) by simp
    moreover have "collect (Suc (Suc n)) (page items limit) c =
        map_option ((@) ?t) (collect (Suc n) (page items limit) (Some (key ?x)))"
      using Suc.prems(2) True by (simp add: cut_page_def)
    ultimately show ?thesis by simp
  qed
qed

lemma collect_all:
  "distinct (map key items) \<Longrightarrow> 0 < limit \<Longrightarrow> list_all valid items \<Longrightarrow> length items \<le> n \<Longrightarrow>
   collect (Suc n) (page items limit) None = Some (arrange items)"
  by (rule collect_cut [of _ _ "[]"]) (simp_all add: page_first arrange_length)

lemma page_cursor:
  assumes "snd (page items limit c) = Some k" and "0 < limit" and "list_all valid items"
  shows "k \<in> key ` set items"
proof (cases c)
  case None
  then show ?thesis using assms page_first cut_page_cursor [of key limit "arrange items"] arrange_set [of items] by simp
next
  case (Some l)
  then show ?thesis using assms(1,2) cut_page_cursor [of key limit] arrange_set [of items]
    by (fastforce simp: page_after)
qed

end

section \<open>Cursors as texts\<close>

text \<open>
  Over the wire a cursor is a text, the empty text for the first page and after the last one. The
  client follows the cursors; the server opens and seals them.
\<close>

fun follow :: "nat \<Rightarrow> (string \<Rightarrow> ('e, 'a list \<times> string) result) \<Rightarrow> string \<Rightarrow> ('e, 'a list) result option" where
  "follow 0 f c = None"
| "follow (Suc n) f c =
    (case f c of Inl e \<Rightarrow> Some (Inl e)
     | Inr (xs, next) \<Rightarrow>
        if next = '''' then Some (Inr xs) else map_option (map_sum id ((@) xs)) (follow n f next))"

definition sealed :: "('k \<Rightarrow> string) \<Rightarrow> 'k option \<Rightarrow> string" where
  "sealed seal c = (case c of None \<Rightarrow> '''' | Some k \<Rightarrow> seal k)"

lemma follow_sealed:
  assumes step: "\<And>c. good c \<Longrightarrow> f (sealed seal c) = Inr (map g (fst (page c)), sealed seal (snd (page c)))"
    and keep: "\<And>c. good c \<Longrightarrow> good (snd (page c))"
    and nonempty: "\<And>k. good (Some k) \<Longrightarrow> seal k \<noteq> ''''"
    and c: "good c"
  shows "follow n f (sealed seal c) = map_option (\<lambda>xs. Inr (map g xs)) (collect n page c)"
  using c
proof (induction n arbitrary: c)
  case 0
  then show ?case by simp
next
  case (Suc n)
  obtain xs nx where p: "page c = (xs, nx)" by fastforce
  note s = step [OF Suc.prems]
  show ?case
  proof (cases nx)
    case None
    then show ?thesis using s p by (simp add: sealed_def)
  next
    case (Some k)
    have good: "good (Some k)" using keep [OF Suc.prems] p Some by simp
    then have "follow n f (seal k) = map_option (\<lambda>xs. Inr (map g xs)) (collect n page (Some k))"
      using Suc.IH [of "Some k"] by (simp add: sealed_def)
    with s p Some nonempty [OF good] show ?thesis
      by (cases "collect n page (Some k)") (simp_all add: sealed_def)
  qed
qed

end
