(* ===== verification/Activity.thy ===== *)
theory Activity
  imports Sessions Paging "HOL-Library.Product_Lexorder"
begin

text \<open>
  What the owner sees of playback (\<open>Status\<close>, \<open>Activity\<close> and their cursors in
  backend/playback/manager.go). The size of a directory is an argument, and so are the two ends of
  a sealed cursor: JSON, HMAC and base64 with the manager's secret, of which only is used that a
  cursor that was sealed opens to itself. Generations that started in the same second may come in
  any order; here they keep that of the map.
\<close>

record generation_status =
  gs_ID :: string
  gs_CatalogID :: string
  gs_Kind :: kind
  gs_StartMS :: int
  gs_Leases :: nat
  gs_Bytes :: int
  gs_Running :: bool
  gs_StartedAt :: int

record status =
  sa_Settings :: settings
  sa_Generations :: "generation_status list"

record activity_session =
  as_OwnerHandle :: string
  as_CatalogID :: string
  as_Kind :: kind
  as_Reason :: string
  as_AudioStreamIndex :: "int option"
  as_AudioExternal :: bool
  as_SubtitleIndex :: "int option"
  as_SubtitleExternal :: bool
  as_QualityMode :: string
  as_Width :: int
  as_Height :: int
  as_VideoBitrate :: int
  as_StartedAt :: int
  as_Device :: string

record activity_capacity =
  ac_MaxGenerations :: int
  ac_Starting :: int
  ac_ActiveSessions :: nat
  ac_GenerationBytes :: int
  ac_GlobalBytes :: int
  ac_CacheBytes :: int
  ac_Generations :: "generation_status list"

record activity_page =
  ap_Capacity :: activity_capacity
  ap_Sessions :: "activity_session list"
  ap_NextCursor :: string

definition catalog_of_job :: "string \<Rightarrow> string" where
  "catalog_of_job jobKey = takeWhile (\<lambda>c. c \<noteq> CHR 0x00) jobKey"

definition unix_seconds :: "int \<Rightarrow> int" where
  "unix_seconds t = t div second"

definition generation_status_of :: "(string \<Rightarrow> int) \<Rightarrow> generation \<Rightarrow> generation_status" where
  "generation_status_of bytes_of gen =
    \<lparr>gs_ID = ge_id gen, gs_CatalogID = catalog_of_job (ge_jobKey gen), gs_Kind = ge_kind gen,
     gs_StartMS = ge_startMS gen, gs_Leases = length (ge_leases gen), gs_Bytes = bytes_of (ge_dir gen),
     gs_Running = (\<not> ge_completed gen), gs_StartedAt = unix_seconds (ge_startedAt gen)\<rparr>"

definition manager_status :: "(string \<Rightarrow> int) \<Rightarrow> manager \<Rightarrow> status" where
  "manager_status bytes_of m =
    \<lparr>sa_Settings = mg_settings m,
     sa_Generations = sort_key gs_StartedAt (map (generation_status_of bytes_of \<circ> snd) (mg_generations m))\<rparr>"

type_synonym activity_cursor = "int \<times> string"

definition decode_activity_cursor ::
    "(string \<Rightarrow> activity_cursor option) \<Rightarrow> string \<Rightarrow> (play_error, activity_cursor) result" where
  "decode_activity_cursor unseal value =
    (case unseal value of None \<Rightarrow> Inl ErrInvalidCursor
     | Some (created, handle) \<Rightarrow>
        if created \<le> 0 \<or> handle = '''' then Inl ErrInvalidCursor else Inr (created, handle))"

definition session_key :: "session \<Rightarrow> activity_cursor" where
  "session_key s = (se_CreatedAt s, se_OwnerHandle s)"

definition live_sessions :: "int \<Rightarrow> manager \<Rightarrow> session list" where
  "live_sessions now m = filter (\<lambda>s. now < se_ExpiresAt s) (map snd (mg_sessions m))"

definition playback_reason :: "kind \<Rightarrow> string" where
  "playback_reason k =
    (if k = Remux then ''Container conversion required''
     else if k = Transcode then ''Video or audio conversion required''
     else ''Original media is compatible'')"

definition activity_of :: "session \<Rightarrow> activity_session" where
  "activity_of s = (let p = se_Plan s in
    \<lparr>as_OwnerHandle = se_OwnerHandle s, as_CatalogID = se_CatalogID s, as_Kind = pl_kind p,
     as_Reason = playback_reason (pl_kind p),
     as_AudioStreamIndex = (if pl_audio_selected p then Some (pl_audio_stream_index p) else None),
     as_AudioExternal = pl_audio_external p,
     as_SubtitleIndex = (if pl_subtitle_selected p then Some (pl_subtitle_selection_index p) else None),
     as_SubtitleExternal = pl_subtitle_external p, as_QualityMode = pl_quality_mode p,
     as_Width = pl_width p, as_Height = pl_height p, as_VideoBitrate = pl_video_bitrate p,
     as_StartedAt = unix_seconds (se_CreatedAt s), as_Device = ''Unknown device''\<rparr>)"

text \<open>The sessions of a page, and the key of the last one when more follow.\<close>

definition session_page :: "session list \<Rightarrow> nat \<Rightarrow> activity_cursor \<Rightarrow> session list \<times> activity_cursor option" where
  "session_page sessions limit after =
    (let sorted = sort_key session_key sessions;
         rest = dropWhile (\<lambda>s. \<not> after < session_key s) sorted;
         shown = take limit rest in
     (shown, if limit < length rest then Some (session_key (last shown)) else None))"

text \<open>The manager is read twice: \<open>m\<close> for the sessions and limits, \<open>m'\<close> later for the generations.\<close>

definition activity :: "(string \<Rightarrow> activity_cursor option) \<Rightarrow> (activity_cursor \<Rightarrow> string) \<Rightarrow> (string \<Rightarrow> int) \<Rightarrow>
    int \<Rightarrow> string \<Rightarrow> int \<Rightarrow> manager \<Rightarrow> manager \<Rightarrow> (play_error, activity_page) result" where
  "activity unseal seal bytes_of limit cursor now m m' =
    (if limit < 1 \<or> limit > 100 then Inl ErrInvalidCursor
     else case (if cursor = '''' then Inr (0, '''') else decode_activity_cursor unseal cursor) of
       Inl e \<Rightarrow> Inl e
     | Inr after \<Rightarrow>
        (let sessions = live_sessions now m;
             (shown, more) = session_page sessions (nat limit) after;
             generations = sa_Generations (manager_status bytes_of m') in
         Inr \<lparr>ap_Capacity =
                \<lparr>ac_MaxGenerations = st_MaxGenerations (mg_settings m), ac_Starting = mg_starting m,
                 ac_ActiveSessions = length sessions,
                 ac_GenerationBytes = st_GenerationBytes (mg_settings m),
                 ac_GlobalBytes = st_GlobalBytes (mg_settings m),
                 ac_CacheBytes = fold (\<lambda>g n. wrap64 (n + gs_Bytes g)) generations 0,
                 ac_Generations = generations\<rparr>,
              ap_Sessions = map activity_of shown,
              ap_NextCursor = (case more of None \<Rightarrow> '''' | Some k \<Rightarrow> seal k)\<rparr>))"

section \<open>Following the cursors\<close>

definition real_session :: "session \<Rightarrow> bool" where
  "real_session s \<longleftrightarrow> 0 < se_CreatedAt s \<and> se_OwnerHandle s \<noteq> ''''"

definition activity_slice :: "session list \<Rightarrow> nat \<Rightarrow> activity_cursor option \<Rightarrow> session list \<times> activity_cursor option" where
  "activity_slice sessions limit c = session_page sessions limit (case c of None \<Rightarrow> (0, '''') | Some k \<Rightarrow> k)"

lemma dropWhile_filter_sorted:
  fixes k :: "'k::linorder"
  assumes "sorted (map key xs)"
  shows "dropWhile (\<lambda>x. \<not> k < key x) xs = filter (\<lambda>x. k < key x) xs"
  using assms
proof (induction xs)
  case Nil
  then show ?case by simp
next
  case (Cons x xs)
  show ?case
  proof (cases "k < key x")
    case True
    then have "\<forall>y \<in> set xs. k < key y" using Cons.prems by fastforce
    with True show ?thesis by simp
  qed (use Cons in simp)
qed

lemma session_page_cut:
  "0 < limit \<Longrightarrow> session_page sessions limit after =
    cut_page session_key limit (filter (\<lambda>s. after < session_key s) (sort_key session_key sessions))"
  by (simp add: session_page_def cut_page_def dropWhile_filter_sorted Let_def last_take_nth)

lemma real_session_key: "real_session s \<Longrightarrow> (0, '''') < session_key s"
  by (simp add: real_session_def session_key_def)

interpretation activity_pages: pager session_key "(<)" "sort_key session_key" real_session activity_slice
proof
  show "k < l \<Longrightarrow> \<not> l < k" for k l :: activity_cursor by simp
  show "sorted_wrt (\<lambda>x y. session_key x < session_key y) (sort_key session_key xs)"
    if "distinct (map session_key xs)" for xs
  proof -
    have "distinct (map session_key (sort_key session_key xs))"
      using that by (simp add: distinct_map)
    then have "sorted_wrt (<) (map session_key (sort_key session_key xs))"
      by (simp add: strict_sorted_iff)
    then show ?thesis by (simp add: sorted_wrt_map)
  qed
  show "activity_slice xs limit None = cut_page session_key limit (sort_key session_key xs)"
    if "0 < limit" "list_all real_session xs" for xs limit
  proof -
    have "filter (\<lambda>s. (0, '''') < session_key s) (sort_key session_key xs) = sort_key session_key xs"
      using that(2) real_session_key by (auto simp: filter_id_conv list_all_iff)
    then show ?thesis by (simp add: activity_slice_def session_page_cut [OF that(1)])
  qed
qed (simp_all add: activity_slice_def session_page_cut)

text \<open>The cursor token scheme: what was sealed opens to itself.\<close>

definition opens :: "('k \<Rightarrow> bool) \<Rightarrow> ('k \<Rightarrow> string) \<Rightarrow> (string \<Rightarrow> 'k option) \<Rightarrow> bool" where
  "opens usable seal unseal \<longleftrightarrow> (\<forall>k. usable k \<longrightarrow> unseal (seal k) = Some k \<and> seal k \<noteq> '''')"

definition activity_fetch where
  "activity_fetch unseal seal bytes_of limit now m m' cursor =
    (case activity unseal seal bytes_of limit cursor now m m' of Inl e \<Rightarrow> Inl e
     | Inr p \<Rightarrow> Inr (ap_Sessions p, ap_NextCursor p))"

text \<open>
  The owner sees every session. Following the cursors of the activity page, whatever the
  size of the pages, gives every live session exactly once, in the order they were created, and
  ends: with n live sessions after at most n + 1 requests.
\<close>
theorem activity_lists_every_session:
  assumes "opens (\<lambda>(t, h). 0 < t \<and> h \<noteq> '''') seal unseal" and "1 \<le> limit" and "limit \<le> 100"
    and "list_all real_session (live_sessions now m)" and "distinct (map session_key (live_sessions now m))"
  shows "follow (Suc (length (live_sessions now m))) (activity_fetch unseal seal bytes_of limit now m m') '''' =
    Some (Inr (map activity_of (sort_key session_key (live_sessions now m))))"
proof -
  let ?ss = "live_sessions now m" and ?f = "activity_fetch unseal seal bytes_of limit now m m'"
  let ?good = "\<lambda>c. case c of None \<Rightarrow> True | Some (t, h) \<Rightarrow> 0 < t \<and> h \<noteq> ''''"
  have seal: "unseal (seal (t, h)) = Some (t, h)" "seal (t, h) \<noteq> ''''" if "0 < t" "h \<noteq> ''''" for t h
    using assms(1) that by (auto simp: opens_def)
  have step: "?f (sealed seal c) =
      Inr (map activity_of (fst (activity_slice ?ss (nat limit) c)), sealed seal (snd (activity_slice ?ss (nat limit) c)))"
    if "?good c" for c
    using that seal assms(2,3)
    by (cases c) (auto simp: activity_fetch_def activity_def activity_slice_def sealed_def
        decode_activity_cursor_def Let_def split: prod.split option.split)
  have keep: "?good (snd (activity_slice ?ss (nat limit) c))" for c
  proof (cases "snd (activity_slice ?ss (nat limit) c)")
    case (Some k)
    then have "k \<in> session_key ` set ?ss"
      using activity_pages.page_cursor [of ?ss "nat limit" c k] assms(2,4) by simp
    with Some assms(4) show ?thesis by (auto simp: list_all_iff real_session_def session_key_def)
  qed simp
  have "follow (Suc (length ?ss)) ?f (sealed seal None) =
      map_option (\<lambda>xs. Inr (map activity_of xs))
        (collect (Suc (length ?ss)) (activity_slice ?ss (nat limit)) None)"
    by (rule follow_sealed [where good = ?good]) (use step keep seal in auto)
  moreover have "collect (Suc (length ?ss)) (activity_slice ?ss (nat limit)) None =
      Some (sort_key session_key ?ss)"
    using assms(2,4,5) by (intro activity_pages.collect_all) simp_all
  ultimately show ?thesis by (simp add: sealed_def)
qed

definition sample_seal :: "activity_cursor \<Rightarrow> string" where
  "sample_seal k = replicate (nat (fst k)) (CHR ''x'') @ CHR '':'' # snd k"

definition sample_unseal :: "string \<Rightarrow> activity_cursor option" where
  "sample_unseal s = (let n = length (takeWhile (\<lambda>c. c = CHR ''x'') s) in Some (int n, drop (Suc n) s))"

lemma sample_opens: "opens (\<lambda>(t, h). 0 < t \<and> h \<noteq> '''') sample_seal sample_unseal"
proof -
  have "takeWhile (\<lambda>c. c = x) (replicate n x @ y # h) = replicate n x" if "y \<noteq> x" for n x y and h :: string
    using that by (induction n) auto
  then show ?thesis by (auto simp: opens_def sample_seal_def sample_unseal_def Let_def)
qed

definition sample_session :: "string \<Rightarrow> int \<Rightarrow> session" where
  "sample_session h t =
    \<lparr>se_ProgressGeneration = 0, se_ViewerID = ''v'', se_ID = h, se_OwnerHandle = h, se_ProfileID = ''p'',
     se_CatalogID = ''film'', se_Plan = zero_plan, se_PositionMS = 0, se_StreamOffsetMS = 0,
     se_GenerationID = '''', se_CreatedAt = t, se_ExpiresAt = 100\<rparr>"

definition sample_manager :: manager where
  "sample_manager = (new_manager (default_settings ''/d'') True 0)
    \<lparr>mg_sessions := [(''b'', sample_session ''b'' 2), (''a'', sample_session ''a'' 1)]\<rparr>"

theorem activity_lists_every_session_witness:
  "follow 3 (activity_fetch sample_unseal sample_seal (\<lambda>_. 0) 1 50 sample_manager sample_manager) '''' =
    Some (Inr [activity_of (sample_session ''a'' 1), activity_of (sample_session ''b'' 2)])"
proof -
  have live: "live_sessions 50 sample_manager = [sample_session ''b'' 2, sample_session ''a'' 1]"
    by (simp add: live_sessions_def sample_manager_def sample_session_def)
  have "list_all real_session (live_sessions 50 sample_manager)"
    "distinct (map session_key (live_sessions 50 sample_manager))"
    unfolding live by (simp_all add: real_session_def session_key_def sample_session_def)
  from activity_lists_every_session [OF sample_opens _ _ this, of 1 "\<lambda>_. 0" sample_manager] show ?thesis
    by (simp add: live session_key_def sample_session_def numeral_3_eq_3)
qed

end
