(* ===== verification/Schedule.thy ===== *)
theory Schedule
  imports GoPath
begin

text \<open>
  When the next backup or library scan runs (backend/schedule/next.go). Instants are integers of
  nanoseconds, durations 64-bit integers of nanoseconds. A time zone is the offset of its clock
  at each instant and the instant that \<open>time.Date\<close> picks for a civil day and a time of that
  day; a civil day is its number, which decides the year and the day of the year.
\<close>

record location =
  lo_offset :: "int \<Rightarrow> int"
  lo_date :: "int \<Rightarrow> int \<Rightarrow> int"

definition minute_ns :: int where "minute_ns = 60000000000"
definition day_ns :: int where "day_ns = 1440 * minute_ns"

definition local_day :: "location \<Rightarrow> int \<Rightarrow> int" where
  "local_day l t = (t + lo_offset l t) div day_ns"

definition local_time :: "location \<Rightarrow> int \<Rightarrow> int" where
  "local_time l t = (t + lo_offset l t) mod day_ns"

definition local_minute :: "location \<Rightarrow> int \<Rightarrow> int" where
  "local_minute l t = local_time l t div minute_ns"

text \<open>A zone whose clock is always the same time ahead of UTC, such as UTC itself.\<close>

definition fixed_zone :: "int \<Rightarrow> location" where
  "fixed_zone z = \<lparr>lo_offset = (\<lambda>_. z), lo_date = (\<lambda>d t. d * day_ns + t - z)\<rparr>"

definition utc :: location where
  "utc = fixed_zone 0"

text \<open>\<open>Time.Sub\<close> saturates at the ends of the range of a duration.\<close>

definition time_sub :: "int \<Rightarrow> int \<Rightarrow> int" where
  "time_sub a b = max (- (2 ^ 63)) (min (2 ^ 63 - 1) (a - b))"

text \<open>
  The loop that brings an interval up to date, one round at a time. It does not return a value
  when it runs for ever or divides by zero.
\<close>

partial_function (option) catch_up :: "int \<Rightarrow> int \<Rightarrow> int \<Rightarrow> int option" where
  "catch_up now interval prior =
    (if prior > now then Some prior
     else if interval = 0 then None
     else catch_up now interval
            (prior + wrap64 (wrap64 (go_div (time_sub now prior) interval + 1) * interval)))"

definition next_interval :: "int \<Rightarrow> int \<Rightarrow> int option \<Rightarrow> int \<Rightarrow> int option" where
  "next_interval now interval prior minimum =
    (let interval = (if interval < minimum then minimum else interval) in
     case prior of None \<Rightarrow> Some (now + interval) | Some p \<Rightarrow> catch_up now interval p)"

text \<open>\<open>time.Parse\<close> with the layout 15:04: one or two digits, a colon, two digits.\<close>

definition clock_hour :: "string \<Rightarrow> (nat \<times> string) option" where
  "clock_hour s =
    (case s of [] \<Rightarrow> None
     | c # rest \<Rightarrow>
        (case digit_val c of None \<Rightarrow> None
         | Some d \<Rightarrow>
            (case rest of [] \<Rightarrow> Some (d, [])
             | c' # rest' \<Rightarrow> (case digit_val c' of None \<Rightarrow> Some (d, rest)
                                 | Some d' \<Rightarrow> Some (10 * d + d', rest')))))"

definition parse_clock :: "string \<Rightarrow> int option" where
  "parse_clock s =
    (case clock_hour s of
       Some (h, [c, m1, m2]) \<Rightarrow>
         (case (digit_val m1, digit_val m2) of
            (Some a, Some b) \<Rightarrow>
              if h < 24 \<and> c = CHR '':'' \<and> 10 * a + b < 60 then Some (int (60 * h + (10 * a + b)))
              else None
          | _ \<Rightarrow> None)
     | _ \<Rightarrow> None)"

definition candidates :: "int \<Rightarrow> int list" where
  "candidates start = map (\<lambda>k. start + int k * minute_ns) [0..<32 * 60]"

text \<open>The instant of the day at which the clock shows the minute, or first shows a later one.\<close>

definition scheduled_on :: "location \<Rightarrow> int \<Rightarrow> int \<Rightarrow> int option" where
  "scheduled_on l date target =
    (let day = local_day l date;
         cs = filter (\<lambda>c. local_day l c = day) (candidates (lo_date l day 0 - 180 * minute_ns)) in
     case find (\<lambda>c. local_minute l c = target) cs of
       Some exact \<Rightarrow> Some exact
     | None \<Rightarrow> find (\<lambda>c. local_minute l c \<ge> target) cs)"

fun daily_loop :: "location \<Rightarrow> int \<Rightarrow> int \<Rightarrow> int list \<Rightarrow> int" where
  "daily_loop l now target [] = now + day_ns"
| "daily_loop l now target (offset # offsets) =
    (let date = lo_date l (local_day l now + offset) (local_time l now) in
     case scheduled_on l date target of
       None \<Rightarrow> daily_loop l now target offsets
     | Some t \<Rightarrow> if t > now then t else daily_loop l now target offsets)"

definition next_daily :: "location option \<Rightarrow> int \<Rightarrow> string \<Rightarrow> int" where
  "next_daily zone now clock =
    (let l = (case zone of None \<Rightarrow> utc | Some l \<Rightarrow> l);
         target = (case parse_clock clock of None \<Rightarrow> 180 | Some t \<Rightarrow> t) in
     daily_loop l now target [0, 1, 2])"

definition next_run :: "int \<Rightarrow> string \<Rightarrow> int \<Rightarrow> int option \<Rightarrow> string \<Rightarrow> location option \<Rightarrow> int \<Rightarrow> int option" where
  "next_run now kind interval prior clock zone minimum =
    (if kind = ''interval'' then next_interval now interval prior minimum
     else Some (next_daily zone now clock))"

section \<open>Intervals\<close>

lemma catch_up_round:
  assumes "prior \<le> now" and "0 < i" and "now - prior + i < 2 ^ 63"
  shows "prior + wrap64 (wrap64 (go_div (time_sub now prior) i + 1) * i) =
    prior + ((now - prior) div i + 1) * i"
proof -
  have t: "time_sub now prior = now - prior" using assms by (simp add: time_sub_def)
  have le: "(now - prior) div i * i \<le> now - prior" using assms(2) by (metis div_mult_mod_eq
      pos_mod_sign le_add_same_cancel1)
  have q: "0 \<le> (now - prior) div i" using assms by (simp add: pos_imp_zdiv_nonneg_iff)
  have qi: "(now - prior) div i \<le> (now - prior) div i * i" using q assms(2) by (simp add: mult_le_cancel_left1)
  have "in64 ((now - prior) div i + 1)" using q qi le assms(2,3) by (simp add: in64_def)
  moreover have "in64 (((now - prior) div i + 1) * i)"
  proof -
    have "0 \<le> ((now - prior) div i + 1) * i" using q assms(2) by simp
    moreover have "((now - prior) div i + 1) * i < 2 ^ 63" using le assms(3) by (simp add: algebra_simps)
    ultimately show ?thesis by (simp add: in64_def)
  qed
  ultimately show ?thesis using t go_div_nonneg [of "now - prior" i] assms by simp
qed

lemma catch_up_late:
  assumes "prior \<le> now" and "0 < i" and "now - prior + i < 2 ^ 63"
  shows "catch_up now i prior = Some (prior + ((now - prior) div i + 1) * i)"
proof -
  have "now - prior < ((now - prior) div i + 1) * i"
    using assms(2) by (metis add.commute div_mult_mod_eq distrib_right mult_1 pos_mod_bound add_strict_left_mono)
  then have "catch_up now i (prior + ((now - prior) div i + 1) * i) =
      Some (prior + ((now - prior) div i + 1) * i)"
    by (subst catch_up.simps) simp
  then show ?thesis
    using catch_up_round [OF assms] assms by (subst catch_up.simps) simp
qed

text \<open>
  C40: An interval schedule catches up in one round and never drifts. The loop returns, the next
  run lies in the future and a whole number of intervals after the run before it, and no earlier
  instant on that grid was still to come.
\<close>
theorem interval_stays_on_grid:
  assumes "0 < minimum" and "\<bar>now - p\<bar> + max interval minimum < 2 ^ 63"
  shows "\<exists>t k. next_run now ''interval'' interval (Some p) clock zone minimum = Some t \<and> now < t \<and>
    0 \<le> k \<and> t = p + k * max interval minimum \<and> (k = 0 \<or> t - max interval minimum \<le> now)"
proof -
  let ?i = "max interval minimum"
  have i: "0 < ?i" "next_run now ''interval'' interval (Some p) clock zone minimum = catch_up now ?i p"
    using assms(1) by (simp_all add: next_run_def next_interval_def max_def Let_def)
  show ?thesis
  proof (cases "now < p")
    case True
    then have "catch_up now ?i p = Some p" by (subst catch_up.simps) simp
    with True i(2) show ?thesis by (intro exI [of _ p] exI [of _ 0]) simp
  next
    case False
    let ?k = "(now - p) div ?i + 1"
    have "catch_up now ?i p = Some (p + ?k * ?i)"
      using False assms(2) i(1) by (intro catch_up_late) simp_all
    moreover have "(now - p) div ?i * ?i \<le> now - p"
      using i(1) by (metis div_mult_mod_eq pos_mod_sign le_add_same_cancel1)
    moreover have "now - p < ?k * ?i"
      using i(1) by (metis add.commute div_mult_mod_eq distrib_right mult_1 pos_mod_bound add_strict_left_mono)
    moreover have "0 \<le> ?k" using False i(1) by (simp add: pos_imp_zdiv_nonneg_iff)
    ultimately show ?thesis using i(2)
      by (intro exI [of _ "p + ?k * ?i"] exI [of _ ?k]) (simp add: algebra_simps)
  qed
qed

theorem interval_stays_on_grid_witness:
  "\<exists>t k. next_run 1000 ''interval'' 60 (Some 10) '''' None 100 = Some t \<and> (1000::int) < t \<and>
    0 \<le> k \<and> t = 10 + k * 100 \<and> (k = 0 \<or> t - 100 \<le> 1000)"
  using interval_stays_on_grid [of 100 1000 10 60 "''''" None] by simp

section \<open>Times of day\<close>

lemma find_filter: "find P (filter Q xs) = find (\<lambda>x. Q x \<and> P x) xs"
  by (induction xs) auto

lemma find_map_upt:
  assumes "k < n" and "P (f k)" and "\<And>j. j < k \<Longrightarrow> \<not> P (f j)"
  shows "find P (map f [0..<n]) = Some (f k)"
proof -
  have "[0..<n] = [0..<k] @ k # [Suc k..<n]"
    using upt_add_eq_append [of 0 k "n - k"] upt_conv_Cons [of k n] assms(1) by simp
  moreover have "find P (map f [0..<k]) = None" using assms(3) by (auto simp: find_None_iff)
  moreover have "find P (xs @ ys) = (case find P xs of None \<Rightarrow> find P ys | r \<Rightarrow> r)" for xs ys
    by (induction xs) auto
  ultimately show ?thesis using assms(2) by simp
qed

lemma parse_clock_range: "parse_clock s = Some t \<Longrightarrow> 0 \<le> t \<and> t < 1440"
  by (auto simp: parse_clock_def split: option.splits list.splits if_splits)

lemma fixed_zone_local:
  assumes "0 \<le> t" and "t < day_ns"
  shows "local_day (fixed_zone z) (d * day_ns + t - z) = d" "local_time (fixed_zone z) (d * day_ns + t - z) = t"
  using assms by (simp_all add: local_day_def local_time_def fixed_zone_def)

lemma day_minute: "0 \<le> m \<Longrightarrow> m < 1440 \<Longrightarrow> 0 \<le> m * minute_ns \<and> m * minute_ns < day_ns"
  by (simp add: day_ns_def minute_ns_def)

lemma div_below:
  fixes x d q :: int
  assumes "0 < q" and "x < d * q"
  shows "x div q < d"
proof -
  have "x div q * q \<le> x" using assms(1) by (metis div_mult_mod_eq pos_mod_sign le_add_same_cancel1)
  then have "x div q * q < d * q" using assms(2) by simp
  with assms(1) show ?thesis by simp
qed

lemma fixed_zone_candidate:
  fixes j :: nat and d z :: int
  defines "c \<equiv> (d * day_ns - z) - 180 * minute_ns + int j * minute_ns"
  assumes "j < 1620"
  shows "local_day (fixed_zone z) c = d \<longleftrightarrow> 180 \<le> j"
    and "180 \<le> j \<Longrightarrow> local_minute (fixed_zone z) c = int j - 180"
proof -
  have c: "c = d * day_ns + (int j - 180) * minute_ns - z" by (simp add: c_def algebra_simps)
  have late: "local_day (fixed_zone z) c = d \<and> local_time (fixed_zone z) c = (int j - 180) * minute_ns"
    if "180 \<le> j"
  proof -
    have "0 \<le> (int j - 180) * minute_ns" "(int j - 180) * minute_ns < day_ns"
      using day_minute [of "int j - 180"] that assms(2) by simp_all
    then show ?thesis unfolding c using fixed_zone_local by blast
  qed
  have early: "local_day (fixed_zone z) c \<noteq> d" if "j < 180"
  proof -
    have "(d * day_ns + (int j - 180) * minute_ns) div day_ns < d"
      by (rule div_below) (use that in \<open>simp_all add: minute_ns_def day_ns_def\<close>)
    then show ?thesis by (simp add: c local_day_def fixed_zone_def)
  qed
  from late early show "local_day (fixed_zone z) c = d \<longleftrightarrow> 180 \<le> j" by (meson not_le)
  show "local_minute (fixed_zone z) c = int j - 180" if "180 \<le> j"
    using late [OF that] by (simp add: local_minute_def minute_ns_def)
qed

lemma fixed_zone_scheduled:
  assumes "0 \<le> target" and "target < 1440"
  shows "scheduled_on (fixed_zone z) date target =
    Some (local_day (fixed_zone z) date * day_ns + target * minute_ns - z)"
proof -
  let ?l = "fixed_zone z" and ?d = "local_day (fixed_zone z) date"
  let ?c = "\<lambda>j. (?d * day_ns - z) - 180 * minute_ns + int j * minute_ns"
  let ?k = "180 + nat target"
  have at: "local_day ?l (?c j) = ?d \<longleftrightarrow> 180 \<le> j"
      "180 \<le> j \<Longrightarrow> local_minute ?l (?c j) = int j - 180" if "j < 1620" for j
    using fixed_zone_candidate [of j z ?d] that by simp_all
  have "find (\<lambda>c. local_day ?l c = ?d \<and> local_minute ?l c = target) (map ?c [0..<1920]) = Some (?c ?k)"
  proof (rule find_map_upt)
    show "?k < 1920" using assms by simp
    show "local_day ?l (?c ?k) = ?d \<and> local_minute ?l (?c ?k) = target"
      using at [of ?k] assms by simp
    show "\<not> (local_day ?l (?c j) = ?d \<and> local_minute ?l (?c j) = target)" if "j < ?k" for j
      using at [of j] assms that by (cases "180 \<le> j") auto
  qed
  moreover have "?c ?k = ?d * day_ns + target * minute_ns - z"
    using assms(1) by (simp add: algebra_simps)
  ultimately show ?thesis
    by (simp add: scheduled_on_def candidates_def find_filter fixed_zone_def Let_def)
qed

lemma daily_loop_future: "now < daily_loop l now target offsets"
  by (induction l now target offsets rule: daily_loop.induct)
    (auto simp: day_ns_def minute_ns_def Let_def split: option.splits)

lemma fixed_zone_daily:
  fixes target now z :: int
  assumes "0 \<le> target" and "target < 1440"
  defines "t \<equiv> local_day (fixed_zone z) now * day_ns + target * minute_ns - z"
  shows "daily_loop (fixed_zone z) now target [0, 1, 2] = (if now < t then t else t + day_ns)"
proof -
  let ?l = "fixed_zone z" and ?d = "local_day (fixed_zone z) now" and ?r = "local_time (fixed_zone z) now"
  have r: "0 \<le> ?r" "?r < day_ns" by (simp_all add: local_time_def day_ns_def minute_ns_def)
  have now: "now = ?d * day_ns + ?r - z"
    by (simp add: local_day_def local_time_def fixed_zone_def)
  have date: "local_day ?l (lo_date ?l (?d + k) ?r) = ?d + k" for k
    using fixed_zone_local(1) [OF r, of z "?d + k"] by (simp add: fixed_zone_def)
  have "0 \<le> target * minute_ns" using assms(1) by (simp add: minute_ns_def)
  then have "now < t + day_ns" using now r unfolding t_def by linarith
  then show ?thesis
    using date [of 0] date [of 1]
    by (simp add: fixed_zone_scheduled [OF assms(1,2)] t_def Let_def algebra_simps)
qed

text \<open>
  A daily schedule always lies in the future, in every time zone, with its changes of the
  clock. In a zone without such changes it is the first instant after now at which the clock
  shows the time that was set, to the nanosecond.
\<close>
theorem daily_is_next_occurrence:
  assumes "kind \<noteq> ''interval''" and "parse_clock clock = Some target"
    and "next_run now kind interval prior clock (Some l) minimum = Some t"
  shows "now < t \<and>
    (\<forall>z. l = fixed_zone z \<longrightarrow> local_time l t = target * minute_ns \<and>
      (\<forall>u. now < u \<and> local_time l u = target * minute_ns \<longrightarrow> t \<le> u))"
proof -
  have t: "t = daily_loop l now target [0, 1, 2]"
    using assms by (simp add: next_run_def next_daily_def Let_def)
  have range: "0 \<le> target" "target < 1440" using parse_clock_range [OF assms(2)] by simp_all
  have m: "0 \<le> target * minute_ns" "target * minute_ns < day_ns" using day_minute range by auto
  have "local_time l t = target * minute_ns \<and>
      (\<forall>u. now < u \<and> local_time l u = target * minute_ns \<longrightarrow> t \<le> u)" if l: "l = fixed_zone z" for z
  proof -
    let ?d = "local_day l now"
    let ?t = "\<lambda>d. d * day_ns + target * minute_ns - z"
    have tt: "t = (if now < ?t ?d then ?t ?d else ?t (?d + 1))"
      unfolding t l fixed_zone_daily [OF range] by (simp add: algebra_simps)
    have at: "local_time l (?t d) = target * minute_ns" for d
      unfolding l by (rule fixed_zone_local(2) [OF m])
    moreover have "t \<le> u" if u: "now < u" "local_time l u = target * minute_ns" for u
    proof -
      have ud: "u = ?t (local_day l u)"
        using u(2) by (simp add: l local_day_def local_time_def fixed_zone_def
            minus_mod_eq_div_mult [symmetric])
      have "?d \<le> local_day l u"
        using u(1) by (simp add: l local_day_def fixed_zone_def zdiv_mono1 day_ns_def minute_ns_def)
      then have "?t ?d \<le> ?t (local_day l u)" "?d < local_day l u \<Longrightarrow> ?t (?d + 1) \<le> ?t (local_day l u)"
        by (simp_all add: day_ns_def minute_ns_def)
      with u(1) ud tt \<open>?d \<le> local_day l u\<close> show ?thesis by (metis le_less not_le)
    qed
    ultimately show ?thesis using tt by auto
  qed
  moreover have "now < t" unfolding t by (rule daily_loop_future)
  ultimately show ?thesis by blast
qed

theorem daily_is_next_occurrence_witness:
  "\<exists>t. next_run 0 ''daily'' 0 None ''03:30'' (Some (fixed_zone 0)) 0 = Some t \<and> 0 < t \<and>
    local_time (fixed_zone 0) t = 210 * minute_ns"
proof -
  have p: "parse_clock ''03:30'' = Some 210"
    by (simp add: parse_clock_def clock_hour_def digit_val_def)
  obtain t where t: "next_run 0 ''daily'' 0 None ''03:30'' (Some (fixed_zone 0)) 0 = Some t"
    by (simp add: next_run_def)
  show ?thesis using daily_is_next_occurrence [OF _ p t] t by simp
qed

end
