(* ===== verification/Retention.thy ===== *)
theory Retention
  imports Schedule "HOL-Library.Multiset"
begin

text \<open>
  Which backups are removed (backend/backup/retention.go). The listing of the destination, the
  verification of an archive and the outcome of each removal are arguments; the order in which
  \<open>sort.Slice\<close> leaves archives of the same age is open, so the sort is an argument as well and
  whatever is proved holds for every sort that puts the newest first.
\<close>

record retention =
  rt_count :: int
  rt_age :: int
  rt_budget :: int

record retained_archive =
  ra_path :: string
  ra_size :: int
  ra_created :: int

text \<open>A directory entry: its name, what Lstat says (regular and size) and when Verify says it was made.\<close>

record backup_entry =
  be_name :: string
  be_info :: "(bool \<times> int) option"
  be_created :: "int option"

datatype rotate_error = BadPolicy | Unreadable | NotRemoved | NotSynced

definition archiveSuffix :: string where "archiveSuffix = ''.flixr-backup''"

definition has_suffix :: "string \<Rightarrow> string \<Rightarrow> bool" where
  "has_suffix s t \<longleftrightarrow> suffix t s"

definition retained :: "string \<Rightarrow> backup_entry \<Rightarrow> retained_archive option" where
  "retained destination e =
    (if \<not> prefix ''flixr-backup-'' (be_name e) \<or> \<not> has_suffix (be_name e) archiveSuffix then None
     else case be_info e of
       Some (True, bytes) \<Rightarrow>
         (case be_created e of None \<Rightarrow> None
          | Some t \<Rightarrow> Some \<lparr>ra_path = join_path [destination, be_name e], ra_size = bytes, ra_created = t\<rparr>)
     | _ \<Rightarrow> None)"

definition valid_archives :: "string \<Rightarrow> backup_entry list \<Rightarrow> retained_archive list" where
  "valid_archives destination es = List.map_filter (retained destination) es"

definition expired :: "retention \<Rightarrow> int \<Rightarrow> nat \<Rightarrow> int \<Rightarrow> retained_archive \<Rightarrow> bool" where
  "expired policy now i used a \<longleftrightarrow>
     int i \<ge> rt_count policy \<or>
     (rt_age policy > 0 \<and> time_sub now (ra_created a) > rt_age policy) \<or>
     used > rt_budget policy"

text \<open>The loop over the sorted archives: those it removed, and whether every removal succeeded.\<close>

fun rotate_loop :: "retention \<Rightarrow> int \<Rightarrow> (retained_archive \<Rightarrow> bool) \<Rightarrow> nat \<Rightarrow> int \<Rightarrow>
    retained_archive list \<Rightarrow> retained_archive list \<times> bool" where
  "rotate_loop policy now removable i used [] = ([], True)"
| "rotate_loop policy now removable i used (a # as) =
    (let used = wrap64 (used + ra_size a) in
     if i = 0 then rotate_loop policy now removable (Suc i) used as
     else if expired policy now i used a then
       (if \<not> removable a then ([], False)
        else (let (removed, ok) = rotate_loop policy now removable (Suc i) (wrap64 (used - ra_size a)) as in
              (a # removed, ok)))
     else rotate_loop policy now removable (Suc i) used as)"

definition rotate_backups :: "(retained_archive list \<Rightarrow> retained_archive list) \<Rightarrow> (retained_archive \<Rightarrow> bool) \<Rightarrow> bool \<Rightarrow>
    string \<Rightarrow> retention \<Rightarrow> int \<Rightarrow> backup_entry list option \<Rightarrow>
    retained_archive list \<times> (rotate_error, unit) result" where
  "rotate_backups sorter removable synced destination policy now entries =
    (if rt_count policy < 1 \<or> rt_age policy < 0 \<or> rt_budget policy < 1 then ([], Inl BadPolicy)
     else case entries of None \<Rightarrow> ([], Inl Unreadable)
     | Some es \<Rightarrow>
        (let (removed, ok) = rotate_loop policy now removable 0 0 (sorter (valid_archives destination es)) in
         if \<not> ok then (removed, Inl NotRemoved)
         else (removed, if synced then Inr () else Inl NotSynced)))"

section \<open>What a rotation keeps\<close>

definition total_size :: "retained_archive list \<Rightarrow> int" where
  "total_size as = sum_list (map ra_size as)"

lemma total_size_simps [simp]:
  "total_size [] = 0" "total_size (a # as) = ra_size a + total_size as"
  by (simp_all add: total_size_def)

lemma total_size_nonneg: "\<forall>a \<in> set as. 0 \<le> ra_size a \<Longrightarrow> 0 \<le> total_size as"
  by (induction as) auto

lemma total_size_mset: "mset as = mset bs \<Longrightarrow> total_size as = total_size bs"
  unfolding total_size_def by (metis mset_map sum_mset_sum_list)

text \<open>What holds of the archives kept by the rest of the loop, with i archives and used bytes before them.\<close>

definition fits :: "retention \<Rightarrow> int \<Rightarrow> nat \<Rightarrow> int \<Rightarrow> retained_archive list \<Rightarrow> bool" where
  "fits policy now i used kept \<longleftrightarrow>
     (kept = [] \<or> int i + int (length kept) \<le> rt_count policy \<and> used + total_size kept \<le> rt_budget policy) \<and>
     (\<forall>a \<in> set kept. rt_age policy > 0 \<longrightarrow> time_sub now (ra_created a) \<le> rt_age policy)"

lemma rotate_loop_keeps:
  assumes "rotate_loop policy now removable i used as = (removed, True)" and "0 < i" and "0 \<le> used"
    and "\<forall>a \<in> set as. 0 \<le> ra_size a" and "used + total_size as < 2 ^ 63"
  shows "\<exists>kept. mset kept + mset removed = mset as \<and> fits policy now i used kept"
  using assms
proof (induction policy now removable i used as arbitrary: removed rule: rotate_loop.induct)
  case (1 policy now removable i used)
  then show ?case by (simp add: fits_def)
next
  case (2 policy now removable i used a as)
  let ?u = "used + ra_size a"
  note pre = \<open>0 < i\<close> \<open>0 \<le> used\<close>
  have size: "0 \<le> ra_size a" "0 \<le> total_size as" "\<forall>a \<in> set as. 0 \<le> ra_size a"
    "?u + total_size as < 2 ^ 63"
    using 2(7,8) total_size_nonneg [of as] by simp_all
  have u: "wrap64 ?u = ?u" "wrap64 (?u - ra_size a) = used"
    using size pre by (simp_all add: in64_def)
  show ?case
  proof (cases "expired policy now i ?u a")
    case True
    obtain rs ok where r: "rotate_loop policy now removable (Suc i) used as = (rs, ok)" by fastforce
    with 2(4) pre True u have "removable a" "removed = a # rs" "ok"
      by (auto simp: Let_def split: if_splits)
    moreover have "\<exists>kept. mset kept + mset rs = mset as \<and> fits policy now (Suc i) used kept"
      using 2(2) [OF u(1) [symmetric], of rs] True r u size pre calculation by simp
    ultimately show ?thesis by (fastforce simp: fits_def)
  next
    case False
    have "rotate_loop policy now removable (Suc i) ?u as = (removed, True)"
      using 2(4) False u pre by (simp add: Let_def)
    then obtain kept where k: "mset kept + mset removed = mset as" "fits policy now (Suc i) ?u kept"
      using 2(3) [OF u(1) [symmetric]] False u size pre by auto
    have "fits policy now i used (a # kept)"
      using k(2) False by (auto simp: fits_def expired_def)
    with k(1) show ?thesis by (intro exI [of _ "a # kept"]) simp
  qed
qed

text \<open>A loop that meets nothing to remove removes nothing.\<close>

lemma rotate_loop_spares:
  assumes "0 < i" and "0 \<le> used" and "\<forall>a \<in> set as. 0 \<le> ra_size a" and "used + total_size as < 2 ^ 63"
    and "fits policy now i used as"
  shows "rotate_loop policy now removable i used as = ([], True)"
  using assms
proof (induction as arbitrary: i used)
  case Nil
  then show ?case by simp
next
  case (Cons a as)
  let ?u = "used + ra_size a"
  have size: "0 \<le> ra_size a" "0 \<le> total_size as" using Cons.prems total_size_nonneg [of as] by simp_all
  have u: "wrap64 ?u = ?u" using size Cons.prems by (simp add: in64_def)
  have fit: "fits policy now (Suc i) ?u as" "\<not> expired policy now i ?u a"
    using Cons.prems(5) size by (auto simp: fits_def expired_def)
  have "rotate_loop policy now removable (Suc i) ?u as = ([], True)"
    using Cons.IH [of "Suc i" ?u] Cons.prems size fit by simp
  with fit(2) u Cons.prems(1) show ?case by simp
qed

definition newest_first :: "retained_archive list \<Rightarrow> bool" where
  "newest_first as \<longleftrightarrow> sorted_wrt (\<lambda>a b. ra_created b \<le> ra_created a) as"


definition sample_entry :: "string \<Rightarrow> int \<Rightarrow> int \<Rightarrow> backup_entry" where
  "sample_entry x bytes t =
    \<lparr>be_name = ''flixr-backup-'' @ x @ archiveSuffix, be_info = Some (True, bytes), be_created = Some t\<rparr>"

definition sample_policy :: retention where
  "sample_policy = \<lparr>rt_count = 2, rt_age = 0, rt_budget = 100\<rparr>"

lemma sample_retained: "retained d (sample_entry x n t) =
    Some \<lparr>ra_path = join_path [d, ''flixr-backup-'' @ x @ archiveSuffix], ra_size = n, ra_created = t\<rparr>"
proof -
  have "suffix archiveSuffix ((''flixr-backup-'' @ x) @ archiveSuffix)" by (rule suffixI) simp
  then show ?thesis by (simp add: retained_def sample_entry_def has_suffix_def)
qed


end
