(* ===== verification/Captions.thy ===== *)
theory Captions
  imports GoPath
begin

text \<open>
  The conversion of subtitle files to WebVTT (backend/captions/captions.go): the reading and
  writing of timestamps, the conversion of a file block by block with its limits, and the bounded
  buffer the extractor writes to. Running FFmpeg is not modelled.
\<close>

datatype caption_error = SubtitleUnsupported | TooLarge | Malformed

definition MaxInputBytes :: int where "MaxInputBytes = 8388608"
definition maxCueCount :: int where "maxCueCount = 10000"
definition maxCueLine :: int where "maxCueLine = 16384"

definition newline :: char where "newline = CHR 0x0A"

section \<open>Timestamps\<close>

definition bounded_field :: "string \<Rightarrow> int option" where
  "bounded_field s = (case parse_int64 s of None \<Rightarrow> None | Some n \<Rightarrow> if n < 0 \<or> n > 59 then None else Some n)"

definition parse_timestamp :: "string \<Rightarrow> (caption_error, int) result" where
  "parse_timestamp value =
    (let parts = split_at (CHR '':'') (replace1 value '','' ''.'') in
     if length parts \<noteq> 2 \<and> length parts \<noteq> 3 then Inl Malformed
     else
       (case (if length parts = 3
              then (case parse_int64 (hd parts) of None \<Rightarrow> None | Some n \<Rightarrow> if n < 0 then None else Some n)
              else Some 0) of
          None \<Rightarrow> Inl Malformed
        | Some hours \<Rightarrow>
           (let parts = (if length parts = 3 then tl parts else parts) in
            case bounded_field (parts ! 0) of None \<Rightarrow> Inl Malformed | Some minutes \<Rightarrow>
            let secondsParts = split_str2 ''.'' (parts ! 1) in
            if length secondsParts \<noteq> 2 \<or> length (secondsParts ! 1) \<noteq> 3 then Inl Malformed
            else case bounded_field (secondsParts ! 0) of None \<Rightarrow> Inl Malformed | Some seconds \<Rightarrow>
            case parse_int64 (secondsParts ! 1) of None \<Rightarrow> Inl Malformed | Some milliseconds \<Rightarrow>
              Inr (wrap64 (((hours * 60 + minutes) * 60 + seconds) * 1000 + milliseconds)))))"

definition format_timestamp :: "int \<Rightarrow> string" where
  "format_timestamp ms =
    (let hours = go_div ms 3600000; ms = go_mod ms 3600000;
         minutes = go_div ms 60000; ms = go_mod ms 60000;
         seconds = go_div ms 1000; ms = go_mod ms 1000 in
     pad_int 2 hours @ '':'' @ pad_int 2 minutes @ '':'' @ pad_int 2 seconds @ ''.'' @ pad_int 3 ms)"

definition parse_range :: "string \<Rightarrow> (caption_error, int \<times> int) result" where
  "parse_range line =
    (case split_str2 ''-->'' line of
       [a, b] \<Rightarrow>
         (case parse_timestamp (trim_space a) of Inl e \<Rightarrow> Inl e
          | Inr start \<Rightarrow>
             (case fields (trim_space b) of [] \<Rightarrow> Inl Malformed
              | f # _ \<Rightarrow>
                 (case parse_timestamp f of Inl e \<Rightarrow> Inl Malformed
                  | Inr end \<Rightarrow> if end \<le> start then Inl Malformed else Inr (start, end))))
     | _ \<Rightarrow> Inl Malformed)"

section \<open>Conversion\<close>

text \<open>\<open>html.EscapeString\<close>\<close>

definition escape_char :: "char \<Rightarrow> string" where
  "escape_char c =
    (if c = CHR ''&'' then ''&amp;'' else if c = CHR 0x27 then ''&#39;''
     else if c = CHR ''<'' then ''&lt;'' else if c = CHR ''>'' then ''&gt;''
     else if c = CHR 0x22 then ''&#34;'' else [c])"

definition escape :: "string \<Rightarrow> string" where
  "escape s = concat (map escape_char s)"

definition normalized_input :: "string \<Rightarrow> string" where
  "normalized_input s =
    trim_prefix (replace_all (replace_all s [CHR 0x0D, newline] [newline]) [CHR 0x0D] [newline])
      [CHR 0xEF, CHR 0xBB, CHR 0xBF]"

text \<open>A block that holds no cue is skipped, \<open>None\<close>; otherwise its times and its lines of text.\<close>

definition parse_block :: "string \<Rightarrow> (caption_error, (int \<times> int \<times> string list) option) result" where
  "parse_block raw =
    (let lines = split_at newline (trim_space raw); first = trim_space (hd lines) in
     if first = '''' then Inr None
     else if equal_fold first ''WEBVTT'' \<or> prefix ''NOTE'' first \<or> first = ''STYLE'' \<or> first = ''REGION''
     then Inr None
     else
       (let timingIndex = (if \<not> contains first ''-->'' \<and> length lines > 1 then 1 else 0) in
        if \<not> contains (lines ! timingIndex) ''-->'' then Inl Malformed
        else (case parse_range (lines ! timingIndex) of Inl e \<Rightarrow> Inl e
              | Inr (start, end) \<Rightarrow> Inr (Some (start, end, drop (Suc timingIndex) lines)))))"

text \<open>The times of a cue after the offset was subtracted, if anything of it is left.\<close>

definition shifted :: "int \<Rightarrow> int \<times> int \<Rightarrow> (int \<times> int) option" where
  "shifted offset t =
    (case t of (start, end) \<Rightarrow>
      if end \<le> offset then None
      else (let start = max 0 (wrap64 (start - offset)); end = wrap64 (end - offset) in
            if end \<le> start then None else Some (start, end)))"

fun write_lines :: "string list \<Rightarrow> string \<Rightarrow> (caption_error, string) result" where
  "write_lines [] output = Inr output"
| "write_lines (line # lines) output =
    (if int (length line) > maxCueLine then Inl TooLarge
     else (let output = output @ escape line @ [newline] in
           if int (length output) > MaxInputBytes then Inl TooLarge else write_lines lines output))"

definition timing_line :: "int \<Rightarrow> int \<Rightarrow> string" where
  "timing_line start end =
    newline # format_timestamp start @ '' --> '' @ format_timestamp end @ [newline]"

fun convert_blocks :: "int \<Rightarrow> string list \<Rightarrow> nat \<Rightarrow> string \<Rightarrow> (caption_error, string) result" where
  "convert_blocks offset [] cues output = Inr output"
| "convert_blocks offset (raw # blocks) cues output =
    (case parse_block raw of
       Inl e \<Rightarrow> Inl e
     | Inr None \<Rightarrow> convert_blocks offset blocks cues output
     | Inr (Some (start, end, lines)) \<Rightarrow>
        (case shifted offset (start, end) of
           None \<Rightarrow> convert_blocks offset blocks cues output
         | Some (start, end) \<Rightarrow>
            if int cues \<ge> maxCueCount then Inl TooLarge
            else (case write_lines lines (output @ timing_line start end) of
                    Inl e \<Rightarrow> Inl e
                  | Inr output \<Rightarrow> convert_blocks offset blocks (Suc cues) output)))"

definition convert :: "string \<Rightarrow> string \<Rightarrow> int \<Rightarrow> (caption_error, string) result" where
  "convert input codec offsetMS =
    (if int (length input) > MaxInputBytes then Inl TooLarge
     else if to_lower (trim_space codec) \<notin> {''subrip'', ''srt'', ''webvtt''} then Inl SubtitleUnsupported
     else convert_blocks (max 0 offsetMS) (split_str [newline, newline] (normalized_input input)) 0
            (''WEBVTT'' @ [newline]))"

text \<open>The buffer FFmpeg writes to: what it holds after a write, what the write reports.\<close>

definition limited_write :: "nat \<Rightarrow> string \<Rightarrow> string \<Rightarrow> string \<times> nat \<times> bool" where
  "limited_write limit buffer value =
    (if length buffer \<ge> limit \<or> length value > limit - length buffer
     then (buffer @ take (limit - length buffer) value, length value, False)
     else (buffer @ value, length value, True))"

section \<open>Timestamps round trip\<close>

lemma digit_not: "digit_val c \<noteq> None \<Longrightarrow> c \<noteq> CHR '':'' \<and> c \<noteq> CHR '','' \<and> c \<noteq> CHR ''.''"
  by (auto simp: digit_val_def)

lemma pad_int_free:
  "0 \<le> i \<Longrightarrow> CHR '':'' \<notin> set (pad_int w i)" "0 \<le> i \<Longrightarrow> CHR '','' \<notin> set (pad_int w i)"
  "0 \<le> i \<Longrightarrow> CHR ''.'' \<notin> set (pad_int w i)"
  using set_pad_int digit_not by blast+

lemma index_of_char: "c \<notin> set s \<Longrightarrow> index_of s [c] = None"
  by (induction s) auto

lemma index_of_char_append: "c \<notin> set s \<Longrightarrow> index_of (s @ c # t) [c] = Some (length s)"
  by (induction s) auto

text \<open>
  Timestamps survive the round trip: what the converter writes for a time in milliseconds is
  read back as that time.
\<close>
theorem timestamp_round_trip:
  assumes "0 \<le> ms" and "ms < 2 ^ 63"
  shows "parse_timestamp (format_timestamp ms) = Inr ms"
proof -
  define h where "h = ms div 3600000"
  define r where "r = ms mod 3600000"
  define mi where "mi = r div 60000"
  define q where "q = r mod 60000"
  define se where "se = q div 1000"
  define mm where "mm = q mod 1000"
  have f: "format_timestamp ms = pad_int 2 h @ CHR '':'' # pad_int 2 mi @ CHR '':'' # pad_int 2 se @ CHR ''.'' # pad_int 3 mm"
    using assms by (simp add: format_timestamp_def go_div_nonneg go_mod_nonneg h_def r_def mi_def q_def
        se_def mm_def Let_def)
  have r: "0 \<le> h" "h < 2 ^ 63" "0 \<le> mi" "mi < 60" "0 \<le> se" "se < 60" "0 \<le> mm" "mm < 1000"
    using assms by (simp_all add: h_def r_def mi_def q_def se_def mm_def pos_imp_zdiv_nonneg_iff
        div_less_iff_less_mult)
  have ms: "((h * 60 + mi) * 60 + se) * 1000 + mm = ms"
    by (simp add: h_def r_def mi_def q_def se_def mm_def)
  have "CHR '','' \<notin> set (format_timestamp ms)" using r by (simp add: f pad_int_free)
  then have "replace1 (format_timestamp ms) '','' ''.'' = format_timestamp ms"
    by (simp add: replace1_def split_str2_def index_of_char)
  moreover have "split_at (CHR '':'') (format_timestamp ms) =
      [pad_int 2 h, pad_int 2 mi, pad_int 2 se @ CHR ''.'' # pad_int 3 mm]"
    using r by (simp add: f split_at_append split_at_no pad_int_free)
  moreover have "split_str2 ''.'' (pad_int 2 se @ CHR ''.'' # pad_int 3 mm) = [pad_int 2 se, pad_int 3 mm]"
    using r by (simp add: split_str2_def index_of_char_append pad_int_free)
  moreover have "length (pad_int 3 mm) = 3" using r by (simp add: length_pad_int)
  ultimately show ?thesis
    using r ms assms by (simp add: parse_timestamp_def bounded_field_def parse_pad_int in64_def Let_def)
qed

theorem timestamp_round_trip_witness:
  "parse_timestamp (format_timestamp 3723004) = Inr 3723004"
  by (rule timestamp_round_trip) simp_all

section \<open>What a conversion emits\<close>

type_synonym cue = "int \<times> int \<times> string list"

definition cue_text :: "cue \<Rightarrow> string" where
  "cue_text c = (case c of (start, end, lines) \<Rightarrow>
     timing_line start end @ concat (map (\<lambda>l. escape l @ [newline]) lines))"

definition block_cue :: "int \<Rightarrow> string \<Rightarrow> cue option" where
  "block_cue offset raw =
    (case parse_block raw of
       Inr (Some (start, end, lines)) \<Rightarrow>
         map_option (\<lambda>(start, end). (start, end, lines)) (shifted offset (start, end))
     | _ \<Rightarrow> None)"

definition block_cues :: "int \<Rightarrow> string list \<Rightarrow> cue list" where
  "block_cues offset blocks = List.map_filter (block_cue offset) blocks"

definition cue_ok :: "cue \<Rightarrow> bool" where
  "cue_ok c = (case c of (start, end, lines) \<Rightarrow>
     0 \<le> start \<and> start < end \<and> end < 2 ^ 63 \<and> (\<forall>l \<in> set lines. int (length l) \<le> maxCueLine))"

lemma cue_simps:
  "cue_text (start, end, lines) = timing_line start end @ concat (map (\<lambda>l. escape l @ [newline]) lines)"
  "cue_ok (start, end, lines) \<longleftrightarrow>
     0 \<le> start \<and> start < end \<and> end < 2 ^ 63 \<and> (\<forall>l \<in> set lines. int (length l) \<le> maxCueLine)"
  by (simp_all add: cue_text_def cue_ok_def)

definition inert_chars :: "char set" where
  "inert_chars = - {CHR ''<'', CHR ''>'', CHR 0x22, CHR 0x27, CHR 0x0D, newline}"

lemma set_escape: "newline \<notin> set l \<Longrightarrow> CHR 0x0D \<notin> set l \<Longrightarrow> set (escape l) \<subseteq> inert_chars"
  by (induction l) (auto simp: escape_def escape_char_def inert_chars_def newline_def)

lemma write_lines_ok:
  "write_lines lines written = Inr out \<Longrightarrow>
   out = written @ concat (map (\<lambda>l. escape l @ [newline]) lines) \<and> (\<forall>l \<in> set lines. int (length l) \<le> maxCueLine)"
  by (induction lines written rule: write_lines.induct) (auto simp: Let_def split: if_splits)

lemma shifted_ok: "shifted offset t = Some (start, end) \<Longrightarrow> 0 \<le> start \<and> start < end \<and> end < 2 ^ 63"
  using in64_wrap64 [of "snd t - offset"]
  by (auto simp: shifted_def in64_def Let_def split: prod.splits if_splits)

lemma block_cues_Cons: "block_cues offset (b # blocks) =
    (case block_cue offset b of None \<Rightarrow> [] | Some c \<Rightarrow> [c]) @ block_cues offset blocks"
  by (simp add: block_cues_def List.map_filter_def split: option.split)

lemma in_block_cues: "c \<in> set (block_cues offset blocks) \<Longrightarrow> \<exists>raw \<in> set blocks. block_cue offset raw = Some c"
proof (induction blocks)
  case Nil
  then show ?case by (simp add: block_cues_def List.map_filter_def)
next
  case (Cons b blocks)
  then show ?case by (auto simp: block_cues_Cons split: option.splits)
qed

lemma convert_blocks_emits:
  assumes "convert_blocks offset blocks n written = Inr out"
  shows "out = written @ concat (map cue_text (block_cues offset blocks)) \<and>
    list_all cue_ok (block_cues offset blocks) \<and> (int n \<le> maxCueCount \<longrightarrow> int (n + length (block_cues offset blocks)) \<le> maxCueCount)"
  using assms
proof (induction offset blocks n written rule: convert_blocks.induct)
  case (1 offset n written)
  then show ?case by (simp add: block_cues_def List.map_filter_def)
next
  case (2 offset raw blocks n written)
  show ?case
  proof (cases "block_cue offset raw")
    case None
    then have "convert_blocks offset blocks n written = Inr out"
      using 2(4) by (auto simp: block_cue_def split: sum.splits option.splits prod.splits)
    with None 2 show ?thesis
      by (auto simp: block_cues_Cons block_cue_def split: sum.splits option.splits prod.splits)
  next
    case (Some c)
    then obtain t lines s e where c: "parse_block raw = Inr (Some (fst t, snd t, lines))"
        "shifted offset t = Some (s, e)" "c = (s, e, lines)"
      by (auto simp: block_cue_def split: sum.splits option.splits prod.splits)
    then obtain o' where o: "int n < maxCueCount" "write_lines lines (written @ timing_line s e) = Inr o'"
        "convert_blocks offset blocks (Suc n) o' = Inr out"
      using 2(4) by (auto split: if_splits sum.splits)
    have "out = o' @ concat (map cue_text (block_cues offset blocks)) \<and>
        list_all cue_ok (block_cues offset blocks) \<and>
        (int (Suc n) \<le> maxCueCount \<longrightarrow> int (Suc n + length (block_cues offset blocks)) \<le> maxCueCount)"
      using 2(3) [OF c(1) refl refl refl _ refl _ o(2,3)] c(2) o(1) by simp
    with write_lines_ok [OF o(2)] shifted_ok [OF c(2)] o(1) c(3) Some show ?thesis
      by (simp add: block_cues_Cons cue_simps)
  qed
qed

text \<open>The input has no carriage return left and a block no newline in its lines.\<close>

lemma set_join: "set (join sep ps) \<subseteq> set sep \<union> \<Union> (set (map set ps))"
  by (induction sep ps rule: join.induct) auto

lemma set_split_str: "p \<in> set (split_str sep s) \<Longrightarrow> set p \<subseteq> set s"
proof (induction sep s rule: split_str.induct)
  case (1 sep s)
  from 1(2) have "p \<in> set (if sep = [] then [s] else case index_of s sep of None \<Rightarrow> [s]
      | Some i \<Rightarrow> take i s # split_str sep (drop (i + length sep) s))"
    by (subst (asm) split_str.simps)
  with 1(1) show ?case
    by (auto split: if_splits option.splits dest: in_set_takeD in_set_dropD)
qed

lemma split_char_free: "p \<in> set (split_str [c] s) \<Longrightarrow> c \<notin> set p"
proof (induction "[c]" s rule: split_str.induct)
  case (1 s)
  have free: "index_of s [c] = None \<Longrightarrow> c \<notin> set s" "index_of s [c] = Some i \<Longrightarrow> c \<notin> set (take i s)" for i s
    by (induction s arbitrary: i) (auto split: if_splits)
  from 1(2) have "p \<in> set (case index_of s [c] of None \<Rightarrow> [s]
      | Some i \<Rightarrow> take i s # split_str [c] (drop (i + length [c]) s))"
    by (subst (asm) split_str.simps) (simp del: list.size)
  with 1(1) free show ?case by (auto split: option.splits)
qed

lemma set_trim_space: "set (trim_space s) \<subseteq> set s"
proof -
  have "set (trim_right_codes (trim_left_codes (codes s))) \<subseteq> set (codes s)"
    using trim_right_prefix [of "trim_left_codes (codes s)"] trim_left_suffix [of "codes s"]
    by (meson set_mono_prefix set_mono_suffix subset_trans)
  then have "set (trim_space s) \<subseteq> char_of ` set (codes s)"
    by (auto simp: trim_space_def)
  then show ?thesis by (metis list.set_map map_char_of_codes)
qed

lemma normalized_no_return: "CHR 0x0D \<notin> set (normalized_input s)"
proof -
  have "CHR 0x0D \<notin> set (replace_all t [CHR 0x0D] [newline])" for t
    using set_join [of "[newline]" "split_str [CHR 0x0D] t"] split_char_free [of _ "CHR 0x0D" t]
    by (auto simp: replace_all_def newline_def)
  then show ?thesis
    by (auto simp: normalized_input_def trim_prefix_def dest: in_set_dropD)
qed

lemma block_lines:
  assumes "block_cue offset raw = Some (start, end, lines)" and "l \<in> set lines"
  shows "newline \<notin> set l \<and> set l \<subseteq> set raw"
proof -
  have l: "l \<in> set (split_at newline (trim_space raw))"
    using assms by (auto simp: block_cue_def parse_block_def Let_def
        split: sum.splits option.splits prod.splits if_splits dest: in_set_dropD)
  have "set p \<subseteq> set t" if "p \<in> set (split_at c t)" for p c t
    using that by (induction t arbitrary: p) (auto split: if_splits list.splits, blast)
  with split_at_free [OF l] l set_trim_space [of raw] show ?thesis by blast
qed

lemma convert_eq:
  assumes "convert input codec offset = Inr out"
  shows "convert_blocks (max 0 offset) (split_str [newline, newline] (normalized_input input)) 0
    (''WEBVTT'' @ [newline]) = Inr out"
  using assms by (simp add: convert_def split: if_splits)


definition sample_subtitles :: string where
  "sample_subtitles = join [newline] [''1'', ''00:00:01,500 --> 00:00:04,000'', ''<b>Hi</b>'', '''']"


text \<open>
  What the reader makes of files at the edge. A WebVTT file whose header line carries a
  title, which the format allows, is refused as malformed; a signed millisecond field is read as
  a time before its second; and a cue whose identifier starts with NOTE is dropped.
\<close>
lemma caption_edges:
  "convert (join [newline] [''WEBVTT - Film'', '''', ''00:01.000 --> 00:02.000'', ''Hi'']) ''webvtt'' 0 =
     Inl Malformed \<and>
   parse_timestamp ''00:00:01.-01'' = Inr 999 \<and>
   convert (join [newline] [''WEBVTT'', '''', ''NOTEBOOK'', ''00:01.000 --> 00:02.000'', ''Hi'']) ''webvtt'' 0 =
     Inr (''WEBVTT'' @ [newline])"
  by code_simp

end
