(* ===== verification/History.thy ===== *)
theory History
  imports Paging GoText "HOL-Library.Product_Lexorder"
begin

text \<open>
  Viewing history and ratings (backend/household/history.go). The tables are lists of rows in the
  order of their row ids, and each statement is a function on them: an insert with its conflict
  clause, an update with its condition, the query of a page. A call whose statements the database
  does not execute is the argument \<open>up = False\<close>; it changes nothing. Random identifiers and
  the clock are arguments.
\<close>

datatype household_error =
    ErrInvalidHistory | ErrHistoryClearNotFound | ErrCredentials | ErrProgressConflict | ErrDatabase | ErrRandom

definition historyPageMax :: int where "historyPageMax = 100"
definition historyUndoWindow :: int where "historyUndoWindow = 300000"
definition maxSourceTime :: int where "maxSourceTime = 8640000000000000"

definition EventCompleted :: string where "EventCompleted = ''completed''"
definition EventSummary :: string where "EventSummary = ''summary''"
definition ProvenanceLocal :: string where "ProvenanceLocal = ''local''"
definition ProvenanceImport :: string where "ProvenanceImport = ''import''"

record viewing_event =
  ve_OriginalCatalogID :: string
  ve_ID :: string
  ve_CatalogID :: string
  ve_Title :: string
  ve_Kind :: string
  ve_Type :: string
  ve_Provenance :: string
  ve_SourceID :: string
  ve_SourceTime :: "int option"
  ve_RecordedAt :: int

record rating =
  ra_CatalogID :: string
  ra_Value :: int
  ra_Provenance :: string
  ra_SourceID :: string
  ra_UpdatedAt :: int

record event_row =
  er_rowid :: int
  er_profile :: string
  er_event :: viewing_event

record clear_row =
  cl_id :: string
  cl_profile :: string
  cl_cleared_at :: int
  cl_cleared_rowid :: int
  cl_undo_until :: int
  cl_undone_at :: int

record progress_row =
  pr_position_ms :: int
  pr_updated_at :: int
  pr_completed :: bool
  pr_completed_at :: int
  pr_generation :: int
  pr_observation :: int
  pr_completion_id :: string

text \<open>\<open>hh_merged\<close> is the survivor of each active identity merge, by its source.\<close>

record household =
  hh_profiles :: "string list"
  hh_events :: "event_row list"
  hh_clears :: "clear_row list"
  hh_ratings :: "(string \<times> string, rating) gomap"
  hh_progress :: "(string \<times> string, progress_row) gomap"
  hh_merged :: "(string, string) gomap"

definition valid_provenance :: "string \<Rightarrow> bool" where
  "valid_provenance p \<longleftrightarrow> p = ProvenanceLocal \<or> p = ProvenanceImport"

definition valid_history_profile :: "string \<Rightarrow> household \<Rightarrow> bool" where
  "valid_history_profile p h \<longleftrightarrow> p \<in> set (hh_profiles h) \<and> p \<noteq> ''''"

definition valid_viewing_event :: "viewing_event \<Rightarrow> bool" where
  "valid_viewing_event e \<longleftrightarrow>
     ve_CatalogID e \<noteq> '''' \<and> trim_space (ve_Title e) \<noteq> '''' \<and> ve_Kind e \<noteq> '''' \<and>
     (ve_Type e = EventCompleted \<or> ve_Type e = EventSummary) \<and> valid_provenance (ve_Provenance e) \<and>
     \<not> (ve_Provenance e = ProvenanceLocal \<and> ve_SourceTime e \<noteq> None) \<and>
     (case ve_SourceTime e of None \<Rightarrow> True | Some t \<Rightarrow> 0 \<le> t \<and> t \<le> maxSourceTime)"

definition next_rowid :: "event_row list \<Rightarrow> int" where
  "next_rowid rows = 1 + fold (\<lambda>r n. max (er_rowid r) n) rows 0"

text \<open>The unique index on events that carry the identity of their source.\<close>

definition same_source :: "string \<Rightarrow> viewing_event \<Rightarrow> event_row \<Rightarrow> bool" where
  "same_source p e r \<longleftrightarrow> ve_SourceID e \<noteq> '''' \<and> er_profile r = p \<and>
     ve_Provenance (er_event r) = ve_Provenance e \<and> ve_CatalogID (er_event r) = ve_CatalogID e \<and>
     ve_SourceID (er_event r) = ve_SourceID e"

definition insert_event :: "string \<Rightarrow> viewing_event \<Rightarrow> household \<Rightarrow> household" where
  "insert_event p e h =
    (if \<exists>r \<in> set (hh_events h). same_source p e r then h
     else h\<lparr>hh_events := hh_events h @ [\<lparr>er_rowid = next_rowid (hh_events h), er_profile = p, er_event = e\<rparr>]\<rparr>)"

definition record_event_row :: "bool \<Rightarrow> string option \<Rightarrow> int \<Rightarrow> string \<Rightarrow> viewing_event \<Rightarrow> household \<Rightarrow>
    household \<times> (household_error, unit) result" where
  "record_event_row up token now p e h =
    (if \<not> valid_viewing_event e then (h, Inl ErrInvalidHistory)
     else case token of None \<Rightarrow> (h, Inl ErrRandom)
     | Some i \<Rightarrow>
        if \<not> up \<or> i \<in> ve_ID ` er_event ` set (hh_events h) then (h, Inl ErrDatabase)
        else (insert_event p (e\<lparr>ve_ID := i, ve_RecordedAt := now\<rparr>) h, Inr ()))"

definition record_viewing_event :: "bool \<Rightarrow> string option \<Rightarrow> int \<Rightarrow> string \<Rightarrow> viewing_event \<Rightarrow> household \<Rightarrow>
    household \<times> (household_error, unit) result" where
  "record_viewing_event up token now p e h =
    (if \<not> valid_history_profile p h \<or> \<not> valid_viewing_event e then (h, Inl ErrInvalidHistory)
     else record_event_row up token now p e h)"

definition set_rating :: "bool \<Rightarrow> int \<Rightarrow> string \<Rightarrow> string \<Rightarrow> int \<Rightarrow> string \<Rightarrow> string \<Rightarrow> household \<Rightarrow>
    household \<times> (household_error, unit) result" where
  "set_rating up now p catalogID v provenance sourceID h =
    (if \<not> valid_history_profile p h \<or> catalogID = '''' \<or> v < 1 \<or> v > 5 \<or> \<not> valid_provenance provenance
     then (h, Inl ErrInvalidHistory)
     else if \<not> up then (h, Inl ErrDatabase)
     else (h\<lparr>hh_ratings := AList.update (p, catalogID)
               \<lparr>ra_CatalogID = catalogID, ra_Value = v, ra_Provenance = provenance, ra_SourceID = sourceID,
                ra_UpdatedAt = now\<rparr> (hh_ratings h)\<rparr>, Inr ()))"

definition delete_rating :: "bool \<Rightarrow> string \<Rightarrow> string \<Rightarrow> household \<Rightarrow> household \<times> (household_error, unit) result" where
  "delete_rating up p catalogID h =
    (if \<not> valid_history_profile p h \<or> catalogID = '''' then (h, Inl ErrInvalidHistory)
     else if \<not> up then (h, Inl ErrDatabase)
     else (h\<lparr>hh_ratings := AList.delete (p, catalogID) (hh_ratings h)\<rparr>, Inr ()))"

definition get_rating :: "bool \<Rightarrow> string \<Rightarrow> string \<Rightarrow> household \<Rightarrow> (household_error, rating option) result" where
  "get_rating up p catalogID h =
    (if \<not> valid_history_profile p h \<or> catalogID = '''' then Inl ErrInvalidHistory
     else if \<not> up then Inl ErrDatabase
     else Inr (map_of (hh_ratings h) (p, catalogID)))"

section \<open>Pages of history\<close>

type_synonym history_cursor = "int \<times> string"

definition event_key :: "viewing_event \<Rightarrow> history_cursor" where
  "event_key e = (ve_RecordedAt e, ve_ID e)"

definition hidden :: "household \<Rightarrow> event_row \<Rightarrow> bool" where
  "hidden h r \<longleftrightarrow> (\<exists>c \<in> set (hh_clears h).
     cl_profile c = er_profile r \<and> cl_undone_at c = 0 \<and> er_rowid r \<le> cl_cleared_rowid c)"

text \<open>A row as the query returns it, with the survivor of an active merge in place of its item.\<close>

definition shown_event :: "household \<Rightarrow> event_row \<Rightarrow> viewing_event" where
  "shown_event h r =
    (let e = er_event r in
     e\<lparr>ve_OriginalCatalogID := ve_CatalogID e,
       ve_CatalogID := get_or (ve_CatalogID e) (hh_merged h) (ve_CatalogID e)\<rparr>)"

definition visible_events :: "string \<Rightarrow> household \<Rightarrow> viewing_event list" where
  "visible_events p h =
    map (shown_event h) (filter (\<lambda>r. er_profile r = p \<and> \<not> hidden h r) (hh_events h))"

definition newest_first_events :: "viewing_event list \<Rightarrow> viewing_event list" where
  "newest_first_events es = rev (sort_key event_key es)"

definition history_query :: "string \<Rightarrow> history_cursor \<Rightarrow> nat \<Rightarrow> household \<Rightarrow> viewing_event list" where
  "history_query p c n h =
    take n (newest_first_events (filter (\<lambda>e. event_key e < c) (visible_events p h)))"

definition history_bound :: "history_cursor \<Rightarrow> history_cursor" where
  "history_bound c = (if fst c = 0 then 2 ^ 62 else fst c, if snd c = '''' then ''~'' else snd c)"

definition decode_cursor :: "(string \<Rightarrow> history_cursor option) \<Rightarrow> string \<Rightarrow>
    (household_error, history_cursor) result" where
  "decode_cursor parse v =
    (if v = '''' then Inr (0, '''')
     else case parse v of None \<Rightarrow> Inl ErrInvalidHistory
     | Some (at, i) \<Rightarrow> if at < 0 \<or> i = '''' then Inl ErrInvalidHistory else Inr (at, i))"

definition history :: "(string \<Rightarrow> history_cursor option) \<Rightarrow> (history_cursor \<Rightarrow> string) \<Rightarrow> bool \<Rightarrow>
    string \<Rightarrow> int \<Rightarrow> string \<Rightarrow> household \<Rightarrow> (household_error, viewing_event list \<times> string) result" where
  "history parse print up p limit before h =
    (if \<not> valid_history_profile p h then Inl ErrInvalidHistory
     else
       (let limit = (if limit \<le> 0 then 25 else limit) in
        if limit > historyPageMax then Inl ErrInvalidHistory
        else case decode_cursor parse before of Inl e \<Rightarrow> Inl e
        | Inr c \<Rightarrow>
           if \<not> up then Inl ErrDatabase
           else
             (let es = history_query p (history_bound c) (nat limit + 1) h in
              if length es > nat limit
              then Inr (take (nat limit) es, print (event_key (es ! (nat limit - 1))))
              else Inr (es, ''''))))"

definition clear_history :: "bool \<Rightarrow> string option \<Rightarrow> int \<Rightarrow> string \<Rightarrow> household \<Rightarrow>
    household \<times> (household_error, string \<times> int) result" where
  "clear_history up token now p h =
    (if \<not> valid_history_profile p h then (h, Inl ErrInvalidHistory)
     else case token of None \<Rightarrow> (h, Inl ErrRandom)
     | Some i \<Rightarrow>
        if \<not> up \<or> i \<in> cl_id ` set (hh_clears h) then (h, Inl ErrDatabase)
        else
          (let cutoff = fold (\<lambda>r n. max (er_rowid r) n) (filter (\<lambda>r. er_profile r = p) (hh_events h)) 0;
               until = now + historyUndoWindow in
           (h\<lparr>hh_clears := hh_clears h @
                [\<lparr>cl_id = i, cl_profile = p, cl_cleared_at = now, cl_cleared_rowid = cutoff,
                  cl_undo_until = until, cl_undone_at = 0\<rparr>]\<rparr>, Inr (i, until))))"

definition undo_clear_history :: "bool \<Rightarrow> int \<Rightarrow> string \<Rightarrow> string \<Rightarrow> household \<Rightarrow>
    household \<times> (household_error, unit) result" where
  "undo_clear_history up now p clearID h =
    (if \<not> valid_history_profile p h \<or> clearID = '''' then (h, Inl ErrInvalidHistory)
     else if \<not> up then (h, Inl ErrDatabase)
     else
       (let hit = (\<lambda>c. cl_id c = clearID \<and> cl_profile c = p \<and> cl_undone_at c = 0 \<and> cl_undo_until c \<ge> now) in
        if length (filter hit (hh_clears h)) = 1
        then (h\<lparr>hh_clears := map (\<lambda>c. if hit c then c\<lparr>cl_undone_at := now\<rparr> else c) (hh_clears h)\<rparr>, Inr ())
        else (h, Inl ErrHistoryClearNotFound)))"

section \<open>Following the pages\<close>

definition real_event :: "viewing_event \<Rightarrow> bool" where
  "real_event e \<longleftrightarrow> 0 < ve_RecordedAt e \<and> ve_RecordedAt e < 2 ^ 62 \<and> ve_ID e \<noteq> ''''"

definition event_slice :: "viewing_event list \<Rightarrow> nat \<Rightarrow> history_cursor option \<Rightarrow>
    viewing_event list \<times> history_cursor option" where
  "event_slice items limit c =
    (let k = (case c of None \<Rightarrow> (2 ^ 62, ''~'') | Some k \<Rightarrow> k);
         es = take (limit + 1) (newest_first_events (filter (\<lambda>e. event_key e < k) items)) in
     if limit < length es then (take limit es, Some (event_key (es ! (limit - 1)))) else (es, None))"

lemma newest_first_filter: "newest_first_events (filter P items) = filter P (newest_first_events items)"
  by (simp only: newest_first_events_def filter_sort [symmetric] rev_filter)

lemma event_slice_cut:
  "0 < limit \<Longrightarrow> event_slice items limit (Some k) =
    cut_page event_key limit (filter (\<lambda>e. event_key e < k) (newest_first_events items))"
  by (auto simp: event_slice_def cut_page_def newest_first_filter Let_def min_def nth_take)

lemma event_slice_None: "event_slice items limit None = event_slice items limit (Some (2 ^ 62, ''~''))"
  by (simp add: event_slice_def)

interpretation history_pages: pager event_key "\<lambda>k l. l < k" newest_first_events real_event event_slice
proof
  show "l < k \<Longrightarrow> \<not> k < l" for k l :: history_cursor by simp
  show "sorted_wrt (\<lambda>x y. event_key y < event_key x) (newest_first_events xs)"
    if "distinct (map event_key xs)" for xs
  proof -
    have "distinct (map event_key (sort_key event_key xs))"
      using that by (simp add: distinct_map)
    then have "sorted_wrt (<) (map event_key (sort_key event_key xs))"
      by (simp add: strict_sorted_iff)
    then show ?thesis by (simp add: newest_first_events_def sorted_wrt_map sorted_wrt_rev)
  qed
  show "event_slice xs limit None = cut_page event_key limit (newest_first_events xs)"
    if "0 < limit" "list_all real_event xs" for xs limit
  proof -
    have "\<forall>e \<in> set (newest_first_events xs). event_key e < (2 ^ 62, ''~'')"
      using that(2) by (auto simp: newest_first_events_def list_all_iff real_event_def event_key_def)
    then show ?thesis by (simp add: event_slice_None event_slice_cut [OF that(1)] filter_id_conv)
  qed
qed (simp_all add: newest_first_events_def event_slice_cut)

definition history_fetch where
  "history_fetch parse print p limit h before = history parse print True p limit before h"

text \<open>
  A viewer sees their whole history. Following the pages from the newest event back, with
  any size of page, gives every event that is not cleared exactly once, newest first, and ends.
\<close>
theorem history_lists_every_event:
  assumes "\<forall>at i. 0 < at \<and> i \<noteq> '''' \<longrightarrow> parse (print (at, i)) = Some (at, i) \<and> print (at, i) \<noteq> ''''"
    and "valid_history_profile p h" and "1 \<le> limit" and "limit \<le> historyPageMax"
    and "list_all real_event (visible_events p h)" and "distinct (map event_key (visible_events p h))"
  shows "follow (Suc (length (visible_events p h))) (history_fetch parse print p limit h) '''' =
    Some (Inr (newest_first_events (visible_events p h)))"
proof -
  let ?es = "visible_events p h" and ?f = "history_fetch parse print p limit h"
  let ?good = "\<lambda>c. case c of None \<Rightarrow> True | Some (t, i) \<Rightarrow> 0 < t \<and> i \<noteq> ''''"
  have slice: "?f (sealed print c) =
      Inr (map (\<lambda>e. e) (fst (event_slice ?es (nat limit) c)), sealed print (snd (event_slice ?es (nat limit) c)))"
    if "?good c" for c
    using that assms(1-4)
    by (cases c) (auto simp: history_fetch_def history_def event_slice_def sealed_def decode_cursor_def
        history_query_def history_bound_def historyPageMax_def Let_def)
  have keep: "?good (snd (event_slice ?es (nat limit) c))" for c
  proof (cases "snd (event_slice ?es (nat limit) c)")
    case (Some k)
    then have "k \<in> event_key ` set ?es"
      using history_pages.page_cursor [of ?es "nat limit" c k] assms(3,5) by simp
    with Some assms(5) show ?thesis by (auto simp: list_all_iff real_event_def event_key_def)
  qed simp
  have "follow (Suc (length ?es)) ?f (sealed print None) =
      map_option (\<lambda>xs. Inr (map (\<lambda>e. e) xs)) (collect (Suc (length ?es)) (event_slice ?es (nat limit)) None)"
    by (rule follow_sealed [where good = ?good]) (use slice keep assms(1) in auto)
  moreover have "collect (Suc (length ?es)) (event_slice ?es (nat limit)) None = Some (newest_first_events ?es)"
    using assms(3,5,6) by (intro history_pages.collect_all) simp_all
  ultimately show ?thesis by (simp add: sealed_def)
qed

definition sample_event :: "string \<Rightarrow> viewing_event" where
  "sample_event i = \<lparr>ve_OriginalCatalogID = ''film'', ve_ID = i, ve_CatalogID = ''film'', ve_Title = ''Film'',
     ve_Kind = ''film'', ve_Type = EventCompleted, ve_Provenance = ProvenanceLocal, ve_SourceID = '''',
     ve_SourceTime = None, ve_RecordedAt = 7\<rparr>"

definition sample_household :: household where
  "sample_household = \<lparr>hh_profiles = [''p''],
     hh_events = [\<lparr>er_rowid = 1, er_profile = ''p'', er_event = sample_event ''a''\<rparr>,
                  \<lparr>er_rowid = 2, er_profile = ''p'', er_event = sample_event ''b''\<rparr>],
     hh_clears = [], hh_ratings = [], hh_progress = [], hh_merged = []\<rparr>"

lemma sample_visible: "visible_events ''p'' sample_household = [sample_event ''a'', sample_event ''b'']"
  by (simp add: visible_events_def sample_household_def hidden_def shown_event_def sample_event_def get_or_def Let_def)

definition unary_print :: "history_cursor \<Rightarrow> string" where
  "unary_print k = replicate (nat (fst k)) (CHR ''x'') @ CHR '':'' # snd k"

definition unary_parse :: "string \<Rightarrow> history_cursor option" where
  "unary_parse s = (let n = length (takeWhile (\<lambda>c. c = CHR ''x'') s) in Some (int n, drop (Suc n) s))"

lemma unary_round: "0 < at \<and> i \<noteq> '''' \<longrightarrow> unary_parse (unary_print (at, i)) = Some (at, i) \<and> unary_print (at, i) \<noteq> ''''"
proof -
  have "takeWhile (\<lambda>c. c = x) (replicate n x @ y # h) = replicate n x" if "y \<noteq> x" for n x y and h :: string
    using that by (induction n) auto
  then show ?thesis by (simp add: unary_print_def unary_parse_def Let_def)
qed

theorem history_lists_every_event_witness:
  "follow 3 (history_fetch unary_parse unary_print ''p'' 1 sample_household) '''' =
    Some (Inr [sample_event ''b'', sample_event ''a''])"
proof -
  have v: "valid_history_profile ''p'' sample_household"
    by (simp add: valid_history_profile_def sample_household_def)
  have "list_all real_event (visible_events ''p'' sample_household)"
    "distinct (map event_key (visible_events ''p'' sample_household))"
    unfolding sample_visible by (simp_all add: real_event_def event_key_def sample_event_def)
  from history_lists_every_event [OF _ v _ _ this, of unary_parse unary_print 1] unary_round show ?thesis
    by (simp add: historyPageMax_def sample_visible newest_first_events_def event_key_def sample_event_def
        numeral_3_eq_3)
qed

section \<open>Clearing and undoing\<close>

lemma fold_max_start: "k \<le> fold (\<lambda>r n. max (er_rowid r) n) rows k"
proof (induction rows arbitrary: k)
  case (Cons x rows)
  have "k \<le> max (er_rowid x) k" by simp
  also have "\<dots> \<le> fold (\<lambda>r n. max (er_rowid r) n) rows (max (er_rowid x) k)" by (rule Cons.IH)
  finally show ?case by simp
qed simp

lemma fold_max_ge: "r \<in> set rows \<Longrightarrow> er_rowid r \<le> fold (\<lambda>r n. max (er_rowid r) n) rows k"
proof (induction rows arbitrary: k)
  case (Cons x rows)
  show ?case
  proof (cases "r = x")
    case True
    have "er_rowid x \<le> max (er_rowid x) k" by simp
    also have "\<dots> \<le> fold (\<lambda>r n. max (er_rowid r) n) rows (max (er_rowid x) k)" by (rule fold_max_start)
    finally show ?thesis using True by simp
  qed (use Cons in simp)
qed simp

lemma fold_max_le:
  "\<forall>r \<in> set rows. er_rowid r \<le> n \<Longrightarrow> k \<le> n \<Longrightarrow> fold (\<lambda>r n. max (er_rowid r) n) rows k \<le> n"
  by (induction rows arbitrary: k) auto

text \<open>Row ids grow, so no clear reaches past the rows there are.\<close>

definition clears_bounded :: "household \<Rightarrow> bool" where
  "clears_bounded h \<longleftrightarrow> (\<forall>c \<in> set (hh_clears h). cl_cleared_rowid c < next_rowid (hh_events h))"

lemma cutoff_bounded:
  "fold (\<lambda>r n. max (er_rowid r) n) (filter P (hh_events h)) 0 < next_rowid (hh_events h)"
proof -
  have "fold (\<lambda>r n. max (er_rowid r) n) (filter P (hh_events h)) 0 \<le>
      fold (\<lambda>r n. max (er_rowid r) n) (hh_events h) 0"
    by (rule fold_max_le) (auto intro: fold_max_ge fold_max_start)
  then show ?thesis by (simp add: next_rowid_def)
qed

lemma clears_bounded_insert: "clears_bounded h \<Longrightarrow> clears_bounded (insert_event p e h)"
  by (auto simp: clears_bounded_def insert_event_def next_rowid_def)

lemma clears_bounded_clear: "clears_bounded h \<Longrightarrow> clears_bounded (fst (clear_history up token now p h))"
  using cutoff_bounded by (auto simp: clears_bounded_def clear_history_def Let_def split: option.splits)

lemma clears_bounded_undo: "clears_bounded h \<Longrightarrow> clears_bounded (fst (undo_clear_history up now p i h))"
  by (auto simp: clears_bounded_def undo_clear_history_def Let_def)

lemma visible_cong:
  assumes "hh_events g = hh_events h" and "hh_merged g = hh_merged h"
    and "\<And>r. r \<in> set (hh_events h) \<Longrightarrow> er_profile r = p \<Longrightarrow> hidden g r = hidden h r"
  shows "visible_events p g = visible_events p h"
proof -
  have "filter (\<lambda>r. er_profile r = p \<and> \<not> hidden g r) (hh_events h) =
      filter (\<lambda>r. er_profile r = p \<and> \<not> hidden h r) (hh_events h)"
    using assms(3) by (intro filter_cong) auto
  moreover have "shown_event g = shown_event h" using assms(2) by (auto simp: shown_event_def)
  ultimately show ?thesis using assms(1) by (simp add: visible_events_def)
qed

text \<open>
  C37: Clearing hides what there was, and undoing brings exactly that back. A clear leaves the
  viewer with an empty history and every other viewer with theirs; an event recorded afterwards is
  the only one shown; and within the window an undo with the identifier of the clear restores
  the history as it was.
\<close>
theorem clear_and_undo:
  assumes "clear_history up token now p h = (h', Inr (i, deadline))" and "clears_bounded h" and "i \<noteq> ''''"
    and "0 < now'" and "now' \<le> deadline"
  shows "visible_events p h' = [] \<and> (\<forall>q. q \<noteq> p \<longrightarrow> visible_events q h' = visible_events q h) \<and>
    (\<forall>e. \<not> (\<exists>r \<in> set (hh_events h). same_source p e r) \<longrightarrow>
       map ve_ID (visible_events p (insert_event p e h')) = [ve_ID e]) \<and>
    (\<exists>h''. undo_clear_history True now' p i h' = (h'', Inr ()) \<and>
       (\<forall>q. visible_events q h'' = visible_events q h))"
proof -
  define cutoff where
    "cutoff = fold (\<lambda>r n. max (er_rowid r) n) (filter (\<lambda>r. er_profile r = p) (hh_events h)) 0"
  define c where "c = \<lparr>cl_id = i, cl_profile = p, cl_cleared_at = now, cl_cleared_rowid = cutoff,
      cl_undo_until = deadline, cl_undone_at = 0\<rparr>"
  have h': "h' = h\<lparr>hh_clears := hh_clears h @ [c]\<rparr>" and fresh: "i \<notin> cl_id ` set (hh_clears h)"
    and profile: "valid_history_profile p h"
    using assms(1) by (auto simp: clear_history_def c_def cutoff_def Let_def split: if_splits option.splits)
  have old: "er_rowid r \<le> cutoff" if "r \<in> set (hh_events h)" "er_profile r = p" for r
    unfolding cutoff_def using that by (intro fold_max_ge) simp
  have hid: "hidden h' r \<longleftrightarrow> hidden h r \<or> er_profile r = p \<and> er_rowid r \<le> cutoff" for r
    by (auto simp: hidden_def h' c_def)
  have none: "filter (\<lambda>r. er_profile r = p \<and> \<not> hidden h' r) (hh_events h) = []"
    using hid old by (auto simp: filter_empty_conv)
  then have empty: "visible_events p h' = []" by (simp add: visible_events_def h')
  moreover have "visible_events q h' = visible_events q h" if "q \<noteq> p" for q
    by (rule visible_cong) (use hid that in \<open>auto simp: h'\<close>)
  moreover have "map ve_ID (visible_events p (insert_event p e h')) = [ve_ID e]"
    if "\<not> (\<exists>r \<in> set (hh_events h). same_source p e r)" for e
  proof -
    let ?r = "\<lparr>er_rowid = next_rowid (hh_events h), er_profile = p, er_event = e\<rparr>"
    have g: "insert_event p e h' = h'\<lparr>hh_events := hh_events h @ [?r]\<rparr>"
      using that by (simp add: insert_event_def h')
    have "cutoff < next_rowid (hh_events h)" unfolding cutoff_def by (rule cutoff_bounded)
    moreover have clears: "hh_clears (insert_event p e h') = hh_clears h @ [c]" unfolding g by (simp add: h')
    ultimately have "\<not> hidden (insert_event p e h') ?r"
      using assms(2) unfolding hidden_def clears by (auto simp: c_def clears_bounded_def)
    moreover have "hidden (insert_event p e h') r = hidden h' r" for r
      unfolding hidden_def clears by (simp add: h')
    ultimately show ?thesis
      using none unfolding visible_events_def by (simp add: shown_event_def Let_def g [simplified])
  qed
  moreover have "\<exists>h''. undo_clear_history True now' p i h' = (h'', Inr ()) \<and>
      (\<forall>q. visible_events q h'' = visible_events q h)"
  proof -
    let ?hit = "\<lambda>x. cl_id x = i \<and> cl_profile x = p \<and> cl_undone_at x = 0 \<and> cl_undo_until x \<ge> now'"
    let ?h'' = "h\<lparr>hh_clears := hh_clears h @ [c\<lparr>cl_undone_at := now'\<rparr>]\<rparr>"
    have "filter ?hit (hh_clears h) = []" "map (\<lambda>x. if ?hit x then x\<lparr>cl_undone_at := now'\<rparr> else x) (hh_clears h) = hh_clears h"
      using fresh by (auto simp: filter_empty_conv intro!: map_idI)
    then have "undo_clear_history True now' p i h' = (?h'', Inr ())"
      using assms(3,5) profile by (simp add: undo_clear_history_def h' c_def valid_history_profile_def)
    moreover have "visible_events q ?h'' = visible_events q h" for q
      by (rule visible_cong) (use assms(4) in \<open>auto simp: hidden_def c_def\<close>)
    ultimately show ?thesis by blast
  qed
  ultimately show ?thesis by blast
qed

theorem clear_and_undo_witness:
  "\<exists>h' h''. clear_history True (Some ''c'') 100 ''p'' sample_household = (h', Inr (''c'', 300100)) \<and>
    visible_events ''p'' h' = [] \<and> undo_clear_history True 200 ''p'' ''c'' h' = (h'', Inr ()) \<and>
    visible_events ''p'' h'' = [sample_event ''a'', sample_event ''b'']"
proof -
  obtain h' where c: "clear_history True (Some ''c'') 100 ''p'' sample_household = (h', Inr (''c'', 300100))"
    by (simp add: clear_history_def valid_history_profile_def sample_household_def historyUndoWindow_def)
  have "clears_bounded sample_household" by (simp add: clears_bounded_def sample_household_def)
  from clear_and_undo [OF c this, of 200] show ?thesis using c by (auto simp: sample_visible)
qed

end
