(* ===== verification/Progress.thy ===== *)
theory Progress
  imports History
begin

text \<open>
  Viewing progress (backend/household/progress.go, and SetWatched and ProgressState of
  household.go). One row per profile and item holds the position, whether it was completed, and
  who may write it: the generation of the playback that owns the row and the number of the last
  observation it made.
\<close>

definition valid_progress :: "string \<Rightarrow> string \<Rightarrow> int \<Rightarrow> household \<Rightarrow> bool" where
  "valid_progress p c position h \<longleftrightarrow> p \<in> set (hh_profiles h) \<and> p \<noteq> '''' \<and> c \<noteq> '''' \<and> position \<ge> 0"

definition progress_of :: "string \<Rightarrow> string \<Rightarrow> household \<Rightarrow> progress_row option" where
  "progress_of p c h = map_of (hh_progress h) (p, c)"

definition put_progress :: "string \<Rightarrow> string \<Rightarrow> progress_row \<Rightarrow> household \<Rightarrow> household" where
  "put_progress p c row h = h\<lparr>hh_progress := AList.update (p, c) row (hh_progress h)\<rparr>"

definition zero_progress :: progress_row where
  "zero_progress = \<lparr>pr_position_ms = 0, pr_updated_at = 0, pr_completed = False, pr_completed_at = 0,
     pr_generation = 0, pr_observation = 0, pr_completion_id = ''''\<rparr>"

definition resume_position :: "progress_row \<Rightarrow> int" where
  "resume_position row = (if pr_completed row then 0 else pr_position_ms row)"

definition begin_playback :: "bool \<Rightarrow> string \<Rightarrow> string \<Rightarrow> int option \<Rightarrow> household \<Rightarrow>
    household \<times> (household_error, int \<times> int) result" where
  "begin_playback up p c expected h =
    (if \<not> valid_progress p c 0 h then (h, Inl ErrCredentials)
     else if (case expected of None \<Rightarrow> False | Some g \<Rightarrow> g < 0) then (h, Inl ErrProgressConflict)
     else if \<not> up then (h, Inl ErrDatabase)
     else
       (let compare = (case expected of None \<Rightarrow> -1 | Some g \<Rightarrow> g) in
        case progress_of p c h of
          None \<Rightarrow>
            if compare > 0 then (h, Inl ErrProgressConflict)
            else (put_progress p c (zero_progress\<lparr>pr_generation := 1\<rparr>) h, Inr (1, 0))
        | Some row \<Rightarrow>
            if compare = -1 \<or> pr_generation row = compare
            then (let row = row\<lparr>pr_generation := pr_generation row + 1, pr_observation := 0,
                                pr_completion_id := ''''\<rparr> in
                  (put_progress p c row h, Inr (pr_generation row, resume_position row)))
            else (h, Inl ErrProgressConflict)))"

text \<open>The condition and the assignments of the update that stores an observation.\<close>

definition has_authority :: "int \<Rightarrow> int \<Rightarrow> progress_row \<Rightarrow> bool" where
  "has_authority generation observation row \<longleftrightarrow>
     pr_generation row = generation \<and> (observation = 0 \<or> pr_observation row < observation)"

definition observed_row :: "int \<Rightarrow> int \<Rightarrow> int \<Rightarrow> bool \<Rightarrow> string \<Rightarrow> progress_row \<Rightarrow> progress_row" where
  "observed_row now position observation completed completionID row =
    row\<lparr>pr_position_ms := position, pr_updated_at := now,
        pr_completed := (if pr_observation row = 0 then completed else pr_completed row \<or> completed),
        pr_completed_at := (if pr_observation row > 0 \<and> pr_completed row then pr_completed_at row
                            else if completed then now else 0),
        pr_completion_id := (if pr_completion_id row = '''' \<and> completed then completionID
                             else pr_completion_id row),
        pr_observation := (if observation = 0 then pr_observation row + 1 else observation)\<rparr>"

definition completion_event :: "progress_row \<Rightarrow> viewing_event \<Rightarrow> viewing_event" where
  "completion_event row e =
    (let e = (if ve_SourceID e = '''' then e\<lparr>ve_SourceID := pr_completion_id row\<rparr> else e);
         e = (if ve_Type e = '''' then e\<lparr>ve_Type := EventCompleted\<rparr> else e) in
     if ve_Provenance e = '''' then e\<lparr>ve_Provenance := ProvenanceLocal\<rparr> else e)"

definition record_playback_progress :: "bool \<Rightarrow> string option \<Rightarrow> string option \<Rightarrow> int \<Rightarrow> int \<Rightarrow>
    string \<Rightarrow> string \<Rightarrow> int \<Rightarrow> int \<Rightarrow> int \<Rightarrow> bool \<Rightarrow> viewing_event option \<Rightarrow> household \<Rightarrow>
    household \<times> (household_error, bool) result" where
  "record_playback_progress up token eventToken now eventNow p c position generation observation
     completed completion h =
    (if \<not> valid_progress p c position h \<or> generation < 0 \<or> observation < 0 then (h, Inl ErrCredentials)
     else
       (let completion = (if completed then completion else None) in
        if completion \<noteq> None \<and> token = None then (h, Inl ErrRandom)
        else if \<not> up then (h, Inl ErrDatabase)
        else case progress_of p c h of
          None \<Rightarrow> (h, Inr False)
        | Some row \<Rightarrow>
            if \<not> has_authority generation observation row then (h, Inr False)
            else
              (let completionID = (if completion = None then '''' else the token);
                   row = observed_row now position observation completed completionID row;
                   h' = put_progress p c row h in
               case completion of
                 None \<Rightarrow> (h', Inr True)
               | Some e \<Rightarrow>
                   (let e = completion_event row e in
                    if ve_SourceID e = '''' then (h, Inl ErrProgressConflict)
                    else (case record_event_row up eventToken eventNow p e h' of
                            (h'', Inl err) \<Rightarrow> (h, Inl err)
                          | (h'', Inr _) \<Rightarrow> (h'', Inr True))))))"

definition can_record_playback_progress :: "bool \<Rightarrow> string \<Rightarrow> string \<Rightarrow> int \<Rightarrow> int \<Rightarrow> household \<Rightarrow>
    (household_error, bool) result" where
  "can_record_playback_progress up p c generation observation h =
    (if \<not> valid_progress p c 0 h \<or> generation < 0 \<or> observation < 0 then Inl ErrCredentials
     else if \<not> up then Inl ErrDatabase
     else Inr (case progress_of p c h of None \<Rightarrow> False | Some row \<Rightarrow> has_authority generation observation row))"

definition progress_for_profile :: "bool \<Rightarrow> bool \<Rightarrow> int \<Rightarrow> string \<Rightarrow> string \<Rightarrow> int \<Rightarrow> household \<Rightarrow>
    household \<times> (household_error, unit) result" where
  "progress_for_profile up up' now p c position h =
    (case begin_playback up p c None h of
       (h, Inl e) \<Rightarrow> (h, Inl e)
     | (h, Inr (generation, _)) \<Rightarrow>
        (case record_playback_progress up' None None now now p c position generation 1 False None h of
           (h, Inl e) \<Rightarrow> (h, Inl e)
         | (h, Inr _) \<Rightarrow> (h, Inr ())))"

definition record_progress :: "bool \<Rightarrow> int \<Rightarrow> string \<Rightarrow> string \<Rightarrow> int \<Rightarrow> bool \<Rightarrow> int option \<Rightarrow> household \<Rightarrow>
    household \<times> (household_error, unit) result" where
  "record_progress up now p c position completed expected h =
    (if \<not> valid_progress p c position h then (h, Inl ErrCredentials)
     else
       (let generation = (case expected of None \<Rightarrow> 0 | Some g \<Rightarrow> g);
            written = (\<lambda>row. row\<lparr>pr_position_ms := position, pr_updated_at := now, pr_completed := completed,
                                 pr_completed_at := (if completed then now else 0),
                                 pr_generation := generation + 1, pr_observation := 0\<rparr>) in
        if generation < 0 then (h, Inl ErrProgressConflict)
        else if \<not> up then (h, Inl ErrDatabase)
        else case progress_of p c h of
          None \<Rightarrow> if generation = 0 then (put_progress p c (written zero_progress) h, Inr ())
                  else (h, Inl ErrProgressConflict)
        | Some row \<Rightarrow>
            if pr_generation row \<noteq> generation then (h, Inl ErrProgressConflict)
            else (put_progress p c (if generation = 0 then written row
                                    else (written row)\<lparr>pr_completion_id := ''''\<rparr>) h, Inr ())))"

text \<open>Marking a list of items is one transaction: an empty identifier undoes those before it.\<close>

definition watched_row :: "int \<Rightarrow> bool \<Rightarrow> progress_row option \<Rightarrow> progress_row" where
  "watched_row now watched old =
    (let row = (case old of None \<Rightarrow> zero_progress\<lparr>pr_generation := 1\<rparr>
          | Some row \<Rightarrow> row\<lparr>pr_generation := pr_generation row + 1, pr_observation := 0\<rparr>) in
     row\<lparr>pr_position_ms := (if watched then 2 ^ 62 else 0), pr_updated_at := now,
         pr_completed := watched, pr_completed_at := (if watched then now else 0)\<rparr>)"

definition set_watched :: "bool \<Rightarrow> int \<Rightarrow> string \<Rightarrow> string list \<Rightarrow> bool \<Rightarrow> household \<Rightarrow>
    household \<times> (household_error, unit) result" where
  "set_watched up now p cs watched h =
    (if p = '''' \<or> cs = [] then (h, Inl ErrCredentials)
     else if \<not> up then (h, Inl ErrDatabase)
     else if '''' \<in> set cs then (h, Inl ErrCredentials)
     else (fold (\<lambda>c h. put_progress p c (watched_row now watched (progress_of p c h)) h) cs h, Inr ()))"

definition progress_state :: "bool \<Rightarrow> string \<Rightarrow> string \<Rightarrow> household \<Rightarrow> (household_error, int \<times> int) result" where
  "progress_state up subject c h =
    (if subject = '''' \<or> subject = ''owner'' then Inl ErrCredentials
     else if \<not> up then Inl ErrDatabase
     else Inr (case progress_of subject c h of None \<Rightarrow> (0, 0)
               | Some row \<Rightarrow> (resume_position row, pr_generation row)))"

section \<open>The machine of progress\<close>

datatype progress_call =
    BeginPlayback bool string string "int option"
  | RecordPlaybackProgress bool "string option" "string option" int int string string int int int bool
      "viewing_event option"
  | ProgressForProfile bool bool int string string int
  | RecordProgress bool int string string int bool "int option"
  | SetWatched bool int string "string list" bool

fun progress_step :: "household \<Rightarrow> progress_call \<Rightarrow> household" where
  "progress_step h (BeginPlayback up p c e) = fst (begin_playback up p c e h)"
| "progress_step h (RecordPlaybackProgress up t et n en p c pos g ob d v) =
     fst (record_playback_progress up t et n en p c pos g ob d v h)"
| "progress_step h (ProgressForProfile up up' n p c pos) = fst (progress_for_profile up up' n p c pos h)"
| "progress_step h (RecordProgress up n p c pos d e) = fst (record_progress up n p c pos d e h)"
| "progress_step h (SetWatched up n p cs w) = fst (set_watched up n p cs w h)"

definition generation_of :: "string \<Rightarrow> string \<Rightarrow> household \<Rightarrow> int" where
  "generation_of p c h = (case progress_of p c h of None \<Rightarrow> 0 | Some row \<Rightarrow> pr_generation row)"

definition generations_ok :: "household \<Rightarrow> bool" where
  "generations_ok h \<longleftrightarrow> (\<forall>p c. 0 \<le> generation_of p c h)"

lemma progress_of_put [simp]:
  "progress_of p c (put_progress q d row h) = (if (p, c) = (q, d) then Some row else progress_of p c h)"
  by (auto simp: progress_of_def put_progress_def)

lemma generation_of_put [simp]:
  "generation_of p c (put_progress q d row h) = (if (p, c) = (q, d) then pr_generation row else generation_of p c h)"
  by (auto simp: generation_of_def)

lemma observed_generation [simp]: "pr_generation (observed_row n pos ob d i row) = pr_generation row"
  by (simp add: observed_row_def)

text \<open>No call lowers the generation of a row.\<close>

definition raises :: "household \<Rightarrow> household \<Rightarrow> bool" where
  "raises h h' \<longleftrightarrow> (\<forall>p c. generation_of p c h \<le> generation_of p c h')"

lemma raises_refl [simp]: "raises h h"
  by (simp add: raises_def)

lemma raises_trans: "raises h h' \<Longrightarrow> raises h' h'' \<Longrightarrow> raises h h''"
  unfolding raises_def by (meson order_trans)

lemma raises_put: "generation_of p c h \<le> pr_generation row \<Longrightarrow> raises h (put_progress p c row h)"
  by (auto simp: raises_def)

lemma generation_of_Some: "progress_of p c h = Some row \<Longrightarrow> generation_of p c h = pr_generation row"
  by (simp add: generation_of_def)

lemma generation_of_None: "progress_of p c h = None \<Longrightarrow> generation_of p c h = 0"
  by (simp add: generation_of_def)

lemma record_event_raises: "record_event_row up t n p e h = (h', r) \<Longrightarrow> raises h h'"
  by (auto simp: record_event_row_def insert_event_def raises_def generation_of_def progress_of_def
      split: if_splits option.splits)

lemma begin_raises: "raises h (fst (begin_playback up p c e h))"
  by (auto simp: begin_playback_def Let_def generation_of_Some generation_of_None
      intro!: raises_put split: option.split)

lemma record_raises: "raises h (fst (record_playback_progress up t et n en p c pos g ob d v h))"
proof -
  have put: "raises h (put_progress p c (observed_row n pos ob d' i row) h)"
    if "progress_of p c h = Some row" for i row d'
    using that by (intro raises_put) (simp add: generation_of_Some)
  show ?thesis
    using raises_trans [OF put record_event_raises]
    by (auto simp: record_playback_progress_def Let_def put split: option.split sum.split prod.split)
qed

lemma legacy_raises: "raises h (fst (record_progress up n p c pos d e h))"
  by (auto simp: record_progress_def Let_def generation_of_Some generation_of_None
      intro!: raises_put split: option.split)

lemma watched_raises: "raises h (fst (set_watched up n p cs w h))"
proof -
  have "raises h (fold (\<lambda>c h. put_progress p c (watched_row n w (progress_of p c h)) h) cs h)"
  proof (induction cs arbitrary: h)
    case (Cons c cs)
    have "raises h (put_progress p c (watched_row n w (progress_of p c h)) h)"
      by (cases "progress_of p c h")
        (auto simp: watched_row_def generation_of_Some generation_of_None Let_def intro!: raises_put)
    with Cons show ?case by (simp add: raises_trans)
  qed simp
  then show ?thesis by (simp add: set_watched_def)
qed

lemma profile_raises: "raises h (fst (progress_for_profile up up' n p c pos h))"
proof -
  obtain h' r where b: "begin_playback up p c None h = (h', r)" by fastforce
  have "raises h h'" using begin_raises [of h up p c None] b by simp
  moreover have "raises h' (fst (record_playback_progress up' None None n n p c pos g 1 False None h'))" for g
    by (rule record_raises)
  ultimately show ?thesis
    using raises_trans by (auto simp: progress_for_profile_def b split: sum.split prod.split) (metis fst_conv raises_trans)+
qed

lemma progress_step_raises: "raises h (progress_step h call)"
  by (cases call) (simp_all add: begin_raises record_raises legacy_raises watched_raises profile_raises)

definition empty_household :: "string list \<Rightarrow> household" where
  "empty_household profiles = \<lparr>hh_profiles = profiles, hh_events = [], hh_clears = [], hh_ratings = [],
     hh_progress = [], hh_merged = []\<rparr>"

interpretation progress: monotone_machine "empty_household profiles" progress_step generations_ok
    "generation_of p c"
  for profiles p c
proof
  show "generations_ok (empty_household profiles)"
    by (simp add: generations_ok_def empty_household_def generation_of_def progress_of_def)
  show "generations_ok (progress_step s e)" if "generations_ok s" for s e
    using that progress_step_raises [of s e] unfolding generations_ok_def raises_def by (meson order_trans)
  show "generation_of p c s \<le> generation_of p c (progress_step s e)" for s e
    using progress_step_raises [of s e] by (simp add: raises_def)
qed

section \<open>Old writers are fenced\<close>

lemma begin_takes:
  assumes "begin_playback up p c e h = (h', Inr (g, pos))" and "generations_ok h"
  shows "generation_of p c h' = g" "0 < g" "generations_ok h'"
proof -
  show "generation_of p c h' = g"
    using assms(1) by (auto simp: begin_playback_def Let_def split: if_splits option.splits)
  have "0 \<le> generation_of p c h" using assms(2) by (simp add: generations_ok_def)
  then show "0 < g"
    using assms(1) by (auto simp: begin_playback_def Let_def generation_of_def split: if_splits option.splits)
  show "generations_ok h'"
    using assms begin_raises [of h up p c e] unfolding generations_ok_def raises_def
    by (metis fst_conv order_trans)
qed

text \<open>
  C10: A new playback takes over for good. Once BeginPlayback returned a generation, no write with
  an older one is ever accepted again, whatever calls run in between: it reports so or fails, and
  leaves the database as it is.
\<close>
theorem old_writer_fenced:
  assumes "begin_playback up p c e h = (h', Inr (g', start))" and "generations_ok h" and "g < g'"
    and "later = run_steps progress_step h' calls"
  shows "(\<exists>r. record_playback_progress up' t et n en p c pos g ob d v later = (later, r) \<and> r \<noteq> Inr True) \<and>
    (\<exists>err. record_progress up' n p c pos d (Some g) later = (later, Inl err))"
proof -
  note b = begin_takes [OF assms(1,2)]
  have "g' \<le> generation_of p c later"
    unfolding assms(4) using progress.level_run [OF b(3), of p c calls] b(1) by simp
  with b(2) assms(3) obtain row where row: "progress_of p c later = Some row" "g < pr_generation row"
    by (auto simp: generation_of_def split: option.splits)
  then show ?thesis
    by (auto simp: record_playback_progress_def record_progress_def has_authority_def Let_def split: option.splits)
qed

definition sample_viewer :: household where
  "sample_viewer = empty_household [''p'']"

theorem old_writer_fenced_witness:
  "\<exists>h1 h2 r. begin_playback True ''p'' ''film'' None sample_viewer = (h1, Inr (1, 0)) \<and>
    begin_playback True ''p'' ''film'' None h1 = (h2, Inr (2, 0)) \<and>
    record_playback_progress True None None 5 5 ''p'' ''film'' 60000 1 1 False None h2 = (h2, r) \<and> r \<noteq> Inr True"
proof -
  obtain h1 where h1: "begin_playback True ''p'' ''film'' None sample_viewer = (h1, Inr (1, 0))"
    and ok1: "generations_ok h1" and "progress_of ''p'' ''film'' h1 = Some (zero_progress\<lparr>pr_generation := 1\<rparr>)"
    and "hh_profiles h1 = [''p'']"
    using begin_takes(3) [of True "''p''" "''film''" None sample_viewer] progress.ok_start [of "[''p'']"]
    by (fastforce simp: begin_playback_def valid_progress_def sample_viewer_def empty_household_def
        progress_of_def put_progress_def zero_progress_def)
  then obtain h2 where h2: "begin_playback True ''p'' ''film'' None h1 = (h2, Inr (2, 0))"
    by (auto simp: begin_playback_def valid_progress_def zero_progress_def resume_position_def Let_def)
  from old_writer_fenced [where calls = "[]" and later = h2 and g = 1 and up' = True and t = None and et = None
      and n = 5 and en = 5 and pos = 60000 and ob = 1 and d = False and v = None, OF h2 ok1] h1 h2
  show ?thesis by auto
qed

section \<open>The latest observation wins\<close>

type_synonym observation = "int \<times> int \<times> bool \<times> int"

fun deliver :: "string \<Rightarrow> string \<Rightarrow> int \<Rightarrow> observation list \<Rightarrow> household \<Rightarrow> household" where
  "deliver p c g [] h = h"
| "deliver p c g ((pos, ob, done, now) # obs) h =
    deliver p c g obs (fst (record_playback_progress True None None now now p c pos g ob done None h))"

lemma put_profiles [simp]: "hh_profiles (put_progress p c row h) = hh_profiles h"
  by (simp add: put_progress_def)

lemma record_observation:
  assumes "progress_of p c h = Some row" and "pr_generation row = g" and "valid_progress p c 0 h" and "0 \<le> g"
    and "0 \<le> pos" and "0 < ob"
  shows "fst (record_playback_progress True None None now now p c pos g ob done None h) =
    (if pr_observation row < ob then put_progress p c (observed_row now pos ob done '''' row) h else h)"
  using assms by (auto simp: record_playback_progress_def valid_progress_def has_authority_def Let_def)

text \<open>A row after some observations: of the same playback, and as the highest of them left it.\<close>

definition latest :: "progress_row \<Rightarrow> observation list \<Rightarrow> progress_row \<Rightarrow> bool" where
  "latest row obs row' \<longleftrightarrow> pr_generation row' = pr_generation row \<and>
     (pr_position_ms row', pr_observation row') \<in>
       insert (pr_position_ms row, pr_observation row) ((\<lambda>(pos, ob, d, n). (pos, ob)) ` set obs) \<and>
     pr_observation row \<le> pr_observation row' \<and> (\<forall>(pos, ob, d, n) \<in> set obs. ob \<le> pr_observation row')"

lemma latest_accepted:
  "latest (observed_row n pos ob d i row) obs row' \<Longrightarrow> pr_observation row < ob \<Longrightarrow> 0 < ob \<Longrightarrow>
   latest row ((pos, ob, d, n) # obs) row'"
  by (auto simp: latest_def observed_row_def)

lemma latest_refused:
  "latest row obs row' \<Longrightarrow> ob \<le> pr_observation row \<Longrightarrow> latest row ((pos, ob, d, n) # obs) row'"
  by (auto simp: latest_def)

lemma deliver_latest:
  assumes "progress_of p c h = Some row" and "pr_generation row = g" and "valid_progress p c 0 h" and "0 \<le> g"
    and "list_all (\<lambda>(pos, ob, done, now). 0 \<le> pos \<and> 0 < ob) obs"
  shows "\<exists>row'. progress_of p c (deliver p c g obs h) = Some row' \<and> latest row obs row'"
  using assms
proof (induction p c g obs h arbitrary: row rule: deliver.induct)
  case (1 p c g h)
  then show ?case by (simp add: latest_def)
next
  case (2 p c g pos ob d n obs h)
  let ?h = "fst (record_playback_progress True None None n n p c pos g ob d None h)"
  let ?row = "observed_row n pos ob d '''' row"
  have ob: "0 < ob" "0 \<le> pos" and obs: "list_all (\<lambda>(pos, ob, done, now). 0 \<le> pos \<and> 0 < ob) obs"
    using 2(6) by simp_all
  have step: "?h = (if pr_observation row < ob then put_progress p c ?row h else h)"
    using 2(2-5) ob by (intro record_observation) auto
  show ?case
  proof (cases "pr_observation row < ob")
    case True
    with step have h: "?h = put_progress p c ?row h" by simp
    have "progress_of p c ?h = Some ?row" "pr_generation ?row = g" "valid_progress p c 0 ?h"
      unfolding h using 2(3,4) by (simp_all add: valid_progress_def)
    from 2(1) [OF this 2(5) obs] show ?thesis
      using latest_accepted [OF _ True ob(1)] by (metis deliver.simps(2))
  next
    case False
    with step have h: "?h = h" by simp
    have "\<exists>row'. progress_of p c (deliver p c g obs ?h) = Some row' \<and> latest row obs row'"
      by (rule 2(1)) (use 2(2-5) obs in \<open>simp_all add: h\<close>)
    with False show ?thesis
      using latest_refused [of row obs _ ob] by (metis deliver.simps(2) not_le)
  qed
qed

text \<open>
  C31: The order in which observations arrive does not matter. Whatever the order and however
  often they are delivered, the row ends with the position of the highest numbered observation,
  so two deliveries of the same observations end in the same place.
\<close>
theorem latest_observation_wins:
  assumes "progress_of p c h = Some row" and "pr_generation row = g" and "valid_progress p c 0 h" and "0 \<le> g"
    and "list_all (\<lambda>(pos, ob, done, now). 0 \<le> pos \<and> 0 < ob) obs" and "set obs' = set obs"
    and "\<forall>a \<in> set obs. \<forall>b \<in> set obs. fst (snd a) = fst (snd b) \<longrightarrow> fst a = fst b"
    and "\<forall>a \<in> set obs. fst (snd a) \<noteq> pr_observation row"
  shows "\<exists>r r'. progress_of p c (deliver p c g obs h) = Some r \<and> progress_of p c (deliver p c g obs' h) = Some r' \<and>
    pr_position_ms r = pr_position_ms r' \<and> pr_observation r = pr_observation r' \<and>
    (\<forall>(pos, ob, done, now) \<in> set obs. ob \<le> pr_observation r \<and> (ob = pr_observation r \<longrightarrow> pr_position_ms r = pos))"
proof -
  have "list_all (\<lambda>(pos, ob, done, now). 0 \<le> pos \<and> 0 < ob) obs'"
    using assms(5,6) by (simp add: list_all_iff)
  then obtain r r' where r: "progress_of p c (deliver p c g obs h) = Some r" "latest row obs r"
      "progress_of p c (deliver p c g obs' h) = Some r'" "latest row obs' r'"
    using deliver_latest [OF assms(1-4)] assms(5) by blast
  let ?f = "\<lambda>(pos, ob, d, n). (pos, ob)"
  have in_r: "(pr_position_ms r, pr_observation r) \<in> insert (pr_position_ms row, pr_observation row) (?f ` set obs)"
    "(pr_position_ms r', pr_observation r') \<in> insert (pr_position_ms row, pr_observation row) (?f ` set obs)"
    using r(2,4) assms(6) by (auto simp: latest_def)
  have top: "pr_observation row \<le> pr_observation r" "\<forall>(pos, ob) \<in> ?f ` set obs. ob \<le> pr_observation r"
    "pr_observation row \<le> pr_observation r'" "\<forall>(pos, ob) \<in> ?f ` set obs. ob \<le> pr_observation r'"
    using r(2,4) assms(6) by (auto simp: latest_def)
  have eq: "pr_observation r = pr_observation r'" using in_r top by force
  have pick: "\<exists>a \<in> set obs. fst a = pos \<and> fst (snd a) = ob" if "(pos, ob) \<in> ?f ` set obs" for pos ob
    using that by force
  have same: "pos = pos'" if "(pos, ob) \<in> insert (pr_position_ms row, pr_observation row) (?f ` set obs)"
      "(pos', ob) \<in> insert (pr_position_ms row, pr_observation row) (?f ` set obs)" for pos pos' ob
  proof (cases "ob = pr_observation row")
    case True
    with that pick assms(8) show ?thesis by (metis insertE prod.inject)
  next
    case False
    with that have "(pos, ob) \<in> ?f ` set obs" "(pos', ob) \<in> ?f ` set obs" by simp_all
    with pick assms(7) show ?thesis by metis
  qed
  have "pr_position_ms r = pr_position_ms r'" using same in_r eq by metis
  moreover have "ob \<le> pr_observation r \<and> (ob = pr_observation r \<longrightarrow> pr_position_ms r = pos)"
    if "(pos, ob, d, n) \<in> set obs" for pos ob d n
  proof -
    have m: "(pos, ob) \<in> ?f ` set obs" using that by force
    then have "ob \<le> pr_observation r" using top(2) by blast
    moreover have "pr_position_ms r = pos" if "ob = pr_observation r"
      by (rule same [OF in_r(1)]) (use m that in blast)
    ultimately show ?thesis by blast
  qed
  ultimately show ?thesis using r eq by blast
qed

theorem latest_observation_wins_witness:
  "\<exists>h r r'. begin_playback True ''p'' ''film'' None sample_viewer = (h, Inr (1, 0)) \<and>
    progress_of ''p'' ''film'' (deliver ''p'' ''film'' 1 [(10, 1, False, 5), (20, 2, False, 6)] h) = Some r \<and>
    progress_of ''p'' ''film'' (deliver ''p'' ''film'' 1 [(20, 2, False, 6), (10, 1, False, 5)] h) = Some r' \<and>
    pr_position_ms r = pr_position_ms r'"
proof -
  let ?row = "zero_progress\<lparr>pr_generation := 1\<rparr>"
  let ?h = "put_progress ''p'' ''film'' ?row sample_viewer"
  have b: "begin_playback True ''p'' ''film'' None sample_viewer = (?h, Inr (1, 0))"
    by (simp add: begin_playback_def valid_progress_def sample_viewer_def empty_household_def progress_of_def)
  have "progress_of ''p'' ''film'' ?h = Some ?row" "pr_generation ?row = 1" "valid_progress ''p'' ''film'' 0 ?h"
    by (simp_all add: valid_progress_def sample_viewer_def empty_household_def)
  from latest_observation_wins [OF this, of "[(10, 1, False, 5), (20, 2, False, 6)]"
      "[(20, 2, False, 6), (10, 1, False, 5)]"] b
  show ?thesis by (auto simp: zero_progress_def insert_commute)
qed

end
