(* ===== verification/Restore.thy ===== *)
theory Restore
  imports GoPath
begin

text \<open>
  Replacing an installation by a backup (backend/backup/restore.go): the journal, the moves that
  publish the staged installation, and the recovery that a start after a crash runs. A crash may
  come between any two operations on the file system and inside a recursive removal. Of the
  target directory the model keeps what the code names: the three managed entries, where the
  previous ones are put aside, the stage, and the journal. A rename that fails changes nothing and
  makes the code stop, which is a crash at that point for what follows.
\<close>

datatype item = Database | Artwork | Sidecar

definition items :: "item list" where
  "items = [Database, Artwork, Sidecar]"

record restore_journal =
  rj_Phase :: string
  rj_Stage :: string
  rj_Had :: "item \<Rightarrow> bool"

datatype journal_file = NoJournal | BadJournal | Journal restore_journal

text \<open>What is at a place is a text, of which nothing is used; \<open>fs_stage\<close> is the name of the stage.\<close>

record fs =
  fs_live :: "item \<Rightarrow> string option"
  fs_prior :: "item \<Rightarrow> string option"
  fs_staged :: "item \<Rightarrow> string option"
  fs_stage :: "string option"
  fs_journal :: journal_file

definition restoreStagePrefix :: string where "restoreStagePrefix = ''.flixr-restore-stage-''"

definition hex_digit :: "char \<Rightarrow> bool" where
  "hex_digit c \<longleftrightarrow> c \<in> set ''0123456789abcdef''"

definition valid_stage_name :: "string \<Rightarrow> bool" where
  "valid_stage_name name \<longleftrightarrow>
     length name = length restoreStagePrefix + 12 \<and> prefix restoreStagePrefix name \<and>
     list_all hex_digit (drop (length restoreStagePrefix) name)"

section \<open>Operations\<close>

datatype fs_op =
    WriteJournal restore_journal
  | SetAside item
  | PutLive item
  | PutBack item
  | RemoveLive item
  | RemovePrior item
  | RemoveStage
  | RemoveJournal

fun apply_op :: "fs_op \<Rightarrow> fs \<Rightarrow> fs" where
  "apply_op (WriteJournal j) s = s\<lparr>fs_journal := Journal j\<rparr>"
| "apply_op (SetAside i) s =
     s\<lparr>fs_prior := (fs_prior s)(i := fs_live s i), fs_live := (fs_live s)(i := None)\<rparr>"
| "apply_op (PutLive i) s =
     s\<lparr>fs_live := (fs_live s)(i := fs_staged s i), fs_staged := (fs_staged s)(i := None)\<rparr>"
| "apply_op (PutBack i) s =
     s\<lparr>fs_live := (fs_live s)(i := fs_prior s i), fs_prior := (fs_prior s)(i := None)\<rparr>"
| "apply_op (RemoveLive i) s = s\<lparr>fs_live := (fs_live s)(i := None)\<rparr>"
| "apply_op (RemovePrior i) s = s\<lparr>fs_prior := (fs_prior s)(i := None)\<rparr>"
| "apply_op RemoveStage s = s\<lparr>fs_staged := (\<lambda>_. None), fs_stage := None\<rparr>"
| "apply_op RemoveJournal s = s\<lparr>fs_journal := NoJournal\<rparr>"

text \<open>A removal that a crash interrupts leaves something, or nothing, of what was there.\<close>

definition torn :: "string option \<Rightarrow> string option \<Rightarrow> string option" where
  "torn rest old = (case old of None \<Rightarrow> None | Some _ \<Rightarrow> rest)"

fun tear :: "(item \<Rightarrow> string option) \<Rightarrow> fs_op \<Rightarrow> fs \<Rightarrow> fs" where
  "tear g (RemoveLive i) s = s\<lparr>fs_live := (fs_live s)(i := torn (g i) (fs_live s i))\<rparr>"
| "tear g (RemovePrior i) s = s\<lparr>fs_prior := (fs_prior s)(i := torn (g i) (fs_prior s i))\<rparr>"
| "tear g RemoveStage s = s\<lparr>fs_staged := (\<lambda>i. torn (g i) (fs_staged s i))\<rparr>"
| "tear g _ s = s"

definition run_ops :: "fs_op list \<Rightarrow> fs \<Rightarrow> fs" where
  "run_ops ops s = fold apply_op ops s"

text \<open>The states a crash can leave while some operations are carried out.\<close>

inductive crashed :: "fs_op list \<Rightarrow> fs \<Rightarrow> fs \<Rightarrow> bool" where
  before: "crashed ops s s"
| during: "crashed (op # ops) s (tear g op s)"
| after: "crashed ops (apply_op op s) s' \<Longrightarrow> crashed (op # ops) s s'"

inductive_cases crashed_NilE: "crashed [] s s'"
inductive_cases crashed_ConsE: "crashed (op # ops) s s'"

section \<open>Publishing and recovering\<close>

text \<open>\<open>publishStagedInstallation\<close>: an installation without artwork has none in its stage.\<close>

definition publish_item :: "restore_journal \<Rightarrow> fs \<Rightarrow> item \<Rightarrow> fs_op list" where
  "publish_item j s i =
    (if rj_Had j i then [SetAside i] else []) @
    (if fs_staged s i = None \<and> i = Artwork then [] else [PutLive i])"

definition publish_ops :: "restore_journal \<Rightarrow> fs \<Rightarrow> fs_op list" where
  "publish_ops j s = concat (map (publish_item j s) items)"

definition restore_journal_of :: "string \<Rightarrow> fs \<Rightarrow> restore_journal" where
  "restore_journal_of stage s =
    \<lparr>rj_Phase = ''prepared'', rj_Stage = stage, rj_Had = (\<lambda>i. fs_live s i \<noteq> None)\<rparr>"

definition recover_item :: "restore_journal \<Rightarrow> fs \<Rightarrow> item \<Rightarrow> fs_op list" where
  "recover_item j s i =
    (if rj_Had j i then (if fs_prior s i = None then [] else [RemoveLive i, PutBack i])
     else (if fs_staged s i = None then [RemoveLive i] else []) @ [RemovePrior i])"

text \<open>
  \<open>RecoverInterruptedRestore\<close>: what it does, or \<open>None\<close> when it refuses to run. What it looks up
  about one item is not changed by what it did to the others.
\<close>

definition recover_ops :: "fs \<Rightarrow> fs_op list option" where
  "recover_ops s =
    (case fs_journal s of
       NoJournal \<Rightarrow> Some []
     | BadJournal \<Rightarrow> None
     | Journal j \<Rightarrow>
        if rj_Phase j \<noteq> ''prepared'' \<and> rj_Phase j \<noteq> ''published'' \<or> \<not> valid_stage_name (rj_Stage j) then None
        else if fs_stage s \<noteq> Some (rj_Stage j) then None
        else Some ((if rj_Phase j = ''prepared'' then concat (map (recover_item j s) items)
                    else map RemovePrior items) @ [RemoveStage, RemoveJournal]))"

text \<open>The part of \<open>restore\<close> that changes the installation, once everything is staged.\<close>

definition restore_ops :: "string \<Rightarrow> fs \<Rightarrow> fs_op list" where
  "restore_ops stage s =
    (let j = restore_journal_of stage s in
     WriteJournal j # publish_ops j s @ [WriteJournal (j\<lparr>rj_Phase := ''published''\<rparr>)])"

text \<open>A life of the target: a restore that may crash, then starts that recover and may crash.\<close>

inductive life :: "string \<Rightarrow> fs \<Rightarrow> fs \<Rightarrow> bool" for stage s0 where
  restoring: "crashed (restore_ops stage s0) s0 s \<Longrightarrow> life stage s0 s"
| restored: "life stage s0 (run_ops (restore_ops stage s0) s0)"
| recovering: "life stage s0 s \<Longrightarrow> recover_ops s = Some ops \<Longrightarrow> crashed ops s s' \<Longrightarrow> life stage s0 s'"
| recovered: "life stage s0 s \<Longrightarrow> recover_ops s = Some ops \<Longrightarrow> life stage s0 (run_ops ops s)"

section \<open>Crashes and sequences\<close>

lemma run_ops_simps [simp]:
  "run_ops [] s = s" "run_ops (op # ops) s = run_ops ops (apply_op op s)"
  "run_ops (ops @ ops') s = run_ops ops' (run_ops ops s)"
  by (simp_all add: run_ops_def)

lemma crashed_append:
  "crashed (ops @ ops') s s' \<Longrightarrow> crashed ops s s' \<or> crashed ops' (run_ops ops s) s'"
proof (induction ops arbitrary: s)
  case Nil
  then show ?case by simp
next
  case (Cons op ops)
  from Cons.prems have "crashed (op # (ops @ ops')) s s'" by simp
  then show ?case
    by (rule crashed_ConsE) (auto intro: crashed.intros dest: Cons.IH)
qed

lemma crashed_prefix: "crashed (ops @ ops') s (run_ops ops s)"
  by (induction ops arbitrary: s) (auto intro: crashed.intros)

text \<open>
  Operations that respect a predicate also when they are interrupted: whatever state a crash
  leaves satisfies it.
\<close>

lemma crashed_keeps:
  assumes "crashed ops s s'" and "P s"
    and "\<And>op s g. op \<in> set ops \<Longrightarrow> P s \<Longrightarrow> P (apply_op op s) \<and> P (tear g op s)"
  shows "P s'"
  using assms by (induction rule: crashed.induct) auto

section \<open>An interrupted restore can be recovered\<close>

text \<open>Where an item is while the journal says prepared: put aside, or live as it was.\<close>

definition held :: "(item \<Rightarrow> string option) \<Rightarrow> fs \<Rightarrow> item \<Rightarrow> bool" where
  "held old s i \<longleftrightarrow>
     (case old i of
        Some x \<Rightarrow> fs_prior s i = Some x \<or> fs_prior s i = None \<and> fs_live s i = Some x
      | None \<Rightarrow> fs_prior s i = None \<and> (fs_live s i = None \<or> fs_staged s i = None))"

definition prepared :: "string \<Rightarrow> (item \<Rightarrow> string option) \<Rightarrow> restore_journal" where
  "prepared stage old = \<lparr>rj_Phase = ''prepared'', rj_Stage = stage, rj_Had = (\<lambda>i. old i \<noteq> None)\<rparr>"

definition published :: "string \<Rightarrow> (item \<Rightarrow> string option) \<Rightarrow> restore_journal" where
  "published stage old = (prepared stage old)\<lparr>rj_Phase := ''published''\<rparr>"

definition safe :: "string \<Rightarrow> (item \<Rightarrow> string option) \<Rightarrow> (item \<Rightarrow> string option) \<Rightarrow> fs \<Rightarrow> bool" where
  "safe stage old new s \<longleftrightarrow>
     fs_journal s = NoJournal \<and> (fs_live s = old \<or> fs_live s = new) \<or>
     fs_journal s = Journal (prepared stage old) \<and> (\<forall>i. held old s i) \<and>
       (fs_stage s = Some stage \<or> fs_stage s = None \<and> fs_live s = old) \<or>
     fs_journal s = Journal (published stage old) \<and> fs_live s = new \<and> fs_stage s \<in> {Some stage, None}"

lemma item_all: "(\<forall>i. P i) \<longleftrightarrow> P Database \<and> P Artwork \<and> P Sidecar"
  by (metis item.exhaust)

lemma set_items [simp]: "set items = UNIV"
  by (auto simp: items_def) (metis item.exhaust)

text \<open>Operations of one item: they leave the journal and the other items alone.\<close>

fun item_op :: "item \<Rightarrow> fs_op \<Rightarrow> bool" where
  "item_op i (SetAside k) = (k = i)"
| "item_op i (PutLive k) = (k = i)"
| "item_op i (PutBack k) = (k = i)"
| "item_op i (RemoveLive k) = (k = i)"
| "item_op i (RemovePrior k) = (k = i)"
| "item_op i _ = False"

definition apart :: "item \<Rightarrow> fs \<Rightarrow> fs \<Rightarrow> bool" where
  "apart i s s' \<longleftrightarrow> fs_journal s' = fs_journal s \<and> fs_stage s' = fs_stage s \<and>
     (\<forall>k. k \<noteq> i \<longrightarrow> fs_live s' k = fs_live s k \<and> fs_prior s' k = fs_prior s k \<and> fs_staged s' k = fs_staged s k)"

lemma item_op_apart: "item_op i op \<Longrightarrow> apart i s (apply_op op s) \<and> apart i s (tear g op s)"
  by (cases op) (auto simp: apart_def)

lemma apart_refl: "apart i s s"
  by (simp add: apart_def)

lemma apart_trans: "apart i s s' \<Longrightarrow> apart i s' s'' \<Longrightarrow> apart i s s''"
  by (simp add: apart_def)

lemma crashed_apart: "crashed ops s s' \<Longrightarrow> list_all (item_op i) ops \<Longrightarrow> apart i s s'"
  by (induction rule: crashed.induct) (auto intro: apart_refl apart_trans dest: item_op_apart)

lemma run_apart: "list_all (item_op i) ops \<Longrightarrow> apart i s (run_ops ops s)"
  by (induction ops arbitrary: s) (auto intro: apart_refl apart_trans dest: item_op_apart)

lemma apart_held: "apart i s s' \<Longrightarrow> k \<noteq> i \<Longrightarrow> held old s' k = held old s k"
  by (simp add: apart_def held_def split: option.split)

text \<open>One item at a time: a crash on the way, and what the whole leaves.\<close>

lemma publish_item_crash:
  assumes "crashed (publish_item (prepared stage old) t i) s s'"
    and "fs_live s i = old i" and "fs_prior s i = None" and "fs_staged t i = fs_staged s i"
  shows "held old s' i"
  using assms by (auto simp: publish_item_def prepared_def held_def split: if_splits option.splits
      elim!: crashed_ConsE crashed_NilE)

lemma publish_item_done:
  assumes "fs_live s i = old i" and "fs_prior s i = None" and "fs_staged t i = fs_staged s i"
  shows "fs_live (run_ops (publish_item (prepared stage old) t i) s) i = fs_staged s i"
    and "held old (run_ops (publish_item (prepared stage old) t i) s) i"
  using assms by (auto simp: publish_item_def prepared_def held_def split: option.splits)

lemma publish_item_ops: "list_all (item_op i) (publish_item j t i)"
  by (simp add: publish_item_def)

lemma recover_item_crash:
  assumes "crashed (recover_item (prepared stage old) t i) s s'"
    and "held old s i" and "fs_prior t i = fs_prior s i" and "fs_staged t i = fs_staged s i"
  shows "held old s' i"
  using assms by (auto simp: recover_item_def prepared_def held_def torn_def split: if_splits option.splits
      elim!: crashed_ConsE crashed_NilE)

lemma recover_item_done:
  assumes "held old s i" and "fs_prior t i = fs_prior s i" and "fs_staged t i = fs_staged s i"
  shows "fs_live (run_ops (recover_item (prepared stage old) t i) s) i = old i"
    and "fs_prior (run_ops (recover_item (prepared stage old) t i) s) i = None"
  using assms by (auto simp: recover_item_def prepared_def held_def split: option.splits if_splits)

lemma recover_item_ops: "list_all (item_op i) (recover_item j t i)"
  by (simp add: recover_item_def)

text \<open>
  A phase goes through the items one after the other. What it does to an item depends on that
  item only, so what holds of each on its own holds of all of them wherever the crash is.
\<close>

locale item_phase =
  fixes ops_of :: "item \<Rightarrow> fs_op list"
    and pre inv post :: "item \<Rightarrow> fs \<Rightarrow> bool"
  assumes own_ops: "list_all (item_op i) (ops_of i)"
    and local: "apart k s s' \<Longrightarrow> i \<noteq> k \<Longrightarrow> pre i s' = pre i s \<and> inv i s' = inv i s \<and> post i s' = post i s"
    and start: "pre i s \<Longrightarrow> inv i s"
    and crash: "pre i s \<Longrightarrow> crashed (ops_of i) s s' \<Longrightarrow> inv i s'"
    and finish: "pre i s \<Longrightarrow> inv i (run_ops (ops_of i) s) \<and> post i (run_ops (ops_of i) s)"
begin

lemma phase_run:
  assumes "distinct is" and "\<forall>i \<in> set is. pre i s"
  shows "(\<forall>i \<in> set is. inv i (run_ops (concat (map ops_of is)) s) \<and> post i (run_ops (concat (map ops_of is)) s)) \<and>
    (\<forall>k. k \<notin> set is \<longrightarrow> inv k (run_ops (concat (map ops_of is)) s) = inv k s \<and>
       pre k (run_ops (concat (map ops_of is)) s) = pre k s \<and> post k (run_ops (concat (map ops_of is)) s) = post k s) \<and>
    fs_journal (run_ops (concat (map ops_of is)) s) = fs_journal s \<and>
    fs_stage (run_ops (concat (map ops_of is)) s) = fs_stage s"
  using assms
proof (induction "is" arbitrary: s)
  case Nil
  then show ?case by simp
next
  case (Cons i "is")
  let ?s = "run_ops (ops_of i) s"
  have ap: "apart i s ?s" by (rule run_apart) (rule own_ops)
  have "\<forall>k \<in> set is. pre k ?s" using local [OF ap] Cons.prems by (metis distinct.simps(2) list.set_intros(2))
  moreover have "inv i ?s \<and> post i ?s" using finish Cons.prems(2) by simp
  moreover have "fs_journal ?s = fs_journal s" "fs_stage ?s = fs_stage s" using ap by (simp_all add: apart_def)
  moreover have "\<forall>k. k \<notin> set (i # is) \<longrightarrow> inv k ?s = inv k s \<and> pre k ?s = pre k s \<and> post k ?s = post k s"
    using local [OF ap] by auto
  ultimately show ?case using Cons.IH [of ?s] Cons.prems(1) by auto
qed

lemma phase_crash:
  assumes "crashed (concat (map ops_of is)) s s'" and "distinct is" and "\<forall>i \<in> set is. pre i s"
    and "\<forall>k. k \<notin> set is \<longrightarrow> inv k s"
  shows "(\<forall>i. inv i s') \<and> fs_journal s' = fs_journal s \<and> fs_stage s' = fs_stage s"
  using assms
proof (induction "is" arbitrary: s)
  case Nil
  then show ?case by (auto elim: crashed_NilE)
next
  case (Cons i "is")
  let ?s = "run_ops (ops_of i) s"
  have ap: "apart i s ?s" by (rule run_apart) (rule own_ops)
  have others: "inv k s" if "k \<noteq> i" for k using that Cons.prems(3,4) start by (cases "k \<in> set is") auto
  have "crashed (ops_of i) s s' \<or> crashed (concat (map ops_of is)) ?s s'"
    using Cons.prems(1) crashed_append by simp
  then show ?case
  proof
    assume c: "crashed (ops_of i) s s'"
    then have ap': "apart i s s'" by (rule crashed_apart) (rule own_ops)
    have "inv k s'" for k
      using crash [OF _ c] Cons.prems(3) local [OF ap', of k] others by (cases "k = i") auto
    with ap' show ?thesis by (simp add: apart_def)
  next
    assume c: "crashed (concat (map ops_of is)) ?s s'"
    have "\<forall>k \<in> set is. pre k ?s"
      using local [OF ap] Cons.prems(2,3) by (metis distinct.simps(2) list.set_intros(2))
    moreover have "\<forall>k. k \<notin> set is \<longrightarrow> inv k ?s"
      using local [OF ap] others finish [of i s] Cons.prems(3) by (metis list.set_intros(1))
    ultimately show ?thesis using Cons.IH [OF c] Cons.prems(2) ap by (simp add: apart_def)
  qed
qed

end

definition untouched :: "(item \<Rightarrow> string option) \<Rightarrow> fs \<Rightarrow> item \<Rightarrow> fs \<Rightarrow> bool" where
  "untouched old t i s \<longleftrightarrow> fs_live s i = old i \<and> fs_prior s i = None \<and> fs_staged s i = fs_staged t i"

definition unrecovered :: "(item \<Rightarrow> string option) \<Rightarrow> fs \<Rightarrow> item \<Rightarrow> fs \<Rightarrow> bool" where
  "unrecovered old t i s \<longleftrightarrow> held old s i \<and> fs_prior s i = fs_prior t i \<and> fs_staged s i = fs_staged t i"

interpretation publishing: item_phase "publish_item (prepared stage old) t" "untouched old t"
    "\<lambda>i s. held old s i" "\<lambda>i s. fs_live s i = fs_staged t i"
  for stage old t
proof
  show "list_all (item_op i) (publish_item (prepared stage old) t i)" for i by (rule publish_item_ops)
  show "untouched old t i s' = untouched old t i s \<and> held old s' i = held old s i \<and>
      (fs_live s' i = fs_staged t i) = (fs_live s i = fs_staged t i)"
    if "apart k s s'" "i \<noteq> k" for k s s' i
    using that apart_held [OF that] by (simp add: untouched_def apart_def)
  show "held old s i" if "untouched old t i s" for i s
    using that by (auto simp: untouched_def held_def split: option.split)
  show "held old s' i" if "untouched old t i s" "crashed (publish_item (prepared stage old) t i) s s'" for i s s'
    using publish_item_crash [OF that(2)] that(1) by (simp add: untouched_def)
  show "held old (run_ops (publish_item (prepared stage old) t i) s) i \<and>
      fs_live (run_ops (publish_item (prepared stage old) t i) s) i = fs_staged t i"
    if "untouched old t i s" for i s
    using publish_item_done [of s i old t stage] that by (simp add: untouched_def)
qed

interpretation restoring_old: item_phase "recover_item (prepared stage old) t" "unrecovered old t"
    "\<lambda>i s. held old s i" "\<lambda>i s. fs_live s i = old i \<and> fs_prior s i = None"
  for stage old t
proof
  show "list_all (item_op i) (recover_item (prepared stage old) t i)" for i by (rule recover_item_ops)
  show "unrecovered old t i s' = unrecovered old t i s \<and> held old s' i = held old s i \<and>
      (fs_live s' i = old i \<and> fs_prior s' i = None) = (fs_live s i = old i \<and> fs_prior s i = None)"
    if "apart k s s'" "i \<noteq> k" for k s s' i
    using that apart_held [OF that] by (simp add: unrecovered_def apart_def)
  show "held old s i" if "unrecovered old t i s" for i s using that by (simp add: unrecovered_def)
  show "held old s' i" if "unrecovered old t i s" "crashed (recover_item (prepared stage old) t i) s s'" for i s s'
    using recover_item_crash [OF that(2)] that(1) by (simp add: unrecovered_def)
  show "held old (run_ops (recover_item (prepared stage old) t i) s) i \<and>
      fs_live (run_ops (recover_item (prepared stage old) t i) s) i = old i \<and>
      fs_prior (run_ops (recover_item (prepared stage old) t i) s) i = None"
    if "unrecovered old t i s" for i s
    using recover_item_done [of old s i t stage] that by (auto simp: unrecovered_def held_def split: option.split)
qed

section \<open>Every state of a life is safe\<close>

text \<open>What \<open>restore\<close> has established when it writes the journal: it recovered before, and it staged everything.\<close>

definition ready :: "string \<Rightarrow> fs \<Rightarrow> bool" where
  "ready stage s \<longleftrightarrow> valid_stage_name stage \<and> fs_journal s = NoJournal \<and> fs_prior s = (\<lambda>_. None) \<and>
     fs_stage s = Some stage \<and> fs_staged s Database \<noteq> None \<and> fs_staged s Sidecar \<noteq> None"

lemma restore_ops_eq:
  "restore_ops stage s = WriteJournal (prepared stage (fs_live s)) #
     concat (map (publish_item (prepared stage (fs_live s)) s) items) @
     [WriteJournal (published stage (fs_live s))]"
  by (simp add: restore_ops_def publish_ops_def restore_journal_of_def prepared_def published_def Let_def)

lemma distinct_items: "distinct items"
  by (simp add: items_def)

lemma restored_state:
  assumes "ready stage s0"
  defines "s \<equiv> run_ops (concat (map (publish_item (prepared stage (fs_live s0)) s0) items))
      (apply_op (WriteJournal (prepared stage (fs_live s0))) s0)"
  shows "fs_live s = fs_staged s0 \<and> (\<forall>i. held (fs_live s0) s i) \<and>
    fs_journal s = Journal (prepared stage (fs_live s0)) \<and> fs_stage s = Some stage"
proof -
  have "\<forall>i \<in> set items. untouched (fs_live s0) s0 i (apply_op (WriteJournal (prepared stage (fs_live s0))) s0)"
    using assms(1) by (simp add: untouched_def ready_def)
  from publishing.phase_run [OF distinct_items this] show ?thesis
    using assms(1) by (auto simp: s_def ready_def)
qed

lemma restoring_safe:
  assumes ready: "ready stage s0" and c: "crashed (restore_ops stage s0) s0 s"
  shows "safe stage (fs_live s0) (fs_staged s0) s"
proof -
  let ?j = "prepared stage (fs_live s0)" and ?s = "apply_op (WriteJournal (prepared stage (fs_live s0))) s0"
  let ?ops = "concat (map (publish_item ?j s0) items)"
  have first: "safe stage (fs_live s0) (fs_staged s0) s0" using ready by (simp add: safe_def ready_def)
  from c have "s = s0 \<or> crashed (?ops @ [WriteJournal (published stage (fs_live s0))]) ?s s"
    unfolding restore_ops_eq by (rule crashed_ConsE) auto
  then consider "s = s0" | "crashed ?ops ?s s"
    | "crashed [WriteJournal (published stage (fs_live s0))] (run_ops ?ops ?s) s"
    using crashed_append by blast
  then show ?thesis
  proof cases
    case 1
    with first show ?thesis by simp
  next
    case 2
    have "\<forall>i \<in> set items. untouched (fs_live s0) s0 i ?s" using ready by (simp add: untouched_def ready_def)
    with publishing.phase_crash [OF 2 distinct_items] show ?thesis using ready by (auto simp: safe_def ready_def)
  next
    case 3
    then show ?thesis
      by (rule crashed_ConsE) (use restored_state [OF ready] in \<open>auto simp: safe_def elim!: crashed_NilE\<close>)
  qed
qed

lemma restored_safe:
  assumes "ready stage s0"
  shows "safe stage (fs_live s0) (fs_staged s0) (run_ops (restore_ops stage s0) s0)"
  using restored_state [OF assms] by (simp add: restore_ops_eq safe_def)

text \<open>Recovery from a safe state: what it runs, and where it refuses.\<close>

lemma recover_prepared:
  assumes "fs_journal s = Journal (prepared stage old)" and "valid_stage_name stage"
  shows "recover_ops s = (if fs_stage s = Some stage
    then Some (concat (map (recover_item (prepared stage old) s) items) @ [RemoveStage, RemoveJournal]) else None)"
  using assms by (simp add: recover_ops_def prepared_def)

lemma recover_published:
  assumes "fs_journal s = Journal (published stage old)" and "valid_stage_name stage"
  shows "recover_ops s = (if fs_stage s = Some stage
    then Some (map RemovePrior items @ [RemoveStage, RemoveJournal]) else None)"
  using assms by (simp add: recover_ops_def published_def prepared_def)

lemma recovered_old:
  fixes stage s
  assumes "\<forall>i. held old s i"
  defines "s' \<equiv> run_ops (concat (map (recover_item (prepared stage old) s) items)) s"
  shows "fs_live s' = old \<and> (\<forall>i. held old s' i) \<and> fs_journal s' = fs_journal s \<and> fs_stage s' = fs_stage s"
proof -
  have "\<forall>i \<in> set items. unrecovered old s i s" using assms(1) by (simp add: unrecovered_def)
  from restoring_old.phase_run [OF distinct_items this, of stage] show ?thesis by (auto simp: s'_def)
qed

lemma torn_stage_held:
  assumes "\<forall>i. held old s i" shows "held old (tear g RemoveStage s) i" and "held old (apply_op RemoveStage s) i"
  using spec [OF assms, of i] by (auto simp: held_def torn_def split: option.splits)

lemma cleanup_safe:
  assumes c: "crashed [RemoveStage, RemoveJournal] s s'" and held: "\<forall>i. held old s i" and live: "fs_live s = old"
    and j: "fs_journal s = Journal (prepared stage old)" and st: "fs_stage s = Some stage"
  shows "safe stage old new s'"
  using c
proof (rule crashed_ConsE)
  assume "s' = s"
  with held live j st show ?thesis by (simp add: safe_def)
next
  fix g assume "s' = tear g RemoveStage s"
  with torn_stage_held [OF held] live j st show ?thesis by (simp add: safe_def)
next
  assume "crashed [RemoveJournal] (apply_op RemoveStage s) s'"
  with torn_stage_held(2) [OF held] live j st show ?thesis
    by (auto simp: safe_def elim!: crashed_ConsE crashed_NilE)
qed

lemma published_recovery_safe:
  assumes "crashed (map RemovePrior items @ [RemoveStage, RemoveJournal]) s s'"
    and "fs_journal s = Journal (published stage old)" and "fs_live s = new" and "fs_stage s = Some stage"
  shows "safe stage old new s'"
proof -
  let ?P = "\<lambda>s. fs_live s = new \<and> fs_journal s \<in> {Journal (published stage old), NoJournal} \<and>
    fs_stage s \<in> {Some stage, None}"
  have "?P s'"
    by (rule crashed_keeps [OF assms(1)]) (use assms in \<open>auto simp: items_def\<close>)
  then show ?thesis by (auto simp: safe_def)
qed

lemma recovering_safe:
  assumes safe: "safe stage old new s" and valid: "valid_stage_name stage"
    and ops: "recover_ops s = Some ops" and c: "crashed ops s s'"
  shows "safe stage old new s'"
  using safe
  unfolding safe_def [of stage old new s]
proof (elim disjE)
  assume "fs_journal s = NoJournal \<and> (fs_live s = old \<or> fs_live s = new)"
  with ops c safe show ?thesis by (auto simp: recover_ops_def elim!: crashed_NilE)
next
  assume p: "fs_journal s = Journal (prepared stage old) \<and> (\<forall>i. held old s i) \<and>
    (fs_stage s = Some stage \<or> fs_stage s = None \<and> fs_live s = old)"
  let ?ops = "concat (map (recover_item (prepared stage old) s) items)"
  from p ops valid have st: "fs_stage s = Some stage" and "ops = ?ops @ [RemoveStage, RemoveJournal]"
    by (auto simp: recover_prepared split: if_splits)
  with c consider "crashed ?ops s s'" | "crashed [RemoveStage, RemoveJournal] (run_ops ?ops s) s'"
    using crashed_append by blast
  then show ?thesis
  proof cases
    case 1
    have "\<forall>i \<in> set items. unrecovered old s i s" using p by (simp add: unrecovered_def)
    with restoring_old.phase_crash [OF 1 distinct_items] p st show ?thesis by (auto simp: safe_def)
  next
    case 2
    with recovered_old [of old s stage] p st show ?thesis by (auto intro!: cleanup_safe [OF 2])
  qed
next
  assume p: "fs_journal s = Journal (published stage old) \<and> fs_live s = new \<and> fs_stage s \<in> {Some stage, None}"
  with ops valid have "fs_stage s = Some stage" "ops = map RemovePrior items @ [RemoveStage, RemoveJournal]"
    by (auto simp: recover_published split: if_splits)
  with c p show ?thesis by (intro published_recovery_safe [of s s']) auto
qed

lemma recovered_whole:
  assumes safe: "safe stage old new s" and valid: "valid_stage_name stage" and ops: "recover_ops s = Some ops"
  shows "fs_journal (run_ops ops s) = NoJournal \<and> (fs_live (run_ops ops s) = old \<or> fs_live (run_ops ops s) = new)"
  using safe
  unfolding safe_def
proof (elim disjE)
  assume "fs_journal s = NoJournal \<and> (fs_live s = old \<or> fs_live s = new)"
  with ops show ?thesis by (auto simp: recover_ops_def)
next
  assume "fs_journal s = Journal (prepared stage old) \<and> (\<forall>i. held old s i) \<and>
    (fs_stage s = Some stage \<or> fs_stage s = None \<and> fs_live s = old)"
  with ops valid recovered_old [of old s stage] show ?thesis
    by (auto simp: recover_prepared split: if_splits)
next
  assume "fs_journal s = Journal (published stage old) \<and> fs_live s = new \<and> fs_stage s \<in> {Some stage, None}"
  with ops valid show ?thesis by (auto simp: recover_published items_def split: if_splits)
qed

lemma life_safe:
  assumes "ready stage s0" and "life stage s0 s"
  shows "safe stage (fs_live s0) (fs_staged s0) s"
  using assms(2)
proof (induction rule: life.induct)
  case (restoring s)
  with assms(1) show ?case by (rule restoring_safe)
next
  case restored
  from assms(1) show ?case by (rule restored_safe)
next
  case (recovering s ops s')
  then show ?case using assms(1) recovering_safe by (auto simp: ready_def)
next
  case (recovered s ops)
  then show ?case using assms(1) recovered_whole [of stage _ _ s ops] by (auto simp: ready_def safe_def)
qed

section \<open>Properties\<close>

text \<open>
  C6: A restore may crash between any two operations on the file system, or in the middle of a
  recursive removal, and so may every recovery that a later start runs. Whatever happened,
  a recovery that completes leaves the journal gone and, of all three managed entries, either the
  previous installation or the restored one, never a mixture; and where recovery refuses to run,
  the live installation is already one of the two.
\<close>
theorem restore_is_atomic:
  assumes "ready stage s0" and "life stage s0 s"
  shows "case recover_ops s of
      Some ops \<Rightarrow> fs_journal (run_ops ops s) = NoJournal \<and>
        (fs_live (run_ops ops s) = fs_live s0 \<or> fs_live (run_ops ops s) = fs_staged s0)
    | None \<Rightarrow> fs_live s = fs_live s0 \<or> fs_live s = fs_staged s0"
proof (cases "recover_ops s")
  case (Some ops)
  with recovered_whole [OF life_safe [OF assms]] assms(1) show ?thesis by (simp add: ready_def)
next
  case None
  have "valid_stage_name stage" using assms(1) by (simp add: ready_def)
  with None life_safe [OF assms] show ?thesis
    by (auto simp: safe_def recover_prepared recover_published split: if_splits)
qed

definition sample_stage :: string where "sample_stage = ''.flixr-restore-stage-0123456789ab''"

definition sample_fs :: fs where
  "sample_fs = \<lparr>fs_live = (\<lambda>i. if i = Artwork then None else Some ''old''), fs_prior = (\<lambda>_. None),
     fs_staged = (\<lambda>_. Some ''new''), fs_stage = Some sample_stage, fs_journal = NoJournal\<rparr>"

lemma sample_ready: "ready sample_stage sample_fs"
  by (simp add: ready_def sample_fs_def sample_stage_def valid_stage_name_def restoreStagePrefix_def
      hex_digit_def)

text \<open>The crash comes after the database was put aside and before the new one is in its place.\<close>

definition sample_crash :: fs where
  "sample_crash = run_ops [WriteJournal (prepared sample_stage (fs_live sample_fs)), SetAside Database] sample_fs"

lemma sample_life: "life sample_stage sample_fs sample_crash"
proof -
  let ?ops = "[WriteJournal (prepared sample_stage (fs_live sample_fs)), SetAside Database]"
  have "restore_ops sample_stage sample_fs = ?ops @ drop 2 (restore_ops sample_stage sample_fs)"
    by (simp add: restore_ops_eq items_def publish_item_def prepared_def sample_fs_def)
  then show ?thesis
    unfolding sample_crash_def by (metis crashed_prefix life.restoring)
qed

theorem restore_is_atomic_witness:
  "fs_live sample_crash Database = None \<and> fs_live sample_crash Sidecar = Some ''old'' \<and>
    (\<exists>ops. recover_ops sample_crash = Some ops \<and> fs_journal (run_ops ops sample_crash) = NoJournal \<and>
      (fs_live (run_ops ops sample_crash) = fs_live sample_fs \<or> fs_live (run_ops ops sample_crash) = fs_staged sample_fs))"
proof -
  have "recover_ops sample_crash \<noteq> None"
    using sample_ready by (simp add: sample_crash_def recover_prepared sample_fs_def ready_def)
  moreover have "fs_live sample_crash Database = None" "fs_live sample_crash Sidecar = Some ''old''"
    by (simp_all add: sample_crash_def sample_fs_def)
  ultimately show ?thesis using restore_is_atomic [OF sample_ready sample_life] by (auto split: option.splits)
qed

text \<open>
  Recovery removes the stage before it removes the journal, and it refuses a journal whose
  stage is missing. A crash between the two therefore leaves a journal that every later start
  refuses, although the installation is whole: after any restore there is such a state.
\<close>
theorem recovery_can_refuse_forever:
  assumes "ready stage s0"
  shows "\<exists>s. life stage s0 s \<and> fs_live s = fs_staged s0 \<and> fs_journal s \<noteq> NoJournal \<and> recover_ops s = None"
proof -
  let ?s = "run_ops (restore_ops stage s0) s0"
  let ?ops = "map RemovePrior items @ [RemoveStage, RemoveJournal]"
  let ?t = "run_ops (map RemovePrior items @ [RemoveStage]) ?s"
  have valid: "valid_stage_name stage" using assms by (simp add: ready_def)
  have s: "fs_live ?s = fs_staged s0" "fs_journal ?s = Journal (published stage (fs_live s0))" "fs_stage ?s = Some stage"
    using restored_state [OF assms] by (simp_all add: restore_ops_eq)
  have "recover_ops ?s = Some ?ops" using recover_published [OF s(2) valid] s(3) by simp
  moreover have "crashed ?ops ?s ?t" using crashed_prefix [of "map RemovePrior items @ [RemoveStage]" "[RemoveJournal]"] by simp
  ultimately have "life stage s0 ?t" using life.recovering [OF life.restored] by blast
  moreover have t: "fs_live ?t = fs_staged s0" "fs_journal ?t = Journal (published stage (fs_live s0))" "fs_stage ?t = None"
    using s by (simp_all add: items_def)
  moreover have "recover_ops ?t = None" using recover_published [OF t(2) valid] t(3) by simp
  ultimately show ?thesis by (metis journal_file.distinct(3))
qed

theorem recovery_can_refuse_forever_witness:
  "\<exists>s. life sample_stage sample_fs s \<and> fs_live s Database = Some ''new'' \<and> recover_ops s = None"
  using recovery_can_refuse_forever [OF sample_ready] by (auto simp: sample_fs_def)

end
