(* ===== verification/Base64.thy ===== *)
theory Base64
  imports GoText
begin

text \<open>
  The unpadded URL alphabet of base64 (\<open>base64.RawURLEncoding\<close>), in which the server prints
  identifiers. Decoding ignores line breaks and the unused bits of the last character, as Go does.
\<close>

definition b64_alphabet :: string where
  "b64_alphabet = ''ABCDEFGHIJKLMNOPQRSTUVWXYZabcdefghijklmnopqrstuvwxyz0123456789-_''"

fun b64_groups :: "nat list \<Rightarrow> nat list" where
  "b64_groups [] = []"
| "b64_groups [a] = [a div 4, a mod 4 * 16]"
| "b64_groups [a, b] = [a div 4, a mod 4 * 16 + b div 16, b mod 16 * 4]"
| "b64_groups (a # b # c # r) =
    a div 4 # (a mod 4 * 16 + b div 16) # (b mod 16 * 4 + c div 64) # c mod 64 # b64_groups r"

fun b64_bytes :: "nat list \<Rightarrow> nat list option" where
  "b64_bytes [] = Some []"
| "b64_bytes [x] = None"
| "b64_bytes [x, y] = Some [x * 4 + y div 16]"
| "b64_bytes [x, y, z] = Some [x * 4 + y div 16, y mod 16 * 16 + z div 4]"
| "b64_bytes (x # y # z # u # r) =
    map_option (\<lambda>bs. (x * 4 + y div 16) # (y mod 16 * 16 + z div 4) # (z mod 4 * 64 + u) # bs) (b64_bytes r)"

definition b64_encode :: "string \<Rightarrow> string" where
  "b64_encode s = map (\<lambda>n. b64_alphabet ! n) (b64_groups (codes s))"

fun position :: "'a \<Rightarrow> 'a list \<Rightarrow> nat option" where
  "position c [] = None"
| "position c (d # ds) = (if c = d then Some 0 else map_option Suc (position c ds))"

definition b64_decode :: "string \<Rightarrow> string option" where
  "b64_decode s =
    (let vs = map (\<lambda>c. position c b64_alphabet) (filter (\<lambda>c. c \<noteq> CHR 0x0A \<and> c \<noteq> CHR 0x0D) s) in
     if None \<in> set vs then None else map_option (map char_of) (b64_bytes (map the vs)))"

lemma b64_groups_bound: "\<forall>a \<in> set as. a < 256 \<Longrightarrow> n \<in> set (b64_groups as) \<Longrightarrow> n < 64"
  by (induction as rule: b64_groups.induct) auto

lemma b64_bytes_groups: "\<forall>a \<in> set as. a < 256 \<Longrightarrow> b64_bytes (b64_groups as) = Some as"
  by (induction as rule: b64_groups.induct) auto

lemma position_nth: "distinct cs \<Longrightarrow> n < length cs \<Longrightarrow> position (cs ! n) cs = Some n"
proof (induction cs arbitrary: n)
  case (Cons c cs)
  then show ?case by (cases n) (auto simp: nth_mem)
qed simp

lemma b64_alphabet_facts: "length b64_alphabet = 64" "distinct b64_alphabet"
  "CHR 0x0A \<notin> set b64_alphabet" "CHR 0x0D \<notin> set b64_alphabet"
  by (code_simp, code_simp, code_simp, code_simp)

lemma b64_position: "n < 64 \<Longrightarrow> position (b64_alphabet ! n) b64_alphabet = Some n"
  using position_nth [OF b64_alphabet_facts(2)] b64_alphabet_facts(1) by simp

lemma set_b64_encode: "set (b64_encode s) \<subseteq> set b64_alphabet"
proof -
  have "n < 64" if "n \<in> set (b64_groups (codes s))" for n
    using b64_groups_bound [OF _ that] codes_bound by blast
  then show ?thesis using b64_alphabet_facts(1) by (auto simp: b64_encode_def)
qed

lemma b64_round_trip: "b64_decode (b64_encode s) = Some s"
proof -
  have bound: "\<forall>a \<in> set (codes s). a < 256" using codes_bound by blast
  have kept: "filter (\<lambda>c. c \<noteq> CHR 0x0A \<and> c \<noteq> CHR 0x0D) (b64_encode s) = b64_encode s"
    using set_b64_encode [of s] b64_alphabet_facts(3,4) by (auto simp: filter_id_conv)
  have "map (\<lambda>c. position c b64_alphabet) (b64_encode s) = map Some (b64_groups (codes s))"
    using b64_groups_bound [OF bound] b64_position by (simp add: b64_encode_def)
  then have "b64_decode (b64_encode s) = map_option (map char_of) (b64_bytes (b64_groups (codes s)))"
    unfolding b64_decode_def kept Let_def by (simp only: list.map_comp) (simp add: comp_def image_iff)
  then show ?thesis using b64_bytes_groups [OF bound] by simp
qed

lemma b64_encode_inj: "b64_encode s = b64_encode t \<Longrightarrow> s = t"
  by (metis b64_round_trip option.inject)

end
