(* ===== verification/Accounts.thy ===== *)
theory Accounts
  imports Access Base64
begin

text \<open>
  Owner, profiles and bearer sessions (backend/household/household.go and policy.go). A manager
  is its memory and the tables it writes; the variant without a database, which only tests build,
  is left out. Argon2 is the argument \<open>D\<close> (secret and salt to hash), SHA-256 the argument \<open>H\<close>.
  Calls that give up the lock on the way are cut into their critical sections.
\<close>

section \<open>State\<close>

datatype account_error =
    ErrClaimed | ErrToken | ErrPIN | ErrProfileNotFound | ErrRateLimited | ErrHashSaturated
  | ErrCredentials | ErrRecovery | ErrSessionNotFound | ErrInvalidSubtitlePreference | ErrInvalidPIN
  | ErrPolicy access_error | ErrDatabase | ErrRandom

record subtitle_preference =
  sp_Mode :: string
  sp_Language :: string
  sp_PreferSDH :: bool

definition SubtitleAutomatic :: string where "SubtitleAutomatic = ''automatic''"
definition SubtitleOff :: string where "SubtitleOff = ''off''"

record public_profile =
  pf_ID :: string
  pf_Name :: string
  pf_Protected :: bool

record account_profile = public_profile +
  pf_hash :: string
  pf_salt :: string
  pf_attempts :: int
  pf_lockedUntil :: int
  pf_audioLanguage :: string
  pf_subtitle :: subtitle_preference
  pf_policy :: policy

record session_row =
  ss_subject :: string
  ss_expires :: int
  ss_revoked :: bool

record profile_row =
  dp_name :: string
  dp_hash :: string
  dp_salt :: string
  dp_attempts :: int
  dp_locked :: int

text \<open>The memory of the manager, \<open>ac_\<close>, and its tables, \<open>ad_\<close>; sessions by the hash of their token.\<close>

record accounts =
  ac_token :: string
  ac_ownerHash :: string
  ac_ownerSalt :: string
  ac_ownerAttempts :: int
  ac_ownerLockedUntil :: int
  ac_profiles :: "(string, account_profile) gomap"
  ad_owner :: "(string \<times> string) option"
  ad_sessions :: "(string, session_row) gomap"
  ad_profiles :: "(string, profile_row) gomap"
  ad_policies :: "(string, policy) gomap"
  ad_audio :: "(string, string) gomap"
  ad_subtitle :: "(string, subtitle_preference) gomap"
  ad_audit :: "(string \<times> int) list"

text \<open>
  What the environment decides of a step: how much time passed before it, whether the database
  carries the statements out, the random values drawn, and whether too many hashes are computed.
\<close>

record account_choice =
  ax_elapsed :: int
  ax_up :: bool
  ax_salt :: "string option"
  ax_token :: "string option"
  ax_saturated :: bool

definition second_ns :: int where "second_ns = 1000000000"

definition unix_of :: "int \<Rightarrow> int" where "unix_of t = t div second_ns"

definition zero_time :: int where "zero_time = - 62135596800 * second_ns"

definition lock_attempts :: int where "lock_attempts = 5"
definition lock_time :: int where "lock_time = 60 * second_ns"
definition session_time :: int where "session_time = 86400 * second_ns"

definition valid_pin :: "string \<Rightarrow> bool" where
  "valid_pin pin \<longleftrightarrow> 4 \<le> length pin \<and> length pin \<le> 6 \<and>
     list_all (\<lambda>c. of_char CHR ''0'' \<le> (of_char c :: nat) \<and> of_char c \<le> (of_char CHR ''9'' :: nat)) pin"

section \<open>Sessions\<close>

datatype account_value = Token string | Made public_profile | Unit

type_synonym account_result = "(account_error, account_value) result"

definition issue :: "(string \<Rightarrow> string) \<Rightarrow> string \<Rightarrow> account_choice \<Rightarrow> int \<Rightarrow> accounts \<Rightarrow>
    accounts \<times> account_result" where
  "issue H subj x now a =
    (case ax_token x of None \<Rightarrow> (a, Inl ErrRandom)
     | Some t \<Rightarrow>
        if \<not> ax_up x \<or> has_key (ad_sessions a) (H t) then (a, Inl ErrDatabase)
        else (a\<lparr>ad_sessions := AList.update (H t)
                 \<lparr>ss_subject = subj, ss_expires = unix_of (now + session_time), ss_revoked = False\<rparr>
                 (ad_sessions a)\<rparr>, Inr (Token t)))"

definition live_session :: "int \<Rightarrow> session_row \<Rightarrow> bool" where
  "live_session now s \<longleftrightarrow> \<not> ss_revoked s \<and> ss_expires s > unix_of now"

definition subject :: "(string \<Rightarrow> string) \<Rightarrow> int \<Rightarrow> accounts \<Rightarrow> string \<Rightarrow> string" where
  "subject H now a t =
    (if t = '''' then ''''
     else case map_of (ad_sessions a) (H t) of
       None \<Rightarrow> '''' | Some s \<Rightarrow> if live_session now s then ss_subject s else '''')"

definition is_owner :: "(string \<Rightarrow> string) \<Rightarrow> int \<Rightarrow> accounts \<Rightarrow> string \<Rightarrow> bool" where
  "is_owner H now a t \<longleftrightarrow> subject H now a t = ''owner''"

definition session_identity :: "(string \<Rightarrow> string) \<Rightarrow> int \<Rightarrow> accounts \<Rightarrow> string \<Rightarrow> string option" where
  "session_identity H now a t = (if subject H now a t = '''' then None else Some (b64_encode (H t)))"

definition profile_of :: "(string \<Rightarrow> string) \<Rightarrow> int \<Rightarrow> accounts \<Rightarrow> string \<Rightarrow> public_profile option" where
  "profile_of H now a t = map_option public_profile.truncate (map_of (ac_profiles a) (subject H now a t))"

definition revoke_row :: "session_row \<Rightarrow> session_row" where
  "revoke_row s = s\<lparr>ss_revoked := True\<rparr>"

definition logout :: "(string \<Rightarrow> string) \<Rightarrow> string \<Rightarrow> account_choice \<Rightarrow> accounts \<Rightarrow> accounts \<times> account_result" where
  "logout H t x a =
    (if \<not> ax_up x then (a, Inl ErrDatabase)
     else (a\<lparr>ad_sessions := map (\<lambda>(h, s). (h, if h = H t then revoke_row s else s)) (ad_sessions a)\<rparr>, Inr Unit))"

text \<open>The active sessions with their public identifiers; the latest to expire come first.\<close>

definition active_sessions :: "int \<Rightarrow> accounts \<Rightarrow> (string \<times> string \<times> int) list" where
  "active_sessions now a =
    map (\<lambda>(h, s). (b64_encode h, ss_subject s, ss_expires s))
      (sort_key (\<lambda>(h, s). - ss_expires s) (filter (\<lambda>(h, s). live_session now s) (ad_sessions a)))"

definition revoke_session :: "string \<Rightarrow> account_choice \<Rightarrow> accounts \<Rightarrow> accounts \<times> account_result" where
  "revoke_session i x a =
    (case b64_decode i of None \<Rightarrow> (a, Inl ErrSessionNotFound)
     | Some h \<Rightarrow>
        if length h \<noteq> 32 then (a, Inl ErrSessionNotFound)
        else if \<not> ax_up x then (a, Inl ErrDatabase)
        else (case map_of (ad_sessions a) h of
            None \<Rightarrow> (a, Inl ErrSessionNotFound)
          | Some s \<Rightarrow> if ss_revoked s then (a, Inl ErrSessionNotFound)
              else (a\<lparr>ad_sessions := AList.update h (revoke_row s) (ad_sessions a)\<rparr>, Inr Unit)))"

text \<open>\<open>revokeSubjectSessions\<close>: the identities it reports, and the table it leaves.\<close>

definition revoked_identities :: "string \<Rightarrow> accounts \<Rightarrow> string list" where
  "revoked_identities subj a =
    map (\<lambda>(h, s). b64_encode h) (filter (\<lambda>(h, s). ss_subject s = subj \<and> \<not> ss_revoked s) (ad_sessions a))"

definition revoke_subject :: "string \<Rightarrow> accounts \<Rightarrow> accounts" where
  "revoke_subject subj a =
    a\<lparr>ad_sessions := map (\<lambda>(h, s). (h, if ss_subject s = subj then revoke_row s else s)) (ad_sessions a)\<rparr>"

section \<open>Opening\<close>

definition load_profile :: "accounts \<Rightarrow> string \<times> profile_row \<Rightarrow> (string \<times> account_profile) option" where
  "load_profile a = (\<lambda>(i, r).
    case map_of (ad_policies a) i of None \<Rightarrow> None
    | Some policy \<Rightarrow> Some (i,
       \<lparr>pf_ID = i, pf_Name = dp_name r, pf_Protected = (dp_hash r \<noteq> ''''), pf_hash = dp_hash r,
        pf_salt = dp_salt r, pf_attempts = dp_attempts r, pf_lockedUntil = dp_locked r * second_ns,
        pf_audioLanguage = get_or '''' (ad_audio a) i,
        pf_subtitle = get_or \<lparr>sp_Mode = SubtitleAutomatic, sp_Language = '''', sp_PreferSDH = False\<rparr> (ad_subtitle a) i,
        pf_policy = policy\<rparr>))"

definition open_accounts :: "account_choice \<Rightarrow> int \<Rightarrow> accounts \<Rightarrow> (account_error, accounts) result" where
  "open_accounts x now a =
    (case ax_token x of None \<Rightarrow> Inl ErrRandom
     | Some t \<Rightarrow>
        if \<not> ax_up x then Inl ErrDatabase
        else case those (map (load_profile a) (ad_profiles a)) of None \<Rightarrow> Inl ErrDatabase
        | Some profiles \<Rightarrow>
            Inr (a\<lparr>ac_token := (if ad_owner a = None then t else ''''),
                   ac_ownerHash := (case ad_owner a of None \<Rightarrow> '''' | Some (h, s) \<Rightarrow> h),
                   ac_ownerSalt := (case ad_owner a of None \<Rightarrow> '''' | Some (h, s) \<Rightarrow> s),
                   ac_ownerAttempts := 0, ac_ownerLockedUntil := zero_time, ac_profiles := profiles,
                   ad_sessions := keep (\<lambda>h s. live_session now s) (ad_sessions a)\<rparr>))"

section \<open>Profiles\<close>

definition delete_profile :: "string \<Rightarrow> account_choice \<Rightarrow> accounts \<Rightarrow>
    accounts \<times> (account_error, string list) result" where
  "delete_profile i x a =
    (if \<not> has_key (ac_profiles a) i then (a, Inl ErrProfileNotFound)
     else if \<not> ax_up x then (a, Inl ErrDatabase)
     else ((revoke_subject i a)
             \<lparr>ad_profiles := AList.delete i (ad_profiles a), ad_policies := AList.delete i (ad_policies a),
              ad_audio := AList.delete i (ad_audio a), ad_subtitle := AList.delete i (ad_subtitle a),
              ac_profiles := AList.delete i (ac_profiles a)\<rparr>,
           Inr (revoked_identities i a)))"

text \<open>The trigger on the table of profiles gives a new row the policy that allows everything.\<close>

definition default_policy :: policy where
  "default_policy = zero_policy\<lparr>po_unrated := UnratedAllow, po_version := 1\<rparr>"

definition new_profile :: "string \<Rightarrow> string \<Rightarrow> string \<Rightarrow> account_profile" where
  "new_profile i name pin =
    \<lparr>pf_ID = i, pf_Name = name, pf_Protected = (pin \<noteq> ''''), pf_hash = '''', pf_salt = '''',
     pf_attempts = 0, pf_lockedUntil = zero_time, pf_audioLanguage = '''',
     pf_subtitle = \<lparr>sp_Mode = '''', sp_Language = '''', sp_PreferSDH = False\<rparr>,
     pf_policy = unrestricted\<lparr>po_version := 1\<rparr>\<rparr>"

definition hash_pin :: "(string \<Rightarrow> string \<Rightarrow> string) \<Rightarrow> string \<Rightarrow> account_choice \<Rightarrow> account_profile \<Rightarrow>
    (account_error, account_profile) result" where
  "hash_pin D pin x p =
    (case ax_salt x of None \<Rightarrow> Inl ErrRandom
     | Some s \<Rightarrow> if ax_saturated x then Inl ErrHashSaturated
                 else Inr (p\<lparr>pf_salt := s, pf_hash := D pin s, pf_Protected := True\<rparr>))"

definition create_save :: "(string \<Rightarrow> string \<Rightarrow> string) \<Rightarrow> string \<Rightarrow> string \<Rightarrow> account_choice \<Rightarrow> accounts \<Rightarrow>
    (account_error, accounts \<times> account_profile) result" where
  "create_save D name pin x a =
    (if pin \<noteq> '''' \<and> \<not> valid_pin pin then Inl ErrInvalidPIN
     else case ax_token x of None \<Rightarrow> Inl ErrRandom
     | Some i \<Rightarrow>
        (case (if pin = '''' then Inr (new_profile i name pin) else hash_pin D pin x (new_profile i name pin)) of
           Inl e \<Rightarrow> Inl e
         | Inr p \<Rightarrow>
            if \<not> ax_up x \<or> has_key (ad_profiles a) i then Inl ErrDatabase
            else Inr (a\<lparr>ad_profiles := AList.update i
                     \<lparr>dp_name = name, dp_hash = pf_hash p, dp_salt = pf_salt p, dp_attempts = 0, dp_locked = 0\<rparr>
                     (ad_profiles a),
                   ad_policies := AList.update i default_policy (ad_policies a)\<rparr>, p)))"

definition create_keep :: "account_profile \<Rightarrow> accounts \<Rightarrow> accounts" where
  "create_keep p a = a\<lparr>ac_profiles := AList.update (pf_ID p) p (ac_profiles a)\<rparr>"

definition list_profiles :: "accounts \<Rightarrow> public_profile list" where
  "list_profiles a = sort_key pf_Name (map (public_profile.truncate \<circ> snd) (ac_profiles a))"

text \<open>The profile with the name and the credential that an edit asks for.\<close>

definition edited :: "(string \<Rightarrow> string \<Rightarrow> string) \<Rightarrow> string \<Rightarrow> string \<Rightarrow> bool \<Rightarrow> account_choice \<Rightarrow>
    account_profile \<Rightarrow> (account_error, account_profile) result" where
  "edited D name pin unprotect x p0 =
    (let p = (if name \<noteq> '''' then p0\<lparr>pf_Name := name\<rparr> else p0) in
     if unprotect then Inr (p\<lparr>pf_hash := '''', pf_salt := '''', pf_Protected := False\<rparr>)
     else if pin = '''' then Inr p
     else hash_pin D pin x p)"

definition update_profile :: "(string \<Rightarrow> string \<Rightarrow> string) \<Rightarrow> string \<Rightarrow> string \<Rightarrow> string \<Rightarrow> bool \<Rightarrow>
    account_choice \<Rightarrow> accounts \<Rightarrow> accounts \<times> (account_error, public_profile \<times> string list) result" where
  "update_profile D i name pin unprotect x a =
    (if \<not> unprotect \<and> pin \<noteq> '''' \<and> \<not> valid_pin pin then (a, Inl ErrInvalidPIN)
     else case map_of (ac_profiles a) i of None \<Rightarrow> (a, Inl ErrProfileNotFound)
     | Some p0 \<Rightarrow>
        (case edited D name pin unprotect x p0 of Inl e \<Rightarrow> (a, Inl e)
         | Inr p \<Rightarrow>
            if \<not> ax_up x then (a, Inl ErrDatabase)
            else (case map_of (ad_profiles a) i of None \<Rightarrow> (a, Inl ErrProfileNotFound)
              | Some r \<Rightarrow>
                  (let revokes = (pin \<noteq> '''' \<or> unprotect);
                       ids = (if revokes then revoked_identities i a else []);
                       a = (if revokes then revoke_subject i a else a) in
                   (a\<lparr>ad_profiles := AList.update i
                        (r\<lparr>dp_name := pf_Name p, dp_hash := pf_hash p, dp_salt := pf_salt p\<rparr>) (ad_profiles a),
                      ac_profiles := AList.update i p (ac_profiles a)\<rparr>,
                    Inr (public_profile.truncate p, ids))))))"

definition get_policy :: "string \<Rightarrow> accounts \<Rightarrow> (account_error, policy) result" where
  "get_policy i a =
    (case map_of (ac_profiles a) i of None \<Rightarrow> Inl ErrProfileNotFound | Some p \<Rightarrow> Inr (pf_policy p))"

definition update_policy :: "string \<Rightarrow> policy \<Rightarrow> account_choice \<Rightarrow> accounts \<Rightarrow>
    accounts \<times> (account_error, policy \<times> string list) result" where
  "update_policy i requested x a =
    (case validate requested of Inl e \<Rightarrow> (a, Inl (ErrPolicy e))
     | Inr valid \<Rightarrow>
        (case map_of (ac_profiles a) i of None \<Rightarrow> (a, Inl ErrProfileNotFound)
         | Some p \<Rightarrow>
            (let version = wrap64 (po_version (pf_policy p) + 1);
                 policy = valid\<lparr>po_version := if version < 1 then 1 else version\<rparr> in
             if \<not> ax_up x then (a, Inl ErrDatabase)
             else if \<not> has_key (ad_policies a) i then (a, Inl ErrProfileNotFound)
             else ((revoke_subject i a)
                     \<lparr>ad_policies := AList.update i policy (ad_policies a),
                      ac_profiles := AList.update i (p\<lparr>pf_policy := policy\<rparr>) (ac_profiles a)\<rparr>,
                   Inr (policy, revoked_identities i a)))))"

definition audio_language :: "string \<Rightarrow> accounts \<Rightarrow> (account_error, string) result" where
  "audio_language i a =
    (case map_of (ac_profiles a) i of None \<Rightarrow> Inl ErrProfileNotFound | Some p \<Rightarrow> Inr (pf_audioLanguage p))"

definition save_audio_language :: "string \<Rightarrow> string \<Rightarrow> account_choice \<Rightarrow> accounts \<Rightarrow> accounts \<times> account_result" where
  "save_audio_language i language0 x a =
    (let language = to_lower (trim_space language0) in
     case map_of (ac_profiles a) i of None \<Rightarrow> (a, Inl ErrProfileNotFound)
     | Some p \<Rightarrow>
        if \<not> ax_up x then (a, Inl ErrDatabase)
        else (a\<lparr>ad_audio := AList.update i language (ad_audio a),
               ac_profiles := AList.update i (p\<lparr>pf_audioLanguage := language\<rparr>) (ac_profiles a)\<rparr>, Inr Unit))"

definition get_subtitle_preference :: "string \<Rightarrow> accounts \<Rightarrow> (account_error, subtitle_preference) result" where
  "get_subtitle_preference i a =
    (case map_of (ac_profiles a) i of None \<Rightarrow> Inl ErrProfileNotFound
     | Some p \<Rightarrow> Inr (if sp_Mode (pf_subtitle p) = '''' then (pf_subtitle p)\<lparr>sp_Mode := SubtitleAutomatic\<rparr>
                      else pf_subtitle p))"

definition save_subtitle_preference :: "string \<Rightarrow> subtitle_preference \<Rightarrow> account_choice \<Rightarrow> accounts \<Rightarrow>
    accounts \<times> account_result" where
  "save_subtitle_preference i preference0 x a =
    (let preference = preference0\<lparr>sp_Language := to_lower (trim_space (sp_Language preference0))\<rparr> in
     if sp_Mode preference \<noteq> SubtitleOff \<and> sp_Mode preference \<noteq> SubtitleAutomatic
     then (a, Inl ErrInvalidSubtitlePreference)
     else case map_of (ac_profiles a) i of None \<Rightarrow> (a, Inl ErrProfileNotFound)
     | Some p \<Rightarrow>
        if \<not> ax_up x then (a, Inl ErrDatabase)
        else (a\<lparr>ad_subtitle := AList.update i preference (ad_subtitle a),
               ac_profiles := AList.update i (p\<lparr>pf_subtitle := preference\<rparr>) (ac_profiles a)\<rparr>, Inr Unit))"

section \<open>Credentials\<close>

text \<open>Claiming: what is read and computed, the insert, the memory; the session is issued last.\<close>

definition claim_begin :: "(string \<Rightarrow> string \<Rightarrow> string) \<Rightarrow> string \<Rightarrow> string \<Rightarrow> account_choice \<Rightarrow> accounts \<Rightarrow>
    (account_error, string \<times> string) result" where
  "claim_begin D token password x a =
    (if ac_ownerHash a \<noteq> '''' then Inl ErrClaimed
     else if token = '''' \<or> token \<noteq> ac_token a then Inl ErrToken
     else if password = '''' then Inl ErrCredentials
     else case ax_salt x of None \<Rightarrow> Inl ErrRandom
     | Some s \<Rightarrow> if ax_saturated x then Inl ErrHashSaturated else Inr (D password s, s))"

definition claim_save :: "string \<Rightarrow> string \<Rightarrow> account_choice \<Rightarrow> accounts \<Rightarrow> (account_error, accounts) result" where
  "claim_save h s x a =
    (if \<not> ax_up x \<or> ad_owner a \<noteq> None then Inl ErrDatabase else Inr (a\<lparr>ad_owner := Some (h, s)\<rparr>))"

definition claim_keep :: "string \<Rightarrow> string \<Rightarrow> accounts \<Rightarrow> accounts" where
  "claim_keep h s a = a\<lparr>ac_ownerHash := h, ac_ownerSalt := s, ac_token := ''''\<rparr>"

definition login_begin :: "(string \<Rightarrow> string \<Rightarrow> string) \<Rightarrow> string \<Rightarrow> account_choice \<Rightarrow> int \<Rightarrow> accounts \<Rightarrow>
    (account_error, bool) result" where
  "login_begin D password x now a =
    (if now < ac_ownerLockedUntil a then Inl ErrRateLimited
     else if ax_saturated x then Inl ErrHashSaturated
     else Inr (ac_ownerHash a \<noteq> '''' \<and> D password (ac_ownerSalt a) = ac_ownerHash a))"

definition login_finish :: "(string \<Rightarrow> string) \<Rightarrow> bool \<Rightarrow> account_choice \<Rightarrow> int \<Rightarrow> accounts \<Rightarrow>
    accounts \<times> account_result" where
  "login_finish H valid x now a =
    (if now < ac_ownerLockedUntil a then (a, Inl ErrRateLimited)
     else if \<not> valid then
       (let a = a\<lparr>ac_ownerAttempts := ac_ownerAttempts a + 1\<rparr> in
        (if ac_ownerAttempts a \<ge> lock_attempts
         then a\<lparr>ac_ownerAttempts := 0, ac_ownerLockedUntil := now + lock_time\<rparr> else a, Inl ErrCredentials))
     else issue H ''owner'' x now (a\<lparr>ac_ownerAttempts := 0\<rparr>))"

definition recover_begin :: "(string \<Rightarrow> string \<Rightarrow> string) \<Rightarrow> string \<Rightarrow> account_choice \<Rightarrow> accounts \<Rightarrow>
    (account_error, string \<times> string) result" where
  "recover_begin D password x a =
    (if password = '''' then Inl ErrRecovery
     else if ac_ownerHash a = '''' then Inl ErrRecovery
     else case ax_salt x of None \<Rightarrow> Inl ErrRandom
     | Some s \<Rightarrow> if ax_saturated x then Inl ErrHashSaturated else Inr (D password s, s))"

definition recover_save :: "string \<Rightarrow> string \<Rightarrow> account_choice \<Rightarrow> int \<Rightarrow> accounts \<Rightarrow>
    (account_error, accounts) result" where
  "recover_save h s x now a =
    (if \<not> ax_up x then Inl ErrDatabase
     else if ad_owner a = None then Inl ErrRecovery
     else Inr ((revoke_subject ''owner'' a)
        \<lparr>ad_owner := Some (h, s), ad_audit := ad_audit a @ [(''owner_recovered'', unix_of now)]\<rparr>))"

definition recover_keep :: "string \<Rightarrow> string \<Rightarrow> accounts \<Rightarrow> accounts" where
  "recover_keep h s a =
    a\<lparr>ac_ownerHash := h, ac_ownerSalt := s, ac_ownerAttempts := 0, ac_ownerLockedUntil := zero_time\<rparr>"

definition select_begin :: "(string \<Rightarrow> string \<Rightarrow> string) \<Rightarrow> string \<Rightarrow> string \<Rightarrow> account_choice \<Rightarrow> int \<Rightarrow> accounts \<Rightarrow>
    (account_error, string \<times> string \<times> bool) result" where
  "select_begin D i pin x now a =
    (case map_of (ac_profiles a) i of None \<Rightarrow> Inl ErrPIN
     | Some p \<Rightarrow>
        if now < pf_lockedUntil p then Inl ErrRateLimited
        else if pf_Protected p \<and> ax_saturated x then Inl ErrHashSaturated
        else Inr (pf_hash p, pf_salt p, \<not> pf_Protected p \<or> D pin (pf_salt p) = pf_hash p))"

definition persist_attempt :: "account_profile \<Rightarrow> account_choice \<Rightarrow> accounts \<Rightarrow> (account_error, accounts) result" where
  "persist_attempt p x a =
    (if \<not> ax_up x then Inl ErrDatabase
     else Inr (case map_of (ad_profiles a) (pf_ID p) of None \<Rightarrow> a
       | Some r \<Rightarrow> a\<lparr>ad_profiles := AList.update (pf_ID p)
           (r\<lparr>dp_attempts := pf_attempts p, dp_locked := unix_of (pf_lockedUntil p)\<rparr>) (ad_profiles a)\<rparr>))"

definition count_wrong :: "int \<Rightarrow> account_profile \<Rightarrow> account_profile" where
  "count_wrong now p =
    (let p = p\<lparr>pf_attempts := pf_attempts p + 1\<rparr> in
     if pf_attempts p \<ge> lock_attempts then p\<lparr>pf_attempts := 0, pf_lockedUntil := now + lock_time\<rparr> else p)"

text \<open>The second critical section of Select; \<open>None\<close> when the credential changed and it starts over.\<close>

definition select_finish :: "(string \<Rightarrow> string) \<Rightarrow> string \<Rightarrow> string \<Rightarrow> string \<Rightarrow> bool \<Rightarrow> account_choice \<Rightarrow> int \<Rightarrow>
    accounts \<Rightarrow> accounts \<times> account_result option" where
  "select_finish H i h s valid x now a =
    (case map_of (ac_profiles a) i of None \<Rightarrow> (a, Some (Inl ErrPIN))
     | Some p \<Rightarrow>
        if pf_hash p \<noteq> h \<or> pf_salt p \<noteq> s then (a, None)
        else if now < pf_lockedUntil p then (a, Some (Inl ErrRateLimited))
        else (let p = (if valid then p\<lparr>pf_attempts := 0\<rparr> else count_wrong now p) in
              case persist_attempt p x a of Inl e \<Rightarrow> (a, Some (Inl e))
              | Inr a \<Rightarrow>
                 (let a = a\<lparr>ac_profiles := AList.update i p (ac_profiles a)\<rparr> in
                  if \<not> valid then (a, Some (Inl ErrPIN))
                  else (let (a, r) = issue H i x now a in (a, Some r)))))"

end
