(* ===== verification/AccountRuns.thy ===== *)
theory AccountRuns
  imports Accounts
begin

text \<open>
  Every interleaving of the calls of \<open>Accounts\<close>, with restarts of the server in between: the
  machine that runs them, what ties the memory to the tables, and the properties that rest on it.
\<close>

section \<open>The machine\<close>

datatype account_call =
    Claim string string | Login string | RecoverOwner string | CreateProfile string string | Select string string

datatype account_pc =
    AtStart account_call
  | AtClaimSave string string | AtClaimKeep string string | AtClaimIssue
  | AtLoginFinish bool
  | AtRecoverSave string string | AtRecoverKeep string string
  | AtCreateKeep account_profile
  | AtSelectFinish string string string string bool

text \<open>Calls that are one critical section, and the restart of the server.\<close>

datatype account_act =
    Logout string | RevokeSession string | DeleteProfile string
  | UpdateProfile string string string bool | UpdatePolicy string policy
  | SaveAudio string string | SaveSubtitle string subtitle_preference | Restart

datatype account_event = Begin nat account_call | Advance nat account_choice | Act account_act account_choice

text \<open>What happened, for the record: wrong PINs with their time, and what ends a series of them.\<close>

datatype account_log = WrongPin string int | Settled string | OwnerClaimed

record accounts_world =
  aw_accounts :: accounts
  aw_frames :: "(nat, account_pc) gomap"
  aw_clock :: int
  aw_log :: "account_log list"

text \<open>A section of a call: the state after it, where the call goes on unless it returns, and the record.\<close>

type_synonym section_out = "accounts \<times> account_pc option \<times> account_log list"

fun start_call :: "(string \<Rightarrow> string \<Rightarrow> string) \<Rightarrow> account_call \<Rightarrow> account_choice \<Rightarrow> int \<Rightarrow> accounts \<Rightarrow> section_out" where
  "start_call D (Claim token password) x now a =
    (a, case claim_begin D token password x a of Inl _ \<Rightarrow> None | Inr (h, s) \<Rightarrow> Some (AtClaimSave h s), [])"
| "start_call D (Login password) x now a =
    (a, case login_begin D password x now a of Inl _ \<Rightarrow> None | Inr v \<Rightarrow> Some (AtLoginFinish v), [])"
| "start_call D (RecoverOwner password) x now a =
    (a, case recover_begin D password x a of Inl _ \<Rightarrow> None | Inr (h, s) \<Rightarrow> Some (AtRecoverSave h s), [])"
| "start_call D (CreateProfile name pin) x now a =
    (case create_save D name pin x a of Inl _ \<Rightarrow> (a, None, [])
     | Inr (a, p) \<Rightarrow> (a, Some (AtCreateKeep p), [Settled (pf_ID p)]))"
| "start_call D (Select i pin) x now a =
    (a, case select_begin D i pin x now a of Inl _ \<Rightarrow> None
        | Inr (h, s, v) \<Rightarrow> Some (AtSelectFinish i pin h s v), [])"

text \<open>A finished attempt is settled when the PIN was right and the profile's counter was reset.\<close>

definition select_log :: "string \<Rightarrow> bool \<Rightarrow> account_choice \<Rightarrow> int \<Rightarrow> accounts \<Rightarrow> account_result option \<Rightarrow> account_log list" where
  "select_log i valid x now a r =
    (if \<not> has_key (ac_profiles a) i \<or> r = None \<or> r = Some (Inl ErrRateLimited) \<or> \<not> ax_up x then []
     else if valid then [Settled i] else [WrongPin i now])"

fun account_section :: "(string \<Rightarrow> string) \<Rightarrow> (string \<Rightarrow> string \<Rightarrow> string) \<Rightarrow> account_pc \<Rightarrow> account_choice \<Rightarrow> int \<Rightarrow>
    accounts \<Rightarrow> section_out" where
  "account_section H D (AtStart c) x now a = start_call D c x now a"
| "account_section H D (AtClaimSave h s) x now a =
    (case claim_save h s x a of Inl _ \<Rightarrow> (a, None, []) | Inr a \<Rightarrow> (a, Some (AtClaimKeep h s), [OwnerClaimed]))"
| "account_section H D (AtClaimKeep h s) x now a = (claim_keep h s a, Some AtClaimIssue, [])"
| "account_section H D AtClaimIssue x now a = (fst (issue H ''owner'' x now a), None, [])"
| "account_section H D (AtLoginFinish v) x now a = (fst (login_finish H v x now a), None, [])"
| "account_section H D (AtRecoverSave h s) x now a =
    (case recover_save h s x now a of Inl _ \<Rightarrow> (a, None, []) | Inr a \<Rightarrow> (a, Some (AtRecoverKeep h s), []))"
| "account_section H D (AtRecoverKeep h s) x now a = (recover_keep h s a, None, [])"
| "account_section H D (AtCreateKeep p) x now a = (create_keep p a, None, [])"
| "account_section H D (AtSelectFinish i pin h s v) x now a =
    (let (a', r) = select_finish H i h s v x now a in
     (a', if r = None then Some (AtStart (Select i pin)) else None, select_log i v x now a r))"

fun do_act :: "(string \<Rightarrow> string) \<Rightarrow> (string \<Rightarrow> string \<Rightarrow> string) \<Rightarrow> account_act \<Rightarrow> account_choice \<Rightarrow> int \<Rightarrow>
    accounts \<Rightarrow> accounts" where
  "do_act H D (Logout t) x now a = fst (logout H t x a)"
| "do_act H D (RevokeSession i) x now a = fst (revoke_session i x a)"
| "do_act H D (DeleteProfile i) x now a = fst (delete_profile i x a)"
| "do_act H D (UpdateProfile i name pin unprotect) x now a = fst (update_profile D i name pin unprotect x a)"
| "do_act H D (UpdatePolicy i policy) x now a = fst (update_policy i policy x a)"
| "do_act H D (SaveAudio i language) x now a = fst (save_audio_language i language x a)"
| "do_act H D (SaveSubtitle i preference) x now a = fst (save_subtitle_preference i preference x a)"
| "do_act H D Restart x now a = (case open_accounts x now a of Inl _ \<Rightarrow> a | Inr a \<Rightarrow> a)"

definition put_frame :: "nat \<Rightarrow> account_pc option \<Rightarrow> (nat, account_pc) gomap \<Rightarrow> (nat, account_pc) gomap" where
  "put_frame n pc fs = (case pc of None \<Rightarrow> AList.delete n fs | Some pc \<Rightarrow> AList.update n pc fs)"

fun account_step :: "(string \<Rightarrow> string) \<Rightarrow> (string \<Rightarrow> string \<Rightarrow> string) \<Rightarrow> accounts_world \<Rightarrow> account_event \<Rightarrow> accounts_world" where
  "account_step H D w (Begin n c) =
    (if has_key (aw_frames w) n then w else w\<lparr>aw_frames := AList.update n (AtStart c) (aw_frames w)\<rparr>)"
| "account_step H D w (Advance n x) =
    (case map_of (aw_frames w) n of None \<Rightarrow> w
     | Some pc \<Rightarrow>
        (let now = aw_clock w + max 0 (ax_elapsed x);
             (a, pc', l) = account_section H D pc x now (aw_accounts w) in
         w\<lparr>aw_accounts := a, aw_frames := put_frame n pc' (aw_frames w), aw_clock := now, aw_log := aw_log w @ l\<rparr>))"
| "account_step H D w (Act act x) =
    (let now = aw_clock w + max 0 (ax_elapsed x) in
     w\<lparr>aw_accounts := do_act H D act x now (aw_accounts w),
       aw_frames := (if act = Restart then [] else aw_frames w), aw_clock := now\<rparr>)"

definition fresh_accounts :: "string \<Rightarrow> accounts" where
  "fresh_accounts token =
    \<lparr>ac_token = token, ac_ownerHash = '''', ac_ownerSalt = '''', ac_ownerAttempts = 0,
     ac_ownerLockedUntil = zero_time, ac_profiles = [], ad_owner = None, ad_sessions = [], ad_profiles = [],
     ad_policies = [], ad_audio = [], ad_subtitle = [], ad_audit = []\<rparr>"

definition fresh_world :: "string \<Rightarrow> int \<Rightarrow> accounts_world" where
  "fresh_world token now = \<lparr>aw_accounts = fresh_accounts token, aw_frames = [], aw_clock = now, aw_log = []\<rparr>"

text \<open>The times of the wrong PINs for a profile since the series was settled last.\<close>

fun wrong_pins :: "string \<Rightarrow> account_log list \<Rightarrow> int list \<Rightarrow> int list" where
  "wrong_pins i [] ts = ts"
| "wrong_pins i (WrongPin j t # l) ts = wrong_pins i l (if j = i then ts @ [t] else ts)"
| "wrong_pins i (Settled j # l) ts = wrong_pins i l (if j = i then [] else ts)"
| "wrong_pins i (OwnerClaimed # l) ts = wrong_pins i l ts"

lemma wrong_pins_append: "wrong_pins i (l @ l') ts = wrong_pins i l' (wrong_pins i l ts)"
  by (induction i l ts rule: wrong_pins.induct) auto

section \<open>The memory follows the tables\<close>

type_synonym profile_rows = "profile_row option \<times> policy option \<times> string option \<times> subtitle_preference option"

definition rows :: "accounts \<Rightarrow> string \<Rightarrow> profile_rows" where
  "rows a i = (map_of (ad_profiles a) i, map_of (ad_policies a) i, map_of (ad_audio a) i, map_of (ad_subtitle a) i)"

text \<open>The rows a profile in memory has been loaded from or written to.\<close>

definition row_of :: "account_profile \<Rightarrow> profile_row \<Rightarrow> bool" where
  "row_of p r \<longleftrightarrow> dp_name r = pf_Name p \<and> dp_hash r = pf_hash p \<and> dp_salt r = pf_salt p \<and>
     dp_attempts r = pf_attempts p \<and>
     (dp_locked r = unix_of (pf_lockedUntil p) \<or> dp_locked r = 0 \<and> pf_lockedUntil p = zero_time)"

definition subtitle_of :: "account_profile \<Rightarrow> subtitle_preference option \<Rightarrow> bool" where
  "subtitle_of p s \<longleftrightarrow> (case s of
       None \<Rightarrow> pf_subtitle p \<in> {\<lparr>sp_Mode = '''', sp_Language = '''', sp_PreferSDH = False\<rparr>,
         \<lparr>sp_Mode = SubtitleAutomatic, sp_Language = '''', sp_PreferSDH = False\<rparr>}
     | Some s \<Rightarrow> pf_subtitle p = s)"

fun matches :: "account_profile \<Rightarrow> profile_rows \<Rightarrow> bool" where
  "matches p (r, pol, au, su) \<longleftrightarrow> (\<exists>r'. r = Some r' \<and> row_of p r') \<and> pol = Some (pf_policy p) \<and>
     (case au of None \<Rightarrow> '''' | Some l \<Rightarrow> l) = pf_audioLanguage p \<and> subtitle_of p su \<and>
     pf_Protected p = (pf_hash p \<noteq> '''')"

lemma subtitle_of_cong: "pf_subtitle q = pf_subtitle p \<Longrightarrow> subtitle_of q s = subtitle_of p s"
  by (simp add: subtitle_of_def split: option.split)

lemma row_of_cong:
  "pf_Name q = pf_Name p \<Longrightarrow> pf_hash q = pf_hash p \<Longrightarrow> pf_salt q = pf_salt p \<Longrightarrow> pf_attempts q = pf_attempts p \<Longrightarrow>
    pf_lockedUntil q = pf_lockedUntil p \<Longrightarrow> row_of q r = row_of p r"
  by (simp add: row_of_def)

lemma row_of_simps [simp]:
  "row_of (p\<lparr>pf_policy := pol\<rparr>) r = row_of p r" "row_of (p\<lparr>pf_audioLanguage := l\<rparr>) r = row_of p r"
  "row_of (p\<lparr>pf_subtitle := s\<rparr>) r = row_of p r"
  by (rule row_of_cong; simp)+

lemma subtitle_of_simps [simp]:
  "subtitle_of (p\<lparr>pf_policy := pol\<rparr>) s = subtitle_of p s" "subtitle_of (p\<lparr>pf_audioLanguage := l\<rparr>) s = subtitle_of p s"
  "subtitle_of (p\<lparr>pf_subtitle := s'\<rparr>) (Some s') = True"
  by (rule subtitle_of_cong; simp)+ (simp add: subtitle_of_def)

fun rows_ok :: "profile_rows \<Rightarrow> bool" where
  "rows_ok (r, pol, au, su) \<longleftrightarrow> (if r = None then au = None \<and> su = None else pol \<noteq> None)"

definition loaded :: "accounts \<Rightarrow> string \<Rightarrow> bool" where
  "loaded a i \<longleftrightarrow> rows_ok (rows a i) \<and>
     (case map_of (ac_profiles a) i of None \<Rightarrow> True | Some p \<Rightarrow> pf_ID p = i \<and> matches p (rows a i))"

definition tied :: "accounts \<Rightarrow> (nat \<Rightarrow> account_pc option) \<Rightarrow> bool" where
  "tied a f \<longleftrightarrow> (\<forall>i. loaded a i) \<and>
     (\<forall>n p. f n = Some (AtCreateKeep p) \<longrightarrow>
        matches p (rows a (pf_ID p)) \<and> map_of (ac_profiles a) (pf_ID p) = None) \<and>
     (\<forall>n m p q. f n = Some (AtCreateKeep p) \<longrightarrow> f m = Some (AtCreateKeep q) \<longrightarrow> pf_ID p = pf_ID q \<longrightarrow> n = m)"

lemma tiedD:
  assumes "tied a f"
  shows "map_of (ac_profiles a) i = Some p \<Longrightarrow> pf_ID p = i \<and> matches p (rows a i)"
    and "rows_ok (rows a i)"
    and "f n = Some (AtCreateKeep q) \<Longrightarrow> matches q (rows a (pf_ID q)) \<and> map_of (ac_profiles a) (pf_ID q) = None"
  using assms by (auto simp: tied_def loaded_def split: option.splits)

lemma loaded_cong:
  "map_of (ac_profiles a') i = map_of (ac_profiles a) i \<Longrightarrow> rows a' i = rows a i \<Longrightarrow> loaded a' i = loaded a i"
  by (simp add: loaded_def split: option.split)

text \<open>A state in which only one profile, which is in memory, has changed.\<close>

lemma tied_change:
  assumes "tied a f" and "map_of (ac_profiles a) i = Some p" and "loaded a' i"
    and "\<And>j. j \<noteq> i \<Longrightarrow> map_of (ac_profiles a') j = map_of (ac_profiles a) j \<and> rows a' j = rows a j"
  shows "tied a' f"
proof -
  have "loaded a' j" for j
    using assms loaded_cong [of a' j a] by (cases "j = i") (auto simp: tied_def)
  moreover have "pf_ID q \<noteq> i" if "f n = Some (AtCreateKeep q)" for n q
    using tiedD(3) [OF assms(1) that] assms(2) by auto
  ultimately show ?thesis using assms(1,4) unfolding tied_def by metis
qed

lemma tied_same:
  assumes "tied a f" and "ac_profiles a' = ac_profiles a" and "\<And>i. rows a' i = rows a i"
  shows "tied a' f"
  using assms loaded_cong [of a' _ a] by (simp add: tied_def)

lemma tied_frame:
  assumes "tied a f" and "\<And>p. pc \<noteq> Some (AtCreateKeep p)"
  shows "tied a (f(n := pc))"
  using assms unfolding tied_def by (auto simp: fun_upd_def)

lemma rows_simps [simp]:
  "rows (ac_profiles_update f a) i = rows a i" "rows (ad_sessions_update g a) i = rows a i"
  "rows (ac_token_update ft a) i = rows a i" "rows (ac_ownerHash_update fh a) i = rows a i"
  "rows (ac_ownerSalt_update fh a) i = rows a i" "rows (ac_ownerAttempts_update fn a) i = rows a i"
  "rows (ac_ownerLockedUntil_update fn a) i = rows a i" "rows (ad_owner_update fo a) i = rows a i"
  "rows (ad_audit_update fl a) i = rows a i"
  by (simp_all add: rows_def)

lemma revoke_subject_simps [simp]:
  "rows (revoke_subject p a) i = rows a i" "ac_profiles (revoke_subject p a) = ac_profiles a"
  "ad_profiles (revoke_subject p a) = ad_profiles a" "ad_policies (revoke_subject p a) = ad_policies a"
  "ad_audio (revoke_subject p a) = ad_audio a" "ad_subtitle (revoke_subject p a) = ad_subtitle a"
  by (simp_all add: revoke_subject_def)

text \<open>Sections that leave every profile alone.\<close>

lemma issue_same [simp]: "ac_profiles (fst (issue H p x now a)) = ac_profiles a" "rows (fst (issue H p x now a)) i = rows a i"
  by (simp_all add: issue_def split: option.split)

lemma login_same [simp]:
  "ac_profiles (fst (login_finish H v x now a)) = ac_profiles a" "rows (fst (login_finish H v x now a)) i = rows a i"
  by (simp_all add: login_finish_def Let_def)

lemma claim_recover_same:
  "claim_save h s x a = Inr a' \<Longrightarrow> ac_profiles a' = ac_profiles a \<and> (\<forall>i. rows a' i = rows a i)"
  "recover_save h s x now a = Inr a' \<Longrightarrow> ac_profiles a' = ac_profiles a \<and> (\<forall>i. rows a' i = rows a i)"
  by (auto simp: claim_save_def recover_save_def split: if_splits)

lemma keep_same [simp]:
  "ac_profiles (claim_keep h s a) = ac_profiles a" "rows (claim_keep h s a) i = rows a i"
  "ac_profiles (recover_keep h s a) = ac_profiles a" "rows (recover_keep h s a) i = rows a i"
  by (simp_all add: claim_keep_def recover_keep_def)

lemma session_same [simp]:
  "ac_profiles (fst (logout H t x a)) = ac_profiles a" "rows (fst (logout H t x a)) i = rows a i"
  "ac_profiles (fst (revoke_session j x a)) = ac_profiles a" "rows (fst (revoke_session j x a)) i = rows a i"
  by (simp_all add: logout_def revoke_session_def split: option.split)

text \<open>Sections that change one profile.\<close>

lemma rows_update:
  "rows (ad_profiles_update (\<lambda>_. AList.update i r (ad_profiles a)) a) j =
    (if j = i then (Some r, map_of (ad_policies a) i, map_of (ad_audio a) i, map_of (ad_subtitle a) i) else rows a j)"
  by (simp add: rows_def)

lemma matchesE:
  assumes "matches p (rows a i)"
  obtains r where "map_of (ad_profiles a) i = Some r" and "row_of p r" and "map_of (ad_policies a) i = Some (pf_policy p)"
    and "(case map_of (ad_audio a) i of None \<Rightarrow> '''' | Some l \<Rightarrow> l) = pf_audioLanguage p"
    and "subtitle_of p (map_of (ad_subtitle a) i)" and "pf_Protected p = (pf_hash p \<noteq> '''')"
  using assms by (auto simp: rows_def)

lemma tied_delete:
  assumes "tied a f"
  shows "tied (fst (delete_profile i x a)) f"
proof (cases "has_key (ac_profiles a) i \<and> ax_up x")
  case True
  then obtain p where "map_of (ac_profiles a) i = Some p" by (auto simp: has_key_def)
  with assms show ?thesis
    by (rule tied_change) (use True in \<open>auto simp: delete_profile_def loaded_def rows_def\<close>)
next
  case False
  with assms show ?thesis by (auto simp: delete_profile_def)
qed

lemma edited_facts:
  assumes "edited D name pin unprotect x p = Inr q" and "\<forall>s t. D s t \<noteq> ''''" and "pf_Protected p = (pf_hash p \<noteq> '''')"
  shows "pf_ID q = pf_ID p \<and> pf_attempts q = pf_attempts p \<and> pf_lockedUntil q = pf_lockedUntil p \<and>
    pf_audioLanguage q = pf_audioLanguage p \<and> pf_subtitle q = pf_subtitle p \<and> pf_policy q = pf_policy p \<and>
    pf_Protected q = (pf_hash q \<noteq> '''')"
  using assms by (auto simp: edited_def hash_pin_def Let_def split: if_splits option.splits)

lemma tied_update:
  assumes t: "tied a f" and D: "\<forall>s t. D s t \<noteq> ''''"
  shows "tied (fst (update_profile D i name pin unprotect x a)) f"
proof (cases "snd (update_profile D i name pin unprotect x a)")
  case (Inl e)
  then have "fst (update_profile D i name pin unprotect x a) = a"
    by (auto simp: update_profile_def Let_def split: if_splits option.splits sum.splits)
  with t show ?thesis by simp
next
  case (Inr v)
  then obtain p q r where p: "map_of (ac_profiles a) i = Some p" and q: "edited D name pin unprotect x p = Inr q"
    and r: "map_of (ad_profiles a) i = Some r"
    and st: "fst (update_profile D i name pin unprotect x a) =
      (if pin \<noteq> '''' \<or> unprotect then revoke_subject i a else a)
        \<lparr>ad_profiles := AList.update i (r\<lparr>dp_name := pf_Name q, dp_hash := pf_hash q, dp_salt := pf_salt q\<rparr>)
          (ad_profiles a), ac_profiles := AList.update i q (ac_profiles a)\<rparr>"
    by (auto simp: update_profile_def Let_def split: if_splits option.splits sum.splits)
  from tiedD(1) [OF t p] have id: "pf_ID p = i" and m: "matches p (rows a i)" by simp_all
  from m r have "row_of p r" and prot: "pf_Protected p = (pf_hash p \<noteq> '''')" by (auto simp: rows_def)
  with edited_facts [OF q D prot] subtitle_of_cong [of q p] m id
  have "loaded (fst (update_profile D i name pin unprotect x a)) i"
    unfolding st by (auto simp: loaded_def rows_def row_of_def)
  with t p show ?thesis by (rule tied_change) (simp_all add: st rows_def)
qed

lemma tied_policy:
  assumes "tied a f"
  shows "tied (fst (update_policy i pol x a)) f"
proof (cases "snd (update_policy i pol x a)")
  case (Inl e)
  then have "fst (update_policy i pol x a) = a"
    by (auto simp: update_policy_def Let_def split: if_splits option.splits sum.splits)
  with assms show ?thesis by simp
next
  case (Inr v)
  then obtain p pol' where p: "map_of (ac_profiles a) i = Some p"
    and st: "fst (update_policy i pol x a) = (revoke_subject i a)
        \<lparr>ad_policies := AList.update i pol' (ad_policies a),
         ac_profiles := AList.update i (p\<lparr>pf_policy := pol'\<rparr>) (ac_profiles a)\<rparr>"
    by (auto simp: update_policy_def Let_def split: if_splits option.splits sum.splits)
  from tiedD(1) [OF assms p] have "loaded (fst (update_policy i pol x a)) i"
    unfolding st by (auto simp: loaded_def rows_def)
  with assms p show ?thesis by (rule tied_change) (simp_all add: st rows_def)
qed

lemma tied_audio:
  assumes "tied a f"
  shows "tied (fst (save_audio_language i l x a)) f"
proof (cases "map_of (ac_profiles a) i = None \<or> \<not> ax_up x")
  case True
  with assms show ?thesis by (auto simp: save_audio_language_def Let_def split: option.splits)
next
  case False
  then obtain p where p: "map_of (ac_profiles a) i = Some p" by auto
  from tiedD(1) [OF assms p] have "loaded (fst (save_audio_language i l x a)) i"
    using p False by (auto simp: save_audio_language_def Let_def loaded_def rows_def)
  with assms p show ?thesis
    by (rule tied_change) (use p False in \<open>simp_all add: save_audio_language_def Let_def rows_def\<close>)
qed

lemma tied_subtitle:
  assumes "tied a f"
  shows "tied (fst (save_subtitle_preference i s x a)) f"
proof (cases "snd (save_subtitle_preference i s x a)")
  case (Inl e)
  then have "fst (save_subtitle_preference i s x a) = a"
    by (auto simp: save_subtitle_preference_def Let_def split: if_splits option.splits)
  with assms show ?thesis by simp
next
  case (Inr v)
  then obtain p s' where p: "map_of (ac_profiles a) i = Some p"
    and st: "fst (save_subtitle_preference i s x a) = a\<lparr>ad_subtitle := AList.update i s' (ad_subtitle a),
        ac_profiles := AList.update i (p\<lparr>pf_subtitle := s'\<rparr>) (ac_profiles a)\<rparr>"
    by (auto simp: save_subtitle_preference_def Let_def split: if_splits option.splits)
  from tiedD(1) [OF assms p] have "loaded (fst (save_subtitle_preference i s x a)) i"
    unfolding st by (auto simp: loaded_def rows_def)
  with assms p show ?thesis by (rule tied_change) (simp_all add: st rows_def)
qed

text \<open>What a finished attempt does to the profile, when it is counted at all.\<close>

lemma select_finish_cases:
  assumes "select_finish H i h s valid x now a = (a', r)"
  obtains (refused) "a' = a" "select_log i valid x now a r = []" "\<forall>v. r \<noteq> Some (Inr v)"
  | (counted) p r' where "map_of (ac_profiles a) i = Some p" "pf_hash p = h" "pf_salt p = s"
      "\<not> now < pf_lockedUntil p" "ax_up x"
      "persist_attempt (if valid then p\<lparr>pf_attempts := 0\<rparr> else count_wrong now p) x a = Inr r'"
      "ac_profiles a' = AList.update i (if valid then p\<lparr>pf_attempts := 0\<rparr> else count_wrong now p) (ac_profiles r')"
      "\<And>j. rows a' j = rows r' j"
      "select_log i valid x now a r = (if valid then [Settled i] else [WrongPin i now])"
      "r = Some (if valid then snd (issue H i x now (r'\<lparr>ac_profiles := AList.update i (p\<lparr>pf_attempts := 0\<rparr>) (ac_profiles r')\<rparr>))
                 else Inl ErrPIN)"
      "ad_sessions a' = (if valid then ad_sessions (fst (issue H i x now
          (r'\<lparr>ac_profiles := AList.update i (p\<lparr>pf_attempts := 0\<rparr>) (ac_profiles r')\<rparr>))) else ad_sessions r')"
proof (cases "map_of (ac_profiles a) i")
  case None
  with assms refused show ?thesis by (auto simp: select_finish_def select_log_def has_key_def)
next
  case (Some p)
  let ?q = "if valid then p\<lparr>pf_attempts := 0\<rparr> else count_wrong now p"
  show ?thesis
  proof (cases "pf_hash p \<noteq> h \<or> pf_salt p \<noteq> s \<or> now < pf_lockedUntil p \<or> \<not> ax_up x")
    case True
    with Some assms have "a' = a" "select_log i valid x now a r = []" "\<forall>v. r \<noteq> Some (Inr v)"
      by (auto simp: select_finish_def select_log_def persist_attempt_def Let_def split: if_splits)
    then show ?thesis by (rule refused)
  next
    case False
    then obtain r' where r': "persist_attempt ?q x a = Inr r'" by (auto simp: persist_attempt_def)
    have fin: "select_finish H i h s valid x now a =
        (let b = r'\<lparr>ac_profiles := AList.update i ?q (ac_profiles r')\<rparr> in
         if \<not> valid then (b, Some (Inl ErrPIN)) else let (b, y) = issue H i x now b in (b, Some y))"
      using Some False r' by (auto simp: select_finish_def Let_def)
    have nolimit: "snd (issue H i x now b) \<noteq> Inl ErrRateLimited" for b
      by (simp add: issue_def split: option.split)
    show ?thesis
    proof (cases valid)
      case True
      let ?b = "r'\<lparr>ac_profiles := AList.update i (p\<lparr>pf_attempts := 0\<rparr>) (ac_profiles r')\<rparr>"
      obtain b y where b: "issue H i x now ?b = (b, y)" by (cases "issue H i x now ?b")
      then have "b = fst (issue H i x now ?b)" "y = snd (issue H i x now ?b)" by simp_all
      moreover have "a' = b" "r = Some y" using assms fin b True by simp_all
      ultimately show ?thesis
        using counted [OF Some _ _ _ _ r'] False True nolimit [of ?b] Some
        by (auto simp: select_log_def has_key_def)
    next
      case invalid: False
      have "a' = r'\<lparr>ac_profiles := AList.update i ?q (ac_profiles r')\<rparr>" "r = Some (Inl ErrPIN)"
        using assms fin invalid by (simp_all add: Let_def)
      then show ?thesis
        using counted [OF Some _ _ _ _ r'] False invalid Some by (auto simp: select_log_def has_key_def)
    qed
  qed
qed

lemma persisted:
  assumes "persist_attempt q x a = Inr a'" and "map_of (ad_profiles a) (pf_ID q) = Some r"
  shows "ac_profiles a' = ac_profiles a \<and> ad_sessions a' = ad_sessions a \<and> ad_owner a' = ad_owner a \<and>
    ad_policies a' = ad_policies a \<and> ad_audio a' = ad_audio a \<and> ad_subtitle a' = ad_subtitle a \<and>
    map_of (ad_profiles a') = (map_of (ad_profiles a))
      (pf_ID q \<mapsto> r\<lparr>dp_attempts := pf_attempts q, dp_locked := unix_of (pf_lockedUntil q)\<rparr>)"
  using assms by (auto simp: persist_attempt_def split: if_splits)

lemma count_wrong_same [simp]:
  "pf_ID (count_wrong now p) = pf_ID p" "pf_Name (count_wrong now p) = pf_Name p"
  "pf_hash (count_wrong now p) = pf_hash p" "pf_salt (count_wrong now p) = pf_salt p"
  "pf_Protected (count_wrong now p) = pf_Protected p" "pf_audioLanguage (count_wrong now p) = pf_audioLanguage p"
  "pf_subtitle (count_wrong now p) = pf_subtitle p" "pf_policy (count_wrong now p) = pf_policy p"
  by (simp_all add: count_wrong_def Let_def)

lemma tied_select:
  assumes t: "tied a f"
  shows "tied (fst (select_finish H i h s v x now a)) f"
proof -
  obtain a' r where o: "select_finish H i h s v x now a = (a', r)" by (cases "select_finish H i h s v x now a")
  then show ?thesis
  proof (cases rule: select_finish_cases)
    case refused
    with o t show ?thesis by simp
  next
    case (counted p b)
    let ?q = "if v then p\<lparr>pf_attempts := 0\<rparr> else count_wrong now p"
    from tiedD(1) [OF t counted(1)] have id: "pf_ID p = i" and m: "matches p (rows a i)" by simp_all
    then obtain row where row: "map_of (ad_profiles a) i = Some row" "row_of p row" by (auto elim: matchesE)
    from persisted [OF counted(6), of row] row(1) id
    have b: "ac_profiles b = ac_profiles a" "ad_policies b = ad_policies a" "ad_audio b = ad_audio a"
      "ad_subtitle b = ad_subtitle a" "map_of (ad_profiles b) = (map_of (ad_profiles a))
        (i \<mapsto> row\<lparr>dp_attempts := pf_attempts ?q, dp_locked := unix_of (pf_lockedUntil ?q)\<rparr>)"
      by (auto split: if_splits)
    have r: "rows a' i = (Some (row\<lparr>dp_attempts := pf_attempts ?q, dp_locked := unix_of (pf_lockedUntil ?q)\<rparr>),
        map_of (ad_policies a) i, map_of (ad_audio a) i, map_of (ad_subtitle a) i)"
      using counted(8) b by (simp add: rows_def)
    have "subtitle_of ?q s = subtitle_of p s" for s by (rule subtitle_of_cong) simp
    then have "matches ?q (rows a' i)"
      using m row unfolding r by (auto simp: rows_def row_of_def)
    then have "loaded a' i"
      using counted(7) b id r m by (auto simp: loaded_def rows_def)
    with t counted(1) have "tied a' f"
      by (rule tied_change) (use counted(7,8) b in \<open>auto simp: rows_def\<close>)
    with o show ?thesis by simp
  qed
qed

lemma default_policy_eq: "unrestricted\<lparr>po_version := 1\<rparr> = default_policy"
  by code_simp

lemma create_save_facts:
  assumes "create_save D name pin x a = Inr (a', p)" and "\<forall>s t. D s t \<noteq> ''''" and "rows_ok (rows a (pf_ID p))"
  shows "matches p (rows a' (pf_ID p)) \<and> map_of (ad_profiles a) (pf_ID p) = None \<and> ac_profiles a' = ac_profiles a \<and>
    (\<forall>j. j \<noteq> pf_ID p \<longrightarrow> rows a' j = rows a j) \<and> ad_sessions a' = ad_sessions a \<and> ad_owner a' = ad_owner a \<and>
    map_of (ad_profiles a') (pf_ID p) = Some \<lparr>dp_name = pf_Name p, dp_hash = pf_hash p, dp_salt = pf_salt p,
      dp_attempts = 0, dp_locked = 0\<rparr>"
  using assms
  by (auto simp: create_save_def hash_pin_def new_profile_def has_key_def rows_def default_policy_eq row_of_def
      subtitle_of_def split: if_splits option.splits sum.splits)

lemma tied_create_save:
  assumes t: "tied a f" and c: "create_save D name pin x a = Inr (a', p)" and D: "\<forall>s t. D s t \<noteq> ''''"
  shows "tied a' (f(n := Some (AtCreateKeep p)))"
proof -
  have ok: "rows_ok (rows a (pf_ID p))" using tiedD(2) [OF t] .
  note c = create_save_facts [OF c D ok]
  have none: "map_of (ac_profiles a) (pf_ID p) = None"
    using tiedD(1) [OF t, of "pf_ID p"] c by (cases "map_of (ac_profiles a) (pf_ID p)") (auto simp: rows_def)
  have "loaded a' j" for j
  proof (cases "j = pf_ID p")
    case True
    with c none show ?thesis by (auto simp: loaded_def rows_def)
  next
    case False
    with c t loaded_cong [of a' j a] show ?thesis by (simp add: tied_def)
  qed
  moreover have "pf_ID q \<noteq> pf_ID p" if "f m = Some (AtCreateKeep q)" for m q
    using tiedD(3) [OF t that] c by (auto simp: rows_def)
  moreover have "pf_ID p \<noteq> pf_ID q" if "f m = Some (AtCreateKeep q)" for m q
    using calculation(2) [OF that] by simp
  ultimately show ?thesis using t c none unfolding tied_def by (auto split: if_splits)
qed

lemma tied_create_keep:
  assumes "tied a f" and "f n = Some (AtCreateKeep p)"
  shows "tied (create_keep p a) (f(n := None))"
proof -
  from tiedD(3) [OF assms] have m: "matches p (rows a (pf_ID p))" by simp
  have other: "pf_ID q \<noteq> pf_ID p" if "m \<noteq> n" "f m = Some (AtCreateKeep q)" for m q
    using assms that unfolding tied_def by metis
  have "loaded (create_keep p a) j" for j
  proof (cases "j = pf_ID p")
    case True
    with m tiedD(2) [OF assms(1), of j] show ?thesis by (simp add: loaded_def create_keep_def)
  next
    case False
    with assms(1) loaded_cong [of "create_keep p a" j a] show ?thesis by (simp add: tied_def create_keep_def)
  qed
  with assms(1) other show ?thesis unfolding tied_def create_keep_def by (auto split: if_splits)
qed

end
