(* ===== verification/AccountProps.thy ===== *)
theory AccountProps
  imports AccountRuns
begin

text \<open>
  What holds of the accounts in every run of \<open>AccountRuns\<close>: the memory is what a restart would
  load, wrong PINs are slowed down for good, a session that was revoked stays revoked, and a
  profile is only ever entered with the PIN it has at that moment.
\<close>

section \<open>Restarting\<close>

lemma load_profile_key: "load_profile a (i, r) = Some (j, p) \<Longrightarrow> j = i \<and> pf_ID p = i"
  by (auto simp: load_profile_def split: option.splits)

lemma map_of_loaded:
  "those (map (load_profile a) l) = Some ps \<Longrightarrow> map_of ps i =
    (case map_of l i of None \<Rightarrow> None | Some r \<Rightarrow> map_option snd (load_profile a (i, r)))"
proof (induction l arbitrary: ps)
  case (Cons e l)
  obtain j r where e: "e = (j, r)" by (cases e)
  from Cons.prems obtain k p ps' where p: "load_profile a (j, r) = Some (k, p)" "those (map (load_profile a) l) = Some ps'"
    "ps = (k, p) # ps'"
    by (auto simp: e split: option.splits)
  with Cons.IH [OF p(2)] load_profile_key [OF p(1)] show ?case by (simp add: e)
qed simp

lemma opened:
  assumes "open_accounts x now a = Inr a'"
  shows "rows a' i = rows a i \<and> ad_profiles a' = ad_profiles a \<and> ad_owner a' = ad_owner a \<and>
    ad_sessions a' = keep (\<lambda>h s. live_session now s) (ad_sessions a) \<and> map_of (ac_profiles a') i =
    (case map_of (ad_profiles a) i of None \<Rightarrow> None | Some r \<Rightarrow> map_option snd (load_profile a (i, r)))"
  using assms map_of_loaded [of a "ad_profiles a" _ i]
  by (auto simp: open_accounts_def split: if_splits option.splits)

lemma load_profile_matches:
  assumes "map_of (ad_profiles a) i = Some r" and "load_profile a (i, r) = Some (i, p)"
  shows "pf_ID p = i \<and> matches p (rows a i)"
  using assms
  by (auto simp: load_profile_def rows_def row_of_def subtitle_of_def get_or_def unix_of_def second_ns_def
      split: option.splits)

lemma tied_restart:
  assumes t: "tied a f" and o: "open_accounts x now a = Inr a'"
  shows "tied a' (\<lambda>_. None)"
proof -
  have "loaded a' i" for i
  proof -
    note o' = opened [OF o, of i]
    have "pf_ID p = i \<and> matches p (rows a i)" if p: "map_of (ac_profiles a') i = Some p" for p
    proof -
      from o' p obtain r where r: "map_of (ad_profiles a) i = Some r" by (cases "map_of (ad_profiles a) i") auto
      with o' p have "map_option snd (load_profile a (i, r)) = Some p" by simp
      then obtain k where "load_profile a (i, r) = Some (k, p)" by auto
      with r
      show ?thesis using load_profile_key load_profile_matches [of a i r p] by auto
    qed
    with o' tiedD(2) [OF t, of i] show ?thesis by (auto simp: loaded_def split: option.split)
  qed
  then show ?thesis by (simp add: tied_def)
qed

section \<open>The memory follows the tables in every run\<close>

definition hashes :: "(string \<Rightarrow> string \<Rightarrow> string) \<Rightarrow> bool" where
  "hashes D \<longleftrightarrow> (\<forall>s t. D s t \<noteq> '''')"

lemma map_of_put_frame [simp]: "map_of (put_frame n pc fs) = (map_of fs)(n := pc)"
  by (simp add: put_frame_def split: option.split)

lemma tied_start:
  assumes t: "tied a f" and D: "hashes D" and s: "start_call D c x now a = (a', pc, l)"
  shows "tied a' (f(n := pc))"
proof (cases "\<exists>name pin. c = CreateProfile name pin")
  case False
  then have "a' = a" "pc \<noteq> Some (AtCreateKeep p)" for p
    using s by (cases c; auto split: sum.splits)+
  with tied_frame [OF t] show ?thesis by metis
next
  case True
  then obtain name pin where c: "c = CreateProfile name pin" by blast
  show ?thesis
  proof (cases "create_save D name pin x a")
    case (Inl e)
    with s c tied_frame [OF t, of None] show ?thesis by simp
  next
    case (Inr v)
    with s c obtain p where "create_save D name pin x a = Inr (a', p)" "pc = Some (AtCreateKeep p)"
      by (cases v) auto
    with tied_create_save [OF t] D show ?thesis by (simp add: hashes_def)
  qed
qed

lemma tied_section:
  assumes t: "tied a (map_of fs)" and D: "hashes D" and n: "map_of fs n = Some pc"
    and s: "account_section H D pc x now a = (a', pc', l)"
  shows "tied a' ((map_of fs)(n := pc'))"
proof (cases pc)
  case (AtStart c)
  with tied_start [OF t D, of c x now a' pc' l n] s show ?thesis by simp
next
  case (AtCreateKeep p)
  with tied_create_keep [OF t, of n p] n s show ?thesis by simp
next
  case (AtSelectFinish i pin h z v)
  obtain b r where o: "select_finish H i h z v x now a = (b, r)" by (cases "select_finish H i h z v x now a")
  with s AtSelectFinish have "a' = b" "pc' \<noteq> Some (AtCreateKeep p)" for p by (auto split: if_splits)
  then show ?thesis
    using tied_frame [OF tied_select [OF t, of H i h z v x now], of pc' n] o by simp
next
  case (AtClaimSave h z)
  have "ac_profiles a' = ac_profiles a \<and> (\<forall>i. rows a' i = rows a i)" "pc' \<noteq> Some (AtCreateKeep p)" for p
    using s AtClaimSave claim_recover_same(1) [of h z x a] by (auto split: sum.splits)
  with tied_frame [OF tied_same [OF t]] show ?thesis by blast
next
  case (AtRecoverSave h z)
  have "ac_profiles a' = ac_profiles a \<and> (\<forall>i. rows a' i = rows a i)" "pc' \<noteq> Some (AtCreateKeep p)" for p
    using s AtRecoverSave claim_recover_same(2) [of h z x now a] by (auto split: sum.splits)
  with tied_frame [OF tied_same [OF t]] show ?thesis by blast
qed (use s tied_frame [OF tied_same [OF t]] in auto)

lemma tied_act:
  assumes t: "tied a f" and D: "hashes D"
  shows "tied (do_act H D act x now a) (if act = Restart then (\<lambda>_. None) else f)"
proof (cases act)
  case Restart
  show ?thesis
  proof (cases "open_accounts x now a")
    case (Inl e)
    with t Restart show ?thesis by (auto simp: tied_def)
  next
    case (Inr a')
    with tied_restart [OF t Inr] Restart show ?thesis by simp
  qed
qed (use t D tied_same [OF t] tied_delete tied_update tied_policy tied_audio tied_subtitle in
    \<open>simp_all add: hashes_def\<close>)

lemma tied_step:
  assumes "tied (aw_accounts w) (map_of (aw_frames w))" and "hashes D"
  shows "tied (aw_accounts (account_step H D w e)) (map_of (aw_frames (account_step H D w e)))"
proof (cases e)
  case (Begin n c)
  with tied_frame [OF assms(1), of "Some (AtStart c)" n] assms(1) show ?thesis by simp
next
  case (Advance n x)
  show ?thesis
  proof (cases "map_of (aw_frames w) n")
    case None
    with Advance assms(1) show ?thesis by simp
  next
    case (Some pc)
    obtain a' pc' l where s: "account_section H D pc x (aw_clock w + max 0 (ax_elapsed x)) (aw_accounts w) = (a', pc', l)"
      by (metis prod_cases3)
    with tied_section [OF assms Some s] Some Advance show ?thesis by (simp add: Let_def)
  qed
next
  case (Act act x)
  with tied_act [OF assms, of H act x "aw_clock w + max 0 (ax_elapsed x)"] show ?thesis
    by (auto simp: Let_def)
qed

lemma tied_fresh: "tied (fresh_accounts token) (\<lambda>_. None)"
  by (simp add: tied_def loaded_def rows_def fresh_accounts_def)

interpretation accounts_tied: machine "fresh_world token now" "account_step H D"
    "\<lambda>w. hashes D \<longrightarrow> tied (aw_accounts w) (map_of (aw_frames w))"
  for token now H D
  by unfold_locales (simp_all add: fresh_world_def tied_fresh tied_step)

section \<open>Wrong PINs\<close>

text \<open>Every fifth wrong PIN in a row is followed by a pause.\<close>

definition slow :: "int list \<Rightarrow> bool" where
  "slow ts \<longleftrightarrow> (\<forall>k. 0 < k \<longrightarrow> 5 * k < length ts \<longrightarrow> ts ! (5 * k - 1) + 59 * second_ns < ts ! (5 * k))"

definition waits :: "int list \<Rightarrow> profile_row option \<Rightarrow> int \<Rightarrow> bool" where
  "waits ts row clock \<longleftrightarrow> slow ts \<and> sorted ts \<and> (\<forall>t \<in> set ts. 0 \<le> t \<and> t \<le> clock) \<and>
     (\<forall>r. row = Some r \<longrightarrow> dp_attempts r = int (length ts mod 5) \<and>
        (ts \<noteq> [] \<and> length ts mod 5 = 0 \<longrightarrow> last ts + 59 * second_ns < dp_locked r * second_ns))"

lemma slow_snoc:
  assumes "slow ts" and "ts \<noteq> [] \<Longrightarrow> length ts mod 5 = 0 \<Longrightarrow> last ts + 59 * second_ns < t"
  shows "slow (ts @ [t])"
  unfolding slow_def
proof (intro allI impI)
  fix k :: nat assume k: "0 < k" "5 * k < length (ts @ [t])"
  show "(ts @ [t]) ! (5 * k - 1) + 59 * second_ns < (ts @ [t]) ! (5 * k)"
  proof (cases "5 * k = length ts")
    case True
    with k have ne: "ts \<noteq> []" by auto
    have "length ts mod 5 = 0" unfolding True [symmetric] by simp
    moreover from ne True have "last ts = ts ! (5 * k - 1)" by (simp add: last_conv_nth)
    ultimately have "last ts = ts ! (5 * k - 1)" "length ts mod 5 = 0" by simp_all
    with ne True k assms(2) show ?thesis by (simp add: nth_append)
  next
    case False
    with k have "5 * k < length ts" "5 * k - 1 < length ts" by simp_all
    with k assms(1) show ?thesis by (simp add: nth_append slow_def)
  qed
qed

lemma waits_later: "waits ts row c \<Longrightarrow> c \<le> c' \<Longrightarrow> waits ts row c'"
  by (auto simp: waits_def)

lemma waits_none: "waits ts row c \<Longrightarrow> waits ts None c"
  by (simp add: waits_def)

lemma waits_settled: "dp_attempts r = 0 \<Longrightarrow> waits [] (Some r) c"
  by (simp add: waits_def slow_def)

lemma waits_row:
  "waits ts (Some r) c \<Longrightarrow> dp_attempts r' = dp_attempts r \<Longrightarrow> dp_locked r' = dp_locked r \<Longrightarrow> waits ts (Some r') c"
  by (simp add: waits_def)

lemma unix_of_bounds: "unix_of t * second_ns \<le> t" "t < unix_of t * second_ns + second_ns"
  by (simp_all add: unix_of_def second_ns_def minus_mod_eq_mult_div [symmetric])

lemma waits_wrong:
  assumes w: "waits ts (Some r) c" and p: "row_of p r" and free: "\<not> now < pf_lockedUntil p" and le: "c \<le> now" and pos: "0 \<le> now"
  shows "waits (ts @ [now]) (Some (r\<lparr>dp_attempts := pf_attempts (count_wrong now p),
    dp_locked := unix_of (pf_lockedUntil (count_wrong now p))\<rparr>)) now"
proof -
  have a: "pf_attempts p = int (length ts mod 5)" using w p by (simp add: waits_def row_of_def)
  have gap: "last ts + 59 * second_ns < now" if "ts \<noteq> []" "length ts mod 5 = 0"
  proof -
    have l: "last ts + 59 * second_ns < dp_locked r * second_ns" "0 \<le> last ts" using w that by (auto simp: waits_def)
    then have "dp_locked r \<noteq> 0" by (auto simp: second_ns_def)
    with p have "dp_locked r * second_ns \<le> pf_lockedUntil p" using unix_of_bounds(1) by (auto simp: row_of_def)
    with l free show ?thesis by simp
  qed
  have "slow (ts @ [now])" using w gap by (intro slow_snoc) (auto simp: waits_def)
  moreover have "sorted (ts @ [now])" "\<forall>t \<in> set (ts @ [now]). 0 \<le> t \<and> t \<le> now"
    using w le pos by (auto simp: waits_def sorted_append)
  moreover have "pf_attempts (count_wrong now p) = int (length (ts @ [now]) mod 5)"
  proof -
    have "length ts mod 5 < 5" by simp
    then have "4 \<le> length ts mod 5 \<longleftrightarrow> length ts mod 5 = 4" by linarith
    with a show ?thesis by (simp add: count_wrong_def lock_attempts_def Let_def mod_Suc)
  qed
  moreover have "now + 59 * second_ns < unix_of (pf_lockedUntil (count_wrong now p)) * second_ns"
    if "length (ts @ [now]) mod 5 = 0"
  proof -
    have "length ts mod 5 = 4" using that by (simp add: mod_Suc split: if_splits)
    then have "pf_lockedUntil (count_wrong now p) = now + lock_time"
      using a by (simp add: count_wrong_def lock_attempts_def Let_def)
    with unix_of_bounds(2) [of "now + lock_time"] show ?thesis by (simp add: lock_time_def second_ns_def)
  qed
  ultimately show ?thesis by (simp add: waits_def)
qed

lemma same_rows: "rows a' i = rows a i \<Longrightarrow> map_of (ad_profiles a') i = map_of (ad_profiles a) i"
  by (simp add: rows_def)

lemma waits_start:
  assumes t: "tied a f" and D: "hashes D" and s: "start_call D c x now a = (a', pc, l)"
    and w: "waits ts (map_of (ad_profiles a) i) now"
  shows "waits (wrong_pins i l ts) (map_of (ad_profiles a') i) now"
proof (cases "\<exists>name pin v. c = CreateProfile name pin \<and> create_save D name pin x a = Inr v")
  case False
  then have "a' = a" "l = []" using s by (cases c; auto split: sum.splits)+
  with w show ?thesis by simp
next
  case True
  with s obtain name pin p where c: "create_save D name pin x a = Inr (a', p)" and l: "l = [Settled (pf_ID p)]"
    by auto
  have "rows_ok (rows a (pf_ID p))" using tiedD(2) [OF t] .
  from create_save_facts [OF c _ this] D
  have "map_of (ad_profiles a') (pf_ID p) = Some \<lparr>dp_name = pf_Name p, dp_hash = pf_hash p, dp_salt = pf_salt p,
      dp_attempts = 0, dp_locked = 0\<rparr>" "i \<noteq> pf_ID p \<Longrightarrow> rows a' i = rows a i"
    by (simp_all add: hashes_def)
  with w l same_rows [of a' i a] show ?thesis by (cases "i = pf_ID p") (simp_all add: waits_settled)
qed

lemma waits_select:
  assumes t: "tied a f" and s: "select_finish H j h z v x now a = (a', r)"
    and w: "waits ts (map_of (ad_profiles a) i) now" and pos: "0 \<le> now"
  shows "waits (wrong_pins i (select_log j v x now a r) ts) (map_of (ad_profiles a') i) now"
  using s
proof (cases rule: select_finish_cases)
  case refused
  with w show ?thesis by simp
next
  case (counted p b)
  let ?q = "if v then p\<lparr>pf_attempts := 0\<rparr> else count_wrong now p"
  from tiedD(1) [OF t counted(1)] have id: "pf_ID p = j" and m: "matches p (rows a j)" by simp_all
  then obtain row where row: "map_of (ad_profiles a) j = Some row" "row_of p row" by (auto elim: matchesE)
  have id': "pf_ID ?q = j" using id by simp
  from persisted [OF counted(6), of row] row(1) id' same_rows [OF counted(8)]
  have b: "map_of (ad_profiles a') = (map_of (ad_profiles a))
      (j \<mapsto> row\<lparr>dp_attempts := pf_attempts ?q, dp_locked := unix_of (pf_lockedUntil ?q)\<rparr>)"
    by (auto simp: fun_eq_iff)
  show ?thesis
  proof (cases "i = j")
    case False
    with b w counted(9) show ?thesis by simp
  next
    case True
    show ?thesis
    proof (cases v)
      case True
      with b \<open>i = j\<close> counted(9) show ?thesis by (simp add: waits_settled)
    next
      case False
      with waits_wrong [OF _ row(2) counted(4) order_refl pos, of ts] w b row(1) \<open>i = j\<close> counted(9)
      show ?thesis by simp
    qed
  qed
qed

lemma waits_section:
  assumes t: "tied a f" and D: "hashes D" and s: "account_section H D pc x now a = (a', pc', l)"
    and w: "waits ts (map_of (ad_profiles a) i) now" and pos: "0 \<le> now"
  shows "waits (wrong_pins i l ts) (map_of (ad_profiles a') i) now"
proof (cases pc)
  case (AtStart c)
  with waits_start [OF t D _ w] s show ?thesis by simp
next
  case (AtSelectFinish j pin h z v)
  obtain b r where o: "select_finish H j h z v x now a = (b, r)" by (cases "select_finish H j h z v x now a")
  with waits_select [OF t o w pos] s AtSelectFinish show ?thesis by auto
next
  case (AtClaimSave h z)
  with s w show ?thesis by (auto simp: claim_save_def split: if_splits)
next
  case (AtRecoverSave h z)
  with s w show ?thesis by (auto simp: recover_save_def split: if_splits)
next
  case (AtCreateKeep p)
  with s w show ?thesis by (auto simp: create_keep_def)
qed (use s w same_rows [of a' i a] in auto)

text \<open>An edit of a profile leaves the counter of wrong PINs and the lock as they are.\<close>

lemma waits_same:
  assumes "map_option (\<lambda>r. (dp_attempts r, dp_locked r)) row' = map_option (\<lambda>r. (dp_attempts r, dp_locked r)) row"
  shows "waits ts row c \<Longrightarrow> waits ts row' c"
  using assms by (cases row; cases row') (simp_all add: waits_def)

lemma update_profile_counters:
  "map_option (\<lambda>r. (dp_attempts r, dp_locked r)) (map_of (ad_profiles (fst (update_profile D j name pin unprotect x a))) i) =
   map_option (\<lambda>r. (dp_attempts r, dp_locked r)) (map_of (ad_profiles a) i)"
  by (simp add: update_profile_def Let_def split: option.split sum.split)

lemma waits_act:
  assumes t: "tied a f" and w: "waits ts (map_of (ad_profiles a) i) now"
  shows "waits ts (map_of (ad_profiles (do_act H D act x now a)) i) now"
proof (cases act)
  case (DeleteProfile j)
  with w waits_none [OF w] show ?thesis by (simp add: delete_profile_def)
next
  case (UpdateProfile j name pin unprotect)
  then show ?thesis using waits_same [OF update_profile_counters w] by simp
next
  case (UpdatePolicy j pol)
  have "ad_profiles (fst (update_policy j pol x a)) = ad_profiles a"
    by (simp add: update_policy_def Let_def split: option.split sum.split)
  with w UpdatePolicy show ?thesis by simp
next
  case Restart
  with w opened(1) [of x now a] show ?thesis by (auto split: sum.split)
next
  case (SaveAudio j l)
  with w show ?thesis by (simp add: save_audio_language_def Let_def split: option.split)
next
  case (SaveSubtitle j pref)
  with w show ?thesis by (simp add: save_subtitle_preference_def Let_def split: option.split)
next
  case (Logout t)
  with w show ?thesis by (simp add: logout_def)
next
  case (RevokeSession j)
  with w show ?thesis by (simp add: revoke_session_def split: option.split)
qed

definition guarded :: "accounts_world \<Rightarrow> bool" where
  "guarded w \<longleftrightarrow> 0 \<le> aw_clock w \<and>
     (\<forall>i. waits (wrong_pins i (aw_log w) []) (map_of (ad_profiles (aw_accounts w)) i) (aw_clock w))"

lemma guarded_step:
  assumes t: "tied (aw_accounts w) (map_of (aw_frames w))" and D: "hashes D" and g: "guarded w"
  shows "guarded (account_step H D w e)"
proof (cases e)
  case (Begin n c)
  with g show ?thesis by (simp add: guarded_def)
next
  case (Advance n x)
  let ?now = "aw_clock w + max 0 (ax_elapsed x)"
  have later: "waits (wrong_pins i (aw_log w) []) (map_of (ad_profiles (aw_accounts w)) i) ?now" for i
    using g waits_later [of _ _ "aw_clock w" ?now] by (simp add: guarded_def)
  show ?thesis
  proof (cases "map_of (aw_frames w) n")
    case None
    with Advance g show ?thesis by simp
  next
    case (Some pc)
    obtain a' pc' l where s: "account_section H D pc x ?now (aw_accounts w) = (a', pc', l)" by (metis prod_cases3)
    with waits_section [OF t D s later] Some Advance g show ?thesis
      by (simp add: guarded_def Let_def wrong_pins_append)
  qed
next
  case (Act act x)
  let ?now = "aw_clock w + max 0 (ax_elapsed x)"
  have "waits (wrong_pins i (aw_log w) []) (map_of (ad_profiles (do_act H D act x ?now (aw_accounts w))) i) ?now" for i
    using g waits_later [of _ _ "aw_clock w" ?now] by (intro waits_act [OF t]) (simp add: guarded_def)
  with Act g show ?thesis by (simp add: guarded_def Let_def)
qed

interpretation accounts_guarded: machine "fresh_world token (int now)" "account_step H D"
    "\<lambda>w. hashes D \<longrightarrow> tied (aw_accounts w) (map_of (aw_frames w)) \<and> guarded w"
  for token now H D
proof
  show "hashes D \<longrightarrow> tied (aw_accounts (fresh_world token (int now))) (map_of (aw_frames (fresh_world token (int now)))) \<and>
      guarded (fresh_world token (int now))"
    using tied_fresh [of token]
    by (simp add: fresh_world_def guarded_def waits_def slow_def) (simp add: fresh_accounts_def)
qed (use tied_step guarded_step in blast)

text \<open>
  C11: Guessing a PIN is slow for good. In every interleaving of all calls, over restarts of the
  server and edits of the profile, of six wrong PINs in a row for one profile the last comes more
  than 59 seconds after the first.
\<close>
theorem pin_guessing_is_slow:
  assumes "hashes D" and "0 \<le> now"
    and "ts = wrong_pins i (aw_log (run_steps (account_step H D) (fresh_world token now) events)) []"
    and "k + 5 < length ts"
  shows "ts ! k + 59 * second_ns < ts ! (k + 5)"
proof -
  have "guarded (run_steps (account_step H D) (fresh_world token now) events)"
    using accounts_guarded.ok_reachable [of D H token "nat now" events] assms(1,2) by simp
  then have ts: "slow ts" "sorted ts" by (auto simp: guarded_def waits_def assms(3))
  define m where "m = Suc (k div 5)"
  have m: "0 < m" "k < 5 * m" "5 * m \<le> k + 5" by (simp_all add: m_def)
  then have "ts ! (5 * m - 1) + 59 * second_ns < ts ! (5 * m)"
    using ts(1) assms(4) by (simp add: slow_def)
  moreover have "ts ! k \<le> ts ! (5 * m - 1)"
    using ts(2) m assms(4) by (intro sorted_nth_mono) simp_all
  moreover have "ts ! (5 * m) \<le> ts ! (k + 5)"
    using ts(2) m assms(4) by (intro sorted_nth_mono) simp_all
  ultimately show ?thesis by simp
qed

section \<open>Sessions that were revoked\<close>

text \<open>What a call can do to the table of sessions.\<close>

inductive session_move :: "(string \<Rightarrow> string) \<Rightarrow> account_choice \<Rightarrow> (string, session_row) gomap \<Rightarrow>
    (string, session_row) gomap \<Rightarrow> bool" for H x where
  same: "session_move H x m m"
| issued: "ax_token x = Some t \<Longrightarrow> map_of m (H t) = None \<Longrightarrow> session_move H x m (AList.update (H t) r m)"
| revoked: "map_of m h = Some r \<Longrightarrow> session_move H x m (AList.update h (revoke_row r) m)"
| revoked_all: "session_move H x m (map (\<lambda>(h, r). (h, if P h r then revoke_row r else r)) m)"
| cleaned: "session_move H x m (keep P m)"

lemma move_issue: "ad_sessions a = m \<Longrightarrow> session_move H x m (ad_sessions (fst (issue H p x now a)))"
  by (auto simp: issue_def has_key_def split: option.split intro: session_move.intros)

lemma move_revoke_subject: "session_move H x (ad_sessions a) (ad_sessions (revoke_subject p a))"
  unfolding revoke_subject_def using session_move.revoked_all [of H x "ad_sessions a" "\<lambda>h s. ss_subject s = p"] by simp

lemma persisted_sessions: "persist_attempt p x a = Inr b \<Longrightarrow> ad_sessions b = ad_sessions a"
  by (auto simp: persist_attempt_def split: if_splits option.splits)

lemma move_section:
  assumes "account_section H D pc x now a = (a', pc', l)"
  shows "session_move H x (ad_sessions a) (ad_sessions a')"
proof (cases pc)
  case (AtStart c)
  have "ad_sessions a' = ad_sessions a"
    using assms AtStart by (cases c) (auto simp: create_save_def split: sum.splits if_splits option.splits)
  then show ?thesis by (simp add: session_move.same)
next
  case (AtSelectFinish j pin h z v)
  obtain b r where o: "select_finish H j h z v x now a = (b, r)" by (cases "select_finish H j h z v x now a")
  have a': "a' = b" using assms AtSelectFinish o by simp
  from o show ?thesis
  proof (cases rule: select_finish_cases)
    case refused
    with a' show ?thesis by (simp add: session_move.same)
  next
    case (counted p c)
    with a' persisted_sessions [OF counted(6)] show ?thesis
      by (cases v) (auto intro!: move_issue session_move.same)
  qed
next
  case (AtRecoverSave h z)
  have "ad_sessions a' = ad_sessions (revoke_subject ''owner'' a) \<or> a' = a"
    using assms AtRecoverSave by (auto simp: recover_save_def split: if_splits)
  with move_revoke_subject show ?thesis by (auto intro: session_move.same)
next
  case AtClaimIssue
  then show ?thesis using assms by (auto intro: move_issue)
next
  case (AtLoginFinish v)
  let ?a = "a\<lparr>ac_ownerAttempts := 0\<rparr>"
  have "ad_sessions a' = ad_sessions a \<or> ad_sessions a' = ad_sessions (fst (issue H ''owner'' x now ?a))"
    using assms AtLoginFinish by (auto simp: login_finish_def Let_def split: if_splits)
  with move_issue [of ?a "ad_sessions a"] show ?thesis by (auto intro: session_move.same)
qed (use assms in \<open>auto simp: claim_save_def claim_keep_def recover_keep_def create_keep_def
    split: if_splits intro: session_move.same\<close>)

lemma move_act: "session_move H x (ad_sessions a) (ad_sessions (do_act H D act x now a))"
proof (cases act)
  case (Logout t)
  with session_move.revoked_all [of H x "ad_sessions a" "\<lambda>h s. h = H t"] show ?thesis
    by (simp add: logout_def session_move.same)
next
  case (RevokeSession i)
  then show ?thesis by (auto simp: revoke_session_def split: option.split intro: session_move.intros)
next
  case (DeleteProfile i)
  with move_revoke_subject show ?thesis by (simp add: delete_profile_def session_move.same)
next
  case (UpdateProfile i name pin unprotect)
  with move_revoke_subject show ?thesis
    by (auto simp: update_profile_def Let_def session_move.same split: option.split sum.split)
next
  case (UpdatePolicy i pol)
  with move_revoke_subject show ?thesis
    by (auto simp: update_policy_def Let_def session_move.same split: option.split sum.split)
next
  case Restart
  then show ?thesis using opened [of x now a]
    by (auto split: sum.split intro: session_move.intros)
qed (auto simp: save_audio_language_def save_subtitle_preference_def Let_def split: option.split
    intro: session_move.same)

text \<open>An event that does not draw a token with the same hash again.\<close>

fun draws_other :: "(string \<Rightarrow> string) \<Rightarrow> string \<Rightarrow> account_event \<Rightarrow> bool" where
  "draws_other H h (Begin n c) = True"
| "draws_other H h (Advance n x) = (map_option H (ax_token x) \<noteq> Some h)"
| "draws_other H h (Act act x) = (map_option H (ax_token x) \<noteq> Some h)"

lemma move_step:
  obtains x where "session_move H x (ad_sessions (aw_accounts w)) (ad_sessions (aw_accounts (account_step H D w e)))"
    and "\<And>h. draws_other H h e \<Longrightarrow> map_option H (ax_token x) \<noteq> Some h"
proof (cases e)
  case (Begin n c)
  then show ?thesis using that [of "\<lparr>ax_elapsed = 0, ax_up = True, ax_salt = None, ax_token = None, ax_saturated = False\<rparr>"]
    by (simp add: session_move.same)
next
  case (Advance n x)
  show ?thesis
  proof (cases "map_of (aw_frames w) n")
    case None
    with Advance that [of x] show ?thesis by (simp add: session_move.same)
  next
    case (Some pc)
    obtain a' pc' l where s: "account_section H D pc x (aw_clock w + max 0 (ax_elapsed x)) (aw_accounts w) = (a', pc', l)"
      by (metis prod_cases3)
    with Some Advance move_section [OF s] that [of x] show ?thesis by (simp add: Let_def)
  qed
next
  case (Act act x)
  with move_act that [of x] show ?thesis by (simp add: Let_def)
qed

lemma move_wf: "session_move H x m m' \<Longrightarrow> wf_map m \<Longrightarrow> wf_map m'"
  by (induction rule: session_move.induct) (auto simp: wf_map_def distinct_update case_prod_beta o_def keep_def
      intro: distinct_map_filter)

text \<open>A session that is revoked or gone stays so until its token is drawn again.\<close>

definition dead :: "string \<Rightarrow> (string, session_row) gomap \<Rightarrow> bool" where
  "dead h m \<longleftrightarrow> (\<forall>r. (h, r) \<in> set m \<longrightarrow> ss_revoked r)"

lemma move_dead: "session_move H x m m' \<Longrightarrow> dead h m \<Longrightarrow> map_option H (ax_token x) \<noteq> Some h \<Longrightarrow> dead h m'"
proof (induction rule: session_move.induct)
  case (issued t m r)
  then show ?case using set_update_subset [of "H t" r m] by (auto simp: dead_def)
next
  case (revoked m k r)
  then show ?case using set_update_subset [of k "revoke_row r" m] by (auto simp: dead_def revoke_row_def)
next
  case (revoked_all P m)
  then show ?case by (auto simp: dead_def revoke_row_def)
qed (auto simp: dead_def keep_def)

interpretation accounts_sessions: machine "fresh_world token now" "account_step H D"
    "\<lambda>w. wf_map (ad_sessions (aw_accounts w))"
  for token now H D
proof
  show "wf_map (ad_sessions (aw_accounts (fresh_world token now)))"
    by (simp add: fresh_world_def fresh_accounts_def)
  show "wf_map (ad_sessions (aw_accounts (account_step H D w e)))"
    if "wf_map (ad_sessions (aw_accounts w))" for w e
    using move_step [of H w D e] move_wf that by metis
qed

lemma dead_run:
  assumes "dead h (ad_sessions (aw_accounts w))" and "list_all (draws_other H h) later"
  shows "dead h (ad_sessions (aw_accounts (run_steps (account_step H D) w later)))"
  using assms
proof (induction later arbitrary: w)
  case (Cons e later)
  obtain x where "session_move H x (ad_sessions (aw_accounts w)) (ad_sessions (aw_accounts (account_step H D w e)))"
    and "\<And>k. draws_other H k e \<Longrightarrow> map_option H (ax_token x) \<noteq> Some k"
    using move_step [of H w D e] by blast
  with Cons move_dead show ?case by simp
qed simp

lemma dead_subject: "dead (H t) (ad_sessions a) \<Longrightarrow> subject H now a t = ''''"
  by (auto simp: dead_def subject_def live_session_def split: option.split dest: map_of_SomeD)

text \<open>The acts that end the sessions of a profile, when they succeed.\<close>

fun ends_sessions :: "(string \<Rightarrow> string \<Rightarrow> string) \<Rightarrow> string \<Rightarrow> account_act \<Rightarrow> account_choice \<Rightarrow> accounts \<Rightarrow> bool" where
  "ends_sessions D p (DeleteProfile i) x a = (i = p \<and> is_ok (snd (delete_profile i x a)))"
| "ends_sessions D p (UpdateProfile i name pin unprotect) x a =
    (i = p \<and> (pin \<noteq> '''' \<or> unprotect) \<and> is_ok (snd (update_profile D i name pin unprotect x a)))"
| "ends_sessions D p (UpdatePolicy i policy) x a = (i = p \<and> is_ok (snd (update_policy i policy x a)))"
| "ends_sessions D p act x a = False"

lemma dead_revoke_subject:
  assumes "wf_map m" and "map_of m h = Some r" and "ss_subject r = p"
  shows "dead h (map (\<lambda>(k, s). (k, if ss_subject s = p then revoke_row s else s)) m)"
  using assms by (auto simp: dead_def revoke_row_def wf_map_mem_iff split: if_splits)

lemma ends_sessions_revokes:
  assumes "ends_sessions D p act x a"
  shows "ad_sessions (do_act H D act x now a) = ad_sessions (revoke_subject p a)"
  using assms
  by (cases act)
    (auto simp: delete_profile_def update_profile_def update_policy_def Let_def split: if_splits option.splits sum.splits)

text \<open>
  C29: When a profile is deleted, its PIN is changed or removed, or its policy is replaced, every
  session it had ends at once and for ever: whatever runs afterwards, restarts included, the token
  is nobody's unless the same random token is drawn again.
\<close>
theorem ended_sessions_stay_dead:
  assumes "w = run_steps (account_step H D) (fresh_world token now) events"
    and "ends_sessions D p act x (aw_accounts w)" and "p \<noteq> ''''" and "subject H before (aw_accounts w) t = p"
    and "list_all (draws_other H (H t)) later"
  shows "subject H later_now (aw_accounts (run_steps (account_step H D) (account_step H D w (Act act x)) later)) t = ''''"
proof -
  have wf: "wf_map (ad_sessions (aw_accounts w))"
    unfolding assms(1) by (rule accounts_sessions.ok_reachable)
  obtain r where r: "map_of (ad_sessions (aw_accounts w)) (H t) = Some r" "ss_subject r = p"
    using assms(3,4) by (auto simp: subject_def split: if_splits option.splits)
  have "dead (H t) (ad_sessions (aw_accounts (account_step H D w (Act act x))))"
    using ends_sessions_revokes [OF assms(2)] dead_revoke_subject [OF wf r]
    by (simp add: Let_def revoke_subject_def)
  from dead_run [OF this assms(5)] show ?thesis by (rule dead_subject)
qed

section \<open>The PIN of the moment\<close>

text \<open>What a call of Select found out in its first section is still true of what it remembers.\<close>

fun checked :: "(string \<Rightarrow> string \<Rightarrow> string) \<Rightarrow> account_pc \<Rightarrow> bool" where
  "checked D (AtSelectFinish i pin h s v) = (v \<longrightarrow> h = '''' \<or> D pin s = h)"
| "checked D pc = True"

definition frames_checked :: "(string \<Rightarrow> string \<Rightarrow> string) \<Rightarrow> accounts_world \<Rightarrow> bool" where
  "frames_checked D w \<longleftrightarrow> (\<forall>n pc. map_of (aw_frames w) n = Some pc \<longrightarrow> checked D pc)"

lemma checked_section:
  assumes t: "tied a f" and s: "account_section H D pc x now a = (a', Some pc', l)"
  shows "checked D pc'"
proof (cases pc)
  case (AtStart c)
  show ?thesis
  proof (cases c)
    case (Select i pin)
    have "pf_Protected p = (pf_hash p \<noteq> '''')" if "map_of (ac_profiles a) i = Some p" for p
      using tiedD(1) [OF t that] by (auto elim: matchesE)
    with s AtStart Select show ?thesis
      by (auto simp: select_begin_def split: sum.splits option.splits if_splits)
  qed (use s AtStart in \<open>auto split: sum.splits\<close>)
qed (use s in \<open>auto split: sum.splits prod.splits if_splits\<close>)

lemma checked_step:
  assumes t: "tied (aw_accounts w) (map_of (aw_frames w))" and c: "frames_checked D w"
  shows "frames_checked D (account_step H D w e)"
proof (cases e)
  case (Begin n call)
  with c show ?thesis by (auto simp: frames_checked_def)
next
  case (Advance n x)
  show ?thesis
  proof (cases "map_of (aw_frames w) n")
    case None
    with Advance c show ?thesis by simp
  next
    case (Some pc)
    obtain a' pc' l where s: "account_section H D pc x (aw_clock w + max 0 (ax_elapsed x)) (aw_accounts w) = (a', pc', l)"
      by (metis prod_cases3)
    with checked_section [OF t, of H D pc x _ a' _ l] c Some Advance show ?thesis
      by (auto simp: frames_checked_def Let_def)
  qed
next
  case (Act act x)
  with c show ?thesis by (simp add: frames_checked_def Let_def)
qed

interpretation accounts_checked: machine "fresh_world token now" "account_step H D"
    "\<lambda>w. hashes D \<longrightarrow> tied (aw_accounts w) (map_of (aw_frames w)) \<and> frames_checked D w"
  for token now H D
  by unfold_locales (use tied_step checked_step tied_fresh in \<open>auto simp: fresh_world_def frames_checked_def\<close>)

text \<open>
  C18: A profile is only ever entered with the PIN it has at that moment. However a call of
  Select interleaves with edits of the profile, wrong attempts and restarts, when it issues a
  session the profile exists, is not locked out, and the PIN that was given hashes to what the
  profile holds now, unless the profile has none; and the session is one of that profile.
\<close>
theorem select_checks_current_pin:
  assumes "hashes D" and "w = run_steps (account_step H D) (fresh_world token start) events"
    and "map_of (aw_frames w) n = Some (AtSelectFinish i pin h s v)"
    and "select_finish H i h s v x now (aw_accounts w) = (a', Some (Inr (Token t)))"
  shows "\<exists>p r. map_of (ac_profiles (aw_accounts w)) i = Some p \<and> \<not> now < pf_lockedUntil p \<and>
    (pf_Protected p \<longrightarrow> D pin (pf_salt p) = pf_hash p) \<and> map_of (ad_sessions a') (H t) = Some r \<and> ss_subject r = i"
proof -
  have ok: "tied (aw_accounts w) (map_of (aw_frames w))" "frames_checked D w"
    using accounts_checked.ok_reachable [of D H token start events] assms(1,2) by simp_all
  from assms(4) show ?thesis
  proof (cases rule: select_finish_cases)
    case refused
    then show ?thesis by auto
  next
    case (counted p b)
    from counted(10) have v: v by (auto split: if_splits)
    let ?b = "b\<lparr>ac_profiles := AList.update i (p\<lparr>pf_attempts := 0\<rparr>) (ac_profiles b)\<rparr>"
    from tiedD(1) [OF ok(1) counted(1)] have "pf_Protected p = (pf_hash p \<noteq> '''')" by (auto elim: matchesE)
    with ok(2) assms(3) counted(2,3) v have "pf_Protected p \<longrightarrow> D pin (pf_salt p) = pf_hash p"
      by (auto simp: frames_checked_def dest!: spec)
    moreover have "snd (issue H i x now ?b) = Inr (Token t)" using counted(10) v by simp
    then have "\<exists>r. map_of (ad_sessions (fst (issue H i x now ?b))) (H t) = Some r \<and> ss_subject r = i"
      by (auto simp: issue_def split: option.splits if_splits)
    ultimately show ?thesis using counted(1,4,11) v by auto
  qed
qed

section \<open>A restart loses nothing\<close>

lemma those_ok: "None \<notin> set xs \<Longrightarrow> \<exists>ys. those xs = Some ys"
proof (induction xs)
  case (Cons y ys)
  then show ?case by (cases y) auto
qed simp

lemma open_ok:
  assumes "tied a f" and "ax_up x" and "ax_token x \<noteq> None"
  shows "\<exists>a'. open_accounts x now a = Inr a'"
proof -
  have "load_profile a (i, r) \<noteq> None" if "(i, r) \<in> set (ad_profiles a)" for i r
  proof -
    have "\<exists>r'. map_of (ad_profiles a) i = Some r'" using that by (rule weak_map_of_SomeI)
    then obtain r' where "map_of (ad_profiles a) i = Some r'" ..
    with tiedD(2) [OF assms(1), of i] show ?thesis by (auto simp: rows_def load_profile_def)
  qed
  then have "None \<notin> set (map (load_profile a) (ad_profiles a))" by force
  from those_ok [OF this] assms show ?thesis by (auto simp: open_accounts_def)
qed

lemma subject_opened:
  assumes "wf_map (ad_sessions a)" and "open_accounts x now a = Inr a'"
  shows "subject H now a' t = subject H now a t"
  using assms opened [OF assms(2)] by (auto simp: subject_def map_of_keep split: option.splits)


section \<open>Witnesses\<close>

definition sample_hash :: "string \<Rightarrow> string \<Rightarrow> string" where
  "sample_hash s t = CHR ''#'' # s"

lemma sample_hashes: "hashes sample_hash"
  by (simp add: hashes_def sample_hash_def)

definition sample_choice :: "int \<Rightarrow> string \<Rightarrow> account_choice" where
  "sample_choice d t = \<lparr>ax_elapsed = d, ax_up = True, ax_salt = Some ''s'', ax_token = Some t, ax_saturated = False\<rparr>"

text \<open>A call with two sections, the first after some seconds.\<close>

definition sample_call :: "account_call \<Rightarrow> int \<Rightarrow> string \<Rightarrow> account_event list" where
  "sample_call c d t = [Begin 1 c, Advance 1 (sample_choice (d * second_ns) t), Advance 1 (sample_choice 0 t)]"

definition sample_create :: "account_event list" where
  "sample_create = sample_call (CreateProfile ''Ann'' ''1234'') 1 ''p''"

definition sample_guesses :: "account_event list" where
  "sample_guesses = sample_create @ concat (map (\<lambda>d. sample_call (Select ''p'' ''0000'') d ''t'') [1, 1, 1, 1, 1, 30, 30])"

theorem pin_guessing_is_slow_witness:
  "let ts = wrong_pins ''p'' (aw_log (run_steps (account_step (\<lambda>t. t) sample_hash) (fresh_world ''setup'' 0) sample_guesses)) []
   in length ts = 6 \<and> ts ! 0 + 59 * second_ns < ts ! 5"
proof -
  have "length (wrong_pins ''p'' (aw_log (run_steps (account_step (\<lambda>t. t) sample_hash)
      (fresh_world ''setup'' 0) sample_guesses)) []) = 6"
    by code_simp
  with pin_guessing_is_slow [OF sample_hashes order_refl refl, of 0 "''p''" "\<lambda>t. t" "''setup''" sample_guesses]
  show ?thesis by (simp add: Let_def)
qed

definition sample_entered :: accounts_world where
  "sample_entered = run_steps (account_step (\<lambda>t. t) sample_hash) (fresh_world ''setup'' 0)
     (sample_create @ sample_call (Select ''p'' ''1234'') 1 ''t'')"

lemma sample_entered_eq:
  "aw_accounts sample_entered = aw_accounts (run_steps (account_step (\<lambda>t. t) sample_hash) (fresh_world ''setup'' 0)
     (sample_create @ sample_call (Select ''p'' ''1234'') 1 ''t''))"
  by (simp add: sample_entered_def)

theorem ended_sessions_stay_dead_witness:
  "subject (\<lambda>t. t) 0 (aw_accounts sample_entered) ''t'' = ''p'' \<and>
   subject (\<lambda>t. t) 0 (aw_accounts (run_steps (account_step (\<lambda>t. t) sample_hash)
      (account_step (\<lambda>t. t) sample_hash sample_entered (Act (DeleteProfile ''p'') (sample_choice 0 ''x'')))
      [Act Restart (sample_choice 0 ''y'')])) ''t'' = ''''"
proof -
  have ends: "ends_sessions sample_hash ''p'' (DeleteProfile ''p'') (sample_choice 0 ''x'') (aw_accounts sample_entered)"
    by code_simp
  have live: "subject (\<lambda>t. t) 0 (aw_accounts sample_entered) ''t'' = ''p''" by code_simp
  from ended_sessions_stay_dead [OF sample_entered_def ends _ live, of "[Act Restart (sample_choice 0 ''y'')]" 0] live
  show ?thesis by (simp add: sample_choice_def)
qed

definition sample_checked :: accounts_world where
  "sample_checked = run_steps (account_step (\<lambda>t. t) sample_hash) (fresh_world ''setup'' 0)
     (sample_create @ butlast (sample_call (Select ''p'' ''1234'') 1 ''t''))"

theorem select_checks_current_pin_witness:
  "\<exists>p r. map_of (ac_profiles (aw_accounts sample_checked)) ''p'' = Some p \<and> pf_Protected p \<and>
    sample_hash ''1234'' (pf_salt p) = pf_hash p \<and> map_of (ad_sessions (fst (select_finish (\<lambda>t. t) ''p'' ''#1234'' ''s'' True
      (sample_choice 0 ''t'') 2 (aw_accounts sample_checked)))) ''t'' = Some r \<and> ss_subject r = ''p''"
proof -
  let ?f = "select_finish (\<lambda>t. t) ''p'' ''#1234'' ''s'' True (sample_choice 0 ''t'') 2 (aw_accounts sample_checked)"
  have frame: "map_of (aw_frames sample_checked) 1 = Some (AtSelectFinish ''p'' ''1234'' ''#1234'' ''s'' True)"
    by code_simp
  have "snd ?f = Some (Inr (Token ''t''))" by code_simp
  then have f: "?f = (fst ?f, Some (Inr (Token ''t'')))" by (metis prod.collapse)
  have "\<forall>p. map_of (ac_profiles (aw_accounts sample_checked)) ''p'' = Some p \<longrightarrow> pf_Protected p"
  proof -
    have "map_option pf_Protected (map_of (ac_profiles (aw_accounts sample_checked)) ''p'') = Some True" by code_simp
    then show ?thesis by auto
  qed
  with select_checks_current_pin [OF sample_hashes sample_checked_def frame f] show ?thesis by blast
qed


end
