(* ===== verification/Copying.thy ===== *)
theory Copying
  imports Prelude
begin

text \<open>
  Copying a bounded number of bytes under a context (backend/backup/archive.go, \<open>copyContext\<close>).
  A reader is the list of what its successive calls of Read deliver when the buffer is large
  enough: some bytes, and an error that comes with them or not. A call with a smaller buffer
  delivers the first part and leaves the rest; a reader with nothing left is at end of file.
\<close>

datatype copy_error = EndOfFile | ReadFailed | Cancelled | WriteFailed | ShortWrite

type_synonym reader = "(string \<times> copy_error option) list"

fun read_some :: "nat \<Rightarrow> reader \<Rightarrow> string \<times> copy_error option \<times> reader" where
  "read_some want [] = ([], Some EndOfFile, [])"
| "read_some want ((bytes, e) # r) =
    (if length bytes \<le> want then (bytes, e, r)
     else (take want bytes, None, (drop want bytes, e) # r))"

definition copy_buffer :: int where "copy_buffer = 131072"

text \<open>What is left of a reader: every Read that returns without an error lowers it.\<close>

definition left_over :: "reader \<Rightarrow> nat" where
  "left_over r = length r + sum_list (map (length \<circ> fst) r)"

lemma left_over_read:
  "read_some want r = (bytes, None, r') \<Longrightarrow> 0 < want \<Longrightarrow> left_over r' < left_over r"
  by (cases r) (auto simp: left_over_def split: if_splits)

text \<open>
  The outcome of one Write of the destination, after so many bytes, is an argument: how many
  bytes it took, and whether it failed. The result is what was counted as written, the bytes
  handed to the destination, and the error. The \<open>i\<close>-th round looks at the context once.
\<close>

function copy_loop :: "(nat \<Rightarrow> bool) \<Rightarrow> (int \<Rightarrow> string \<Rightarrow> int \<times> bool) \<Rightarrow> int \<Rightarrow> nat \<Rightarrow> int \<Rightarrow> string \<Rightarrow>
    reader \<Rightarrow> int \<times> string \<times> copy_error option" where
  "copy_loop cancelled sink limit i written sent r =
    (if limit \<le> written then (written, sent, None)
     else if cancelled i then (written, sent, Some Cancelled)
     else (case read_some (nat (min copy_buffer (limit - written))) r of
       (bytes, e, r') \<Rightarrow>
        (let (m, failed) = (if bytes = [] then (0, False) else sink written bytes) in
         if failed then (written + m, sent @ bytes, Some WriteFailed)
         else if m \<noteq> int (length bytes) then (written + m, sent @ bytes, Some ShortWrite)
         else (case e of
             Some err \<Rightarrow>
               if err = EndOfFile \<and> written + m = limit then (written + m, sent @ bytes, None)
               else (written + m, sent @ bytes, Some err)
           | None \<Rightarrow> copy_loop cancelled sink limit (Suc i) (written + m) (sent @ bytes) r'))))"
  by pat_completeness auto
termination
proof (relation "measure (\<lambda>(cancelled, sink, limit, i, written, sent, r). left_over r)", goal_cases)
  case 1
  then show ?case by simp
next
  case prems: (2 cancelled sink limit i written sent r)
  from prems(1) have "0 < nat (min copy_buffer (limit - written))" by (simp add: copy_buffer_def)
  with prems show ?case by (auto dest!: sym [of "(_, _)" "read_some _ _"] left_over_read)
qed

declare copy_loop.simps [simp del]

definition copy_context :: "(nat \<Rightarrow> bool) \<Rightarrow> (int \<Rightarrow> string \<Rightarrow> int \<times> bool) \<Rightarrow> reader \<Rightarrow> int \<Rightarrow>
    int \<times> string \<times> copy_error option" where
  "copy_context cancelled sink r limit = copy_loop cancelled sink limit 0 0 [] r"

text \<open>A destination that takes everything, as a hash does.\<close>

definition take_all :: "int \<Rightarrow> string \<Rightarrow> int \<times> bool" where
  "take_all at bytes = (int (length bytes), False)"

section \<open>What a copy does\<close>

text \<open>The bytes a reader delivers before its first error.\<close>

fun delivered :: "reader \<Rightarrow> string" where
  "delivered [] = []"
| "delivered ((bytes, None) # r) = bytes @ delivered r"
| "delivered ((bytes, Some e) # r) = bytes"

lemma read_some_delivered:
  "read_some want r = (bytes, e, r') \<Longrightarrow>
   delivered r = bytes @ (case e of None \<Rightarrow> delivered r' | Some _ \<Rightarrow> []) \<and> length bytes \<le> want"
proof (induction want r rule: read_some.induct)
  case (1 want)
  then show ?case by auto
next
  case (2 want bytes' e' r'')
  then show ?case by (cases e') (auto split: if_splits simp flip: append_assoc)
qed

text \<open>A copy without an error copied exactly the bytes asked for, the first ones delivered.\<close>

lemma copy_loop_sound:
  "copy_loop cancelled sink limit i written sent r = (n, out, None) \<Longrightarrow> written \<le> limit \<Longrightarrow>
   n = limit \<and> out = sent @ take (nat (limit - written)) (delivered r) \<and>
   limit - written \<le> int (length (delivered r))"
proof (induction cancelled sink limit i written sent r rule: copy_loop.induct)
  case (1 cancelled sink limit i written sent r)
  show ?case
  proof (cases "limit \<le> written")
    case True
    with 1(2,3) show ?thesis by (simp add: copy_loop.simps [of cancelled sink limit i written])
  next
    case False
    let ?want = "nat (min copy_buffer (limit - written))"
    obtain bytes e r' where rd: "read_some ?want r = (bytes, e, r')" by (cases "read_some ?want r")
    let ?w = "if bytes = [] then (0, False) else sink written bytes"
    obtain m failed where w: "?w = (m, failed)" by (cases ?w)
    from read_some_delivered [OF rd]
    have len: "length bytes \<le> ?want"
      and del: "delivered r = bytes @ (case e of None \<Rightarrow> delivered r' | Some _ \<Rightarrow> [])" by simp_all
    have small: "int (length bytes) \<le> limit - written" using len False by (simp add: le_nat_iff)
    from 1(2) False rd w have run: "\<not> cancelled i" "\<not> failed" "m = int (length bytes)"
      by (auto simp: copy_loop.simps [of cancelled sink limit i written] split: if_splits)
    have cut: "take (nat (limit - written)) (delivered r) =
        bytes @ take (nat (limit - (written + m))) (case e of None \<Rightarrow> delivered r' | Some _ \<Rightarrow> [])"
    proof -
      have "nat (limit - written) - length bytes = nat (limit - (written + m))"
        using small run(3) by simp
      then show ?thesis using del small by (simp add: le_nat_iff)
    qed
    show ?thesis
    proof (cases e)
      case None
      have "copy_loop cancelled sink limit (Suc i) (written + m) (sent @ bytes) r' = (n, out, None)"
        using 1(2) False rd w run None by (simp add: copy_loop.simps [of cancelled sink limit i written])
      then show ?thesis
        using 1(1) [OF False run(1) rd [symmetric] refl w [symmetric] refl run(2) _ None] small run(3) cut None del
        by simp
    next
      case (Some err)
      have "written + m = limit" and "n = limit" and "out = sent @ bytes"
        using 1(2) False rd w run Some
        by (auto simp: copy_loop.simps [of cancelled sink limit i written] split: if_splits)
      with cut Some run(3) del show ?thesis by simp
    qed
  qed
qed

text \<open>Nothing interferes: the copy succeeds when the reader delivers enough.\<close>

lemma copy_loop_complete:
  "written \<le> limit \<Longrightarrow> (\<And>k. \<not> cancelled k) \<Longrightarrow> (\<And>k bytes. sink k bytes = (int (length bytes), False)) \<Longrightarrow>
   limit - written \<le> int (length (delivered r)) \<Longrightarrow> \<forall>(bytes, e) \<in> set r. e = None \<Longrightarrow>
   snd (snd (copy_loop cancelled sink limit i written sent r)) = None"
proof (induction cancelled sink limit i written sent r rule: copy_loop.induct)
  case (1 cancelled sink limit i written sent r)
  show ?case
  proof (cases "limit \<le> written")
    case True
    then show ?thesis by (simp add: copy_loop.simps [of cancelled sink limit i written])
  next
    case False
    let ?want = "nat (min copy_buffer (limit - written))"
    obtain bytes e r' where rd: "read_some ?want r = (bytes, e, r')" by (cases "read_some ?want r")
    from read_some_delivered [OF rd]
    have len: "length bytes \<le> ?want"
      and del: "delivered r = bytes @ (case e of None \<Rightarrow> delivered r' | Some _ \<Rightarrow> [])" by simp_all
    have "r \<noteq> []" using 1(5) False by auto
    then have e: "e = None" and rest: "\<forall>(bytes, e) \<in> set r'. e = None"
      using 1(6) rd by (cases r; auto split: if_splits)+
    let ?m = "int (length bytes)"
    have w: "(if bytes = [] then (0, False) else sink written bytes) = (?m, False)"
      using 1(4) by simp
    have small: "?m \<le> limit - written" using len False by (simp add: le_nat_iff)
    have "snd (snd (copy_loop cancelled sink limit (Suc i) (written + ?m) (sent @ bytes) r')) = None"
      by (rule 1(1) [OF False 1(3) rd [symmetric] refl w [symmetric] refl _ _ e])
        (use 1(3,4,5) small del e rest in simp_all)
    moreover have "\<not> cancelled i" by (rule 1(3))
    ultimately show ?thesis
      using False rd w e by (simp only: copy_loop.simps [of cancelled sink limit i written]) simp
  qed
qed

lemma copy_context_sound:
  assumes "copy_context cancelled sink r limit = (n, out, None)" and "0 \<le> limit"
  shows "n = limit" and "out = take (nat limit) (delivered r)" and "int (length out) = limit"
  using copy_loop_sound [OF assms(1) [unfolded copy_context_def] assms(2)] assms(2) by auto

lemma copy_context_complete:
  assumes "0 \<le> limit" and "\<And>k. \<not> cancelled k" and "limit \<le> int (length (delivered r))"
    and "\<forall>(bytes, e) \<in> set r. e = None"
  shows "copy_context cancelled take_all r limit = (limit, take (nat limit) (delivered r), None)"
proof -
  obtain n out e where c: "copy_context cancelled take_all r limit = (n, out, e)"
    by (cases "copy_context cancelled take_all r limit")
  have "snd (snd (copy_context cancelled take_all r limit)) = None"
    unfolding copy_context_def
    by (rule copy_loop_complete) (use assms in \<open>simp_all add: take_all_def\<close>)
  with c have e: "e = None" by simp
  from copy_context_sound [OF c [unfolded e] assms(1)] c e show ?thesis by simp
qed

lemma copy_context_empty: "limit \<le> 0 \<Longrightarrow> copy_context cancelled sink r limit = (0, [], None)"
  by (simp add: copy_context_def copy_loop.simps)

end
