(* ===== verification/Destination.thy ===== *)
theory Destination
  imports GoPath
begin

text \<open>
  Where backups may be written (backend/backup/archive.go, \<open>authorizeDestination\<close>): Go's
  \<open>filepath.Rel\<close>, the overlap test between two directories, and the guards in their order. What
  the file system says (Lstat, EvalSymlinks, ReadDir, and whether the marker can be written and
  synchronized) is an argument.
\<close>

section \<open>Relative paths\<close>

fun strip_common :: "'a list \<Rightarrow> 'a list \<Rightarrow> 'a list \<times> 'a list" where
  "strip_common (x # xs) (y # ys) = (if x = y then strip_common xs ys else (x # xs, y # ys))"
| "strip_common xs ys = (xs, ys)"

text \<open>\<open>filepath.Rel\<close>: no answer between a rooted and an unrooted path or above a leading \<open>..\<close>.\<close>

definition rel_path :: "string \<Rightarrow> string \<Rightarrow> string option" where
  "rel_path base targ =
    (if clean base = clean targ then Some ''.''
     else if is_abs base \<noteq> is_abs targ then None
     else (let (b, t) = strip_common (clean_parts (is_abs base) base)
                          (if clean targ = ''.'' then [''.''] else clean_parts (is_abs targ) targ) in
       if b \<noteq> [] \<and> hd b = ''..'' then None
       else Some (join [slash] (replicate (length b) ''..'' @ t))))"

definition path_within :: "string \<Rightarrow> string \<Rightarrow> bool" where
  "path_within parent child =
    (case rel_path parent child of
       None \<Rightarrow> False
     | Some relative \<Rightarrow> relative \<noteq> ''..'' \<and> \<not> prefix (''..'' @ [slash]) relative)"

definition or_else :: "'a \<Rightarrow> 'a option \<Rightarrow> 'a" where
  "or_else a r = (case r of None \<Rightarrow> a | Some b \<Rightarrow> b)"

definition paths_overlap :: "(string \<Rightarrow> string option) \<Rightarrow> string \<Rightarrow> string \<Rightarrow> bool" where
  "paths_overlap eval_symlinks a b =
    (let a' = or_else a (eval_symlinks (clean a)); b' = or_else b (eval_symlinks (clean b)) in
     path_within a' b' \<or> path_within b' a')"

section \<open>Authorizing a destination\<close>

datatype file_kind = Directory | RegularFile | SymbolicLink | OtherFile

datatype dest_error =
    DestNotAbsolute | DestNotDirectory | DestOverlaps | DestNotReadable | DestNotWritable
  | DestNotSynchronized | DestNotOwned

record dest_env =
  de_lstat :: "string \<Rightarrow> file_kind option"
  de_eval_symlinks :: "string \<Rightarrow> string option"
  de_read_dir :: "string \<Rightarrow> string list option"
  de_write_marker :: "string \<Rightarrow> bool"
  de_sync :: "string \<Rightarrow> bool"

definition ownerMarker :: string where "ownerMarker = ''.flixr-backups''"

definition authorize_destination :: "dest_env \<Rightarrow> string \<Rightarrow> string list \<Rightarrow> (dest_error, string) result" where
  "authorize_destination env path excluded =
    (if \<not> is_abs path then Inl DestNotAbsolute
     else let dir = clean path; marker = join_path [dir, ownerMarker] in
       if de_lstat env dir \<noteq> Some Directory then Inl DestNotDirectory
       else if \<exists>root \<in> set excluded. root \<noteq> '''' \<and> paths_overlap (de_eval_symlinks env) dir root
         then Inl DestOverlaps
       else (case de_read_dir env dir of
           None \<Rightarrow> Inl DestNotReadable
         | Some [] \<Rightarrow>
             if \<not> de_write_marker env marker then Inl DestNotWritable
             else if \<not> de_sync env dir then Inl DestNotSynchronized
             else Inr dir
         | Some (_ # _) \<Rightarrow>
             if de_lstat env marker \<noteq> Some RegularFile then Inl DestNotOwned else Inr dir))"

section \<open>Being inside\<close>

text \<open>Cleaning leaves a path rooted or unrooted.\<close>

lemma clean_step_words:
  "\<forall>k \<in> set kept. k \<noteq> '''' \<and> slash \<notin> set k \<Longrightarrow> slash \<notin> set p \<Longrightarrow>
   k \<in> set (clean_step r p kept) \<Longrightarrow> k \<noteq> '''' \<and> slash \<notin> set k"
  by (auto simp: clean_step_def split: list.splits if_splits)

lemma fold_clean_words:
  "\<forall>p \<in> set ps. slash \<notin> set p \<Longrightarrow> \<forall>k \<in> set kept. k \<noteq> '''' \<and> slash \<notin> set k \<Longrightarrow>
   \<forall>k \<in> set (fold (clean_step r) ps kept). k \<noteq> '''' \<and> slash \<notin> set k"
proof (induction ps arbitrary: kept)
  case Nil
  then show ?case by simp
next
  case (Cons p ps)
  have "\<forall>k \<in> set (clean_step r p kept). k \<noteq> '''' \<and> slash \<notin> set k"
  proof
    fix k
    assume "k \<in> set (clean_step r p kept)"
    then show "k \<noteq> '''' \<and> slash \<notin> set k"
      using Cons.prems(1) by (intro clean_step_words [OF Cons.prems(2)]) simp_all
  qed
  moreover have "\<forall>p \<in> set ps. slash \<notin> set p" using Cons.prems(1) by simp
  ultimately show ?case unfolding fold_simps(2) using Cons.IH by blast
qed

lemma not_abs_clean:
  assumes "\<not> is_abs p"
  shows "\<not> is_abs (clean p)"
proof -
  have words: "\<forall>k \<in> set (clean_parts False p). k \<noteq> '''' \<and> slash \<notin> set k"
    unfolding clean_parts_def using fold_clean_words [of "split_at slash p" "[]" False] split_at_free
    by auto
  show ?thesis
  proof (cases "clean_parts False p")
    case Nil
    with assms show ?thesis by (simp add: clean_def is_abs_def slash_def)
  next
    case (Cons k ks)
    with words obtain c s where "k = c # s" "c \<noteq> slash" by (cases k) auto
    moreover have "\<exists>u. join [slash] (k # ks) = k @ u" by (cases ks) auto
    ultimately show ?thesis using assms Cons by (auto simp: clean_def is_abs_def Let_def)
  qed
qed

lemma strip_common_split:
  "strip_common xs ys = (b, t) \<Longrightarrow> \<exists>c. xs = c @ b \<and> ys = c @ t \<and> (b = [] \<or> t = [] \<or> hd b \<noteq> hd t)"
proof (induction xs ys rule: strip_common.induct)
  case (1 x xs y ys)
  show ?case
  proof (cases "x = y")
    case True
    with 1 obtain c where "xs = c @ b \<and> ys = c @ t \<and> (b = [] \<or> t = [] \<or> hd b \<noteq> hd t)" by auto
    with True show ?thesis by (intro exI [of _ "x # c"]) simp
  next
    case False
    with 1 show ?thesis by auto
  qed
qed auto

lemma strip_common_prefix: "fst (strip_common xs ys) = [] \<longleftrightarrow> prefix xs ys"
  by (induction xs ys rule: strip_common.induct) auto

lemma clean_abs_eq:
  assumes "is_abs a" and "is_abs b"
  shows "clean a = clean b \<longleftrightarrow> clean_parts True a = clean_parts True b"
proof
  assume "clean a = clean b"
  then have "clean_parts True (clean a) = clean_parts True (clean b)" by simp
  then show "clean_parts True a = clean_parts True b"
    using assms by (simp add: clean_abs clean_parts_abs_names clean_parts_names)
next
  assume "clean_parts True a = clean_parts True b"
  then show "clean a = clean b" using assms by (simp add: clean_abs)
qed

lemma abs_not_dot: "is_abs p \<Longrightarrow> clean p \<noteq> ''.''"
  by (simp add: clean_abs slash_def)

text \<open>A path that goes up starts with two dots, and no other does.\<close>

lemma dots_up: "0 < n \<Longrightarrow> \<exists>s. join [slash] (replicate n ''..'' @ t) = ''..'' @ s \<and> (s = [] \<or> prefix [slash] s)"
  by (cases n; cases "replicate (n - 1) ''..'' @ t") auto

lemma names_down:
  assumes "\<forall>p \<in> set t. path_name p"
  shows "join [slash] t \<noteq> ''..'' \<and> \<not> prefix (''..'' @ [slash]) (join [slash] t)"
proof (cases "t = []")
  case False
  have split: "split_at slash (join [slash] t) = t"
    using assms False by (intro split_at_join) (auto simp: path_name_def)
  have "hd t \<noteq> ''..''" using assms False by (cases t) (auto simp: path_name_def)
  moreover have "hd (split_at slash ''..'') = ''..''" by (simp add: slash_def)
  moreover have "hd (split_at slash ((''..'' @ [slash]) @ s)) = ''..''" for s
    using split_at_append [of slash "''..''" s] by (simp add: slash_def)
  ultimately show ?thesis using split unfolding prefix_def by metis
qed simp

lemma path_within_abs:
  assumes a: "is_abs a" and b: "is_abs b"
  shows "path_within a b \<longleftrightarrow> prefix (clean_parts True a) (clean_parts True b)"
proof (cases "clean a = clean b")
  case True
  with a b show ?thesis by (simp add: path_within_def rel_path_def clean_abs_eq)
next
  case False
  obtain d t where st: "strip_common (clean_parts True a) (clean_parts True b) = (d, t)"
    by (cases "strip_common (clean_parts True a) (clean_parts True b)")
  from strip_common_split [OF st] obtain c where c: "clean_parts True a = c @ d" "clean_parts True b = c @ t"
    by blast
  have names: "\<forall>p \<in> set d. path_name p" "\<forall>p \<in> set t. path_name p"
    using clean_parts_names [of _ a] clean_parts_names [of _ b] c by simp_all
  have pre: "prefix (clean_parts True a) (clean_parts True b) \<longleftrightarrow> d = []"
    using st strip_common_prefix [of "clean_parts True a" "clean_parts True b"] by simp
  have "\<not> (d \<noteq> [] \<and> hd d = ''..'')" using names(1) by (cases d) (auto simp: path_name_def)
  then have rel: "rel_path a b = Some (join [slash] (replicate (length d) ''..'' @ t))"
    using a b False st abs_not_dot [OF b] by (auto simp: rel_path_def)
  show ?thesis
  proof (cases "d = []")
    case True
    with names_down [OF names(2)] pre rel show ?thesis by (simp add: path_within_def)
  next
    case False
    then obtain s where "join [slash] (replicate (length d) ''..'' @ t) = ''..'' @ s \<and> (s = [] \<or> prefix [slash] s)"
      using dots_up [of "length d" t] by auto
    with False pre rel show ?thesis by (auto simp: path_within_def prefix_def)
  qed
qed

lemma path_within_mixed:
  assumes "is_abs a" and "\<not> is_abs b"
  shows "\<not> path_within a b" and "\<not> path_within b a"
proof -
  have "clean a \<noteq> clean b"
  proof
    assume eq: "clean a = clean b"
    have "is_abs (clean a)" using assms(1) by (rule is_abs_clean)
    with eq have "is_abs (clean b)" by simp
    moreover have "\<not> is_abs (clean b)" using assms(2) by (rule not_abs_clean)
    ultimately show False by simp
  qed
  with assms show "\<not> path_within a b" and "\<not> path_within b a"
    by (auto simp: path_within_def rel_path_def)
qed

section \<open>What an accepted destination is\<close>

lemma paths_overlap_abs:
  assumes "is_abs (or_else a (r (clean a)))"
  shows "paths_overlap r a b \<longleftrightarrow> is_abs (or_else b (r (clean b))) \<and>
    (prefix (clean_parts True (or_else a (r (clean a)))) (clean_parts True (or_else b (r (clean b)))) \<or>
     prefix (clean_parts True (or_else b (r (clean b)))) (clean_parts True (or_else a (r (clean a)))))"
  using assms path_within_abs path_within_mixed
  by (cases "is_abs (or_else b (r (clean b)))") (simp_all add: paths_overlap_def Let_def)

lemma authorized:
  assumes "authorize_destination env path excluded = Inr dir"
  shows "is_abs path" and "dir = clean path" and "is_abs dir" and "de_lstat env dir = Some Directory"
    and "\<forall>root \<in> set excluded. root \<noteq> '''' \<longrightarrow> \<not> paths_overlap (de_eval_symlinks env) dir root"
proof -
  show 1: "is_abs path" using assms by (auto simp: authorize_destination_def split: if_splits)
  have lst: "de_lstat env (clean path) = Some Directory"
    using assms by (auto simp: authorize_destination_def Let_def split: if_splits)
  have sep: "\<not> (\<exists>root \<in> set excluded. root \<noteq> '''' \<and> paths_overlap (de_eval_symlinks env) (clean path) root)"
    using assms 1 lst by (auto simp: authorize_destination_def Let_def split: if_splits)
  show 2: "dir = clean path"
    using assms 1 lst sep
    by (auto simp: authorize_destination_def Let_def split: if_splits option.splits list.splits)
  show "is_abs dir" using 1 2 is_abs_clean by simp
  show "de_lstat env dir = Some Directory" using lst 2 by simp
  show "\<forall>root \<in> set excluded. root \<noteq> '''' \<longrightarrow> \<not> paths_overlap (de_eval_symlinks env) dir root"
    using sep 2 by blast
qed

text \<open>
  The property of the confinement. Everything is stated over resolved paths: where EvalSymlinks
  has no answer the path itself is compared.
\<close>

definition resolved_path :: "(string \<Rightarrow> string option) \<Rightarrow> string \<Rightarrow> string" where
  "resolved_path r p = or_else p (r (clean p))"

text \<open>
  A backup destination that is accepted neither contains nor lies inside any excluded
  directory (the data directory, the segment directory and every media root) whose resolved path
  is absolute; a directory that resolves to a relative path, as the default data directory does,
  is never found to overlap, whatever the destination.
\<close>

theorem destination_apart:
  assumes "authorize_destination env path excluded = Inr dir"
    and "root \<in> set excluded" and "root \<noteq> ''''"
    and "is_abs (resolved_path (de_eval_symlinks env) dir)"
  shows "if is_abs (resolved_path (de_eval_symlinks env) root)
    then \<not> prefix (clean_parts True (resolved_path (de_eval_symlinks env) dir))
                   (clean_parts True (resolved_path (de_eval_symlinks env) root)) \<and>
         \<not> prefix (clean_parts True (resolved_path (de_eval_symlinks env) root))
                   (clean_parts True (resolved_path (de_eval_symlinks env) dir))
    else \<forall>other. is_abs (resolved_path (de_eval_symlinks env) other) \<longrightarrow>
           \<not> paths_overlap (de_eval_symlinks env) other root"
proof -
  have "\<not> paths_overlap (de_eval_symlinks env) dir root" using authorized(5) [OF assms(1)] assms(2,3) by blast
  with assms(4) show ?thesis
    by (auto simp: resolved_path_def paths_overlap_abs)
qed

definition sample_dest :: dest_env where
  "sample_dest = \<lparr>de_lstat = (\<lambda>p. if p = ''/b'' then Some Directory else None),
     de_eval_symlinks = Some, de_read_dir = (\<lambda>_. Some []), de_write_marker = (\<lambda>_. True), de_sync = (\<lambda>_. True)\<rparr>"

lemma sample_dest_accepts: "authorize_destination sample_dest ''/b/'' [''/data'', '''', ''flixr-data''] = Inr ''/b''"
  by code_simp

lemma sample_dest_refuses: "authorize_destination sample_dest ''/b/'' [''/b/media''] = Inl DestOverlaps"
  by code_simp

theorem destination_apart_witness:
  "\<not> prefix (clean_parts True ''/b'') (clean_parts True ''/data'') \<and>
   \<not> paths_overlap Some ''/b'' ''flixr-data''"
proof -
  have abs': "is_abs (resolved_path (de_eval_symlinks sample_dest) ''/b'')"
    "is_abs (resolved_path (de_eval_symlinks sample_dest) ''/data'')"
    "\<not> is_abs (resolved_path (de_eval_symlinks sample_dest) ''flixr-data'')"
    "resolved_path (de_eval_symlinks sample_dest) ''/b'' = ''/b''"
    "resolved_path (de_eval_symlinks sample_dest) ''/data'' = ''/data''"
    by (code_simp)+
  have "\<not> prefix (clean_parts True ''/b'') (clean_parts True ''/data'')"
    using destination_apart [OF sample_dest_accepts, of "''/data''"] abs'
    by simp
  moreover have "\<not> paths_overlap Some ''/b'' ''flixr-data''"
    using destination_apart [OF sample_dest_accepts, of "''flixr-data''"] abs'
    by (simp add: sample_dest_def)
  ultimately show ?thesis by simp
qed

end
