(* ===== verification/Archive.thy ===== *)
theory Archive
  imports Copying Destination Retention
begin

text \<open>
  Backup archives (backend/backup/verify.go and archive.go): which entry names are allowed, the
  verification of an archive against its manifest, and the writing of one. The tar stream is the
  list of what successive calls of Next give: a member with the reader of its contents, or an
  error; after the list the stream is at its end. SHA-256 in hexadecimal, the JSON encoding of a
  manifest and what the database answers are arguments.
\<close>

definition manifestName :: string where "manifestName = ''manifest.json''"
definition maxManifestBytes :: int where "maxManifestBytes = 1048576"
definition maxArchiveEntries :: int where "maxArchiveEntries = 10000"
definition maxExpandedBytes :: int where "maxExpandedBytes = 68719476736"
definition spaceReserveBytes :: int where "spaceReserveBytes = 67108864"
definition latestSchemaVersion :: int where "latestSchemaVersion = 32"

record archive_entry =
  en_name :: string
  en_size :: int
  en_sha256 :: string

record manifest =
  mf_format_version :: int
  mf_app_version :: string
  mf_schema_version :: int
  mf_created_at :: int
  mf_entries :: "archive_entry list"

section \<open>Names\<close>

definition database_name :: string where "database_name = ''database/flixr.db''"
definition artwork_prefix :: string where "artwork_prefix = ''artwork/objects/''"

definition allowed_archive_entry :: "string \<Rightarrow> bool" where
  "allowed_archive_entry name =
    (if name = database_name then True
     else if \<not> prefix artwork_prefix name then False
     else (let base = trim_prefix name artwork_prefix in
       base \<noteq> '''' \<and> base \<noteq> ''.'' \<and> base \<noteq> ''..'' \<and> base_name base = base))"

section \<open>Verification\<close>

datatype tar_type = TypeReg | TypeOther

record tar_header =
  th_name :: string
  th_type :: tar_type
  th_size :: int

datatype tar_item = Member tar_header reader | Corrupt

datatype verify_error =
    NotRegular | NotOpened | NotCompressed | NoManifest | BadManifest | TrailingData | InvalidEntry
  | DuplicateEntry | TooLarge | NotStaged | TooMany | Stopped | Truncated | UnsafeEntry | Mismatch
  | ChecksumFailed | MissingEntry | DatabaseNotOpened | NoIntegrity | NoForeignKeys | SchemaMismatch

text \<open>What the file is: regular, opened, gzip, and the tar stream inside.\<close>

record archive_file =
  af_regular :: bool
  af_opens :: bool
  af_gzip :: bool
  af_items :: "tar_item list"

text \<open>What a database answers: its integrity, its foreign-key violations, its schema version.\<close>

record database_probe =
  dp_integrity :: "string option"
  dp_foreign_keys :: "int option"
  dp_version :: "int option"

record archive_env =
  ve_hash :: "string \<Rightarrow> string"
  ve_decode :: "string \<Rightarrow> manifest option"
  ve_only_value :: "string \<Rightarrow> bool"
  ve_stage :: bool
  ve_stage_database :: bool
  ve_stopped :: "nat \<Rightarrow> bool"
  ve_copy_stopped :: "nat \<Rightarrow> nat \<Rightarrow> bool"
  ve_sink :: "int \<Rightarrow> string \<Rightarrow> int \<times> bool"
  ve_open :: "string \<Rightarrow> database_probe option"

definition verify_database :: "database_probe option \<Rightarrow> int \<Rightarrow> (verify_error, unit) result" where
  "verify_database db version =
    (case db of None \<Rightarrow> Inl DatabaseNotOpened
     | Some p \<Rightarrow>
        if dp_integrity p \<noteq> Some ''ok'' then Inl NoIntegrity
        else if dp_foreign_keys p \<noteq> Some 0 then Inl NoForeignKeys
        else if dp_version p \<noteq> Some version then Inl SchemaMismatch
        else Inr ())"

text \<open>The loop over the manifest's entries: what it expects, and how large it all is.\<close>

fun entries_loop :: "(string, archive_entry) gomap \<Rightarrow> int \<Rightarrow> archive_entry list \<Rightarrow>
    (verify_error, (string, archive_entry) gomap \<times> int) result" where
  "entries_loop expected bytes [] = Inr (expected, bytes)"
| "entries_loop expected bytes (e # es) =
    (if \<not> allowed_archive_entry (en_name e) \<or> en_size e < 0 \<or> maxExpandedBytes < en_size e \<or>
        length (en_sha256 e) \<noteq> 64 then Inl InvalidEntry
     else if has_key expected (en_name e) then Inl DuplicateEntry
     else if maxExpandedBytes - en_size e < bytes then Inl TooLarge
     else entries_loop (AList.update (en_name e) e expected) (bytes + en_size e) es)"

text \<open>
  One member of the archive: the contents it has, when it is the one that was expected. The
  database also goes to a file, whose writes may fail; the hash takes everything.
\<close>

definition member_contents :: "archive_env \<Rightarrow> (string, archive_entry) gomap \<Rightarrow> nat \<Rightarrow> string list \<Rightarrow> int \<Rightarrow>
    tar_header \<Rightarrow> reader \<Rightarrow> (verify_error, string) result" where
  "member_contents env expected nth_item seen expanded h r =
    (if th_type h \<noteq> TypeReg \<or> \<not> allowed_archive_entry (th_name h) \<or> th_name h \<in> set seen then Inl UnsafeEntry
     else (case map_of expected (th_name h) of
         None \<Rightarrow> Inl Mismatch
       | Some e \<Rightarrow>
          if th_size h \<noteq> en_size e \<or> th_size h < 0 \<or> maxExpandedBytes - th_size h < expanded then Inl Mismatch
          else if th_name h = database_name \<and> \<not> ve_stage_database env then Inl NotStaged
          else (case copy_context (ve_copy_stopped env nth_item)
                       (if th_name h = database_name then ve_sink env else take_all) r (th_size h) of
              (written, contents, err) \<Rightarrow>
                if err \<noteq> None \<or> written \<noteq> th_size h \<or> ve_hash env contents \<noteq> en_sha256 e
                then Inl ChecksumFailed
                else Inr contents)))"

fun archive_loop :: "archive_env \<Rightarrow> (string, archive_entry) gomap \<Rightarrow> nat \<Rightarrow> string list \<Rightarrow> int \<Rightarrow>
    string \<Rightarrow> tar_item list \<Rightarrow> (verify_error, string list \<times> string) result" where
  "archive_loop env expected nth_item seen expanded db [] =
    (if maxArchiveEntries + 1 < int nth_item then Inl TooMany
     else if ve_stopped env nth_item then Inl Stopped
     else Inr (seen, db))"
| "archive_loop env expected nth_item seen expanded db (Corrupt # ts) =
    (if maxArchiveEntries + 1 < int nth_item then Inl TooMany
     else if ve_stopped env nth_item then Inl Stopped
     else Inl Truncated)"
| "archive_loop env expected nth_item seen expanded db (Member h r # ts) =
    (if maxArchiveEntries + 1 < int nth_item then Inl TooMany
     else if ve_stopped env nth_item then Inl Stopped
     else (case member_contents env expected nth_item seen expanded h r of
         Inl err \<Rightarrow> Inl err
       | Inr contents \<Rightarrow>
          archive_loop env expected (Suc nth_item) (th_name h # seen) (expanded + th_size h)
            (if th_name h = database_name then contents else db) ts))"

definition broken_reader :: "reader \<Rightarrow> bool" where
  "broken_reader r \<longleftrightarrow> (\<exists>(bytes, e) \<in> set r. e \<noteq> None \<and> e \<noteq> Some EndOfFile)"

definition decode_manifest :: "archive_env \<Rightarrow> tar_item list \<Rightarrow> (verify_error, manifest \<times> tar_item list) result" where
  "decode_manifest env ts =
    (case ts of
       Member h r # rest \<Rightarrow>
         if th_name h \<noteq> manifestName \<or> th_type h \<noteq> TypeReg \<or> th_size h < 2 \<or> maxManifestBytes < th_size h
         then Inl NoManifest
         else (case ve_decode env (delivered r) of
             None \<Rightarrow> Inl BadManifest
           | Some m \<Rightarrow>
              if mf_format_version m \<noteq> 1 \<or> mf_schema_version m < 1 \<or> latestSchemaVersion < mf_schema_version m \<or>
                 mf_entries m = [] \<or> maxArchiveEntries < int (length (mf_entries m)) then Inl BadManifest
              else if \<not> ve_only_value env (delivered r) \<or> broken_reader r then Inl TrailingData
              else Inr (m, rest))
     | _ \<Rightarrow> Inl NoManifest)"

definition verify_archive :: "archive_env \<Rightarrow> archive_file \<Rightarrow> (verify_error, manifest) result" where
  "verify_archive env f =
    (if \<not> af_regular f then Inl NotRegular
     else if \<not> af_opens f then Inl NotOpened
     else if \<not> af_gzip f then Inl NotCompressed
     else (case decode_manifest env (af_items f) of
         Inl err \<Rightarrow> Inl err
       | Inr (m, rest) \<Rightarrow>
          (case entries_loop [] 0 (mf_entries m) of
             Inl err \<Rightarrow> Inl err
           | Inr (expected, _) \<Rightarrow>
              if \<not> ve_stage env then Inl NotStaged
              else (case archive_loop env expected 1 [manifestName] 0 [] rest of
                  Inl err \<Rightarrow> Inl err
                | Inr (seen, db) \<Rightarrow>
                   if length seen \<noteq> length expected + 1 \<or> database_name \<notin> set seen then Inl MissingEntry
                   else (case verify_database (ve_open env db) (mf_schema_version m) of
                       Inl err \<Rightarrow> Inl err
                     | Inr _ \<Rightarrow> Inr m)))))"


section \<open>An accepted archive is its manifest\<close>

text \<open>The manifest entry that describes a member.\<close>

definition member_entry :: "(string \<Rightarrow> string) \<Rightarrow> tar_header \<Rightarrow> reader \<Rightarrow> archive_entry" where
  "member_entry hash h r = \<lparr>en_name = th_name h, en_size = th_size h,
     en_sha256 = hash (take (nat (th_size h)) (delivered r))\<rparr>"

fun item_entries :: "(string \<Rightarrow> string) \<Rightarrow> tar_item list \<Rightarrow> archive_entry list" where
  "item_entries hash [] = []"
| "item_entries hash (Corrupt # ts) = item_entries hash ts"
| "item_entries hash (Member h r # ts) = member_entry hash h r # item_entries hash ts"

definition entries_size :: "archive_entry list \<Rightarrow> int" where
  "entries_size es = sum_list (map en_size es)"

lemma entries_size_simps [simp]:
  "entries_size [] = 0" "entries_size (e # es) = en_size e + entries_size es"
  by (simp_all add: entries_size_def)

lemma update_fresh: "map_of m k = None \<Longrightarrow> AList.update k v m = m @ [(k, v)]"
  by (induction m) auto

definition valid_entry :: "archive_entry \<Rightarrow> bool" where
  "valid_entry e \<longleftrightarrow> allowed_archive_entry (en_name e) \<and> 0 \<le> en_size e \<and> en_size e \<le> maxExpandedBytes \<and>
     length (en_sha256 e) = 64"

lemma entries_loop_accepts:
  "entries_loop expected bytes es = Inr (expected', bytes') \<longleftrightarrow>
     (\<forall>e \<in> set es. valid_entry e) \<and> distinct (map en_name es) \<and>
     (\<forall>e \<in> set es. map_of expected (en_name e) = None) \<and>
     (es = [] \<or> bytes + entries_size es \<le> maxExpandedBytes) \<and>
     expected' = expected @ map (\<lambda>e. (en_name e, e)) es \<and> bytes' = bytes + entries_size es"
  if "\<forall>e \<in> set es. 0 \<le> en_size e"
  using that
proof (induction expected bytes es rule: entries_loop.induct)
  case (1 expected bytes)
  then show ?case by auto
next
  case (2 expected bytes e es)
  show ?case
  proof (cases "valid_entry e \<and> map_of expected (en_name e) = None \<and> bytes + en_size e \<le> maxExpandedBytes")
    case False
    moreover have "0 \<le> entries_size es"
      unfolding entries_size_def using 2(2) by (intro sum_list_nonneg) auto
    ultimately show ?thesis by (auto simp: valid_entry_def has_key_def)
  next
    case True
    then have cond: "\<not> (\<not> allowed_archive_entry (en_name e) \<or> en_size e < 0 \<or> maxExpandedBytes < en_size e \<or>
        length (en_sha256 e) \<noteq> 64)" "\<not> has_key expected (en_name e)" "\<not> maxExpandedBytes - en_size e < bytes"
      by (auto simp: valid_entry_def has_key_def)
    have fresh: "(\<forall>x \<in> set es. map_of (expected @ [(en_name e, e)]) (en_name x) = None) \<longleftrightarrow>
        (\<forall>x \<in> set es. map_of expected (en_name x) = None) \<and> en_name e \<notin> en_name ` set es"
      using True by (auto simp: map_add_def image_iff split: option.splits)
    have "entries_loop expected bytes (e # es) =
        entries_loop (expected @ [(en_name e, e)]) (bytes + en_size e) es"
      using cond True by (simp add: update_fresh)
    moreover have "AList.update (en_name e) e expected = expected @ [(en_name e, e)]"
      using True by (simp add: update_fresh)
    ultimately show ?thesis
      using 2(1) [OF cond] 2(2) True fresh by (auto simp: algebra_simps)
  qed
qed


definition keyed :: "(string, archive_entry) gomap \<Rightarrow> bool" where
  "keyed expected \<longleftrightarrow> (\<forall>k e. map_of expected k = Some e \<longrightarrow> en_name e = k)"

lemma keyed_entries: "keyed (map (\<lambda>e. (en_name e, e)) es)"
  by (auto simp: keyed_def dest!: map_of_SomeD)

lemma member_contents_accepts:
  assumes "member_contents env expected i seen expanded h r = Inr contents" and "keyed expected"
  shows "contents = take (nat (th_size h)) (delivered r)"
    and "map_of expected (th_name h) = Some (member_entry (ve_hash env) h r)"
    and "th_name h \<notin> set seen" and "th_type h = TypeReg" and "allowed_archive_entry (th_name h)"
    and "expanded + th_size h \<le> maxExpandedBytes" and "0 \<le> th_size h"
proof -
  let ?sink = "if th_name h = database_name then ve_sink env else take_all"
  obtain written out err where cp: "copy_context (ve_copy_stopped env i) ?sink r (th_size h) = (written, out, err)"
    by (cases "copy_context (ve_copy_stopped env i) ?sink r (th_size h)")
  have guards: "th_type h = TypeReg" "allowed_archive_entry (th_name h)" "th_name h \<notin> set seen"
    using assms(1) by (auto simp only: member_contents_def sum.distinct split: if_split_asm)
  then obtain e where e: "map_of expected (th_name h) = Some e"
    using assms(1) by (cases "map_of expected (th_name h)") (simp_all add: member_contents_def)
  have sizes: "th_size h = en_size e" "0 \<le> th_size h" "expanded + th_size h \<le> maxExpandedBytes"
    using assms(1) guards e by (simp_all add: member_contents_def split: if_split_asm)
  have staged: "\<not> (th_name h = database_name \<and> \<not> ve_stage_database env)"
    using assms(1) guards e sizes by (simp add: member_contents_def split: if_split_asm)
  have ok: "err = None" "written = th_size h" "ve_hash env out = en_sha256 e" "contents = out"
    using assms(1) guards e sizes staged cp
    by (simp_all only: member_contents_def option.case prod.case simp_thms if_False) (simp_all split: if_split_asm)
  have out: "out = take (nat (th_size h)) (delivered r)"
    using copy_context_sound(2) [OF cp [unfolded ok(1)] sizes(2)] .
  have "en_name e = th_name h" using assms(2) e by (simp add: keyed_def)
  then have "e = member_entry (ve_hash env) h r"
    using sizes(1) ok(3) out by (cases e) (simp add: member_entry_def)
  with e guards sizes ok(4) out show
    "contents = take (nat (th_size h)) (delivered r)"
    "map_of expected (th_name h) = Some (member_entry (ve_hash env) h r)"
    "th_name h \<notin> set seen" "th_type h = TypeReg" "allowed_archive_entry (th_name h)"
    "expanded + th_size h \<le> maxExpandedBytes" "0 \<le> th_size h" by simp_all
qed

lemma archive_loop_accepts:
  "keyed expected \<Longrightarrow> archive_loop env expected i seen expanded db ts = Inr (seen', db') \<Longrightarrow>
    Corrupt \<notin> set ts \<and> (\<forall>h r. Member h r \<in> set ts \<longrightarrow> th_type h = TypeReg) \<and>
    seen' = rev (map en_name (item_entries (ve_hash env) ts)) @ seen \<and>
    distinct (map en_name (item_entries (ve_hash env) ts)) \<and>
    (\<forall>e \<in> set (item_entries (ve_hash env) ts).
       en_name e \<notin> set seen \<and> map_of expected (en_name e) = Some e \<and> allowed_archive_entry (en_name e))"
proof (induction env expected i seen expanded db ts arbitrary: seen' db' rule: archive_loop.induct)
  case (3 env expected i seen expanded db h r ts)
  from 3(3) obtain contents where guards: "\<not> maxArchiveEntries + 1 < int i" "\<not> ve_stopped env i"
    and c: "member_contents env expected i seen expanded h r = Inr contents"
    and rest: "archive_loop env expected (Suc i) (th_name h # seen) (expanded + th_size h)
      (if th_name h = database_name then contents else db) ts = Inr (seen', db')"
    by (auto split: if_splits sum.splits)
  have ih: "Corrupt \<notin> set ts \<and> (\<forall>h r. Member h r \<in> set ts \<longrightarrow> th_type h = TypeReg) \<and>
    seen' = rev (map en_name (item_entries (ve_hash env) ts)) @ th_name h # seen \<and>
    distinct (map en_name (item_entries (ve_hash env) ts)) \<and>
    (\<forall>e \<in> set (item_entries (ve_hash env) ts). en_name e \<notin> set (th_name h # seen) \<and>
       map_of expected (en_name e) = Some e \<and> allowed_archive_entry (en_name e))"
    using 3(1) [OF guards c 3(2) rest] .
  have nm: "en_name (member_entry (ve_hash env) h r) = th_name h" by (simp add: member_entry_def)
  show ?case
    using ih nm member_contents_accepts [OF c 3(2)] by (auto simp: nm)
qed (auto split: if_splits)

text \<open>The manifest and the stream agree: same entries, whatever the order.\<close>

lemma same_entries:
  assumes "distinct (map en_name es)" and "distinct (map en_name is)" and "set is \<subseteq> set es"
    and "length is = length es"
  shows "mset is = mset es"
proof -
  have d: "distinct es" "distinct is" using assms(1,2) by (auto simp: distinct_map)
  have "set is = set es"
    by (rule card_subset_eq) (use assms(3,4) d in \<open>simp_all add: distinct_card\<close>)
  with d show ?thesis by (simp add: set_eq_iff_mset_eq_distinct)
qed


text \<open>The contents of the database in the stream, if it is there.\<close>

fun stream_database :: "string \<Rightarrow> tar_item list \<Rightarrow> string" where
  "stream_database db [] = db"
| "stream_database db (Corrupt # ts) = stream_database db ts"
| "stream_database db (Member h r # ts) =
    stream_database (if th_name h = database_name then take (nat (th_size h)) (delivered r) else db) ts"

lemma archive_loop_database:
  "keyed expected \<Longrightarrow> archive_loop env expected i seen expanded db ts = Inr (seen', db') \<Longrightarrow>
   db' = stream_database db ts"
proof (induction env expected i seen expanded db ts arbitrary: seen' db' rule: archive_loop.induct)
  case (3 env expected i seen expanded db h r ts)
  from 3(3) obtain contents where guards: "\<not> maxArchiveEntries + 1 < int i" "\<not> ve_stopped env i"
    and c: "member_contents env expected i seen expanded h r = Inr contents"
    and rest: "archive_loop env expected (Suc i) (th_name h # seen) (expanded + th_size h)
      (if th_name h = database_name then contents else db) ts = Inr (seen', db')"
    by (auto split: if_splits sum.splits)
  show ?case
    using 3(1) [OF guards c 3(2) rest] member_contents_accepts(1) [OF c 3(2)] by simp
qed (auto split: if_splits)

lemma entries_loop_nonneg:
  "entries_loop expected bytes es = Inr r \<Longrightarrow> \<forall>e \<in> set es. 0 \<le> en_size e"
  by (induction expected bytes es rule: entries_loop.induct) (auto split: if_splits)

lemma verify_parts:
  assumes "verify_archive env f = Inr m"
  obtains h r rest expected seen db where
    "af_items f = Member h r # rest" "th_name h = manifestName" "th_size h \<le> maxManifestBytes"
    "ve_decode env (delivered r) = Some m"
    "mf_format_version m = 1" "1 \<le> mf_schema_version m" "mf_schema_version m \<le> latestSchemaVersion"
    "mf_entries m \<noteq> []" "int (length (mf_entries m)) \<le> maxArchiveEntries"
    "entries_loop [] 0 (mf_entries m) = Inr (expected, entries_size (mf_entries m))"
    "expected = map (\<lambda>e. (en_name e, e)) (mf_entries m)"
    "archive_loop env expected 1 [manifestName] 0 [] rest = Inr (seen, db)"
    "length seen = length expected + 1" "database_name \<in> set seen"
    "verify_database (ve_open env db) (mf_schema_version m) = Inr ()"
proof -
  have opened: "af_regular f" "af_opens f" "af_gzip f"
    using assms by (simp_all add: verify_archive_def split: if_split_asm)
  obtain rest where dec: "decode_manifest env (af_items f) = Inr (m, rest)"
    and more: "(case entries_loop [] 0 (mf_entries m) of
             Inl err \<Rightarrow> Inl err
           | Inr (expected, _) \<Rightarrow>
              if \<not> ve_stage env then Inl NotStaged
              else (case archive_loop env expected 1 [manifestName] 0 [] rest of
                  Inl err \<Rightarrow> Inl err
                | Inr (seen, db) \<Rightarrow>
                   if length seen \<noteq> length expected + 1 \<or> database_name \<notin> set seen then Inl MissingEntry
                   else (case verify_database (ve_open env db) (mf_schema_version m) of
                       Inl err \<Rightarrow> Inl err
                     | Inr _ \<Rightarrow> Inr m))) = Inr m"
    using assms opened by (auto simp: verify_archive_def split: sum.splits prod.splits if_splits)
  obtain expected bytes where ml: "entries_loop [] 0 (mf_entries m) = Inr (expected, bytes)"
    using more by (cases "entries_loop [] 0 (mf_entries m)") auto
  from entries_loop_accepts [OF entries_loop_nonneg [OF ml]] ml
  have ex: "expected = map (\<lambda>e. (en_name e, e)) (mf_entries m)" "bytes = entries_size (mf_entries m)" by auto
  obtain seen db where al: "archive_loop env expected 1 [manifestName] 0 [] rest = Inr (seen, db)"
    using more ml by (cases "archive_loop env expected 1 [manifestName] 0 [] rest") (auto split: if_splits)
  have fin: "length seen = length expected + 1" "database_name \<in> set seen"
    "verify_database (ve_open env db) (mf_schema_version m) = Inr ()"
    using more ml al by (auto split: if_splits sum.splits)
  from dec obtain h r where head: "af_items f = Member h r # rest"
    by (auto simp: decode_manifest_def split: list.splits tar_item.splits if_splits option.splits)
  have h: "th_name h = manifestName" "th_size h \<le> maxManifestBytes"
    using dec by (simp_all add: decode_manifest_def head split: if_split_asm)
  have d: "ve_decode env (delivered r) = Some m" "mf_format_version m = 1" "1 \<le> mf_schema_version m"
    "mf_schema_version m \<le> latestSchemaVersion" "mf_entries m \<noteq> []"
    "int (length (mf_entries m)) \<le> maxArchiveEntries"
    using dec by (auto simp: decode_manifest_def head split: if_splits option.splits)
  show thesis
    by (rule that [OF head h d(1-6) _ ex(1) al fin]) (use ml ex(2) in simp)
qed

lemma verified_manifest:
  assumes "verify_archive env f = Inr m"
  shows "\<forall>e \<in> set (mf_entries m). valid_entry e" and "distinct (map en_name (mf_entries m))"
    and "entries_size (mf_entries m) \<le> maxExpandedBytes"
proof -
  from assms obtain expected where ne: "mf_entries m \<noteq> []" and
    ml: "entries_loop [] 0 (mf_entries m) = Inr (expected, entries_size (mf_entries m))"
    by (rule verify_parts) blast
  show "\<forall>e \<in> set (mf_entries m). valid_entry e" "distinct (map en_name (mf_entries m))"
    "entries_size (mf_entries m) \<le> maxExpandedBytes"
    using entries_loop_accepts [OF entries_loop_nonneg [OF ml]] ml ne by auto
qed

text \<open>
  C4: An archive that verification accepts holds exactly what its manifest says, and nothing else:
  after the manifest the stream is a sequence of regular members with distinct, allowed names
  whose names, sizes and SHA-256 are the manifest's entries, in some order, at most 64 GiB
  together, and the database in it is intact and has the manifest's schema version.
\<close>

theorem accepted_archive_is_manifest:
  assumes "verify_archive env f = Inr m"
  shows "\<exists>h r rest. af_items f = Member h r # rest \<and> ve_decode env (delivered r) = Some m \<and>
    Corrupt \<notin> set rest \<and> (\<forall>h' r'. Member h' r' \<in> set rest \<longrightarrow> th_type h' = TypeReg) \<and>
    mset (item_entries (ve_hash env) rest) = mset (mf_entries m) \<and>
    distinct (map en_name (mf_entries m)) \<and>
    (\<forall>e \<in> set (mf_entries m). allowed_archive_entry (en_name e) \<and> 0 \<le> en_size e) \<and>
    entries_size (mf_entries m) \<le> 64 * 2 ^ 30 \<and>
    verify_database (ve_open env (stream_database [] rest)) (mf_schema_version m) = Inr ()"
proof -
  from assms obtain h r rest expected seen db where
    head: "af_items f = Member h r # rest" "ve_decode env (delivered r) = Some m" and
    ne: "mf_entries m \<noteq> []" and
    ml: "entries_loop [] 0 (mf_entries m) = Inr (expected, entries_size (mf_entries m))" and
    ex: "expected = map (\<lambda>e. (en_name e, e)) (mf_entries m)" and
    al: "archive_loop env expected 1 [manifestName] 0 [] rest = Inr (seen, db)" and
    fin: "length seen = length expected + 1" "database_name \<in> set seen" and
    dbok: "verify_database (ve_open env db) (mf_schema_version m) = Inr ()"
    by (rule verify_parts) blast
  note m = verified_manifest [OF assms]
  have k: "keyed expected" unfolding ex by (rule keyed_entries)
  let ?is = "item_entries (ve_hash env) rest"
  from archive_loop_accepts [OF k al]
  have l: "Corrupt \<notin> set rest" "\<forall>h' r'. Member h' r' \<in> set rest \<longrightarrow> th_type h' = TypeReg"
    "seen = rev (map en_name ?is) @ [manifestName]" "distinct (map en_name ?is)"
    "\<forall>e \<in> set ?is. map_of expected (en_name e) = Some e" by blast+
  have "set ?is \<subseteq> set (mf_entries m)" using l(5) ex by (force dest: map_of_SomeD)
  moreover have "length ?is = length (mf_entries m)" using fin(1) l(3) ex by simp
  ultimately have "mset ?is = mset (mf_entries m)" using m(2) l(4) same_entries by blast
  moreover have "db = stream_database [] rest" by (rule archive_loop_database [OF k al])
  ultimately show ?thesis
    using head l m dbok by (auto simp: valid_entry_def maxExpandedBytes_def)
qed

end
