(* ===== verification/Backups.thy ===== *)
theory Backups
  imports Archive
begin

text \<open>
  Making a backup (backend/backup/archive.go, \<open>Create\<close>): the snapshot's entries, the archive
  that is written from them, its verification and its publication. What the file system holds is a
  function from paths, once for when the entries are inspected and once for when they are copied;
  what the snapshot database holds is the four lists of artwork objects and the schema version.
\<close>

record source_file =
  sf_regular :: bool
  sf_opens :: bool
  sf_size :: int
  sf_reader :: reader
  sf_closes :: bool

record source_entry = archive_entry +
  se_path :: string

datatype inspect_error = EntryNotRegular | EntryNotOpened | EntryNotRead copy_error

text \<open>An error of the system: its text, and whether it is the cancellation of the context.\<close>

datatype os_error = OsError (oe_text: string) (oe_cancelled: bool)

datatype create_error =
    SourceIncomplete | MediaRootsUnknown | BadDestination dest_error | NoBackupId | SnapshotFailed os_error
  | DatabaseEntry inspect_error | SnapshotNotOpened os_error | SchemaUnread os_error | ArtworkUnread os_error
  | InvalidObjectName | CreateCancelled | ObjectGone | ContentsTooLarge | SpaceUnknown os_error | NoSpace
  | PartialNotCreated os_error | EncodeFailed os_error | TarFailed os_error | EntryGone | EntryChanged
  | NotFinished os_error | VerifyFailed verify_error | ManifestDiffers | NotPublished os_error
  | NotSyncedDir os_error | NotInspected os_error

section \<open>Inspecting the sources\<close>

text \<open>A file is read up to the size it had when it was looked at.\<close>

definition inspect_source_file :: "(string \<Rightarrow> string) \<Rightarrow> (nat \<Rightarrow> bool) \<Rightarrow> (string \<Rightarrow> source_file option) \<Rightarrow>
    string \<Rightarrow> string \<Rightarrow> (inspect_error, source_entry) result" where
  "inspect_source_file hash stopped files name path =
    (case files path of
       None \<Rightarrow> Inl EntryNotRegular
     | Some f \<Rightarrow>
        if \<not> sf_regular f then Inl EntryNotRegular
        else if \<not> sf_opens f then Inl EntryNotOpened
        else (case copy_context stopped take_all (sf_reader f) (sf_size f) of
            (_, contents, None) \<Rightarrow> Inr \<lparr>en_name = name, en_size = sf_size f, en_sha256 = hash contents, se_path = path\<rparr>
          | (_, _, Some err) \<Rightarrow> Inl (EntryNotRead err)))"

record snapshot_db =
  sn_artwork :: "string list"
  sn_local :: "string list"
  sn_fallback :: "string list"
  sn_identity :: "string list"

definition schema_local_artwork :: int where "schema_local_artwork = 31"

text \<open>The query: the distinct names that are not empty, in byte order; older schemas have one table.\<close>

definition object_names :: "int \<Rightarrow> snapshot_db \<Rightarrow> string list" where
  "object_names version db =
    sort (remdups (filter (\<lambda>n. n \<noteq> '''')
      (if schema_local_artwork \<le> version
       then sn_artwork db @ sn_local db @ sn_fallback db @ sn_identity db else sn_artwork db)))"

record create_env =
  ce_archive :: archive_env
  ce_dest :: dest_env
  ce_id :: "string option"
  ce_snapshot :: "os_error option"
  ce_inspect :: "string \<Rightarrow> source_file option"
  ce_inspect_stopped :: "string \<Rightarrow> nat \<Rightarrow> bool"
  ce_snapshot_opens :: "os_error option"
  ce_schema :: "os_error + int"
  ce_rows :: "os_error + snapshot_db"
  ce_cancelled :: bool
  ce_now :: int
  ce_free :: "os_error + int"
  ce_partial :: "os_error option"
  ce_marshal :: "manifest \<Rightarrow> os_error + string"
  ce_tar :: "string \<Rightarrow> os_error option"
  ce_entry_stopped :: "string \<Rightarrow> bool"
  ce_sources :: "string \<Rightarrow> source_file option"
  ce_copy_stopped :: "string \<Rightarrow> nat \<Rightarrow> bool"
  ce_tar_sink :: "int \<Rightarrow> string \<Rightarrow> int \<times> bool"
  ce_finish :: "os_error option"
  ce_read_back :: "tar_item list \<Rightarrow> archive_file"
  ce_stamp :: "int \<Rightarrow> string"
  ce_rename :: "os_error option"
  ce_sync_dir :: "os_error option"
  ce_stat :: "os_error + int"

definition object_path :: "string \<Rightarrow> string \<Rightarrow> string" where
  "object_path data_dir name = join_path [data_dir, ''artwork'', ''objects'', name]"

fun artwork_entries :: "create_env \<Rightarrow> string \<Rightarrow> string list \<Rightarrow> (create_error, source_entry list) result" where
  "artwork_entries env data_dir [] = Inr []"
| "artwork_entries env data_dir (name # names) =
    (if base_name name \<noteq> name \<or> name = ''.'' \<or> name = ''..'' then Inl InvalidObjectName
     else (case inspect_source_file (ve_hash (ce_archive env)) (ce_inspect_stopped env name) (ce_inspect env)
              (join_path [''artwork'', ''objects'', name]) (object_path data_dir name) of
         Inl _ \<Rightarrow> Inl (if ce_cancelled env then CreateCancelled else ObjectGone)
       | Inr e \<Rightarrow>
          (case artwork_entries env data_dir names of
             Inl err \<Rightarrow> Inl err
           | Inr es \<Rightarrow> Inr (e # es))))"

definition snapshot_entries :: "create_env \<Rightarrow> string \<Rightarrow> string \<Rightarrow> (create_error, source_entry list \<times> int) result" where
  "snapshot_entries env snapshot data_dir =
    (case inspect_source_file (ve_hash (ce_archive env)) (ce_inspect_stopped env '''') (ce_inspect env)
            database_name snapshot of
       Inl err \<Rightarrow> Inl (DatabaseEntry err)
     | Inr database \<Rightarrow>
        (case ce_snapshot_opens env of
           Some e \<Rightarrow> Inl (SnapshotNotOpened e)
         | None \<Rightarrow>
            (case ce_schema env of
               Inl e \<Rightarrow> Inl (SchemaUnread e)
             | Inr version \<Rightarrow>
                (case ce_rows env of
                   Inl e \<Rightarrow> Inl (ArtworkUnread e)
                 | Inr db \<Rightarrow>
                    (case artwork_entries env data_dir (object_names version db) of
                       Inl err \<Rightarrow> Inl err
                     | Inr es \<Rightarrow> Inr (database # es, version))))))"

section \<open>Writing the archive\<close>

fun write_entries :: "create_env \<Rightarrow> source_entry list \<Rightarrow> (create_error, tar_item list) result" where
  "write_entries env [] = Inr []"
| "write_entries env (e # es) =
    (if ce_entry_stopped env (en_name e) then Inl CreateCancelled
     else (case ce_tar env (en_name e) of
         Some err \<Rightarrow> Inl (TarFailed err)
       | None \<Rightarrow>
          (case ce_sources env (se_path e) of
             None \<Rightarrow> Inl EntryGone
           | Some f \<Rightarrow>
              if \<not> sf_opens f then Inl EntryGone
              else (case copy_context (ce_copy_stopped env (en_name e)) (ce_tar_sink env) (sf_reader f) (en_size e) of
                  (written, contents, err) \<Rightarrow>
                    if err \<noteq> None \<or> \<not> sf_closes f \<or> written \<noteq> en_size e \<or>
                       ve_hash (ce_archive env) contents \<noteq> en_sha256 e then Inl EntryChanged
                    else (case write_entries env es of
                        Inl err \<Rightarrow> Inl err
                      | Inr ts \<Rightarrow>
                         Inr (Member \<lparr>th_name = en_name e, th_type = TypeReg, th_size = en_size e\<rparr>
                                [(contents, None)] # ts))))))"

definition write_archive :: "create_env \<Rightarrow> manifest \<Rightarrow> source_entry list \<Rightarrow> (create_error, tar_item list) result" where
  "write_archive env m es =
    (case ce_partial env of
       Some e \<Rightarrow> Inl (PartialNotCreated e)
     | None \<Rightarrow>
        (case ce_marshal env m of
           Inl e \<Rightarrow> Inl (EncodeFailed e)
         | Inr text' \<Rightarrow>
            (case ce_tar env manifestName of
               Some e \<Rightarrow> Inl (TarFailed e)
             | None \<Rightarrow>
                (case write_entries env es of
                   Inl err \<Rightarrow> Inl err
                 | Inr ts \<Rightarrow>
                    (case ce_finish env of
                       Some e \<Rightarrow> Inl (NotFinished e)
                     | None \<Rightarrow>
                        Inr (Member \<lparr>th_name = manifestName, th_type = TypeReg, th_size = int (length text')\<rparr>
                               [(text', None)] # ts))))))"

section \<open>Creating a backup\<close>

record backup_source =
  bs_db :: bool
  bs_data_dir :: string
  bs_media_roots :: "string list"
  bs_media_provider :: "string list option option"
  bs_segment_dir :: string
  bs_app_version :: string

record backup_result =
  br_path :: string
  br_size :: int
  br_manifest :: manifest

fun sum_sizes :: "int \<Rightarrow> source_entry list \<Rightarrow> int option" where
  "sum_sizes expanded [] = Some expanded"
| "sum_sizes expanded (e # es) =
    (if maxExpandedBytes - en_size e < expanded then None else sum_sizes (expanded + en_size e) es)"

definition plain_entry :: "source_entry \<Rightarrow> archive_entry" where
  "plain_entry e = \<lparr>en_name = en_name e, en_size = en_size e, en_sha256 = en_sha256 e\<rparr>"

definition new_manifest :: "string \<Rightarrow> int \<Rightarrow> int \<Rightarrow> source_entry list \<Rightarrow> manifest" where
  "new_manifest app version now es =
    \<lparr>mf_format_version = 1, mf_app_version = app, mf_schema_version = version, mf_created_at = now,
     mf_entries = map plain_entry es\<rparr>"

definition media_roots_of :: "backup_source \<Rightarrow> string list option" where
  "media_roots_of source =
    (case bs_media_provider source of None \<Rightarrow> Some (bs_media_roots source) | Some roots \<Rightarrow> roots)"

text \<open>What follows the verification of the partial file.\<close>

definition publish_backup :: "create_env \<Rightarrow> string \<Rightarrow> string \<Rightarrow> manifest \<Rightarrow> manifest \<Rightarrow> (create_error, backup_result) result" where
  "publish_backup env destination name m verified =
    (if mf_schema_version verified \<noteq> mf_schema_version m \<or> length (mf_entries verified) \<noteq> length (mf_entries m)
     then Inl ManifestDiffers
     else (let final = join_path [destination,
              ''flixr-backup-'' @ ce_stamp env (mf_created_at m) @ ''-'' @ name @ archiveSuffix] in
       case ce_rename env of Some e \<Rightarrow> Inl (NotPublished e)
       | None \<Rightarrow>
          (case ce_sync_dir env of Some e \<Rightarrow> Inl (NotSyncedDir e)
           | None \<Rightarrow>
              (case ce_stat env of Inl e \<Rightarrow> Inl (NotInspected e)
               | Inr bytes \<Rightarrow> Inr \<lparr>br_path = final, br_size = bytes, br_manifest = m\<rparr>))))"

definition create_backup :: "create_env \<Rightarrow> backup_source \<Rightarrow> string \<Rightarrow> (create_error, backup_result) result" where
  "create_backup env source destination =
    (if \<not> bs_db source \<or> bs_data_dir source = '''' then Inl SourceIncomplete
     else (case media_roots_of source of None \<Rightarrow> Inl MediaRootsUnknown | Some roots \<Rightarrow>
      (case authorize_destination (ce_dest env) destination ([bs_data_dir source, bs_segment_dir source] @ roots) of
         Inl err \<Rightarrow> Inl (BadDestination err)
       | Inr dir \<Rightarrow>
      (case ce_id env of None \<Rightarrow> Inl NoBackupId | Some name \<Rightarrow>
      (case ce_snapshot env of Some e \<Rightarrow> Inl (SnapshotFailed e) | None \<Rightarrow>
      (case snapshot_entries env (join_path [dir, ''.flixr-snapshot-'' @ name @ ''.partial'']) (bs_data_dir source) of
         Inl err \<Rightarrow> Inl err
       | Inr (es, version) \<Rightarrow>
      (let m = new_manifest (bs_app_version source) version (ce_now env) es in
       case sum_sizes 0 es of None \<Rightarrow> Inl ContentsTooLarge | Some expanded \<Rightarrow>
      (case ce_free env of Inl e \<Rightarrow> Inl (SpaceUnknown e) | Inr available \<Rightarrow>
       if available < expanded + spaceReserveBytes then Inl NoSpace
       else (case write_archive env m es of Inl err \<Rightarrow> Inl err | Inr ts \<Rightarrow>
      (case verify_archive (ce_archive env) (ce_read_back env ts) of
         Inl err \<Rightarrow> Inl (VerifyFailed err)
       | Inr verified \<Rightarrow> publish_backup env dir name m verified))))))))))"


section \<open>What the writer wrote is accepted\<close>

lemma plain_entry_simps [simp]:
  "en_name (plain_entry e) = en_name e" "en_size (plain_entry e) = en_size e"
  "en_sha256 (plain_entry e) = en_sha256 e"
  by (simp_all add: plain_entry_def)

fun faithful :: "source_entry \<Rightarrow> tar_item \<Rightarrow> bool" where
  "faithful e (Member h r) \<longleftrightarrow> th_name h = en_name e \<and> th_type h = TypeReg \<and> th_size h = en_size e \<and>
     (\<exists>contents. r = [(contents, None)] \<and> int (length contents) = en_size e)"
| "faithful e Corrupt \<longleftrightarrow> False"

lemma write_entries_faithful:
  "write_entries env es = Inr ts \<Longrightarrow> \<forall>e \<in> set es. 0 \<le> en_size e \<Longrightarrow>
   list_all2 faithful es ts \<and> item_entries (ve_hash (ce_archive env)) ts = map plain_entry es"
proof (induction es arbitrary: ts)
  case Nil
  then show ?case by simp
next
  case 2: (Cons e es)
  from 2(2) have go: "\<not> ce_entry_stopped env (en_name e)" "ce_tar env (en_name e) = None"
    by (simp_all split: if_splits option.splits)
  from 2(2) go obtain f where f: "ce_sources env (se_path e) = Some f" "sf_opens f"
    by (auto split: if_splits option.splits)
  obtain written contents err where cp:
    "copy_context (ce_copy_stopped env (en_name e)) (ce_tar_sink env) (sf_reader f) (en_size e) = (written, contents, err)"
    by (cases "copy_context (ce_copy_stopped env (en_name e)) (ce_tar_sink env) (sf_reader f) (en_size e)")
  from 2(2) go f cp have same: "err = None" "sf_closes f" "written = en_size e"
    "ve_hash (ce_archive env) contents = en_sha256 e" by (simp_all split: if_splits)
  from 2(2) go f cp same obtain us where us: "write_entries env es = Inr us"
    and ts: "ts = Member \<lparr>th_name = en_name e, th_type = TypeReg, th_size = en_size e\<rparr> [(contents, None)] # us"
    by (auto split: sum.splits)
  have "list_all2 faithful es us \<and> item_entries (ve_hash (ce_archive env)) us = map plain_entry es"
    using 2(1) [OF us] 2(3) by simp
  moreover have "int (length contents) = en_size e"
    using copy_context_sound(3) [OF cp [unfolded same(1)]] 2(3) by simp
  moreover have "take (nat (en_size e)) contents = contents"
    using calculation(2) by simp
  ultimately show ?case using same(4) by (simp add: ts member_entry_def plain_entry_def)
qed

text \<open>A member written from a manifest entry passes, when nothing interferes.\<close>

lemma member_contents_complete:
  assumes "map_of expected (th_name h) = Some (member_entry (ve_hash env) h [(contents, None)])"
    and "int (length contents) = th_size h" and "th_type h = TypeReg" and "allowed_archive_entry (th_name h)"
    and "th_name h \<notin> set seen" and "expanded + th_size h \<le> maxExpandedBytes"
    and "ve_stage_database env" and "\<And>n k. \<not> ve_copy_stopped env n k" and "ve_sink env = take_all"
  shows "member_contents env expected i seen expanded h [(contents, None)] = Inr contents"
proof -
  have "copy_context (ve_copy_stopped env i) take_all [(contents, None)] (th_size h) =
      (th_size h, take (nat (th_size h)) (delivered [(contents, None)]), None)"
    by (rule copy_context_complete) (use assms(2,8) in simp_all)
  moreover have "take (nat (th_size h)) contents = contents" using assms(2) by simp
  ultimately show ?thesis using assms by (simp add: member_contents_def member_entry_def)
qed

lemma faithful_parts:
  assumes "faithful e t"
  obtains h contents where "t = Member h [(contents, None)]" "th_name h = en_name e" "th_type h = TypeReg"
    "th_size h = en_size e" "int (length contents) = th_size h"
  using assms by (cases t) auto

lemma archive_loop_complete:
  "list_all2 faithful es ts \<Longrightarrow> item_entries (ve_hash env) ts = map plain_entry es \<Longrightarrow>
   \<forall>e \<in> set es. map_of expected (en_name e) = Some (plain_entry e) \<and> allowed_archive_entry (en_name e) \<and> 0 \<le> en_size e \<Longrightarrow>
   distinct (map en_name es) \<Longrightarrow> en_name ` set es \<inter> set seen = {} \<Longrightarrow>
   expanded + entries_size (map plain_entry es) \<le> maxExpandedBytes \<Longrightarrow>
   int i + int (length es) \<le> maxArchiveEntries + 1 \<Longrightarrow>
   ve_stage_database env \<Longrightarrow> (\<And>n. \<not> ve_stopped env n) \<Longrightarrow> (\<And>n k. \<not> ve_copy_stopped env n k) \<Longrightarrow>
   ve_sink env = take_all \<Longrightarrow>
   archive_loop env expected i seen expanded db ts = Inr (rev (map en_name es) @ seen, stream_database db ts)"
proof (induction es ts arbitrary: i seen expanded db rule: list_all2_induct)
  case Nil
  then show ?case by simp
next
  case (Cons e es t ts)
  from Cons(1) obtain h contents where t: "t = Member h [(contents, None)]" "th_name h = en_name e"
    "th_type h = TypeReg" "th_size h = en_size e" "int (length contents) = th_size h" by (rule faithful_parts)
  have entry: "member_entry (ve_hash env) h [(contents, None)] = plain_entry e"
    and rest: "item_entries (ve_hash env) ts = map plain_entry es" using Cons.prems(1) t by simp_all
  have pos: "0 \<le> entries_size (map plain_entry es)"
    unfolding entries_size_def using Cons.prems(2) by (intro sum_list_nonneg) (auto simp: plain_entry_def)
  have size: "expanded + th_size h + entries_size (map plain_entry es) \<le> maxExpandedBytes"
    using Cons.prems(5) t(4) by simp
  have c: "member_contents env expected i seen expanded h [(contents, None)] = Inr contents"
    by (rule member_contents_complete) (use Cons.prems t entry size pos in auto)
  have "archive_loop env expected (Suc i) (th_name h # seen) (expanded + th_size h)
      (if th_name h = database_name then contents else db) ts =
      Inr (rev (map en_name es) @ th_name h # seen,
           stream_database (if th_name h = database_name then contents else db) ts)"
    by (rule Cons.IH [OF rest]) (use Cons.prems size t in auto)
  with c Cons.prems(6,8) t show ?case by simp
qed


lemma stream_database_other:
  "database_name \<notin> en_name ` set es \<Longrightarrow> list_all2 faithful es ts \<Longrightarrow> stream_database db ts = db"
proof (induction es arbitrary: ts db)
  case Nil
  then show ?case by simp
next
  case (Cons e es)
  then obtain t us where ts: "ts = t # us" "faithful e t" "list_all2 faithful es us"
    by (auto simp: list_all2_Cons1)
  from ts(2) obtain h r where "t = Member h r" "th_name h = en_name e" by (cases t) auto
  with Cons.IH [OF _ ts(3)] Cons.prems(1) ts(1) show ?case by auto
qed

definition whole :: "tar_item list \<Rightarrow> archive_file" where
  "whole ts = \<lparr>af_regular = True, af_opens = True, af_gzip = True, af_items = ts\<rparr>"

text \<open>Nothing interferes with a verification.\<close>

definition calm :: "archive_env \<Rightarrow> bool" where
  "calm env \<longleftrightarrow> ve_stage env \<and> ve_stage_database env \<and> (\<forall>n. \<not> ve_stopped env n) \<and>
     (\<forall>n k. \<not> ve_copy_stopped env n k) \<and> ve_sink env = take_all \<and> (\<forall>s. length (ve_hash env s) = 64)"

definition sound_manifest :: "manifest \<Rightarrow> bool" where
  "sound_manifest m \<longleftrightarrow> mf_format_version m = 1 \<and> 1 \<le> mf_schema_version m \<and>
     mf_schema_version m \<le> latestSchemaVersion \<and> (\<forall>e \<in> set (mf_entries m). valid_entry e) \<and>
     distinct (map en_name (mf_entries m)) \<and> manifestName \<notin> en_name ` set (mf_entries m) \<and>
     entries_size (mf_entries m) \<le> maxExpandedBytes \<and> database_name \<in> en_name ` set (mf_entries m)"

lemma map_of_entries:
  assumes "distinct (map en_name es)" and "e \<in> set es"
  shows "map_of (map (\<lambda>e. (en_name e, e)) es) (en_name e) = Some e"
proof (rule map_of_is_SomeI)
  have "map fst (map (\<lambda>e. (en_name e, e)) es) = map en_name es" by simp
  then show "distinct (map fst (map (\<lambda>e. (en_name e, e)) es))" using assms(1) by (simp only:)
  show "(en_name e, e) \<in> set (map (\<lambda>e. (en_name e, e)) es)" using assms(2) by simp
qed

lemma verify_complete:
  assumes "list_all2 faithful es ts" and "item_entries (ve_hash env) ts = map plain_entry es"
    and "mf_entries m = map plain_entry es" and "sound_manifest m" and "calm env"
    and "ve_decode env text' = Some m" and "ve_only_value env text'" and "2 \<le> length text'"
    and db: "verify_database (ve_open env (stream_database [] ts)) (mf_schema_version m) = Inr ()"
  shows "verify_archive env (whole (Member \<lparr>th_name = manifestName, th_type = TypeReg, th_size = int (length text')\<rparr>
           [(text', None)] # ts)) =
    (if maxManifestBytes < int (length text') then Inl NoManifest
     else if maxArchiveEntries < int (length es) then Inl BadManifest else Inr m)"
proof -
  let ?h = "\<lparr>th_name = manifestName, th_type = TypeReg, th_size = int (length text')\<rparr>"
  have names: "map en_name (map plain_entry es) = map en_name es" by (simp add: comp_def)
  have es: "distinct (map en_name es)" "manifestName \<notin> en_name ` set es" "database_name \<in> en_name ` set es"
    "entries_size (map plain_entry es) \<le> maxExpandedBytes" "\<forall>e \<in> set es. valid_entry (plain_entry e)"
    using assms(4) unfolding sound_manifest_def assms(3) names by (auto simp: image_image)
  have ne: "mf_entries m \<noteq> []" using es(3) assms(3) by auto
  let ?expected = "map (\<lambda>e. (en_name e, e)) (mf_entries m)"
  have ml: "entries_loop [] 0 (mf_entries m) = Inr (?expected, entries_size (mf_entries m))"
    using entries_loop_accepts [of "mf_entries m" "[]" 0] assms(4)
    by (auto simp: sound_manifest_def valid_entry_def)
  have look: "\<forall>e \<in> set es. map_of ?expected (en_name e) = Some (plain_entry e) \<and>
      allowed_archive_entry (en_name e) \<and> 0 \<le> en_size e"
  proof
    fix e assume e: "e \<in> set es"
    have "map_of ?expected (en_name (plain_entry e)) = Some (plain_entry e)"
      using assms(4) e by (intro map_of_entries) (auto simp: sound_manifest_def assms(3))
    with es(5) e show "map_of ?expected (en_name e) = Some (plain_entry e) \<and>
      allowed_archive_entry (en_name e) \<and> 0 \<le> en_size e" by (auto simp: valid_entry_def)
  qed
  have al: "archive_loop env ?expected 1 [manifestName] 0 [] ts =
      Inr (rev (map en_name es) @ [manifestName], stream_database [] ts)"
    if "int (length es) \<le> maxArchiveEntries"
    by (rule archive_loop_complete [OF assms(1,2) look es(1)])
      (use es that assms(5) in \<open>auto simp: calm_def\<close>)
  have dec: "decode_manifest env (Member ?h [(text', None)] # ts) =
    (if maxManifestBytes < int (length text') then Inl NoManifest
     else if maxArchiveEntries < int (length es) then Inl BadManifest else Inr (m, ts))"
    using assms(4,6,7,8) ne by (simp add: decode_manifest_def sound_manifest_def broken_reader_def assms(3))
  show ?thesis
  proof (cases "maxManifestBytes < int (length text') \<or> maxArchiveEntries < int (length es)")
    case True
    then show ?thesis by (auto simp: verify_archive_def whole_def dec)
  next
    case False
    then show ?thesis
      using es(3) al assms(5) db
      by (simp add: verify_archive_def whole_def dec ml calm_def) (simp add: assms(3))
  qed
qed


section \<open>The entries of a snapshot\<close>

lemma join_names: "\<forall>p \<in> set ps. path_name p \<Longrightarrow> ps \<noteq> [] \<Longrightarrow> clean_parts r (join [slash] ps) = ps"
  using split_at_join [of ps slash] by (simp add: clean_parts_def fold_clean_fixed path_name_def)

lemma object_entry_name:
  assumes "path_name n"
  shows "join_path [''artwork'', ''objects'', n] = artwork_prefix @ n"
proof -
  have ps: "\<forall>p \<in> set [''artwork'', ''objects'', n]. path_name p"
    using assms by (simp add: path_name_def slash_def)
  have "n \<noteq> ''''" using assms by (simp add: path_name_def)
  then have "join_path [''artwork'', ''objects'', n] = clean (join [slash] [''artwork'', ''objects'', n])"
    by (simp add: join_path_def)
  also have "\<dots> = join [slash] [''artwork'', ''objects'', n]"
    using join_names [OF ps] by (simp add: clean_def is_abs_def slash_def)
  finally show ?thesis by (simp add: artwork_prefix_def slash_def)
qed

lemma path_name_base: "path_name n \<Longrightarrow> base_name n = n \<and> n \<noteq> ''.'' \<and> n \<noteq> ''..''"
  by (simp add: base_name_def path_name_def split_at_no)

lemma trim_prefix_append [simp]: "trim_prefix (p @ n) p = n"
  by (simp add: trim_prefix_def)

lemma allowed_object:
  assumes "path_name n"
  shows "allowed_archive_entry (artwork_prefix @ n)"
proof -
  have "n \<noteq> ''''" using assms by (simp add: path_name_def)
  with path_name_base [OF assms] show ?thesis
    unfolding allowed_archive_entry_def trim_prefix_append Let_def by simp
qed

lemma object_not_special: "artwork_prefix @ n \<noteq> database_name" "artwork_prefix @ n \<noteq> manifestName"
  by (simp_all add: artwork_prefix_def database_name_def manifestName_def)

lemma special_differ: "manifestName \<noteq> database_name"
  by (simp add: database_name_def manifestName_def)

definition good_file :: "source_file \<Rightarrow> bool" where
  "good_file f \<longleftrightarrow> sf_regular f \<and> sf_opens f \<and> sf_closes f \<and> 0 \<le> sf_size f \<and>
     sf_size f \<le> int (length (delivered (sf_reader f))) \<and> (\<forall>(bytes, e) \<in> set (sf_reader f). e = None)"

definition file_contents :: "source_file \<Rightarrow> string" where
  "file_contents f = take (nat (sf_size f)) (delivered (sf_reader f))"

definition file_entry :: "(string \<Rightarrow> string) \<Rightarrow> (string \<Rightarrow> source_file option) \<Rightarrow> string \<Rightarrow> string \<Rightarrow> source_entry" where
  "file_entry hash files name path =
    (case files path of
       Some f \<Rightarrow> \<lparr>en_name = name, en_size = sf_size f, en_sha256 = hash (file_contents f), se_path = path\<rparr>
     | None \<Rightarrow> \<lparr>en_name = name, en_size = 0, en_sha256 = [], se_path = path\<rparr>)"

lemma inspect_good:
  assumes "files path = Some f" and "good_file f" and "\<And>k. \<not> stopped k"
  shows "inspect_source_file hash stopped files name path = Inr (file_entry hash files name path)"
proof -
  have "copy_context stopped take_all (sf_reader f) (sf_size f) = (sf_size f, file_contents f, None)"
    unfolding file_contents_def by (rule copy_context_complete) (use assms in \<open>auto simp: good_file_def\<close>)
  with assms show ?thesis by (simp add: inspect_source_file_def good_file_def file_entry_def)
qed

text \<open>Nothing interferes with the making of a backup, and the files stay as they were.\<close>

definition undisturbed :: "create_env \<Rightarrow> bool" where
  "undisturbed env \<longleftrightarrow> calm (ce_archive env) \<and> ce_snapshot env = None \<and> ce_snapshot_opens env = None \<and>
     ce_partial env = None \<and> (\<forall>n. ce_tar env n = None) \<and> (\<forall>n. \<not> ce_entry_stopped env n) \<and>
     (\<forall>n k. \<not> ce_inspect_stopped env n k) \<and> (\<forall>n k. \<not> ce_copy_stopped env n k) \<and>
     ce_tar_sink env = take_all \<and> ce_finish env = None \<and> (\<forall>ts. ce_read_back env ts = whole ts) \<and>
     ce_rename env = None \<and> ce_sync_dir env = None \<and> ce_sources env = ce_inspect env \<and>
     (\<forall>p f. ce_inspect env p = Some f \<longrightarrow> good_file f)"

definition object_entry :: "create_env \<Rightarrow> string \<Rightarrow> string \<Rightarrow> source_entry" where
  "object_entry env data_dir n =
    file_entry (ve_hash (ce_archive env)) (ce_inspect env) (artwork_prefix @ n) (object_path data_dir n)"

lemma artwork_entries_good:
  assumes "undisturbed env"
  shows "\<forall>n \<in> set names. path_name n \<and> ce_inspect env (object_path data_dir n) \<noteq> None \<Longrightarrow>
    artwork_entries env data_dir names = Inr (map (object_entry env data_dir) names)"
proof (induction names)
  case Nil
  then show ?case by simp
next
  case (Cons n names)
  then obtain f where f: "ce_inspect env (object_path data_dir n) = Some f" and n: "path_name n" by auto
  have "inspect_source_file (ve_hash (ce_archive env)) (ce_inspect_stopped env n) (ce_inspect env)
      (artwork_prefix @ n) (object_path data_dir n) = Inr (object_entry env data_dir n)"
    unfolding object_entry_def
    by (rule inspect_good [where files = "ce_inspect env", OF f]) (use assms f in \<open>auto simp: undisturbed_def\<close>)
  with Cons n path_name_base [OF n] show ?case by (simp add: object_entry_name)
qed

lemma write_entries_good:
  assumes "undisturbed env"
  shows "\<forall>e \<in> set es. \<exists>f. ce_inspect env (se_path e) = Some f \<and> en_size e = sf_size f \<and>
      en_sha256 e = ve_hash (ce_archive env) (file_contents f) \<Longrightarrow>
    \<exists>ts. write_entries env es = Inr ts \<and>
      (\<forall>e es'. es = e # es' \<longrightarrow> (\<exists>f us. ce_inspect env (se_path e) = Some f \<and>
         ts = Member \<lparr>th_name = en_name e, th_type = TypeReg, th_size = en_size e\<rparr> [(file_contents f, None)] # us))"
proof (induction es)
  case Nil
  then show ?case by simp
next
  case (Cons e es)
  then obtain f where f: "ce_inspect env (se_path e) = Some f" "en_size e = sf_size f"
    "en_sha256 e = ve_hash (ce_archive env) (file_contents f)" by auto
  from Cons obtain ts where ts: "write_entries env es = Inr ts" by auto
  have good: "good_file f" "ce_sources env (se_path e) = Some f" using assms f(1) by (auto simp: undisturbed_def)
  have "copy_context (ce_copy_stopped env (en_name e)) (ce_tar_sink env) (sf_reader f) (en_size e) =
      (en_size e, file_contents f, None)"
    using copy_context_complete [of "sf_size f" "ce_copy_stopped env (en_name e)" "sf_reader f"] assms good(1) f(2)
    by (simp add: undisturbed_def file_contents_def good_file_def)
  then show ?case
    using assms f good ts by (auto simp: undisturbed_def good_file_def)
qed


section \<open>When a backup is made\<close>

lemma sum_sizes_some:
  "\<forall>e \<in> set es. 0 \<le> en_size e \<Longrightarrow> expanded + entries_size (map plain_entry es) \<le> maxExpandedBytes \<Longrightarrow>
   sum_sizes expanded es = Some (expanded + entries_size (map plain_entry es))"
proof (induction es arbitrary: expanded)
  case Nil
  then show ?case by simp
next
  case (Cons e es)
  have "0 \<le> entries_size (map plain_entry es)"
    unfolding entries_size_def using Cons.prems(1) by (intro sum_list_nonneg) auto
  with Cons show ?case by (simp add: algebra_simps)
qed

definition snapshot_path :: "string \<Rightarrow> string \<Rightarrow> string" where
  "snapshot_path dir name = join_path [dir, ''.flixr-snapshot-'' @ name @ ''.partial'']"

definition all_entries :: "create_env \<Rightarrow> string \<Rightarrow> string \<Rightarrow> string list \<Rightarrow> source_entry list" where
  "all_entries env snapshot data_dir names =
    file_entry (ve_hash (ce_archive env)) (ce_inspect env) database_name snapshot # map (object_entry env data_dir) names"

text \<open>Everything a backup needs is there.\<close>

definition ready_source :: "create_env \<Rightarrow> backup_source \<Rightarrow> string \<Rightarrow> string \<Rightarrow> string \<Rightarrow> int \<Rightarrow> string list \<Rightarrow> string \<Rightarrow> bool" where
  "ready_source env source destination dir name version names text' \<longleftrightarrow>
     bs_db source \<and> bs_data_dir source \<noteq> '''' \<and>
     (\<exists>roots. media_roots_of source = Some roots \<and>
        authorize_destination (ce_dest env) destination ([bs_data_dir source, bs_segment_dir source] @ roots) = Inr dir) \<and>
     ce_id env = Some name \<and> ce_schema env = Inr version \<and> 1 \<le> version \<and> version \<le> latestSchemaVersion \<and>
     (\<exists>db. ce_rows env = Inr db \<and> names = object_names version db) \<and>
     (\<forall>n \<in> set names. path_name n \<and> ce_inspect env (object_path (bs_data_dir source) n) \<noteq> None) \<and>
     (\<exists>f. ce_inspect env (snapshot_path dir name) = Some f \<and>
        verify_database (ve_open (ce_archive env) (file_contents f)) version = Inr ()) \<and>
     (let es = all_entries env (snapshot_path dir name) (bs_data_dir source) names;
          m = new_manifest (bs_app_version source) version (ce_now env) es in
       entries_size (map plain_entry es) \<le> maxExpandedBytes \<and>
       (\<exists>free. ce_free env = Inr free \<and> entries_size (map plain_entry es) + spaceReserveBytes \<le> free) \<and>
       ce_marshal env m = Inr text' \<and> ve_decode (ce_archive env) text' = Some m \<and>
       ve_only_value (ce_archive env) text' \<and> 2 \<le> length text') \<and>
     (\<exists>bytes. ce_stat env = Inr bytes)"

lemma object_names_distinct: "distinct (object_names version db)"
  by (simp add: object_names_def)

lemma file_entry_good:
  assumes "undisturbed env" and "ce_inspect env path \<noteq> None" and "allowed_archive_entry name"
  shows "\<exists>f. ce_inspect env (se_path (file_entry (ve_hash (ce_archive env)) (ce_inspect env) name path)) = Some f \<and>
      en_size (file_entry (ve_hash (ce_archive env)) (ce_inspect env) name path) = sf_size f \<and>
      en_sha256 (file_entry (ve_hash (ce_archive env)) (ce_inspect env) name path) = ve_hash (ce_archive env) (file_contents f)"
    and "en_name (file_entry (ve_hash (ce_archive env)) (ce_inspect env) name path) = name"
    and "0 \<le> en_size (file_entry (ve_hash (ce_archive env)) (ce_inspect env) name path)"
    and "en_size (file_entry (ve_hash (ce_archive env)) (ce_inspect env) name path) \<le> maxExpandedBytes \<Longrightarrow>
      valid_entry (plain_entry (file_entry (ve_hash (ce_archive env)) (ce_inspect env) name path))"
  using assms by (auto simp: file_entry_def undisturbed_def good_file_def calm_def valid_entry_def)

lemma member_le_sum_list_nonneg: "\<forall>y \<in> set xs. 0 \<le> y \<Longrightarrow> x \<in> set xs \<Longrightarrow> x \<le> sum_list (xs :: int list)"
proof (induction xs)
  case (Cons y ys)
  then have "0 \<le> sum_list ys" by (intro sum_list_nonneg) simp
  with Cons show ?case by auto
qed simp

lemma all_entries_sound:
  assumes u: "undisturbed env" and db: "ce_inspect env snapshot = Some f"
    and names: "\<forall>n \<in> set names. path_name n \<and> ce_inspect env (object_path data_dir n) \<noteq> None"
    and "distinct names" and v: "1 \<le> version" "version \<le> latestSchemaVersion"
    and es: "es = all_entries env snapshot data_dir names"
    and small: "entries_size (map plain_entry es) \<le> maxExpandedBytes"
  shows "sound_manifest (new_manifest app version now es)"
    and "\<forall>e \<in> set es. 0 \<le> en_size e"
    and "\<forall>e \<in> set es. \<exists>f. ce_inspect env (se_path e) = Some f \<and> en_size e = sf_size f \<and>
      en_sha256 e = ve_hash (ce_archive env) (file_contents f)"
proof -
  have dba: "allowed_archive_entry database_name" by (simp add: allowed_archive_entry_def)
  have dbi: "ce_inspect env snapshot \<noteq> None" using db by simp
  note d = file_entry_good [OF u dbi dba]
  have o: "\<forall>n \<in> set names. en_name (object_entry env data_dir n) = artwork_prefix @ n \<and> 0 \<le> en_size (object_entry env data_dir n) \<and>
      (en_size (object_entry env data_dir n) \<le> maxExpandedBytes \<longrightarrow> valid_entry (plain_entry (object_entry env data_dir n))) \<and>
      (\<exists>f. ce_inspect env (se_path (object_entry env data_dir n)) = Some f \<and> en_size (object_entry env data_dir n) = sf_size f \<and>
      en_sha256 (object_entry env data_dir n) = ve_hash (ce_archive env) (file_contents f))"
    unfolding object_entry_def using names allowed_object file_entry_good [OF u] by blast
  show pos: "\<forall>e \<in> set es. 0 \<le> en_size e" using d(3) o by (auto simp: es all_entries_def)
  show "\<forall>e \<in> set es. \<exists>f. ce_inspect env (se_path e) = Some f \<and> en_size e = sf_size f \<and>
      en_sha256 e = ve_hash (ce_archive env) (file_contents f)"
    using d(1) o by (auto simp: es all_entries_def)
  have each: "en_size e \<le> entries_size (map plain_entry es)" if "e \<in> set es" for e
    unfolding entries_size_def
    using that pos member_le_sum_list_nonneg [of "map en_size (map plain_entry es)" "en_size e"]
    by auto
  have "\<forall>e \<in> set es. valid_entry (plain_entry e)"
  proof
    fix e assume e: "e \<in> set es"
    then have "en_size e \<le> maxExpandedBytes" using each small by force
    with e d(4) o show "valid_entry (plain_entry e)" by (auto simp: es all_entries_def)
  qed
  moreover have "map en_name es = database_name # map (\<lambda>n. artwork_prefix @ n) names"
    using d(2) o by (simp add: es all_entries_def)
  moreover have "distinct (database_name # map (\<lambda>n. artwork_prefix @ n) names)"
    using \<open>distinct names\<close> by (auto simp: distinct_map inj_on_def object_not_special(1) [symmetric])
  moreover have "manifestName \<notin> set (database_name # map (\<lambda>n. artwork_prefix @ n) names)"
    using special_differ by (auto simp: object_not_special(2) [symmetric])
  moreover have "en_name ` set (map plain_entry es) = set (map en_name es)" by (auto simp: image_image)
  moreover have "map en_name (map plain_entry es) = map en_name es" by (simp add: comp_def)
  ultimately show "sound_manifest (new_manifest app version now es)"
    using v small by (simp add: sound_manifest_def new_manifest_def)
qed


text \<open>The snapshot is in the archive as it was inspected.\<close>

lemma written_database:
  assumes "list_all2 faithful (e # es) ts" and "en_name e = database_name" and "database_name \<notin> en_name ` set es"
    and "ts = Member \<lparr>th_name = en_name e, th_type = TypeReg, th_size = en_size e\<rparr> [(contents, None)] # us"
    and "int (length contents) = en_size e"
  shows "stream_database [] ts = contents"
proof -
  have "list_all2 faithful es us" using assms(1,4) by simp
  then have "stream_database contents us = contents" by (rule stream_database_other [OF assms(3)])
  moreover have "take (nat (en_size e)) contents = contents" using assms(5) by simp
  ultimately show ?thesis using assms(2,4) by simp
qed

lemma create_when_ready:
  assumes u: "undisturbed env" and r: "ready_source env source destination dir name version names text'"
  shows "create_backup env source destination =
    (if maxManifestBytes < int (length text') then Inl (VerifyFailed NoManifest)
     else if maxArchiveEntries < 1 + int (length names) then Inl (VerifyFailed BadManifest)
     else publish_backup env dir name
       (new_manifest (bs_app_version source) version (ce_now env)
          (all_entries env (snapshot_path dir name) (bs_data_dir source) names))
       (new_manifest (bs_app_version source) version (ce_now env)
          (all_entries env (snapshot_path dir name) (bs_data_dir source) names)))"
proof -
  define es where "es = all_entries env (snapshot_path dir name) (bs_data_dir source) names"
  define m where "m = new_manifest (bs_app_version source) version (ce_now env) es"
  note all = r [unfolded ready_source_def Let_def, folded es_def, folded m_def]
  from all have base: "bs_db source" "bs_data_dir source \<noteq> ''''" "ce_id env = Some name" "ce_schema env = Inr version"
    and v: "1 \<le> version" "version \<le> latestSchemaVersion"
    and objs: "\<forall>n \<in> set names. path_name n \<and> ce_inspect env (object_path (bs_data_dir source) n) \<noteq> None"
    and small: "entries_size (map plain_entry es) \<le> maxExpandedBytes"
    and js: "ce_marshal env m = Inr text'" "ve_decode (ce_archive env) text' = Some m"
      "ve_only_value (ce_archive env) text'" "2 \<le> length text'" by simp_all
  from all obtain roots where roots: "media_roots_of source = Some roots"
      "authorize_destination (ce_dest env) destination ([bs_data_dir source, bs_segment_dir source] @ roots) = Inr dir"
    by blast
  from all obtain db where rows: "ce_rows env = Inr db" "names = object_names version db" by blast
  from all obtain f where snap: "ce_inspect env (snapshot_path dir name) = Some f"
      "verify_database (ve_open (ce_archive env) (file_contents f)) version = Inr ()" by blast
  from all obtain free where free: "ce_free env = Inr free" "entries_size (map plain_entry es) + spaceReserveBytes \<le> free"
    by blast
  have good: "good_file f" using u snap(1) by (simp add: undisturbed_def)
  note sound = all_entries_sound [OF u snap(1) objs _ v es_def small]
  have dn: "distinct names" by (simp add: rows(2) object_names_distinct)
  have snapshot: "snapshot_entries env (snapshot_path dir name) (bs_data_dir source) = Inr (es, version)"
  proof -
    have "inspect_source_file (ve_hash (ce_archive env)) (ce_inspect_stopped env '''') (ce_inspect env) database_name
        (snapshot_path dir name) =
      Inr (file_entry (ve_hash (ce_archive env)) (ce_inspect env) database_name (snapshot_path dir name))"
      by (rule inspect_good [where files = "ce_inspect env", OF snap(1) good]) (use u in \<open>simp add: undisturbed_def\<close>)
    moreover have "artwork_entries env (bs_data_dir source) names = Inr (map (object_entry env (bs_data_dir source)) names)"
      by (rule artwork_entries_good [OF u objs])
    moreover have "ce_snapshot_opens env = None" using u by (simp add: undisturbed_def)
    ultimately show ?thesis
      using base(4) rows by (simp add: snapshot_entries_def es_def all_entries_def)
  qed
  obtain e es' where ee: "es = e # es'" and e: "e = file_entry (ve_hash (ce_archive env)) (ce_inspect env) database_name (snapshot_path dir name)"
    by (simp add: es_def all_entries_def)
  obtain ts where ts: "write_entries env es = Inr ts" and head: "\<exists>f us. ce_inspect env (se_path e) = Some f \<and>
         ts = Member \<lparr>th_name = en_name e, th_type = TypeReg, th_size = en_size e\<rparr> [(file_contents f, None)] # us"
    using write_entries_good [OF u sound(3) [OF dn]] by (elim exE conjE allE, simp only: ee) simp
  from write_entries_faithful [OF ts sound(2) [OF dn]]
  have fa: "list_all2 faithful es ts" "item_entries (ve_hash (ce_archive env)) ts = map plain_entry es" by blast+
  let ?head = "Member \<lparr>th_name = manifestName, th_type = TypeReg, th_size = int (length text')\<rparr> [(text', None)]"
  have wr: "write_archive env m es = Inr (?head # ts)"
    using u ts js(1) by (simp add: write_archive_def undisturbed_def)
  have names_es: "map en_name es = map en_name (mf_entries m)" by (simp add: m_def new_manifest_def)
  have db': "stream_database [] ts = file_contents f"
  proof -
    have nm: "en_name e = database_name" "se_path e = snapshot_path dir name" "en_size e = sf_size f"
      using snap(1) by (simp_all add: e file_entry_def)
    have "distinct (map en_name es)"
      using sound(1) [OF dn, of "bs_app_version source" "ce_now env"] names_es by (simp add: sound_manifest_def m_def)
    then have other: "database_name \<notin> en_name ` set es'" using nm(1) by (simp add: ee)
    have len: "int (length (file_contents f)) = en_size e" using good by (auto simp: nm(3) good_file_def file_contents_def min_def)
    from head nm(2) snap(1) obtain us where "ts = Member \<lparr>th_name = en_name e, th_type = TypeReg, th_size = en_size e\<rparr>
        [(file_contents f, None)] # us" by auto
    from written_database [OF fa(1) [unfolded ee] nm(1) other this len] show ?thesis .
  qed
  have sm: "sound_manifest m" unfolding m_def by (rule sound(1) [OF dn])
  have me: "mf_entries m = map plain_entry es" "mf_schema_version m = version" by (simp_all add: m_def new_manifest_def)
  have calm': "calm (ce_archive env)" using u by (simp add: undisturbed_def)
  have ver: "verify_archive (ce_archive env) (whole (?head # ts)) =
    (if maxManifestBytes < int (length text') then Inl NoManifest
     else if maxArchiveEntries < int (length es) then Inl BadManifest else Inr m)"
    by (rule verify_complete [OF fa me(1) sm calm' js(2,3,4)]) (use snap(2) in \<open>simp add: me(2) db'\<close>)
  have len: "int (length es) = 1 + int (length names)" by (simp add: es_def all_entries_def)
  have sums: "sum_sizes 0 es = Some (entries_size (map plain_entry es))"
    using sum_sizes_some [OF sound(2) [OF dn], of 0] small by simp
  have read_it: "ce_read_back env (?head # ts) = whole (?head # ts)" and sn: "ce_snapshot env = None"
    using u by (simp_all add: undisturbed_def)
  have step: "create_backup env source destination =
    (case verify_archive (ce_archive env) (whole (?head # ts)) of
         Inl err \<Rightarrow> Inl (VerifyFailed err)
       | Inr verified \<Rightarrow> publish_backup env dir name m verified)"
    unfolding m_def
    using base roots snapshot [unfolded snapshot_path_def] sums free sn wr [unfolded m_def] read_it
    by (simp add: create_backup_def Let_def)
  show ?thesis
    unfolding step ver len using es_def m_def by simp
qed



lemma publish_backup_ok:
  assumes "publish_backup env dir name m verified = Inr r"
  shows "br_path r = join_path [dir, ''flixr-backup-'' @ ce_stamp env (mf_created_at m) @ ''-'' @ name @ archiveSuffix]"
    and "br_manifest r = m" and "mf_schema_version verified = mf_schema_version m"
    and "length (mf_entries verified) = length (mf_entries m)"
  using assms by (auto simp: publish_backup_def Let_def split: if_splits option.splits sum.splits)

lemma snapshot_entries_sizes:
  assumes "snapshot_entries env snapshot data_dir = Inr (es, version)"
    and "\<forall>p f. ce_inspect env p = Some f \<longrightarrow> 0 \<le> sf_size f"
  shows "\<forall>e \<in> set es. 0 \<le> en_size e"
proof -
  have one: "0 \<le> en_size e" if "inspect_source_file hash stopped (ce_inspect env) n p = Inr e" for hash stopped n p e
    using that assms(2) by (auto simp: inspect_source_file_def split: option.splits if_splits prod.splits)
  have many: "artwork_entries env data_dir names = Inr as \<Longrightarrow> \<forall>e \<in> set as. 0 \<le> en_size e" for names as
    by (induction names arbitrary: as) (auto split: if_splits sum.splits dest: one)
  obtain d as names where "inspect_source_file (ve_hash (ce_archive env)) (ce_inspect_stopped env '''') (ce_inspect env)
      database_name snapshot = Inr d" "artwork_entries env data_dir names = Inr as" "es = d # as"
    using assms(1) by (auto simp: snapshot_entries_def split: sum.splits option.splits)
  with one many show ?thesis by (metis set_ConsD)
qed



section \<open>A backup of one object\<close>

definition sample_hash :: string where
  "sample_hash = ''aaaaaaaaaaaaaaaaaaaaaaaaaaaaaaaaaaaaaaaaaaaaaaaaaaaaaaaaaaaaaaaa''"

definition sample_file :: "string \<Rightarrow> source_file" where
  "sample_file s = \<lparr>sf_regular = True, sf_opens = True, sf_size = int (length s), sf_reader = [(s, None)], sf_closes = True\<rparr>"

definition sample_backup_manifest :: manifest where
  "sample_backup_manifest = \<lparr>mf_format_version = 1, mf_app_version = ''1.0'', mf_schema_version = 32, mf_created_at = 5,
     mf_entries = [\<lparr>en_name = ''database/flixr.db'', en_size = 2, en_sha256 = sample_hash\<rparr>,
       \<lparr>en_name = ''artwork/objects/image-1'', en_size = 3, en_sha256 = sample_hash\<rparr>]\<rparr>"

definition sample_archive_env :: archive_env where
  "sample_archive_env = \<lparr>ve_hash = (\<lambda>_. sample_hash), ve_decode = (\<lambda>_. Some sample_backup_manifest),
     ve_only_value = (\<lambda>_. True), ve_stage = True, ve_stage_database = True, ve_stopped = (\<lambda>_. False),
     ve_copy_stopped = (\<lambda>_ _. False), ve_sink = take_all,
     ve_open = (\<lambda>_. Some \<lparr>dp_integrity = Some ''ok'', dp_foreign_keys = Some 0, dp_version = Some 32\<rparr>)\<rparr>"

definition sample_create_env :: create_env where
  "sample_create_env = \<lparr>ce_archive = sample_archive_env, ce_dest = sample_dest, ce_id = Some ''x'', ce_snapshot = None,
     ce_inspect = (\<lambda>p. if p = ''/b/.flixr-snapshot-x.partial'' then Some (sample_file ''db'')
        else if p = ''/data/artwork/objects/image-1'' then Some (sample_file ''art'') else None),
     ce_inspect_stopped = (\<lambda>_ _. False), ce_snapshot_opens = None, ce_schema = Inr 32,
     ce_rows = Inr \<lparr>sn_artwork = [''image-1'', ''''], sn_local = [''image-1''], sn_fallback = [], sn_identity = []\<rparr>,
     ce_cancelled = False, ce_now = 5, ce_free = Inr 100000000, ce_partial = None, ce_marshal = (\<lambda>_. Inr ''{}''),
     ce_tar = (\<lambda>_. None), ce_entry_stopped = (\<lambda>_. False),
     ce_sources = (\<lambda>p. if p = ''/b/.flixr-snapshot-x.partial'' then Some (sample_file ''db'')
        else if p = ''/data/artwork/objects/image-1'' then Some (sample_file ''art'') else None),
     ce_copy_stopped = (\<lambda>_ _. False), ce_tar_sink = take_all, ce_finish = None, ce_read_back = whole,
     ce_stamp = (\<lambda>_. ''20260101T000000Z''), ce_rename = None, ce_sync_dir = None, ce_stat = Inr 700\<rparr>"

definition sample_source :: backup_source where
  "sample_source = \<lparr>bs_db = True, bs_data_dir = ''/data'', bs_media_roots = [], bs_media_provider = None,
     bs_segment_dir = '''', bs_app_version = ''1.0''\<rparr>"

lemma sample_file_good: "good_file (sample_file s)"
  by (simp add: good_file_def sample_file_def)

lemma sample_undisturbed: "undisturbed sample_create_env"
  by (simp add: undisturbed_def calm_def sample_create_env_def sample_archive_env_def sample_hash_def sample_file_good)

lemma sample_names: "object_names 32 \<lparr>sn_artwork = [''image-1'', ''''], sn_local = [''image-1''], sn_fallback = [], sn_identity = []\<rparr> = [''image-1'']"
  by code_simp

lemma sample_entries: "all_entries sample_create_env (snapshot_path ''/b'' ''x'') ''/data'' [''image-1''] =
    [\<lparr>en_name = ''database/flixr.db'', en_size = 2, en_sha256 = sample_hash, se_path = ''/b/.flixr-snapshot-x.partial''\<rparr>,
     \<lparr>en_name = ''artwork/objects/image-1'', en_size = 3, en_sha256 = sample_hash, se_path = ''/data/artwork/objects/image-1''\<rparr>]"
  by code_simp

lemma sample_object: "path_name ''image-1''" "object_path ''/data'' ''image-1'' = ''/data/artwork/objects/image-1''"
  "snapshot_path ''/b'' ''x'' = ''/b/.flixr-snapshot-x.partial''"
  "authorize_destination sample_dest ''/b'' [''/data'', ''''] = Inr ''/b''"
  by code_simp+

lemma sample_source_ready: "ready_source sample_create_env sample_source ''/b'' ''/b'' ''x'' 32 [''image-1''] ''{}''"
  unfolding ready_source_def Let_def
  using sample_object sample_names sample_entries
  by (simp add: sample_source_def sample_create_env_def sample_archive_env_def media_roots_of_def sample_file_def
      new_manifest_def plain_entry_def sample_backup_manifest_def latestSchemaVersion_def verify_database_def
      maxExpandedBytes_def spaceReserveBytes_def)


lemma sample_created: "\<exists>r. create_backup sample_create_env sample_source ''/b'' = Inr r"
  unfolding create_when_ready [OF sample_undisturbed sample_source_ready]
  by (simp add: maxManifestBytes_def maxArchiveEntries_def publish_backup_def sample_create_env_def Let_def)


theorem accepted_archive_is_manifest_witness:
  "\<exists>r. verify_archive sample_archive_env (whole r) = Inr sample_backup_manifest \<and>
     distinct (map en_name (mf_entries sample_backup_manifest))"
proof -
  let ?ts = "[Member \<lparr>th_name = ''manifest.json'', th_type = TypeReg, th_size = 2\<rparr> [(''{}'', None)],
     Member \<lparr>th_name = ''artwork/objects/image-1'', th_type = TypeReg, th_size = 3\<rparr> [(''ar'', None), (''t'', None)],
     Member \<lparr>th_name = ''database/flixr.db'', th_type = TypeReg, th_size = 2\<rparr> [(''db'', Some EndOfFile)]]"
  have v: "verify_archive sample_archive_env (whole ?ts) = Inr sample_backup_manifest" by code_simp
  from accepted_archive_is_manifest [OF v] v show ?thesis by blast
qed

end
