(* ===== verification/Staging.thy ===== *)
theory Staging
  imports Backups
begin

text \<open>
  Preparing a restore (backend/backup/restore.go): the checks on the target, the space it needs,
  the extraction of the verified archive into the stage, and the changes to the staged
  installation before it is published. What follows, the publication and its recovery, is in the
  theory Restore.
\<close>

section \<open>The target\<close>

datatype target_error =
    TargetNotAbsolute | TargetNotDirectory | TargetUnsafe | TargetNoDatabase

definition managed_items :: "(string \<times> bool) list" where
  "managed_items = [(''flixr.db'', False), (''artwork'', True), (''.playback-segment-dir'', False)]"

text \<open>Lstat of one managed entry: not there, an error, or what it is.\<close>

datatype lstat_result = Absent | LstatFailed | Present file_kind

definition unsafe_entry :: "bool \<Rightarrow> lstat_result \<Rightarrow> bool" where
  "unsafe_entry directory r =
    (case r of Absent \<Rightarrow> False | LstatFailed \<Rightarrow> True
     | Present k \<Rightarrow> k \<noteq> (if directory then Directory else RegularFile))"

fun target_loop :: "(string \<Rightarrow> lstat_result) \<Rightarrow> string \<Rightarrow> bool \<Rightarrow> bool \<Rightarrow> (string \<times> bool) list \<Rightarrow>
    (target_error, bool \<times> bool) result" where
  "target_loop lstat path database managed [] = Inr (database, managed)"
| "target_loop lstat path database managed ((name, directory) # rest) =
    (let r = lstat (join_path [path, name]) in
     if r = Absent then target_loop lstat path database managed rest
     else if unsafe_entry directory r then Inl TargetUnsafe
     else target_loop lstat path (database \<or> name = ''flixr.db'') True rest)"

definition validate_restore_target :: "(string \<Rightarrow> lstat_result) \<Rightarrow> string \<Rightarrow> target_error option" where
  "validate_restore_target lstat path =
    (if \<not> is_abs path then Some TargetNotAbsolute
     else if lstat (clean path) \<noteq> Present Directory then Some TargetNotDirectory
     else (case target_loop lstat path False False managed_items of
         Inl e \<Rightarrow> Some e
       | Inr (database, managed) \<Rightarrow> if managed \<and> \<not> database then Some TargetNoDatabase else None))"

text \<open>The space a restore asks for, or nothing when that is more than is supported.\<close>

fun required_space :: "int \<Rightarrow> archive_entry list \<Rightarrow> int option" where
  "required_space required [] = Some required"
| "required_space required (e # es) =
    (if maxExpandedBytes - en_size e < required then None else required_space (required + en_size e) es)"

section \<open>Extraction\<close>

datatype extract_error =
    NotReopened | ExtractChanged | ManifestChanged | NoStagePath | NotCreatedEntry | StageChanged | StageMissing

record extract_env =
  xe_opens :: bool
  xe_hash :: "string \<Rightarrow> string"
  xe_mkdir :: "string \<Rightarrow> bool"
  xe_create :: "string \<Rightarrow> bool"
  xe_stopped :: "string \<Rightarrow> nat \<Rightarrow> bool"
  xe_sink :: "int \<Rightarrow> string \<Rightarrow> int \<times> bool"
  xe_synced :: "string \<Rightarrow> bool"

definition extract_destination :: "string \<Rightarrow> string \<Rightarrow> string" where
  "extract_destination stage name =
    (if name = database_name then join_path [stage, ''flixr.db'']
     else join_path [stage, ''artwork'', ''objects'', base_name name])"

text \<open>The files the stage holds so far are an association list from paths to contents.\<close>

fun extract_loop :: "extract_env \<Rightarrow> (string, archive_entry) gomap \<Rightarrow> string \<Rightarrow> string list \<Rightarrow> (string, string) gomap \<Rightarrow>
    tar_item list \<Rightarrow> (extract_error, string list \<times> (string, string) gomap) result" where
  "extract_loop env expected stage seen files [] = Inr (seen, files)"
| "extract_loop env expected stage seen files (Corrupt # ts) = Inl ExtractChanged"
| "extract_loop env expected stage seen files (Member h r # ts) =
    (if th_type h \<noteq> TypeReg then Inl ExtractChanged
     else if th_name h = manifestName then
       (if broken_reader r then Inl ManifestChanged else extract_loop env expected stage seen files ts)
     else (case map_of expected (th_name h) of
         None \<Rightarrow> Inl ExtractChanged
       | Some e \<Rightarrow>
          if th_name h \<in> set seen \<or> th_size h \<noteq> en_size e then Inl ExtractChanged
          else (let destination = extract_destination stage (th_name h) in
            if \<not> xe_mkdir env destination then Inl NoStagePath
            else if has_key files destination \<or> \<not> xe_create env destination then Inl NotCreatedEntry
            else (case copy_context (xe_stopped env destination) (xe_sink env) r (th_size h) of
                (written, contents, err) \<Rightarrow>
                  if err \<noteq> None \<or> \<not> xe_synced env destination \<or> written \<noteq> th_size h \<or>
                     xe_hash env contents \<noteq> en_sha256 e then Inl StageChanged
                  else extract_loop env expected stage (th_name h # seen) (files @ [(destination, contents)]) ts))))"

definition expected_entries :: "archive_entry list \<Rightarrow> (string, archive_entry) gomap" where
  "expected_entries es = fold (\<lambda>e m. AList.update (en_name e) e m) es []"

definition extract_archive :: "extract_env \<Rightarrow> string \<Rightarrow> manifest \<Rightarrow> tar_item list \<Rightarrow> (extract_error, (string, string) gomap) result" where
  "extract_archive env stage m ts =
    (let expected = expected_entries (mf_entries m) in
     if \<not> xe_opens env then Inl NotReopened
     else (case extract_loop env expected stage [] [] ts of
         Inl e \<Rightarrow> Inl e
       | Inr (seen, files) \<Rightarrow> if length seen \<noteq> length expected then Inl StageMissing else Inr files))"

section \<open>Where the files of a stage are\<close>

lemma join_path_names:
  assumes "is_abs dir" and "\<forall>n \<in> set ns. path_name n" and "ns \<noteq> []"
  shows "clean_parts True (join_path (dir # ns)) = clean_parts True dir @ ns" and "is_abs (join_path (dir # ns))"
proof -
  have "dir \<noteq> ''''" using assms(1) by (cases dir) (simp_all add: is_abs_def)
  moreover have "\<forall>n \<in> set ns. n \<noteq> ''''" using assms(2) by (simp add: path_name_def)
  ultimately have ne: "filter (\<lambda>p. p \<noteq> '''') (dir # ns) = dir # ns"
    by (intro filter_True) simp
  have jp: "join_path (dir # ns) = clean (dir @ slash # join [slash] ns)"
    unfolding join_path_def Let_def ne using assms(3) by (cases ns) simp_all
  have abs': "is_abs (dir @ slash # join [slash] ns)" using assms(1) by (cases dir) (simp_all add: is_abs_def)
  have free: "\<forall>n \<in> set ns. slash \<notin> set n" using assms(2) by (simp add: path_name_def)
  have parts: "clean_parts True (dir @ slash # join [slash] ns) = clean_parts True dir @ ns"
    using split_at_join [OF assms(3) free] fold_clean_fixed [OF assms(2), of True]
    by (simp add: clean_parts_def split_at_snoc)
  show "is_abs (join_path (dir # ns))" unfolding jp by (rule is_abs_clean [OF abs'])
  have "\<forall>p \<in> set (clean_parts True dir @ ns). path_name p" using assms(2) clean_parts_names by auto
  then show "clean_parts True (join_path (dir # ns)) = clean_parts True dir @ ns"
    by (simp only: jp clean_abs [OF abs'] parts clean_parts_abs_names)
qed

text \<open>The names verification allows: the database, an artwork object, or the one odd name.\<close>

lemma base_name_cases:
  assumes "base_name b = b" and "b \<noteq> ''''" and "b \<noteq> ''.''" and "b \<noteq> ''..''"
  shows "path_name b \<or> b = [slash]"
proof (cases "filter (\<lambda>q. q \<noteq> '''') (split_at slash b)")
  case Nil
  with assms show ?thesis by (simp add: base_name_def)
next
  case (Cons q qs)
  have "last (q # qs) \<in> set (filter (\<lambda>q. q \<noteq> '''') (split_at slash b))"
    unfolding Cons by (rule last_in_set) simp
  then have "last (q # qs) \<in> set (split_at slash b)" by simp
  moreover have "b = last (q # qs)" using assms(1,2) Cons by (simp add: base_name_def)
  ultimately have "slash \<notin> set b" using split_at_free by blast
  with assms show ?thesis by (simp add: path_name_def)
qed

lemma allowed_cases:
  assumes "allowed_archive_entry name"
  shows "name = database_name \<or> (\<exists>n. path_name n \<and> name = artwork_prefix @ n) \<or> name = artwork_prefix @ [slash]"
proof (cases "name = database_name")
  case False
  then have "prefix artwork_prefix name"
    using assms unfolding allowed_archive_entry_def by (metis (full_types))
  then obtain b where b: "name = artwork_prefix @ b" by (rule prefixE)
  have "b \<noteq> '''' \<and> b \<noteq> ''.'' \<and> b \<noteq> ''..'' \<and> base_name b = b"
  proof -
    have "prefix artwork_prefix (artwork_prefix @ b)" by simp
    with assms False show ?thesis
      unfolding allowed_archive_entry_def b trim_prefix_append Let_def by argo
  qed
  with base_name_cases [of b] b show ?thesis by blast
qed simp

lemma object_name_base: "path_name n \<Longrightarrow> base_name (artwork_prefix @ n) = n"
proof -
  assume n: "path_name n"
  have "artwork_prefix @ n = ''artwork/objects'' @ slash # n" by (simp add: artwork_prefix_def slash_def)
  moreover have "split_at slash n = [n]" using n by (simp add: split_at_no path_name_def)
  ultimately have "split_at slash (artwork_prefix @ n) = split_at slash ''artwork/objects'' @ [n]"
    by (simp only: split_at_snoc)
  moreover have "n \<noteq> ''''" using n by (simp add: path_name_def)
  ultimately have "\<exists>ys. filter (\<lambda>q. q \<noteq> '''') (split_at slash (artwork_prefix @ n)) = ys @ [n]" by auto
  then obtain ys where "filter (\<lambda>q. q \<noteq> '''') (split_at slash (artwork_prefix @ n)) = ys @ [n]" ..
  moreover have "artwork_prefix @ n \<noteq> ''''" using \<open>n \<noteq> ''''\<close> by simp
  ultimately show ?thesis unfolding base_name_def by (cases ys) simp_all
qed

lemma odd_name_base: "base_name (artwork_prefix @ [slash]) = ''objects''"
  by code_simp

definition stage_parts :: "string \<Rightarrow> string list" where
  "stage_parts name = (if name = database_name then [''flixr.db''] else [''artwork'', ''objects'', base_name name])"

lemma extract_destination_parts:
  assumes "is_abs stage" and "allowed_archive_entry name"
  shows "clean_parts True (extract_destination stage name) = clean_parts True stage @ stage_parts name"
    and "\<forall>p \<in> set (stage_parts name). path_name p"
proof -
  have lit: "path_name ''flixr.db''" "path_name ''artwork''" "path_name ''objects''"
    by (simp_all add: path_name_def slash_def)
  have b: "path_name (base_name name)" if "name \<noteq> database_name"
    using allowed_cases [OF assms(2)] that object_name_base odd_name_base lit(3) by auto
  then show names: "\<forall>p \<in> set (stage_parts name). path_name p" using lit by (simp add: stage_parts_def)
  show "clean_parts True (extract_destination stage name) = clean_parts True stage @ stage_parts name"
    using names join_path_names [OF assms(1), of "stage_parts name"]
    by (auto simp: extract_destination_def stage_parts_def split: if_splits)
qed


section \<open>What a stage holds\<close>

lemma expected_entries_distinct:
  assumes "distinct (map en_name es)"
  shows "expected_entries es = map (\<lambda>e. (en_name e, e)) es"
proof -
  have "distinct (map en_name es) \<Longrightarrow> \<forall>e \<in> set es. map_of m (en_name e) = None \<Longrightarrow>
      fold (\<lambda>e m. AList.update (en_name e) e m) es m = m @ map (\<lambda>e. (en_name e, e)) es" for m
  proof (induction es arbitrary: m)
    case (Cons e es)
    then have "AList.update (en_name e) e m = m @ [(en_name e, e)]" by (simp add: update_fresh)
    moreover have "\<forall>x \<in> set es. map_of (m @ [(en_name e, e)]) (en_name x) = None"
      using Cons.prems by (auto simp: map_add_def image_iff split: option.splits)
    ultimately show ?case using Cons by simp
  qed simp
  with assms show ?thesis by (simp add: expected_entries_def)
qed

text \<open>What one staged file is, and what a manifest entry asks for.\<close>

definition staged_as :: "(string \<Rightarrow> string) \<Rightarrow> string \<times> string \<Rightarrow> string \<times> int \<times> string" where
  "staged_as hash f = (fst f, int (length (snd f)), hash (snd f))"

definition asked_for :: "string \<Rightarrow> archive_entry \<Rightarrow> string \<times> int \<times> string" where
  "asked_for stage e = (extract_destination stage (en_name e), en_size e, en_sha256 e)"

lemma extract_loop_stages:
  "keyed expected \<Longrightarrow> \<forall>k e. map_of expected k = Some e \<longrightarrow> 0 \<le> en_size e \<Longrightarrow>
   extract_loop env expected stage seen files ts = Inr (seen', files') \<Longrightarrow>
   \<exists>es new. files' = files @ new \<and> map (staged_as (xe_hash env)) new = map (asked_for stage) es \<and>
     seen' = rev (map en_name es) @ seen \<and> distinct (map en_name es) \<and>
     (\<forall>e \<in> set es. map_of expected (en_name e) = Some e \<and> en_name e \<notin> set seen)"
proof (induction env expected stage seen files ts arbitrary: seen' files' rule: extract_loop.induct)
  case (1 env expected stage seen files)
  then show ?case by (intro exI [of _ "[]"]) simp
next
  case (2 env expected stage seen files ts)
  then show ?case by simp
next
  case (3 env expected stage seen files h r ts)
  note run = 3(5) and ih = 3(1,2)
  have reg: "\<not> th_type h \<noteq> TypeReg" using run by (auto split: if_splits)
  show ?case
  proof (cases "th_name h = manifestName")
    case True
    with run reg have "\<not> broken_reader r" "extract_loop env expected stage seen files ts = Inr (seen', files')"
      by (auto split: if_splits)
    with ih(1) [OF reg True] 3(3,4) show ?thesis by blast
  next
    case False
    then obtain e where e: "map_of expected (th_name h) = Some e"
      using run reg by (cases "map_of expected (th_name h)") simp_all
    let ?d = "extract_destination stage (th_name h)"
    have g: "\<not> (th_name h \<in> set seen \<or> th_size h \<noteq> en_size e)" "\<not> \<not> xe_mkdir env ?d"
      "\<not> (has_key files ?d \<or> \<not> xe_create env ?d)"
      using run reg False e by (auto simp: Let_def split: if_splits)
    obtain written contents err where cp: "copy_context (xe_stopped env ?d) (xe_sink env) r (th_size h) = (written, contents, err)"
      by (cases "copy_context (xe_stopped env ?d) (xe_sink env) r (th_size h)")
    have ok: "\<not> (err \<noteq> None \<or> \<not> xe_synced env ?d \<or> written \<noteq> th_size h \<or> xe_hash env contents \<noteq> en_sha256 e)"
      and rest: "extract_loop env expected stage (th_name h # seen) (files @ [(?d, contents)]) ts = Inr (seen', files')"
      using run reg False e g cp by (auto simp: Let_def split: if_splits)
    have nm: "en_name e = th_name h" "0 \<le> th_size h" using 3(3,4) e g by (auto simp: keyed_def)
    from ok have "err = None" by blast
    then have len: "int (length contents) = th_size h"
      using copy_context_sound(3) [OF cp [unfolded \<open>err = None\<close>] nm(2)] by simp
    from ih(2) [OF reg False e g(1) refl g(2,3) cp [symmetric] refl ok 3(3,4) rest]
    obtain es new where es: "files' = (files @ [(?d, contents)]) @ new"
      "map (staged_as (xe_hash env)) new = map (asked_for stage) es"
      "seen' = rev (map en_name es) @ th_name h # seen" "distinct (map en_name es)"
      "\<forall>e \<in> set es. map_of expected (en_name e) = Some e \<and> en_name e \<notin> set (th_name h # seen)" by blast
    show ?thesis
    proof (intro exI [of _ "e # es"] exI [of _ "(?d, contents) # new"] conjI)
      show "map (staged_as (xe_hash env)) ((?d, contents) # new) = map (asked_for stage) (e # es)"
        using es(2) ok len nm g(1) by (simp add: staged_as_def asked_for_def)
    qed (use es e nm g(1) in auto)
  qed
qed

lemma extract_archive_stages:
  assumes "extract_archive env stage m ts = Inr files" and "distinct (map en_name (mf_entries m))"
    and "\<forall>e \<in> set (mf_entries m). 0 \<le> en_size e"
  shows "mset (map (staged_as (xe_hash env)) files) = mset (map (asked_for stage) (mf_entries m))"
proof -
  let ?ex = "map (\<lambda>e. (en_name e, e)) (mf_entries m)"
  have ex: "expected_entries (mf_entries m) = ?ex" using assms(2) by (rule expected_entries_distinct)
  obtain seen where run: "extract_loop env ?ex stage [] [] ts = Inr (seen, files)" and len: "length seen = length ?ex"
    using assms(1) by (auto simp: extract_archive_def ex Let_def split: if_splits sum.splits)
  have pos: "\<forall>k e. map_of ?ex k = Some e \<longrightarrow> 0 \<le> en_size e" using assms(3) by (auto dest!: map_of_SomeD)
  from extract_loop_stages [OF keyed_entries pos run]
  obtain es where es: "map (staged_as (xe_hash env)) files = map (asked_for stage) es"
    "seen = rev (map en_name es)" "distinct (map en_name es)" "\<forall>e \<in> set es. map_of ?ex (en_name e) = Some e"
    by auto
  have "set es \<subseteq> set (mf_entries m)" using es(4) by (auto dest!: map_of_SomeD)
  moreover have "length es = length (mf_entries m)" using es(2) len by simp
  ultimately have "mset es = mset (mf_entries m)" using same_entries assms(2) es(3) by blast
  then show ?thesis unfolding es(1) by (metis mset_map)
qed

text \<open>
  C12: What a restore stages is what was verified: if the manifest came from a verified archive,
  then whatever the archive file holds when it is read again, an extraction that succeeds leaves
  exactly one file for each manifest entry, with its size and SHA-256, at a path inside the stage:
  flixr.db, or a single name below artwork/objects.
\<close>

theorem staged_is_verified:
  assumes "verify_archive venv f = Inr m" and "extract_archive env stage m ts = Inr files" and "is_abs stage"
  shows "mset (map (staged_as (xe_hash env)) files) = mset (map (asked_for stage) (mf_entries m)) \<and>
    (\<forall>(p, contents) \<in> set files.
       clean_parts True p = clean_parts True stage @ [''flixr.db''] \<or>
       (\<exists>n. path_name n \<and> clean_parts True p = clean_parts True stage @ [''artwork'', ''objects'', n]))"
proof -
  note m = verified_manifest [OF assms(1)]
  have ms: "mset (map (staged_as (xe_hash env)) files) = mset (map (asked_for stage) (mf_entries m))"
    by (rule extract_archive_stages [OF assms(2) m(2)]) (use m(1) in \<open>simp add: valid_entry_def\<close>)
  have "clean_parts True p = clean_parts True stage @ [''flixr.db''] \<or>
       (\<exists>n. path_name n \<and> clean_parts True p = clean_parts True stage @ [''artwork'', ''objects'', n])"
    if "(p, contents) \<in> set files" for p contents
  proof -
    from that have "staged_as (xe_hash env) (p, contents) \<in> set (map (staged_as (xe_hash env)) files)" by simp
    then have "staged_as (xe_hash env) (p, contents) \<in> set (map (asked_for stage) (mf_entries m))"
      using ms by (metis set_mset_mset)
    then obtain e where e: "e \<in> set (mf_entries m)" "p = extract_destination stage (en_name e)"
      by (auto simp: staged_as_def asked_for_def)
    then have "allowed_archive_entry (en_name e)" using m(1) by (simp add: valid_entry_def)
    from extract_destination_parts [OF assms(3) this] e(2) show ?thesis
      by (auto simp: stage_parts_def split: if_splits)
  qed
  with ms show ?thesis by blast
qed


section \<open>From a backup to a stage\<close>

definition entry_contents :: "create_env \<Rightarrow> source_entry \<Rightarrow> string" where
  "entry_contents env e = (case ce_inspect env (se_path e) of None \<Rightarrow> [] | Some f \<Rightarrow> file_contents f)"

definition entry_member :: "create_env \<Rightarrow> source_entry \<Rightarrow> tar_item" where
  "entry_member env e =
    Member \<lparr>th_name = en_name e, th_type = TypeReg, th_size = en_size e\<rparr> [(entry_contents env e, None)]"

lemma good_file_length: "good_file f \<Longrightarrow> int (length (file_contents f)) = sf_size f"
  by (auto simp: good_file_def file_contents_def min_def)

lemma write_entries_exact:
  assumes "undisturbed env"
  shows "\<forall>e \<in> set es. \<exists>f. ce_inspect env (se_path e) = Some f \<and> en_size e = sf_size f \<and>
      en_sha256 e = ve_hash (ce_archive env) (file_contents f) \<Longrightarrow>
    write_entries env es = Inr (map (entry_member env) es)"
proof (induction es)
  case Nil
  then show ?case by simp
next
  case (Cons e es)
  then obtain ts where ts: "write_entries env (e # es) = Inr ts" and
    head: "\<exists>f us. ce_inspect env (se_path e) = Some f \<and>
      ts = Member \<lparr>th_name = en_name e, th_type = TypeReg, th_size = en_size e\<rparr> [(file_contents f, None)] # us"
    using write_entries_good [OF assms, of "e # es"] by auto
  from head obtain f us where f: "ce_inspect env (se_path e) = Some f" and
    us: "ts = Member \<lparr>th_name = en_name e, th_type = TypeReg, th_size = en_size e\<rparr> [(file_contents f, None)] # us" by blast
  from Cons have rest: "write_entries env es = Inr (map (entry_member env) es)" by simp
  have "us = map (entry_member env) es"
    using ts rest unfolding us by (auto split: if_splits option.splits prod.splits)
  with ts us f show ?case by (simp add: entry_member_def entry_contents_def)
qed

text \<open>Nothing interferes with an extraction.\<close>

definition calm_extract :: "extract_env \<Rightarrow> bool" where
  "calm_extract env \<longleftrightarrow> xe_opens env \<and> (\<forall>p. xe_mkdir env p) \<and> (\<forall>p. xe_create env p) \<and> (\<forall>p k. \<not> xe_stopped env p k) \<and>
     xe_sink env = take_all \<and> (\<forall>p. xe_synced env p)"

lemma extract_loop_complete:
  assumes "calm_extract xe"
  shows "\<forall>e \<in> set es. map_of expected (en_name e) = Some (plain_entry e) \<and> en_name e \<noteq> manifestName \<and> en_name e \<notin> set seen \<and>
      xe_hash xe (entry_contents env e) = en_sha256 e \<and> int (length (entry_contents env e)) = en_size e \<and>
      map_of files (extract_destination stage (en_name e)) = None \<Longrightarrow>
    distinct (map en_name es) \<Longrightarrow> distinct (map (\<lambda>e. extract_destination stage (en_name e)) es) \<Longrightarrow>
    extract_loop xe expected stage seen files (map (entry_member env) es) =
      Inr (rev (map en_name es) @ seen, files @ map (\<lambda>e. (extract_destination stage (en_name e), entry_contents env e)) es)"
proof (induction es arbitrary: seen files)
  case Nil
  then show ?case by simp
next
  case (Cons e es)
  let ?d = "extract_destination stage (en_name e)" and ?c = "entry_contents env e"
  have e: "map_of expected (en_name e) = Some (plain_entry e)" "en_name e \<noteq> manifestName" "en_name e \<notin> set seen"
    "xe_hash xe ?c = en_sha256 e" "int (length ?c) = en_size e" "map_of files ?d = None" using Cons.prems(1) by auto
  have "copy_context (xe_stopped xe ?d) take_all [(?c, None)] (en_size e) =
      (en_size e, take (nat (en_size e)) (delivered [(?c, None)]), None)"
    by (rule copy_context_complete) (use assms e(5) in \<open>auto simp: calm_extract_def\<close>)
  moreover have "take (nat (en_size e)) ?c = ?c" using e(5) by simp
  ultimately have cp: "copy_context (xe_stopped xe ?d) (xe_sink xe) [(?c, None)] (en_size e) = (en_size e, ?c, None)"
    using assms by (simp add: calm_extract_def)
  have fresh: "\<forall>x \<in> set es. map_of (files @ [(?d, ?c)]) (extract_destination stage (en_name x)) = None"
    using Cons.prems(1,3) by (auto simp: map_add_def image_iff split: option.splits)
  have "extract_loop xe expected stage (en_name e # seen) (files @ [(?d, ?c)]) (map (entry_member env) es) =
      Inr (rev (map en_name es) @ en_name e # seen,
           (files @ [(?d, ?c)]) @ map (\<lambda>e. (extract_destination stage (en_name e), entry_contents env e)) es)"
    by (rule Cons.IH) (use Cons.prems fresh in auto)
  then show ?case
    using e cp assms by (simp add: entry_member_def [of env e] has_key_def Let_def calm_extract_def)
qed

lemma stage_destination_inj:
  assumes "is_abs stage" and "\<forall>n \<in> set names. path_name n" and "distinct names"
  shows "distinct (map (extract_destination stage) (database_name # map (\<lambda>n. artwork_prefix @ n) names))"
proof -
  have dba: "allowed_archive_entry database_name" by (simp add: allowed_archive_entry_def)
  have p: "clean_parts True (extract_destination stage (artwork_prefix @ n)) = clean_parts True stage @ [''artwork'', ''objects'', n]"
    if "path_name n" for n
    using extract_destination_parts(1) [OF assms(1) allowed_object [OF that]] object_name_base [OF that] object_not_special(1)
    by (simp add: stage_parts_def)
  have d: "clean_parts True (extract_destination stage database_name) = clean_parts True stage @ [''flixr.db'']"
    using extract_destination_parts(1) [OF assms(1) dba] by (simp add: stage_parts_def)
  have "inj_on (\<lambda>n. extract_destination stage (artwork_prefix @ n)) (set names)"
  proof (rule inj_onI)
    fix a b
    assume ab: "a \<in> set names" "b \<in> set names"
      "extract_destination stage (artwork_prefix @ a) = extract_destination stage (artwork_prefix @ b)"
    then have "clean_parts True stage @ [''artwork'', ''objects'', a] = clean_parts True stage @ [''artwork'', ''objects'', b]"
      using p [of a] p [of b] assms(2) by metis
    then show "a = b" by simp
  qed
  moreover have "extract_destination stage database_name \<noteq> extract_destination stage (artwork_prefix @ n)" if "n \<in> set names" for n
  proof
    assume "extract_destination stage database_name = extract_destination stage (artwork_prefix @ n)"
    then have "clean_parts True stage @ [''flixr.db''] = clean_parts True stage @ [''artwork'', ''objects'', n]"
      using p [of n] d that assms(2) by metis
    then show False by simp
  qed
  ultimately show ?thesis using assms(3) by (auto simp: distinct_map comp_def inj_on_def image_iff)
qed


lemma all_entries_names:
  assumes "ce_inspect env snapshot = Some f"
    and "\<forall>n \<in> set names. path_name n \<and> ce_inspect env (object_path data_dir n) \<noteq> None"
  shows "map en_name (all_entries env snapshot data_dir names) = database_name # map (\<lambda>n. artwork_prefix @ n) names"
  using assms by (auto simp: all_entries_def file_entry_def object_entry_def)

lemma object_entry_contents:
  "ce_inspect env (object_path data_dir n) = Some f \<Longrightarrow> entry_contents env (object_entry env data_dir n) = file_contents f"
  by (simp add: entry_contents_def object_entry_def file_entry_def)

text \<open>
  C33: What a backup took is what a restore stages: when nothing interferes with the making of a
  small enough backup or with the extraction, the archive that was written extracts, and the stage
  holds the snapshot's bytes as flixr.db and, for every artwork object the snapshot references,
  the object's bytes under its own name.
\<close>

theorem backup_then_stage:
  assumes u: "undisturbed env" and r: "ready_source env source destination dir name version names text'"
    and small: "length names < 10000" "length text' \<le> 2 ^ 20"
    and st: "is_abs stage" and calm: "calm_extract xe" and hash: "xe_hash xe = ve_hash (ce_archive env)"
  shows "\<exists>b f ts files. create_backup env source destination = Inr b \<and>
    ce_inspect env (snapshot_path dir name) = Some f \<and>
    write_archive env (br_manifest b) (all_entries env (snapshot_path dir name) (bs_data_dir source) names) = Inr ts \<and>
    extract_archive xe stage (br_manifest b) ts = Inr files \<and>
    map_of files (join_path [stage, ''flixr.db'']) = Some (file_contents f) \<and>
    (\<forall>n \<in> set names. \<forall>g. ce_inspect env (object_path (bs_data_dir source) n) = Some g \<longrightarrow>
       map_of files (join_path [stage, ''artwork'', ''objects'', n]) = Some (file_contents g))"
proof -
  define es where "es = all_entries env (snapshot_path dir name) (bs_data_dir source) names"
  define m where "m = new_manifest (bs_app_version source) version (ce_now env) es"
  note all = r [unfolded ready_source_def Let_def, folded es_def, folded m_def]
  from all have v: "1 \<le> version" "version \<le> latestSchemaVersion" and
    objs: "\<forall>n \<in> set names. path_name n \<and> ce_inspect env (object_path (bs_data_dir source) n) \<noteq> None"
    and sz: "entries_size (map plain_entry es) \<le> maxExpandedBytes" and js: "ce_marshal env m = Inr text'" by simp_all
  from all have dn: "distinct names" using object_names_distinct by blast
  from all obtain f where snap: "ce_inspect env (snapshot_path dir name) = Some f" by blast
  note sound = all_entries_sound [OF u snap objs dn v es_def sz]
  have made: "\<exists>b. create_backup env source destination = Inr b \<and> br_manifest b = m"
  proof -
    have "\<exists>b. publish_backup env dir name m m = Inr b \<and> br_manifest b = m"
      using u all by (auto simp: publish_backup_def undisturbed_def)
    then show ?thesis
      using create_when_ready [OF u r, folded es_def, folded m_def] small
      by (simp add: maxManifestBytes_def maxArchiveEntries_def)
  qed
  have we: "write_entries env es = Inr (map (entry_member env) es)" by (rule write_entries_exact [OF u sound(3)])
  let ?head = "Member \<lparr>th_name = manifestName, th_type = TypeReg, th_size = int (length text')\<rparr> [(text', None)]"
  have wr: "write_archive env m es = Inr (?head # map (entry_member env) es)"
    using u we js by (simp add: write_archive_def undisturbed_def)
  have nm: "map en_name es = database_name # map (\<lambda>n. artwork_prefix @ n) names"
    unfolding es_def by (rule all_entries_names [OF snap objs])
  have sm: "sound_manifest m" unfolding m_def by (rule sound(1))
  have me: "mf_entries m = map plain_entry es" by (simp add: m_def new_manifest_def)
  have mn: "map en_name (mf_entries m) = map en_name es" by (simp add: me)
  let ?ex = "map (\<lambda>e. (en_name e, e)) (mf_entries m)"
  have ex: "expected_entries (mf_entries m) = ?ex"
    using sm by (intro expected_entries_distinct) (simp add: sound_manifest_def)
  have look: "map_of ?ex (en_name e) = Some (plain_entry e) \<and> en_name e \<noteq> manifestName \<and> en_name e \<notin> set [] \<and>
      xe_hash xe (entry_contents env e) = en_sha256 e \<and> int (length (entry_contents env e)) = en_size e \<and>
      map_of [] (extract_destination stage (en_name e)) = (None :: string option)" if e: "e \<in> set es" for e
  proof -
    have "map_of ?ex (en_name (plain_entry e)) = Some (plain_entry e)"
      using sm e by (intro map_of_entries) (auto simp: sound_manifest_def me)
    moreover have "en_name e \<noteq> manifestName"
    proof -
      have "en_name e \<in> set (map en_name es)" using e by simp
      then show ?thesis unfolding nm using special_differ object_not_special(2) by auto
    qed
    moreover obtain g where g: "ce_inspect env (se_path e) = Some g" "en_size e = sf_size g"
      "en_sha256 e = ve_hash (ce_archive env) (file_contents g)" using sound(3) e by blast
    moreover have "int (length (file_contents g)) = sf_size g"
      by (rule good_file_length) (use u g(1) in \<open>simp add: undisturbed_def\<close>)
    ultimately show ?thesis by (simp add: hash entry_contents_def)
  qed
  have dd: "map (\<lambda>e. extract_destination stage (en_name e)) es =
      map (extract_destination stage) (database_name # map (\<lambda>n. artwork_prefix @ n) names)"
    unfolding nm [symmetric] by simp
  have inj: "distinct (map (\<lambda>e. extract_destination stage (en_name e)) es)"
    unfolding dd using stage_destination_inj [OF st _ dn] objs by blast
  have des: "distinct (map en_name es)" using sm mn by (simp add: sound_manifest_def)
  let ?files = "map (\<lambda>e. (extract_destination stage (en_name e), entry_contents env e)) es"
  have xl: "extract_loop xe ?ex stage [] [] (map (entry_member env) es) = Inr (rev (map en_name es) @ [], [] @ ?files)"
    by (rule extract_loop_complete [OF calm _ des inj]) (use look in blast)
  have xa: "extract_archive xe stage m (?head # map (entry_member env) es) = Inr ?files"
    using xl calm by (simp add: extract_archive_def ex Let_def broken_reader_def calm_extract_def) (simp add: me)
  have at: "map_of ?files (extract_destination stage (en_name e)) = Some (entry_contents env e)" if "e \<in> set es" for e
    using inj that by (intro map_of_is_SomeI) (simp_all add: comp_def)
  have "map_of ?files (join_path [stage, ''flixr.db'']) = Some (file_contents f)"
    using at [of "file_entry (ve_hash (ce_archive env)) (ce_inspect env) database_name (snapshot_path dir name)"] snap
    by (simp add: es_def all_entries_def file_entry_def entry_contents_def extract_destination_def)
  moreover have "map_of ?files (join_path [stage, ''artwork'', ''objects'', n]) = Some (file_contents g)"
    if n: "n \<in> set names" "ce_inspect env (object_path (bs_data_dir source) n) = Some g" for n g
  proof -
    let ?e = "object_entry env (bs_data_dir source) n"
    have "en_name ?e = artwork_prefix @ n" using n(2) by (simp add: object_entry_def file_entry_def)
    moreover have "?e \<in> set es" using n(1) by (simp add: es_def all_entries_def)
    moreover have "extract_destination stage (artwork_prefix @ n) = join_path [stage, ''artwork'', ''objects'', n]"
      using objs n(1) object_name_base [of n] object_not_special(1) by (simp add: extract_destination_def)
    ultimately show ?thesis using at [of ?e] object_entry_contents [OF n(2)] by simp
  qed
  ultimately show ?thesis
    using made snap wr xa unfolding es_def [symmetric] by blast
qed


definition sample_extract :: extract_env where
  "sample_extract = \<lparr>xe_opens = True, xe_hash = (\<lambda>_. sample_hash), xe_mkdir = (\<lambda>_. True), xe_create = (\<lambda>_. True),
     xe_stopped = (\<lambda>_ _. False), xe_sink = take_all, xe_synced = (\<lambda>_. True)\<rparr>"

theorem backup_then_stage_witness:
  "\<exists>b ts files. create_backup sample_create_env sample_source ''/b'' = Inr b \<and>
     extract_archive sample_extract ''/t/s'' (br_manifest b) ts = Inr files \<and>
     map_of files ''/t/s/flixr.db'' = Some ''db'' \<and> map_of files ''/t/s/artwork/objects/image-1'' = Some ''art''"
proof -
  have calm: "calm_extract sample_extract" "xe_hash sample_extract = ve_hash (ce_archive sample_create_env)"
    by (simp_all add: calm_extract_def sample_extract_def sample_create_env_def sample_archive_env_def)
  have paths: "join_path [''/t/s'', ''flixr.db''] = ''/t/s/flixr.db''"
    "join_path [''/t/s'', ''artwork'', ''objects'', ''image-1''] = ''/t/s/artwork/objects/image-1''" "is_abs ''/t/s''"
    by code_simp+
  have files: "ce_inspect sample_create_env (object_path ''/data'' ''image-1'') = Some (sample_file ''art'')"
    "ce_inspect sample_create_env (snapshot_path ''/b'' ''x'') = Some (sample_file ''db'')"
    "file_contents (sample_file ''art'') = ''art''" "file_contents (sample_file ''db'') = ''db''"
    "bs_data_dir sample_source = ''/data''"
    unfolding sample_object by (simp_all add: sample_create_env_def sample_file_def file_contents_def sample_source_def)
  have small: "length [''image-1''] < 10000" "length ''{}'' \<le> 2 ^ 20" by simp_all
  from backup_then_stage [OF sample_undisturbed sample_source_ready small paths(3) calm] show ?thesis
    unfolding files(5) files(2) by (auto simp: files paths)
qed

theorem staged_is_verified_witness:
  "\<exists>f ts files. verify_archive sample_archive_env f = Inr sample_backup_manifest \<and>
     extract_archive sample_extract ''/t/s'' sample_backup_manifest ts = Inr files \<and>
     mset (map (staged_as (\<lambda>_. sample_hash)) files) = mset (map (asked_for ''/t/s'') (mf_entries sample_backup_manifest))"
proof -
  let ?ts = "[Member \<lparr>th_name = ''manifest.json'', th_type = TypeReg, th_size = 2\<rparr> [(''{}'', None)],
     Member \<lparr>th_name = ''artwork/objects/image-1'', th_type = TypeReg, th_size = 3\<rparr> [(''ar'', None), (''t'', None)],
     Member \<lparr>th_name = ''database/flixr.db'', th_type = TypeReg, th_size = 2\<rparr> [(''db'', Some EndOfFile)]]"
  have v: "verify_archive sample_archive_env (whole ?ts) = Inr sample_backup_manifest" by code_simp
  have x: "extract_archive sample_extract ''/t/s'' sample_backup_manifest ?ts =
      Inr [(''/t/s/artwork/objects/image-1'', ''art''), (''/t/s/flixr.db'', ''db'')]" by code_simp
  have a: "is_abs ''/t/s''" by code_simp
  have h: "xe_hash sample_extract = (\<lambda>_. sample_hash)" by (simp add: sample_extract_def)
  from staged_is_verified [OF v x a] v x h show ?thesis by (metis (no_types, lifting))
qed

end
