(* ===== verification/BackupErrors.thy ===== *)
theory BackupErrors
  imports Backups
begin

text \<open>
  What a failed backup tells the owner (backend/backup/manager.go, \<open>backupFailureMessage\<close>): the
  texts of the errors of verify.go and archive.go, which of them are the cancellation of the
  context, and the message chosen from the text.
\<close>

fun verify_error_text :: "verify_error \<Rightarrow> string" where
  "verify_error_text NotRegular = ''backup archive must be a regular file''"
| "verify_error_text NotOpened = ''backup archive cannot be opened''"
| "verify_error_text NotCompressed = ''backup archive compression is invalid''"
| "verify_error_text NoManifest = ''backup manifest is missing or invalid''"
| "verify_error_text BadManifest = ''backup manifest version or contents are unsupported''"
| "verify_error_text TrailingData = ''backup manifest contains trailing data''"
| "verify_error_text InvalidEntry = ''backup manifest contains an invalid entry''"
| "verify_error_text DuplicateEntry = ''backup manifest contains duplicate entries''"
| "verify_error_text TooLarge = ''backup expands beyond the supported size''"
| "verify_error_text NotStaged = ''cannot stage backup verification''"
| "verify_error_text TooMany = ''backup archive contains too many entries''"
| "verify_error_text Stopped = ''context canceled''"
| "verify_error_text Truncated = ''backup archive is truncated or corrupt''"
| "verify_error_text UnsafeEntry = ''backup archive contains an unsafe or duplicate entry''"
| "verify_error_text Mismatch = ''backup archive does not match its manifest''"
| "verify_error_text ChecksumFailed = ''backup archive checksum verification failed''"
| "verify_error_text MissingEntry = ''backup archive is missing a manifested entry''"
| "verify_error_text DatabaseNotOpened = ''backup database cannot be opened''"
| "verify_error_text NoIntegrity = ''backup database failed integrity verification''"
| "verify_error_text NoForeignKeys = ''backup database failed foreign-key verification''"
| "verify_error_text SchemaMismatch = ''backup database schema does not match its manifest''"

fun dest_error_text :: "dest_error \<Rightarrow> string" where
  "dest_error_text DestNotAbsolute = ''backup destination must be an absolute path''"
| "dest_error_text DestNotDirectory = ''backup destination must be an existing directory, not a symlink''"
| "dest_error_text DestOverlaps = ''backup destination must be outside Flixr data, media, and playback cache paths''"
| "dest_error_text DestNotReadable = ''backup destination is not readable''"
| "dest_error_text DestNotWritable = ''backup destination is not writable''"
| "dest_error_text DestNotSynchronized = ''backup destination cannot be synchronized''"
| "dest_error_text DestNotOwned = ''backup destination is not empty or marked as Flixr-owned''"

fun inspect_error_text :: "string \<Rightarrow> inspect_error \<Rightarrow> string" where
  "inspect_error_text os EntryNotRegular = ''backup source entry is not a regular file''"
| "inspect_error_text os EntryNotOpened = os"
| "inspect_error_text os (EntryNotRead e) = (if e = Cancelled then ''context canceled'' else os)"

text \<open>\<open>os\<close> is the text of the operating system where the code passes one on that is not kept.\<close>

fun create_error_text :: "string \<Rightarrow> create_error \<Rightarrow> string" where
  "create_error_text os SourceIncomplete = ''backup source is incomplete''"
| "create_error_text os MediaRootsUnknown = ''media roots cannot be checked for backup confinement''"
| "create_error_text os (BadDestination e) = dest_error_text e"
| "create_error_text os NoBackupId = ''create backup id: '' @ os"
| "create_error_text os (SnapshotFailed e) = ''snapshot sqlite: '' @ oe_text e"
| "create_error_text os (DatabaseEntry e) = ''inspect sqlite snapshot: '' @ inspect_error_text os e"
| "create_error_text os (SnapshotNotOpened e) = ''open sqlite snapshot: '' @ oe_text e"
| "create_error_text os (SchemaUnread e) = ''read snapshot schema: '' @ oe_text e"
| "create_error_text os (ArtworkUnread e) = ''read snapshot artwork references: '' @ oe_text e"
| "create_error_text os InvalidObjectName = ''snapshot contains an invalid artwork object name''"
| "create_error_text os CreateCancelled = ''context canceled''"
| "create_error_text os ObjectGone = ''a referenced artwork object became unavailable''"
| "create_error_text os ContentsTooLarge = ''backup contents exceed the supported size''"
| "create_error_text os (SpaceUnknown e) = ''check backup destination space: '' @ oe_text e"
| "create_error_text os NoSpace = ''backup destination does not have enough available space''"
| "create_error_text os (PartialNotCreated e) = ''create backup partial: '' @ oe_text e"
| "create_error_text os (EncodeFailed e) = oe_text e"
| "create_error_text os (TarFailed e) = oe_text e"
| "create_error_text os EntryGone = ''a backup source entry became unavailable''"
| "create_error_text os EntryChanged = ''a backup source entry changed while it was being archived''"
| "create_error_text os (NotFinished e) = oe_text e"
| "create_error_text os (VerifyFailed e) = ''verify new backup: '' @ verify_error_text e"
| "create_error_text os ManifestDiffers = ''new backup verification did not match its manifest''"
| "create_error_text os (NotPublished e) = ''publish verified backup: '' @ oe_text e"
| "create_error_text os (NotSyncedDir e) = ''sync backup destination: '' @ oe_text e"
| "create_error_text os (NotInspected e) = ''inspect published backup: '' @ oe_text e"

text \<open>\<open>errors.Is(err, context.Canceled)\<close>: only an error that is passed on keeps what it was.\<close>

fun create_cancelled :: "create_error \<Rightarrow> bool" where
  "create_cancelled (SnapshotFailed e) = oe_cancelled e"
| "create_cancelled (DatabaseEntry e) = (e = EntryNotRead Cancelled)"
| "create_cancelled (SnapshotNotOpened e) = oe_cancelled e"
| "create_cancelled (SchemaUnread e) = oe_cancelled e"
| "create_cancelled (ArtworkUnread e) = oe_cancelled e"
| "create_cancelled CreateCancelled = True"
| "create_cancelled (SpaceUnknown e) = oe_cancelled e"
| "create_cancelled (PartialNotCreated e) = oe_cancelled e"
| "create_cancelled (EncodeFailed e) = oe_cancelled e"
| "create_cancelled (TarFailed e) = oe_cancelled e"
| "create_cancelled (NotFinished e) = oe_cancelled e"
| "create_cancelled (VerifyFailed e) = (e = Stopped)"
| "create_cancelled (NotPublished e) = oe_cancelled e"
| "create_cancelled (NotSyncedDir e) = oe_cancelled e"
| "create_cancelled (NotInspected e) = oe_cancelled e"
| "create_cancelled _ = False"

definition backup_failure_message :: "string \<Rightarrow> string" where
  "backup_failure_message err =
    (let s = to_lower err in
     if contains s ''space'' then ''Backup destination does not have enough available space.''
     else if contains s ''destination'' then ''Backup destination is unavailable or not authorized.''
     else if contains s ''artwork'' then ''Referenced artwork changed during backup; retry the backup.''
     else if contains s ''verify'' \<or> contains s ''checksum'' \<or> contains s ''integrity''
       then ''Backup verification failed; the previous verified backup was kept.''
     else ''Backup failed before verification; check storage access and retry.'')"

text \<open>The status and the message that a run records.\<close>

definition run_outcome :: "bool \<Rightarrow> string \<Rightarrow> (create_error, 'a) result \<Rightarrow> string \<times> string" where
  "run_outcome shutting os r =
    (case r of
       Inr _ \<Rightarrow> (''succeeded'', '''')
     | Inl e \<Rightarrow>
        if \<not> create_cancelled e then (''failed'', backup_failure_message (create_error_text os e))
        else if shutting then (''interrupted'', ''Interrupted by server shutdown.'')
        else (''cancelled'', ''Cancelled by owner.''))"

end
