(* ===== verification/BackupJobs.thy ===== *)
theory BackupJobs
  imports BackupErrors "HOL-Library.Product_Lexorder"
begin

text \<open>
  The backup manager (backend/backup/manager.go): its policy and jobs, kept in two tables, and the
  loop that runs one job at a time while requests arrive. One step is one statement or
  transaction on the database, or one critical section of the manager's mutex, so the handlers
  and the loop interleave as they do in the server. Statements that break a constraint of the
  tables fail; other failures of the database are not modelled.
\<close>

section \<open>The policy\<close>

record backup_policy =
  bp_enabled :: bool
  bp_destination :: string
  bp_schedule_kind :: string
  bp_interval_seconds :: int
  bp_local_time :: string
  bp_timezone :: string
  bp_retain_count :: int
  bp_retain_age_seconds :: int
  bp_budget_bytes :: int
  bp_next_run_at :: int
  bp_last_verified_at :: int
  bp_last_verified_file :: string
  bp_last_status :: string
  bp_last_message :: string

datatype policy_error =
    PolicyNotAbsolute | PolicyNoDestination | PolicyKind | PolicyInterval | PolicyTime | PolicyZone
  | PolicyRetention | PolicySchedule | PolicyDestination dest_error | PolicyRefused

definition validate_policy :: "(string \<Rightarrow> location option) \<Rightarrow> backup_policy \<Rightarrow> policy_error option" where
  "validate_policy zones p =
    (if bp_destination p \<noteq> '''' \<and> \<not> is_abs (bp_destination p) then Some PolicyNotAbsolute
     else if bp_enabled p \<and> bp_destination p = '''' then Some PolicyNoDestination
     else if bp_schedule_kind p \<noteq> ''interval'' \<and> bp_schedule_kind p \<noteq> ''daily'' then Some PolicyKind
     else if bp_interval_seconds p < 3600 \<or> 31536000 < bp_interval_seconds p then Some PolicyInterval
     else if parse_clock (bp_local_time p) = None then Some PolicyTime
     else if zones (bp_timezone p) = None then Some PolicyZone
     else if bp_retain_count p < 1 \<or> 100 < bp_retain_count p \<or> bp_retain_age_seconds p < 86400 \<or>
       bp_budget_bytes p < 1048576 then Some PolicyRetention
     else None)"

text \<open>The constraints of the table (migration 029).\<close>

definition policy_checks :: "backup_policy \<Rightarrow> bool" where
  "policy_checks p \<longleftrightarrow> bp_schedule_kind p \<in> {''interval'', ''daily''} \<and>
     3600 \<le> bp_interval_seconds p \<and> bp_interval_seconds p \<le> 31536000 \<and>
     1 \<le> bp_retain_count p \<and> bp_retain_count p \<le> 100 \<and>
     86400 \<le> bp_retain_age_seconds p \<and> bp_retain_age_seconds p \<le> 315360000 \<and>
     1048576 \<le> bp_budget_bytes p \<and> bp_budget_bytes p \<le> 1099511627776 \<and>
     bp_last_status p \<in> {''never'', ''succeeded'', ''failed'', ''cancelled'', ''interrupted''}"

text \<open>A schedule from the environment; parsing a duration is an argument.\<close>

definition apply_schedule :: "(string \<Rightarrow> location option) \<Rightarrow> (string \<Rightarrow> int option) \<Rightarrow> backup_policy \<Rightarrow> string \<Rightarrow>
    (policy_error, backup_policy) result" where
  "apply_schedule zones parse_duration p spec =
    (let checked = (\<lambda>q. case validate_policy zones q of Some e \<Rightarrow> Inl e | None \<Rightarrow> Inr q) in
     if spec = '''' then Inr p
     else if spec = ''off'' then checked (p\<lparr>bp_enabled := False\<rparr>)
     else if prefix ''every:'' spec then
       (case parse_duration (trim_prefix spec ''every:'') of
          None \<Rightarrow> Inl PolicySchedule
        | Some d \<Rightarrow> checked (p\<lparr>bp_enabled := True, bp_schedule_kind := ''interval'',
            bp_interval_seconds := go_div d 1000000000\<rparr>))
     else if prefix ''daily:'' spec then
       (case split_str2 ''@'' (trim_prefix spec ''daily:'') of
          [t, z] \<Rightarrow> checked (p\<lparr>bp_enabled := True, bp_schedule_kind := ''daily'', bp_local_time := t, bp_timezone := z\<rparr>)
        | _ \<Rightarrow> Inl PolicySchedule)
     else Inl PolicySchedule)"

text \<open>The fields of \<open>target\<close> whose settings are locked are those of \<open>source\<close>.\<close>

definition apply_locked :: "backup_policy \<Rightarrow> backup_policy \<Rightarrow> string list \<Rightarrow> backup_policy" where
  "apply_locked target source locked =
    (let t1 = (if ''backup.destination'' \<in> set locked then target\<lparr>bp_destination := bp_destination source\<rparr> else target);
         t2 = (if ''backup.schedule'' \<in> set locked
           then t1\<lparr>bp_enabled := bp_enabled source, bp_schedule_kind := bp_schedule_kind source,
                   bp_interval_seconds := bp_interval_seconds source, bp_local_time := bp_local_time source,
                   bp_timezone := bp_timezone source\<rparr> else t1);
         t3 = (if ''backup.retain_count'' \<in> set locked then t2\<lparr>bp_retain_count := bp_retain_count source\<rparr> else t2);
         t4 = (if ''backup.retain_age'' \<in> set locked
           then t3\<lparr>bp_retain_age_seconds := bp_retain_age_seconds source\<rparr> else t3)
     in if ''backup.budget_bytes'' \<in> set locked then t4\<lparr>bp_budget_bytes := bp_budget_bytes source\<rparr> else t4)"

definition second_ns :: int where "second_ns = 1000000000"

text \<open>\<open>nextRun\<close> in Unix seconds; no value when the loop of the schedule would not return.\<close>

definition next_backup :: "(string \<Rightarrow> location option) \<Rightarrow> int \<Rightarrow> backup_policy \<Rightarrow> int option" where
  "next_backup zones now p =
    map_option (\<lambda>t. t div second_ns)
      (next_run now (bp_schedule_kind p) (wrap64 (bp_interval_seconds p * second_ns))
        (if bp_next_run_at p = 0 then None else Some (bp_next_run_at p * second_ns))
        (bp_local_time p) (zones (bp_timezone p)) (3600 * second_ns))"

section \<open>The manager\<close>

record backup_job =
  bj_id :: string
  bj_trigger :: string
  bj_status :: string
  bj_queued_at :: int
  bj_started_at :: int
  bj_finished_at :: int
  bj_archive_name :: string
  bj_size_bytes :: int
  bj_message :: string
  bj_cancel_requested :: bool

text \<open>Where the loop is, with its local variables; a run is numbered, its number is its context.\<close>

datatype run_phase =
    Idle
  | Queueing backup_policy int
  | Rescheduling backup_policy int
  | Choosing
  | Selected string nat
  | Claimed string nat
  | Creating string nat backup_policy
  | Ended string nat backup_policy "(create_error, backup_result) result" string int
  | Rotating nat backup_policy backup_result int
  | Failing nat string string
  | Stuck

record backup_manager =
  bm_policy :: backup_policy
  bm_jobs :: "backup_job list"
  bm_override :: "(backup_policy \<times> string list) option"
  bm_phase :: run_phase
  bm_runs :: nat
  bm_cancel :: "nat option"
  bm_cancelled :: "nat list"
  bm_signals :: nat
  bm_stopping :: bool

definition active :: "backup_job \<Rightarrow> bool" where
  "active j \<longleftrightarrow> bj_status j = ''queued'' \<or> bj_status j = ''running''"

definition with_status :: "string \<Rightarrow> backup_job list \<Rightarrow> backup_job list" where
  "with_status st js = filter (\<lambda>j. bj_status j = st) js"

definition update_job :: "string \<Rightarrow> (backup_job \<Rightarrow> backup_job) \<Rightarrow> backup_job list \<Rightarrow> backup_job list" where
  "update_job i f js = map (\<lambda>j. if bj_id j = i then f j else j) js"

definition find_job :: "string \<Rightarrow> backup_job list \<Rightarrow> backup_job option" where
  "find_job i js = find (\<lambda>j. bj_id j = i) js"

text \<open>The policy in force: the stored one under the locked fields of the override.\<close>

definition effective_policy :: "backup_manager \<Rightarrow> backup_policy" where
  "effective_policy m =
    (case bm_override m of None \<Rightarrow> bm_policy m | Some (p, locked) \<Rightarrow> apply_locked (bm_policy m) p locked)"

text \<open>\<open>NewManager\<close> over the tables of the last run of the server.\<close>

definition interrupt :: "int \<Rightarrow> backup_job \<Rightarrow> backup_job" where
  "interrupt now j =
    (if active j then j\<lparr>bj_status := ''interrupted'', bj_finished_at := now, bj_message := ''Interrupted by server restart.''\<rparr>
     else j)"

definition new_backup_manager :: "int \<Rightarrow> backup_policy \<Rightarrow> backup_job list \<Rightarrow> backup_manager" where
  "new_backup_manager now p js =
    \<lparr>bm_policy = (if list_ex active js then p\<lparr>bp_last_status := ''interrupted'',
         bp_last_message := ''A backup was interrupted by server restart.''\<rparr> else p),
     bm_jobs = map (interrupt now) js, bm_override = None, bm_phase = Idle, bm_runs = 0, bm_cancel = None,
     bm_cancelled = [], bm_signals = 0, bm_stopping = False\<rparr>"

datatype job_error =
    BadTrigger | NoDestination | NoJobId | AlreadyQueued | NoSuchJob

text \<open>The insertion of a queued job: the identifier is a key, and one job at most is queued.\<close>

definition insert_job :: "string \<Rightarrow> string \<Rightarrow> int \<Rightarrow> backup_job list \<Rightarrow> backup_job list option" where
  "insert_job i trigger now js =
    (if find_job i js \<noteq> None \<or> with_status ''queued'' js \<noteq> [] then None
     else Some (js @ [\<lparr>bj_id = i, bj_trigger = trigger, bj_status = ''queued'', bj_queued_at = now, bj_started_at = 0,
       bj_finished_at = 0, bj_archive_name = '''', bj_size_bytes = 0, bj_message = '''', bj_cancel_requested = False\<rparr>]))"

definition queue_backup :: "string \<Rightarrow> string option \<Rightarrow> int \<Rightarrow> backup_manager \<Rightarrow>
    backup_manager \<times> (job_error, string) result" where
  "queue_backup trigger i now m =
    (if trigger \<noteq> ''manual'' \<and> trigger \<noteq> ''schedule'' then (m, Inl BadTrigger)
     else if bp_destination (effective_policy m) = '''' then (m, Inl NoDestination)
     else (case i of None \<Rightarrow> (m, Inl NoJobId)
       | Some i \<Rightarrow>
          (case insert_job i trigger now (bm_jobs m) of
             None \<Rightarrow> (m, Inl AlreadyQueued)
           | Some js \<Rightarrow> (m\<lparr>bm_jobs := js\<rparr>, Inr i))))"

text \<open>
  \<open>Cancel\<close>: the transaction, which answers whether the job was running; then, for one that was,
  the call of whatever cancel function the manager holds by then.
\<close>

definition cancel_row :: "int \<Rightarrow> backup_job \<Rightarrow> backup_job" where
  "cancel_row now j =
    (if bj_status j = ''queued''
     then j\<lparr>bj_cancel_requested := True, bj_status := ''cancelled'', bj_finished_at := now, bj_message := ''Cancelled by owner.''\<rparr>
     else j\<lparr>bj_cancel_requested := True\<rparr>)"

definition cancel_tx :: "string \<Rightarrow> int \<Rightarrow> backup_manager \<Rightarrow> backup_manager \<times> (job_error, bool) result" where
  "cancel_tx i now m =
    (case find_job i (bm_jobs m) of
       None \<Rightarrow> (m, Inl NoSuchJob)
     | Some j \<Rightarrow>
        if \<not> active j then (m, Inl NoSuchJob)
        else (m\<lparr>bm_jobs := update_job i (cancel_row now) (bm_jobs m),
                bm_signals := bm_signals m + (if bj_status j = ''running'' then 1 else 0)\<rparr>,
              Inr (bj_status j = ''running'')))"

definition cancel_signal :: "backup_manager \<Rightarrow> backup_manager" where
  "cancel_signal m =
    (if bm_signals m = 0 then m
     else m\<lparr>bm_signals := bm_signals m - 1,
            bm_cancelled := (case bm_cancel m of None \<Rightarrow> bm_cancelled m | Some n \<Rightarrow> n # bm_cancelled m)\<rparr>)"

definition shutdown_backups :: "backup_manager \<Rightarrow> backup_manager" where
  "shutdown_backups m =
    m\<lparr>bm_stopping := True,
      bm_cancelled := (case bm_cancel m of None \<Rightarrow> bm_cancelled m | Some n \<Rightarrow> n # bm_cancelled m)\<rparr>"

text \<open>
  \<open>SetPolicy\<close>: the locked fields keep what is stored, the effective policy takes them from the
  override. Nothing is returned when the schedule's loop does not end.
\<close>

definition merged_policy :: "backup_manager \<Rightarrow> backup_policy \<Rightarrow> backup_policy" where
  "merged_policy m p = (case bm_override m of None \<Rightarrow> p | Some (_, locked) \<Rightarrow> apply_locked p (bm_policy m) locked)"

definition requested_policy :: "backup_manager \<Rightarrow> backup_policy \<Rightarrow> backup_policy" where
  "requested_policy m p =
    (case bm_override m of None \<Rightarrow> merged_policy m p | Some (over, locked) \<Rightarrow> apply_locked (merged_policy m p) over locked)"

definition policy_row :: "backup_policy \<Rightarrow> backup_policy \<Rightarrow> int \<Rightarrow> backup_policy" where
  "policy_row stored q at =
    stored\<lparr>bp_enabled := bp_enabled q, bp_destination := bp_destination q,
           bp_schedule_kind := bp_schedule_kind q, bp_interval_seconds := bp_interval_seconds q,
           bp_local_time := bp_local_time q, bp_timezone := bp_timezone q,
           bp_retain_count := bp_retain_count q, bp_retain_age_seconds := bp_retain_age_seconds q,
           bp_budget_bytes := bp_budget_bytes q, bp_next_run_at := at\<rparr>"

definition check_destination :: "dest_env \<Rightarrow> string list \<Rightarrow> string \<Rightarrow> dest_error option" where
  "check_destination dest excluded d =
    (if d = '''' then None
     else case authorize_destination dest d excluded of Inl e \<Rightarrow> Some e | Inr _ \<Rightarrow> None)"

definition set_policy :: "(string \<Rightarrow> location option) \<Rightarrow> dest_env \<Rightarrow> string list \<Rightarrow> int \<Rightarrow> backup_policy \<Rightarrow> backup_manager \<Rightarrow>
    (backup_manager \<times> (policy_error, backup_policy) result) option" where
  "set_policy zones dest excluded now p m =
    (case validate_policy zones p of Some e \<Rightarrow> Some (m, Inl e)
     | None \<Rightarrow>
        (let eff = requested_policy m p in
         case check_destination dest excluded (bp_destination eff) of Some e \<Rightarrow> Some (m, Inl (PolicyDestination e))
         | None \<Rightarrow>
            (case (if bp_enabled eff then next_backup zones now eff else Some 0) of
               None \<Rightarrow> None
             | Some at \<Rightarrow>
                (let m' = m\<lparr>bm_policy := policy_row (bm_policy m) (merged_policy m p) at\<rparr> in
                 if \<not> policy_checks (bm_policy m') then Some (m, Inl PolicyRefused)
                 else Some (m', Inr (effective_policy m'))))))"

text \<open>\<open>SetEnvironmentOverride\<close>, called once before the loop starts.\<close>

definition set_override :: "(string \<Rightarrow> location option) \<Rightarrow> dest_env \<Rightarrow> string list \<Rightarrow> int \<Rightarrow> backup_policy \<Rightarrow> string list \<Rightarrow>
    backup_manager \<Rightarrow> (backup_manager \<times> (policy_error, unit) result) option" where
  "set_override zones dest excluded now p locked m =
    (case validate_policy zones p of Some e \<Rightarrow> Some (m, Inl e)
     | None \<Rightarrow>
        (case check_destination dest excluded (bp_destination p) of
           Some e \<Rightarrow> Some (m, Inl (PolicyDestination e))
         | None \<Rightarrow>
            (let m' = m\<lparr>bm_override := Some (p, locked)\<rparr> in
             if ''backup.schedule'' \<notin> set locked then Some (m', Inr ())
             else (case (if bp_enabled p then next_backup zones now (p\<lparr>bp_next_run_at := 0\<rparr>) else Some 0) of
                 None \<Rightarrow> None
               | Some at \<Rightarrow> Some (m'\<lparr>bm_policy := (bm_policy m')\<lparr>bp_next_run_at := at\<rparr>\<rparr>, Inr ())))))"


text \<open>The directories a destination must stay out of; with the media roots unknown, everything.\<close>

definition excluded_roots :: "backup_source \<Rightarrow> string list" where
  "excluded_roots source =
    (case bs_media_provider source of
       None \<Rightarrow> [bs_data_dir source, bs_segment_dir source] @ bs_media_roots source
     | Some None \<Rightarrow> [bs_data_dir source, bs_segment_dir source, [slash]]
     | Some (Some roots) \<Rightarrow> [bs_data_dir source, bs_segment_dir source] @ roots)"

text \<open>
  What an interrupted backup left behind: the regular files of a Flixr-owned destination that are
  named as partial ones. The listing pairs a name with whether Info found a regular file.
\<close>

definition partial_name :: "string \<Rightarrow> bool" where
  "partial_name n \<longleftrightarrow> prefix ''.flixr-'' n \<and> has_suffix n ''.partial''"

definition cleanup_partials :: "string \<Rightarrow> bool \<Rightarrow> (string \<times> bool) list option \<Rightarrow> string list option" where
  "cleanup_partials destination marked listing =
    (if destination = '''' \<or> \<not> marked then Some []
     else map_option (\<lambda>es. map (\<lambda>(n, _). join_path [destination, n]) (filter (\<lambda>(n, regular). partial_name n \<and> regular) es))
       listing)"

text \<open>The newest fifty jobs.\<close>

definition list_jobs :: "backup_job list \<Rightarrow> backup_job list" where
  "list_jobs js = take 50 (rev (sort_key (\<lambda>j. (bj_queued_at j, bj_id j)) js))"

section \<open>The loop\<close>

text \<open>What one step of the loop meets; what \<open>Create\<close> meets depends on whether its context is cancelled.\<close>

record loop_input =
  li_now :: int
  li_job :: "string option"
  li_source :: backup_source
  li_create :: "bool \<Rightarrow> create_env"
  li_os :: string
  li_sorter :: "retained_archive list \<Rightarrow> retained_archive list"
  li_removable :: "retained_archive \<Rightarrow> bool"
  li_synced :: bool
  li_entries :: "backup_entry list option"

fun earlier_job :: "backup_job \<Rightarrow> backup_job option \<Rightarrow> backup_job" where
  "earlier_job j None = j"
| "earlier_job j (Some k) =
    (if bj_queued_at j < bj_queued_at k \<or> bj_queued_at j = bj_queued_at k \<and> bj_id j < bj_id k then j else k)"

definition first_queued :: "backup_job list \<Rightarrow> backup_job option" where
  "first_queued js = foldr (\<lambda>j k. Some (earlier_job j k)) (with_status ''queued'' js) None"

definition claim_job :: "string \<Rightarrow> int \<Rightarrow> backup_job list \<Rightarrow> backup_job list option" where
  "claim_job i started js =
    (case find_job i js of
       None \<Rightarrow> None
     | Some j \<Rightarrow>
        if bj_status j \<noteq> ''queued'' \<or> with_status ''running'' js \<noteq> [] then None
        else Some (update_job i (\<lambda>j. j\<lparr>bj_status := ''running'', bj_started_at := started\<rparr>) js))"

definition finish_job :: "string \<Rightarrow> string \<Rightarrow> int \<Rightarrow> string \<Rightarrow> int \<Rightarrow> backup_job \<Rightarrow> backup_job" where
  "finish_job status name finished message bytes j =
    j\<lparr>bj_status := status, bj_finished_at := finished, bj_archive_name := name, bj_size_bytes := bytes,
      bj_message := message\<rparr>"

definition retention_of :: "backup_policy \<Rightarrow> retention" where
  "retention_of p = \<lparr>rt_count = bp_retain_count p, rt_age = wrap64 (bp_retain_age_seconds p * second_ns),
     rt_budget = bp_budget_bytes p\<rparr>"

definition result_name :: "(create_error, backup_result) result \<Rightarrow> string" where
  "result_name r = (case r of Inl _ \<Rightarrow> '''' | Inr b \<Rightarrow> if br_path b \<noteq> '''' then base_name (br_path b) else '''')"

definition run_over :: "backup_manager \<Rightarrow> backup_manager" where
  "run_over m = m\<lparr>bm_cancel := None, bm_phase := Idle\<rparr>"

definition context_cancelled :: "nat \<Rightarrow> backup_manager \<Rightarrow> bool" where
  "context_cancelled n m \<longleftrightarrow> bm_stopping m \<or> n \<in> set (bm_cancelled m)"

definition loop_step :: "(string \<Rightarrow> location option) \<Rightarrow> loop_input \<Rightarrow> backup_manager \<Rightarrow> backup_manager" where
  "loop_step zones inp m =
    (case bm_phase m of
       Idle \<Rightarrow>
         if bm_stopping m then m
         else (let p = effective_policy m; now = li_now inp in
           if bp_enabled p \<and> 0 < bp_next_run_at p \<and> bp_next_run_at p \<le> now div second_ns
           then m\<lparr>bm_phase := Queueing p now\<rparr> else m\<lparr>bm_phase := Choosing\<rparr>)
     | Queueing p now \<Rightarrow>
         (fst (queue_backup ''schedule'' (li_job inp) (li_now inp div second_ns) m))\<lparr>bm_phase := Rescheduling p now\<rparr>
     | Rescheduling p now \<Rightarrow>
         (case next_backup zones now p of
            None \<Rightarrow> m\<lparr>bm_phase := Stuck\<rparr>
          | Some at \<Rightarrow> m\<lparr>bm_policy := (bm_policy m)\<lparr>bp_next_run_at := at\<rparr>, bm_phase := Choosing\<rparr>)
     | Choosing \<Rightarrow>
         (case first_queued (bm_jobs m) of
            None \<Rightarrow> m\<lparr>bm_phase := Idle\<rparr>
          | Some j \<Rightarrow> m\<lparr>bm_phase := Selected (bj_id j) (bm_runs m), bm_cancel := Some (bm_runs m),
                        bm_runs := Suc (bm_runs m)\<rparr>)
     | Selected i n \<Rightarrow>
         (case claim_job i (li_now inp div second_ns) (bm_jobs m) of
            None \<Rightarrow> run_over m
          | Some js \<Rightarrow> m\<lparr>bm_jobs := js, bm_phase := Claimed i n\<rparr>)
     | Claimed i n \<Rightarrow> m\<lparr>bm_phase := Creating i n (effective_policy m)\<rparr>
     | Creating i n p \<Rightarrow>
         m\<lparr>bm_phase := Ended i n p (create_backup (li_create inp (context_cancelled n m)) (li_source inp) (bp_destination p))
             (li_os inp) (li_now inp div second_ns)\<rparr>
     | Ended i n p r os finished \<Rightarrow>
         (let (status, message) = run_outcome (bm_stopping m) os r;
              bytes = (case r of Inl _ \<Rightarrow> 0 | Inr b \<Rightarrow> br_size b) in
          m\<lparr>bm_jobs := update_job i (finish_job status (result_name r) finished message bytes) (bm_jobs m),
            bm_phase := (case r of Inl _ \<Rightarrow> Failing n status message | Inr b \<Rightarrow> Rotating n p b finished)\<rparr>)
     | Rotating n p b finished \<Rightarrow>
         (let (_, rotated) = rotate_backups (li_sorter inp) (li_removable inp) (li_synced inp) (bp_destination p)
                (retention_of p) (li_now inp) (li_entries inp) in
          case (if bp_enabled p then next_backup zones (li_now inp) p else Some 0) of
            None \<Rightarrow> m\<lparr>bm_phase := Stuck\<rparr>
          | Some at \<Rightarrow>
             run_over (m\<lparr>bm_policy := (bm_policy m)\<lparr>bp_last_verified_at := finished,
               bp_last_verified_file := result_name (Inr b), bp_last_status := ''succeeded'',
               bp_last_message := (case rotated of Inr _ \<Rightarrow> '''' | Inl _ \<Rightarrow> ''Backup verified; retention cleanup failed.''),
               bp_next_run_at := at\<rparr>\<rparr>))
     | Failing n status message \<Rightarrow>
         run_over (m\<lparr>bm_policy := (bm_policy m)\<lparr>bp_last_status := status, bp_last_message := message\<rparr>\<rparr>)
     | Stuck \<Rightarrow> m)"

datatype backup_event =
    EvLoop loop_input
  | EvQueue string "string option" int
  | EvCancel string int
  | EvSignal
  | EvSetPolicy dest_env "string list" int backup_policy
  | EvShutdown
  | EvRestart int

fun backup_step :: "(string \<Rightarrow> location option) \<Rightarrow> backup_manager \<Rightarrow> backup_event \<Rightarrow> backup_manager" where
  "backup_step zones m (EvLoop inp) = loop_step zones inp m"
| "backup_step zones m (EvQueue trigger i now) = fst (queue_backup trigger i now m)"
| "backup_step zones m (EvCancel i now) = fst (cancel_tx i now m)"
| "backup_step zones m EvSignal = cancel_signal m"
| "backup_step zones m (EvSetPolicy dest excluded now p) =
    (case set_policy zones dest excluded now p m of None \<Rightarrow> m | Some (m', _) \<Rightarrow> m')"
| "backup_step zones m EvShutdown = shutdown_backups m"
| "backup_step zones m (EvRestart now) = new_backup_manager now (bm_policy m) (bm_jobs m)"

section \<open>The invariant\<close>

text \<open>The job that the loop has claimed and not finished.\<close>

fun running_id :: "run_phase \<Rightarrow> string option" where
  "running_id (Claimed i n) = Some i"
| "running_id (Creating i n p) = Some i"
| "running_id (Ended i n p r os finished) = Some i"
| "running_id _ = None"

fun run_number :: "run_phase \<Rightarrow> nat option" where
  "run_number (Selected i n) = Some n"
| "run_number (Claimed i n) = Some n"
| "run_number (Creating i n p) = Some n"
| "run_number (Ended i n p r os finished) = Some n"
| "run_number (Rotating n p b finished) = Some n"
| "run_number (Failing n status message) = Some n"
| "run_number _ = None"

definition job_statuses :: "string list" where
  "job_statuses = [''queued'', ''running'', ''succeeded'', ''failed'', ''cancelled'', ''interrupted'']"

definition jobs_ok :: "backup_manager \<Rightarrow> bool" where
  "jobs_ok m \<longleftrightarrow> distinct (map bj_id (bm_jobs m)) \<and>
     (\<forall>j \<in> set (bm_jobs m). bj_status j \<in> set job_statuses) \<and>
     (\<forall>j \<in> set (bm_jobs m). \<forall>k \<in> set (bm_jobs m).
        bj_status j = ''queued'' \<longrightarrow> bj_status k = ''queued'' \<longrightarrow> j = k) \<and>
     (\<forall>j \<in> set (bm_jobs m). bj_status j = ''running'' \<longleftrightarrow> running_id (bm_phase m) = Some (bj_id j)) \<and>
     (\<forall>i. running_id (bm_phase m) = Some i \<longrightarrow> i \<in> set (map bj_id (bm_jobs m))) \<and>
     (bm_phase m \<noteq> Stuck \<longrightarrow> bm_cancel m = run_number (bm_phase m))"

text \<open>A finished job is as it was; jobs are never removed.\<close>

definition finished_kept :: "backup_job list \<Rightarrow> backup_job list \<Rightarrow> bool" where
  "finished_kept js js' \<longleftrightarrow> (\<forall>j \<in> set js. \<not> active j \<longrightarrow> j \<in> set js')"

lemma set_update_job: "set (update_job i f js) = (\<lambda>j. if bj_id j = i then f j else j) ` set js"
  by (simp add: update_job_def)

lemma ids_update_job: "(\<And>j. bj_id (f j) = bj_id j) \<Longrightarrow> map bj_id (update_job i f js) = map bj_id js"
  by (induction js) (simp_all add: update_job_def)

lemma find_job_Some: "find_job i js = Some j \<Longrightarrow> j \<in> set js \<and> bj_id j = i"
  by (auto simp: find_job_def find_Some_iff)

lemma find_job_None: "find_job i js = None \<longleftrightarrow> i \<notin> bj_id ` set js"
  by (auto simp: find_job_def find_None_iff)

lemma same_id: "distinct (map bj_id js) \<Longrightarrow> j \<in> set js \<Longrightarrow> k \<in> set js \<Longrightarrow> bj_id j = bj_id k \<Longrightarrow> j = k"
  by (auto simp: distinct_map inj_on_def)

lemma with_status_Nil: "with_status st js = [] \<longleftrightarrow> (\<forall>j \<in> set js. bj_status j \<noteq> st)"
  by (auto simp: with_status_def filter_empty_conv)

lemma active_iff: "active j \<longleftrightarrow> bj_status j \<in> {''queued'', ''running''}"
  by (simp add: active_def)

lemma cancel_row_simps [simp]: "bj_id (cancel_row now j) = bj_id j"
  "bj_status (cancel_row now j) = (if bj_status j = ''queued'' then ''cancelled'' else bj_status j)"
  by (simp_all add: cancel_row_def)

lemma finish_job_simps [simp]: "bj_id (finish_job st n f msg b j) = bj_id j" "bj_status (finish_job st n f msg b j) = st"
  by (simp_all add: finish_job_def)

lemma interrupt_simps [simp]: "bj_id (interrupt now j) = bj_id j"
  "bj_status (interrupt now j) = (if active j then ''interrupted'' else bj_status j)"
  by (simp_all add: interrupt_def)

lemma insert_job_Some:
  assumes "insert_job i trigger now js = Some js'"
  shows "\<exists>j. js' = js @ [j] \<and> bj_id j = i \<and> bj_status j = ''queued'' \<and> i \<notin> bj_id ` set js \<and>
    (\<forall>k \<in> set js. bj_status k \<noteq> ''queued'')"
  using assms by (auto simp: insert_job_def find_job_None with_status_Nil split: if_splits)

lemma queue_backup_jobs:
  "fst (queue_backup trigger i now m) = m \<or>
   (\<exists>i' js. insert_job i' trigger now (bm_jobs m) = Some js \<and> fst (queue_backup trigger i now m) = m\<lparr>bm_jobs := js\<rparr>)"
  by (auto simp: queue_backup_def split: option.splits)

lemma queue_backup_ok:
  assumes "jobs_ok m"
  shows "jobs_ok (fst (queue_backup trigger i now m))"
  using queue_backup_jobs [of trigger i now m]
proof
  assume "\<exists>i' js. insert_job i' trigger now (bm_jobs m) = Some js \<and> fst (queue_backup trigger i now m) = m\<lparr>bm_jobs := js\<rparr>"
  then obtain i' js j where *: "fst (queue_backup trigger i now m) = m\<lparr>bm_jobs := js\<rparr>" "js = bm_jobs m @ [j]" "bj_id j = i'"
    "bj_status j = ''queued''" "i' \<notin> bj_id ` set (bm_jobs m)" "\<forall>k \<in> set (bm_jobs m). bj_status k \<noteq> ''queued''"
    using insert_job_Some by blast
  with assms show ?thesis by (auto simp: jobs_ok_def job_statuses_def)
qed (use assms in simp)

text \<open>The jobs of one identifier that are given another status.\<close>

lemma update_ok:
  assumes ok: "jobs_ok m" and f: "\<And>j. bj_id (f j) = bj_id j"
    and st: "\<And>j. j \<in> set (bm_jobs m) \<Longrightarrow> bj_id j = i \<Longrightarrow> bj_status (f j) \<in> set job_statuses \<and> bj_status (f j) \<noteq> ''queued'' \<and>
      (bj_status (f j) = ''running'' \<longleftrightarrow> running_id ph = Some i)"
    and ph: "\<And>j. j \<noteq> i \<Longrightarrow> running_id ph = Some j \<longleftrightarrow> running_id (bm_phase m) = Some j"
    and i: "running_id ph = Some i \<Longrightarrow> i \<in> set (map bj_id (bm_jobs m))"
    and c: "ph \<noteq> Stuck \<Longrightarrow> c = run_number ph"
  shows "jobs_ok (m\<lparr>bm_jobs := update_job i f (bm_jobs m), bm_phase := ph, bm_cancel := c, bm_signals := sg\<rparr>)"
proof -
  let ?js = "update_job i f (bm_jobs m)"
  have ids: "map bj_id ?js = map bj_id (bm_jobs m)" using f by (rule ids_update_job)
  have mem: "\<exists>k \<in> set (bm_jobs m). j = (if bj_id k = i then f k else k)" if "j \<in> set ?js" for j
    using that by (auto simp: set_update_job)
  have "bj_status j \<in> set job_statuses" if "j \<in> set ?js" for j
    using mem [OF that] st ok by (auto simp only: jobs_ok_def split: if_splits)
  moreover have "j = k" if "j \<in> set ?js" "k \<in> set ?js" "bj_status j = ''queued''" "bj_status k = ''queued''" for j k
  proof -
    have "l \<in> set (bm_jobs m)" if "l \<in> set ?js" "bj_status l = ''queued''" for l
      using mem [OF that(1)] that(2) st by (metis (full_types))
    then show ?thesis using ok that unfolding jobs_ok_def by blast
  qed
  moreover have "bj_status j = ''running'' \<longleftrightarrow> running_id ph = Some (bj_id j)" if "j \<in> set ?js" for j
    using mem [OF that] st ph f ok unfolding jobs_ok_def by metis
  moreover have "j \<in> set (map bj_id ?js)" if "running_id ph = Some j" for j
    using that i ph ok unfolding ids jobs_ok_def by metis
  ultimately show ?thesis
    using ok c ids unfolding jobs_ok_def by (simp del: set_map)
qed

lemma job_status_cases:
  "st \<in> {''succeeded'', ''failed'', ''interrupted'', ''cancelled''} \<Longrightarrow> st \<in> set job_statuses \<and> st \<noteq> ''queued'' \<and> st \<noteq> ''running''"
  by (elim insertE) (simp_all add: job_statuses_def)

lemma cancel_tx_ok:
  assumes "jobs_ok m"
  shows "jobs_ok (fst (cancel_tx i now m))"
proof (cases "find_job i (bm_jobs m)")
  case None
  with assms show ?thesis by (simp add: cancel_tx_def)
next
  case (Some j)
  show ?thesis
  proof (cases "active j")
    case True
    have new: "bj_status (cancel_row now k) \<in> set job_statuses \<and> bj_status (cancel_row now k) \<noteq> ''queued'' \<and>
        (bj_status (cancel_row now k) = ''running'' \<longleftrightarrow> running_id (bm_phase m) = Some i)"
      if "k \<in> set (bm_jobs m)" "bj_id k = i" for k
    proof -
      have "bj_status k \<in> set job_statuses" and "bj_status k = ''running'' \<longleftrightarrow> running_id (bm_phase m) = Some i"
        using assms that(1) unfolding jobs_ok_def that(2) [symmetric] by blast+
      then show ?thesis
        using job_status_cases [of "''cancelled''"] by (cases "bj_status k = ''queued''") (simp_all del: set_simps)
    qed
    have "i \<in> set (map bj_id (bm_jobs m))" using find_job_Some [OF Some] by force
    then have "jobs_ok (m\<lparr>bm_jobs := update_job i (cancel_row now) (bm_jobs m), bm_phase := bm_phase m, bm_cancel := bm_cancel m,
        bm_signals := bm_signals m + (if bj_status j = ''running'' then 1 else 0)\<rparr>)"
      by (intro update_ok assms new) (use assms in \<open>simp_all add: jobs_ok_def\<close>)
    then show ?thesis using Some True by (simp add: cancel_tx_def)
  qed (use assms Some in \<open>simp add: cancel_tx_def\<close>)
qed


lemma first_queued_Some:
  assumes "first_queued js = Some j"
  shows "j \<in> set js \<and> bj_status j = ''queued''"
proof -
  have "foldr (\<lambda>j k. Some (earlier_job j k)) ks None = Some j \<Longrightarrow> j \<in> set ks" for ks
  proof (induction ks arbitrary: j)
    case (Cons k ks)
    then show ?case
      by (cases "foldr (\<lambda>j k. Some (earlier_job j k)) ks None") (auto split: if_splits)
  qed simp
  with assms show ?thesis unfolding first_queued_def with_status_def by fastforce
qed

lemma claim_job_Some:
  assumes "claim_job i started js = Some js'"
  shows "\<exists>f. js' = update_job i f js \<and> (\<forall>j. bj_id (f j) = bj_id j \<and> bj_status (f j) = ''running'') \<and>
    (\<forall>k \<in> set js. bj_status k \<noteq> ''running'') \<and> (\<exists>j \<in> set js. bj_id j = i \<and> bj_status j = ''queued'')"
proof -
  obtain j where j: "find_job i js = Some j" "bj_status j = ''queued''" "with_status ''running'' js = []"
    "js' = update_job i (\<lambda>j. j\<lparr>bj_status := ''running'', bj_started_at := started\<rparr>) js"
    using assms by (auto simp: claim_job_def split: option.splits if_splits)
  then show ?thesis
    using find_job_Some [OF j(1)] by (intro exI [of _ "\<lambda>j. j\<lparr>bj_status := ''running'', bj_started_at := started\<rparr>"])
      (auto simp: with_status_Nil)
qed

lemma run_outcome_status: "fst (run_outcome s os r) \<in> {''succeeded'', ''failed'', ''interrupted'', ''cancelled''}"
  by (simp add: run_outcome_def split: sum.splits)

lemma run_over_ok:
  assumes "jobs_ok m" and "running_id (bm_phase m) = None"
  shows "jobs_ok (run_over (m\<lparr>bm_policy := p\<rparr>))" and "jobs_ok (run_over m)"
  using assms by (auto simp: run_over_def jobs_ok_def)

lemma jobs_ok_phase:
  assumes "jobs_ok m" and "running_id ph = running_id (bm_phase m)" and "ph = Stuck \<or> c = run_number ph"
  shows "jobs_ok (m\<lparr>bm_phase := ph, bm_cancel := c, bm_runs := r\<rparr>)"
  using assms by (auto simp: jobs_ok_def)

lemma claim_ok:
  assumes ok: "jobs_ok m" and ph: "bm_phase m = Selected i n" and cl: "claim_job i started (bm_jobs m) = Some js"
  shows "jobs_ok (m\<lparr>bm_jobs := js, bm_phase := Claimed i n\<rparr>)"
proof -
  from claim_job_Some [OF cl] obtain f j where f: "js = update_job i f (bm_jobs m)"
    "\<And>j. bj_id (f j) = bj_id j" "\<And>j. bj_status (f j) = ''running''" and j: "j \<in> set (bm_jobs m)" "bj_id j = i"
    "bj_status j = ''queued''" by blast
  have ids: "map bj_id js = map bj_id (bm_jobs m)" using f by (simp add: ids_update_job)
  have "i \<in> set (map bj_id (bm_jobs m))" using j by auto
  with ok ph f ids show ?thesis
    by (auto simp: jobs_ok_def set_update_job job_statuses_def simp del: set_map)
qed

lemma end_ok:
  assumes ok: "jobs_ok m" and ph: "bm_phase m = Ended i n p r os fin" and st: "st \<in> {''succeeded'', ''failed'', ''interrupted'', ''cancelled''}"
    and ph': "running_id ph' = None" "run_number ph' = Some n" "ph' \<noteq> Stuck"
  shows "jobs_ok (m\<lparr>bm_jobs := update_job i (finish_job st nm fin msg b) (bm_jobs m), bm_phase := ph'\<rparr>)"
proof -
  have "bm_cancel m = Some n" using ok ph by (simp add: jobs_ok_def)
  then have "jobs_ok (m\<lparr>bm_jobs := update_job i (finish_job st nm fin msg b) (bm_jobs m), bm_phase := ph', bm_cancel := bm_cancel m,
      bm_signals := bm_signals m\<rparr>)"
    by (intro update_ok ok) (use ph ph' job_status_cases [OF st] in simp_all)
  then show ?thesis by simp
qed

lemma loop_step_ok:
  assumes "jobs_ok m"
  shows "jobs_ok (loop_step zones inp m)"
proof (cases "bm_phase m")
  case Idle
  with assms show ?thesis by (auto simp: loop_step_def Let_def jobs_ok_def)
next
  case (Queueing p now)
  have "jobs_ok (fst (queue_backup ''schedule'' (li_job inp) (li_now inp div second_ns) m))"
    using assms by (rule queue_backup_ok)
  moreover have "bm_phase (fst (queue_backup ''schedule'' (li_job inp) (li_now inp div second_ns) m)) = bm_phase m"
    using queue_backup_jobs [of "''schedule''" "li_job inp" "li_now inp div second_ns" m] by auto
  ultimately show ?thesis using Queueing by (auto simp: loop_step_def jobs_ok_def)
next
  case (Rescheduling p now)
  with assms show ?thesis by (auto simp: loop_step_def jobs_ok_def split: option.splits)
next
  case Choosing
  with assms show ?thesis by (auto simp: loop_step_def jobs_ok_def split: option.splits)
next
  case (Selected i n)
  show ?thesis
  proof (cases "claim_job i (li_now inp div second_ns) (bm_jobs m)")
    case None
    with Selected assms run_over_ok(2) show ?thesis by (simp add: loop_step_def)
  next
    case (Some js)
    with Selected assms claim_ok show ?thesis by (simp add: loop_step_def)
  qed
next
  case (Claimed i n)
  with assms show ?thesis by (auto simp: loop_step_def jobs_ok_def)
next
  case (Creating i n p)
  with assms show ?thesis by (auto simp: loop_step_def jobs_ok_def)
next
  case (Ended i n p r os finished)
  obtain st msg where o: "run_outcome (bm_stopping m) os r = (st, msg)" by (cases "run_outcome (bm_stopping m) os r")
  with run_outcome_status [of "bm_stopping m" os r] have st: "st \<in> {''succeeded'', ''failed'', ''interrupted'', ''cancelled''}" by simp
  show ?thesis
    using Ended o by (simp add: loop_step_def Let_def) (rule end_ok [OF assms Ended st]; simp split: sum.split)
next
  case (Rotating n p b finished)
  with assms run_over_ok [OF assms] show ?thesis
    by (auto simp: loop_step_def split: prod.splits option.splits) (auto simp: jobs_ok_def)
next
  case (Failing n status message)
  with assms run_over_ok(1) show ?thesis by (simp add: loop_step_def)
next
  case Stuck
  with assms show ?thesis by (simp add: loop_step_def)
qed

lemma new_backup_manager_ok:
  assumes "jobs_ok m"
  shows "jobs_ok (new_backup_manager now p (bm_jobs m))"
proof -
  have "map bj_id (map (interrupt now) (bm_jobs m)) = map bj_id (bm_jobs m)" by simp
  with assms show ?thesis by (auto simp: new_backup_manager_def jobs_ok_def job_statuses_def active_def simp del: map_map)
qed


lemma set_policy_jobs:
  "set_policy zones dest excluded now p m = Some (m', r) \<Longrightarrow> \<exists>row. m' = m\<lparr>bm_policy := row\<rparr> \<or> m' = m"
  by (auto simp: set_policy_def Let_def split: option.splits sum.splits if_splits)

lemma jobs_ok_policy: "jobs_ok (m\<lparr>bm_policy := row\<rparr>) = jobs_ok m"
  by (simp add: jobs_ok_def)

lemma backup_step_ok: "jobs_ok m \<Longrightarrow> jobs_ok (backup_step zones m e)"
proof (cases e)
  case (EvSetPolicy dest excluded now p)
  then show "jobs_ok m \<Longrightarrow> ?thesis"
    by (auto simp: jobs_ok_policy split: option.splits dest!: set_policy_jobs)
next
  case EvSignal
  then show "jobs_ok m \<Longrightarrow> ?thesis" by (simp add: cancel_signal_def jobs_ok_def)
next
  case EvShutdown
  then show "jobs_ok m \<Longrightarrow> ?thesis" by (simp add: shutdown_backups_def jobs_ok_def)
qed (simp_all add: loop_step_ok queue_backup_ok cancel_tx_ok new_backup_manager_ok)

definition first_manager :: "int \<Rightarrow> backup_policy \<Rightarrow> backup_manager" where
  "first_manager now p = new_backup_manager now p []"

lemma first_manager_ok: "jobs_ok (first_manager now p)"
  by (simp add: first_manager_def new_backup_manager_def jobs_ok_def)

interpretation bj: machine "first_manager now p" "backup_step zones" jobs_ok for now p zones
  by unfold_locales (simp_all add: first_manager_ok backup_step_ok)

section \<open>Finished jobs\<close>

lemma finished_kept_update:
  assumes "\<forall>j \<in> set js. bj_id j = i \<longrightarrow> active j"
  shows "finished_kept js (update_job i f js)"
  using assms by (auto simp: finished_kept_def set_update_job image_iff)

lemma finished_kept_refl [simp]: "finished_kept js js"
  by (simp add: finished_kept_def)

lemma queue_backup_kept: "finished_kept (bm_jobs m) (bm_jobs (fst (queue_backup trigger i now m)))"
  using queue_backup_jobs [of trigger i now m] insert_job_Some by (fastforce simp: finished_kept_def)

lemma loop_step_kept:
  assumes ok: "jobs_ok m"
  shows "finished_kept (bm_jobs m) (bm_jobs (loop_step zones inp m))"
proof (cases "bm_phase m")
  case (Queueing p now)
  then show ?thesis using queue_backup_kept by (simp add: loop_step_def)
next
  case (Selected i n)
  show ?thesis
  proof (cases "claim_job i (li_now inp div second_ns) (bm_jobs m)")
    case None
    with Selected show ?thesis by (simp add: loop_step_def run_over_def)
  next
    case (Some js)
    from claim_job_Some [OF Some] obtain f j where f: "js = update_job i f (bm_jobs m)"
      and j: "j \<in> set (bm_jobs m)" "bj_id j = i" "bj_status j = ''queued''" by blast
    have "\<forall>k \<in> set (bm_jobs m). bj_id k = i \<longrightarrow> active k"
      using ok j same_id by (auto simp: jobs_ok_def active_def)
    with f Some Selected show ?thesis by (simp add: loop_step_def finished_kept_update)
  qed
next
  case (Ended i n p r os finished)
  have "\<forall>k \<in> set (bm_jobs m). bj_id k = i \<longrightarrow> active k"
    using ok Ended by (auto simp: jobs_ok_def active_def)
  with Ended show ?thesis
    by (simp add: loop_step_def Let_def finished_kept_update split: prod.split)
qed (simp_all add: loop_step_def Let_def run_over_def split: option.split prod.split)

lemma backup_step_kept:
  assumes ok: "jobs_ok m"
  shows "finished_kept (bm_jobs m) (bm_jobs (backup_step zones m e))"
proof (cases e)
  case (EvCancel i now)
  show ?thesis
  proof (cases "find_job i (bm_jobs m)")
    case None
    with EvCancel show ?thesis by (simp add: cancel_tx_def)
  next
    case (Some j)
    show ?thesis
    proof (cases "active j")
      case True
      then have "\<forall>k \<in> set (bm_jobs m). bj_id k = i \<longrightarrow> active k"
        using ok find_job_Some [OF Some] same_id by (auto simp: jobs_ok_def)
      with EvCancel Some True show ?thesis by (simp add: cancel_tx_def finished_kept_update)
    qed (use EvCancel Some in \<open>simp add: cancel_tx_def\<close>)
  qed
next
  case (EvSetPolicy dest excluded now p)
  then show ?thesis by (auto split: option.splits dest!: set_policy_jobs)
next
  case (EvRestart now)
  then show ?thesis by (force simp: new_backup_manager_def finished_kept_def interrupt_def)
qed (simp_all add: loop_step_kept [OF ok] queue_backup_kept cancel_signal_def shutdown_backups_def)

lemma finished_kept_run:
  "jobs_ok m \<Longrightarrow> finished_kept (bm_jobs m) (bm_jobs (run_steps (backup_step zones) m es))"
proof (induction es arbitrary: m)
  case (Cons e es)
  have "finished_kept (bm_jobs m) (bm_jobs (backup_step zones m e))" using Cons.prems by (rule backup_step_kept)
  moreover have "finished_kept (bm_jobs (backup_step zones m e))
      (bm_jobs (run_steps (backup_step zones) (backup_step zones m e) es))"
    by (rule Cons.IH) (rule backup_step_ok [OF Cons.prems])
  ultimately show ?case by (auto simp: finished_kept_def)
qed simp

section \<open>What holds of the jobs\<close>

text \<open>
  C13: Whatever requests, cancellations, policy changes, restarts and steps of the loop arrive, in
  whatever order, at every moment at most one job is queued and at most one is running, the
  running one is the one the loop holds, identifiers are distinct, and a job that is finished
  (succeeded, failed, cancelled or interrupted) stays exactly as it is; so a job cancelled while
  it was queued never runs.
\<close>

theorem one_active_backup:
  "let m = run_steps (backup_step zones) (first_manager now p) es;
       m' = run_steps (backup_step zones) (first_manager now p) (es @ es') in
   distinct (map bj_id (bm_jobs m)) \<and> length (with_status ''queued'' (bm_jobs m)) \<le> 1 \<and>
   map bj_id (with_status ''running'' (bm_jobs m)) = (case running_id (bm_phase m) of None \<Rightarrow> [] | Some i \<Rightarrow> [i]) \<and>
   set (filter (\<lambda>j. \<not> active j) (bm_jobs m)) \<subseteq> set (bm_jobs m')"
proof -
  define m where "m = run_steps (backup_step zones) (first_manager now p) es"
  have ok: "jobs_ok m" unfolding m_def by (rule bj.ok_reachable)
  have "distinct (with_status s (bm_jobs m))" for s
    using ok unfolding with_status_def by (intro distinct_filter) (auto simp: jobs_ok_def distinct_map)
  then have d: "distinct (with_status s (bm_jobs m))" for s .
  have q: "length (with_status ''queued'' (bm_jobs m)) \<le> 1"
  proof -
    have "card (set (with_status ''queued'' (bm_jobs m))) \<le> 1"
      using ok by (intro card_le_Suc0_iff_eq [THEN iffD2, folded One_nat_def]) (auto simp: with_status_def jobs_ok_def)
    then show ?thesis using distinct_card [OF d] by simp
  qed
  have r: "map bj_id (with_status ''running'' (bm_jobs m)) = (case running_id (bm_phase m) of None \<Rightarrow> [] | Some i \<Rightarrow> [i])"
  proof (cases "running_id (bm_phase m)")
    case None
    with ok show ?thesis by (simp add: jobs_ok_def with_status_Nil)
  next
    case (Some i)
    have ids: "set (map bj_id (with_status ''running'' (bm_jobs m))) = {i}"
      using ok Some by (auto simp: jobs_ok_def with_status_def)
    moreover have "distinct (map bj_id (with_status ''running'' (bm_jobs m)))"
      using ok unfolding with_status_def jobs_ok_def by (simp add: distinct_map_filter)
    ultimately have "length (map bj_id (with_status ''running'' (bm_jobs m))) = 1"
      using distinct_card by (metis card_1_singleton_iff One_nat_def)
    with ids Some show ?thesis by (cases "map bj_id (with_status ''running'' (bm_jobs m))") auto
  qed
  have "set (filter (\<lambda>j. \<not> active j) (bm_jobs m)) \<subseteq> set (bm_jobs (run_steps (backup_step zones) m es'))"
    using finished_kept_run [OF ok] by (auto simp: finished_kept_def)
  then show ?thesis
    using ok q r unfolding Let_def m_def run_steps_append by (simp add: jobs_ok_def)
qed


section \<open>Two requests that meet a run\<close>

definition sample_bp :: backup_policy where
  "sample_bp = \<lparr>bp_enabled = False, bp_destination = ''/b'', bp_schedule_kind = ''interval'', bp_interval_seconds = 86400,
     bp_local_time = ''03:00'', bp_timezone = ''UTC'', bp_retain_count = 7, bp_retain_age_seconds = 2592000,
     bp_budget_bytes = 10737418240, bp_next_run_at = 0, bp_last_verified_at = 0, bp_last_verified_file = '''',
     bp_last_status = ''never'', bp_last_message = ''''\<rparr>"

definition utc_only :: "string \<Rightarrow> location option" where
  "utc_only z = (if z = ''UTC'' then Some utc else None)"

definition sample_loop :: loop_input where
  "sample_loop = \<lparr>li_now = 100000000000, li_job = Some ''s'', li_source = sample_source,
     li_create = (\<lambda>stopped. sample_create_env\<lparr>ce_entry_stopped := (\<lambda>_. stopped)\<rparr>), li_os = '''', li_sorter = (\<lambda>as. as),
     li_removable = (\<lambda>_. True), li_synced = True, li_entries = Some []\<rparr>"

definition go_on :: "nat \<Rightarrow> backup_event list" where
  "go_on n = replicate n (EvLoop sample_loop)"

text \<open>The run of a job up to the point where it makes the archive, and the rest of the run.\<close>

lemma sample_create_calm: "create_backup (li_create sample_loop False) (li_source sample_loop) ''/b'' =
    create_backup sample_create_env sample_source ''/b''"
proof -
  have "sample_create_env\<lparr>ce_entry_stopped := (\<lambda>_. False)\<rparr> = sample_create_env"
    by (simp add: sample_create_env_def)
  then show ?thesis by (simp add: sample_loop_def)
qed

definition cancel_race :: "backup_event list" where
  "cancel_race = EvQueue ''manual'' (Some ''a'') 1 # go_on 5 @ EvCancel ''a'' 2 # go_on 4 @
     EvQueue ''manual'' (Some ''b'') 3 # go_on 4 @ EvSignal # go_on 3"

text \<open>
  A cancellation of a running job can hit the next one: between the transaction that finds job
  a running and the call of the cancel function, a may end and b begin, and the function called is
  then b's. Job b ends as cancelled by the owner although nobody asked for it, and a succeeds.
\<close>

theorem cancel_hits_next_job:
  "map (\<lambda>j. (bj_id j, bj_status j, bj_cancel_requested j))
     (bm_jobs (run_steps (backup_step utc_only) (first_manager 0 sample_bp) cancel_race)) =
   [(''a'', ''succeeded'', True), (''b'', ''cancelled'', False)]"
  by code_simp


text \<open>Without a next run and without a queued job the loop only looks.\<close>

definition idling :: "backup_job list \<Rightarrow> backup_manager \<Rightarrow> bool" where
  "idling js m \<longleftrightarrow> bm_phase m \<in> {Idle, Choosing} \<and> bp_next_run_at (bm_policy m) = 0 \<and>
     bm_jobs m = js \<and> with_status ''queued'' js = []"

lemma effective_next: "bp_next_run_at (effective_policy m) = bp_next_run_at (bm_policy m)"
  by (simp add: effective_policy_def apply_locked_def Let_def split: option.split prod.split)

lemma idling_step: "idling js m \<Longrightarrow> idling js (loop_step zones inp m)"
  by (auto simp: idling_def loop_step_def Let_def effective_next first_queued_def)

lemma idling_run: "idling js m \<Longrightarrow> idling js (run_steps (\<lambda>m inp. loop_step zones inp m) m inps)"
  by (induction inps arbitrary: m) (simp_all add: idling_step)

text \<open>
  A schedule that is enabled while a backup runs is lost: the run ends by storing the next time
  computed from the policy it read when it began, so with that policy disabled nothing is stored,
  and with no job queued the loop then never queues or runs another one by itself, although the
  stored policy is still the enabled one.
\<close>

theorem schedule_lost_during_run:
  assumes "bm_phase m = Rotating n p b finished" and "\<not> bp_enabled p"
    and "with_status ''queued'' (bm_jobs m) = []"
  shows "bp_enabled (bm_policy (loop_step zones inp m)) = bp_enabled (bm_policy m) \<and>
    bp_next_run_at (bm_policy (loop_step zones inp m)) = 0 \<and>
    bm_jobs (run_steps (\<lambda>m inp. loop_step zones inp m) (loop_step zones inp m) inps) = bm_jobs m"
proof -
  have "idling (bm_jobs m) (loop_step zones inp m)"
    using assms by (simp add: idling_def loop_step_def run_over_def split: prod.split)
  moreover from idling_run [OF this, of zones inps]
  have "bm_jobs (run_steps (\<lambda>m inp. loop_step zones inp m) (loop_step zones inp m) inps) = bm_jobs m"
    by (simp add: idling_def)
  ultimately show ?thesis
    using assms by (simp add: idling_def loop_step_def run_over_def split: prod.split)
qed

text \<open>The owner enables the schedule while the first, manual, backup is being made.\<close>

definition enabled_late :: "backup_event list" where
  "enabled_late = EvQueue ''manual'' (Some ''a'') 1 # go_on 4 @
     EvSetPolicy sample_dest [] 100000000000 (sample_bp\<lparr>bp_enabled := True\<rparr>) # go_on 2"

lemma enabled_late_run:
  "let m = run_steps (backup_step utc_only) (first_manager 0 sample_bp) enabled_late in
   bp_enabled (bm_policy m) \<and> bp_next_run_at (bm_policy m) = 86500 \<and> with_status ''queued'' (bm_jobs m) = [] \<and>
   (case bm_phase m of Rotating n p b finished \<Rightarrow> \<not> bp_enabled p | _ \<Rightarrow> False)"
  by code_simp

theorem schedule_lost_during_run_witness:
  "let m = loop_step utc_only sample_loop (run_steps (backup_step utc_only) (first_manager 0 sample_bp) enabled_late) in
   bp_enabled (bm_policy m) \<and> bp_next_run_at (bm_policy m) = 0"
proof -
  let ?m = "run_steps (backup_step utc_only) (first_manager 0 sample_bp) enabled_late"
  obtain n p b finished where ph: "bm_phase ?m = Rotating n p b finished" "\<not> bp_enabled p"
    using enabled_late_run by (auto simp: Let_def split: run_phase.splits)
  have "with_status ''queued'' (bm_jobs ?m) = []" "bp_enabled (bm_policy ?m)"
    using enabled_late_run by (simp_all add: Let_def)
  with schedule_lost_during_run [OF ph, of utc_only sample_loop "[]"] show ?thesis by (simp add: Let_def)
qed

section \<open>What a stored policy is\<close>

text \<open>A change of the policy that succeeds was valid and has an authorized destination.\<close>

lemma set_policy_accepts:
  assumes "set_policy zones dest excluded now p m = Some (m', Inr q)"
  shows "\<exists>at. validate_policy zones p = None \<and>
    check_destination dest excluded (bp_destination (requested_policy m p)) = None \<and>
    m' = m\<lparr>bm_policy := policy_row (bm_policy m) (merged_policy m p) at\<rparr> \<and>
    policy_checks (bm_policy m') \<and> q = effective_policy m'"
  using assms by (auto simp: set_policy_def Let_def split: option.splits if_splits)

lemma effective_row:
  "bp_destination (effective_policy (m\<lparr>bm_policy := policy_row (bm_policy m) (merged_policy m p) at\<rparr>)) =
   bp_destination (requested_policy m p)"
  by (auto simp: effective_policy_def requested_policy_def policy_row_def apply_locked_def Let_def
      split: option.split prod.split)

text \<open>
  A change of the policy that succeeds was valid, leaves a row that satisfies the table's
  bounds, and the policy then in force, the locked fields of the environment included, has no
  destination or one that is authorized against the excluded directories; no job is touched.
\<close>

theorem policy_change_authorized:
  assumes "set_policy zones dest excluded now p m = Some (m', Inr q)"
  shows "validate_policy zones p = None \<and> policy_checks (bm_policy m') \<and> q = effective_policy m' \<and>
    (bp_destination q = '''' \<or> authorize_destination dest (bp_destination q) excluded = Inr (clean (bp_destination q))) \<and>
    bm_jobs m' = bm_jobs m"
proof -
  from set_policy_accepts [OF assms] obtain at where
    v: "validate_policy zones p = None" "check_destination dest excluded (bp_destination (requested_policy m p)) = None"
    and m': "m' = m\<lparr>bm_policy := policy_row (bm_policy m) (merged_policy m p) at\<rparr>"
    and q: "policy_checks (bm_policy m')" "q = effective_policy m'" by blast
  have "bp_destination q = bp_destination (requested_policy m p)" unfolding q(2) m' by (rule effective_row)
  with v(2) have "bp_destination q = '''' \<or> authorize_destination dest (bp_destination q) excluded = Inr (clean (bp_destination q))"
    by (auto simp: check_destination_def authorized(2) split: if_splits sum.splits)
  with v(1) m' q show ?thesis by simp
qed

theorem policy_change_authorized_witness:
  "\<exists>m' q. set_policy utc_only sample_dest [''/data''] 100000000000 (sample_bp\<lparr>bp_enabled := True\<rparr>) (first_manager 0 sample_bp) = Some (m', Inr q) \<and>
     authorize_destination sample_dest ''/b'' [''/data''] = Inr (clean ''/b'')"
proof -
  have "case set_policy utc_only sample_dest [''/data''] 100000000000 (sample_bp\<lparr>bp_enabled := True\<rparr>) (first_manager 0 sample_bp) of
      Some (m', Inr q) \<Rightarrow> bp_destination q = ''/b'' | _ \<Rightarrow> False" by code_simp
  then obtain m' q where s: "set_policy utc_only sample_dest [''/data''] 100000000000 (sample_bp\<lparr>bp_enabled := True\<rparr>) (first_manager 0 sample_bp) =
      Some (m', Inr q)" and d: "bp_destination q = ''/b''" by (auto split: option.splits prod.splits sum.splits)
  from policy_change_authorized [OF s] d s show ?thesis by auto
qed

end
