(* ===== verification/RestoreRun.thy ===== *)
theory RestoreRun
  imports Staging Restore BackupJobs
begin

text \<open>
  A whole restore (backend/backup/restore.go, \<open>restore\<close> and \<open>prepareStagedInstallation\<close>): the
  checks, the recovery of an earlier one, the verification, the stage and its preparation, the
  safety backup of what is there, then the journal and the moves of the theory Restore. Here no
  crash happens; a move that fails is the rollback by recovery.
\<close>

section \<open>Preparing the staged installation\<close>

record staged_db =
  sd_settings :: "(string, string) gomap"
  sd_policy :: backup_policy
  sd_sessions :: "string list"

record prepare_env =
  pe_opens :: "os_error option"
  pe_settings :: bool
  pe_policy :: bool
  pe_sessions :: bool
  pe_closes :: bool
  pe_sidecar :: bool

datatype prepare_error =
    NotMigrated os_error | NotRemapped | PolicyNotCleared | SessionsNotCleared | NotFinalized | NoSidecar

definition clear_policy :: "backup_policy \<Rightarrow> backup_policy" where
  "clear_policy p = p\<lparr>bp_enabled := False, bp_destination := '''', bp_next_run_at := 0, bp_last_status := ''never'',
     bp_last_message := '''', bp_last_verified_at := 0, bp_last_verified_file := ''''\<rparr>"

definition prepare_staged :: "prepare_env \<Rightarrow> string \<Rightarrow> staged_db \<Rightarrow> (prepare_error, staged_db \<times> string) result" where
  "prepare_staged env target db =
    (let segment_dir = join_path [target, ''segments''] in
     case pe_opens env of Some e \<Rightarrow> Inl (NotMigrated e)
     | None \<Rightarrow>
        if \<not> pe_settings env then Inl NotRemapped
        else if \<not> pe_policy env then Inl PolicyNotCleared
        else if \<not> pe_sessions env then Inl SessionsNotCleared
        else if \<not> pe_closes env then Inl NotFinalized
        else if \<not> pe_sidecar env then Inl NoSidecar
        else Inr (\<lparr>sd_settings = AList.update ''playback_segment_dir'' segment_dir (sd_settings db),
                   sd_policy = clear_policy (sd_policy db), sd_sessions = []\<rparr>,
                  segment_dir @ [CHR 0x0A]))"

section \<open>Restoring\<close>

datatype restore_error =
    BadTarget target_error | NotRecovered | NotVerified verify_error | SpaceUnsupported | SpaceUnchecked
  | RestoreNoSpace | NoRestoreId | NoStage | NotExtracted extract_error | NotPrepared prepare_error
  | NoSafetyDir | NotOpenedForSafety | SafetyFailed | NoJournalWritten | PublishFailed

text \<open>Writing the journal can fail before it is in place, or after, when the directory is synchronized.\<close>

datatype journal_write = Written | NotWritten | Unsynchronized

text \<open>\<open>re_staged\<close> is what the stage then shows for the three managed items.\<close>

record restore_env =
  re_lstat :: "string \<Rightarrow> lstat_result"
  re_archive :: archive_env
  re_file :: archive_file
  re_free :: "int option"
  re_id :: "string option"
  re_mkdir :: bool
  re_extract :: extract_env
  re_reread :: "tar_item list"
  re_database :: "(string, string) gomap \<Rightarrow> staged_db"
  re_prepare :: prepare_env
  re_staged :: "(string, string) gomap \<Rightarrow> staged_db \<times> string \<Rightarrow> item \<Rightarrow> string option"
  re_safety_dir :: bool
  re_safety_open :: bool
  re_safety :: create_env
  re_journal :: journal_write
  re_published :: "nat option"

definition dir_name :: "string \<Rightarrow> string" where
  "dir_name p = slash # join [slash] (butlast (clean_parts True p))"

definition safety_source :: "string \<Rightarrow> backup_source" where
  "safety_source target = \<lparr>bs_db = True, bs_data_dir = target, bs_media_roots = [], bs_media_provider = None,
     bs_segment_dir = '''', bs_app_version = ''pre-restore''\<rparr>"

text \<open>The safety backup of an installation that has a database.\<close>

definition safety_backup :: "restore_env \<Rightarrow> string \<Rightarrow> string \<Rightarrow> bool \<Rightarrow> (restore_error, string) result" where
  "safety_backup env target name had_database =
    (if \<not> had_database then Inr ''''
     else if \<not> re_safety_dir env then Inl NoSafetyDir
     else if \<not> re_safety_open env then Inl NotOpenedForSafety
     else (case create_backup (re_safety env) (safety_source target)
                  (join_path [dir_name target, ''.flixr-restore-safety-'' @ name]) of
         Inl _ \<Rightarrow> Inl SafetyFailed
       | Inr b \<Rightarrow> Inr (br_path b)))"

text \<open>Everything up to the journal: nothing of it touches the live installation.\<close>

definition stage_restore :: "restore_env \<Rightarrow> string \<Rightarrow> fs \<Rightarrow> fs \<times> (restore_error, string \<times> string) result" where
  "stage_restore env target s =
    (case verify_archive (re_archive env) (re_file env) of Inl e \<Rightarrow> (s, Inl (NotVerified e))
     | Inr m \<Rightarrow>
    (case required_space spaceReserveBytes (mf_entries m) of None \<Rightarrow> (s, Inl SpaceUnsupported)
     | Some required \<Rightarrow>
    (case re_free env of None \<Rightarrow> (s, Inl SpaceUnchecked)
     | Some available \<Rightarrow>
        if available < required then (s, Inl RestoreNoSpace)
        else (case re_id env of None \<Rightarrow> (s, Inl NoRestoreId)
     | Some name \<Rightarrow>
        if \<not> re_mkdir env then (s, Inl NoStage)
        else (let stage = restoreStagePrefix @ name; s1 = s\<lparr>fs_stage := Some stage\<rparr> in
          case extract_archive (re_extract env) (join_path [target, stage]) m (re_reread env) of
            Inl e \<Rightarrow> (apply_op RemoveStage s1, Inl (NotExtracted e))
          | Inr files \<Rightarrow>
         (case prepare_staged (re_prepare env) target (re_database env files) of
            Inl e \<Rightarrow> (apply_op RemoveStage s1, Inl (NotPrepared e))
          | Inr prep \<Rightarrow>
         (case safety_backup env target name (fs_live s Database \<noteq> None) of
            Inl e \<Rightarrow> (apply_op RemoveStage s1, Inl e)
          | Inr safety \<Rightarrow> (s1\<lparr>fs_staged := re_staged env files prep\<rparr>, Inr (stage, safety)))))))))"

text \<open>
  The journal and the moves. \<open>re_published\<close> is how many of the operations succeed before one
  fails; then, and when the second journal cannot be written, recovery rolls back and the stage
  is removed.
\<close>

definition roll_back :: "fs \<Rightarrow> fs" where
  "roll_back s = apply_op RemoveStage (case recover_ops s of None \<Rightarrow> s | Some ops \<Rightarrow> run_ops ops s)"

definition restore_run :: "restore_env \<Rightarrow> string \<Rightarrow> fs \<Rightarrow> fs \<times> (restore_error, string) result" where
  "restore_run env target s =
    (case validate_restore_target (re_lstat env) target of Some e \<Rightarrow> (s, Inl (BadTarget e))
     | None \<Rightarrow>
    (case recover_ops s of None \<Rightarrow> (s, Inl NotRecovered)
     | Some ops \<Rightarrow>
    (case stage_restore env target (run_ops ops s) of
       (s1, Inl e) \<Rightarrow> (s1, Inl e)
     | (s1, Inr (stage, safety)) \<Rightarrow>
        if re_journal env = NotWritten then (apply_op RemoveStage s1, Inl NoJournalWritten)
        else if re_journal env = Unsynchronized
          then (apply_op RemoveStage (run_ops (take 1 (restore_ops stage s1)) s1), Inl NoJournalWritten)
        else (let todo = restore_ops stage s1 in
          case re_published env of
            Some n \<Rightarrow> (roll_back (run_ops (take (Suc n) todo) s1), Inl PublishFailed)
          | None \<Rightarrow>
             (case recover_ops (run_ops todo s1) of
                None \<Rightarrow> (apply_op RemoveStage (run_ops todo s1), Inl NotRecovered)
              | Some ops' \<Rightarrow> (run_ops ops' (run_ops todo s1), Inr safety))))))"

section \<open>What a restore leaves\<close>

lemma stage_restore_live:
  assumes "stage_restore env target s = (s1, r)"
  shows "fs_live s1 = fs_live s \<and> fs_prior s1 = fs_prior s \<and> fs_journal s1 = fs_journal s"
  using assms by (auto simp: stage_restore_def Let_def split: sum.splits option.splits if_splits)

lemma stage_restore_ok:
  assumes "stage_restore env target s = (s1, Inr (stage, safety))"
  shows "\<exists>m name files prep. verify_archive (re_archive env) (re_file env) = Inr m \<and> re_id env = Some name \<and>
    stage = restoreStagePrefix @ name \<and> fs_stage s1 = Some stage \<and>
    extract_archive (re_extract env) (join_path [target, stage]) m (re_reread env) = Inr files \<and>
    prepare_staged (re_prepare env) target (re_database env files) = Inr prep \<and>
    fs_staged s1 = re_staged env files prep \<and>
    safety_backup env target name (fs_live s Database \<noteq> None) = Inr safety"
  using assms by (auto simp: stage_restore_def Let_def split: sum.splits option.splits if_splits)


lemma stage_restore_prior:
  "stage_restore env target s = (s1, r) \<Longrightarrow> fs_prior s1 = fs_prior s"
  using stage_restore_live by blast

lemma prefix_life: "life stage s (run_ops (take n (restore_ops stage s)) s)"
  using crashed_prefix [of "take n (restore_ops stage s)" "drop n (restore_ops stage s)" s]
  by (intro life.restoring) simp

lemma roll_back_whole:
  assumes "ready stage s" and "life stage s t"
  shows "fs_live (roll_back t) = fs_live s \<or> fs_live (roll_back t) = fs_staged s"
proof (cases "recover_ops t")
  case (Some ops)
  with recovered_whole [OF life_safe [OF assms]] assms(1) show ?thesis by (simp add: ready_def roll_back_def)
next
  case None
  have "valid_stage_name stage" using assms(1) by (simp add: ready_def)
  with None life_safe [OF assms] show ?thesis
    by (auto simp: safe_def recover_prepared recover_published roll_back_def split: if_splits)
qed

lemma finished_restore:
  assumes "ready stage s"
  shows "\<exists>ops. recover_ops (run_ops (restore_ops stage s) s) = Some ops \<and>
    fs_live (run_ops ops (run_ops (restore_ops stage s) s)) = fs_staged s \<and>
    fs_journal (run_ops ops (run_ops (restore_ops stage s) s)) = NoJournal"
proof -
  let ?t = "run_ops (restore_ops stage s) s"
  have valid: "valid_stage_name stage" using assms by (simp add: ready_def)
  have t: "fs_live ?t = fs_staged s" "fs_journal ?t = Journal (published stage (fs_live s))" "fs_stage ?t = Some stage"
    using restored_state [OF assms] by (simp_all add: restore_ops_eq)
  have "recover_ops ?t = Some (map RemovePrior items @ [RemoveStage, RemoveJournal])"
    using recover_published [OF t(2) valid] t(3) by simp
  then show ?thesis using t by (simp add: items_def)
qed



definition sample_restore :: restore_env where
  "sample_restore = \<lparr>re_lstat = (\<lambda>p. if p = ''/t'' then Present Directory else Absent), re_archive = sample_archive_env,
     re_file = whole [Member \<lparr>th_name = ''manifest.json'', th_type = TypeReg, th_size = 2\<rparr> [(''{}'', None)],
       Member \<lparr>th_name = ''database/flixr.db'', th_type = TypeReg, th_size = 2\<rparr> [(''db'', None)],
       Member \<lparr>th_name = ''artwork/objects/image-1'', th_type = TypeReg, th_size = 3\<rparr> [(''art'', None)]],
     re_free = Some 100000000, re_id = Some ''0123456789ab'', re_mkdir = True, re_extract = sample_extract,
     re_reread = [Member \<lparr>th_name = ''manifest.json'', th_type = TypeReg, th_size = 2\<rparr> [(''{}'', None)],
       Member \<lparr>th_name = ''database/flixr.db'', th_type = TypeReg, th_size = 2\<rparr> [(''db'', None)],
       Member \<lparr>th_name = ''artwork/objects/image-1'', th_type = TypeReg, th_size = 3\<rparr> [(''art'', None)]],
     re_database = (\<lambda>_. \<lparr>sd_settings = [], sd_policy = sample_bp\<lparr>bp_enabled := True\<rparr>, sd_sessions = [''s'']\<rparr>),
     re_prepare = \<lparr>pe_opens = None, pe_settings = True, pe_policy = True, pe_sessions = True, pe_closes = True, pe_sidecar = True\<rparr>,
     re_staged = (\<lambda>_ _ _. Some ''new''), re_safety_dir = True, re_safety_open = True, re_safety = sample_create_env,
     re_journal = Written, re_published = None\<rparr>"

definition empty_target :: fs where
  "empty_target = \<lparr>fs_live = (\<lambda>_. None), fs_prior = (\<lambda>_. None), fs_staged = (\<lambda>_. None), fs_stage = None, fs_journal = NoJournal\<rparr>"

lemma sample_restore_runs: "snd (restore_run sample_restore ''/t'' empty_target) = Inr ''''"
  by code_simp


end
