(* ===== verification/EpisodeOrder.thy ===== *)
theory EpisodeOrder
  imports GoPath "HOL-Library.Product_Lexorder" "HOL-Library.Multiset"
begin

text \<open>
  The viewing order of a series (backend/catalog/episode_order.go) and the context that keeps a
  sequence inside one library and one edition directory (backend/catalog/next_episode.go). The
  catalog in memory is the list of its items, in the arbitrary order in which Go iterates over the
  map, and the titles of its series; the tables are the header of each saved order and its rows.
\<close>

record order_position =
  op_position :: int
  op_end_position :: int
  op_season :: int
  op_episode :: int
  op_episode_end :: int
  op_special :: bool

record catalog_item =
  it_id :: string
  it_title :: string
  it_kind :: string
  it_season :: int
  it_episode :: int
  it_episode_end :: int
  it_absolute_episode :: int
  it_series_id :: string
  it_playable :: bool
  it_path :: string
  it_root_kind :: string

record order_entry =
  oy_catalog_id :: string
  oy_title :: string
  oy_season :: int
  oy_episode :: int
  oy_episode_end :: int
  oy_absolute_episode :: int
  oy_mapping :: "order_position option"

record order_detail =
  od_series_id :: string
  od_title :: string
  od_order :: string
  od_revision :: int
  od_needs_repair :: bool
  od_entries :: "order_entry list"

record order_header =
  oh_kind :: string
  oh_revision :: int
  oh_repair :: bool

record order_row =
  ow_series_id :: string
  ow_catalog_id :: string
  ow_position :: order_position

record episode_catalog =
  ec_items :: "catalog_item list"
  ec_series :: "(string, string) gomap"
  ec_headers :: "(string, order_header) gomap"
  ec_rows :: "order_row list"
  ec_merging :: "string list"

datatype order_error = OrderNotFound | OrderInvalid | OrderConflict | OrderUnavailable

section \<open>The context of a sequence\<close>

text \<open>\<open>filepath.Dir\<close>: what is before the last separator, cleaned.\<close>

definition dir_of :: "string \<Rightarrow> string" where
  "dir_of p = clean (rev (dropWhile (\<lambda>c. c \<noteq> slash) (rev p)))"

definition trim_marks :: "string \<Rightarrow> string" where
  "trim_marks s = dropWhile (\<lambda>c. c \<in> set ''._-'') s"

fun season_number_loop :: "string \<Rightarrow> string list \<Rightarrow> int" where
  "season_number_loop normalized [] = - 1"
| "season_number_loop normalized (p # ps) =
    (if \<not> prefix p normalized then season_number_loop normalized ps
     else (case parse_int64 (trim_marks (trim_space (trim_prefix normalized p))) of
         Some n \<Rightarrow> n
       | None \<Rightarrow> season_number_loop normalized ps))"

definition season_directory_number :: "string \<Rightarrow> int" where
  "season_directory_number v = season_number_loop (to_lower (trim_space v)) [''season'', ''s'']"

definition sequence_context :: "catalog_item \<Rightarrow> string" where
  "sequence_context i =
    (let parts = split_at slash (dir_of (it_path i));
         kept = map (\<lambda>p. to_lower (trim_space p)) (filter (\<lambda>p. season_directory_number p \<noteq> it_season i) parts)
     in to_lower (it_root_kind i @ [CHR 0x00] @ join [slash] kept))"

section \<open>Reading a saved order\<close>

definition valid_order :: "string \<Rightarrow> bool" where
  "valid_order k \<longleftrightarrow> k = ''aired'' \<or> k = ''dvd'' \<or> k = ''absolute''"

definition series_episodes :: "episode_catalog \<Rightarrow> string \<Rightarrow> catalog_item list" where
  "series_episodes c s = filter (\<lambda>i. it_kind i = ''episode'' \<and> it_series_id i = s) (ec_items c)"

definition order_mapping :: "episode_catalog \<Rightarrow> string \<Rightarrow> (string, order_position) gomap" where
  "order_mapping c s = map (\<lambda>r. (ow_catalog_id r, ow_position r)) (filter (\<lambda>r. ow_series_id r = s) (ec_rows c))"

definition entry_of_item :: "(string, order_position) gomap \<Rightarrow> catalog_item \<Rightarrow> order_entry" where
  "entry_of_item mapped i =
    \<lparr>oy_catalog_id = it_id i, oy_title = it_title i, oy_season = it_season i, oy_episode = it_episode i,
     oy_episode_end = it_episode_end i, oy_absolute_episode = it_absolute_episode i, oy_mapping = map_of mapped (it_id i)\<rparr>"

definition header_of :: "episode_catalog \<Rightarrow> string \<Rightarrow> order_header" where
  "header_of c s = get_or \<lparr>oh_kind = ''aired'', oh_revision = 0, oh_repair = False\<rparr> (ec_headers c) s"

definition episode_order :: "episode_catalog \<Rightarrow> string \<Rightarrow> (order_error, order_detail) result" where
  "episode_order c s =
    (case map_of (ec_series c) s of
       None \<Rightarrow> Inl OrderNotFound
     | Some t \<Rightarrow>
        (let items = series_episodes c s; h = header_of c s; mapped = order_mapping c s;
             short = 0 < oh_revision h \<and> (oh_kind h \<noteq> ''aired'' \<or> mapped \<noteq> []) \<and> length mapped \<noteq> length items
         in Inr \<lparr>od_series_id = s, od_title = t, od_order = oh_kind h, od_revision = oh_revision h,
              od_needs_repair = (oh_repair h \<or> short),
              od_entries = sort_key oy_catalog_id (map (entry_of_item mapped) items)\<rparr>))"

section \<open>Saving an order\<close>

definition overlapping :: "order_position \<Rightarrow> order_position \<Rightarrow> bool" where
  "overlapping p q \<longleftrightarrow> op_position p \<le> op_end_position q \<and> op_position q \<le> op_end_position p"

definition valid_position :: "order_position \<Rightarrow> bool" where
  "valid_position p \<longleftrightarrow> 1 \<le> op_position p \<and> op_position p \<le> op_end_position p \<and> 0 \<le> op_season p \<and>
     1 \<le> op_episode p \<and> op_episode p \<le> op_episode_end p"

definition fits_source :: "order_entry \<Rightarrow> order_position \<Rightarrow> bool" where
  "fits_source src p \<longleftrightarrow> op_end_position p - op_position p = oy_episode_end src - oy_episode src \<and>
     op_episode_end p - op_episode p = oy_episode_end src - oy_episode src"

definition context_of :: "episode_catalog \<Rightarrow> string \<Rightarrow> string" where
  "context_of c i = (case find (\<lambda>x. it_id x = i) (ec_items c) of
      None \<Rightarrow> sequence_context \<lparr>it_id = '''', it_title = '''', it_kind = '''', it_season = 0, it_episode = 0, it_episode_end = 0,
        it_absolute_episode = 0, it_series_id = '''', it_playable = False, it_path = '''', it_root_kind = ''''\<rparr>
    | Some x \<Rightarrow> sequence_context x)"

text \<open>
  The loop over the submitted entries: nothing for an entry that is refused, else whether the
  order needs repair. The intervals taken so far are kept by context.
\<close>

fun save_loop :: "episode_catalog \<Rightarrow> (string, order_entry) gomap \<Rightarrow> string list \<Rightarrow> bool \<Rightarrow>
    (string, order_position list) gomap \<Rightarrow> order_entry list \<Rightarrow> bool option" where
  "save_loop c known seen repair intervals [] = Some repair"
| "save_loop c known seen repair intervals (e # es) =
    (case map_of known (oy_catalog_id e) of
       None \<Rightarrow> None
     | Some src \<Rightarrow>
        if oy_catalog_id e \<in> set seen then None
        else (case oy_mapping e of
            None \<Rightarrow> save_loop c known (oy_catalog_id e # seen) True intervals es
          | Some p \<Rightarrow>
             if \<not> valid_position p \<or> \<not> fits_source src p then None
             else (let ctx = context_of c (oy_catalog_id e); taken = get_or [] intervals ctx in
               save_loop c known (oy_catalog_id e # seen) (repair \<or> (\<exists>q \<in> set taken. overlapping p q))
                 (AList.update ctx (taken @ [p]) intervals) es)))"

definition known_entries :: "order_entry list \<Rightarrow> (string, order_entry) gomap" where
  "known_entries es = map (\<lambda>e. (oy_catalog_id e, e)) es"

definition final_repair :: "string \<Rightarrow> nat \<Rightarrow> order_entry list \<Rightarrow> bool \<Rightarrow> bool" where
  "final_repair order known es repair =
    (let r = repair \<or> (order \<noteq> ''aired'' \<or> es \<noteq> []) \<and> length es \<noteq> known in
     if order = ''aired'' \<and> es = [] then False else r)"

definition new_rows :: "string \<Rightarrow> order_entry list \<Rightarrow> order_row list" where
  "new_rows s es = List.map_filter (\<lambda>e. map_option (\<lambda>p. \<lparr>ow_series_id = s, ow_catalog_id = oy_catalog_id e, ow_position = p\<rparr>)
     (oy_mapping e)) es"

definition save_episode_order :: "episode_catalog \<Rightarrow> string \<Rightarrow> string \<Rightarrow> int \<Rightarrow> order_entry list \<Rightarrow>
    episode_catalog \<times> (order_error, order_detail) result" where
  "save_episode_order c s order revision es =
    (if \<not> valid_order order \<or> revision < 0 then (c, Inl OrderInvalid)
     else (case episode_order c s of
         Inl e \<Rightarrow> (c, Inl e)
       | Inr detail \<Rightarrow>
          if od_revision detail \<noteq> revision then (c, Inl OrderConflict)
          else if s \<in> set (ec_merging c) then (c, Inl OrderConflict)
          else (case save_loop c (known_entries (od_entries detail)) [] False [] es of
              None \<Rightarrow> (c, Inl OrderInvalid)
            | Some repair \<Rightarrow>
               if oh_revision (header_of c s) \<noteq> revision then (c, Inl OrderConflict)
               else (let c' = c\<lparr>ec_headers := AList.update s \<lparr>oh_kind = order, oh_revision = wrap64 (revision + 1),
                         oh_repair = final_repair order (length (od_entries detail)) es repair\<rparr> (ec_headers c),
                       ec_rows := filter (\<lambda>r. ow_series_id r \<noteq> s) (ec_rows c) @ new_rows s es\<rparr> in
                 (c', episode_order c' s)))))"

text \<open>The source spans stored for the items, read when the catalog is opened.\<close>

record span_row =
  sp_catalog_id :: string
  sp_season :: int
  sp_start :: int
  sp_end :: int
  sp_absolute :: int

definition load_spans :: "span_row list \<Rightarrow> catalog_item list \<Rightarrow> catalog_item list" where
  "load_spans rows items =
    fold (\<lambda>r is. map (\<lambda>i. if it_id i = sp_catalog_id r \<and> it_kind i = ''episode''
        then i\<lparr>it_season := sp_season r, it_episode := sp_start r, it_episode_end := sp_end r,
               it_absolute_episode := sp_absolute r\<rparr> else i) is) rows items"

section \<open>A provider's order\<close>

record provider_entry =
  pv_source_season :: int
  pv_source_episode :: int
  pv_absolute :: int
  pv_mapping :: order_position

text \<open>A source coordinate: a season and an episode, or an absolute number.\<close>

datatype source_key = SourceKey int int | AbsoluteKey int

definition source_keys :: "string \<Rightarrow> provider_entry \<Rightarrow> source_key list" where
  "source_keys order p =
    SourceKey (pv_source_season p) (pv_source_episode p) #
    (if order = ''absolute'' \<and> 0 < pv_absolute p then [AbsoluteKey (pv_absolute p)] else [])"

definition by_source :: "string \<Rightarrow> provider_entry list \<Rightarrow> source_key \<Rightarrow> provider_entry list" where
  "by_source order ps k = concat (map (\<lambda>p. map (\<lambda>_. p) (filter (\<lambda>k'. k' = k) (source_keys order p))) ps)"

definition entry_key :: "string \<Rightarrow> order_entry \<Rightarrow> nat \<Rightarrow> source_key" where
  "entry_key order e offset =
    (if order = ''absolute'' \<and> 0 < oy_absolute_episode e then AbsoluteKey (oy_absolute_episode e + int offset)
     else SourceKey (oy_season e) (oy_episode e + int offset))"

text \<open>The provider's entries for a span, or none when one is missing or ambiguous.\<close>

definition provider_span :: "string \<Rightarrow> provider_entry list \<Rightarrow> order_entry \<Rightarrow> provider_entry list" where
  "provider_span order ps e =
    (let found = map (\<lambda>k. by_source order ps (entry_key order e k)) [0..<nat (oy_episode_end e - oy_episode e + 1)]
     in if \<forall>xs \<in> set found. length xs = 1 then map hd found else [])"

definition consecutive :: "provider_entry list \<Rightarrow> bool" where
  "consecutive span =
    (let first = pv_mapping (hd span) in
     0 < op_position first \<and>
     list_all (\<lambda>(k, p). op_position (pv_mapping p) = op_position first + int k \<and> op_season (pv_mapping p) = op_season first \<and>
       op_episode (pv_mapping p) = op_episode first + int k \<and> op_special (pv_mapping p) = op_special first)
       (enumerate 0 span))"

definition span_mapping :: "provider_entry list \<Rightarrow> order_position" where
  "span_mapping span =
    (let first = pv_mapping (hd span); final = pv_mapping (last span) in
     \<lparr>op_position = op_position first, op_end_position = op_position final, op_season = op_season first,
      op_episode = op_episode first, op_episode_end = op_episode final, op_special = op_special first\<rparr>)"

definition map_entry :: "string \<Rightarrow> provider_entry list \<Rightarrow> order_entry \<Rightarrow> order_entry" where
  "map_entry order ps e =
    (let span = provider_span order ps e in
     e\<lparr>oy_mapping := if span = [] \<or> \<not> consecutive span then None else Some (span_mapping span)\<rparr>)"

text \<open>What the provider and the settings answer: the groups of the series, and the group asked for.\<close>

definition preview_order :: "bool \<Rightarrow> string list option \<Rightarrow> (string \<times> string \<times> provider_entry list) option \<Rightarrow>
    episode_catalog \<Rightarrow> string \<Rightarrow> string \<Rightarrow> (order_error, order_detail) result" where
  "preview_order available groups fetched c s grp =
    (if map_of (ec_series c) s = None then Inl OrderNotFound
     else if \<not> available then Inl OrderUnavailable
     else (case groups of None \<Rightarrow> Inl OrderUnavailable | Some gs \<Rightarrow>
       if grp \<notin> set gs then Inl OrderInvalid
       else (case fetched of None \<Rightarrow> Inl OrderUnavailable | Some (g, order, ps) \<Rightarrow>
         if g \<noteq> grp \<or> \<not> valid_order order then Inl OrderInvalid
         else (case episode_order c s of Inl e \<Rightarrow> Inl e | Inr detail \<Rightarrow>
           (let es = map (map_entry order ps) (od_entries detail) in
            Inr (detail\<lparr>od_order := order, od_needs_repair := \<exists>e \<in> set es. oy_mapping e = None, od_entries := es\<rparr>))))))"


section \<open>What a saved order is\<close>

definition sound_entry :: "(string, order_entry) gomap \<Rightarrow> order_entry \<Rightarrow> bool" where
  "sound_entry known e \<longleftrightarrow> (\<exists>src. map_of known (oy_catalog_id e) = Some src \<and>
     (\<forall>p. oy_mapping e = Some p \<longrightarrow> valid_position p \<and> fits_source src p))"

text \<open>Two entries of one context do not meet.\<close>

definition apart_entries :: "episode_catalog \<Rightarrow> order_entry \<Rightarrow> order_entry \<Rightarrow> bool" where
  "apart_entries c e e' \<longleftrightarrow> (\<forall>p q. oy_mapping e = Some p \<longrightarrow> oy_mapping e' = Some q \<longrightarrow>
     context_of c (oy_catalog_id e) = context_of c (oy_catalog_id e') \<longrightarrow> \<not> overlapping p q)"

lemma overlapping_sym: "overlapping p q \<longleftrightarrow> overlapping q p"
  by (auto simp: overlapping_def)

lemma save_loop_sound:
  "save_loop c known seen repair intervals es = Some r \<Longrightarrow>
   distinct (map oy_catalog_id es) \<and> set (map oy_catalog_id es) \<inter> set seen = {} \<and>
   (\<forall>e \<in> set es. sound_entry known e)"
proof (induction c known seen repair intervals es rule: save_loop.induct)
  case (2 c known seen repair intervals e es)
  then show ?case
    by (auto simp: sound_entry_def Let_def split: option.splits if_splits)
qed simp

lemma save_loop_clean:
  "save_loop c known seen repair intervals es = Some False \<Longrightarrow>
   \<not> repair \<and> (\<forall>e \<in> set es. \<exists>p. oy_mapping e = Some p \<and>
     (\<forall>q \<in> set (get_or [] intervals (context_of c (oy_catalog_id e))). \<not> overlapping p q)) \<and>
   sorted_wrt (apart_entries c) es"
proof (induction c known seen repair intervals es rule: save_loop.induct)
  case (2 c known seen repair intervals e es)
  note run = 2(3) and ih = 2(1,2)
  obtain src where src: "map_of known (oy_catalog_id e) = Some src"
    using run by (cases "map_of known (oy_catalog_id e)") simp_all
  have fresh: "oy_catalog_id e \<notin> set seen" using run src by (simp split: if_splits)
  show ?case
  proof (cases "oy_mapping e")
    case None
    with run src fresh have "save_loop c known (oy_catalog_id e # seen) True intervals es = Some False" by simp
    with ih(1) [OF src fresh None] show ?thesis by simp
  next
    case (Some p)
    let ?ctx = "context_of c (oy_catalog_id e)" let ?taken = "get_or [] intervals ?ctx"
    have ok: "\<not> (\<not> valid_position p \<or> \<not> fits_source src p)"
      using run src fresh Some by (simp split: if_splits)
    have rest: "save_loop c known (oy_catalog_id e # seen) (repair \<or> (\<exists>q \<in> set ?taken. overlapping p q))
        (AList.update ?ctx (?taken @ [p]) intervals) es = Some False"
      using run src fresh Some ok by (simp add: Let_def)
    from ih(2) [OF src fresh Some ok refl refl rest]
    have clean: "\<not> (repair \<or> (\<exists>q \<in> set ?taken. overlapping p q))"
      and each: "\<forall>x \<in> set es. \<exists>p'. oy_mapping x = Some p' \<and>
        (\<forall>q \<in> set (get_or [] (AList.update ?ctx (?taken @ [p]) intervals) (context_of c (oy_catalog_id x))). \<not> overlapping p' q)"
      and sorted: "sorted_wrt (apart_entries c) es" by blast+
    have grown: "get_or [] (AList.update ?ctx (?taken @ [p]) intervals) k =
        (if k = ?ctx then ?taken @ [p] else get_or [] intervals k)" for k
      by (simp add: get_or_def)
    have "apart_entries c e x" if "x \<in> set es" for x
      using each that Some grown [of "context_of c (oy_catalog_id x)"]
      by (auto simp: apart_entries_def overlapping_sym [of p])
    moreover have "\<forall>x \<in> set es. \<exists>p'. oy_mapping x = Some p' \<and>
        (\<forall>q \<in> set (get_or [] intervals (context_of c (oy_catalog_id x))). \<not> overlapping p' q)"
    proof
      fix x assume "x \<in> set es"
      with each obtain p' where "oy_mapping x = Some p'"
        "\<forall>q \<in> set (get_or [] (AList.update ?ctx (?taken @ [p]) intervals) (context_of c (oy_catalog_id x))). \<not> overlapping p' q"
        by blast
      with grown [of "context_of c (oy_catalog_id x)"] show "\<exists>p'. oy_mapping x = Some p' \<and>
        (\<forall>q \<in> set (get_or [] intervals (context_of c (oy_catalog_id x))). \<not> overlapping p' q)"
        by (auto split: if_splits)
    qed
    ultimately show ?thesis using clean sorted Some by auto
  qed
qed simp

lemma episode_order_entries:
  assumes "episode_order c s = Inr d"
  shows "mset (od_entries d) = mset (map (entry_of_item (order_mapping c s)) (series_episodes c s))"
    and "od_revision d = oh_revision (header_of c s)"
  using assms by (auto simp: episode_order_def Let_def split: option.splits)

lemma known_ids: "map_of (known_entries es) i \<noteq> None \<longleftrightarrow> i \<in> oy_catalog_id ` set es"
  by (auto simp: known_entries_def map_of_eq_None_iff image_image)

lemma save_failed: "save_episode_order c s order revision es = (c', Inl e) \<Longrightarrow> c' = c"
  by (auto simp: save_episode_order_def Let_def episode_order_def split: if_splits sum.splits option.splits)

lemma save_saved:
  assumes "save_episode_order c s order revision es = (c', Inr d)"
  shows "\<exists>before repair. valid_order order \<and> 0 \<le> revision \<and> episode_order c s = Inr before \<and>
    oh_revision (header_of c s) = revision \<and> s \<notin> set (ec_merging c) \<and>
    save_loop c (known_entries (od_entries before)) [] False [] es = Some repair \<and>
    c' = c\<lparr>ec_headers := AList.update s \<lparr>oh_kind = order, oh_revision = wrap64 (revision + 1),
        oh_repair = final_repair order (length (od_entries before)) es repair\<rparr> (ec_headers c),
      ec_rows := filter (\<lambda>r. ow_series_id r \<noteq> s) (ec_rows c) @ new_rows s es\<rparr> \<and> episode_order c' s = Inr d"
  using assms by (auto simp: save_episode_order_def Let_def split: if_splits sum.splits option.splits)



definition sample_episode :: "string \<Rightarrow> int \<Rightarrow> catalog_item" where
  "sample_episode i n = \<lparr>it_id = i, it_title = i, it_kind = ''episode'', it_season = 1, it_episode = n, it_episode_end = n,
     it_absolute_episode = 0, it_series_id = ''s'', it_playable = True, it_path = ''a'', it_root_kind = ''tv''\<rparr>"

definition sample_catalog :: episode_catalog where
  "sample_catalog = \<lparr>ec_items = [sample_episode ''b'' 2, sample_episode ''a'' 1, sample_episode ''c'' 3], ec_series = [(''s'', ''T'')],
     ec_headers = [], ec_rows = [], ec_merging = []\<rparr>"

text \<open>The order turned round: the third episode first.\<close>

definition sample_entries :: "order_entry list" where
  "sample_entries = map (\<lambda>(i, n, p). \<lparr>oy_catalog_id = i, oy_title = i, oy_season = 1, oy_episode = n, oy_episode_end = n,
      oy_absolute_episode = 0, oy_mapping = Some \<lparr>op_position = p, op_end_position = p, op_season = 1, op_episode = p,
        op_episode_end = p, op_special = False\<rparr>\<rparr>) [(''a'', 1, 3), (''b'', 2, 2), (''c'', 3, 1)]"

definition sample_saved :: "episode_catalog \<times> (order_error, order_detail) result" where
  "sample_saved = save_episode_order sample_catalog ''s'' ''dvd'' 0 sample_entries"

lemma sample_saved_detail:
  "(case snd sample_saved of Inl _ \<Rightarrow> False | Inr d \<Rightarrow> od_revision d = 1 \<and> \<not> od_needs_repair d)"
  by code_simp


end
