(* ===== verification/NextEpisode.thy ===== *)
theory NextEpisode
  imports EpisodeOrder
begin

text \<open>
  What plays next (backend/catalog/next_episode.go): the first episode after the current one, in
  the saved order when there is one and else by season and number, that can be played, is visible,
  is not completed and belongs to the same library and edition.
\<close>

datatype sequence_state =
    SequenceNext catalog_item | SequenceEnd | NotEpisodic | ContextUnavailable

datatype sequence_error = SequenceNotFound | OrderFailed order_error | VisibilityFailed

definition compare_episode :: "catalog_item \<Rightarrow> catalog_item \<Rightarrow> int" where
  "compare_episode a b =
    (if it_season a < it_season b then - 1 else if it_season a > it_season b then 1
     else if it_episode a < it_episode b then - 1 else if it_episode a > it_episode b then 1 else 0)"

text \<open>The positions of a saved order; empty when the series has none.\<close>

definition saved_positions :: "order_detail \<Rightarrow> (string, order_position) gomap" where
  "saved_positions d = fold (\<lambda>e m. case oy_mapping e of None \<Rightarrow> m | Some p \<Rightarrow> AList.update (oy_catalog_id e) p m)
     (od_entries d) []"

definition zero_position :: order_position where
  "zero_position = \<lparr>op_position = 0, op_end_position = 0, op_season = 0, op_episode = 0, op_episode_end = 0, op_special = False\<rparr>"

definition position_of :: "(string, order_position) gomap \<Rightarrow> catalog_item \<Rightarrow> int" where
  "position_of mapped i = op_position (get_or zero_position mapped (it_id i))"

definition of_series :: "bool \<Rightarrow> catalog_item \<Rightarrow> catalog_item \<Rightarrow> bool" where
  "of_series specials current i \<longleftrightarrow>
     it_id i \<noteq> it_id current \<and> it_kind i = ''episode'' \<and> it_series_id i = it_series_id current \<and> it_playable i \<and>
     0 < it_episode i \<and> \<not> (it_season i < 0 \<or> it_season i = 0 \<and> \<not> specials)"

definition comes_later :: "bool \<Rightarrow> (string, order_position) gomap \<Rightarrow> catalog_item \<Rightarrow> catalog_item \<Rightarrow> bool" where
  "comes_later specials mapped current i =
    (if mapped \<noteq> [] then
       (case (map_of mapped (it_id current), map_of mapped (it_id i)) of
          (Some p, Some q) \<Rightarrow> \<not> (\<not> specials \<and> op_special q) \<and> op_end_position p < op_position q
        | _ \<Rightarrow> False)
     else 0 < compare_episode i current)"

text \<open>
  The loop over the catalog: whether a later episode exists, whether one exists in the context,
  and the candidates. Asking whether an item is visible may fail.
\<close>

fun sequence_loop :: "bool \<Rightarrow> (string, order_position) gomap \<Rightarrow> (catalog_item \<Rightarrow> bool option) \<Rightarrow> string list \<Rightarrow> catalog_item \<Rightarrow>
    catalog_item list \<Rightarrow> (bool \<times> bool \<times> catalog_item list) option" where
  "sequence_loop specials mapped allowed completed current [] = Some (False, False, [])"
| "sequence_loop specials mapped allowed completed current (i # is) =
    (if \<not> of_series specials current i \<or> \<not> comes_later specials mapped current i
     then sequence_loop specials mapped allowed completed current is
     else (case allowed i of
         None \<Rightarrow> None
       | Some visible \<Rightarrow>
          (case sequence_loop specials mapped allowed completed current is of
             None \<Rightarrow> None
           | Some (later, here, found) \<Rightarrow>
              if \<not> visible then Some (later, here, found)
              else if sequence_context i \<noteq> sequence_context current then Some (True, here, found)
              else if it_id i \<in> set completed then Some (True, True, found)
              else Some (True, True, i # found))))"

definition order_key :: "(string, order_position) gomap \<Rightarrow> catalog_item \<Rightarrow> int \<times> int" where
  "order_key mapped i = (if mapped \<noteq> [] then (position_of mapped i, 0) else (it_season i, it_episode i))"

definition full_key :: "(string, order_position) gomap \<Rightarrow> catalog_item \<Rightarrow> (int \<times> int) \<times> string" where
  "full_key mapped i = (order_key mapped i, it_id i)"

definition sequence_result :: "(string, order_position) gomap \<Rightarrow> bool \<times> bool \<times> catalog_item list \<Rightarrow> sequence_state" where
  "sequence_result mapped r =
    (case r of (later, here, found) \<Rightarrow>
      (case sort_key (full_key mapped) found of
         [] \<Rightarrow> if later \<and> \<not> here then ContextUnavailable else SequenceEnd
       | [i] \<Rightarrow> SequenceNext i
       | i # j # _ \<Rightarrow> if order_key mapped i = order_key mapped j then ContextUnavailable else SequenceNext i))"

definition completed_episodes :: "(string \<times> string \<times> bool) list \<Rightarrow> episode_catalog \<Rightarrow> string \<Rightarrow> string \<Rightarrow> string list" where
  "completed_episodes progress c profile s =
    List.map_filter (\<lambda>(p, i, done). if p = profile \<and> done \<and> (\<exists>x \<in> set (ec_items c). it_id x = i \<and> it_series_id x = s)
      then Some i else None) progress"

definition episode_after :: "episode_catalog \<Rightarrow> (string \<times> string \<times> bool) list \<Rightarrow> string \<Rightarrow> string \<Rightarrow> bool \<Rightarrow>
    (catalog_item \<Rightarrow> bool option) \<Rightarrow> (sequence_error, sequence_state) result" where
  "episode_after c progress profile current_id specials allowed =
    (case find (\<lambda>i. it_id i = current_id) (ec_items c) of
       None \<Rightarrow> Inl SequenceNotFound
     | Some current \<Rightarrow>
        if it_kind current \<noteq> ''episode'' then Inr NotEpisodic
        else if it_season current < 0 \<or> it_episode current \<le> 0 \<or> it_season current = 0 \<and> \<not> specials
        then Inr ContextUnavailable
        else (case episode_order c (it_series_id current) of
            Inl e \<Rightarrow>
              if e \<noteq> OrderNotFound then Inl (OrderFailed e)
              else (case sequence_loop specials [] allowed (completed_episodes progress c profile (it_series_id current))
                           current (ec_items c) of
                  None \<Rightarrow> Inl VisibilityFailed
                | Some r \<Rightarrow> Inr (sequence_result [] r))
          | Inr d \<Rightarrow>
             if 0 < od_revision d \<and> od_needs_repair d then Inr ContextUnavailable
             else (let mapped = (if 0 < od_revision d then saved_positions d else []) in
               case sequence_loop specials mapped allowed (completed_episodes progress c profile (it_series_id current))
                      current (ec_items c) of
                 None \<Rightarrow> Inl VisibilityFailed
               | Some r \<Rightarrow> Inr (sequence_result mapped r))))"

section \<open>The candidates\<close>

definition later_visible :: "bool \<Rightarrow> (string, order_position) gomap \<Rightarrow> (catalog_item \<Rightarrow> bool option) \<Rightarrow> catalog_item \<Rightarrow>
    catalog_item \<Rightarrow> bool" where
  "later_visible specials mapped allowed current i \<longleftrightarrow>
     of_series specials current i \<and> comes_later specials mapped current i \<and> allowed i = Some True"

definition eligible :: "bool \<Rightarrow> (string, order_position) gomap \<Rightarrow> (catalog_item \<Rightarrow> bool option) \<Rightarrow> string list \<Rightarrow> catalog_item \<Rightarrow>
    catalog_item \<Rightarrow> bool" where
  "eligible specials mapped allowed completed current i \<longleftrightarrow>
     later_visible specials mapped allowed current i \<and> sequence_context i = sequence_context current \<and>
     it_id i \<notin> set completed"

lemma sequence_loop_result:
  "sequence_loop specials mapped allowed completed current is = Some (later, here, found) \<Longrightarrow>
   later = list_ex (later_visible specials mapped allowed current) is \<and>
   here = list_ex (\<lambda>i. later_visible specials mapped allowed current i \<and> sequence_context i = sequence_context current) is \<and>
   found = filter (eligible specials mapped allowed completed current) is"
proof (induction "is" arbitrary: later here found)
  case (Cons i "is")
  show ?case
  proof (cases "of_series specials current i \<and> comes_later specials mapped current i")
    case False
    with Cons show ?thesis by (auto simp: later_visible_def eligible_def)
  next
    case True
    with Cons.prems obtain visible later' here' found' where v: "allowed i = Some visible"
      "sequence_loop specials mapped allowed completed current is = Some (later', here', found')"
      by (auto split: option.splits)
    from Cons.IH [OF v(2)] True v Cons.prems show ?thesis
      by (auto simp: later_visible_def eligible_def split: if_splits)
  qed
qed simp

lemma sequence_loop_None:
  "sequence_loop specials mapped allowed completed current is = None \<longleftrightarrow>
   (\<exists>i \<in> set is. of_series specials current i \<and> comes_later specials mapped current i \<and> allowed i = None)"
  by (induction "is") (auto split: option.splits)

lemma sorted_full_key: "full_key mapped i \<le> full_key mapped j \<Longrightarrow> order_key mapped i \<le> order_key mapped j"
  by (simp add: full_key_def) (auto dest: less_imp_le)

text \<open>A candidate that is chosen is strictly before every other one.\<close>

lemma sequence_result_next:
  assumes "sequence_result mapped (later, here, found) = SequenceNext i" and "distinct (map it_id found)"
  shows "i \<in> set found \<and> (\<forall>j \<in> set found. j \<noteq> i \<longrightarrow> order_key mapped i < order_key mapped j)"
proof -
  let ?s = "sort_key (full_key mapped) found"
  have sorted: "sorted (map (full_key mapped) ?s)" by simp
  have same: "set ?s = set found" by simp
  show ?thesis
  proof (cases ?s)
    case Nil
    with assms(1) show ?thesis by (simp add: sequence_result_def split: if_splits)
  next
    case (Cons k ks)
    note first = Cons
    show ?thesis
    proof (cases ks)
      case Nil
      with first assms(1) same show ?thesis by (auto simp: sequence_result_def)
    next
      case (Cons l ls)
      with first assms(1) have i: "i = k" and ne: "order_key mapped k \<noteq> order_key mapped l"
        by (auto simp: sequence_result_def split: if_splits)
      have kl: "order_key mapped k < order_key mapped l"
        using sorted first Cons ne sorted_full_key [of mapped k l] by auto
      have "order_key mapped l \<le> order_key mapped j" if "j \<in> set (l # ls)" for j
        using sorted first Cons that sorted_full_key [of mapped l j] by auto
      with kl have "\<forall>j \<in> set (l # ls). order_key mapped k < order_key mapped j" by force
      moreover have "set found = insert k (set (l # ls))" using same first Cons by simp
      ultimately show ?thesis using i by auto
    qed
  qed
qed


section \<open>What comes next\<close>

text \<open>The guards before the loop, and the positions it then runs over.\<close>

definition sequence_positions :: "episode_catalog \<Rightarrow> string \<Rightarrow> (string, order_position) gomap" where
  "sequence_positions c s =
    (case episode_order c s of
       Inl _ \<Rightarrow> []
     | Inr d \<Rightarrow> if 0 < od_revision d then saved_positions d else [])"

lemma episode_after_loop:
  assumes "episode_after c progress profile current_id specials allowed = Inr st"
    and "st \<noteq> NotEpisodic" and "st \<noteq> ContextUnavailable"
  shows "\<exists>current r. find (\<lambda>i. it_id i = current_id) (ec_items c) = Some current \<and>
    sequence_loop specials (sequence_positions c (it_series_id current)) allowed
      (completed_episodes progress c profile (it_series_id current)) current (ec_items c) = Some r \<and>
    st = sequence_result (sequence_positions c (it_series_id current)) r"
proof -
  obtain current where cur: "find (\<lambda>i. it_id i = current_id) (ec_items c) = Some current"
    using assms(1) by (cases "find (\<lambda>i. it_id i = current_id) (ec_items c)") (simp_all add: episode_after_def)
  have guards: "it_kind current = ''episode''" "\<not> (it_season current < 0 \<or> it_episode current \<le> 0 \<or> it_season current = 0 \<and> \<not> specials)"
    using assms cur by (auto simp: episode_after_def split: if_splits)
  show ?thesis
  proof (cases "episode_order c (it_series_id current)")
    case (Inl e)
    with assms cur guards show ?thesis
      by (auto simp: episode_after_def sequence_positions_def split: if_splits option.splits)
  next
    case (Inr d)
    with assms cur guards show ?thesis
      by (auto simp: episode_after_def sequence_positions_def Let_def split: if_splits option.splits)
  qed
qed


section \<open>The order of the map\<close>

lemma sort_key_perm: "mset xs = mset ys \<Longrightarrow> inj_on f (set xs) \<Longrightarrow> sort_key f xs = sort_key f ys"
  by (rule sort_key_inj_key_eq) simp_all

lemma mset_distinct_map: "mset xs = mset ys \<Longrightarrow> distinct (map f xs) \<longleftrightarrow> distinct (map f ys)"
  by (metis mset_eq_imp_distinct_iff mset_map)

lemma find_unique:
  assumes "set xs = set ys" and "distinct (map f xs)"
  shows "find (\<lambda>x. f x = k) xs = find (\<lambda>x. f x = k) ys"
proof (cases "find (\<lambda>x. f x = k) xs")
  case None
  then have "find (\<lambda>x. f x = k) ys = None" using assms(1) by (simp add: find_None_iff)
  with None show ?thesis by simp
next
  case (Some x)
  then have x: "x \<in> set xs" "f x = k" by (auto simp: find_Some_iff)
  then have "find (\<lambda>x. f x = k) ys \<noteq> None" using assms(1) by (auto simp: find_None_iff)
  then obtain y where y: "find (\<lambda>x. f x = k) ys = Some y" by auto
  then have "y \<in> set xs" "f y = k" using assms(1) by (auto simp: find_Some_iff)
  with x assms(2) have "y = x" by (auto simp: distinct_map inj_on_def)
  with Some y show ?thesis by simp
qed

lemma episode_order_perm:
  assumes p: "mset (ec_items c') = mset (ec_items c)" and d: "distinct (map it_id (ec_items c))"
    and same: "ec_series c' = ec_series c" "ec_headers c' = ec_headers c" "ec_rows c' = ec_rows c"
  shows "episode_order c' s = episode_order c s"
proof -
  have items: "mset (series_episodes c' s) = mset (series_episodes c s)"
    using p by (simp add: series_episodes_def mset_filter)
  then have len: "length (series_episodes c' s) = length (series_episodes c s)" by (rule mset_eq_length)
  have maps: "order_mapping c' s = order_mapping c s" "header_of c' s = header_of c s"
    by (simp_all add: order_mapping_def header_of_def same)
  have "distinct (map it_id (series_episodes c s))"
    using d by (simp add: series_episodes_def distinct_map_filter)
  then have d': "inj_on it_id (set (series_episodes c' s))"
    using items mset_distinct_map [of "series_episodes c' s" "series_episodes c s" it_id] by (simp add: distinct_map)
  have "sort_key oy_catalog_id (map (entry_of_item (order_mapping c s)) (series_episodes c' s)) =
      sort_key oy_catalog_id (map (entry_of_item (order_mapping c s)) (series_episodes c s))"
  proof (rule sort_key_perm)
    show "mset (map (entry_of_item (order_mapping c s)) (series_episodes c' s)) =
        mset (map (entry_of_item (order_mapping c s)) (series_episodes c s))" using items by simp
    show "inj_on oy_catalog_id (set (map (entry_of_item (order_mapping c s)) (series_episodes c' s)))"
      using d' by (auto simp: inj_on_def entry_of_item_def)
  qed
  then show ?thesis by (cases "map_of (ec_series c) s") (simp_all add: episode_order_def same maps len Let_def)
qed

lemma sequence_loop_perm:
  assumes p: "mset is' = mset is" and d: "distinct (map it_id is)"
  shows "map_option (sequence_result mapped) (sequence_loop specials mapped allowed completed current is') =
    map_option (sequence_result mapped) (sequence_loop specials mapped allowed completed current is)"
proof (cases "sequence_loop specials mapped allowed completed current is")
  case None
  then have "sequence_loop specials mapped allowed completed current is' = None"
    using mset_eq_setD [OF p] by (simp add: sequence_loop_None)
  with None show ?thesis by simp
next
  case (Some r)
  then have "sequence_loop specials mapped allowed completed current is' \<noteq> None"
    using mset_eq_setD [OF p] sequence_loop_None [of specials mapped allowed completed current "is"]
    by (simp add: sequence_loop_None)
  then obtain r' where r': "sequence_loop specials mapped allowed completed current is' = Some r'" by auto
  obtain later here found later' here' found' where split: "r = (later, here, found)" "r' = (later', here', found')"
    by (cases r, cases r') auto
  note a = sequence_loop_result [OF Some [unfolded split]] and b = sequence_loop_result [OF r' [unfolded split]]
  have flags: "later' = later" "here' = here"
    using a b mset_eq_setD [OF p] by (simp_all add: list_ex_iff)
  have "mset found' = mset found" using a b p by (simp add: mset_filter)
  moreover have "inj_on (full_key mapped) (set found')"
  proof -
    have "inj_on it_id (set is)" using d by (simp add: distinct_map)
    moreover have "set found' \<subseteq> set is" using b mset_eq_setD [OF p] by auto
    ultimately show ?thesis by (auto simp: inj_on_def full_key_def)
  qed
  ultimately have "sort_key (full_key mapped) found' = sort_key (full_key mapped) found" by (rule sort_key_perm)
  then show ?thesis using Some r' by (simp add: split sequence_result_def flags)
qed

text \<open>
  The answer does not depend on the order in which Go iterates over the catalog's map: two
  runs over the same items in different orders give the same episode, or the same refusal.
\<close>

theorem next_episode_deterministic:
  assumes "mset (ec_items c') = mset (ec_items c)" and "distinct (map it_id (ec_items c))"
    and "c' = c\<lparr>ec_items := ec_items c'\<rparr>"
  shows "episode_after c' progress profile current_id specials allowed =
    episode_after c progress profile current_id specials allowed"
proof -
  have same: "ec_series c' = ec_series c" "ec_headers c' = ec_headers c" "ec_rows c' = ec_rows c"
    by (subst assms(3), simp)+
  have set_eq: "set (ec_items c') = set (ec_items c)" by (rule mset_eq_setD [OF assms(1)])
  have d': "distinct (map it_id (ec_items c'))" using assms(1,2) mset_distinct_map by metis
  have cur: "find (\<lambda>i. it_id i = current_id) (ec_items c') = find (\<lambda>i. it_id i = current_id) (ec_items c)"
    by (rule find_unique [OF set_eq d'])
  have finished: "completed_episodes progress c' profile s = completed_episodes progress c profile s" for s
    by (simp add: completed_episodes_def set_eq)
  note order = episode_order_perm [OF assms(1,2) same]
  have loop: "(case sequence_loop specials mapped allowed completed current (ec_items c') of
        None \<Rightarrow> Inl VisibilityFailed | Some r \<Rightarrow> Inr (sequence_result mapped r)) =
      (case sequence_loop specials mapped allowed completed current (ec_items c) of
        None \<Rightarrow> Inl VisibilityFailed | Some r \<Rightarrow> Inr (sequence_result mapped r))" for mapped completed current
    using sequence_loop_perm [OF assms(1,2), of mapped specials allowed completed current]
    by (cases "sequence_loop specials mapped allowed completed current (ec_items c')";
        cases "sequence_loop specials mapped allowed completed current (ec_items c)") simp_all
  show ?thesis
    unfolding episode_after_def cur order finished loop Let_def ..
qed


section \<open>A series in its turned order\<close>

definition sample_ordered :: episode_catalog where
  "sample_ordered = sample_catalog\<lparr>ec_headers := [(''s'', \<lparr>oh_kind = ''dvd'', oh_revision = 1, oh_repair = False\<rparr>)],
     ec_rows := map (\<lambda>(i, p). \<lparr>ow_series_id = ''s'', ow_catalog_id = i, ow_position =
       \<lparr>op_position = p, op_end_position = p, op_season = 1, op_episode = p, op_episode_end = p, op_special = False\<rparr>\<rparr>)
       [(''a'', 3), (''b'', 2), (''c'', 1)]\<rparr>"

definition sample_after :: "episode_catalog \<Rightarrow> (sequence_error, sequence_state) result" where
  "sample_after c = episode_after c [(''p'', ''b'', True)] ''p'' ''c'' False (\<lambda>i. Some (it_id i \<noteq> ''x''))"

lemma sample_after_saved: "sample_after sample_ordered = Inr (SequenceNext (sample_episode ''a'' 1))"
  by code_simp

lemma sample_distinct: "distinct (map it_id (ec_items sample_ordered))"
  by (simp add: sample_ordered_def sample_catalog_def sample_episode_def)


definition sample_turned :: episode_catalog where
  "sample_turned = sample_ordered\<lparr>ec_items := rev (ec_items sample_ordered)\<rparr>"

lemma next_episode_deterministic_witness:
  "sample_after sample_turned = sample_after sample_ordered \<and> ec_items sample_turned \<noteq> ec_items sample_ordered"
proof
  have "mset (ec_items sample_turned) = mset (ec_items sample_ordered)"
    and "sample_turned = sample_ordered\<lparr>ec_items := ec_items sample_turned\<rparr>"
    by (simp_all add: sample_turned_def)
  from next_episode_deterministic [OF this(1) sample_distinct this(2)]
  show "sample_after sample_turned = sample_after sample_ordered" by (simp add: sample_after_def)
  show "ec_items sample_turned \<noteq> ec_items sample_ordered"
    by (simp add: sample_turned_def sample_ordered_def sample_catalog_def sample_episode_def)
qed

end
