(* ===== verification/Exclusions.thy ===== *)
theory Exclusions
  imports GoPath
begin

text \<open>
  The exclusions of a library (backend/catalog/scan_scheduler.go): the patterns an owner may save,
  and which paths a pattern excludes. The code turns a pattern into a regular expression; its
  pieces are the data here, and what \<open>regexp\<close> does with the anchored expression is the matcher.
  A character is a byte, and a rune of the code where the text is ASCII.
\<close>

section \<open>Saving\<close>

definition not_relative :: "string \<Rightarrow> bool" where
  "not_relative p \<longleftrightarrow> p = '''' \<or> prefix ''/'' p \<or> p = ''..'' \<or> prefix ''../'' p \<or> contains p ''/../''"

fun exclusion_loop :: "string list \<Rightarrow> string list \<Rightarrow> string list option" where
  "exclusion_loop kept [] = Some kept"
| "exclusion_loop kept (p # ps) =
    (let q = trim_space p in
     if not_relative q then None
     else (let r = trim_prefix q ''./'' in
       if r \<in> set kept then exclusion_loop kept ps else exclusion_loop (kept @ [r]) ps))"

definition normalize_exclusions :: "string list \<Rightarrow> string list option" where
  "normalize_exclusions ps = map_option sort (exclusion_loop [] ps)"

section \<open>Matching\<close>

datatype glob_piece = Exactly char | Segment | Folders | Anything

definition star :: char where "star = CHR ''*''"
definition newline :: char where "newline = CHR 0x0A"

fun compile_glob :: "string \<Rightarrow> glob_piece list" where
  "compile_glob [] = []"
| "compile_glob [c] = [if c = star then Segment else Exactly c]"
| "compile_glob [c, d] =
    (if c = star then (if d = star then [Anything] else Segment # compile_glob [d])
     else Exactly c # compile_glob [d])"
| "compile_glob (c # d # e # p) =
    (if c = star
     then (if d = star then (if e = slash then Folders # compile_glob p else Anything # compile_glob (e # p))
           else Segment # compile_glob (d # e # p))
     else Exactly c # compile_glob (d # e # p))"

text \<open>
  \<open>[^/]*\<close> stands for anything without a separator, \<open>.*\<close> for anything on one line, and
  \<open>(?:.*/)?\<close> for nothing or for something on one line that ends in a separator.
\<close>

function fits_pieces :: "glob_piece list \<Rightarrow> string \<Rightarrow> bool" where
  "fits_pieces [] s \<longleftrightarrow> s = []"
| "fits_pieces (Exactly c # ps) [] \<longleftrightarrow> False"
| "fits_pieces (Exactly c # ps) (d # s) \<longleftrightarrow> c = d \<and> fits_pieces ps s"
| "fits_pieces (Segment # ps) [] \<longleftrightarrow> fits_pieces ps []"
| "fits_pieces (Segment # ps) (d # s) \<longleftrightarrow> fits_pieces ps (d # s) \<or> d \<noteq> slash \<and> fits_pieces (Segment # ps) s"
| "fits_pieces (Anything # ps) [] \<longleftrightarrow> fits_pieces ps []"
| "fits_pieces (Anything # ps) (d # s) \<longleftrightarrow> fits_pieces ps (d # s) \<or> d \<noteq> newline \<and> fits_pieces (Anything # ps) s"
| "fits_pieces (Folders # ps) s \<longleftrightarrow> fits_pieces ps s \<or> fits_pieces (Anything # Exactly slash # ps) s"
  by pat_completeness auto
termination
  by (relation "measure (\<lambda>(ps, s). 3 * length ps + length s + 6 * length (filter (\<lambda>p. p = Folders) ps))") auto

definition excluded_path :: "string \<Rightarrow> string list \<Rightarrow> bool" where
  "excluded_path path patterns \<longleftrightarrow> (\<exists>p \<in> set patterns. fits_pieces (compile_glob p) (trim_prefix path ''./''))"

section \<open>What the patterns mean\<close>

text \<open>The language of a pattern, read off its text.\<close>

inductive glob :: "string \<Rightarrow> string \<Rightarrow> bool" where
  glob_end: "glob [] []"
| glob_char: "c \<noteq> star \<Longrightarrow> glob p s \<Longrightarrow> glob (c # p) (c # s)"
| glob_segment: "\<not> prefix [star] p \<Longrightarrow> slash \<notin> set w \<Longrightarrow> glob p s \<Longrightarrow> glob (star # p) (w @ s)"
| glob_here: "glob p s \<Longrightarrow> glob (star # star # slash # p) s"
| glob_below: "newline \<notin> set w \<Longrightarrow> glob p s \<Longrightarrow> glob (star # star # slash # p) (w @ slash # s)"
| glob_anything: "\<not> prefix [slash] p \<Longrightarrow> newline \<notin> set w \<Longrightarrow> glob p s \<Longrightarrow> glob (star # star # p) (w @ s)"


lemma compile_cases:
  "c \<noteq> star \<Longrightarrow> compile_glob (c # p) = Exactly c # compile_glob p"
  "\<not> prefix [star] p \<Longrightarrow> compile_glob (star # p) = Segment # compile_glob p"
  "compile_glob (star # star # slash # p) = Folders # compile_glob p"
  "\<not> prefix [slash] p \<Longrightarrow> compile_glob (star # star # p) = Anything # compile_glob p"
  by (cases p rule: compile_glob.cases; simp)+

lemma matches_Exactly: "fits_pieces (Exactly c # ps) s \<longleftrightarrow> (\<exists>t. s = c # t \<and> fits_pieces ps t)"
  by (cases s) auto

lemma ex_list: "(\<exists>w. P w) \<longleftrightarrow> P [] \<or> (\<exists>d w. P (d # w))"
  by (metis list.exhaust)

lemma matches_Segment: "fits_pieces (Segment # ps) s \<longleftrightarrow> (\<exists>w t. s = w @ t \<and> slash \<notin> set w \<and> fits_pieces ps t)"
proof (induction s)
  case (Cons d s)
  have "(\<exists>w t. d # s = w @ t \<and> slash \<notin> set w \<and> fits_pieces ps t) \<longleftrightarrow>
      fits_pieces ps (d # s) \<or> (\<exists>w t. s = w @ t \<and> slash \<notin> set (d # w) \<and> fits_pieces ps t)"
    by (subst ex_list) (auto simp: Cons_eq_append_conv)
  with Cons show ?case by auto
qed simp

lemma matches_Anything: "fits_pieces (Anything # ps) s \<longleftrightarrow> (\<exists>w t. s = w @ t \<and> newline \<notin> set w \<and> fits_pieces ps t)"
proof (induction s)
  case (Cons d s)
  have "(\<exists>w t. d # s = w @ t \<and> newline \<notin> set w \<and> fits_pieces ps t) \<longleftrightarrow>
      fits_pieces ps (d # s) \<or> (\<exists>w t. s = w @ t \<and> newline \<notin> set (d # w) \<and> fits_pieces ps t)"
    by (subst ex_list) (auto simp: Cons_eq_append_conv)
  with Cons show ?case by auto
qed simp


lemma matches_Folders:
  "fits_pieces (Folders # ps) s \<longleftrightarrow> fits_pieces ps s \<or> (\<exists>w t. s = w @ slash # t \<and> newline \<notin> set w \<and> fits_pieces ps t)"
  by (auto simp: matches_Anything matches_Exactly)

lemmas piece_rules = compile_cases matches_Exactly matches_Segment matches_Anything matches_Folders

lemma glob_matches: "glob p s \<Longrightarrow> fits_pieces (compile_glob p) s"
  by (induction rule: glob.induct) (auto simp: piece_rules simp del: fits_pieces.simps(2-))

text \<open>The forms a pattern can have, with the rest that is read next.\<close>

lemma pattern_forms:
  obtains "p = []" | c q where "p = c # q" "c \<noteq> star"
  | q where "p = star # q" "\<not> prefix [star] q"
  | q where "p = star # star # slash # q"
  | q where "p = star # star # q" "\<not> prefix [slash] q"
proof (cases p)
  case (Cons c q)
  show thesis
  proof (cases "c = star \<and> prefix [star] q")
    case True
    then obtain r where q: "q = star # r" by (auto simp: prefix_def)
    show thesis
    proof (cases "prefix [slash] r")
      case True
      then obtain t where "r = slash # t" by (auto simp: prefix_def)
      with \<open>c = star \<and> _\<close> Cons q that(4) show thesis by simp
    qed (use \<open>c = star \<and> _\<close> Cons q that(5) in simp)
  qed (use Cons that(2,3) in auto)
qed (use that(1) in simp)

lemma matches_glob: "fits_pieces (compile_glob p) s \<Longrightarrow> glob p s"
proof (induction p arbitrary: s rule: length_induct)
  case (1 p)
  show ?case
  proof (cases p rule: pattern_forms)
    case 1
    with "1.prems" show ?thesis by (simp add: glob.intros)
  next
    case (2 c q)
    with "1.prems" obtain t where "s = c # t" "fits_pieces (compile_glob q) t" by (auto simp: piece_rules simp del: fits_pieces.simps)
    with 2 "1.IH" show ?thesis by (auto intro: glob.intros)
  next
    case (3 q)
    with "1.prems" obtain w t where "s = w @ t" "slash \<notin> set w" "fits_pieces (compile_glob q) t"
      by (auto simp: piece_rules simp del: fits_pieces.simps)
    with 3 "1.IH" show ?thesis by (auto intro: glob.intros)
  next
    case (4 q)
    with "1.prems" consider "fits_pieces (compile_glob q) s"
      | w t where "s = w @ slash # t" "newline \<notin> set w" "fits_pieces (compile_glob q) t"
      by (auto simp: piece_rules simp del: fits_pieces.simps)
    then show ?thesis using 4 "1.IH" by cases (auto intro: glob.intros)
  next
    case (5 q)
    with "1.prems" obtain w t where "s = w @ t" "newline \<notin> set w" "fits_pieces (compile_glob q) t"
      by (auto simp: piece_rules simp del: fits_pieces.simps)
    with 5 "1.IH" show ?thesis by (auto intro: glob.intros)
  qed
qed

lemma glob_iff: "glob p s \<longleftrightarrow> fits_pieces (compile_glob p) s"
  using glob_matches matches_glob by blast

text \<open>
  C34: The regular expressions built from the exclusions decide exactly the language of the
  patterns: a star stands for part of one path segment, two stars for anything on one line, two
  stars and a slash for any number of leading folders, and every other character for itself.
\<close>

theorem exclusion_means_glob:
  "excluded_path path patterns \<longleftrightarrow> (\<exists>p \<in> set patterns. glob p (trim_prefix path ''./''))"
  by (simp add: excluded_path_def glob_iff)

section \<open>What is saved\<close>

lemma exclusion_loop_result:
  "exclusion_loop kept ps = Some qs \<Longrightarrow> distinct kept \<Longrightarrow>
   distinct qs \<and> set qs = set kept \<union> (\<lambda>p. trim_prefix (trim_space p) ''./'') ` set ps \<and>
   (\<forall>p \<in> set ps. \<not> not_relative (trim_space p))"
proof (induction ps arbitrary: kept)
  case (Cons p ps)
  define r where "r = trim_prefix (trim_space p) ''./''"
  from Cons.prems(1) have ok: "\<not> not_relative (trim_space p)"
    and rest: "exclusion_loop (if r \<in> set kept then kept else kept @ [r]) ps = Some qs"
    by (simp_all add: Let_def r_def split: if_splits)
  from Cons.IH [OF rest] Cons.prems(2) have "distinct qs \<and> set qs = insert r (set kept) \<union>
      (\<lambda>p. trim_prefix (trim_space p) ''./'') ` set ps \<and> (\<forall>p \<in> set ps. \<not> not_relative (trim_space p))"
    by (auto split: if_splits)
  with ok show ?case by (simp add: r_def)
qed simp

lemma normalize_exclusions_result:
  assumes "normalize_exclusions ps = Some qs"
  shows "sorted qs" and "distinct qs" and "set qs = (\<lambda>p. trim_prefix (trim_space p) ''./'') ` set ps"
  using assms exclusion_loop_result [of "[]" ps] by (auto simp: normalize_exclusions_def)

text \<open>The check comes before the leading dot is dropped, so what was saved can be refused afterwards.\<close>

lemma saved_exclusion_refused:
  "normalize_exclusions [''./..'', ''.//x''] = Some [''..'', ''/x''] \<and> normalize_exclusions [''..'', ''/x''] = None"
  by code_simp

end
