(* ===== verification/ScanRoots.thy ===== *)
theory ScanRoots
  imports Exclusions
begin

text \<open>
  What a scan finds in the library locations and what it may conclude from it
  (backend/catalog/catalog.go and scan_safety.go): the walk over one location, the sources that
  are missing afterwards, and the verdict on the location. The file system is a tree as the walk
  meets it; a folder or an entry that cannot be read is a node of its own.
\<close>

datatype fs_node = FsMedia int int string | FsLink | FsBroken | FsUnreadable | FsFolder fs_list
and fs_list = FsNil | FsCons string fs_node fs_list

record scan_file =
  sf_location :: string
  sf_kind :: string
  sf_rel :: string
  sf_size :: int
  sf_mtime :: int
  sf_token :: string

record scan_root =
  sr_id :: string
  sr_library :: string
  sr_path :: string
  sr_kind :: string

record active_source =
  as_physical :: string
  as_catalog :: string
  as_rel :: string

text \<open>A request names the libraries to scan, all when it names none, and the files to retry.\<close>

record scan_request =
  rq_libraries :: "string list"
  rq_retry :: "(string \<times> string) list"

section \<open>Walking a location\<close>

definition dot :: char where "dot = CHR ''.''"

definition file_ext :: "string \<Rightarrow> string" where
  "file_ext p =
    (let r = takeWhile (\<lambda>c. c \<noteq> slash \<and> c \<noteq> dot) (rev p) in
     case drop (length r) (rev p) of
       [] \<Rightarrow> []
     | c # _ \<Rightarrow> if c = dot then dot # rev r else [])"

definition media :: "string \<Rightarrow> bool" where
  "media p \<longleftrightarrow> to_lower (file_ext p) \<in> set [''.mp4'', ''.mkv'', ''.webm'', ''.mov'', ''.avi'']"

definition child_path :: "string \<Rightarrow> string \<Rightarrow> string" where
  "child_path p n = (if p = ''.'' then n else p @ slash # n)"

definition wanted :: "scan_request \<Rightarrow> scan_root \<Rightarrow> string \<Rightarrow> bool" where
  "wanted q r p \<longleftrightarrow> rq_retry q = [] \<or> (sr_id r, p) \<in> set (rq_retry q)"

definition found_file :: "scan_root \<Rightarrow> string \<Rightarrow> int \<Rightarrow> int \<Rightarrow> string \<Rightarrow> scan_file" where
  "found_file r p bytes mtime token =
    \<lparr>sf_location = sr_id r, sf_kind = sr_kind r, sf_rel = p, sf_size = bytes, sf_mtime = mtime, sf_token = token\<rparr>"

text \<open>
  The walk visits a folder before its entries, skips a folder whose path is excluded, and ends at
  the first node it cannot read. Nothing is its answer then.
\<close>

fun walk_node :: "string list \<Rightarrow> scan_request \<Rightarrow> scan_root \<Rightarrow> string \<Rightarrow> fs_node \<Rightarrow> scan_file list option"
and walk_list :: "string list \<Rightarrow> scan_request \<Rightarrow> scan_root \<Rightarrow> string \<Rightarrow> fs_list \<Rightarrow> scan_file list option" where
  "walk_node ex q r p FsBroken = None"
| "walk_node ex q r p FsLink = Some []"
| "walk_node ex q r p FsUnreadable = (if p \<noteq> ''.'' \<and> excluded_path p ex then Some [] else None)"
| "walk_node ex q r p (FsMedia bytes mtime token) =
    (if p \<noteq> ''.'' \<and> excluded_path p ex then Some []
     else if media (if p = ''.'' then sr_path r else p) \<and> wanted q r p then Some [found_file r p bytes mtime token]
     else Some [])"
| "walk_node ex q r p (FsFolder es) = (if p \<noteq> ''.'' \<and> excluded_path p ex then Some [] else walk_list ex q r p es)"
| "walk_list ex q r p FsNil = Some []"
| "walk_list ex q r p (FsCons n x es) =
    (case walk_node ex q r (child_path p n) x of
       None \<Rightarrow> None
     | Some fs \<Rightarrow> map_option (\<lambda>gs. fs @ gs) (walk_list ex q r p es))"

section \<open>The verdict\<close>

definition massRemovalMinimum :: nat where "massRemovalMinimum = 10"
definition massRemovalPercent :: nat where "massRemovalPercent = 50"

definition suspicious_removal :: "nat \<Rightarrow> nat \<Rightarrow> nat \<Rightarrow> bool" where
  "suspicious_removal previous missing remaining =
    (if missing = 0 then False else if remaining = 0 then True
     else massRemovalMinimum \<le> missing \<and> previous * massRemovalPercent \<le> missing * 100)"

datatype verdict =
    Unreadable
  | Retried "scan_file list"
  | Suspicious nat "active_source list"
  | Complete "scan_file list" nat "active_source list"

definition missing_sources :: "string list \<Rightarrow> scan_file list \<Rightarrow> active_source list \<Rightarrow> active_source list" where
  "missing_sources ex files active =
    filter (\<lambda>s. \<not> excluded_path (as_rel s) ex \<and> as_rel s \<notin> sf_rel ` set files) active"

definition excluded_known :: "string list \<Rightarrow> active_source list \<Rightarrow> active_source list" where
  "excluded_known ex active = filter (\<lambda>s. excluded_path (as_rel s) ex) active"

definition judge_root :: "string list \<Rightarrow> scan_request \<Rightarrow> scan_root \<Rightarrow> fs_node \<Rightarrow> active_source list \<Rightarrow> verdict" where
  "judge_root ex q r node active =
    (case walk_node ex q r ''.'' node of
       None \<Rightarrow> Unreadable
     | Some files \<Rightarrow>
        if rq_retry q \<noteq> [] then Retried files
        else (let missing = missing_sources ex files active;
                  items = length files + length (excluded_known ex active)
          in if suspicious_removal (length active) (length missing) (length files) then Suspicious items missing
             else Complete files items missing))"

section \<open>All locations\<close>

record scan_pass =
  ps_files :: "scan_file list"
  ps_completed :: "(scan_root \<times> nat \<times> nat) list"
  ps_protected :: "string list"
  ps_protected_keys :: "(string \<times> string) list"
  ps_unavailable :: "scan_root list"
  ps_reviews :: "(scan_root \<times> nat \<times> active_source list) list"

definition empty_pass :: scan_pass where
  "empty_pass = \<lparr>ps_files = [], ps_completed = [], ps_protected = [], ps_protected_keys = [], ps_unavailable = [],
     ps_reviews = []\<rparr>"

record scan_world =
  sw_tree :: "string \<Rightarrow> fs_node"
  sw_exclusions :: "string \<Rightarrow> string list"
  sw_active :: "string \<Rightarrow> active_source list"

definition keep_excluded :: "scan_world \<Rightarrow> scan_root \<Rightarrow> scan_pass \<Rightarrow> scan_pass" where
  "keep_excluded w r p = p\<lparr>ps_protected_keys := ps_protected_keys p @
     map (\<lambda>s. (sr_id r, as_rel s)) (excluded_known (sw_exclusions w (sr_library r)) (sw_active w (sr_id r)))\<rparr>"

definition pass_root :: "scan_world \<Rightarrow> scan_request \<Rightarrow> scan_root \<Rightarrow> scan_pass \<Rightarrow> scan_pass" where
  "pass_root w q r p =
    (if rq_libraries q \<noteq> [] \<and> sr_library r \<notin> set (rq_libraries q) then p\<lparr>ps_protected := ps_protected p @ [sr_id r]\<rparr>
     else if sr_path r = '''' then p
     else (case judge_root (sw_exclusions w (sr_library r)) q r (sw_tree w (sr_path r)) (sw_active w (sr_id r)) of
         Unreadable \<Rightarrow> p\<lparr>ps_unavailable := ps_unavailable p @ [r], ps_protected := ps_protected p @ [sr_id r]\<rparr>
       | Retried files \<Rightarrow> (keep_excluded w r p)\<lparr>ps_protected := ps_protected p @ [sr_id r], ps_files := ps_files p @ files\<rparr>
       | Suspicious items missing \<Rightarrow> (keep_excluded w r p)\<lparr>ps_reviews := ps_reviews p @ [(r, items, missing)],
           ps_protected := ps_protected p @ [sr_id r]\<rparr>
       | Complete files items missing \<Rightarrow> (keep_excluded w r p)\<lparr>ps_completed := ps_completed p @ [(r, items, length missing)],
           ps_files := ps_files p @ files\<rparr>))"

definition scan_pass_over :: "scan_world \<Rightarrow> scan_request \<Rightarrow> scan_root list \<Rightarrow> scan_pass" where
  "scan_pass_over w q rs = fold (pass_root w q) rs empty_pass"

text \<open>
  How the scan ends: with the error of the first unreadable location when nothing was completed or
  put up for review, else with the changes stored, the unreadable locations and the reviews
  recorded, and a request for a review when there is one.
\<close>

datatype scan_end =
    LocationFailed scan_root
  | Stored "(scan_root \<times> nat \<times> nat) list" "scan_root list" "(scan_root \<times> nat \<times> active_source list) list" bool

definition conclude :: "scan_pass \<Rightarrow> scan_end" where
  "conclude p =
    (if ps_completed p = [] \<and> ps_unavailable p \<noteq> [] \<and> ps_reviews p = [] then LocationFailed (hd (ps_unavailable p))
     else Stored (ps_completed p) (ps_unavailable p) (ps_reviews p) (ps_reviews p \<noteq> []))"

text \<open>The locations whose state says afterwards that they were unreadable.\<close>

definition marked_unavailable :: "scan_end \<Rightarrow> scan_root list" where
  "marked_unavailable e = (case e of LocationFailed r \<Rightarrow> [r] | Stored _ rs _ _ \<Rightarrow> rs)"


text \<open>Files that were to be retried and were not found; the reason tells whether they are excluded.\<close>

definition retry_targets :: "scan_root list \<Rightarrow> (string \<times> string) list \<Rightarrow> scan_request \<Rightarrow> (string \<times> string) list" where
  "retry_targets rs known q = filter (\<lambda>(l, p). (l, p) \<in> set known \<or> l \<in> sr_id ` set rs) (rq_retry q)"

definition scanned_exclusions :: "scan_world \<Rightarrow> scan_request \<Rightarrow> scan_root list \<Rightarrow> string \<Rightarrow> string list" where
  "scanned_exclusions w q rs l =
    (case find (\<lambda>r. sr_id r = l \<and> sr_path r \<noteq> '''' \<and> (rq_libraries q = [] \<or> sr_library r \<in> set (rq_libraries q))) rs of
       None \<Rightarrow> []
     | Some r \<Rightarrow> sw_exclusions w (sr_library r))"

definition retry_failures :: "scan_world \<Rightarrow> scan_request \<Rightarrow> scan_root list \<Rightarrow> (string \<times> string) list \<Rightarrow>
    ((string \<times> string) \<times> string) list" where
  "retry_failures w q rs known =
    map (\<lambda>(l, p). ((l, p), if excluded_path p (scanned_exclusions w q rs l) then ''excluded_by_policy'' else ''not_found''))
      (filter (\<lambda>(l, p). (l, p) \<notin> (\<lambda>f. (sf_location f, sf_rel f)) ` set (ps_files (scan_pass_over w q rs)))
        (retry_targets rs known q))"

section \<open>What the walk finds\<close>

text \<open>The nodes at or below a node, without those behind an excluded folder.\<close>

inductive reaches :: "string list \<Rightarrow> string \<Rightarrow> fs_node \<Rightarrow> string \<Rightarrow> fs_node \<Rightarrow> bool"
  and lists :: "string list \<Rightarrow> string \<Rightarrow> fs_list \<Rightarrow> string \<Rightarrow> fs_node \<Rightarrow> bool" for ex where
  reach_here: "reaches ex p x p x"
| reach_below: "p = ''.'' \<or> \<not> excluded_path p ex \<Longrightarrow> lists ex p es p' x \<Longrightarrow> reaches ex p (FsFolder es) p' x"
| list_first: "reaches ex (child_path p n) y p' x \<Longrightarrow> lists ex p (FsCons n y es) p' x"
| list_rest: "lists ex p es p' x \<Longrightarrow> lists ex p (FsCons n y es) p' x"

inductive_simps reaches_simps [simp]:
  "reaches ex p FsBroken p' x" "reaches ex p FsLink p' x" "reaches ex p FsUnreadable p' x"
  "reaches ex p (FsMedia b m t) p' x" "reaches ex p (FsFolder es) p' x"

inductive_simps lists_simps [simp]: "lists ex p FsNil p' x" "lists ex p (FsCons n y es) p' x"

definition counted :: "string list \<Rightarrow> scan_request \<Rightarrow> scan_root \<Rightarrow> string \<Rightarrow> bool" where
  "counted ex q r p \<longleftrightarrow> (p = ''.'' \<or> \<not> excluded_path p ex) \<and> media (if p = ''.'' then sr_path r else p) \<and> wanted q r p"

lemma walk_finds:
  "walk_node ex q r p x = Some fs \<Longrightarrow>
     f \<in> set fs \<longleftrightarrow> (\<exists>p' b m t. reaches ex p x p' (FsMedia b m t) \<and> counted ex q r p' \<and> f = found_file r p' b m t)"
  "walk_list ex q r p es = Some fs \<Longrightarrow>
     f \<in> set fs \<longleftrightarrow> (\<exists>p' b m t. lists ex p es p' (FsMedia b m t) \<and> counted ex q r p' \<and> f = found_file r p' b m t)"
proof (induction ex q r p x and ex q r p es arbitrary: fs and fs rule: walk_node_walk_list.induct)
  case (7 ex q r p n x es)
  from "7.prems" obtain gs hs where g: "walk_node ex q r (child_path p n) x = Some gs"
    and h: "walk_list ex q r p es = Some hs" and fs: "fs = gs @ hs" by (auto split: option.splits)
  have "f \<in> set fs \<longleftrightarrow> f \<in> set gs \<or> f \<in> set hs" by (simp add: fs)
  also have "\<dots> \<longleftrightarrow> (\<exists>p' b m t. lists ex p (FsCons n x es) p' (FsMedia b m t) \<and> counted ex q r p' \<and> f = found_file r p' b m t)"
    unfolding "7.IH" (1) [OF g] "7.IH" (2) [OF g h] lists_simps by blast
  finally show ?case .
qed (auto simp: counted_def split: if_splits)


section \<open>What a scan may remove\<close>

lemma judge_complete:
  assumes "judge_root ex q r node active = Complete files items missing"
  shows "walk_node ex q r ''.'' node = Some files" and "rq_retry q = []"
    and "missing = missing_sources ex files active"
    and "\<not> suspicious_removal (length active) (length missing) (length files)"
  using assms by (auto simp: judge_root_def Let_def split: option.splits if_splits)

lemma missing_gone:
  assumes "judge_root ex q r node active = Complete files items missing"
  shows "(\<forall>s \<in> set missing. s \<in> set active \<and> \<not> excluded_path (as_rel s) ex \<and>
      (\<forall>b m t. reaches ex ''.'' node (as_rel s) (FsMedia b m t) \<longrightarrow> \<not> counted ex q r (as_rel s))) \<and>
    (missing = [] \<or> files \<noteq> [] \<and> (length missing < 10 \<or> 2 * length missing < length active))"
proof
  note walk = walk_finds(1) [OF judge_complete(1) [OF assms]]
  show "\<forall>s \<in> set missing. s \<in> set active \<and> \<not> excluded_path (as_rel s) ex \<and>
      (\<forall>b m t. reaches ex ''.'' node (as_rel s) (FsMedia b m t) \<longrightarrow> \<not> counted ex q r (as_rel s))"
  proof
    fix s assume "s \<in> set missing"
    then have s: "s \<in> set active" "\<not> excluded_path (as_rel s) ex" "as_rel s \<notin> sf_rel ` set files"
      using judge_complete(3) [OF assms] by (simp_all add: missing_sources_def)
    have "\<not> counted ex q r (as_rel s)" if "reaches ex ''.'' node (as_rel s) (FsMedia b m t)" for b m t
    proof
      assume "counted ex q r (as_rel s)"
      with that have "found_file r (as_rel s) b m t \<in> set files" unfolding walk by blast
      then have "sf_rel (found_file r (as_rel s) b m t) \<in> sf_rel ` set files" by (rule imageI)
      with s(3) show False by (simp add: found_file_def)
    qed
    with s show "s \<in> set active \<and> \<not> excluded_path (as_rel s) ex \<and>
      (\<forall>b m t. reaches ex ''.'' node (as_rel s) (FsMedia b m t) \<longrightarrow> \<not> counted ex q r (as_rel s))" by blast
  qed
  show "missing = [] \<or> files \<noteq> [] \<and> (length missing < 10 \<or> 2 * length missing < length active)"
    using judge_complete(4) [OF assms]
    by (auto simp: suspicious_removal_def massRemovalMinimum_def massRemovalPercent_def split: if_splits)
qed

text \<open>A location is completed when it is in scope and judged complete, and is protected otherwise.\<close>

definition completes :: "scan_world \<Rightarrow> scan_request \<Rightarrow> scan_root \<Rightarrow> nat \<Rightarrow> nat \<Rightarrow> bool" where
  "completes w q r items n \<longleftrightarrow>
     (rq_libraries q = [] \<or> sr_library r \<in> set (rq_libraries q)) \<and>
     (\<exists>files missing. judge_root (sw_exclusions w (sr_library r)) q r (sw_tree w (sr_path r)) (sw_active w (sr_id r)) =
        Complete files items missing \<and> n = length missing)"

lemma pass_root_effect:
  assumes "sr_path r \<noteq> ''''"
  shows "set (ps_completed (pass_root w q r p)) = set (ps_completed p) \<union> {(r, i, n) | i n. completes w q r i n}"
    and "set (ps_protected (pass_root w q r p)) =
      set (ps_protected p) \<union> (if \<exists>i n. completes w q r i n then {} else {sr_id r})"
  using assms by (auto simp: pass_root_def completes_def keep_excluded_def split: verdict.splits)

lemma pass_root_empty:
  assumes "sr_path r = ''''"
  shows "ps_completed (pass_root w q r p) = ps_completed p"
    and "set (ps_protected (pass_root w q r p)) \<subseteq> insert (sr_id r) (set (ps_protected p))"
  using assms by (auto simp: pass_root_def)

lemma pass_root_protected: "set (ps_protected (pass_root w q r p)) \<subseteq> insert (sr_id r) (set (ps_protected p))"
  by (cases "sr_path r = ''''") (auto simp: pass_root_effect pass_root_empty dest: pass_root_empty(2) [THEN subsetD])

lemma fold_protected:
  "set (ps_protected (fold (pass_root w q) rs p)) \<subseteq> sr_id ` set rs \<union> set (ps_protected p)"
proof (induction rs arbitrary: p)
  case (Cons r rs)
  show ?case using Cons.IH [of "pass_root w q r p"] pass_root_protected [of w q r p] by auto
qed simp

lemma pass_root_mono:
  "set (ps_protected p) \<subseteq> set (ps_protected (pass_root w q r p))"
  "set (ps_completed p) \<subseteq> set (ps_completed (pass_root w q r p))"
  by (auto simp: pass_root_def keep_excluded_def split: verdict.splits)

lemma fold_mono:
  "set (ps_protected p) \<subseteq> set (ps_protected (fold (pass_root w q) rs p)) \<and>
   set (ps_completed p) \<subseteq> set (ps_completed (fold (pass_root w q) rs p))"
proof (induction rs arbitrary: p)
  case (Cons r rs)
  show ?case using Cons.IH [of "pass_root w q r p"] pass_root_mono [of p w q r] by auto
qed simp

lemma completed_sound:
  "(r, i, n) \<in> set (ps_completed (fold (pass_root w q) rs p)) \<Longrightarrow> sr_path r \<noteq> '''' \<Longrightarrow>
   (r, i, n) \<notin> set (ps_completed p) \<Longrightarrow> completes w q r i n"
proof (induction rs arbitrary: p)
  case (Cons x rs)
  show ?case
  proof (cases "(r, i, n) \<in> set (ps_completed (pass_root w q x p))")
    case True
    with Cons.prems pass_root_effect(1) [of x w q p] pass_root_empty(1) [of x w q p] show ?thesis
      by (cases "sr_path x = ''''") auto
  qed (use Cons in simp)
qed simp

lemma pass_location:
  assumes "distinct (map sr_id rs)" and "r \<in> set rs" and "sr_path r \<noteq> ''''" and "sr_id r \<notin> set (ps_protected p)"
  shows "if \<exists>i n. completes w q r i n
    then sr_id r \<notin> set (ps_protected (fold (pass_root w q) rs p)) \<and>
      (\<forall>i n. completes w q r i n \<longrightarrow> (r, i, n) \<in> set (ps_completed (fold (pass_root w q) rs p)))
    else sr_id r \<in> set (ps_protected (fold (pass_root w q) rs p))"
  using assms
proof (induction rs arbitrary: p)
  case (Cons x rs)
  show ?case
  proof (cases "x = r")
    case True
    with Cons.prems have notin: "sr_id r \<notin> sr_id ` set rs" by auto
    let ?p = "pass_root w q r p"
    note effect = pass_root_effect [OF Cons.prems(3), of w q p]
      and upper = fold_protected [of w q rs ?p] and lower = fold_mono [of ?p w q rs]
    show ?thesis
    proof (cases "\<exists>i n. completes w q r i n")
      case ends: True
      then have "set (ps_protected ?p) = set (ps_protected p)" using effect(2) by simp
      with upper notin Cons.prems(4) have "sr_id r \<notin> set (ps_protected (fold (pass_root w q) rs ?p))" by auto
      moreover have "(r, i, n) \<in> set (ps_completed (fold (pass_root w q) rs ?p))" if "completes w q r i n" for i n
        using that effect(1) lower by auto
      ultimately show ?thesis using ends True by simp
    next
      case False
      then have "sr_id r \<in> set (ps_protected ?p)" using effect(2) by simp
      with lower False True show ?thesis by auto
    qed
  next
    case False
    with Cons.prems(2) have r: "r \<in> set rs" by auto
    then have "sr_id r \<in> sr_id ` set rs" by (rule imageI)
    with Cons.prems(1) have ne: "sr_id r \<noteq> sr_id x" by auto
    then have "sr_id r \<notin> set (ps_protected (pass_root w q x p))"
      using ne Cons.prems(4) pass_root_protected [of w q x p] by auto
    from Cons.IH [OF _ r Cons.prems(3) this] Cons.prems(1) show ?thesis by simp
  qed
qed simp




section \<open>A library with two locations\<close>

definition sample_root :: "string \<Rightarrow> scan_root" where
  "sample_root i = \<lparr>sr_id = i, sr_library = ''l'', sr_path = i, sr_kind = ''film''\<rparr>"

definition sample_tree :: fs_node where
  "sample_tree = FsFolder (FsCons ''a.mkv'' (FsMedia 1 0 ''t'')
     (FsCons ''X'' (FsFolder (FsCons ''b.mkv'' (FsMedia 1 0 ''t'') FsNil)) FsNil))"

definition sample_source :: "string \<Rightarrow> active_source" where
  "sample_source p = \<lparr>as_physical = p, as_catalog = p, as_rel = p\<rparr>"

text \<open>A third film is gone from the first location; the second cannot be read.\<close>

definition sample_world :: "string list \<Rightarrow> scan_world" where
  "sample_world ex = \<lparr>sw_tree = (\<lambda>p. if p = ''m'' then sample_tree else FsBroken), sw_exclusions = (\<lambda>_. ex),
     sw_active = (\<lambda>l. if l = ''m'' then map sample_source [''a.mkv'', ''X/b.mkv'', ''c.mkv''] else [sample_source ''d.mkv''])\<rparr>"

definition full_request :: scan_request where
  "full_request = \<lparr>rq_libraries = [], rq_retry = []\<rparr>"

lemma sample_judged:
  "judge_root [] full_request (sample_root ''m'') (sw_tree (sample_world []) ''m'') (sw_active (sample_world []) ''m'') =
    Complete [found_file (sample_root ''m'') ''a.mkv'' 1 0 ''t'', found_file (sample_root ''m'') ''X/b.mkv'' 1 0 ''t''] 2
      [sample_source ''c.mkv'']"
  by code_simp


text \<open>
  A folder that is excluded by its name loses its titles, although the documentation promises
  that titles from an excluded path remain: the walk skips the folder, but its known sources do
  not match the pattern, so that they count as missing. The pattern for its content keeps them.
\<close>

theorem excluded_folder_loses_titles:
  "(case judge_root [''X''] full_request (sample_root ''m'') sample_tree (map sample_source [''a.mkv'', ''X/b.mkv'']) of
     Complete _ _ missing \<Rightarrow> map as_rel missing = [''X/b.mkv''] | _ \<Rightarrow> False) \<and>
   (case judge_root [''X/**''] full_request (sample_root ''m'') sample_tree (map sample_source [''a.mkv'', ''X/b.mkv'']) of
     Complete _ _ missing \<Rightarrow> missing = [] | _ \<Rightarrow> False)"
  by code_simp

text \<open>
  When no location can be read, only the first one is recorded as unavailable: the others keep
  the state of their last scan, as if they were still there.
\<close>

theorem only_first_unreadable_marked:
  assumes "rs \<noteq> []" and "list_all (\<lambda>r. sr_path r \<noteq> '''' \<and> sw_tree w (sr_path r) = FsBroken) rs" and "rq_libraries q = []"
  shows "marked_unavailable (conclude (scan_pass_over w q rs)) = [hd rs]"
proof -
  have broken: "pass_root w q r p = p\<lparr>ps_unavailable := ps_unavailable p @ [r], ps_protected := ps_protected p @ [sr_id r]\<rparr>"
    if "sr_path r \<noteq> ''''" "sw_tree w (sr_path r) = FsBroken" for r p
    using that assms(3) by (simp add: pass_root_def judge_root_def)
  have "ps_completed (fold (pass_root w q) rs p) = ps_completed p \<and> ps_reviews (fold (pass_root w q) rs p) = ps_reviews p \<and>
      ps_unavailable (fold (pass_root w q) rs p) = ps_unavailable p @ rs" for p
    using assms(2) by (induction rs arbitrary: p) (simp_all add: broken)
  then show ?thesis using assms(1) by (simp add: scan_pass_over_def empty_pass_def conclude_def marked_unavailable_def)
qed

lemma only_first_unreadable_marked_witness:
  "marked_unavailable (conclude (scan_pass_over (sample_world []) full_request [sample_root ''n'', sample_root ''o''])) =
    [sample_root ''n'']"
  using only_first_unreadable_marked [of "[sample_root ''n'', sample_root ''o'']" "sample_world []" full_request]
  by (simp add: sample_root_def sample_world_def full_request_def)

end
