(* ===== verification/Libraries.thy ===== *)
theory Libraries
  imports Destination ScanRoots "HOL-Library.Product_Lexorder"
begin

text \<open>
  Libraries and their locations (backend/catalog/libraries.go, the roots of catalog.go, and the
  reviews of scan_safety.go): named libraries, folders that must not overlap, previews of a move,
  reviews of a suspicious removal, and which file a title is played from. The tables are lists of
  rows. A method that holds the catalog's mutex, or runs in one transaction, is one step; deleting
  a library is two statements and setting the roots two critical sections.
\<close>

record library_row =
  lb_id :: string
  lb_name :: string
  lb_kind :: string

record location_row =
  lr_id :: string
  lr_library :: string
  lr_root :: string
  lr_revision :: int
  lr_state :: string
  lr_complete :: bool
  lr_items :: nat
  lr_missing :: nat
  lr_pending :: string
  lr_last_scan :: string
  lr_message :: string

record physical_row =
  pf_id :: string
  pf_catalog :: string
  pf_location :: string
  pf_rel :: string
  pf_present :: bool
  pf_selected :: bool

record item_row =
  ir_id :: string
  ir_kind :: string
  ir_primary :: "string option"
  ir_location :: string
  ir_rel :: string
  ir_available :: bool
  ir_playable :: bool
  ir_merged :: string
  ir_series :: string
  ir_sidecars :: "string list"

record series_row =
  se_id :: string
  se_merged :: string
  se_playable :: bool
  se_demo :: bool

record merge_row =
  mg_kind :: string
  mg_survivor :: string
  mg_source :: string
  mg_active :: bool

record preview_row =
  pr_id :: string
  pr_location :: string
  pr_revision :: int
  pr_new_root :: string
  pr_origin :: string
  pr_count :: nat
  pr_sources :: "(string \<times> string) list"

record candidate_row =
  cr_location :: string
  cr_scan :: string
  cr_physical :: string
  cr_catalog :: string

record library_db =
  ld_libraries :: "library_row list"
  ld_locations :: "location_row list"
  ld_previews :: "preview_row list"
  ld_candidates :: "candidate_row list"
  ld_physical :: "physical_row list"
  ld_items :: "item_row list"
  ld_series :: "series_row list"
  ld_merges :: "merge_row list"
  ld_film :: string
  ld_tv :: string
  ld_scanning :: bool

datatype library_error =
    LibraryNotFound | LocationNotFound | OverlappingLocation string | ReviewRequired | InvalidLibrary
  | HasLocations | OutsideRoot | ScanActive | ReviewNotFound | RowRefused

text \<open>What the file system says: the working directory, which paths are directories, EvalSymlinks.\<close>

record library_fs =
  lf_cwd :: string
  lf_is_dir :: "string \<Rightarrow> bool"
  lf_links :: "string \<Rightarrow> string option"

section \<open>Paths\<close>

definition abs_path :: "library_fs \<Rightarrow> string \<Rightarrow> string" where
  "abs_path fs p = (if is_abs p then clean p else join_path [lf_cwd fs, p])"

definition canonical :: "library_fs \<Rightarrow> string \<Rightarrow> string" where
  "canonical fs p = (case lf_links fs (clean p) of None \<Rightarrow> clean p | Some q \<Rightarrow> clean q)"

definition canonical_root :: "library_fs \<Rightarrow> string \<Rightarrow> string" where
  "canonical_root fs p = (if p = '''' then '''' else canonical fs (abs_path fs p))"

definition locations_overlap :: "string \<Rightarrow> string \<Rightarrow> bool" where
  "locations_overlap a b \<longleftrightarrow> path_within a b \<or> path_within b a"

definition validate_path :: "library_fs \<Rightarrow> library_db \<Rightarrow> string \<Rightarrow> string \<Rightarrow> (library_error, string) result" where
  "validate_path fs d except p =
    (let p = trim_space p in
     if p = '''' then Inl OutsideRoot
     else if \<not> lf_is_dir fs (abs_path fs p) then Inl OutsideRoot
     else (let c = canonical fs (abs_path fs p) in
       case find (\<lambda>l. lr_id l \<noteq> except \<and> locations_overlap c (canonical fs (lr_root l))) (ld_locations d) of
         Some l \<Rightarrow> Inl (OverlappingLocation (lr_id l))
       | None \<Rightarrow> Inr c))"

definition validate_roots :: "library_fs \<Rightarrow> string \<Rightarrow> string \<Rightarrow> bool" where
  "validate_roots fs film tv \<longleftrightarrow> (\<forall>p \<in> {film, tv}. p = '''' \<or> lf_is_dir fs (abs_path fs p))"

section \<open>Libraries\<close>

definition find_location :: "library_db \<Rightarrow> string \<Rightarrow> location_row option" where
  "find_location d i = find (\<lambda>l. lr_id l = i) (ld_locations d)"

definition update_location :: "string \<Rightarrow> (location_row \<Rightarrow> location_row) \<Rightarrow> library_db \<Rightarrow> library_db" where
  "update_location i f d = d\<lparr>ld_locations := map (\<lambda>l. if lr_id l = i then f l else l) (ld_locations d)\<rparr>"

definition new_location :: "string \<Rightarrow> string \<Rightarrow> string \<Rightarrow> location_row" where
  "new_location i lib root =
    \<lparr>lr_id = i, lr_library = lib, lr_root = root, lr_revision = 1, lr_state = ''unknown'', lr_complete = False,
     lr_items = 0, lr_missing = 0, lr_pending = '''', lr_last_scan = '''', lr_message = ''''\<rparr>"

definition create_library :: "library_db \<Rightarrow> string \<Rightarrow> string \<Rightarrow> string \<Rightarrow> library_db \<times> (library_error, library_row) result" where
  "create_library d i name kind =
    (let n = trim_space name; b = \<lparr>lb_id = i, lb_name = n, lb_kind = kind\<rparr> in
     if n = '''' \<or> kind \<noteq> ''film'' \<and> kind \<noteq> ''episode'' then (d, Inl InvalidLibrary)
     else if i \<in> lb_id ` set (ld_libraries d) then (d, Inl RowRefused)
     else (d\<lparr>ld_libraries := ld_libraries d @ [b]\<rparr>, Inr b))"

definition rename_library :: "library_db \<Rightarrow> string \<Rightarrow> string \<Rightarrow> library_db \<times> (library_error, unit) result" where
  "rename_library d i name =
    (let n = trim_space name in
     if i = '''' \<or> n = '''' then (d, Inl InvalidLibrary)
     else if i \<notin> lb_id ` set (ld_libraries d) then (d, Inl LibraryNotFound)
     else (d\<lparr>ld_libraries := map (\<lambda>b. if lb_id b = i then b\<lparr>lb_name := n\<rparr> else b) (ld_libraries d)\<rparr>, Inr ()))"

text \<open>The rows of a location that go with it: its preview and its candidates.\<close>

definition drop_location :: "string \<Rightarrow> library_db \<Rightarrow> library_db" where
  "drop_location i d =
    d\<lparr>ld_locations := filter (\<lambda>l. lr_id l \<noteq> i) (ld_locations d),
      ld_previews := filter (\<lambda>p. pr_location p \<noteq> i) (ld_previews d),
      ld_candidates := filter (\<lambda>c. cr_location c \<noteq> i) (ld_candidates d)\<rparr>"

definition delete_library_check :: "library_db \<Rightarrow> string \<Rightarrow> (library_error, unit) result" where
  "delete_library_check d i =
    (if i = '''' then Inl LibraryNotFound
     else if \<exists>l \<in> set (ld_locations d). lr_library l = i then Inl HasLocations else Inr ())"

definition delete_library_row :: "library_db \<Rightarrow> string \<Rightarrow> library_db \<times> (library_error, unit) result" where
  "delete_library_row d i =
    (if i \<notin> lb_id ` set (ld_libraries d) then (d, Inl LibraryNotFound)
     else (fold (\<lambda>l. drop_location (lr_id l)) (filter (\<lambda>l. lr_library l = i) (ld_locations d))
             (d\<lparr>ld_libraries := filter (\<lambda>b. lb_id b \<noteq> i) (ld_libraries d)\<rparr>), Inr ()))"

definition add_location :: "library_fs \<Rightarrow> library_db \<Rightarrow> string \<Rightarrow> string \<Rightarrow> string \<Rightarrow>
    library_db \<times> (library_error, location_row) result" where
  "add_location fs d i lib p =
    (if ld_scanning d then (d, Inl ScanActive)
     else (case validate_path fs d '''' p of
         Inl e \<Rightarrow> (d, Inl e)
       | Inr c \<Rightarrow>
          if lib \<notin> lb_id ` set (ld_libraries d) then (d, Inl LibraryNotFound)
          else if find_location d i \<noteq> None then (d, Inl RowRefused)
          else (d\<lparr>ld_locations := ld_locations d @ [new_location i lib c]\<rparr>, Inr (new_location i lib c))))"

section \<open>Where a title is played from\<close>

definition present_files :: "library_db \<Rightarrow> string \<Rightarrow> physical_row list" where
  "present_files d cid = filter (\<lambda>f. pf_catalog f = cid \<and> pf_present f) (ld_physical d)"

definition update_item :: "string \<Rightarrow> (item_row \<Rightarrow> item_row) \<Rightarrow> library_db \<Rightarrow> library_db" where
  "update_item i f d = d\<lparr>ld_items := map (\<lambda>x. if ir_id x = i then f x else x) (ld_items d)\<rparr>"

definition primary_present :: "library_db \<Rightarrow> string \<Rightarrow> bool" where
  "primary_present d cid \<longleftrightarrow>
     (\<exists>i \<in> set (ld_items d). ir_id i = cid \<and> (\<exists>f \<in> set (ld_physical d). ir_primary i = Some (pf_id f) \<and> pf_present f))"

definition source_key_of :: "physical_row \<Rightarrow> string \<times> string \<times> string" where
  "source_key_of f = (pf_location f, pf_rel f, pf_id f)"

definition reselect_source :: "string \<Rightarrow> library_db \<Rightarrow> library_db" where
  "reselect_source cid d =
    (if primary_present d cid then update_item cid (\<lambda>i. i\<lparr>ir_available := True\<rparr>) d
     else (case sort_key source_key_of (present_files d cid) of
         [] \<Rightarrow> update_item cid (\<lambda>i. i\<lparr>ir_available := False\<rparr>) d
       | f # _ \<Rightarrow>
          update_item cid (\<lambda>i. i\<lparr>ir_primary := Some (pf_id f), ir_location := pf_location f, ir_rel := pf_rel f,
              ir_available := True, ir_sidecars := []\<rparr>)
            (d\<lparr>ld_physical := map (\<lambda>g. if pf_catalog g = cid then g\<lparr>pf_selected := (pf_id g = pf_id f)\<rparr> else g)
               (ld_physical d)\<rparr>)))"

text \<open>
  \<open>applyIdentityMappings\<close> on titles and series: what an active merge hides, what can be played,
  and which series an episode belongs to. Its snapshots, dismissals and artwork rows are left out.
\<close>

definition survivor_of :: "library_db \<Rightarrow> bool \<Rightarrow> string \<Rightarrow> string option" where
  "survivor_of d series i =
    map_option mg_survivor (find (\<lambda>m. mg_source m = i \<and> mg_active m \<and> (mg_kind m = ''series'' \<longleftrightarrow> series)) (ld_merges d))"

definition or_empty :: "string option \<Rightarrow> string" where
  "or_empty r = (case r of None \<Rightarrow> '''' | Some s \<Rightarrow> s)"

definition playable_now :: "library_db \<Rightarrow> item_row \<Rightarrow> bool" where
  "playable_now d i =
    (if ir_merged i \<noteq> '''' then False else if ir_available i then True
     else \<exists>m \<in> set (ld_merges d). \<exists>s \<in> set (ld_items d). mg_survivor m = ir_id i \<and> mg_active m \<and> mg_kind m \<noteq> ''series'' \<and>
       ir_id s = mg_source m \<and> ir_available s)"

definition apply_identity_mappings :: "library_db \<Rightarrow> library_db" where
  "apply_identity_mappings d =
    (let d1 = d\<lparr>ld_items := map (\<lambda>i. i\<lparr>ir_merged := or_empty (survivor_of d False (ir_id i))\<rparr>) (ld_items d)\<rparr>;
         d2 = d1\<lparr>ld_items := map (\<lambda>i. i\<lparr>ir_playable := playable_now d1 i\<rparr>) (ld_items d1),
                 ld_series := map (\<lambda>s. s\<lparr>se_merged := or_empty (survivor_of d True (se_id s))\<rparr>) (ld_series d1)\<rparr>;
         d3 = d2\<lparr>ld_items := map (\<lambda>i. case survivor_of d True (ir_series i) of None \<Rightarrow> i | Some s \<Rightarrow> i\<lparr>ir_series := s\<rparr>)
                   (ld_items d2)\<rparr>
     in d3\<lparr>ld_series := map (\<lambda>s. if se_demo s then s
         else s\<lparr>se_playable := \<exists>i \<in> set (ld_items d3). ir_series i = se_id s \<and> ir_playable i\<rparr>) (ld_series d3)\<rparr>)"


section \<open>Moving or removing a location\<close>

definition preview_sources :: "library_db \<Rightarrow> string \<Rightarrow> (string \<times> string) list" where
  "preview_sources d l = map (\<lambda>f. (pf_id f, pf_catalog f)) (filter (\<lambda>f. pf_location f = l \<and> pf_present f) (ld_physical d))"

definition preview_change :: "library_fs \<Rightarrow> library_db \<Rightarrow> string \<Rightarrow> string \<Rightarrow> string \<Rightarrow> string \<Rightarrow>
    library_db \<times> (library_error, preview_row) result" where
  "preview_change fs d i l p origin =
    (if ld_scanning d then (d, Inl ScanActive)
     else if l = '''' then (d, Inl LocationNotFound)
     else (case find_location d l of
         None \<Rightarrow> (d, Inl LocationNotFound)
       | Some row \<Rightarrow>
          (case (if trim_space p = '''' then Inr ''''
                 else (case validate_path fs d l p of
                     Inl e \<Rightarrow> Inl e
                   | Inr c \<Rightarrow> if c = lr_root row then Inl InvalidLibrary else Inr c)) of
             Inl e \<Rightarrow> (d, Inl e)
           | Inr c \<Rightarrow>
              (let rest = filter (\<lambda>v. pr_location v \<noteq> l) (ld_previews d); sources = preview_sources d l;
                   v = \<lparr>pr_id = i, pr_location = l, pr_revision = lr_revision row, pr_new_root = c, pr_origin = origin,
                        pr_count = length sources, pr_sources = sources\<rparr>
               in if i \<in> pr_id ` set rest then (d, Inl RowRefused) else (d\<lparr>ld_previews := rest @ [v]\<rparr>, Inr v)))))"

definition cancel_change :: "library_db \<Rightarrow> string \<Rightarrow> library_db \<times> (library_error, unit) result" where
  "cancel_change d i =
    (if i = '''' \<or> i \<notin> pr_id ` set (ld_previews d) then (d, Inl ReviewNotFound)
     else (d\<lparr>ld_previews := filter (\<lambda>v. pr_id v \<noteq> i) (ld_previews d)\<rparr>, Inr ()))"

definition take_away :: "(physical_row \<Rightarrow> bool) \<Rightarrow> library_db \<Rightarrow> library_db" where
  "take_away P d = d\<lparr>ld_physical := map (\<lambda>f. if P f then f\<lparr>pf_present := False, pf_selected := False\<rparr> else f) (ld_physical d)\<rparr>"

definition move_location :: "string \<Rightarrow> string \<Rightarrow> library_db \<Rightarrow> library_db" where
  "move_location l root d =
    update_location l (\<lambda>r. r\<lparr>lr_root := root, lr_revision := wrap64 (lr_revision r + 1), lr_state := ''unknown'',
      lr_complete := False, lr_items := 0, lr_missing := 0, lr_pending := '''', lr_message := ''''\<rparr>) d"

definition set_default_root :: "string \<Rightarrow> string \<Rightarrow> library_db \<Rightarrow> library_db" where
  "set_default_root l root d =
    (if l = ''films-root'' then d\<lparr>ld_film := root\<rparr> else if l = ''tv-root'' then d\<lparr>ld_tv := root\<rparr> else d)"

text \<open>The counts that the code compares say that the files are the previewed ones.\<close>

definition preview_holds :: "library_db \<Rightarrow> preview_row \<Rightarrow> bool" where
  "preview_holds d v \<longleftrightarrow>
     (let now = filter (\<lambda>f. pf_location f = pr_location v \<and> pf_present f) (ld_physical d) in
      filter (\<lambda>f. pf_id f \<notin> fst ` set (pr_sources v)) now = [] \<and> length now = pr_count v \<and> length (pr_sources v) = pr_count v)"

definition change_conflict :: "library_db \<Rightarrow> preview_row \<Rightarrow> location_row option" where
  "change_conflict d v =
    (if pr_new_root v = '''' then None
     else find (\<lambda>l. lr_id l \<noteq> pr_location v \<and> locations_overlap (pr_new_root v) (lr_root l)) (ld_locations d))"

definition apply_change :: "library_db \<Rightarrow> preview_row \<Rightarrow> library_db" where
  "apply_change d v =
    (let d1 = take_away (\<lambda>f. pf_location f = pr_location v \<and> pf_present f) d;
         d2 = fold reselect_source (remdups (map snd (pr_sources v))) d1;
         d3 = (if pr_new_root v = '''' then drop_location (pr_location v) d2
               else move_location (pr_location v) (pr_new_root v) d2)
     in apply_identity_mappings (set_default_root (pr_location v) (pr_new_root v) d3))"

definition confirm_change :: "library_db \<Rightarrow> string \<Rightarrow> library_db \<times> (library_error, unit) result" where
  "confirm_change d i =
    (if i = '''' then (d, Inl ReviewNotFound)
     else if ld_scanning d then (d, Inl ScanActive)
     else (case find (\<lambda>v. pr_id v = i) (ld_previews d) of
         None \<Rightarrow> (d, Inl ReviewNotFound)
       | Some v \<Rightarrow>
          (case find_location d (pr_location v) of
             None \<Rightarrow> (d, Inl ReviewNotFound)
           | Some row \<Rightarrow>
              if pr_revision v \<noteq> lr_revision row then (d, Inl ReviewNotFound)
              else (case change_conflict d v of
                  Some l \<Rightarrow> (d, Inl (OverlappingLocation (lr_id l)))
                | None \<Rightarrow> if preview_holds d v then (apply_change d v, Inr ()) else (d, Inl ReviewNotFound)))))"

section \<open>Reviews of missing files\<close>

definition record_review :: "string \<Rightarrow> scan_root \<Rightarrow> nat \<Rightarrow> active_source list \<Rightarrow> string \<Rightarrow> library_db \<Rightarrow> library_db" where
  "record_review scan r items sources message d =
    update_location (sr_id r) (\<lambda>l. l\<lparr>lr_root := sr_path r, lr_state := ''review_required'', lr_complete := False,
        lr_items := items, lr_missing := length sources, lr_pending := scan, lr_last_scan := scan, lr_message := message\<rparr>)
      (d\<lparr>ld_candidates := filter (\<lambda>c. cr_location c \<noteq> sr_id r) (ld_candidates d) @
         map (\<lambda>s. \<lparr>cr_location = sr_id r, cr_scan = scan, cr_physical = as_physical s, cr_catalog = as_catalog s\<rparr>) sources\<rparr>)"

definition record_unavailable :: "string \<Rightarrow> string \<Rightarrow> string \<Rightarrow> library_db \<Rightarrow> library_db" where
  "record_unavailable scan l message d =
    update_location l (\<lambda>x. x\<lparr>lr_state := ''unavailable'', lr_complete := False, lr_pending := '''', lr_last_scan := scan,
        lr_message := message\<rparr>)
      (d\<lparr>ld_candidates := filter (\<lambda>c. cr_location c \<noteq> l) (ld_candidates d)\<rparr>)"

definition record_complete :: "string \<Rightarrow> scan_root \<times> nat \<times> nat \<Rightarrow> library_db \<Rightarrow> library_db" where
  "record_complete scan c d =
    (case c of (r, items, missing) \<Rightarrow>
      update_location (sr_id r) (\<lambda>l. l\<lparr>lr_root := sr_path r, lr_state := ''available'', lr_complete := True,
          lr_items := items, lr_missing := missing, lr_pending := '''', lr_last_scan := scan, lr_message := ''''\<rparr>)
        (d\<lparr>ld_candidates := filter (\<lambda>c. cr_location c \<noteq> sr_id r) (ld_candidates d)\<rparr>))"

definition active_sources :: "library_db \<Rightarrow> string \<Rightarrow> active_source list" where
  "active_sources d l =
    map (\<lambda>f. \<lparr>as_physical = pf_id f, as_catalog = pf_catalog f, as_rel = pf_rel f\<rparr>)
      (sort_key (\<lambda>f. (pf_rel f, pf_id f)) (filter (\<lambda>f. pf_location f = l \<and> pf_present f) (ld_physical d)))"

definition location_alias :: "string \<Rightarrow> string" where
  "location_alias l = (if l = ''film'' then ''films-root'' else if l = ''episode'' then ''tv-root'' else l)"

definition review_candidates :: "library_db \<Rightarrow> string \<Rightarrow> string \<Rightarrow> candidate_row list" where
  "review_candidates d scan l = filter (\<lambda>c. cr_location c = l \<and> cr_scan c = scan) (ld_candidates d)"

definition apply_removals :: "library_db \<Rightarrow> string \<Rightarrow> string \<Rightarrow> library_db" where
  "apply_removals d scan l =
    (let cs = review_candidates d scan l;
         d1 = take_away (\<lambda>f. pf_location f = l \<and> pf_id f \<in> cr_physical ` set cs) d;
         d2 = apply_identity_mappings (fold reselect_source (remdups (map cr_catalog cs)) d1);
         d3 = d2\<lparr>ld_candidates := filter (\<lambda>c. \<not> (cr_location c = l \<and> cr_scan c = scan)) (ld_candidates d2)\<rparr>
     in update_location l (\<lambda>x. x\<lparr>lr_state := ''available'', lr_complete := True, lr_missing := 0,
          lr_pending := '''', lr_message := ''''\<rparr>) d3)"

definition confirm_removals :: "library_db \<Rightarrow> string \<Rightarrow> string \<Rightarrow> library_db \<times> (library_error, unit) result" where
  "confirm_removals d scan loc =
    (if scan = '''' \<or> loc = '''' then (d, Inl ReviewNotFound)
     else if ld_scanning d then (d, Inl ScanActive)
     else (case find_location d (location_alias loc) of
         None \<Rightarrow> (d, Inl ReviewNotFound)
       | Some row \<Rightarrow>
          if lr_state row \<noteq> ''review_required'' \<or> lr_pending row \<noteq> scan then (d, Inl ReviewNotFound)
          else if review_candidates d scan (location_alias loc) = [] then (d, Inl ReviewNotFound)
          else (apply_removals d scan (location_alias loc), Inr ())))"

section \<open>Starting up\<close>

text \<open>Overlapping locations are set aside until the owner moves one; the first one stays.\<close>

fun topology_loop :: "library_fs \<Rightarrow> location_row list \<Rightarrow> location_row list \<Rightarrow> location_row list" where
  "topology_loop fs kept [] = []"
| "topology_loop fs kept (l # ls) =
    (case find (\<lambda>k. locations_overlap (canonical fs (lr_root l)) (canonical fs (lr_root k))) kept of
       Some k \<Rightarrow> l\<lparr>lr_state := ''topology_review'', lr_complete := False,
           lr_message := ''Folder overlaps '' @ lr_id k @ ''; move or remove it before scanning.''\<rparr> # topology_loop fs kept ls
     | None \<Rightarrow> (if lr_state l = ''topology_review'' then l\<lparr>lr_state := ''unknown'', lr_message := ''''\<rparr> else l)
           # topology_loop fs (kept @ [l]) ls)"

definition normalize_topology :: "library_fs \<Rightarrow> library_db \<Rightarrow> library_db" where
  "normalize_topology fs d = d\<lparr>ld_locations := topology_loop fs [] (ld_locations d)\<rparr>"

definition kind_of_library :: "library_db \<Rightarrow> string \<Rightarrow> string" where
  "kind_of_library d i = (case find (\<lambda>b. lb_id b = i) (ld_libraries d) of None \<Rightarrow> '''' | Some b \<Rightarrow> lb_kind b)"

definition scan_roots :: "library_db \<Rightarrow> scan_root list" where
  "scan_roots d =
    (let rows = map (\<lambda>l. \<lparr>sr_id = lr_id l, sr_library = lr_library l, sr_path = lr_root l, sr_kind = kind_of_library d (lr_library l)\<rparr>)
           (filter (\<lambda>l. lr_state l \<noteq> ''topology_review'' \<and> lr_library l \<in> lb_id ` set (ld_libraries d)) (ld_locations d))
     in if rows \<noteq> [] \<or> ld_locations d \<noteq> [] then rows
        else (if ld_film d = '''' then [] else [\<lparr>sr_id = ''films-root'', sr_library = ''films'', sr_path = ld_film d, sr_kind = ''film''\<rparr>]) @
             (if ld_tv d = '''' then [] else [\<lparr>sr_id = ''tv-root'', sr_library = ''tv'', sr_path = ld_tv d, sr_kind = ''episode''\<rparr>]))"

definition location_root :: "library_db \<Rightarrow> string \<Rightarrow> string option" where
  "location_root d i =
    (case find_location d i of
       Some l \<Rightarrow> Some (lr_root l)
     | None \<Rightarrow> if i = ''films-root'' \<and> ld_film d \<noteq> '''' then Some (ld_film d)
         else if i = ''tv-root'' \<and> ld_tv d \<noteq> '''' then Some (ld_tv d) else None)"

section \<open>The two default roots\<close>

text \<open>\<open>SetRoots\<close>: the checks before the lock, which answer the paths to store, and the locked part.\<close>

definition check_roots :: "library_fs \<Rightarrow> library_db \<Rightarrow> string \<Rightarrow> string \<Rightarrow> (library_error, string \<times> string) result" where
  "check_roots fs d film tv =
    (if \<not> validate_roots fs film tv then Inl OutsideRoot
     else (let f = (if film = '''' then '''' else abs_path fs film); t = (if tv = '''' then '''' else abs_path fs tv) in
       if f \<noteq> '''' \<and> t \<noteq> '''' \<and> locations_overlap f t then Inl (OverlappingLocation '''')
       else (case (if f = '''' then Inr f else validate_path fs d ''films-root'' f) of
           Inl e \<Rightarrow> Inl e
         | Inr f' \<Rightarrow>
            (case (if t = '''' then Inr t else validate_path fs d ''tv-root'' t) of Inl e \<Rightarrow> Inl e | Inr t' \<Rightarrow> Inr (f', t')))))"

definition root_needs_review :: "library_db \<Rightarrow> string \<Rightarrow> string \<Rightarrow> bool" where
  "root_needs_review d i p =
    (case find_location d i of None \<Rightarrow> False | Some l \<Rightarrow> lr_root l \<noteq> p \<and> preview_sources d i \<noteq> [])"

definition ensure_library :: "string \<Rightarrow> string \<Rightarrow> string \<Rightarrow> library_db \<Rightarrow> library_db" where
  "ensure_library i name kind d =
    (if i \<in> lb_id ` set (ld_libraries d) then d
     else d\<lparr>ld_libraries := ld_libraries d @ [\<lparr>lb_id = i, lb_name = name, lb_kind = kind\<rparr>]\<rparr>)"

definition store_root :: "string \<Rightarrow> string \<Rightarrow> string \<Rightarrow> library_db \<Rightarrow> library_db" where
  "store_root i lib p d =
    (if p = '''' then drop_location i d
     else (case find_location d i of
         None \<Rightarrow> d\<lparr>ld_locations := ld_locations d @ [new_location i lib p]\<rparr>
       | Some _ \<Rightarrow> update_location i (\<lambda>l. if lr_root l = p then l
           else l\<lparr>lr_root := p, lr_revision := wrap64 (lr_revision l + 1), lr_state := ''unknown'', lr_complete := False\<rparr>) d))"

definition store_roots :: "library_db \<Rightarrow> string \<times> string \<Rightarrow> library_db \<times> (library_error, unit) result" where
  "store_roots d r =
    (if root_needs_review d ''films-root'' (fst r) \<or> root_needs_review d ''tv-root'' (snd r) then (d, Inl ReviewRequired)
     else (let d1 = ensure_library ''tv'' ''TV'' ''episode'' (ensure_library ''films'' ''Films'' ''film'' d)
       in ((store_root ''tv-root'' ''tv'' (snd r) (store_root ''films-root'' ''films'' (fst r) d1))
             \<lparr>ld_film := fst r, ld_tv := snd r\<rparr>, Inr ())))"

definition set_roots :: "library_fs \<Rightarrow> library_db \<Rightarrow> string \<Rightarrow> string \<Rightarrow> library_db \<times> (library_error, unit) result" where
  "set_roots fs d film tv =
    (case check_roots fs d film tv of Inl e \<Rightarrow> (d, Inl e) | Inr r \<Rightarrow> store_roots d r)"

text \<open>
  Roots from the environment: a populated location gets a preview and keeps its root, the others
  are stored at once. The identifiers of the previews are arguments.
\<close>

definition stage_root :: "library_fs \<Rightarrow> string \<Rightarrow> string \<Rightarrow> string \<Rightarrow> string \<Rightarrow> library_db \<Rightarrow>
    library_db \<times> (library_error, string) result" where
  "stage_root fs i l current desired d =
    (if current = desired \<or> preview_sources d l = [] then (d, Inr desired)
     else (case preview_change fs d i l desired ''environment'' of
         (d', Inl e) \<Rightarrow> (d', Inl e) | (d', Inr _) \<Rightarrow> (d', Inr current)))"

definition stage_environment_roots :: "library_fs \<Rightarrow> string \<Rightarrow> string \<Rightarrow> library_db \<Rightarrow> string \<Rightarrow> string \<Rightarrow>
    library_db \<times> (library_error, unit) result" where
  "stage_environment_roots fs i j d film tv =
    (if \<not> validate_roots fs film tv then (d, Inl OutsideRoot)
     else (case stage_root fs i ''films-root'' (ld_film d) (canonical_root fs film) d of
         (d1, Inl e) \<Rightarrow> (d1, Inl e)
       | (d1, Inr f) \<Rightarrow>
          (case stage_root fs j ''tv-root'' (ld_tv d) (canonical_root fs tv) d1 of
             (d2, Inl e) \<Rightarrow> (d2, Inl e)
           | (d2, Inr t) \<Rightarrow> set_roots fs d2 f t)))"

definition root_changes_require_review :: "library_fs \<Rightarrow> library_db \<Rightarrow> string \<Rightarrow> string \<Rightarrow> bool" where
  "root_changes_require_review fs d film tv \<longleftrightarrow>
     root_needs_review d ''films-root'' (canonical_root fs film) \<or> root_needs_review d ''tv-root'' (canonical_root fs tv)"

end
