(* ===== verification/LibraryProps.thy ===== *)
theory LibraryProps
  imports Libraries
begin

text \<open>
  What the owner confirms is what happens, titles follow their files, and locations stay apart.
\<close>

section \<open>What the steps leave alone\<close>

text \<open>The presence of files, apart from which one is selected.\<close>

definition files_of :: "library_db \<Rightarrow> (string \<times> string \<times> string \<times> string \<times> bool) list" where
  "files_of d = map (\<lambda>f. (pf_id f, pf_catalog f, pf_location f, pf_rel f, pf_present f)) (ld_physical d)"

lemma update_item_other [simp]:
  "ld_physical (update_item i f d) = ld_physical d" "ld_locations (update_item i f d) = ld_locations d"
  "ld_previews (update_item i f d) = ld_previews d" "files_of (update_item i f d) = files_of d"
  by (simp_all add: update_item_def files_of_def)

lemma reselect_other [simp]:
  "ld_locations (reselect_source c d) = ld_locations d" "ld_previews (reselect_source c d) = ld_previews d"
  "files_of (reselect_source c d) = files_of d"
  by (auto simp: reselect_source_def update_item_def files_of_def split: list.splits)

lemma fold_reselect_other [simp]:
  "ld_locations (fold reselect_source cs d) = ld_locations d"
  "ld_previews (fold reselect_source cs d) = ld_previews d"
  "files_of (fold reselect_source cs d) = files_of d"
  by (induction cs arbitrary: d) simp_all

lemma mappings_other [simp]:
  "ld_locations (apply_identity_mappings d) = ld_locations d" "ld_physical (apply_identity_mappings d) = ld_physical d"
  "ld_previews (apply_identity_mappings d) = ld_previews d" "files_of (apply_identity_mappings d) = files_of d"
  by (simp_all add: apply_identity_mappings_def Let_def files_of_def)

lemma drop_location_other [simp]:
  "ld_physical (drop_location l d) = ld_physical d" "ld_items (drop_location l d) = ld_items d"
  "files_of (drop_location l d) = files_of d" "ld_libraries (drop_location l d) = ld_libraries d"
  by (simp_all add: drop_location_def files_of_def)

lemma update_location_other [simp]:
  "ld_physical (update_location l f d) = ld_physical d" "ld_items (update_location l f d) = ld_items d"
  "ld_previews (update_location l f d) = ld_previews d" "files_of (update_location l f d) = files_of d"
  by (simp_all add: update_location_def files_of_def)

lemma default_root_other [simp]:
  "ld_physical (set_default_root l p d) = ld_physical d" "ld_items (set_default_root l p d) = ld_items d"
  "ld_locations (set_default_root l p d) = ld_locations d" "ld_previews (set_default_root l p d) = ld_previews d"
  "files_of (set_default_root l p d) = files_of d"
  by (simp_all add: set_default_root_def files_of_def)

lemma files_of_present:
  assumes "files_of d = files_of d'"
  shows "(\<exists>f \<in> set (ld_physical d). pf_id f = i \<and> pf_catalog f = c \<and> pf_location f = l \<and> pf_present f = b) \<longleftrightarrow>
    (\<exists>f \<in> set (ld_physical d'). pf_id f = i \<and> pf_catalog f = c \<and> pf_location f = l \<and> pf_present f = b)"
proof -
  have "(\<exists>f \<in> set (ld_physical e). pf_id f = i \<and> pf_catalog f = c \<and> pf_location f = l \<and> pf_present f = b) \<longleftrightarrow>
      (\<exists>r. (i, c, l, r, b) \<in> set (files_of e))" for e
    by (auto simp: files_of_def image_iff)
  with assms show ?thesis by simp
qed

lemma candidates_other:
  "files_of (d\<lparr>ld_candidates := cs\<rparr>) = files_of d" "ld_items (d\<lparr>ld_candidates := cs\<rparr>) = ld_items d"
  by (simp_all add: files_of_def)

section \<open>Confirming a move\<close>

lemma confirm_change_done:
  assumes "confirm_change d i = (d', Inr ())"
  obtains v row where "v \<in> set (ld_previews d)" "pr_id v = i" "find_location d (pr_location v) = Some row"
    "pr_revision v = lr_revision row" "preview_holds d v" "change_conflict d v = None" "d' = apply_change d v"
proof -
  obtain v where v: "find (\<lambda>v. pr_id v = i) (ld_previews d) = Some v"
    using assms by (cases "find (\<lambda>v. pr_id v = i) (ld_previews d)") (simp_all add: confirm_change_def split: if_splits)
  obtain row where row: "find_location d (pr_location v) = Some row"
    using assms v by (cases "find_location d (pr_location v)") (simp_all add: confirm_change_def split: if_splits)
  have "v \<in> set (ld_previews d)" "pr_id v = i" using v by (auto simp: find_Some_iff)
  moreover note row
  moreover have "pr_revision v = lr_revision row" "preview_holds d v" "change_conflict d v = None" "d' = apply_change d v"
    using assms v row by (simp_all add: confirm_change_def split: if_splits option.splits)
  ultimately show thesis by (rule that)
qed

lemma confirm_change_failed: "snd (confirm_change d i) = Inl e \<Longrightarrow> fst (confirm_change d i) = d"
  by (auto simp: confirm_change_def split: option.splits if_splits)

lemma no_conflict:
  "change_conflict d v = None \<Longrightarrow> pr_new_root v \<noteq> '''' \<Longrightarrow> l \<in> set (ld_locations d) \<Longrightarrow> lr_id l \<noteq> pr_location v \<Longrightarrow>
   \<not> locations_overlap (pr_new_root v) (lr_root l)"
  by (auto simp: change_conflict_def find_None_iff)

lemma apply_change_files:
  "files_of (apply_change d v) = files_of (take_away (\<lambda>f. pf_location f = pr_location v \<and> pf_present f) d)"
  by (simp add: apply_change_def Let_def move_location_def)

lemma apply_removals_files:
  "files_of (apply_removals d scan l) =
   files_of (take_away (\<lambda>f. pf_location f = l \<and> pf_id f \<in> cr_physical ` set (review_candidates d scan l)) d)"
  unfolding apply_removals_def Let_def update_location_other candidates_other mappings_other fold_reselect_other ..

lemma preview_holds_exact:
  assumes "preview_holds d v" and "distinct (map pf_id (ld_physical d))" and "distinct (map fst (pr_sources v))"
  shows "pf_id ` {f \<in> set (ld_physical d). pf_location f = pr_location v \<and> pf_present f} = fst ` set (pr_sources v)"
proof -
  let ?now = "filter (\<lambda>f. pf_location f = pr_location v \<and> pf_present f) (ld_physical d)"
  have "filter (\<lambda>f. pf_id f \<notin> fst ` set (pr_sources v)) ?now = []"
    using assms(1) unfolding preview_holds_def Let_def by (rule conjunct1)
  then have sub: "pf_id ` set ?now \<subseteq> fst ` set (pr_sources v)" unfolding filter_empty_conv by blast
  have "distinct (map pf_id ?now)" using assms(2) by (simp add: distinct_map_filter)
  then have "card (pf_id ` set ?now) = length ?now" using distinct_card [of "map pf_id ?now"] by simp
  moreover have "card (fst ` set (pr_sources v)) = length (pr_sources v)"
    using assms(3) distinct_card [of "map fst (pr_sources v)"] by simp
  moreover have "length ?now = length (pr_sources v)" using assms(1) by (simp add: preview_holds_def Let_def)
  ultimately have "pf_id ` set ?now = fst ` set (pr_sources v)" using sub by (intro card_subset_eq) simp_all
  then show ?thesis by simp
qed


text \<open>
  C22: A confirmed move or removal of a location takes away exactly the files of its preview: they
  are the files present at the location at that moment, its revision is the previewed one, the new
  folder overlaps no other location, and no file elsewhere changes.
\<close>

theorem confirmed_change_is_previewed:
  assumes "confirm_change d i = (d', Inr ())" and "distinct (map pf_id (ld_physical d))"
    and "list_all (\<lambda>v. distinct (map fst (pr_sources v))) (ld_previews d)"
  shows "\<exists>v \<in> set (ld_previews d). \<exists>row. pr_id v = i \<and> find_location d (pr_location v) = Some row \<and>
    pr_revision v = lr_revision row \<and>
    pf_id ` {f \<in> set (ld_physical d). pf_location f = pr_location v \<and> pf_present f} = fst ` set (pr_sources v) \<and>
    files_of d' = map (\<lambda>(f, c, l, r, b). (f, c, l, r, b \<and> l \<noteq> pr_location v)) (files_of d) \<and>
    (pr_new_root v \<noteq> '''' \<longrightarrow> (\<forall>l \<in> set (ld_locations d). lr_id l \<noteq> pr_location v \<longrightarrow>
       \<not> locations_overlap (pr_new_root v) (lr_root l)))"
proof -
  from assms(1) obtain v row where v: "v \<in> set (ld_previews d)" "pr_id v = i" "find_location d (pr_location v) = Some row"
    "pr_revision v = lr_revision row" "preview_holds d v" "change_conflict d v = None" "d' = apply_change d v"
    by (rule confirm_change_done)
  have "distinct (map fst (pr_sources v))" using assms(3) v(1) by (simp add: list_all_iff)
  note exact = preview_holds_exact [OF v(5) assms(2) this]
  have "files_of d' = map (\<lambda>(f, c, l, r, b). (f, c, l, r, b \<and> l \<noteq> pr_location v)) (files_of d)"
    unfolding v(7) apply_change_files by (auto simp: files_of_def take_away_def)
  with v exact no_conflict [OF v(6)] show ?thesis by blast
qed

section \<open>Titles follow their files\<close>

text \<open>A title is available when it has a file, and then its primary file is one of them.\<close>

definition follows :: "(string \<times> string \<times> string \<times> string \<times> bool) list \<Rightarrow> item_row \<Rightarrow> bool" where
  "follows fs i \<longleftrightarrow>
     (ir_available i \<longleftrightarrow> (\<exists>p l r. (p, ir_id i, l, r, True) \<in> set fs)) \<and>
     (ir_available i \<longrightarrow> (\<exists>p l r. ir_primary i = Some p \<and> (p, ir_id i, l, r, True) \<in> set fs))"

definition owners :: "library_db \<Rightarrow> (string \<times> string) set" where
  "owners d = (\<lambda>f. (pf_id f, pf_catalog f)) ` set (ld_physical d)"

definition owns_primary :: "library_db \<Rightarrow> item_row \<Rightarrow> bool" where
  "owns_primary d i \<longleftrightarrow> (\<forall>c. (case ir_primary i of None \<Rightarrow> False | Some p \<Rightarrow> (p, c) \<in> owners d) \<longrightarrow> c = ir_id i)"

lemma file_iff: "(p, c, l, r, b) \<in> set (files_of d) \<longleftrightarrow>
    (\<exists>f \<in> set (ld_physical d). pf_id f = p \<and> pf_catalog f = c \<and> pf_location f = l \<and> pf_rel f = r \<and> pf_present f = b)"
  by (auto simp: files_of_def image_iff)

lemma owners_files: "owners d = (\<lambda>(p, c, _). (p, c)) ` set (files_of d)"
  by (simp add: owners_def files_of_def image_image)

lemma owners_take_away [simp]: "owners (take_away P d) = owners d"
proof -
  have "map (\<lambda>f. (pf_id f, pf_catalog f)) (ld_physical (take_away P d)) = map (\<lambda>f. (pf_id f, pf_catalog f)) (ld_physical d)"
    by (simp add: take_away_def)
  from arg_cong [OF this, of set] show ?thesis by (simp add: owners_def)
qed

lemma owns_take_away: "owns_primary (take_away P d) i \<longleftrightarrow> owns_primary d i"
  by (cases "ir_primary i") (simp_all add: owns_primary_def)

lemma owners_cong: "files_of d = files_of d' \<Longrightarrow> owners d = owners d'"
  by (simp add: owners_files)

lemma follows_cong_files: "files_of d = files_of d' \<Longrightarrow> follows (files_of d) i \<longleftrightarrow> follows (files_of d') i"
  by simp

lemma owner_unique: "distinct (map pf_id (ld_physical d)) \<Longrightarrow> (p, c) \<in> owners d \<Longrightarrow> (p, c') \<in> owners d \<Longrightarrow> c = c'"
  by (auto simp: owners_def distinct_map inj_on_def)

lemma reselect_items:
  assumes own: "\<forall>i \<in> set (ld_items d). owns_primary d i" and items: "distinct (map ir_id (ld_items d))"
    and rows: "distinct (map pf_id (ld_physical d))"
  shows "\<exists>g. ld_items (reselect_source c d) = map (\<lambda>x. if ir_id x = c then g x else x) (ld_items d) \<and>
    (\<forall>x. ir_id (g x) = ir_id x) \<and>
    (\<forall>x \<in> set (ld_items d). ir_id x = c \<longrightarrow> follows (files_of d) (g x) \<and> owns_primary d (g x))"
proof (cases "primary_present d c")
  case True
  then obtain i f where i: "i \<in> set (ld_items d)" "ir_id i = c" and f: "f \<in> set (ld_physical d)"
    "ir_primary i = Some (pf_id f)" "pf_present f" by (auto simp: primary_present_def)
  have "(pf_id f, pf_catalog f) \<in> owners d" using f(1) by (auto simp: owners_def)
  then have "pf_catalog f = c" using own i f(2) by (auto simp: owns_primary_def)
  then have mem: "(pf_id f, c, pf_location f, pf_rel f, True) \<in> set (files_of d)" using f by (auto simp: file_iff)
  have "follows (files_of d) (x\<lparr>ir_available := True\<rparr>) \<and> owns_primary d (x\<lparr>ir_available := True\<rparr>)"
    if x: "x \<in> set (ld_items d)" "ir_id x = c" for x
  proof -
    have "x = i" using items x i by (auto simp: distinct_map inj_on_def)
    moreover have "owns_primary d x" using own x(1) by blast
    ultimately show ?thesis using mem i(2) f(2) by (auto simp: follows_def owns_primary_def)
  qed
  with True show ?thesis
    by (intro exI [of _ "\<lambda>x. x\<lparr>ir_available := True\<rparr>"]) (simp add: reselect_source_def update_item_def)
next
  case False
  have files: "(\<exists>p l r. (p, c, l, r, True) \<in> set (files_of d)) \<longleftrightarrow> present_files d c \<noteq> []"
    by (auto simp: file_iff present_files_def filter_empty_conv)
  show ?thesis
  proof (cases "sort_key source_key_of (present_files d c)")
    case Nil
    then have "present_files d c = []" by (metis length_0_conv length_sort)
    with files have none: "\<not> (\<exists>p l r. (p, c, l, r, True) \<in> set (files_of d))" by simp
    have "follows (files_of d) (x\<lparr>ir_available := False\<rparr>) \<and> owns_primary d (x\<lparr>ir_available := False\<rparr>)"
      if x: "x \<in> set (ld_items d)" "ir_id x = c" for x
    proof -
      have "owns_primary d x" using own x(1) by blast
      with none x(2) show ?thesis by (auto simp: follows_def owns_primary_def)
    qed
    with False Nil show ?thesis
      by (intro exI [of _ "\<lambda>x. x\<lparr>ir_available := False\<rparr>"]) (simp add: reselect_source_def update_item_def)
  next
    case (Cons f fs)
    let ?g = "\<lambda>x. x\<lparr>ir_primary := Some (pf_id f), ir_location := pf_location f, ir_rel := pf_rel f, ir_available := True,
        ir_sidecars := []\<rparr>"
    have "f \<in> set (sort_key source_key_of (present_files d c))" using Cons by simp
    then have f: "f \<in> set (ld_physical d)" "pf_catalog f = c" "pf_present f" by (simp_all add: present_files_def)
    then have mem: "(pf_id f, c, pf_location f, pf_rel f, True) \<in> set (files_of d)" and ow: "(pf_id f, c) \<in> owners d"
      by (auto simp: file_iff owners_def)
    have "follows (files_of d) (?g x) \<and> owns_primary d (?g x)" if "ir_id x = c" for x
      using that mem owner_unique [OF rows ow] by (auto simp: follows_def owns_primary_def)
    with False Cons show ?thesis
      by (intro exI [of _ ?g]) (simp add: reselect_source_def update_item_def)
  qed
qed


lemma rows_ids: "map pf_id (ld_physical d) = map fst (files_of d)"
  by (simp add: files_of_def)

lemma reselect_ids: "map pf_id (ld_physical (reselect_source c d)) = map pf_id (ld_physical d)"
  by (simp only: rows_ids reselect_other)

text \<open>After all affected titles are looked at, each follows its files, and the others are as before.\<close>

lemma fold_reselect_items:
  assumes "\<forall>i \<in> set (ld_items d). owns_primary d i" and "distinct (map ir_id (ld_items d))"
    and "distinct (map pf_id (ld_physical d))"
    and "\<forall>i \<in> set (ld_items d). ir_id i \<in> S \<longrightarrow> follows (files_of d) i"
    and "\<forall>i \<in> set (ld_items d). ir_id i \<in> S \<union> set cs"
  shows "\<forall>i \<in> set (ld_items (fold reselect_source cs d)). follows (files_of d) i"
  using assms
proof (induction cs arbitrary: d S)
  case (Cons c cs)
  from reselect_items [OF Cons.prems(1,2,3), of c] obtain g where
    g: "ld_items (reselect_source c d) = map (\<lambda>x. if ir_id x = c then g x else x) (ld_items d)" "\<forall>x. ir_id (g x) = ir_id x"
      "\<forall>x \<in> set (ld_items d). ir_id x = c \<longrightarrow> follows (files_of d) (g x) \<and> owns_primary d (g x)" by blast
  let ?d = "reselect_source c d"
  have files: "files_of ?d = files_of d" by simp
  have own: "owns_primary ?d i \<longleftrightarrow> owns_primary d i" for i
    unfolding owns_primary_def owners_cong [OF files] ..
  have ids: "map ir_id (ld_items ?d) = map ir_id (ld_items d)" using g(1,2) by (simp add: g(1))
  have "\<forall>i \<in> set (ld_items ?d). owns_primary ?d i" unfolding own using g Cons.prems(1) by auto
  moreover have "distinct (map ir_id (ld_items ?d))" unfolding ids by (rule Cons.prems(2))
  moreover have "distinct (map pf_id (ld_physical ?d))" unfolding reselect_ids by (rule Cons.prems(3))
  moreover have "\<forall>i \<in> set (ld_items ?d). ir_id i \<in> insert c S \<longrightarrow> follows (files_of ?d) i"
    unfolding files using g Cons.prems(4) by auto
  moreover have "\<forall>i \<in> set (ld_items ?d). ir_id i \<in> insert c S \<union> set cs"
    using g Cons.prems(5) by auto
  ultimately have "\<forall>i \<in> set (ld_items (fold reselect_source cs ?d)). follows (files_of ?d) i"
    by (rule Cons.IH)
  then show ?case by simp
qed auto

lemma mappings_items:
  assumes "\<forall>i \<in> set (ld_items d). follows fs i"
  shows "\<forall>i \<in> set (ld_items (apply_identity_mappings d)). follows fs i"
proof -
  have "follows fs (i\<lparr>ir_merged := a, ir_playable := b\<rparr>) \<longleftrightarrow> follows fs i" "follows fs (i\<lparr>ir_series := c\<rparr>) \<longleftrightarrow> follows fs i"
    "follows fs (i\<lparr>ir_playable := b\<rparr>) \<longleftrightarrow> follows fs i" "follows fs (i\<lparr>ir_merged := a\<rparr>) \<longleftrightarrow> follows fs i"
    for i a b c by (simp_all add: follows_def)
  with assms show ?thesis by (auto simp: apply_identity_mappings_def Let_def split: option.splits)
qed

text \<open>Taking files away only touches the titles they belong to.\<close>

lemma take_away_follows:
  assumes "follows (files_of d) i" and "\<forall>f \<in> set (ld_physical d). P f \<longrightarrow> pf_present f \<longrightarrow> pf_catalog f \<noteq> ir_id i"
  shows "follows (files_of (take_away P d)) i"
proof -
  have "(p, ir_id i, l, r, True) \<in> set (files_of (take_away P d)) \<longleftrightarrow> (p, ir_id i, l, r, True) \<in> set (files_of d)" for p l r
    using assms(2) by (force simp: file_iff take_away_def)
  with assms(1) show ?thesis by (simp add: follows_def)
qed


definition titles_ok :: "library_db \<Rightarrow> bool" where
  "titles_ok d \<longleftrightarrow> distinct (map pf_id (ld_physical d)) \<and> distinct (map ir_id (ld_items d)) \<and>
     (\<forall>i \<in> set (ld_items d). owns_primary d i \<and> follows (files_of d) i)"

text \<open>Previews and reviews name the title that each of their files belongs to.\<close>

definition recorded_titles :: "library_db \<Rightarrow> bool" where
  "recorded_titles d \<longleftrightarrow>
     (\<forall>f \<in> set (ld_physical d).
        (\<forall>v \<in> set (ld_previews d). \<forall>c. (pf_id f, c) \<in> set (pr_sources v) \<longrightarrow> c = pf_catalog f) \<and>
        (\<forall>r \<in> set (ld_candidates d). cr_physical r = pf_id f \<longrightarrow> cr_catalog r = pf_catalog f))"

lemma take_away_items:
  assumes ok: "titles_ok d" and cs: "\<And>f. f \<in> set (ld_physical d) \<Longrightarrow> P f \<Longrightarrow> pf_present f \<Longrightarrow> pf_catalog f \<in> set cs"
  shows "\<forall>i \<in> set (ld_items (fold reselect_source cs (take_away P d))). follows (files_of (take_away P d)) i"
proof (rule fold_reselect_items)
  let ?d = "take_away P d"
  have items: "ld_items ?d = ld_items d" by (simp add: take_away_def)
  show "\<forall>i \<in> set (ld_items ?d). owns_primary ?d i" using ok by (simp add: items titles_ok_def owns_take_away)
  show "distinct (map ir_id (ld_items ?d))" using ok by (simp add: items titles_ok_def)
  have "map pf_id (ld_physical ?d) = map pf_id (ld_physical d)" by (simp add: take_away_def)
  then show "distinct (map pf_id (ld_physical ?d))" using ok by (simp add: titles_ok_def)
  show "\<forall>i \<in> set (ld_items ?d). ir_id i \<in> - set cs \<longrightarrow> follows (files_of ?d) i"
  proof (intro ballI impI)
    fix i assume i: "i \<in> set (ld_items ?d)" "ir_id i \<in> - set cs"
    then have "follows (files_of d) i" using ok by (simp add: items titles_ok_def)
    moreover have "pf_catalog f \<noteq> ir_id i" if "f \<in> set (ld_physical d)" "P f" "pf_present f" for f
      using cs [OF that] i(2) by auto
    ultimately show "follows (files_of ?d) i" by (blast intro: take_away_follows)
  qed
  show "\<forall>i \<in> set (ld_items ?d). ir_id i \<in> - set cs \<union> set cs" by simp
qed

lemma apply_change_items:
  "set (ld_items (apply_change d v)) = set (ld_items (apply_identity_mappings (set_default_root (pr_location v) (pr_new_root v)
     ((if pr_new_root v = '''' then drop_location (pr_location v) else move_location (pr_location v) (pr_new_root v))
       (fold reselect_source (remdups (map snd (pr_sources v)))
         (take_away (\<lambda>f. pf_location f = pr_location v \<and> pf_present f) d))))))"
  by (simp add: apply_change_def Let_def)

lemma change_titles:
  assumes "titles_ok d" and "recorded_titles d" and "v \<in> set (ld_previews d)" and "preview_holds d v"
  shows "\<forall>i \<in> set (ld_items (apply_change d v)). follows (files_of (apply_change d v)) i"
  unfolding apply_change_files apply_change_items
proof (rule mappings_items)
  let ?P = "\<lambda>f. pf_location f = pr_location v \<and> pf_present f"
  have "pf_catalog f \<in> set (remdups (map snd (pr_sources v)))" if "f \<in> set (ld_physical d)" "?P f" for f
  proof -
    have "filter (\<lambda>f. pf_id f \<notin> fst ` set (pr_sources v)) (filter ?P (ld_physical d)) = []"
      using assms(4) unfolding preview_holds_def Let_def by (rule conjunct1)
    with that have "pf_id f \<in> fst ` set (pr_sources v)" unfolding filter_empty_conv by auto
    then obtain c where c: "(pf_id f, c) \<in> set (pr_sources v)" by auto
    with assms(2,3) that(1) have "c = pf_catalog f" unfolding recorded_titles_def by blast
    with c show ?thesis by force
  qed
  then have "\<forall>i \<in> set (ld_items (fold reselect_source (remdups (map snd (pr_sources v))) (take_away ?P d))).
      follows (files_of (take_away ?P d)) i"
    by (intro take_away_items [OF assms(1)]) blast
  then show "\<forall>i \<in> set (ld_items (set_default_root (pr_location v) (pr_new_root v)
       ((if pr_new_root v = '''' then drop_location (pr_location v) else move_location (pr_location v) (pr_new_root v))
         (fold reselect_source (remdups (map snd (pr_sources v))) (take_away ?P d))))).
      follows (files_of (take_away ?P d)) i"
    by (simp add: move_location_def)
qed

lemma removal_titles:
  assumes "titles_ok d" and "recorded_titles d"
  shows "\<forall>i \<in> set (ld_items (apply_removals d scan l)). follows (files_of (apply_removals d scan l)) i"
proof -
  let ?cs = "review_candidates d scan l"
  let ?P = "\<lambda>f. pf_location f = l \<and> pf_id f \<in> cr_physical ` set ?cs"
  have "pf_catalog f \<in> set (remdups (map cr_catalog ?cs))" if f: "f \<in> set (ld_physical d)" "?P f" for f
  proof -
    from f(2) obtain r where r: "r \<in> set ?cs" "cr_physical r = pf_id f" by auto
    then have "r \<in> set (ld_candidates d)" by (simp add: review_candidates_def)
    with assms(2) f(1) r(2) have "cr_catalog r = pf_catalog f" unfolding recorded_titles_def by blast
    with r(1) show ?thesis by force
  qed
  then have "\<forall>i \<in> set (ld_items (fold reselect_source (remdups (map cr_catalog ?cs)) (take_away ?P d))).
      follows (files_of (take_away ?P d)) i"
    by (intro take_away_items [OF assms(1)]) blast
  from mappings_items [OF this] show ?thesis
    unfolding apply_removals_files unfolding apply_removals_def Let_def update_location_other candidates_other .
qed



section \<open>A title with two files\<close>

definition sample_file :: "string \<Rightarrow> string \<Rightarrow> bool \<Rightarrow> physical_row" where
  "sample_file i l selected = \<lparr>pf_id = i, pf_catalog = ''t'', pf_location = l, pf_rel = ''a.mkv'', pf_present = True, pf_selected = selected\<rparr>"

definition sample_item :: item_row where
  "sample_item = \<lparr>ir_id = ''t'', ir_kind = ''film'', ir_primary = Some ''f'', ir_location = ''x'', ir_rel = ''a.mkv'',
     ir_available = True, ir_playable = True, ir_merged = '''', ir_series = '''', ir_sidecars = [''a.srt'']\<rparr>"

definition sample_db :: library_db where
  "sample_db = \<lparr>ld_libraries = [\<lparr>lb_id = ''b'', lb_name = ''Films'', lb_kind = ''film''\<rparr>],
     ld_locations = [new_location ''x'' ''b'' ''/m'', new_location ''y'' ''b'' ''/n''],
     ld_previews = [\<lparr>pr_id = ''p'', pr_location = ''x'', pr_revision = 1, pr_new_root = '''', pr_origin = ''owner'', pr_count = 1,
       pr_sources = [(''f'', ''t'')]\<rparr>],
     ld_candidates = [], ld_physical = [sample_file ''f'' ''x'' True, sample_file ''g'' ''y'' False], ld_items = [sample_item],
     ld_series = [], ld_merges = [], ld_film = '''', ld_tv = '''', ld_scanning = False\<rparr>"

lemma sample_confirmed: "snd (confirm_change sample_db ''p'') = Inr ()"
  by code_simp

lemma sample_moved: "map ir_primary (ld_items (fst (confirm_change sample_db ''p''))) = [Some ''g'']"
  by code_simp

lemma confirmed_change_is_previewed_witness:
  "map (\<lambda>(f, _, _, _, b). (f, b)) (files_of (fst (confirm_change sample_db ''p''))) = [(''f'', False), (''g'', True)]"
proof -
  have "confirm_change sample_db ''p'' = (fst (confirm_change sample_db ''p''), Inr ())"
    using sample_confirmed by (simp add: prod_eq_iff)
  moreover have "distinct (map pf_id (ld_physical sample_db))"
    and "list_all (\<lambda>v. distinct (map fst (pr_sources v))) (ld_previews sample_db)"
    by (simp_all add: sample_db_def sample_file_def)
  ultimately obtain v where "v \<in> set (ld_previews sample_db)"
    and files: "files_of (fst (confirm_change sample_db ''p'')) =
      map (\<lambda>(f, c, l, r, b). (f, c, l, r, b \<and> l \<noteq> pr_location v)) (files_of sample_db)"
    using confirmed_change_is_previewed by blast
  then have "pr_location v = ''x''" by (simp add: sample_db_def)
  moreover have "files_of sample_db = [(''f'', ''t'', ''x'', ''a.mkv'', True), (''g'', ''t'', ''y'', ''a.mkv'', True)]"
    by (simp add: files_of_def sample_db_def sample_file_def)
  ultimately show ?thesis unfolding files by simp
qed


end
