(* ===== verification/LibraryRuns.thy ===== *)
theory LibraryRuns
  imports LibraryProps
begin

text \<open>
  Runs of the library operations, with scans in between: locations never overlap, as long as the
  roots are not set through the settings, which has gaps of its own.
\<close>

datatype location_outcome = FoundAll nat nat | ForReview nat "active_source list" string | NotRead string

record library_world =
  lw_db :: library_db
  lw_snapshot :: "scan_root list"

datatype library_event =
    LvCreate string string string
  | LvRename string string
  | LvDelete string
  | LvAdd string string string
  | LvPreview string string string string
  | LvCancel string
  | LvConfirm string
  | LvConfirmRemovals string string
  | LvStartScan
  | LvEndScan string "scan_root \<Rightarrow> location_outcome option"

definition record_outcome :: "string \<Rightarrow> (scan_root \<Rightarrow> location_outcome option) \<Rightarrow> scan_root \<Rightarrow> library_db \<Rightarrow> library_db" where
  "record_outcome scan outcome r d =
    (case outcome r of
       None \<Rightarrow> d
     | Some (FoundAll items missing) \<Rightarrow> record_complete scan (r, items, missing) d
     | Some (ForReview items sources message) \<Rightarrow> record_review scan r items sources message d
     | Some (NotRead message) \<Rightarrow> record_unavailable scan (sr_id r) message d)"

text \<open>
  A scan holds no lock: it reads the locations when it starts and records what it found when it
  ends. The check before a library is deleted is a statement of its own, so that it may be out of
  date; the step deletes in any case. Fresh identifiers are not empty.
\<close>

fun library_step :: "library_fs \<Rightarrow> library_world \<Rightarrow> library_event \<Rightarrow> library_world" where
  "library_step fs w (LvCreate i n k) = w\<lparr>lw_db := fst (create_library (lw_db w) i n k)\<rparr>"
| "library_step fs w (LvRename i n) = w\<lparr>lw_db := fst (rename_library (lw_db w) i n)\<rparr>"
| "library_step fs w (LvDelete i) = w\<lparr>lw_db := fst (delete_library_row (lw_db w) i)\<rparr>"
| "library_step fs w (LvAdd i lib p) =
    (if i = '''' then w else w\<lparr>lw_db := fst (add_location fs (lw_db w) i lib p)\<rparr>)"
| "library_step fs w (LvPreview i l p origin) = w\<lparr>lw_db := fst (preview_change fs (lw_db w) i l p origin)\<rparr>"
| "library_step fs w (LvCancel i) = w\<lparr>lw_db := fst (cancel_change (lw_db w) i)\<rparr>"
| "library_step fs w (LvConfirm i) = w\<lparr>lw_db := fst (confirm_change (lw_db w) i)\<rparr>"
| "library_step fs w (LvConfirmRemovals scan l) = w\<lparr>lw_db := fst (confirm_removals (lw_db w) scan l)\<rparr>"
| "library_step fs w LvStartScan =
    (if ld_scanning (lw_db w) then w
     else \<lparr>lw_db = (lw_db w)\<lparr>ld_scanning := True\<rparr>, lw_snapshot = scan_roots (lw_db w)\<rparr>)"
| "library_step fs w (LvEndScan scan outcome) =
    \<lparr>lw_db = (fold (record_outcome scan outcome) (lw_snapshot w) (lw_db w))\<lparr>ld_scanning := False\<rparr>, lw_snapshot = []\<rparr>"

section \<open>The locations and their roots\<close>

type_synonym roots = "(string \<times> string) list"

definition roots_of :: "library_db \<Rightarrow> roots" where
  "roots_of d = map (\<lambda>l. (lr_id l, lr_root l)) (ld_locations d)"

definition apart :: "roots \<Rightarrow> bool" where
  "apart rs \<longleftrightarrow> distinct (map fst rs) \<and>
     (\<forall>i p j q. (i, p) \<in> set rs \<longrightarrow> (j, q) \<in> set rs \<longrightarrow> i \<noteq> j \<longrightarrow> \<not> locations_overlap p q)"

definition stable_links :: "library_fs \<Rightarrow> bool" where
  "stable_links fs \<longleftrightarrow> is_abs (lf_cwd fs) \<and> (\<forall>p. is_abs p \<longrightarrow> canonical fs (canonical fs p) = canonical fs p)"

definition settled :: "library_fs \<Rightarrow> library_world \<Rightarrow> bool" where
  "settled fs w \<longleftrightarrow>
     (let d = lw_db w in
      apart (roots_of d) \<and> (\<forall>(i, p) \<in> set (roots_of d). i \<noteq> '''' \<and> canonical fs p = p) \<and>
      (\<forall>v \<in> set (ld_previews d). pr_new_root v \<noteq> '''' \<longrightarrow> canonical fs (pr_new_root v) = pr_new_root v) \<and>
      (lw_snapshot w \<noteq> [] \<longrightarrow> ld_scanning d) \<and>
      (\<forall>r \<in> set (lw_snapshot w). \<forall>p. (sr_id r, p) \<in> set (roots_of d) \<longrightarrow> p = sr_path r))"

lemma overlap_sym: "locations_overlap p q \<longleftrightarrow> locations_overlap q p"
  by (auto simp: locations_overlap_def)

lemma apartD: "apart rs \<Longrightarrow> (i, p) \<in> set rs \<Longrightarrow> (j, q) \<in> set rs \<Longrightarrow> i \<noteq> j \<Longrightarrow> \<not> locations_overlap p q"
  unfolding apart_def by blast

lemma apartI:
  "distinct (map fst rs) \<Longrightarrow>
   (\<And>i p j q. (i, p) \<in> set rs \<Longrightarrow> (j, q) \<in> set rs \<Longrightarrow> i \<noteq> j \<Longrightarrow> \<not> locations_overlap p q) \<Longrightarrow> apart rs"
  unfolding apart_def by blast

lemma apart_distinct: "apart rs \<Longrightarrow> distinct (map fst rs)"
  by (simp add: apart_def)

lemma apart_filter: "apart rs \<Longrightarrow> apart (filter P rs)"
  by (rule apartI) (auto simp: distinct_map_filter apart_distinct dest: apartD)

lemma apart_add:
  assumes "apart rs" and "i \<notin> fst ` set rs" and free: "\<And>j q. (j, q) \<in> set rs \<Longrightarrow> \<not> locations_overlap p q"
  shows "apart (rs @ [(i, p)])"
proof (rule apartI)
  show "distinct (map fst (rs @ [(i, p)]))" using assms(2) apart_distinct [OF assms(1)] by simp
  fix j q k r assume "(j, q) \<in> set (rs @ [(i, p)])" "(k, r) \<in> set (rs @ [(i, p)])" "j \<noteq> k"
  then consider "(j, q) \<in> set rs" "(k, r) \<in> set rs" | "(j, q) \<in> set rs" "r = p" | "q = p" "(k, r) \<in> set rs" by auto
  then show "\<not> locations_overlap q r"
    by cases (use apartD [OF assms(1) _ _ \<open>j \<noteq> k\<close>] free overlap_sym in blast)+
qed

lemma apart_move:
  assumes "apart rs" and free: "\<And>j q. (j, q) \<in> set rs \<Longrightarrow> j \<noteq> i \<Longrightarrow> \<not> locations_overlap p q"
  shows "apart (map (\<lambda>(j, q). (j, if j = i then p else q)) rs)"
proof (rule apartI)
  have same: "map fst (map (\<lambda>(j, q). (j, if j = i then p else q)) rs) = map fst rs" by (simp add: case_prod_beta)
  show "distinct (map fst (map (\<lambda>(j, q). (j, if j = i then p else q)) rs))"
    unfolding same by (rule apart_distinct [OF assms(1)])
  fix j q k r assume "(j, q) \<in> set (map (\<lambda>(j, q). (j, if j = i then p else q)) rs)"
    "(k, r) \<in> set (map (\<lambda>(j, q). (j, if j = i then p else q)) rs)" and ne: "j \<noteq> k"
  then obtain q' r' where m: "(j, q') \<in> set rs" "(k, r') \<in> set rs" "q = (if j = i then p else q')" "r = (if k = i then p else r')"
    by auto
  with ne free [of k r'] free [of j q'] apartD [OF assms(1) m(1,2) ne] overlap_sym
  show "\<not> locations_overlap q r" by auto
qed

text \<open>What each operation does to the roots.\<close>

lemma roots_update_location:
  "(\<And>l. lr_id (f l) = lr_id l) \<Longrightarrow> (\<And>l. lr_id l = i \<Longrightarrow> l \<in> set (ld_locations d) \<Longrightarrow> lr_root (f l) = lr_root l) \<Longrightarrow>
   roots_of (update_location i f d) = roots_of d"
  by (simp add: roots_of_def update_location_def)

lemma roots_move: "roots_of (move_location i p d) = map (\<lambda>(j, q). (j, if j = i then p else q)) (roots_of d)"
  by (simp add: roots_of_def move_location_def update_location_def)

lemma roots_drop: "roots_of (drop_location i d) = filter (\<lambda>(j, q). j \<noteq> i) (roots_of d)"
  by (simp add: roots_of_def drop_location_def filter_map comp_def)

lemma roots_same: "ld_locations d = ld_locations d' \<Longrightarrow> roots_of d = roots_of d'"
  by (simp add: roots_of_def)


section \<open>Each step\<close>

definition canonical_previews :: "library_fs \<Rightarrow> library_db \<Rightarrow> bool" where
  "canonical_previews fs d \<longleftrightarrow>
     (\<forall>v \<in> set (ld_previews d). pr_new_root v \<noteq> '''' \<longrightarrow> canonical fs (pr_new_root v) = pr_new_root v)"

lemma settled_iff:
  "settled fs w \<longleftrightarrow>
     apart (roots_of (lw_db w)) \<and> (\<forall>(i, p) \<in> set (roots_of (lw_db w)). i \<noteq> '''' \<and> canonical fs p = p) \<and>
     canonical_previews fs (lw_db w) \<and> (lw_snapshot w \<noteq> [] \<longrightarrow> ld_scanning (lw_db w)) \<and>
     (\<forall>r \<in> set (lw_snapshot w). \<forall>p. (sr_id r, p) \<in> set (roots_of (lw_db w)) \<longrightarrow> p = sr_path r)"
  by (simp add: settled_def canonical_previews_def Let_def)

text \<open>A step that at most removes locations, previews them canonically and leaves the scan alone.\<close>

lemma settled_smaller:
  assumes "settled fs w" and "roots_of d = filter P (roots_of (lw_db w))" and "canonical_previews fs d"
    and "ld_scanning d = ld_scanning (lw_db w)"
  shows "settled fs (w\<lparr>lw_db := d\<rparr>)"
  using assms apart_filter [of "roots_of (lw_db w)" P] by (auto simp: settled_iff)

lemma settled_same:
  assumes "settled fs w" and "roots_of d = roots_of (lw_db w)" and "canonical_previews fs d"
    and "ld_scanning d = ld_scanning (lw_db w)"
  shows "settled fs (w\<lparr>lw_db := d\<rparr>)"
  by (rule settled_smaller [OF assms(1) _ assms(3,4), of "\<lambda>_. True"]) (simp add: assms(2))

lemma create_same:
  "roots_of (fst (create_library d i n k)) = roots_of d" "ld_previews (fst (create_library d i n k)) = ld_previews d"
  "ld_scanning (fst (create_library d i n k)) = ld_scanning d"
  "roots_of (fst (rename_library d i n)) = roots_of d" "ld_previews (fst (rename_library d i n)) = ld_previews d"
  "ld_scanning (fst (rename_library d i n)) = ld_scanning d"
  by (simp_all add: create_library_def rename_library_def roots_of_def Let_def)

lemma fold_drop:
  "\<exists>P. roots_of (fold (\<lambda>l. drop_location (lr_id l)) ls d) = filter P (roots_of d)"
  "set (ld_previews (fold (\<lambda>l. drop_location (lr_id l)) ls d)) \<subseteq> set (ld_previews d)"
  "ld_scanning (fold (\<lambda>l. drop_location (lr_id l)) ls d) = ld_scanning d"
proof (induction ls arbitrary: d)
  case Nil
  { case 1 show ?case by (rule exI [of _ "\<lambda>_. True"]) simp }
  { case 2 show ?case by simp }
  { case 3 show ?case by simp }
next
  case (Cons l ls)
  { case 1
    from Cons.IH(1) [of "drop_location (lr_id l) d"] obtain P
      where P: "roots_of (fold (\<lambda>l. drop_location (lr_id l)) ls (drop_location (lr_id l) d)) =
        filter P (roots_of (drop_location (lr_id l) d))" by blast
    show ?case
      by (rule exI [of _ "\<lambda>x. (case x of (j, q) \<Rightarrow> j \<noteq> lr_id l) \<and> P x"]) (simp add: P roots_drop) }
  { case 2
    show ?case using Cons.IH(2) [of "drop_location (lr_id l) d"] by (auto simp: drop_location_def) }
  { case 3
    show ?case using Cons.IH(3) [of "drop_location (lr_id l) d"] by (simp add: drop_location_def) }
qed

lemma delete_smaller:
  "\<exists>P. roots_of (fst (delete_library_row d i)) = filter P (roots_of d)"
  "set (ld_previews (fst (delete_library_row d i))) \<subseteq> set (ld_previews d)"
  "ld_scanning (fst (delete_library_row d i)) = ld_scanning d"
proof -
  let ?ls = "filter (\<lambda>l. lr_library l = i) (ld_locations d)" and ?d = "d\<lparr>ld_libraries := filter (\<lambda>b. lb_id b \<noteq> i) (ld_libraries d)\<rparr>"
  have same: "roots_of ?d = roots_of d" "ld_previews ?d = ld_previews d" "ld_scanning ?d = ld_scanning d"
    by (simp_all add: roots_of_def)
  have all: "filter (\<lambda>_. True) (roots_of d) = roots_of d" by simp
  show "\<exists>P. roots_of (fst (delete_library_row d i)) = filter P (roots_of d)"
    using fold_drop(1) [of ?ls ?d] all unfolding same delete_library_row_def by (auto intro: exI [of _ "\<lambda>_. True"])
  show "set (ld_previews (fst (delete_library_row d i))) \<subseteq> set (ld_previews d)"
    using fold_drop(2) [of ?ls ?d] unfolding same delete_library_row_def by auto
  show "ld_scanning (fst (delete_library_row d i)) = ld_scanning d"
    using fold_drop(3) [of ?ls ?d] unfolding same delete_library_row_def by simp
qed

lemma validated:
  assumes "validate_path fs d except p = Inr c"
  shows "c = canonical fs (abs_path fs (trim_space p))"
    and "\<And>l. l \<in> set (ld_locations d) \<Longrightarrow> lr_id l \<noteq> except \<Longrightarrow> \<not> locations_overlap c (canonical fs (lr_root l))"
  using assms by (auto simp: validate_path_def Let_def find_None_iff split: if_splits option.splits)


lemma abs_path_abs: "is_abs (lf_cwd fs) \<Longrightarrow> is_abs (abs_path fs p)"
proof (cases "is_abs p")
  case False
  assume cwd: "is_abs (lf_cwd fs)"
  then obtain c where c: "lf_cwd fs = slash # c" by (cases "lf_cwd fs") (auto simp: is_abs_def)
  then have "\<exists>s. join [slash] (filter (\<lambda>q. q \<noteq> '''') [lf_cwd fs, p]) = slash # s" by simp
  with False c show ?thesis by (auto simp: abs_path_def join_path_def intro!: is_abs_clean)
qed (simp add: abs_path_def is_abs_clean)

lemma canonical_fixed: "stable_links fs \<Longrightarrow> canonical fs (canonical fs (abs_path fs p)) = canonical fs (abs_path fs p)"
  using abs_path_abs by (simp add: stable_links_def)

lemma roots_row: "l \<in> set (ld_locations d) \<Longrightarrow> (lr_id l, lr_root l) \<in> set (roots_of d)"
  by (simp add: roots_of_def)

lemma root_member: "(i, p) \<in> set (roots_of d) \<longleftrightarrow> (\<exists>l \<in> set (ld_locations d). lr_id l = i \<and> lr_root l = p)"
  by (auto simp: roots_of_def)

lemma settled_root: "settled fs w \<Longrightarrow> (i, p) \<in> set (roots_of (lw_db w)) \<Longrightarrow> i \<noteq> '''' \<and> canonical fs p = p"
  by (auto simp: settled_iff)

lemma settled_free:
  assumes "settled fs w" and "validate_path fs (lw_db w) except p = Inr c"
    and "(j, q) \<in> set (roots_of (lw_db w))" and "j \<noteq> except"
  shows "\<not> locations_overlap c q"
proof -
  from assms(3) obtain l where l: "l \<in> set (ld_locations (lw_db w))" "lr_id l = j" "lr_root l = q" by (auto simp: root_member)
  have "canonical fs (lr_root l) = q" using settled_root [OF assms(1,3)] l(3) by simp
  with validated(2) [OF assms(2) l(1)] l(2) assms(4) show ?thesis by simp
qed

lemma settled_add:
  assumes stable: "stable_links fs" and ok: "settled fs w" and i: "i \<noteq> ''''"
  shows "settled fs (w\<lparr>lw_db := fst (add_location fs (lw_db w) i lib p)\<rparr>)"
proof (cases "snd (add_location fs (lw_db w) i lib p)")
  case (Inl e)
  then have "fst (add_location fs (lw_db w) i lib p) = lw_db w"
    by (auto simp: add_location_def split: if_splits sum.splits)
  with ok show ?thesis by simp
next
  case (Inr row)
  then obtain c where c: "validate_path fs (lw_db w) '''' p = Inr c" and idle: "\<not> ld_scanning (lw_db w)"
    and new: "find_location (lw_db w) i = None"
    and d: "fst (add_location fs (lw_db w) i lib p) = (lw_db w)\<lparr>ld_locations := ld_locations (lw_db w) @ [new_location i lib c]\<rparr>"
    by (auto simp: add_location_def split: if_splits sum.splits)
  have roots: "roots_of (fst (add_location fs (lw_db w) i lib p)) = roots_of (lw_db w) @ [(i, c)]"
    by (simp add: d roots_of_def new_location_def)
  have "i \<notin> fst ` set (roots_of (lw_db w))" using new by (auto simp: find_location_def find_None_iff roots_of_def)
  moreover have "\<not> locations_overlap c q" if "(j, q) \<in> set (roots_of (lw_db w))" for j q
    using settled_free [OF ok c that] settled_root [OF ok that] by simp
  ultimately have "apart (roots_of (lw_db w) @ [(i, c)])" using ok by (intro apart_add) (auto simp: settled_iff)
  moreover have "canonical fs c = c" using validated(1) [OF c] canonical_fixed [OF stable] by simp
  moreover have "lw_snapshot w = []" using ok idle by (auto simp: settled_iff)
  moreover have "canonical_previews fs (fst (add_location fs (lw_db w) i lib p))"
    using ok by (simp add: d settled_iff canonical_previews_def)
  ultimately show ?thesis using ok i settled_root [OF ok] by (auto simp: settled_iff roots)
qed

lemma preview_effect:
  "roots_of (fst (preview_change fs d i l p origin)) = roots_of d"
  "ld_scanning (fst (preview_change fs d i l p origin)) = ld_scanning d"
  by (auto simp: preview_change_def Let_def roots_of_def split: option.splits sum.splits)

lemma preview_canonical:
  assumes "stable_links fs" and "canonical_previews fs d"
  shows "canonical_previews fs (fst (preview_change fs d i l p origin))"
proof -
  have "canonical fs c = c" if "validate_path fs d l p = Inr c" for c
    using validated(1) [OF that] canonical_fixed [OF assms(1)] by simp
  with assms(2) show ?thesis
    by (auto simp: preview_change_def Let_def canonical_previews_def split: option.splits sum.splits if_splits)
qed

lemma cancel_effect:
  "roots_of (fst (cancel_change d i)) = roots_of d" "ld_scanning (fst (cancel_change d i)) = ld_scanning d"
  "set (ld_previews (fst (cancel_change d i))) \<subseteq> set (ld_previews d)"
  by (auto simp: cancel_change_def roots_of_def)

lemma canonical_subset: "canonical_previews fs d \<Longrightarrow> set (ld_previews d') \<subseteq> set (ld_previews d) \<Longrightarrow> canonical_previews fs d'"
  by (auto simp: canonical_previews_def)


lemma scanning_same [simp]:
  "ld_scanning (take_away P d) = ld_scanning d" "ld_scanning (reselect_source c d) = ld_scanning d"
  "ld_scanning (fold reselect_source cs d) = ld_scanning d" "ld_scanning (apply_identity_mappings d) = ld_scanning d"
  "ld_scanning (set_default_root l p d) = ld_scanning d" "ld_scanning (drop_location l d) = ld_scanning d"
  "ld_scanning (update_location l f d) = ld_scanning d" "ld_scanning (move_location l p d) = ld_scanning d"
proof -
  show 1: "ld_scanning (reselect_source c d) = ld_scanning d" for c d
    by (simp add: reselect_source_def update_item_def split: list.splits)
  show "ld_scanning (fold reselect_source cs d) = ld_scanning d" by (induction cs arbitrary: d) (simp_all add: 1)
qed (simp_all add: take_away_def apply_identity_mappings_def Let_def set_default_root_def drop_location_def
      update_location_def move_location_def)

lemma roots_apply_change:
  "roots_of (apply_change d v) =
    (if pr_new_root v = '''' then filter (\<lambda>(j, q). j \<noteq> pr_location v) (roots_of d)
     else map (\<lambda>(j, q). (j, if j = pr_location v then pr_new_root v else q)) (roots_of d))"
proof -
  let ?e = "fold reselect_source (remdups (map snd (pr_sources v)))
      (take_away (\<lambda>f. pf_location f = pr_location v \<and> pf_present f) d)"
  have e: "roots_of ?e = roots_of d" by (rule roots_same) (simp add: take_away_def)
  have outer: "roots_of (apply_identity_mappings (set_default_root l p x)) = roots_of x" for l p x
    by (rule roots_same) simp
  show ?thesis unfolding apply_change_def Let_def outer by (simp add: roots_drop roots_move e)
qed

lemma settled_confirm:
  assumes ok: "settled fs w"
  shows "settled fs (w\<lparr>lw_db := fst (confirm_change (lw_db w) i)\<rparr>)"
proof (cases "snd (confirm_change (lw_db w) i)")
  case (Inl e)
  then have "fst (confirm_change (lw_db w) i) = lw_db w" by (rule confirm_change_failed)
  with ok show ?thesis by simp
next
  case (Inr u)
  then have "confirm_change (lw_db w) i = (fst (confirm_change (lw_db w) i), Inr ())" by (simp add: prod_eq_iff)
  then obtain v row where v: "v \<in> set (ld_previews (lw_db w))" "change_conflict (lw_db w) v = None"
    and d: "fst (confirm_change (lw_db w) i) = apply_change (lw_db w) v" by (rule confirm_change_done)
  have idle: "\<not> ld_scanning (lw_db w)" using Inr by (auto simp: confirm_change_def split: if_splits)
  have scanning: "ld_scanning (apply_change (lw_db w) v) = ld_scanning (lw_db w)" by (simp add: apply_change_def Let_def)
  have "set (ld_previews (apply_change (lw_db w) v)) \<subseteq> set (ld_previews (lw_db w))"
    by (auto simp: apply_change_def Let_def move_location_def drop_location_def take_away_def)
  then have previews: "canonical_previews fs (apply_change (lw_db w) v)"
    by (rule canonical_subset [rotated]) (use ok in \<open>simp add: settled_iff\<close>)
  show ?thesis
  proof (cases "pr_new_root v = ''''")
    case True
    show ?thesis unfolding d
      by (rule settled_smaller [OF ok _ previews scanning, of "\<lambda>(j, q). j \<noteq> pr_location v"]) (simp add: roots_apply_change True)
  next
    case False
    have "\<not> locations_overlap (pr_new_root v) q" if "(j, q) \<in> set (roots_of (lw_db w))" "j \<noteq> pr_location v" for j q
      using that no_conflict [OF v(2) False] by (auto simp: root_member)
    then have "apart (roots_of (apply_change (lw_db w) v))"
      using False ok by (simp only: roots_apply_change if_False) (intro apart_move; auto simp: settled_iff)
    moreover have "canonical fs (pr_new_root v) = pr_new_root v"
      using ok v(1) False by (auto simp: settled_iff canonical_previews_def)
    moreover have "lw_snapshot w = []" using ok idle by (auto simp: settled_iff)
    ultimately show ?thesis using previews settled_root [OF ok] False
      unfolding d by (auto simp: settled_iff roots_apply_change)
  qed
qed

lemma removals_effect:
  "roots_of (fst (confirm_removals d scan l)) = roots_of d" "ld_previews (fst (confirm_removals d scan l)) = ld_previews d"
  "ld_scanning (fst (confirm_removals d scan l)) = ld_scanning d"
proof -
  have "roots_of (apply_removals d scan l) = roots_of d" for l
  proof -
    let ?e = "apply_identity_mappings (fold reselect_source (remdups (map cr_catalog (review_candidates d scan l)))
        (take_away (\<lambda>f. pf_location f = l \<and> pf_id f \<in> cr_physical ` set (review_candidates d scan l)) d))"
    have "roots_of (update_location l (\<lambda>x. x\<lparr>lr_state := s, lr_complete := b, lr_missing := n, lr_pending := p, lr_message := m\<rparr>) x) =
        roots_of x" for s b n p m x
      by (rule roots_update_location) simp_all
    moreover have "roots_of (?e\<lparr>ld_candidates := cs\<rparr>) = roots_of d" for cs
      by (rule roots_same) (simp add: take_away_def)
    ultimately show ?thesis by (simp add: apply_removals_def Let_def)
  qed
  then show "roots_of (fst (confirm_removals d scan l)) = roots_of d"
    by (simp add: confirm_removals_def split: option.splits)
  show "ld_previews (fst (confirm_removals d scan l)) = ld_previews d" "ld_scanning (fst (confirm_removals d scan l)) = ld_scanning d"
    by (simp_all add: confirm_removals_def apply_removals_def Let_def take_away_def split: option.splits)
qed


lemma snapshot_roots:
  assumes "distinct (map fst (roots_of d))" and "r \<in> set (scan_roots d)" and "(sr_id r, p) \<in> set (roots_of d)"
  shows "p = sr_path r"
proof -
  from assms(3) have "ld_locations d \<noteq> []" by (auto simp: roots_of_def)
  with assms(2) obtain l where l: "l \<in> set (ld_locations d)" "sr_id r = lr_id l" "sr_path r = lr_root l"
    by (auto simp: scan_roots_def Let_def split: if_splits)
  then have "(sr_id r, sr_path r) \<in> set (roots_of d)" by (auto simp: root_member)
  with assms(1,3) show ?thesis by (meson eq_key_imp_eq_value)
qed

lemma settled_start:
  assumes ok: "settled fs w"
  shows "settled fs (library_step fs w LvStartScan)"
proof (cases "ld_scanning (lw_db w)")
  case False
  have same: "roots_of ((lw_db w)\<lparr>ld_scanning := True\<rparr>) = roots_of (lw_db w)" by (rule roots_same) simp
  have "p = sr_path r" if "r \<in> set (scan_roots (lw_db w))" "(sr_id r, p) \<in> set (roots_of (lw_db w))" for r p
    using snapshot_roots [OF _ that] ok by (auto simp: settled_iff intro: apart_distinct)
  with ok False show ?thesis by (auto simp: settled_iff same canonical_previews_def)
qed (use ok in simp)

lemma outcome_effect:
  assumes "\<forall>p. (sr_id r, p) \<in> set (roots_of d) \<longrightarrow> p = sr_path r"
  shows "roots_of (record_outcome scan outcome r d) = roots_of d"
    and "ld_previews (record_outcome scan outcome r d) = ld_previews d"
proof -
  have same: "roots_of (d\<lparr>ld_candidates := cs\<rparr>) = roots_of d" for cs by (rule roots_same) simp
  have "lr_root l = sr_path r" if "l \<in> set (ld_locations d)" "lr_id l = sr_id r" for l
    using assms that by (auto simp: root_member)
  then have "roots_of (update_location (sr_id r) f (d\<lparr>ld_candidates := cs\<rparr>)) = roots_of d"
    if "\<And>l. lr_id (f l) = lr_id l" "\<And>l. lr_root (f l) = sr_path r \<or> lr_root (f l) = lr_root l" for f cs
    by (subst roots_update_location) (use that same in \<open>auto; metis\<close>)+
  then show "roots_of (record_outcome scan outcome r d) = roots_of d"
    by (auto simp: record_outcome_def record_complete_def record_review_def record_unavailable_def
        split: option.splits location_outcome.splits)
  show "ld_previews (record_outcome scan outcome r d) = ld_previews d"
    by (auto simp: record_outcome_def record_complete_def record_review_def record_unavailable_def
        split: option.splits location_outcome.splits)
qed

lemma fold_outcome:
  assumes "\<forall>r \<in> set rs. \<forall>p. (sr_id r, p) \<in> set (roots_of d) \<longrightarrow> p = sr_path r"
  shows "roots_of (fold (record_outcome scan outcome) rs d) = roots_of d \<and>
    ld_previews (fold (record_outcome scan outcome) rs d) = ld_previews d"
  using assms
proof (induction rs arbitrary: d)
  case (Cons r rs)
  note effect = outcome_effect [of r d scan outcome]
  from Cons.prems have r: "\<forall>p. (sr_id r, p) \<in> set (roots_of d) \<longrightarrow> p = sr_path r" by simp
  from Cons.prems have "\<forall>x \<in> set rs. \<forall>p. (sr_id x, p) \<in> set (roots_of (record_outcome scan outcome r d)) \<longrightarrow> p = sr_path x"
    unfolding effect(1) [OF r] by simp
  from Cons.IH [OF this] show ?case by (simp add: effect [OF r])
qed simp

lemma settled_end:
  assumes ok: "settled fs w"
  shows "settled fs (library_step fs w (LvEndScan scan outcome))"
proof -
  let ?d = "fold (record_outcome scan outcome) (lw_snapshot w) (lw_db w)"
  have e: "roots_of ?d = roots_of (lw_db w)" "ld_previews ?d = ld_previews (lw_db w)"
    using fold_outcome [of "lw_snapshot w" "lw_db w" scan outcome] ok by (auto simp: settled_iff)
  have "roots_of (?d\<lparr>ld_scanning := False\<rparr>) = roots_of ?d" by (rule roots_same) simp
  with e ok show ?thesis by (simp add: settled_iff canonical_previews_def)
qed

lemma settled_step:
  assumes stable: "stable_links fs" and ok: "settled fs w"
  shows "settled fs (library_step fs w e)"
proof (cases e)
  case (LvCreate i n k)
  from ok have "canonical_previews fs (fst (create_library (lw_db w) i n k))"
    by (simp add: settled_iff canonical_previews_def create_same)
  then show ?thesis unfolding LvCreate library_step.simps by (intro settled_same [OF ok]) (simp_all add: create_same)
next
  case (LvRename i n)
  from ok have "canonical_previews fs (fst (rename_library (lw_db w) i n))"
    by (simp add: settled_iff canonical_previews_def create_same)
  then show ?thesis unfolding LvRename library_step.simps by (intro settled_same [OF ok]) (simp_all add: create_same)
next
  case (LvDelete i)
  obtain P where P: "roots_of (fst (delete_library_row (lw_db w) i)) = filter P (roots_of (lw_db w))"
    using delete_smaller(1) by blast
  have "canonical_previews fs (fst (delete_library_row (lw_db w) i))"
    using canonical_subset [OF _ delete_smaller(2)] ok by (simp add: settled_iff)
  then show ?thesis unfolding LvDelete library_step.simps by (rule settled_smaller [OF ok P]) (rule delete_smaller(3))
next
  case (LvAdd i lib p)
  with settled_add [OF stable ok] ok show ?thesis by simp
next
  case (LvPreview i l p origin)
  have "canonical_previews fs (fst (preview_change fs (lw_db w) i l p origin))"
    by (rule preview_canonical [OF stable]) (use ok in \<open>simp add: settled_iff\<close>)
  then show ?thesis unfolding LvPreview library_step.simps by (intro settled_same [OF ok]) (simp_all add: preview_effect)
next
  case (LvCancel i)
  have "canonical_previews fs (fst (cancel_change (lw_db w) i))"
    using canonical_subset [OF _ cancel_effect(3)] ok by (simp add: settled_iff)
  then show ?thesis unfolding LvCancel library_step.simps by (intro settled_same [OF ok]) (simp_all add: cancel_effect)
next
  case (LvConfirm i)
  with settled_confirm [OF ok] show ?thesis by simp
next
  case (LvConfirmRemovals scan l)
  from ok have "canonical_previews fs (fst (confirm_removals (lw_db w) scan l))"
    by (simp add: settled_iff canonical_previews_def removals_effect)
  then show ?thesis unfolding LvConfirmRemovals library_step.simps
    by (intro settled_same [OF ok]) (simp_all add: removals_effect)
next
  case LvStartScan
  with settled_start [OF ok] show ?thesis by simp
next
  case (LvEndScan scan outcome)
  with settled_end [OF ok] show ?thesis by simp
qed

definition empty_world :: library_world where
  "empty_world = \<lparr>lw_db = \<lparr>ld_libraries = [], ld_locations = [], ld_previews = [], ld_candidates = [], ld_physical = [],
     ld_items = [], ld_series = [], ld_merges = [], ld_film = '''', ld_tv = '''', ld_scanning = False\<rparr>, lw_snapshot = []\<rparr>"

lemma settled_empty: "settled fs empty_world"
  by (simp add: settled_iff empty_world_def roots_of_def apart_def canonical_previews_def)

interpretation lw: machine empty_world "library_step fs" "\<lambda>w. stable_links fs \<longrightarrow> settled fs w" for fs
  by unfold_locales (use settled_empty settled_step in blast)+



section \<open>A run, and what setting the roots does\<close>

definition sample_fs :: library_fs where
  "sample_fs = \<lparr>lf_cwd = ''/'', lf_is_dir = (\<lambda>_. True), lf_links = (\<lambda>p. if p = ''/n'' then Some ''/m'' else None)\<rparr>"

lemma sample_stable: "stable_links sample_fs"
proof -
  have m: "clean ''/m'' = ''/m''" by code_simp
  have "canonical sample_fs (canonical sample_fs p) = canonical sample_fs p" if "is_abs p" for p
    using clean_idem [OF that] m by (cases "clean p = ''/n''") (simp_all add: canonical_def sample_fs_def)
  moreover have "is_abs (lf_cwd sample_fs)" by code_simp
  ultimately show ?thesis by (simp add: stable_links_def)
qed

text \<open>The second folder is a link to the first one and is refused; the third one is taken.\<close>

definition sample_events :: "library_event list" where
  "sample_events = [LvCreate ''b'' ''Films'' ''film'', LvAdd ''x'' ''b'' ''/m'', LvAdd ''y'' ''b'' ''/n'', LvAdd ''z'' ''b'' ''/o'']"

lemma sample_locations:
  "map (\<lambda>l. (lr_id l, lr_root l)) (ld_locations (lw_db (run_steps (library_step sample_fs) empty_world sample_events))) =
    [(''x'', ''/m''), (''z'', ''/o'')]"
  by code_simp


text \<open>
  Setting the two default roots at once can make them the same folder: they are compared before
  symbolic links are resolved, and each is then checked against the stored root of the other only.
\<close>

theorem roots_may_overlap:
  "map (\<lambda>l. (lr_id l, lr_root l)) (ld_locations (fst (set_roots sample_fs (lw_db empty_world) ''/m'' ''/n''))) =
    [(''films-root'', ''/m''), (''tv-root'', ''/m'')]"
  by code_simp

definition scan_over_move :: library_db where
  "scan_over_move =
    (let w = library_step sample_fs (empty_world\<lparr>lw_db := fst (set_roots sample_fs (lw_db empty_world) ''/m'' '''')\<rparr>) LvStartScan;
         moved = w\<lparr>lw_db := fst (set_roots sample_fs (lw_db w) ''/o'' '''')\<rparr>
     in lw_db (library_step sample_fs moved (LvEndScan ''s'' (\<lambda>_. Some (FoundAll 0 0)))))"

text \<open>
  Setting the roots does not look whether a scan is running, and a scan writes the root it read
  at its start: an empty location that is moved during its first scan ends up on the old folder,
  while the settings name the new one.
\<close>

theorem scan_undoes_move:
  "ld_film scan_over_move = ''/o'' \<and> map lr_root (ld_locations scan_over_move) = [''/m'']"
  by code_simp

end
