(* ===== verification/ScanPolicy.thy ===== *)
theory ScanPolicy
  imports Schedule Exclusions
begin

text \<open>
  When libraries are scanned (backend/catalog/scan_scheduler.go): the policy of each library, the
  schedule of the environment that overrides all of them, and the time of the next scan. Loading a
  time zone and parsing a duration are arguments. Nothing is returned where the loop of a schedule
  would not end.
\<close>

record scan_policy =
  po_library :: string
  po_enabled :: bool
  po_kind :: string
  po_interval :: int
  po_time :: string
  po_zone :: string
  po_next :: int
  po_success :: int
  po_exclusions :: "string list"

text \<open>The stored row of a policy; the exclusions have a table of their own.\<close>

record policy_store =
  py_libraries :: "string list"
  py_rows :: "(string, scan_policy \<times> string) gomap"
  py_exclusions :: "(string, string list) gomap"
  py_override :: string

datatype scan_policy_error =
    ScanKindInvalid | ScanIntervalInvalid | ScanTimeInvalid | ScanZoneInvalid | ScanExclusionsInvalid
  | ScanLibraryMissing | ScanOverrideInvalid

record clockwork =
  ck_zones :: "string \<Rightarrow> location option"
  ck_duration :: "string \<Rightarrow> int option"

definition policy_with_override :: "clockwork \<Rightarrow> scan_policy \<Rightarrow> string \<Rightarrow> (scan_policy_error, scan_policy) result" where
  "policy_with_override ck p spec =
    (if spec = ''off'' then Inr (p\<lparr>po_enabled := False\<rparr>)
     else if prefix ''every:'' spec then
       (case ck_duration ck (trim_prefix spec ''every:'') of
          None \<Rightarrow> Inl ScanOverrideInvalid
        | Some t \<Rightarrow> if t < minute_ns \<or> 365 * day_ns < t then Inl ScanOverrideInvalid
            else Inr (p\<lparr>po_enabled := True, po_kind := ''interval'', po_interval := go_div t 1000000000\<rparr>))
     else if prefix ''daily:'' spec then
       (case split_str2 ''@'' (trim_prefix spec ''daily:'') of
          [t, z] \<Rightarrow>
            if parse_clock t = None then Inl ScanTimeInvalid
            else if ck_zones ck z = None then Inl ScanZoneInvalid
            else Inr (p\<lparr>po_enabled := True, po_kind := ''daily'', po_time := t, po_zone := z\<rparr>)
        | _ \<Rightarrow> Inl ScanOverrideInvalid)
     else Inl ScanOverrideInvalid)"

definition plain_policy :: "string \<Rightarrow> scan_policy" where
  "plain_policy lib = \<lparr>po_library = lib, po_enabled = False, po_kind = ''interval'', po_interval = 86400, po_time = ''03:00'',
     po_zone = ''UTC'', po_next = 0, po_success = 0, po_exclusions = []\<rparr>"

text \<open>A policy as it is read: the row or the defaults, the exclusions, and the override on top.\<close>

definition read_policy :: "clockwork \<Rightarrow> policy_store \<Rightarrow> string \<Rightarrow> (scan_policy_error, scan_policy) result" where
  "read_policy ck s lib =
    (let p = (case map_of (py_rows s) lib of None \<Rightarrow> plain_policy lib | Some (r, _) \<Rightarrow> r);
         q = p\<lparr>po_exclusions := get_or [] (py_exclusions s) lib\<rparr>
     in if py_override s = '''' then Inr q else policy_with_override ck q (py_override s))"

fun read_all :: "clockwork \<Rightarrow> policy_store \<Rightarrow> string list \<Rightarrow> (scan_policy_error, scan_policy list) result" where
  "read_all ck s [] = Inr []"
| "read_all ck s (lib # libs) =
    (case read_policy ck s lib of
       Inl e \<Rightarrow> Inl e
     | Inr p \<Rightarrow> (case read_all ck s libs of Inl e \<Rightarrow> Inl e | Inr ps \<Rightarrow> Inr (p # ps)))"

definition scan_policies :: "clockwork \<Rightarrow> policy_store \<Rightarrow> (scan_policy_error, scan_policy list) result" where
  "scan_policies ck s = read_all ck s (py_libraries s)"

definition scan_policy_of :: "clockwork \<Rightarrow> policy_store \<Rightarrow> string \<Rightarrow> (scan_policy_error, scan_policy) result" where
  "scan_policy_of ck s lib =
    (case scan_policies ck s of
       Inl e \<Rightarrow> Inl e
     | Inr ps \<Rightarrow> (case find (\<lambda>p. po_library p = lib) ps of None \<Rightarrow> Inl ScanLibraryMissing | Some p \<Rightarrow> Inr p))"

definition next_scan :: "clockwork \<Rightarrow> int \<Rightarrow> scan_policy \<Rightarrow> int option" where
  "next_scan ck now p =
    map_option (\<lambda>t. t div 1000000000)
      (next_run now (po_kind p) (wrap64 (po_interval p * 1000000000))
        (if po_next p = 0 then None else Some (po_next p * 1000000000)) (po_time p) (ck_zones ck (po_zone p)) minute_ns)"

definition with_defaults :: "scan_policy \<Rightarrow> scan_policy" where
  "with_defaults p =
    p\<lparr>po_interval := (if po_interval p = 0 then 86400 else po_interval p),
      po_time := (if po_time p = '''' then ''03:00'' else po_time p),
      po_zone := (if po_zone p = '''' then ''UTC'' else po_zone p)\<rparr>"

definition check_policy :: "clockwork \<Rightarrow> scan_policy \<Rightarrow> (scan_policy_error, string list) result" where
  "check_policy ck p =
    (if po_kind p \<noteq> ''interval'' \<and> po_kind p \<noteq> ''daily'' then Inl ScanKindInvalid
     else if po_interval p < 60 \<or> 31536000 < po_interval p then Inl ScanIntervalInvalid
     else if parse_clock (po_time p) = None then Inl ScanTimeInvalid
     else if ck_zones ck (po_zone p) = None then Inl ScanZoneInvalid
     else (case normalize_exclusions (po_exclusions p) of None \<Rightarrow> Inl ScanExclusionsInvalid | Some ex \<Rightarrow> Inr ex))"

text \<open>An upsert keeps the time of the last success and the override of the row.\<close>

definition upsert_policy :: "scan_policy \<Rightarrow> string list \<Rightarrow> policy_store \<Rightarrow> policy_store" where
  "upsert_policy p ex s =
    (let lib = po_library p; (success, spec) = (case map_of (py_rows s) lib of None \<Rightarrow> (0, '''') | Some (r, spec) \<Rightarrow> (po_success r, spec))
     in s\<lparr>py_rows := AList.update lib (p\<lparr>po_success := success, po_exclusions := []\<rparr>, spec) (py_rows s),
          py_exclusions := AList.update lib ex (py_exclusions s)\<rparr>)"

definition set_scan_policy :: "clockwork \<Rightarrow> int \<Rightarrow> string \<Rightarrow> scan_policy \<Rightarrow> policy_store \<Rightarrow>
    (policy_store \<times> (scan_policy_error, scan_policy) result) option" where
  "set_scan_policy ck now lib p s =
    (let q = with_defaults p in
     case check_policy ck q of Inl e \<Rightarrow> Some (s, Inl e)
     | Inr ex \<Rightarrow>
        (let q' = q\<lparr>po_library := lib, po_exclusions := ex, po_next := 0\<rparr> in
         case (if po_enabled q' then next_scan ck now q' else Some 0) of
           None \<Rightarrow> None
         | Some at \<Rightarrow>
            if lib \<notin> set (py_libraries s) then Some (s, Inl ScanLibraryMissing)
            else (let s' = upsert_policy (q'\<lparr>po_next := at\<rparr>) ex s in Some (s', scan_policy_of ck s' lib))))"

definition set_scan_exclusions :: "clockwork \<Rightarrow> string \<Rightarrow> string list \<Rightarrow> policy_store \<Rightarrow>
    policy_store \<times> (scan_policy_error, scan_policy) result" where
  "set_scan_exclusions ck lib ps s =
    (case normalize_exclusions ps of
       None \<Rightarrow> (s, Inl ScanExclusionsInvalid)
     | Some ex \<Rightarrow>
        if lib \<notin> set (py_libraries s) then (s, Inl ScanLibraryMissing)
        else (let s' = s\<lparr>py_exclusions := AList.update lib ex (py_exclusions s)\<rparr> in (s', scan_policy_of ck s' lib)))"

text \<open>The rows that carry another override get the next time of the schedule now in force.\<close>

fun override_loop :: "clockwork \<Rightarrow> int \<Rightarrow> string \<Rightarrow> string list \<Rightarrow> policy_store \<Rightarrow>
    (policy_store \<times> scan_policy_error option) option" where
  "override_loop ck now spec [] s = Some (s, None)"
| "override_loop ck now spec (lib # libs) s =
    (case scan_policy_of ck s lib of
       Inl e \<Rightarrow> Some (s, Some e)
     | Inr p \<Rightarrow>
        (case (if po_enabled p then next_scan ck now (p\<lparr>po_next := 0\<rparr>) else Some 0) of
           None \<Rightarrow> None
         | Some at \<Rightarrow>
            override_loop ck now spec libs
              (case map_of (py_rows s) lib of
                 None \<Rightarrow> s
               | Some (r, _) \<Rightarrow> s\<lparr>py_rows := AList.update lib (r\<lparr>po_next := at\<rparr>, spec) (py_rows s)\<rparr>)))"

definition apply_schedule_override :: "clockwork \<Rightarrow> int \<Rightarrow> string \<Rightarrow> policy_store \<Rightarrow>
    (policy_store \<times> scan_policy_error option) option" where
  "apply_schedule_override ck now spec s =
    (case (if spec = '''' then Inr (plain_policy '''') else policy_with_override ck (plain_policy '''') spec) of
       Inl e \<Rightarrow> Some (s, Some e)
     | Inr _ \<Rightarrow>
        override_loop ck now spec (map fst (filter (\<lambda>(_, _, spec'). spec' \<noteq> spec) (py_rows s))) (s\<lparr>py_override := spec\<rparr>))"

end
