(* ===== verification/ScanJobs.thy ===== *)
theory ScanJobs
  imports ScanPolicy "HOL-Library.Product_Lexorder"
begin

text \<open>
  The scan jobs (backend/catalog/scan_scheduler.go): the queue, the one runner that executes a job
  at a time, cancelling and retrying. A step is one statement or transaction on the database or
  one critical section, so that requests interleave with the run. A job's context and the intent
  of a cancellation are numbered. What the scan of the library finds is an input; its commit is a
  step of its own, because the code decides there whether a cancellation still counts.
\<close>

record scan_job_file =
  jf_location :: string
  jf_path :: string
  jf_outcome :: string
  jf_code :: string
  jf_message :: string
  jf_retryable :: bool

record scan_job =
  sj_id :: string
  sj_library :: string
  sj_trigger :: string
  sj_status :: string
  sj_queued_at :: int
  sj_started_at :: int
  sj_finished_at :: int
  sj_not_before :: int
  sj_attempt :: int
  sj_retry_of :: string
  sj_cancel_requested :: bool
  sj_total :: "int option"
  sj_scanned :: int
  sj_skipped :: int
  sj_failed :: int
  sj_unmatched :: int
  sj_message :: string
  sj_files :: "scan_job_file list"

record scan_status =
  ss_status :: string
  ss_total :: "int option"
  ss_scanned :: int
  ss_skipped :: int
  ss_failed :: int
  ss_unmatched :: int
  ss_message :: string

datatype scan_job_error =
    BadScanTrigger | JobLibraryMissing | ScanJobMissing | NotRetryable | RetryLimit | FileNotRetryable
  | NothingToRetry | JobRefused | NotCancellable | JobNotActive

section \<open>The table of jobs\<close>

definition job_active :: "scan_job \<Rightarrow> bool" where
  "job_active j \<longleftrightarrow> sj_status j = ''queued'' \<or> sj_status j = ''running''"

definition scan_job_of :: "scan_job list \<Rightarrow> string \<Rightarrow> scan_job option" where
  "scan_job_of js i = find (\<lambda>j. sj_id j = i) js"

definition change_job :: "string \<Rightarrow> (scan_job \<Rightarrow> scan_job) \<Rightarrow> scan_job list \<Rightarrow> scan_job list" where
  "change_job i f js = map (\<lambda>j. if sj_id j = i then f j else j) js"

definition new_job :: "string \<Rightarrow> string \<Rightarrow> string \<Rightarrow> int \<Rightarrow> int \<Rightarrow> string \<Rightarrow> scan_job_file list \<Rightarrow> scan_job" where
  "new_job i lib trigger now attempt retry_of files =
    \<lparr>sj_id = i, sj_library = lib, sj_trigger = trigger, sj_status = ''queued'', sj_queued_at = now, sj_started_at = 0,
     sj_finished_at = 0, sj_not_before = now, sj_attempt = attempt, sj_retry_of = retry_of, sj_cancel_requested = False,
     sj_total = None, sj_scanned = 0, sj_skipped = 0, sj_failed = 0, sj_unmatched = 0, sj_message = '''', sj_files = files\<rparr>"

text \<open>
  An insertion fails when the identifier is taken, when the library has an active job (a unique
  index of the table), or when the attempt is not between one and three.
\<close>

definition insert_scan_job :: "scan_job \<Rightarrow> scan_job list \<Rightarrow> scan_job list option" where
  "insert_scan_job j js =
    (if scan_job_of js (sj_id j) \<noteq> None \<or> (\<exists>k \<in> set js. sj_library k = sj_library j \<and> job_active k) \<or>
        sj_attempt j < 1 \<or> 3 < sj_attempt j then None
     else Some (js @ [j]))"

definition queue_key :: "scan_job \<Rightarrow> int \<times> string" where
  "queue_key j = (sj_queued_at j, sj_id j)"

definition first_due :: "int \<Rightarrow> scan_job list \<Rightarrow> scan_job option" where
  "first_due now js =
    (case sort_key queue_key (filter (\<lambda>j. sj_status j = ''queued'' \<and> \<not> sj_cancel_requested j \<and> sj_not_before j \<le> now) js) of
       [] \<Rightarrow> None | j # _ \<Rightarrow> Some j)"

definition scanJobHistoryLimit :: nat where "scanJobHistoryLimit = 20"

definition list_scan_jobs :: "int \<Rightarrow> scan_job list \<Rightarrow> scan_job list" where
  "list_scan_jobs limit js =
    take (if limit < 1 \<or> 100 < limit then scanJobHistoryLimit else nat limit) (rev (sort_key queue_key js))"

definition history_of :: "string \<Rightarrow> scan_job list \<Rightarrow> scan_job list" where
  "history_of lib js = rev (sort_key queue_key (filter (\<lambda>j. sj_library j = lib \<and> \<not> job_active j) js))"

definition prune_history :: "string \<Rightarrow> scan_job list \<Rightarrow> scan_job list" where
  "prune_history lib js = filter (\<lambda>j. sj_id j \<notin> sj_id ` set (drop scanJobHistoryLimit (history_of lib js))) js"

section \<open>What a scan leaves on its job\<close>

definition redact_scan_error :: "string \<Rightarrow> string" where
  "redact_scan_error message =
    (let l = to_lower message in
     if contains l ''permission'' then ''A library file or folder could not be read. Check its permissions and retry.''
     else if contains l ''not exist'' \<or> contains l ''unavailable''
       then ''A library folder is unavailable. Reconnect it and retry.''
     else if message \<noteq> '''' then ''The scan could not finish. Review the affected files and retry.'' else '''')"

definition permanent_failure :: "string \<Rightarrow> bool" where
  "permanent_failure message \<longleftrightarrow>
     (let l = to_lower message in contains l ''permission'' \<or> contains l ''unavailable'' \<or> contains l ''not exist'')"

definition after_mark :: "string \<Rightarrow> string \<Rightarrow> (string \<times> string) option" where
  "after_mark mark s =
    (case index_of s mark of None \<Rightarrow> None | Some k \<Rightarrow> Some (take k s, drop (k + length mark) s))"

definition tab :: string where "tab = [CHR 0x09]"

text \<open>An identifier names its location before a tab and its kind before a colon, or neither.\<close>

definition file_place :: "string \<Rightarrow> string \<Rightarrow> string \<times> string" where
  "file_place location identifier =
    (let (l, rel) = (case after_mark tab identifier of None \<Rightarrow> (location, identifier) | Some (a, b) \<Rightarrow> (a, b))
     in (l, case after_mark '':'' rel of None \<Rightarrow> rel | Some (_, b) \<Rightarrow> b))"

definition failure_detail :: "string \<Rightarrow> string \<times> bool \<times> string" where
  "failure_detail raw =
    (let l = to_lower raw in
     if prefix ''excluded_by_policy:'' raw then (''excluded_by_policy'', False, trim_space (trim_prefix raw ''excluded_by_policy:''))
     else if prefix ''not_found:'' raw then (''not_found'', False, trim_space (trim_prefix raw ''not_found:''))
     else if contains l ''permission''
       then (''permission_denied'', False, ''This file could not be read. Check its permissions before the next scan.'')
     else if contains l ''ffprobe'' \<and> (contains l ''not found'' \<or> contains l ''unavailable'')
       then (''ffprobe_unavailable'', False, ''FFprobe is unavailable. Install or configure it before the next scan.'')
     else (''probe_failed'', True, ''This file could not be inspected. Retry after checking that it is readable.''))"

definition observed_file :: "string \<Rightarrow> string \<Rightarrow> string \<Rightarrow> string \<Rightarrow> scan_job_file" where
  "observed_file location rel outcome raw =
    (if prefix ''local_'' outcome
     then (let m = trim_space (trim_prefix raw (outcome @ '':'')) in
       \<lparr>jf_location = location, jf_path = rel, jf_outcome = outcome, jf_code = outcome,
        jf_message = (if m = '''' then ''The local metadata sidecar was ignored. Correct it and scan again.'' else m),
        jf_retryable = False\<rparr>)
     else if outcome = ''failed''
     then (let (code, retryable, m) = failure_detail raw in
       \<lparr>jf_location = location, jf_path = rel, jf_outcome = outcome, jf_code = code, jf_message = m, jf_retryable = retryable\<rparr>)
     else \<lparr>jf_location = location, jf_path = rel, jf_outcome = outcome,
        jf_code = (if outcome = ''unmatched'' then ''metadata_unmatched'' else ''probe_failed''),
        jf_message = ''Metadata could not match this file.'', jf_retryable = False\<rparr>)"

definition put_file :: "scan_job_file \<Rightarrow> scan_job_file list \<Rightarrow> scan_job_file list" where
  "put_file f fs = filter (\<lambda>g. (jf_location g, jf_path g) \<noteq> (jf_location f, jf_path f)) fs @ [f]"

definition captured_outcomes :: "string list" where
  "captured_outcomes = [''failed'', ''unmatched'', ''local_metadata_invalid'', ''local_metadata_ignored'', ''local_artwork_invalid'']"

text \<open>
  \<open>captureScanJobFilesTx\<close>: the files that were queued for a retry have succeeded unless the scan
  says otherwise. A location once read from an identifier is kept for the rows that follow.
\<close>

fun capture_loop :: "string \<Rightarrow> (string \<times> string \<times> string) list \<Rightarrow> scan_job_file list \<Rightarrow> scan_job_file list" where
  "capture_loop location [] fs = fs"
| "capture_loop location ((identifier, outcome, raw) # rows) fs =
    (let (l, rel) = file_place location identifier in
     capture_loop l rows (put_file (observed_file l rel outcome raw) fs))"

definition capture_files :: "string \<Rightarrow> (string \<times> string \<times> string) list \<Rightarrow> scan_job_file list \<Rightarrow> scan_job_file list" where
  "capture_files location rows fs =
    capture_loop location (sort_key fst (filter (\<lambda>(_, outcome, _). outcome \<in> set captured_outcomes) rows))
      (map (\<lambda>f. if jf_outcome f = ''queued''
         then f\<lparr>jf_outcome := ''succeeded'', jf_code := '''', jf_message := '''', jf_retryable := False\<rparr> else f) fs)"

end
