(* ===== verification/ScanRuns.thy ===== *)
theory ScanRuns
  imports ScanJobs ScanRoots
begin

text \<open>
  The runs of the scan jobs (backend/catalog/scan_scheduler.go and the commit of a scan in
  catalog.go): queueing, claiming, executing, retrying and cancelling. A step is one statement or
  transaction on the database or one critical section, so that requests come between the steps of
  the runner. Cancelling marks an intent in memory, writes the row and looks at the intent again.
  What a scan finds is an input. The database does not fail, but for the end of a job, where the
  code has an answer to it.
\<close>

datatype scan_error = NoScanError | OtherScanActive | ScanCancelled | ReviewNeeded | OtherScanError

section \<open>Queueing and retrying\<close>

definition scan_triggers :: "string list" where
  "scan_triggers = [''manual'', ''schedule'', ''startup'', ''retry'']"

definition active_job_of :: "string \<Rightarrow> scan_job list \<Rightarrow> scan_job option" where
  "active_job_of lib js = find (\<lambda>j. sj_library j = lib \<and> job_active j) (sort_key sj_queued_at js)"

definition queue_scan :: "string list \<Rightarrow> string \<Rightarrow> string \<Rightarrow> string \<Rightarrow> int \<Rightarrow> scan_job list \<Rightarrow>
    scan_job list \<times> (scan_job_error, scan_job) result" where
  "queue_scan libs lib trigger i now js =
    (if trigger \<notin> set scan_triggers then (js, Inl BadScanTrigger)
     else (case active_job_of lib js of
         Some j \<Rightarrow> (js, Inr j)
       | None \<Rightarrow>
          if lib \<notin> set libs then (js, Inl JobLibraryMissing)
          else (let j = new_job i lib trigger now 1 '''' [] in
            case insert_scan_job j js of None \<Rightarrow> (js, Inl JobRefused) | Some js' \<Rightarrow> (js', Inr j))))"

definition file_key :: "scan_job_file \<Rightarrow> string \<times> string" where
  "file_key f = (jf_location f, jf_path f)"

text \<open>The files an owner selected, each once; an unknown one, or one that cannot be retried, is an error.\<close>

fun choose_files :: "scan_job_file list \<Rightarrow> (string \<times> string) list \<Rightarrow> (string \<times> string) list \<Rightarrow> scan_job_file list option" where
  "choose_files available seen [] = Some []"
| "choose_files available seen (k # ks) =
    (case find (\<lambda>f. file_key f = k) available of
       None \<Rightarrow> None
     | Some f \<Rightarrow>
        if \<not> jf_retryable f then None
        else if k \<in> set seen then choose_files available seen ks
        else map_option (\<lambda>fs. f # fs) (choose_files available (k # seen) ks))"

definition selected_files :: "scan_job \<Rightarrow> (string \<times> string) list \<Rightarrow> scan_job_file list option" where
  "selected_files prior ks =
    (if ks = [] then Some (filter jf_retryable (sj_files prior)) else choose_files (sj_files prior) [] ks)"

definition retry_file :: "scan_job_file \<Rightarrow> scan_job_file" where
  "retry_file f = \<lparr>jf_location = jf_location f, jf_path = jf_path f, jf_outcome = ''queued'', jf_code = '''',
     jf_message = '''', jf_retryable = True\<rparr>"

definition retryable_statuses :: "string list" where
  "retryable_statuses = [''partial'', ''failed'', ''interrupted'', ''cancelled'']"

definition retry_scan_job :: "string \<Rightarrow> (string \<times> string) list \<Rightarrow> string \<Rightarrow> int \<Rightarrow> scan_job list \<Rightarrow>
    scan_job list \<times> (scan_job_error, scan_job) result" where
  "retry_scan_job i ks new now js =
    (case scan_job_of js i of
       None \<Rightarrow> (js, Inl ScanJobMissing)
     | Some prior \<Rightarrow>
        if sj_status prior \<notin> set retryable_statuses then (js, Inl NotRetryable)
        else if 3 \<le> sj_attempt prior then (js, Inl RetryLimit)
        else (case selected_files prior ks of
            None \<Rightarrow> (js, Inl FileNotRetryable)
          | Some fs \<Rightarrow>
             if fs = [] \<and> sj_status prior = ''partial'' then (js, Inl NothingToRetry)
             else (let j = new_job new (sj_library prior) ''retry'' now (sj_attempt prior + 1) i (map retry_file fs) in
               case insert_scan_job j js of None \<Rightarrow> (js, Inl JobRefused) | Some js' \<Rightarrow> (js', Inr j))))"

text \<open>The request a job makes of the scan: its library, and the files it retries.\<close>

definition scan_request_of :: "scan_job \<Rightarrow> scan_request" where
  "scan_request_of j =
    \<lparr>rq_libraries = [sj_library j],
     rq_retry = (if sj_trigger j = ''retry'' then map file_key (sj_files j) else [])\<rparr>"

section \<open>The end of a run\<close>

definition job_verdict :: "bool \<Rightarrow> scan_error \<Rightarrow> scan_status \<Rightarrow> string \<times> string" where
  "job_verdict owner e st =
    (if owner then (''cancelled'', ''Cancelled by owner.'')
     else if e = ScanCancelled then (''interrupted'', ''Interrupted by server shutdown.'')
     else if e \<noteq> NoScanError \<or> ss_status st = ''failed'' then (''failed'', redact_scan_error (ss_message st))
     else if ss_status st = ''partial'' \<or> ss_status st = ''review_required'' then (''partial'', redact_scan_error (ss_message st))
     else (''succeeded'', ''''))"

definition finished_row :: "string \<Rightarrow> string \<Rightarrow> scan_status \<Rightarrow> int \<Rightarrow> scan_job_file list \<Rightarrow> scan_job \<Rightarrow> scan_job" where
  "finished_row terminal message st now files r =
    r\<lparr>sj_status := terminal, sj_finished_at := now, sj_total := ss_total st, sj_scanned := ss_scanned st,
      sj_skipped := ss_skipped st, sj_failed := ss_failed st, sj_unmatched := ss_unmatched st, sj_message := message,
      sj_files := files\<rparr>"

definition failed_row :: "string \<Rightarrow> int \<Rightarrow> scan_job \<Rightarrow> scan_job" where
  "failed_row message now r =
    (if sj_status r = ''running'' then r\<lparr>sj_status := ''failed'', sj_finished_at := now, sj_message := message\<rparr> else r)"

definition cancelled_row :: "int \<Rightarrow> scan_job \<Rightarrow> scan_job" where
  "cancelled_row now r =
    (if sj_status r = ''running''
     then r\<lparr>sj_status := ''cancelled'', sj_finished_at := now, sj_cancel_requested := True, sj_message := ''Cancelled by owner.''\<rparr>
     else r)"

definition requeued_row :: "int \<Rightarrow> scan_job \<Rightarrow> scan_job" where
  "requeued_row now r = r\<lparr>sj_status := ''queued'', sj_started_at := 0, sj_not_before := now + 1\<rparr>"

definition note_success :: "string \<Rightarrow> string \<Rightarrow> int \<Rightarrow> policy_store \<Rightarrow> policy_store" where
  "note_success terminal lib now s =
    (case map_of (py_rows s) lib of
       Some (p, spec) \<Rightarrow> if terminal = ''succeeded'' then s\<lparr>py_rows := AList.update lib (p\<lparr>po_success := now\<rparr>, spec) (py_rows s)\<rparr> else s
     | None \<Rightarrow> s)"

section \<open>The machine\<close>

datatype job_phase =
    RunIdle
  | RunClaimed scan_job
  | RunBegun scan_job bool
  | RunStarting scan_job
  | RunScanning scan_job
  | RunOver scan_job scan_error
  | RunJudged scan_job scan_error bool
  | RunFinished scan_job string string
  | RunPruning scan_job
  | RunClearing scan_job

text \<open>A cancellation on its way: of the active job, or with the number of its intent.\<close>

datatype cancel_stage =
    MarkActive string
  | Marking string nat
  | Closing string nat bool
  | Tidying string

record job_world =
  jw_policies :: policy_store
  jw_jobs :: "scan_job list"
  jw_active :: "string option"
  jw_ctx :: bool
  jw_committed :: bool
  jw_owner :: bool
  jw_pending :: "(string, nat) gomap"
  jw_consumed :: "(string \<times> nat) list"
  jw_next :: nat
  jw_phase :: job_phase
  jw_threads :: "nat \<Rightarrow> cancel_stage option"
  jw_stopping :: bool
  jw_stored :: "string list"
  jw_acked :: "string list"
  jw_used :: "string list"

record run_input =
  ri_now :: int
  ri_id :: string
  ri_error :: scan_error
  ri_commits :: bool
  ri_status :: scan_status
  ri_rows :: "(string \<times> string \<times> string) list"
  ri_location :: string
  ri_db_ok :: bool

text \<open>\<open>claimScanJob\<close>, and the steps of \<open>executeScanJob\<close> in their order.\<close>

definition claim_scan_job :: "int \<Rightarrow> job_world \<Rightarrow> job_world" where
  "claim_scan_job now w =
    (case first_due now (jw_jobs w) of
       None \<Rightarrow> w
     | Some j \<Rightarrow>
        (let js = change_job (sj_id j) (\<lambda>r. r\<lparr>sj_status := ''running'', sj_started_at := now\<rparr>) (jw_jobs w) in
         w\<lparr>jw_jobs := js, jw_phase := RunClaimed (j\<lparr>sj_status := ''running'', sj_started_at := now\<rparr>)\<rparr>))"

definition begin_job :: "scan_job \<Rightarrow> job_world \<Rightarrow> job_world" where
  "begin_job j w =
    (let intent = map_of (jw_pending w) (sj_id j) in
     w\<lparr>jw_consumed := (case intent of None \<Rightarrow> jw_consumed w | Some a \<Rightarrow> (sj_id j, a) # jw_consumed w),
       jw_pending := AList.delete (sj_id j) (jw_pending w), jw_active := Some (sj_id j), jw_committed := False,
       jw_owner := (intent \<noteq> None), jw_ctx := (intent \<noteq> None \<or> jw_stopping w), jw_phase := RunBegun j (intent \<noteq> None)\<rparr>)"

definition cancel_flagged :: "scan_job list \<Rightarrow> string \<Rightarrow> bool" where
  "cancel_flagged js i \<longleftrightarrow> (case scan_job_of js i of None \<Rightarrow> False | Some r \<Rightarrow> sj_cancel_requested r)"

definition read_flag :: "scan_job \<Rightarrow> bool \<Rightarrow> job_world \<Rightarrow> job_world" where
  "read_flag j pending w =
    (if cancel_flagged (jw_jobs w) (sj_id j) \<and> \<not> pending
     then w\<lparr>jw_owner := (jw_owner w \<or> jw_active w = Some (sj_id j)), jw_ctx := True, jw_phase := RunStarting j\<rparr>
     else w\<lparr>jw_phase := RunStarting j\<rparr>)"

definition start_job_scan :: "scan_job \<Rightarrow> run_input \<Rightarrow> job_world \<Rightarrow> job_world" where
  "start_job_scan j x w =
    (if ri_error x = OtherScanActive \<or> ri_error x = OtherScanError then w\<lparr>jw_phase := RunOver j (ri_error x)\<rparr>
     else w\<lparr>jw_phase := RunScanning j\<rparr>)"

text \<open>
  The commit of a scan: nothing is stored when its context was cancelled. A scan that stored
  nothing has an error; one that stored may have been cancelled right afterwards, or need a review.
\<close>

definition scan_answer :: "run_input \<Rightarrow> scan_error" where
  "scan_answer x = (if ri_error x = OtherScanActive then OtherScanError else ri_error x)"

definition commit_scan :: "scan_job \<Rightarrow> run_input \<Rightarrow> job_world \<Rightarrow> job_world" where
  "commit_scan j x w =
    (if ri_commits x \<and> \<not> jw_ctx w
     then w\<lparr>jw_stored := sj_id j # jw_stored w, jw_committed := (jw_committed w \<or> jw_active w \<noteq> None),
            jw_phase := RunOver j (scan_answer x)\<rparr>
     else w\<lparr>jw_phase := RunOver j (if scan_answer x = NoScanError then OtherScanError else scan_answer x)\<rparr>)"

definition judge_job :: "scan_job \<Rightarrow> scan_error \<Rightarrow> job_world \<Rightarrow> job_world" where
  "judge_job j e w =
    w\<lparr>jw_committed := (jw_committed w \<or> jw_active w = Some (sj_id j)), jw_ctx := True, jw_phase := RunJudged j e (jw_owner w)\<rparr>"

definition is_running :: "scan_job list \<Rightarrow> string \<Rightarrow> bool" where
  "is_running js i \<longleftrightarrow> (case scan_job_of js i of None \<Rightarrow> False | Some r \<Rightarrow> sj_status r = ''running'')"

definition end_job :: "scan_job \<Rightarrow> scan_error \<Rightarrow> bool \<Rightarrow> run_input \<Rightarrow> job_world \<Rightarrow> job_world" where
  "end_job j e owner x w =
    (let i = sj_id j; now = ri_now x; (terminal, message) = job_verdict owner e (ri_status x) in
     if e = OtherScanActive
     then w\<lparr>jw_jobs := change_job i (if \<not> ri_db_ok x then failed_row ''The scan could not be rescheduled. Run it again.'' now
              else if owner then cancelled_row now else requeued_row now) (jw_jobs w), jw_phase := RunClearing j\<rparr>
     else if ri_db_ok x \<and> is_running (jw_jobs w) i
     then w\<lparr>jw_jobs := change_job i (\<lambda>r. finished_row terminal message (ri_status x) now
              (capture_files (ri_location x) (ri_rows x) (sj_files r)) r) (jw_jobs w),
            jw_policies := note_success terminal (sj_library j) now (jw_policies w),
            jw_phase := RunFinished j terminal (ss_message (ri_status x))\<rparr>
     else w\<lparr>jw_jobs := change_job i (failed_row ''The scan finished, but its result could not be recorded. Run it again.'' now)
              (jw_jobs w), jw_phase := RunClearing j\<rparr>)"

definition retry_after :: "scan_job \<Rightarrow> string \<Rightarrow> string \<Rightarrow> run_input \<Rightarrow> job_world \<Rightarrow> job_world" where
  "retry_after j terminal raw x w =
    (if (terminal = ''partial'' \<or> terminal = ''failed'') \<and> sj_attempt j < 3 \<and> \<not> permanent_failure raw
     then (case retry_scan_job (sj_id j) [] (ri_id x) (ri_now x) (jw_jobs w) of
         (js, Inl e) \<Rightarrow> w\<lparr>jw_phase := RunPruning j\<rparr>
       | (js, Inr r) \<Rightarrow>
          w\<lparr>jw_jobs := change_job (sj_id r) (\<lambda>r. r\<lparr>sj_not_before := ri_now x + (if sj_attempt j > 1 then 300 else 60)\<rparr>) js,
            jw_used := sj_id r # jw_used w, jw_phase := RunPruning j\<rparr>)
     else w\<lparr>jw_phase := RunPruning j\<rparr>)"

definition clear_active :: "scan_job \<Rightarrow> job_world \<Rightarrow> job_world" where
  "clear_active j w =
    (if jw_active w = Some (sj_id j)
     then w\<lparr>jw_active := None, jw_committed := False, jw_owner := False, jw_phase := RunIdle\<rparr>
     else w\<lparr>jw_phase := RunIdle\<rparr>)"

fun runner_step :: "run_input \<Rightarrow> job_world \<Rightarrow> job_phase \<Rightarrow> job_world" where
  "runner_step x w RunIdle = (if jw_stopping w then w else claim_scan_job (ri_now x) w)"
| "runner_step x w (RunClaimed j) = begin_job j w"
| "runner_step x w (RunBegun j p) = read_flag j p w"
| "runner_step x w (RunStarting j) = start_job_scan j x w"
| "runner_step x w (RunScanning j) = commit_scan j x w"
| "runner_step x w (RunOver j e) = judge_job j e w"
| "runner_step x w (RunJudged j e o') = end_job j e o' x w"
| "runner_step x w (RunFinished j t raw) = (if ri_id x \<in> set (jw_used w) then w else retry_after j t raw x w)"
| "runner_step x w (RunPruning j) = w\<lparr>jw_jobs := prune_history (sj_library j) (jw_jobs w), jw_phase := RunClearing j\<rparr>"
| "runner_step x w (RunClearing j) = clear_active j w"


section \<open>Cancelling\<close>

text \<open>
  \<open>CancelScanJob\<close>: the first critical section, the statement on the row, and the second section,
  which answers. A cancellation that succeeds is recorded as acknowledged.
\<close>

definition set_thread :: "nat \<Rightarrow> cancel_stage option \<Rightarrow> job_world \<Rightarrow> job_world" where
  "set_thread t c w = w\<lparr>jw_threads := (jw_threads w)(t := c)\<rparr>"

definition cancel_begin :: "nat \<Rightarrow> string \<Rightarrow> job_world \<Rightarrow> job_world \<times> scan_job_error option" where
  "cancel_begin t i w =
    (if jw_active w = Some i
     then (if jw_committed w then (w, Some NotCancellable)
           else (set_thread t (Some (MarkActive i)) (w\<lparr>jw_owner := True, jw_ctx := True\<rparr>), None))
     else (case map_of (jw_pending w) i of
         Some a \<Rightarrow> (set_thread t (Some (Marking i a)) w, None)
       | None \<Rightarrow> (set_thread t (Some (Marking i (jw_next w)))
           (w\<lparr>jw_pending := AList.update i (jw_next w) (jw_pending w), jw_next := Suc (jw_next w)\<rparr>), None)))"

definition mark_active :: "nat \<Rightarrow> string \<Rightarrow> job_world \<Rightarrow> job_world" where
  "mark_active t i w =
    set_thread t None (w\<lparr>jw_jobs := change_job i (\<lambda>r. r\<lparr>sj_cancel_requested := True\<rparr>) (jw_jobs w), jw_acked := i # jw_acked w\<rparr>)"

definition marked_row :: "int \<Rightarrow> scan_job \<Rightarrow> scan_job" where
  "marked_row now r =
    (if \<not> job_active r then r
     else if sj_status r = ''queued''
     then r\<lparr>sj_cancel_requested := True, sj_status := ''cancelled'', sj_finished_at := now, sj_message := ''Cancelled before starting.''\<rparr>
     else r\<lparr>sj_cancel_requested := True\<rparr>)"

definition is_active :: "scan_job list \<Rightarrow> string \<Rightarrow> bool" where
  "is_active js i \<longleftrightarrow> (case scan_job_of js i of None \<Rightarrow> False | Some r \<Rightarrow> job_active r)"

definition mark_row :: "nat \<Rightarrow> string \<Rightarrow> nat \<Rightarrow> int \<Rightarrow> job_world \<Rightarrow> job_world" where
  "mark_row t i a now w =
    set_thread t (Some (Closing i a (is_active (jw_jobs w) i))) (w\<lparr>jw_jobs := change_job i (marked_row now) (jw_jobs w)\<rparr>)"

definition close_cancel :: "nat \<Rightarrow> string \<Rightarrow> nat \<Rightarrow> bool \<Rightarrow> job_world \<Rightarrow> job_world \<times> scan_job_error option" where
  "close_cancel t i a changed w =
    (let w1 = (if map_of (jw_pending w) i = Some a then w\<lparr>jw_pending := AList.delete i (jw_pending w)\<rparr> else w) in
     if \<not> changed \<and> (i, a) \<notin> set (jw_consumed w) then (set_thread t None w1, Some JobNotActive)
     else (set_thread t (Some (Tidying i)) (w1\<lparr>jw_acked := i # jw_acked w1\<rparr>), None))"

definition tidy_cancelled :: "nat \<Rightarrow> string \<Rightarrow> job_world \<Rightarrow> job_world" where
  "tidy_cancelled t i w =
    set_thread t None
      (case scan_job_of (jw_jobs w) i of
         None \<Rightarrow> w
       | Some r \<Rightarrow> if sj_status r = ''cancelled'' then w\<lparr>jw_jobs := prune_history (sj_library r) (jw_jobs w)\<rparr> else w)"

fun cancel_step :: "nat \<Rightarrow> int \<Rightarrow> job_world \<Rightarrow> cancel_stage option \<Rightarrow> job_world" where
  "cancel_step t now w None = w"
| "cancel_step t now w (Some (MarkActive i)) = mark_active t i w"
| "cancel_step t now w (Some (Marking i a)) = mark_row t i a now w"
| "cancel_step t now w (Some (Closing i a changed)) = fst (close_cancel t i a changed w)"
| "cancel_step t now w (Some (Tidying i)) = tidy_cancelled t i w"

section \<open>Every event\<close>

text \<open>
  \<open>enqueueDueScans\<close>: every enabled policy whose time has come queues a scan of its library and
  gets its next time. An error ends the loop, and so does a schedule without a next time.
\<close>

fun enqueue_loop :: "clockwork \<Rightarrow> int \<Rightarrow> string list \<Rightarrow> scan_policy list \<Rightarrow> policy_store \<times> scan_job list \<Rightarrow>
    policy_store \<times> scan_job list" where
  "enqueue_loop ck now ids [] s = s"
| "enqueue_loop ck now [] (p # ps) s = s"
| "enqueue_loop ck now (i # ids) (p # ps) (s, js) =
    (if \<not> po_enabled p \<or> po_next p \<noteq> 0 \<and> now div 1000000000 < po_next p then enqueue_loop ck now (i # ids) ps (s, js)
     else (case queue_scan (py_libraries s) (po_library p) ''schedule'' i (now div 1000000000) js of
         (js', Inl e) \<Rightarrow> (s, js')
       | (js', Inr j) \<Rightarrow>
          (case next_scan ck now p of
             None \<Rightarrow> (s, js')
           | Some at \<Rightarrow>
              enqueue_loop ck now ids ps
                (case map_of (py_rows s) (po_library p) of
                   None \<Rightarrow> (s, js')
                 | Some (r, spec) \<Rightarrow> (s\<lparr>py_rows := AList.update (po_library p) (r\<lparr>po_next := at\<rparr>, spec) (py_rows s)\<rparr>, js')))))"

definition enqueue_due :: "clockwork \<Rightarrow> int \<Rightarrow> string list \<Rightarrow> policy_store \<times> scan_job list \<Rightarrow> policy_store \<times> scan_job list" where
  "enqueue_due ck now ids s =
    (case scan_policies ck (fst s) of Inl e \<Rightarrow> s | Inr ps \<Rightarrow> enqueue_loop ck now ids ps s)"

text \<open>\<open>StartScanScheduler\<close> in a new process: what ran was interrupted, the memory is empty.\<close>

definition interrupted_row :: "int \<Rightarrow> scan_job \<Rightarrow> scan_job" where
  "interrupted_row now r =
    (if sj_status r = ''running''
     then r\<lparr>sj_status := ''interrupted'', sj_finished_at := now, sj_message := ''Interrupted by server restart.''\<rparr> else r)"

definition restart_scheduler :: "int \<Rightarrow> job_world \<Rightarrow> job_world" where
  "restart_scheduler now w =
    w\<lparr>jw_jobs := map (interrupted_row now) (jw_jobs w), jw_active := None, jw_ctx := False, jw_committed := False,
      jw_owner := False, jw_pending := [], jw_consumed := [], jw_phase := RunIdle, jw_threads := (\<lambda>_. None), jw_stopping := False\<rparr>"

datatype job_event =
    JvQueue string string string int
  | JvRetry string "(string \<times> string) list" string int
  | JvCancel nat string
  | JvCancelStep nat int
  | JvEnqueue int "string list"
  | JvRun run_input
  | JvPolicy string scan_policy int
  | JvOverride string int
  | JvOtherScan
  | JvStop
  | JvRestart int

text \<open>
  Random identifiers are new: neither used nor asked for before. A scan that no job asked for
  commits in the same place, and marks whatever job is active.
\<close>

fun job_step :: "clockwork \<Rightarrow> job_world \<Rightarrow> job_event \<Rightarrow> job_world" where
  "job_step ck w (JvQueue lib trigger i now) =
    (if i \<in> set (jw_used w) then w
     else w\<lparr>jw_jobs := fst (queue_scan (py_libraries (jw_policies w)) lib trigger i now (jw_jobs w)), jw_used := i # jw_used w\<rparr>)"
| "job_step ck w (JvRetry i ks new now) =
    (if new \<in> set (jw_used w) then w
     else w\<lparr>jw_jobs := fst (retry_scan_job i ks new now (jw_jobs w)), jw_used := new # jw_used w\<rparr>)"
| "job_step ck w (JvCancel t i) =
    (if jw_threads w t \<noteq> None then w else fst (cancel_begin t i (w\<lparr>jw_used := i # jw_used w\<rparr>)))"
| "job_step ck w (JvCancelStep t now) = cancel_step t now w (jw_threads w t)"
| "job_step ck w (JvEnqueue now ids) =
    (if set ids \<inter> set (jw_used w) \<noteq> {} \<or> \<not> distinct ids \<or> jw_phase w \<noteq> RunIdle \<or> jw_stopping w then w
     else (let (s, js) = enqueue_due ck now ids (jw_policies w, jw_jobs w) in
       w\<lparr>jw_policies := s, jw_jobs := js, jw_used := ids @ jw_used w\<rparr>))"
| "job_step ck w (JvRun x) = runner_step x w (jw_phase w)"
| "job_step ck w (JvPolicy lib p now) =
    (case set_scan_policy ck now lib p (jw_policies w) of None \<Rightarrow> w | Some (s, r) \<Rightarrow> w\<lparr>jw_policies := s\<rparr>)"
| "job_step ck w (JvOverride spec now) =
    (case apply_schedule_override ck now spec (jw_policies w) of None \<Rightarrow> w | Some (s, r) \<Rightarrow> w\<lparr>jw_policies := s\<rparr>)"
| "job_step ck w JvOtherScan = w\<lparr>jw_committed := (jw_committed w \<or> jw_active w \<noteq> None)\<rparr>"
| "job_step ck w JvStop = w\<lparr>jw_stopping := True, jw_ctx := True\<rparr>"
| "job_step ck w (JvRestart now) = restart_scheduler now w"

definition first_jobs :: "policy_store \<Rightarrow> job_world" where
  "first_jobs s =
    \<lparr>jw_policies = s, jw_jobs = [], jw_active = None, jw_ctx = False, jw_committed = False, jw_owner = False,
     jw_pending = [], jw_consumed = [], jw_next = 0, jw_phase = RunIdle, jw_threads = (\<lambda>_. None), jw_stopping = False,
     jw_stored = [], jw_acked = [], jw_used = []\<rparr>"

end
