(* ===== verification/ScanRunProps.thy ===== *)
theory ScanRunProps
  imports ScanRuns
begin

text \<open>
  What holds in every interleaving of requests, cancellations, restarts and the steps of the
  runner: the table of jobs stays well formed, and a scan whose cancellation was acknowledged
  stores nothing.
\<close>

section \<open>Looking up rows\<close>

definition queued :: "scan_job \<Rightarrow> bool" where "queued r \<longleftrightarrow> sj_status r = ''queued''"
definition running :: "scan_job \<Rightarrow> bool" where "running r \<longleftrightarrow> sj_status r = ''running''"
definition won :: "scan_job \<Rightarrow> bool" where "won r \<longleftrightarrow> sj_status r = ''succeeded''"

lemma job_active_iff: "job_active r \<longleftrightarrow> queued r \<or> running r"
  by (simp add: job_active_def queued_def running_def)

lemma status_apart: "queued r \<Longrightarrow> \<not> running r" "won r \<Longrightarrow> \<not> job_active r"
  by (simp_all add: job_active_def queued_def running_def won_def)

lemma row_change [simp]:
  assumes "\<And>r. sj_id (f r) = sj_id r"
  shows "scan_job_of (change_job i f js) k = (if k = i then map_option f (scan_job_of js k) else scan_job_of js k)"
  unfolding scan_job_of_def change_job_def by (induction js) (auto simp: assms)

lemma ids_change [simp]:
  assumes "\<And>r. sj_id (f r) = sj_id r"
  shows "map sj_id (change_job i f js) = map sj_id js"
  unfolding change_job_def by (simp add: assms)

lemma row_Some: "scan_job_of js i = Some r \<Longrightarrow> r \<in> set js \<and> sj_id r = i"
  by (auto simp: scan_job_of_def find_Some_iff)

lemma row_None: "scan_job_of js i = None \<longleftrightarrow> i \<notin> sj_id ` set js"
  by (auto simp: scan_job_of_def find_None_iff)

lemma row_member: "distinct (map sj_id js) \<Longrightarrow> r \<in> set js \<Longrightarrow> scan_job_of js (sj_id r) = Some r"
  unfolding scan_job_of_def by (induction js) (auto simp: image_iff)

lemma row_append: "scan_job_of (js @ [j]) k = (case scan_job_of js k of Some r \<Rightarrow> Some r | None \<Rightarrow> if sj_id j = k then Some j else None)"
  unfolding scan_job_of_def by (induction js) auto

lemma row_filter: "scan_job_of (filter (\<lambda>j. sj_id j \<notin> S) js) k = (if k \<in> S then None else scan_job_of js k)"
  unfolding scan_job_of_def by (induction js) auto

lemma row_map:
  assumes "\<And>r. sj_id (f r) = sj_id r"
  shows "scan_job_of (map f js) k = map_option f (scan_job_of js k)"
  unfolding scan_job_of_def by (induction js) (auto simp: assms)

lemma is_active_row: "is_active js i \<longleftrightarrow> (\<exists>r. scan_job_of js i = Some r \<and> job_active r)"
  by (auto simp: is_active_def split: option.splits)

lemma is_running_row: "is_running js i \<longleftrightarrow> (\<exists>r. scan_job_of js i = Some r \<and> running r)"
  by (auto simp: is_running_def running_def split: option.splits)

lemma flagged_row: "cancel_flagged js i \<longleftrightarrow> (\<exists>r. scan_job_of js i = Some r \<and> sj_cancel_requested r)"
  by (auto simp: cancel_flagged_def split: option.splits)

text \<open>The rows the operations write keep their identifier and have the status one expects.\<close>

lemma row_ids [simp]:
  "sj_id (finished_row t m st now fs r) = sj_id r" "sj_id (failed_row m now r) = sj_id r"
  "sj_id (cancelled_row now r) = sj_id r" "sj_id (requeued_row now r) = sj_id r"
  "sj_id (marked_row now r) = sj_id r" "sj_id (interrupted_row now r) = sj_id r"
  by (simp_all add: finished_row_def failed_row_def cancelled_row_def requeued_row_def marked_row_def interrupted_row_def)

lemma verdict_status: "fst (job_verdict owner e st) \<in> {''cancelled'', ''interrupted'', ''failed'', ''partial'', ''succeeded''}"
  by (simp add: job_verdict_def)

lemma finished_status:
  "t \<in> {''cancelled'', ''interrupted'', ''failed'', ''partial'', ''succeeded''} \<Longrightarrow> \<not> job_active (finished_row t m st now fs r)"
  by (auto simp: finished_row_def job_active_def)

lemma finished_won: "won (finished_row t m st now fs r) \<longleftrightarrow> t = ''succeeded''"
  by (simp add: finished_row_def won_def)

lemma failed_status: "running r \<Longrightarrow> \<not> job_active (failed_row m now r) \<and> \<not> won (failed_row m now r)" "\<not> running r \<Longrightarrow> failed_row m now r = r"
  by (simp_all add: failed_row_def job_active_def won_def running_def)

lemma cancelled_status: "running r \<Longrightarrow> \<not> job_active (cancelled_row now r) \<and> \<not> won (cancelled_row now r)"
  by (simp add: cancelled_row_def job_active_def won_def running_def)

lemma requeued_status: "queued (requeued_row now r)"
  by (simp add: requeued_row_def queued_def)

lemma interrupted_status:
  "running r \<Longrightarrow> \<not> job_active (interrupted_row now r) \<and> \<not> won (interrupted_row now r)" "\<not> running r \<Longrightarrow> interrupted_row now r = r"
  by (simp_all add: interrupted_row_def job_active_def won_def running_def)

lemma marked_status:
  "queued r \<Longrightarrow> \<not> job_active (marked_row now r) \<and> \<not> won (marked_row now r)"
  "running r \<Longrightarrow> running (marked_row now r) \<and> sj_cancel_requested (marked_row now r)"
  "\<not> job_active r \<Longrightarrow> marked_row now r = r"
  by (simp_all add: marked_row_def job_active_def won_def running_def queued_def)

section \<open>The table of jobs\<close>

definition scan_statuses :: "string list" where
  "scan_statuses = [''queued'', ''running'', ''succeeded'', ''partial'', ''failed'', ''cancelled'', ''interrupted'']"

text \<open>What the schema demands of the table, and of the files of a job.\<close>

definition job_row_ok :: "scan_job \<Rightarrow> bool" where
  "job_row_ok j \<longleftrightarrow> sj_trigger j \<in> set scan_triggers \<and> sj_status j \<in> set scan_statuses \<and> 1 \<le> sj_attempt j \<and> sj_attempt j \<le> 3 \<and>
     distinct (map file_key (sj_files j))"

definition scan_table_ok :: "scan_job list \<Rightarrow> bool" where
  "scan_table_ok js \<longleftrightarrow> distinct (map sj_id js) \<and> distinct (map sj_library (filter job_active js)) \<and> (\<forall>j \<in> set js. job_row_ok j)"

lemma table_insert: "scan_table_ok js \<Longrightarrow> insert_scan_job j js = Some js' \<Longrightarrow> job_row_ok j \<Longrightarrow> scan_table_ok js'"
  by (auto simp: scan_table_ok_def insert_scan_job_def row_None split: if_splits)

lemma distinct_filtered: "distinct (map g (filter Q xs)) \<Longrightarrow> distinct (map g (filter (\<lambda>x. P x \<and> Q x) xs))"
proof -
  have "filter (\<lambda>x. P x \<and> Q x) xs = filter P (filter Q xs)" by (induction xs) auto
  then show "distinct (map g (filter Q xs)) \<Longrightarrow> distinct (map g (filter (\<lambda>x. P x \<and> Q x) xs))"
    by (simp only: distinct_map_filter)
qed

lemma table_filter: "scan_table_ok js \<Longrightarrow> scan_table_ok (filter P js)"
  by (auto simp: scan_table_ok_def intro: distinct_map_filter distinct_filtered)

lemma table_change:
  assumes "scan_table_ok js" and "\<And>r. sj_id (f r) = sj_id r \<and> sj_library (f r) = sj_library r"
    and "\<And>r. scan_job_of js i = Some r \<Longrightarrow> job_active (f r) \<Longrightarrow> job_active r"
    and "\<And>r. job_row_ok r \<Longrightarrow> job_row_ok (f r)"
  shows "scan_table_ok (change_job i f js)"
proof -
  let ?g = "\<lambda>r. if sj_id r = i then f r else r"
  have act: "job_active (?g r) \<Longrightarrow> job_active r" if "r \<in> set js" for r
    using row_member [of js r] assms(1, 3) that by (auto simp: scan_table_ok_def split: if_splits)
  have "map sj_library (filter job_active (map ?g xs)) = map sj_library (filter (\<lambda>r. job_active (?g r)) xs)" for xs
    by (induction xs) (auto simp: assms(2))
  moreover have "filter (\<lambda>r. job_active (?g r)) js = filter (\<lambda>r. job_active (?g r) \<and> job_active r) js"
    using act by (auto intro: filter_cong)
  ultimately have "distinct (map sj_library (filter job_active (change_job i f js)))"
    using assms(1) unfolding change_job_def by (simp add: scan_table_ok_def distinct_filtered del: map_map)
  then show ?thesis using assms(1, 2, 4) by (auto simp: scan_table_ok_def) (auto simp: change_job_def)
qed

lemma put_file_keys: "distinct (map file_key fs) \<Longrightarrow> distinct (map file_key (put_file f fs))"
  by (auto simp: put_file_def file_key_def distinct_map_filter)

lemma capture_keys: "distinct (map file_key fs) \<Longrightarrow> distinct (map file_key (capture_loop l rows fs))"
  by (induction l rows fs rule: capture_loop.induct) (auto simp: put_file_keys split: prod.split)

lemma captured_keys: "distinct (map file_key fs) \<Longrightarrow> distinct (map file_key (capture_files l rows fs))"
proof -
  assume d: "distinct (map file_key fs)"
  have "map file_key (map (\<lambda>f. if P f then f\<lparr>jf_outcome := a, jf_code := b, jf_message := c, jf_retryable := e\<rparr> else f) fs)
      = map file_key fs" for P a b c e
    by (simp add: file_key_def)
  then show ?thesis unfolding capture_files_def by (intro capture_keys) (simp only: d)
qed

lemma chosen_keys: "choose_files av seen ks = Some fs \<Longrightarrow> distinct (map file_key fs) \<and> set (map file_key fs) \<inter> set seen = {}"
proof (induction ks arbitrary: seen fs)
  case (Cons k ks)
  from Cons.prems obtain f where f: "find (\<lambda>f. file_key f = k) av = Some f" by (auto split: option.splits)
  then have key: "file_key f = k" by (auto simp: find_Some_iff)
  show ?case
  proof (cases "k \<in> set seen")
    case True
    with Cons f show ?thesis by (auto split: if_splits)
  next
    case False
    with Cons.prems f obtain gs where g: "choose_files av (k # seen) ks = Some gs" and fs: "fs = f # gs"
      by (auto split: if_splits)
    from Cons.IH [OF g] False show ?thesis by (auto simp: fs key)
  qed
qed simp

lemma selected_keys: "distinct (map file_key (sj_files r)) \<Longrightarrow> selected_files r ks = Some fs \<Longrightarrow> distinct (map file_key fs)"
  by (auto simp: selected_files_def distinct_map_filter dest: chosen_keys split: if_splits)

lemma retry_keys [simp]: "file_key (retry_file f) = file_key f" "map (file_key \<circ> retry_file) fs = map file_key fs"
  by (simp_all add: retry_file_def file_key_def)

lemma insert_Some: "insert_scan_job j js = Some js' \<Longrightarrow> js' = js @ [j] \<and> scan_job_of js (sj_id j) = None"
  by (auto simp: insert_scan_job_def split: if_splits)

text \<open>Queueing and retrying change the table by at most one row, a queued one.\<close>

definition adds_queued :: "string \<Rightarrow> scan_job list \<Rightarrow> scan_job list \<Rightarrow> bool" where
  "adds_queued i js js' \<longleftrightarrow> js' = js \<or> (\<exists>j. js' = js @ [j] \<and> sj_id j = i \<and> queued j \<and> \<not> sj_cancel_requested j \<and> scan_job_of js i = None)"

lemma new_job_simps [simp]:
  "sj_id (new_job i lib tr now n r fs) = i" "queued (new_job i lib tr now n r fs)" "\<not> sj_cancel_requested (new_job i lib tr now n r fs)"
  by (simp_all add: new_job_def queued_def)

lemma new_job_ok: "tr \<in> set scan_triggers \<Longrightarrow> 1 \<le> n \<Longrightarrow> n \<le> 3 \<Longrightarrow> distinct (map file_key fs) \<Longrightarrow> job_row_ok (new_job i lib tr now n r fs)"
  by (simp add: job_row_ok_def new_job_def scan_statuses_def)

lemma queue_scan_effect:
  assumes "scan_table_ok js"
  shows "adds_queued i js (fst (queue_scan libs lib tr i now js)) \<and> scan_table_ok (fst (queue_scan libs lib tr i now js))"
  using assms table_insert [OF assms] new_job_ok [of tr 1 "[]" i lib now "''''"]
  by (auto simp: queue_scan_def adds_queued_def Let_def dest!: insert_Some split: option.splits)

lemma retry_cases:
  obtains e where "retry_scan_job i ks new now js = (js, Inl e)"
  | prior fs js' where "scan_job_of js i = Some prior" "sj_attempt prior < 3" "selected_files prior ks = Some fs"
      "insert_scan_job (new_job new (sj_library prior) ''retry'' now (sj_attempt prior + 1) i (map retry_file fs)) js = Some js'"
      "retry_scan_job i ks new now js =
         (js', Inr (new_job new (sj_library prior) ''retry'' now (sj_attempt prior + 1) i (map retry_file fs)))"
proof (cases "scan_job_of js i")
  case None
  then show ?thesis by (intro that(1)) (simp add: retry_scan_job_def)
next
  case (Some prior)
  show ?thesis
  proof (cases "\<exists>fs. selected_files prior ks = Some fs \<and> sj_status prior \<in> set retryable_statuses \<and> sj_attempt prior < 3 \<and>
      \<not> (fs = [] \<and> sj_status prior = ''partial'')")
    case True
    then obtain fs where fs: "selected_files prior ks = Some fs" "sj_status prior \<in> set retryable_statuses" "sj_attempt prior < 3"
      "\<not> (fs = [] \<and> sj_status prior = ''partial'')" by blast
    then have r: "retry_scan_job i ks new now js =
        (let j = new_job new (sj_library prior) ''retry'' now (sj_attempt prior + 1) i (map retry_file fs) in
         case insert_scan_job j js of None \<Rightarrow> (js, Inl JobRefused) | Some js' \<Rightarrow> (js', Inr j))"
      using Some by (cases "fs = []") (simp_all add: retry_scan_job_def)
    show ?thesis
    proof (cases "insert_scan_job (new_job new (sj_library prior) ''retry'' now (sj_attempt prior + 1) i (map retry_file fs)) js")
      case None
      then show ?thesis by (intro that(1)) (simp add: r)
    next
      case (Some js')
      show ?thesis by (rule that(2) [OF \<open>scan_job_of js i = Some prior\<close> fs(3, 1) Some]) (simp add: r Some)
    qed
  next
    case False
    then have "\<exists>e. retry_scan_job i ks new now js = (js, Inl e)"
      using Some by (auto simp: retry_scan_job_def split: option.splits)
    then show ?thesis using that(1) by blast
  qed
qed

lemma retry_scan_effect:
  assumes "scan_table_ok js"
  shows "adds_queued new js (fst (retry_scan_job i ks new now js)) \<and> scan_table_ok (fst (retry_scan_job i ks new now js)) \<and>
    (\<forall>r. snd (retry_scan_job i ks new now js) = Inr r \<longrightarrow> sj_id r = new)"
proof (rule retry_cases [of i ks new now js])
  fix e
  assume "retry_scan_job i ks new now js = (js, Inl e)"
  then show ?thesis using assms by (simp add: adds_queued_def)
next
  fix prior :: scan_job and fs js'
  let ?j = "new_job new (sj_library prior) ''retry'' now (sj_attempt prior + 1) i (map retry_file fs)"
  assume p: "scan_job_of js i = Some prior" "sj_attempt prior < 3" "selected_files prior ks = Some fs"
    and ins: "insert_scan_job ?j js = Some js'" and r: "retry_scan_job i ks new now js = (js', Inr ?j)"
  from assms have "job_row_ok prior" using row_Some [OF p(1)] by (simp add: scan_table_ok_def)
  then have "job_row_ok ?j"
    using p(2) selected_keys [OF _ p(3)] by (intro new_job_ok) (simp_all add: job_row_ok_def scan_triggers_def)
  with table_insert [OF assms ins] insert_Some [OF ins] show ?thesis by (simp add: adds_queued_def r)
qed

section \<open>The invariant of the runs\<close>

text \<open>
  The job that executes is the one whose row is running; the job that memory holds as active is
  the one between the first and the last critical section.
\<close>

fun executing :: "job_phase \<Rightarrow> string option" where
  "executing (RunClaimed j) = Some (sj_id j)"
| "executing (RunBegun j p) = Some (sj_id j)"
| "executing (RunStarting j) = Some (sj_id j)"
| "executing (RunScanning j) = Some (sj_id j)"
| "executing (RunOver j e) = Some (sj_id j)"
| "executing (RunJudged j e o') = Some (sj_id j)"
| "executing _ = None"

fun held :: "job_phase \<Rightarrow> string option" where
  "held RunIdle = None"
| "held (RunClaimed j) = None"
| "held (RunBegun j p) = Some (sj_id j)"
| "held (RunStarting j) = Some (sj_id j)"
| "held (RunScanning j) = Some (sj_id j)"
| "held (RunOver j e) = Some (sj_id j)"
| "held (RunJudged j e o') = Some (sj_id j)"
| "held (RunFinished j t m) = Some (sj_id j)"
| "held (RunPruning j) = Some (sj_id j)"
| "held (RunClearing j) = Some (sj_id j)"

text \<open>Up to the last critical section a cancellation may still count; from the commit on it is too late.\<close>

fun still_open :: "job_phase \<Rightarrow> bool" where
  "still_open (RunBegun j p) = True"
| "still_open (RunStarting j) = True"
| "still_open (RunScanning j) = True"
| "still_open (RunOver j e) = True"
| "still_open _ = False"

fun scanned :: "job_phase \<Rightarrow> bool" where
  "scanned (RunOver j e) = (e \<noteq> OtherScanActive)"
| "scanned (RunJudged j e o') = (e \<noteq> OtherScanActive)"
| "scanned _ = False"

definition row_is :: "(scan_job \<Rightarrow> bool) \<Rightarrow> job_world \<Rightarrow> string \<Rightarrow> bool" where
  "row_is P w i \<longleftrightarrow> (\<exists>r. scan_job_of (jw_jobs w) i = Some r \<and> P r)"

definition runs_ok :: "job_world \<Rightarrow> bool" where
  "runs_ok w \<longleftrightarrow> scan_table_ok (jw_jobs w) \<and> sj_id ` set (jw_jobs w) \<subseteq> set (jw_used w) \<and>
     (\<forall>i. row_is running w i \<longleftrightarrow> executing (jw_phase w) = Some i) \<and>
     jw_active w = held (jw_phase w) \<and>
     (held (jw_phase w) \<noteq> None \<and> \<not> jw_committed w \<longrightarrow> still_open (jw_phase w)) \<and>
     (\<forall>i \<in> set (jw_stored w). i \<in> set (jw_used w) \<and> \<not> row_is queued w i \<and>
        (executing (jw_phase w) = Some i \<longrightarrow> jw_committed w \<and> scanned (jw_phase w))) \<and>
     (\<forall>i. held (jw_phase w) = Some i \<longrightarrow> map_of (jw_pending w) i = None)"

text \<open>
  A job is condemned when the run will not store anything, whatever comes; it is killed when it is
  condemned or has ended, and has stored nothing.
\<close>

fun condemned_in :: "job_world \<Rightarrow> job_phase \<Rightarrow> bool" where
  "condemned_in w (RunClaimed j) = cancel_flagged (jw_jobs w) (sj_id j)"
| "condemned_in w (RunBegun j p) = (cancel_flagged (jw_jobs w) (sj_id j) \<and> \<not> p \<or> jw_owner w \<and> jw_ctx w)"
| "condemned_in w (RunStarting j) = (jw_owner w \<and> jw_ctx w)"
| "condemned_in w (RunScanning j) = (jw_owner w \<and> jw_ctx w)"
| "condemned_in w (RunOver j e) = jw_owner w"
| "condemned_in w (RunJudged j e o') = o'"
| "condemned_in w _ = False"

definition condemned :: "job_world \<Rightarrow> string \<Rightarrow> bool" where
  "condemned w i \<longleftrightarrow> executing (jw_phase w) = Some i \<and> condemned_in w (jw_phase w)"

definition killed :: "job_world \<Rightarrow> string \<Rightarrow> bool" where
  "killed w i \<longleftrightarrow> i \<in> set (jw_used w) \<and> i \<notin> set (jw_stored w) \<and>
     (condemned w i \<or> \<not> row_is job_active w i \<and> \<not> row_is won w i)"

text \<open>What every step does: it kills no job back to life and takes no intent away that still matters.\<close>

definition advances :: "job_world \<Rightarrow> job_world \<Rightarrow> bool" where
  "advances w w' \<longleftrightarrow> set (jw_used w) \<subseteq> set (jw_used w') \<and> (\<forall>i. killed w i \<longrightarrow> killed w' i) \<and>
     (\<forall>i \<in> set (jw_used w). row_is job_active w' i \<longrightarrow> row_is job_active w i) \<and>
     (\<forall>i \<in> set (jw_used w). \<forall>a. map_of (jw_pending w) i = Some a \<longrightarrow>
        map_of (jw_pending w') i = Some a \<or> killed w' i \<or> \<not> row_is job_active w' i)"

lemma advances_trans: "advances w v \<Longrightarrow> advances v u \<Longrightarrow> advances w u"
  unfolding advances_def by blast

lemma row_is_fun: "row_is P w i \<longleftrightarrow> (case scan_job_of (jw_jobs w) i of None \<Rightarrow> False | Some r \<Rightarrow> P r)"
  by (auto simp: row_is_def split: option.splits)

lemma runs_okD:
  assumes "runs_ok w"
  shows "scan_table_ok (jw_jobs w)" "sj_id ` set (jw_jobs w) \<subseteq> set (jw_used w)"
    and "row_is running w i \<longleftrightarrow> executing (jw_phase w) = Some i"
    and "jw_active w = held (jw_phase w)"
    and "held (jw_phase w) = Some i \<Longrightarrow> \<not> jw_committed w \<Longrightarrow> still_open (jw_phase w)"
    and "i \<in> set (jw_stored w) \<Longrightarrow> i \<in> set (jw_used w) \<and> \<not> row_is queued w i \<and>
      (executing (jw_phase w) = Some i \<longrightarrow> jw_committed w \<and> scanned (jw_phase w))"
    and "held (jw_phase w) = Some i \<Longrightarrow> map_of (jw_pending w) i = None"
  using assms unfolding runs_ok_def by blast+

lemma runs_ok_distinct: "runs_ok w \<Longrightarrow> distinct (map sj_id (jw_jobs w))"
  by (simp add: runs_ok_def scan_table_ok_def)

lemma first_due_row:
  assumes "runs_ok w" and "first_due now (jw_jobs w) = Some j"
  shows "scan_job_of (jw_jobs w) (sj_id j) = Some j \<and> queued j \<and> \<not> sj_cancel_requested j"
proof -
  from assms(2) have "j \<in> set (filter (\<lambda>j. sj_status j = ''queued'' \<and> \<not> sj_cancel_requested j \<and> sj_not_before j \<le> now) (jw_jobs w))"
    unfolding first_due_def by (metis (no_types, lifting) list.case_eq_if list.set_sel(1) option.distinct(1) option.inject set_sort)
  with row_member [OF runs_ok_distinct [OF assms(1)], of j] show ?thesis by (simp add: queued_def)
qed

section \<open>The steps of the runner\<close>

lemma table_ids: "sj_id ` set (change_job i f js) = sj_id ` set js" if "\<And>r. sj_id (f r) = sj_id r"
  using ids_change [of f i js, OF that] by (metis list.set_map)

lemma running_job: "scan_job_of (jw_jobs w) i = Some r \<Longrightarrow> running r \<Longrightarrow> runs_ok w \<Longrightarrow> executing (jw_phase w) = Some i"
  using runs_okD(3) [of w i] by (auto simp: row_is_def)

lemma claim_keeps:
  assumes w: "runs_ok w" and ph: "jw_phase w = RunIdle"
  shows "runs_ok (claim_scan_job now w) \<and> advances w (claim_scan_job now w)"
proof (cases "first_due now (jw_jobs w)")
  case None
  with w show ?thesis by (simp add: claim_scan_job_def advances_def)
next
  case (Some j)
  from first_due_row [OF w Some] have row: "scan_job_of (jw_jobs w) (sj_id j) = Some j" and q: "queued j" by simp_all
  let ?f = "\<lambda>r. r\<lparr>sj_status := ''running'', sj_started_at := now\<rparr>"
  let ?j = "?f j"
  have f: "sj_id (?f r) = sj_id r" "running (?f r)" "\<not> queued (?f r)" for r by (simp_all add: running_def queued_def)
  define w' where "w' = w\<lparr>jw_jobs := change_job (sj_id j) ?f (jw_jobs w), jw_phase := RunClaimed ?j\<rparr>"
  have eq: "claim_scan_job now w = w'" using Some by (simp add: claim_scan_job_def w'_def Let_def)
  have rows: "scan_job_of (jw_jobs w') k = (if k = sj_id j then Some ?j else scan_job_of (jw_jobs w) k)" for k
    using row by (simp add: w'_def)
  have idle: "\<not> row_is running w k" for k using runs_okD(3) [OF w, of k] ph by simp
  have run': "row_is running w' k \<longleftrightarrow> k = sj_id j" for k
    using idle [of k] f(2) [of j] by (auto simp: row_is_def rows)
  have queued': "row_is queued w' k \<longleftrightarrow> k \<noteq> sj_id j \<and> row_is queued w k" for k
    using f(3) [of j] by (auto simp: row_is_def rows)
  have "scan_table_ok (jw_jobs w')"
    unfolding w'_def using runs_okD(1) [OF w] row q
    by (auto intro!: table_change simp: job_active_iff) (auto simp: job_row_ok_def scan_statuses_def)
  moreover have "i \<noteq> sj_id j" if "i \<in> set (jw_stored w)" for i
    using runs_okD(6) [OF w that] row q by (auto simp: row_is_def)
  ultimately have ok: "runs_ok w'"
    using runs_okD(2, 4) [OF w] runs_okD(6) [OF w] ph
    unfolding runs_ok_def run' queued' by (auto simp: w'_def f table_ids)
  have active: "row_is job_active w' k \<longleftrightarrow> row_is job_active w k" for k
    using row q f(2) [of j] by (auto simp: row_is_def rows job_active_iff)
  have "killed w' i" if "killed w i" for i
  proof -
    from that ph have "\<not> row_is job_active w i" "\<not> row_is won w i" by (auto simp: killed_def condemned_def)
    moreover from this(1) row q have "i \<noteq> sj_id j" by (auto simp: row_is_def job_active_iff)
    ultimately show ?thesis using that by (auto simp: killed_def active) (auto simp: w'_def row_is_def)
  qed
  with ok show ?thesis by (simp add: eq advances_def active) (simp add: w'_def)
qed

lemma begin_keeps:
  assumes w: "runs_ok w" and ph: "jw_phase w = RunClaimed j"
  shows "runs_ok (begin_job j w) \<and> advances w (begin_job j w)"
    and "\<And>i a. (i, a) \<in> set (jw_consumed (begin_job j w)) \<Longrightarrow> (i, a) \<in> set (jw_consumed w) \<or> killed (begin_job j w) i"
proof -
  let ?i = "sj_id j"
  define w' where "w' = begin_job j w"
  have fields: "jw_jobs w' = jw_jobs w" "jw_used w' = jw_used w" "jw_stored w' = jw_stored w" "jw_active w' = Some ?i"
    "jw_committed w' = False" "jw_phase w' = RunBegun j (map_of (jw_pending w) ?i \<noteq> None)"
    "jw_pending w' = AList.delete ?i (jw_pending w)" "jw_owner w' = (map_of (jw_pending w) ?i \<noteq> None)"
    "map_of (jw_pending w) ?i \<noteq> None \<Longrightarrow> jw_ctx w'"
    by (simp_all add: w'_def begin_job_def Let_def)
  have rows: "row_is P w' k = row_is P w k" for P k by (simp add: row_is_def fields)
  have run: "row_is running w ?i" using runs_okD(3) [OF w, of ?i] ph by simp
  have new: "?i \<notin> set (jw_stored w)" using runs_okD(6) [OF w, of ?i] ph by auto
  have used: "?i \<in> set (jw_used w)"
    using run runs_okD(2) [OF w] row_Some by (fastforce simp: row_is_def)
  have ok: "runs_ok w'"
    using runs_okD(1, 2, 3) [OF w] runs_okD(6) [OF w] new ph unfolding runs_ok_def rows fields by auto
  have doomed: "killed w' ?i" if "map_of (jw_pending w) ?i \<noteq> None"
    using that used new by (simp add: killed_def condemned_def fields)
  have "killed w' i" if "killed w i" for i
    using that doomed unfolding killed_def condemned_def rows ph fields
    by (cases "map_of (jw_pending w) ?i = None") (auto simp: fields)
  moreover have "map_of (jw_pending w') i = Some a \<or> killed w' i" if "map_of (jw_pending w) i = Some a" for i a
    using that doomed by (cases "i = ?i") (auto simp: fields)
  ultimately have "advances w w'" by (auto simp: advances_def rows fields(2))
  with ok show "runs_ok (begin_job j w) \<and> advances w (begin_job j w)" by (simp add: w'_def)
  show "(i, a) \<in> set (jw_consumed (begin_job j w)) \<Longrightarrow> (i, a) \<in> set (jw_consumed w) \<or> killed (begin_job j w) i" for i a
    using doomed by (auto simp: w'_def begin_job_def Let_def split: option.splits)
qed

text \<open>The steps in between change only the memory of the job that executes.\<close>

lemma memory_step:
  assumes w: "runs_ok w"
    and same: "jw_jobs w' = jw_jobs w" "jw_used w' = jw_used w" "jw_pending w' = jw_pending w" "jw_active w' = jw_active w"
    and phase: "executing (jw_phase w') = executing (jw_phase w)" "held (jw_phase w') = held (jw_phase w)"
    and shut: "jw_committed w' \<or> still_open (jw_phase w')"
    and stored: "jw_stored w' = jw_stored w \<and> (jw_committed w \<and> scanned (jw_phase w) \<longrightarrow> jw_committed w' \<and> scanned (jw_phase w')) \<or>
      (\<exists>i. executing (jw_phase w) = Some i \<and> jw_stored w' = i # jw_stored w \<and> jw_committed w' \<and> scanned (jw_phase w') \<and>
        \<not> condemned_in w (jw_phase w))"
    and condemned: "condemned_in w (jw_phase w) \<Longrightarrow> condemned_in w' (jw_phase w')"
  shows "runs_ok w' \<and> advances w w'"
proof -
  have rows: "row_is P w' k = row_is P w k" for P k by (simp add: row_is_def same)
  have exec: "row_is running w i \<and> i \<in> set (jw_used w) \<and> \<not> row_is queued w i" if "executing (jw_phase w) = Some i" for i
  proof -
    have "row_is running w i" using runs_okD(3) [OF w, of i] that by simp
    then obtain r where "scan_job_of (jw_jobs w) i = Some r" "running r" by (auto simp: row_is_def)
    with runs_okD(2) [OF w] row_Some [of "jw_jobs w" i r] status_apart(1) [of r] show ?thesis by (auto simp: row_is_def)
  qed
  have ok: "runs_ok w'"
    using runs_okD(1, 2, 3, 4, 7) [OF w] runs_okD(6) [OF w] exec stored shut
    unfolding runs_ok_def rows same phase by (elim disjE exE conjE) auto
  have "killed w' i" if k: "killed w i" for i
  proof -
    have "i \<notin> set (jw_stored w')"
    proof (rule ccontr)
      assume "\<not> i \<notin> set (jw_stored w')"
      with k stored have e: "executing (jw_phase w) = Some i" and n: "\<not> condemned_in w (jw_phase w)"
        by (auto simp: killed_def)
      with k exec [OF e] show False by (auto simp: killed_def condemned_def row_is_def job_active_iff)
    qed
    with k condemned show ?thesis by (auto simp: killed_def condemned_def rows same phase)
  qed
  then have "advances w w'" by (auto simp: advances_def rows same)
  with ok show ?thesis ..
qed

lemma read_flag_keeps:
  assumes w: "runs_ok w" and ph: "jw_phase w = RunBegun j p"
  shows "runs_ok (read_flag j p w) \<and> advances w (read_flag j p w)"
  using runs_okD(4) [OF w] runs_okD(6) [OF w] ph by (intro memory_step [OF w]) (auto simp: read_flag_def)

lemma start_keeps:
  assumes w: "runs_ok w" and ph: "jw_phase w = RunStarting j"
  shows "runs_ok (start_job_scan j x w) \<and> advances w (start_job_scan j x w)"
  using ph by (intro memory_step [OF w]) (auto simp: start_job_scan_def)

lemma commit_keeps:
  assumes w: "runs_ok w" and ph: "jw_phase w = RunScanning j"
  shows "runs_ok (commit_scan j x w) \<and> advances w (commit_scan j x w)"
  using ph runs_okD(4) [OF w] by (intro memory_step [OF w]) (auto simp: commit_scan_def scan_answer_def)

lemma judge_keeps:
  assumes w: "runs_ok w" and ph: "jw_phase w = RunOver j e"
  shows "runs_ok (judge_job j e w) \<and> advances w (judge_job j e w)"
  using ph runs_okD(4) [OF w] by (intro memory_step [OF w]) (auto simp: judge_job_def)

lemma clear_keeps:
  assumes w: "runs_ok w" and ph: "jw_phase w = RunClearing j"
  shows "runs_ok (clear_active j w) \<and> advances w (clear_active j w)"
proof -
  have a: "jw_active w = Some (sj_id j)" using runs_okD(4) [OF w] ph by simp
  have rows: "row_is P (clear_active j w) k = row_is P w k" for P k by (simp add: row_is_def clear_active_def)
  have "runs_ok (clear_active j w)"
    using runs_okD(1, 2, 3) [OF w] runs_okD(6) [OF w] ph unfolding runs_ok_def rows by (auto simp: clear_active_def a)
  moreover have "advances w (clear_active j w)"
    using ph unfolding advances_def killed_def condemned_def rows by (auto simp: clear_active_def a)
  ultimately show ?thesis ..
qed

text \<open>The end of a job writes its row: it ends, or goes back into the queue when it was not cancelled.\<close>

lemma row_write:
  assumes w: "runs_ok w" and ph: "executing (jw_phase w) = Some i"
    and f: "\<And>r. sj_id (f r) = sj_id r \<and> sj_library (f r) = sj_library r" "\<And>r. job_row_ok r \<Longrightarrow> job_row_ok (f r)"
    and ends: "\<And>r. running r \<Longrightarrow> \<not> running (f r) \<and> (queued (f r) \<longrightarrow> i \<notin> set (jw_stored w)) \<and>
       (condemned_in w (jw_phase w) \<longrightarrow> \<not> job_active (f r) \<and> \<not> won (f r))"
    and w': "jw_jobs w' = change_job i f (jw_jobs w)" "jw_used w' = jw_used w" "jw_pending w' = jw_pending w"
      "jw_active w' = jw_active w" "jw_committed w' = jw_committed w" "jw_stored w' = jw_stored w"
    and ph': "executing (jw_phase w') = None" "held (jw_phase w') = held (jw_phase w)" and late: "jw_committed w"
  shows "runs_ok w' \<and> advances w w'"
proof -
  obtain r where r: "scan_job_of (jw_jobs w) i = Some r" and run: "running r"
    using runs_okD(3) [OF w, of i] ph by (auto simp: row_is_def)
  from ends [OF run] have e: "\<not> running (f r)" "queued (f r) \<Longrightarrow> i \<notin> set (jw_stored w)"
    "condemned_in w (jw_phase w) \<Longrightarrow> \<not> job_active (f r) \<and> \<not> won (f r)" by simp_all
  have rows: "scan_job_of (jw_jobs w') k = (if k = i then Some (f r) else scan_job_of (jw_jobs w) k)" for k
    using f(1) r by (simp add: w')
  have other: "row_is P w' k = row_is P w k" if "k \<noteq> i" for P k using that by (simp add: row_is_def rows)
  have this_row: "row_is P w' i = P (f r)" for P by (simp add: row_is_def rows)
  have was: "row_is running w i" "row_is job_active w i" using r run by (auto simp: row_is_def job_active_iff)
  have table: "scan_table_ok (jw_jobs w')"
    unfolding w' using runs_okD(1) [OF w] f r run by (intro table_change) (auto simp: job_active_iff)
  have none: "\<not> row_is running w' k" for k
    using runs_okD(3) [OF w, of k] ph e(1) by (cases "k = i") (auto simp: other this_row)
  have queued': "row_is queued w' k \<Longrightarrow> k \<notin> set (jw_stored w)" for k
    using runs_okD(6) [OF w, of k] e(2) by (cases "k = i") (auto simp: other this_row)
  have ok: "runs_ok w'"
    using table runs_okD(2, 4) [OF w] runs_okD(6, 7) [OF w] none queued' late
    unfolding runs_ok_def ph' by (auto simp: w' f table_ids)
  have killed: "killed w' k" if k: "killed w k" for k
  proof (cases "k = i")
    case True
    with k was e(3) show ?thesis by (auto simp: killed_def condemned_def w' this_row)
  next
    case False
    with k ph show ?thesis by (auto simp: killed_def condemned_def w' other)
  qed
  have "row_is job_active w k" if "row_is job_active w' k" for k
    using that was by (cases "k = i") (auto simp: other)
  with killed have "advances w w'" by (auto simp: advances_def w')
  with ok show ?thesis ..
qed

lemma stored_done:
  assumes w: "runs_ok w" and ph: "jw_phase w = RunJudged j e owner"
  shows "jw_committed w"
  using runs_okD(5) [OF w, of "sj_id j"] ph by auto

lemma row_writes_ok:
  "job_row_ok r \<Longrightarrow> job_row_ok (failed_row m now r)" "job_row_ok r \<Longrightarrow> job_row_ok (cancelled_row now r)"
  "job_row_ok r \<Longrightarrow> job_row_ok (requeued_row now r)" "job_row_ok r \<Longrightarrow> job_row_ok (marked_row now r)"
  "job_row_ok r \<Longrightarrow> job_row_ok (interrupted_row now r)"
  "job_row_ok r \<Longrightarrow> job_row_ok (r\<lparr>sj_cancel_requested := True\<rparr>)" "job_row_ok r \<Longrightarrow> job_row_ok (r\<lparr>sj_not_before := t\<rparr>)"
  by (auto simp: job_row_ok_def failed_row_def cancelled_row_def requeued_row_def marked_row_def interrupted_row_def scan_statuses_def)

lemma finished_row_ok:
  assumes "job_row_ok r" and "t \<in> {''cancelled'', ''interrupted'', ''failed'', ''partial'', ''succeeded''}"
  shows "job_row_ok (finished_row t m st now (capture_files l rows (sj_files r)) r)"
  using assms captured_keys [of "sj_files r" l rows] by (auto simp: job_row_ok_def finished_row_def scan_statuses_def)

lemma row_libraries [simp]:
  "sj_library (finished_row t m st now fs r) = sj_library r" "sj_library (failed_row m now r) = sj_library r"
  "sj_library (cancelled_row now r) = sj_library r" "sj_library (requeued_row now r) = sj_library r"
  "sj_library (marked_row now r) = sj_library r" "sj_library (interrupted_row now r) = sj_library r"
  by (simp_all add: finished_row_def failed_row_def cancelled_row_def requeued_row_def marked_row_def interrupted_row_def)

lemma end_keeps:
  assumes w: "runs_ok w" and ph: "jw_phase w = RunJudged j e owner"
  shows "runs_ok (end_job j e owner x w) \<and> advances w (end_job j e owner x w)"
proof -
  let ?i = "sj_id j" and ?now = "ri_now x"
  have late: "jw_committed w" and ex: "executing (jw_phase w) = Some ?i" using stored_done [OF w ph] ph by simp_all
  have fresh: "?i \<notin> set (jw_stored w)" if "e = OtherScanActive" using runs_okD(6) [OF w, of ?i] ph that by auto
  obtain terminal message where v: "job_verdict owner e (ri_status x) = (terminal, message)" by fastforce
  have t: "terminal \<in> {''cancelled'', ''interrupted'', ''failed'', ''partial'', ''succeeded''}"
    using verdict_status [of owner e "ri_status x"] v by simp
  have lost: "terminal \<noteq> ''succeeded''" if owner using that v by (auto simp: job_verdict_def)
  note active = job_active_iff
  show ?thesis
  proof (cases "e = OtherScanActive")
    case True
    let ?f = "if \<not> ri_db_ok x then failed_row ''The scan could not be rescheduled. Run it again.'' ?now
      else if owner then cancelled_row ?now else requeued_row ?now"
    have eq: "end_job j e owner x w = w\<lparr>jw_jobs := change_job ?i ?f (jw_jobs w), jw_phase := RunClearing j\<rparr>"
      using True v by (simp add: end_job_def Let_def)
    show ?thesis unfolding eq
    proof (rule row_write [OF w ex _ _ _ _ _ _ _ _ _ _ _ late, where f = ?f])
      fix r :: scan_job
      show "running r \<Longrightarrow> \<not> running (?f r) \<and> (queued (?f r) \<longrightarrow> ?i \<notin> set (jw_stored w)) \<and>
          (condemned_in w (jw_phase w) \<longrightarrow> \<not> job_active (?f r) \<and> \<not> won (?f r))"
        using failed_status(1) [of r] cancelled_status [of r] requeued_status [of _ r] status_apart(1) fresh [OF True] ph
        by (auto simp: active)
      show "job_row_ok r \<Longrightarrow> job_row_ok (?f r)" by (simp add: row_writes_ok)
    qed (simp_all add: ph)
  next
    case False
    show ?thesis
    proof (cases "ri_db_ok x \<and> is_running (jw_jobs w) ?i")
      case True
      let ?f = "\<lambda>r. finished_row terminal message (ri_status x) ?now (capture_files (ri_location x) (ri_rows x) (sj_files r)) r"
      have eq: "end_job j e owner x w = w\<lparr>jw_jobs := change_job ?i ?f (jw_jobs w),
          jw_policies := note_success terminal (sj_library j) ?now (jw_policies w),
          jw_phase := RunFinished j terminal (ss_message (ri_status x))\<rparr>"
        using True \<open>e \<noteq> OtherScanActive\<close> v by (simp add: end_job_def Let_def)
      show ?thesis unfolding eq
      proof (rule row_write [OF w ex _ _ _ _ _ _ _ _ _ _ _ late, where f = ?f])
        fix r :: scan_job
        show "running r \<Longrightarrow> \<not> running (?f r) \<and> (queued (?f r) \<longrightarrow> ?i \<notin> set (jw_stored w)) \<and>
            (condemned_in w (jw_phase w) \<longrightarrow> \<not> job_active (?f r) \<and> \<not> won (?f r))"
          using finished_status [OF t] lost ph by (auto simp: active finished_won)
        show "job_row_ok r \<Longrightarrow> job_row_ok (?f r)" by (rule finished_row_ok [OF _ t])
      qed (simp_all add: ph)
    next
      case no: False
      let ?f = "failed_row ''The scan finished, but its result could not be recorded. Run it again.'' ?now"
      have eq: "end_job j e owner x w = w\<lparr>jw_jobs := change_job ?i ?f (jw_jobs w), jw_phase := RunClearing j\<rparr>"
        using no False v by (auto simp: end_job_def Let_def)
      show ?thesis unfolding eq
      proof (rule row_write [OF w ex _ _ _ _ _ _ _ _ _ _ _ late, where f = ?f])
        fix r :: scan_job
        show "running r \<Longrightarrow> \<not> running (?f r) \<and> (queued (?f r) \<longrightarrow> ?i \<notin> set (jw_stored w)) \<and>
            (condemned_in w (jw_phase w) \<longrightarrow> \<not> job_active (?f r) \<and> \<not> won (?f r))"
          using failed_status(1) [of r] by (auto simp: active)
        show "job_row_ok r \<Longrightarrow> job_row_ok (?f r)" by (rule row_writes_ok)
      qed (simp_all add: ph)
    qed
  qed
qed

section \<open>Changes of the table\<close>

text \<open>A step that starts and ends no run: rows that are added are queued, rows that change only lose standing.\<close>

lemma table_step:
  assumes w: "runs_ok w"
    and tab: "scan_table_ok (jw_jobs w')" "sj_id ` set (jw_jobs w') \<subseteq> set (jw_used w')" "set (jw_used w) \<subseteq> set (jw_used w')"
    and rows: "\<And>k. row_is running w' k = row_is running w k"
      "\<And>k. k \<in> set (jw_used w) \<Longrightarrow> row_is queued w' k \<Longrightarrow> row_is queued w k"
      "\<And>k. k \<in> set (jw_used w) \<Longrightarrow> row_is won w' k \<Longrightarrow> row_is won w k"
    and same: "jw_stored w' = jw_stored w" "jw_committed w' = jw_committed w" "jw_active w' = jw_active w"
    and ph: "executing (jw_phase w') = executing (jw_phase w)" "held (jw_phase w') = held (jw_phase w)"
      "still_open (jw_phase w') = still_open (jw_phase w)" "scanned (jw_phase w') = scanned (jw_phase w)"
    and cond: "condemned_in w (jw_phase w) \<Longrightarrow> condemned_in w' (jw_phase w')"
    and pend: "\<And>i. held (jw_phase w) = Some i \<Longrightarrow> map_of (jw_pending w') i = None"
      "\<And>i a. map_of (jw_pending w) i = Some a \<Longrightarrow>
         map_of (jw_pending w') i = Some a \<or> killed w i \<or> \<not> row_is job_active w' i"
  shows "runs_ok w' \<and> advances w w'"
proof -
  have stored: "i \<in> set (jw_used w') \<and> \<not> row_is queued w' i \<and>
      (executing (jw_phase w) = Some i \<longrightarrow> jw_committed w \<and> scanned (jw_phase w))" if "i \<in> set (jw_stored w)" for i
    using runs_okD(6) [OF w that] rows(2) [of i] tab(3) by blast
  have ok: "runs_ok w'"
    using tab(1, 2) runs_okD(3, 4, 5) [OF w] stored pend(1) unfolding runs_ok_def rows(1) same ph by blast
  have active: "row_is job_active w k" if "k \<in> set (jw_used w)" "row_is job_active w' k" for k
    using that rows(1) [of k] rows(2) [of k] by (auto simp: row_is_def job_active_iff)
  have killed: "killed w' i" if "killed w i" for i
    using that cond active [of i] rows(3) [of i] tab(3) unfolding killed_def condemned_def same ph by blast
  with active tab(3) pend(2) have "advances w w'" unfolding advances_def by blast
  with ok show ?thesis ..
qed

lemma add_row:
  assumes w: "runs_ok w" and add: "adds_queued i (jw_jobs w) js" "scan_table_ok js" "i \<notin> set (jw_used w)"
  shows "runs_ok (w\<lparr>jw_jobs := js, jw_used := i # jw_used w\<rparr>) \<and> advances w (w\<lparr>jw_jobs := js, jw_used := i # jw_used w\<rparr>)"
proof -
  let ?w = "w\<lparr>jw_jobs := js, jw_used := i # jw_used w\<rparr>"
  have used: "sj_id ` set js \<subseteq> insert i (set (jw_used w))"
    using add(1) runs_okD(2) [OF w] unfolding adds_queued_def by (elim disjE exE conjE) auto
  have rows: "scan_job_of js k = scan_job_of (jw_jobs w) k" if "k \<noteq> i" for k
    using add(1) that by (auto simp: adds_queued_def row_append split: option.splits)
  have gone: "scan_job_of (jw_jobs w) i = None"
    using add(3) runs_okD(2) [OF w] by (auto simp: row_None)
  have this_row: "\<not> running r" if "scan_job_of js i = Some r" for r
    using add(1) that gone status_apart(1) [of r] by (auto simp: adds_queued_def row_append)
  have flag: "cancel_flagged (jw_jobs w) k \<Longrightarrow> cancel_flagged js k" for k
    using gone rows [of k] by (cases "k = i") (auto simp: flagged_row)
  show ?thesis
  proof (rule table_step [OF w])
    show "row_is running ?w k = row_is running w k" for k
      using rows [of k] this_row gone by (cases "k = i") (auto simp: row_is_def)
    show "k \<in> set (jw_used w) \<Longrightarrow> row_is queued ?w k \<Longrightarrow> row_is queued w k" for k
      using rows [of k] add(3) by (cases "k = i") (auto simp: row_is_def)
    show "k \<in> set (jw_used w) \<Longrightarrow> row_is won ?w k \<Longrightarrow> row_is won w k" for k
      using rows [of k] add(3) by (cases "k = i") (auto simp: row_is_def)
    show "condemned_in w (jw_phase w) \<Longrightarrow> condemned_in ?w (jw_phase ?w)"
      using flag by (cases "jw_phase w") auto
    show "held (jw_phase w) = Some k \<Longrightarrow> map_of (jw_pending ?w) k = None" for k
      using runs_okD(7) [OF w] by simp
  qed (use add(2) used in auto)
qed

lemma pruned_row: "scan_job_of (prune_history lib js) k = None \<or> scan_job_of (prune_history lib js) k = scan_job_of js k"
  unfolding prune_history_def by (simp add: row_filter)

lemma pruned_active:
  assumes "distinct (map sj_id js)" and "scan_job_of js k = Some r" and "job_active r"
  shows "scan_job_of (prune_history lib js) k = Some r"
proof -
  have "k \<notin> sj_id ` set (drop scanJobHistoryLimit (history_of lib js))"
  proof
    assume "k \<in> sj_id ` set (drop scanJobHistoryLimit (history_of lib js))"
    then obtain x where "x \<in> set (history_of lib js)" and k: "k = sj_id x" using in_set_dropD by fastforce
    then have "x \<in> set js" "\<not> job_active x" by (auto simp: history_of_def)
    with row_member [OF assms(1), of x] assms(2, 3) k show False by simp
  qed
  with assms(2) show ?thesis by (simp add: prune_history_def row_filter)
qed

lemma prune_step:
  assumes w: "runs_ok w"
    and w': "jw_jobs w' = prune_history lib (jw_jobs w)" "jw_used w' = jw_used w" "jw_pending w' = jw_pending w"
      "jw_stored w' = jw_stored w" "jw_committed w' = jw_committed w" "jw_active w' = jw_active w" "jw_owner w' = jw_owner w"
      "jw_ctx w' = jw_ctx w"
    and ph: "jw_phase w' = jw_phase w \<or> (\<exists>j. jw_phase w = RunPruning j \<and> jw_phase w' = RunClearing j)"
  shows "runs_ok w' \<and> advances w w'"
proof -
  note d = runs_ok_distinct [OF w]
  have less: "row_is P w' k \<Longrightarrow> row_is P w k" for P k
    using pruned_row [of lib "jw_jobs w" k] by (auto simp: row_is_def w')
  have kept: "row_is running w' k" if r: "row_is running w k" for k
    using r pruned_active [OF d, of k _ lib] by (auto simp: row_is_def w' job_active_iff)
  have flag: "cancel_flagged (jw_jobs w) k \<Longrightarrow> row_is running w k \<Longrightarrow> cancel_flagged (jw_jobs w') k" for k
    using pruned_active [OF d, of k _ lib] by (auto simp: row_is_def w' flagged_row job_active_iff)
  show ?thesis
  proof (rule table_step [OF w])
    show "scan_table_ok (jw_jobs w')" using runs_okD(1) [OF w] unfolding w' prune_history_def by (rule table_filter)
    show "sj_id ` set (jw_jobs w') \<subseteq> set (jw_used w')" using runs_okD(2) [OF w] by (auto simp: w' prune_history_def)
    show "row_is running w' k = row_is running w k" for k using less kept by blast
    show "condemned_in w (jw_phase w) \<Longrightarrow> condemned_in w' (jw_phase w')"
      using ph flag runs_okD(3) [OF w] by (cases "jw_phase w") (auto simp: w')
  qed (use ph less runs_okD(7) [OF w] in \<open>auto simp: w'\<close>)
qed

lemma delay_step:
  assumes v: "runs_ok v" and u: "u = v\<lparr>jw_jobs := change_job i (\<lambda>r. r\<lparr>sj_not_before := t\<rparr>) (jw_jobs v)\<rparr>"
  shows "runs_ok u \<and> advances v u"
proof -
  let ?f = "\<lambda>r. r\<lparr>sj_not_before := t\<rparr>"
  have f: "sj_id (?f r) = sj_id r" "queued (?f r) = queued r" "running (?f r) = running r" "won (?f r) = won r"
    "job_active (?f r) = job_active r" for r :: scan_job
    by (simp_all add: queued_def running_def won_def job_active_def)
  have rows: "row_is queued u = row_is queued v" "row_is running u = row_is running v" "row_is won u = row_is won v"
    by (rule ext, auto simp: row_is_def u f)+
  have flag: "cancel_flagged (change_job i ?f (jw_jobs v)) k = cancel_flagged (jw_jobs v) k" for k by (auto simp: flagged_row)
  have "condemned_in u (jw_phase u) = condemned_in v (jw_phase v)" by (cases "jw_phase v") (simp_all add: flag u)
  moreover have "scan_table_ok (jw_jobs u)"
    using runs_okD(1) [OF v] unfolding u by (auto intro!: table_change simp: f row_writes_ok)
  moreover have "sj_id ` set (jw_jobs u) \<subseteq> set (jw_used u)" using runs_okD(2) [OF v] by (simp add: u table_ids)
  ultimately show ?thesis using runs_okD(7) [OF v] by (intro table_step [OF v]) (simp_all add: rows, simp_all add: u)
qed

lemma retry_keeps:
  assumes w: "runs_ok w" and ph: "jw_phase w = RunFinished j t raw" and new: "ri_id x \<notin> set (jw_used w)"
  shows "runs_ok (retry_after j t raw x w) \<and> advances w (retry_after j t raw x w)"
proof -
  have phase: "runs_ok (v\<lparr>jw_phase := RunPruning j\<rparr>) \<and> advances v (v\<lparr>jw_phase := RunPruning j\<rparr>)"
    if v: "runs_ok v" "jw_phase v = RunFinished j t raw" for v
    using runs_okD(1, 2, 7) [OF v(1)] v(2) by (intro table_step [OF v(1)]) (auto simp: row_is_def)
  obtain js res where r: "retry_scan_job (sj_id j) [] (ri_id x) (ri_now x) (jw_jobs w) = (js, res)" by fastforce
  show ?thesis
  proof (cases "(t = ''partial'' \<or> t = ''failed'') \<and> sj_attempt j < 3 \<and> \<not> permanent_failure raw \<and> (\<exists>q. res = Inr q)")
    case False
    then have "retry_after j t raw x w = w\<lparr>jw_phase := RunPruning j\<rparr>"
      using r by (auto simp: retry_after_def split: sum.splits)
    with phase [OF w ph] show ?thesis by simp
  next
    case True
    then obtain q where q: "res = Inr q" by blast
    from retry_scan_effect [OF runs_okD(1) [OF w], of "ri_id x" "sj_id j" "[]" "ri_now x"] r q
    have add: "adds_queued (ri_id x) (jw_jobs w) js" "scan_table_ok js" "sj_id q = ri_id x" by simp_all
    let ?v = "w\<lparr>jw_jobs := js, jw_used := ri_id x # jw_used w\<rparr>"
    let ?f = "\<lambda>r. r\<lparr>sj_not_before := ri_now x + (if sj_attempt j > 1 then 300 else 60)\<rparr>"
    let ?u = "?v\<lparr>jw_jobs := change_job (ri_id x) ?f js\<rparr>"
    have eq: "retry_after j t raw x w = ?u\<lparr>jw_phase := RunPruning j\<rparr>"
      using True r q add(3) by (simp add: retry_after_def)
    have v: "runs_ok ?v" "advances w ?v" using add_row [OF w add(1, 2) new] by simp_all
    have "runs_ok ?u \<and> advances ?v ?u" by (rule delay_step [OF v(1)]) simp
    with v(2) phase [of ?u] ph show ?thesis unfolding eq by (auto intro: advances_trans)
  qed
qed

lemma used_step:
  assumes w: "runs_ok w" and u: "set (jw_used w) \<subseteq> set u"
  shows "runs_ok (w\<lparr>jw_used := u\<rparr>) \<and> advances w (w\<lparr>jw_used := u\<rparr>)"
proof -
  have "condemned_in (w\<lparr>jw_used := u\<rparr>) ph = condemned_in w ph" for ph by (cases ph) simp_all
  then show ?thesis using runs_okD(1, 2, 7) [OF w] u by (intro table_step [OF w]) (auto simp: row_is_def)
qed

lemma enqueue_keeps:
  assumes "runs_ok w" and "jw_jobs w = js" and "distinct ids" and "set ids \<inter> set (jw_used w) = {}"
    and "enqueue_loop ck now ids ps (s, js) = (s', js')"
  shows "\<exists>u. runs_ok (w\<lparr>jw_jobs := js', jw_used := u\<rparr>) \<and> advances w (w\<lparr>jw_jobs := js', jw_used := u\<rparr>) \<and>
    set u \<subseteq> set ids \<union> set (jw_used w) \<and> set (jw_used w) \<subseteq> set u"
  using assms
proof (induction ps arbitrary: w ids s js)
  case Nil
  then have "js' = jw_jobs w" by simp
  with Nil.prems(1) show ?case by (intro exI [of _ "jw_used w"]) (simp add: advances_def)
next
  case (Cons p ps)
  show ?case
  proof (cases "ids = [] \<or> \<not> po_enabled p \<or> po_next p \<noteq> 0 \<and> now div 1000000000 < po_next p")
    case True
    show ?thesis
    proof (cases ids)
      case Nil
      with Cons.prems have "js' = jw_jobs w" by simp
      with Cons.prems(1) show ?thesis by (intro exI [of _ "jw_used w"]) (simp add: advances_def)
    next
      case (Cons i is')
      with True Cons.prems(5) have "enqueue_loop ck now ids ps (s, js) = (s', js')" by auto
      from Cons.IH [OF Cons.prems(1-4) this] show ?thesis .
    qed
  next
    case False
    then obtain i is' where ids: "ids = i # is'" by (cases ids) auto
    obtain js1 res where q: "queue_scan (py_libraries s) (po_library p) ''schedule'' i (now div 1000000000) js = (js1, res)"
      by fastforce
    from queue_scan_effect [OF runs_okD(1) [OF Cons.prems(1)], of i "py_libraries s" "po_library p" "''schedule''" "now div 1000000000"] q
    have add: "adds_queued i (jw_jobs w) js1" "scan_table_ok js1" by (simp_all add: Cons.prems(2))
    let ?v = "w\<lparr>jw_jobs := js1, jw_used := i # jw_used w\<rparr>"
    have v: "runs_ok ?v" "advances w ?v" using add_row [OF Cons.prems(1) add] Cons.prems(4) ids by simp_all
    show ?thesis
    proof (cases "\<exists>s1. enqueue_loop ck now is' ps (s1, js1) = (s', js')")
      case True
      then obtain s1 where s1: "enqueue_loop ck now is' ps (s1, js1) = (s', js')" by blast
      have "\<exists>u. runs_ok (?v\<lparr>jw_jobs := js', jw_used := u\<rparr>) \<and> advances ?v (?v\<lparr>jw_jobs := js', jw_used := u\<rparr>) \<and>
          set u \<subseteq> set is' \<union> set (jw_used ?v) \<and> set (jw_used ?v) \<subseteq> set u"
        by (rule Cons.IH [OF v(1) _ _ _ s1]) (use Cons.prems(3, 4) ids in auto)
      then obtain u where u: "runs_ok (w\<lparr>jw_jobs := js', jw_used := u\<rparr>)" "advances ?v (w\<lparr>jw_jobs := js', jw_used := u\<rparr>)"
        "set u \<subseteq> insert i (set is' \<union> set (jw_used w))" "insert i (set (jw_used w)) \<subseteq> set u" by auto
      with v(2) show ?thesis by (intro exI [of _ u]) (auto simp: ids intro: advances_trans)
    next
      case stop: False
      have "js' = js1"
        using Cons.prems(5) False stop unfolding ids by (auto simp: q split: sum.splits option.splits)
      with v show ?thesis by (intro exI [of _ "i # jw_used w"]) (auto simp: ids)
    qed
  qed
qed

lemma enqueue_due_keeps:
  assumes w: "runs_ok w" and ids: "distinct ids" "set ids \<inter> set (jw_used w) = {}"
    and e: "enqueue_due ck now ids (s, jw_jobs w) = (s', js')"
  shows "runs_ok (w\<lparr>jw_jobs := js', jw_used := ids @ jw_used w\<rparr>) \<and> advances w (w\<lparr>jw_jobs := js', jw_used := ids @ jw_used w\<rparr>)"
proof -
  have "\<exists>u. runs_ok (w\<lparr>jw_jobs := js', jw_used := u\<rparr>) \<and> advances w (w\<lparr>jw_jobs := js', jw_used := u\<rparr>) \<and>
      set u \<subseteq> set ids \<union> set (jw_used w)"
  proof (cases "scan_policies ck s")
    case (Inl x)
    then have "js' = jw_jobs w" using e by (simp add: enqueue_due_def)
    with w show ?thesis by (intro exI [of _ "jw_used w"]) (simp add: advances_def)
  next
    case (Inr ps)
    then have "enqueue_loop ck now ids ps (s, jw_jobs w) = (s', js')" using e by (simp add: enqueue_due_def)
    from enqueue_keeps [OF w refl ids this] show ?thesis by blast
  qed
  then obtain u where u: "runs_ok (w\<lparr>jw_jobs := js', jw_used := u\<rparr>)" "advances w (w\<lparr>jw_jobs := js', jw_used := u\<rparr>)"
    "set u \<subseteq> set ids \<union> set (jw_used w)" by blast
  with used_step [OF u(1), of "ids @ jw_used w"] show ?thesis by (auto intro: advances_trans)
qed

section \<open>Cancellations\<close>

definition thread_ok :: "job_world \<Rightarrow> cancel_stage \<Rightarrow> bool" where
  "thread_ok w c \<longleftrightarrow> (case c of
       MarkActive i \<Rightarrow> killed w i
     | Marking i a \<Rightarrow> i \<in> set (jw_used w) \<and> (row_is job_active w i \<longrightarrow> map_of (jw_pending w) i = Some a \<or> killed w i)
     | Closing i a changed \<Rightarrow> i \<in> set (jw_used w) \<and> (row_is job_active w i \<longrightarrow> killed w i) \<and> (changed \<longrightarrow> killed w i)
     | Tidying i \<Rightarrow> True)"

text \<open>Consumed intents and acknowledged cancellations belong to jobs that are killed.\<close>

definition jobs_safe :: "job_world \<Rightarrow> bool" where
  "jobs_safe w \<longleftrightarrow> runs_ok w \<and> (\<forall>(i, a) \<in> set (jw_consumed w). killed w i) \<and> (\<forall>i \<in> set (jw_acked w). killed w i) \<and>
     (\<forall>t c. jw_threads w t = Some c \<longrightarrow> thread_ok w c)"

lemma jobs_safeD:
  assumes "jobs_safe w"
  shows "runs_ok w" and "(i, a) \<in> set (jw_consumed w) \<Longrightarrow> killed w i" and "i \<in> set (jw_acked w) \<Longrightarrow> killed w i"
    and "jw_threads w t = Some c \<Longrightarrow> thread_ok w c"
  using assms unfolding jobs_safe_def by blast+

lemma thread_ok_advances: "advances w w' \<Longrightarrow> thread_ok w c \<Longrightarrow> thread_ok w' c"
  unfolding advances_def thread_ok_def by (cases c) (simp_all, blast+)

lemma safe_advances:
  assumes "jobs_safe w" and "runs_ok w' \<and> advances w w'"
    and "\<And>i a. (i, a) \<in> set (jw_consumed w') \<Longrightarrow> (i, a) \<in> set (jw_consumed w) \<or> killed w' i"
    and "\<And>i. i \<in> set (jw_acked w') \<Longrightarrow> i \<in> set (jw_acked w) \<or> killed w' i"
    and "\<And>t c. jw_threads w' t = Some c \<Longrightarrow> jw_threads w t = Some c \<or> thread_ok w' c"
  shows "jobs_safe w'"
proof -
  have k: "killed w i \<Longrightarrow> killed w' i" for i using assms(2) by (simp add: advances_def)
  then show ?thesis using assms thread_ok_advances [of w w'] unfolding jobs_safe_def by blast
qed

lemma safe_same:
  assumes "jobs_safe w" and "runs_ok w' \<and> advances w w'"
    and "jw_consumed w' = jw_consumed w" "jw_acked w' = jw_acked w" "jw_threads w' = jw_threads w"
  shows "jobs_safe w'"
  by (rule safe_advances [OF assms(1, 2)]) (use assms(3-5) in auto)

lemma set_thread_same: "runs_ok (set_thread t c w) = runs_ok w" "killed (set_thread t c w) i = killed w i"
  "thread_ok (set_thread t c w) d = thread_ok w d" "row_is P (set_thread t c w) i = row_is P w i"
proof -
  have r: "row_is P (set_thread t c w) i = row_is P w i" for P i by (simp add: row_is_def set_thread_def)
  have "condemned_in (set_thread t c w) ph = condemned_in w ph" for ph by (cases ph) (simp_all add: set_thread_def)
  then have k: "killed (set_thread t c w) i = killed w i" for i
    unfolding killed_def condemned_def r by (simp add: set_thread_def)
  show "runs_ok (set_thread t c w) = runs_ok w" unfolding runs_ok_def r by (simp add: set_thread_def)
  show "killed (set_thread t c w) i = killed w i" by (rule k)
  show "row_is P (set_thread t c w) i = row_is P w i" by (rule r)
  show "thread_ok (set_thread t c w) d = thread_ok w d" unfolding thread_ok_def k r by (cases d) (simp_all add: set_thread_def)
qed

lemma set_thread_advances: "advances w (set_thread t c v) = advances w v"
  unfolding advances_def set_thread_same by (simp add: set_thread_def)

lemma safe_thread:
  assumes "jobs_safe w" and "runs_ok v \<and> advances w v" and "\<And>d. c = Some d \<Longrightarrow> thread_ok v d"
    and "jw_consumed v = jw_consumed w" "jw_threads v = jw_threads w"
    and "\<And>i. i \<in> set (jw_acked v) \<Longrightarrow> i \<in> set (jw_acked w) \<or> killed v i"
  shows "jobs_safe (set_thread t c v)"
proof (rule safe_advances [OF assms(1)])
  show "runs_ok (set_thread t c v) \<and> advances w (set_thread t c v)"
    using assms(2) by (simp add: set_thread_same set_thread_advances)
  show "jw_threads (set_thread t c v) u = Some d \<Longrightarrow> jw_threads w u = Some d \<or> thread_ok (set_thread t c v) d" for u d
    unfolding set_thread_same using assms(3, 5) by (auto simp: set_thread_def split: if_splits)
  show "i \<in> set (jw_acked (set_thread t c v)) \<Longrightarrow> i \<in> set (jw_acked w) \<or> killed (set_thread t c v) i" for i
    unfolding set_thread_same using assms(6) by (simp add: set_thread_def)
qed (use assms(4) in \<open>simp add: set_thread_def\<close>)

lemma safe_used:
  assumes "jobs_safe w"
  shows "jobs_safe (w\<lparr>jw_used := i # jw_used w\<rparr>)"
  by (rule safe_same [OF assms]) (use assms used_step [of w "i # jw_used w"] in \<open>auto simp: jobs_safe_def\<close>)

lemma cancel_begin_keeps:
  assumes s: "jobs_safe w" and i: "i \<in> set (jw_used w)"
  shows "jobs_safe (fst (cancel_begin t i w))"
proof -
  from s have w: "runs_ok w" by (simp add: jobs_safe_def)
  show ?thesis
  proof (cases "jw_active w = Some i")
    case True
    show ?thesis
    proof (cases "jw_committed w")
      case True
      with \<open>jw_active w = Some i\<close> s show ?thesis by (simp add: cancel_begin_def)
    next
      case False
      let ?v = "w\<lparr>jw_owner := True, jw_ctx := True\<rparr>"
      from True have h: "held (jw_phase w) = Some i" using runs_okD(4) [OF w] by simp
      have op: "still_open (jw_phase w)" using runs_okD(5) [OF w h False] .
      have ex: "executing (jw_phase w) = Some i" and cond: "condemned_in ?v (jw_phase w)"
        using h op by (cases "jw_phase w"; simp)+
      have new: "i \<notin> set (jw_stored w)" using runs_okD(6) [OF w, of i] ex False by auto
      have step: "runs_ok ?v \<and> advances w ?v"
        using runs_okD(1, 2, 7) [OF w] cond by (intro table_step [OF w]) (auto simp: row_is_def)
      have "killed ?v i" using i new ex cond by (simp add: killed_def condemned_def)
      with step s show ?thesis
        using True False by (simp add: cancel_begin_def) (rule safe_thread, auto simp: thread_ok_def)
    qed
  next
    case no: False
    show ?thesis
    proof (cases "map_of (jw_pending w) i")
      case (Some a)
      with no s w i show ?thesis
        by (simp add: cancel_begin_def) (rule safe_thread, auto simp: thread_ok_def advances_def)
    next
      case None
      let ?v = "w\<lparr>jw_pending := AList.update i (jw_next w) (jw_pending w), jw_next := Suc (jw_next w)\<rparr>"
      have "condemned_in ?v ph = condemned_in w ph" for ph by (cases ph) simp_all
      then have "runs_ok ?v \<and> advances w ?v"
        using runs_okD(1, 2, 4) [OF w] runs_okD(7) [OF w] no None by (intro table_step [OF w]) (auto simp: row_is_def)
      with no None s i show ?thesis by (simp add: cancel_begin_def) (rule safe_thread, auto simp: thread_ok_def)
    qed
  qed
qed

lemma flag_step:
  assumes w: "runs_ok w" and f: "\<And>r. sj_id (f r) = sj_id r \<and> sj_library (f r) = sj_library r" "\<And>r. job_row_ok r \<Longrightarrow> job_row_ok (f r)"
      "\<And>r. running (f r) = running r" "\<And>r. queued (f r) \<Longrightarrow> queued r" "\<And>r. won (f r) \<Longrightarrow> won r"
      "\<And>r. sj_cancel_requested r \<Longrightarrow> sj_cancel_requested (f r)"
    and v: "v = w\<lparr>jw_jobs := change_job i f (jw_jobs w), jw_acked := acked\<rparr>"
  shows "runs_ok v \<and> advances w v"
proof (rule table_step [OF w])
  have rows: "scan_job_of (jw_jobs v) k = (if k = i then map_option f (scan_job_of (jw_jobs w) k) else scan_job_of (jw_jobs w) k)" for k
    using f(1) by (simp add: v)
  show "row_is running v k = row_is running w k" for k using f(3) by (auto simp: row_is_def rows)
  show "row_is queued v k \<Longrightarrow> row_is queued w k" for k using f(4) by (auto simp: row_is_def rows split: if_splits)
  show "row_is won v k \<Longrightarrow> row_is won w k" for k using f(5) by (auto simp: row_is_def rows split: if_splits)
  have flag: "cancel_flagged (jw_jobs w) k \<Longrightarrow> cancel_flagged (change_job i f (jw_jobs w)) k" for k
    using f(1, 6) by (auto simp: flagged_row)
  show "condemned_in w (jw_phase w) \<Longrightarrow> condemned_in v (jw_phase v)" by (cases "jw_phase w") (auto simp: v flag)
  show "scan_table_ok (jw_jobs v)"
    using runs_okD(1) [OF w] f unfolding v by (auto intro!: table_change simp: job_active_iff)
qed (use runs_okD(2, 7) [OF w] f(1) in \<open>auto simp: v table_ids\<close>)

lemma mark_active_keeps:
  assumes s: "jobs_safe w" and t: "jw_threads w t = Some (MarkActive i)"
  shows "jobs_safe (mark_active t i w)"
proof -
  from jobs_safeD(1, 4) [OF s] t have w: "runs_ok w" and k: "killed w i" by (force simp: thread_ok_def)+
  let ?f = "\<lambda>r. r\<lparr>sj_cancel_requested := True\<rparr>"
  let ?v = "w\<lparr>jw_jobs := change_job i ?f (jw_jobs w), jw_acked := i # jw_acked w\<rparr>"
  have v: "runs_ok ?v \<and> advances w ?v"
    by (rule flag_step [OF w _ row_writes_ok(6) _ _ _ _ refl]) (simp_all add: running_def queued_def won_def)
  with k have "killed ?v i" by (simp add: advances_def)
  with s v show ?thesis unfolding mark_active_def by (intro safe_thread) auto
qed

lemma mark_row_keeps:
  assumes s: "jobs_safe w" and t: "jw_threads w t = Some (Marking i a)"
  shows "jobs_safe (mark_row t i a now w)"
proof -
  from jobs_safeD(1) [OF s] have w: "runs_ok w" .
  from jobs_safeD(4) [OF s t] have i: "i \<in> set (jw_used w)"
    and th: "row_is job_active w i \<Longrightarrow> map_of (jw_pending w) i = Some a \<or> killed w i"
    by (simp_all add: thread_ok_def)
  let ?v = "w\<lparr>jw_jobs := change_job i (marked_row now) (jw_jobs w)\<rparr>"
  have m: "running (marked_row now r) = running r" "queued (marked_row now r) \<Longrightarrow> queued r" "won (marked_row now r) \<Longrightarrow> won r"
    "sj_cancel_requested r \<Longrightarrow> sj_cancel_requested (marked_row now r)" for r
    by (simp_all add: marked_row_def running_def queued_def won_def split: if_splits)
  have v: "runs_ok ?v \<and> advances w ?v"
    by (rule flag_step [OF w _ row_writes_ok(4), where acked = "jw_acked w"]) (use m in simp_all)
  have active: "killed ?v i" if "is_active (jw_jobs w) i"
  proof -
    from that obtain r where r: "scan_job_of (jw_jobs w) i = Some r" and a: "job_active r" by (auto simp: is_active_row)
    have row: "row_is P ?v i = P (marked_row now r)" for P using r by (simp add: row_is_def)
    have flag: "cancel_flagged (change_job i (marked_row now) (jw_jobs w)) i = sj_cancel_requested (marked_row now r)"
      using r by (simp add: flagged_row)
    show ?thesis
    proof (cases "queued r")
      case True
      with r have "i \<notin> set (jw_stored w)" using runs_okD(6) [OF w, of i] by (auto simp: row_is_def)
      with i marked_status(1) [OF True] show ?thesis unfolding killed_def row by simp
    next
      case False
      with a have run: "running r" by (simp add: job_active_iff)
      with r have ex: "executing (jw_phase w) = Some i" by (rule running_job [OF _ _ w])
      from th r a consider "killed w i" | "map_of (jw_pending w) i = Some a" by (auto simp: row_is_def)
      then show ?thesis
      proof cases
        case 1
        with v show ?thesis by (simp add: advances_def)
      next
        case 2
        then have "held (jw_phase w) \<noteq> Some i" using runs_okD(7) [OF w, of i] by auto
        with ex obtain j where ph: "jw_phase w = RunClaimed j" "sj_id j = i" by (cases "jw_phase w") auto
        then have "i \<notin> set (jw_stored w)" using runs_okD(6) [OF w, of i] by auto
        with i ph marked_status(2) [OF run] show ?thesis unfolding killed_def row by (simp add: condemned_def flag)
      qed
    qed
  qed
  have "row_is job_active ?v i \<Longrightarrow> is_active (jw_jobs w) i"
    using v i by (auto simp: advances_def row_is_def is_active_row)
  with active i have "thread_ok ?v (Closing i a (is_active (jw_jobs w) i))" by (auto simp: thread_ok_def)
  with s v show ?thesis unfolding mark_row_def by (intro safe_thread) auto
qed

lemma close_cancel_keeps:
  assumes s: "jobs_safe w" and t: "jw_threads w t = Some (Closing i a changed)"
  shows "jobs_safe (fst (close_cancel t i a changed w))"
proof -
  from jobs_safeD(1, 2) [OF s] have w: "runs_ok w" and con: "(i, a) \<in> set (jw_consumed w) \<Longrightarrow> killed w i" by blast+
  from jobs_safeD(4) [OF s t] have i: "i \<in> set (jw_used w)" and act: "row_is job_active w i \<Longrightarrow> killed w i"
    and ch: "changed \<Longrightarrow> killed w i" by (simp_all add: thread_ok_def)
  let ?v = "if map_of (jw_pending w) i = Some a then w\<lparr>jw_pending := AList.delete i (jw_pending w)\<rparr> else w"
  let ?u = "?v\<lparr>jw_acked := i # jw_acked ?v\<rparr>"
  have del: "runs_ok u \<and> advances w u" if u: "u = ?v\<lparr>jw_acked := acked\<rparr>" for u acked
  proof -
    have "condemned_in u ph = condemned_in w ph" for ph by (cases ph) (simp_all add: u)
    then show ?thesis using runs_okD(1, 2) [OF w] runs_okD(7) [OF w] act
      by (intro table_step [OF w]) (auto simp: u row_is_def split: if_splits)
  qed
  show ?thesis
  proof (cases "\<not> changed \<and> (i, a) \<notin> set (jw_consumed w)")
    case True
    have v: "runs_ok ?v \<and> advances w ?v" using del [of ?v "jw_acked ?v"] by simp
    have "jobs_safe (set_thread t None ?v)" by (rule safe_thread [OF s v]) (simp_all split: if_splits)
    with True show ?thesis by (auto simp: close_cancel_def Let_def)
  next
    case False
    have u: "runs_ok ?u \<and> advances w ?u" by (rule del) simp
    moreover from False ch con have "killed w i" by blast
    ultimately have k: "killed ?u i" by (simp add: advances_def)
    have "jobs_safe (set_thread t (Some (Tidying i)) ?u)"
      by (rule safe_thread [OF s u]) (use k in \<open>auto simp: thread_ok_def split: if_splits\<close>)
    with False show ?thesis by (auto simp: close_cancel_def Let_def)
  qed
qed

lemma tidy_keeps:
  assumes s: "jobs_safe w"
  shows "jobs_safe (tidy_cancelled t i w)"
proof -
  from s have w: "runs_ok w" by (simp add: jobs_safe_def)
  have p: "runs_ok (w\<lparr>jw_jobs := prune_history lib (jw_jobs w)\<rparr>) \<and> advances w (w\<lparr>jw_jobs := prune_history lib (jw_jobs w)\<rparr>)" for lib
    by (rule prune_step [OF w]) simp_all
  show ?thesis unfolding tidy_cancelled_def
    by (rule safe_thread [OF s]) (use p w in \<open>auto simp: advances_def split: option.splits\<close>)
qed

section \<open>Every step\<close>

lemma runner_frame:
  "jw_consumed (claim_scan_job now w) = jw_consumed w" "jw_acked (claim_scan_job now w) = jw_acked w"
  "jw_threads (claim_scan_job now w) = jw_threads w"
  "jw_acked (begin_job j w) = jw_acked w" "jw_threads (begin_job j w) = jw_threads w"
  "jw_consumed (read_flag j p w) = jw_consumed w" "jw_acked (read_flag j p w) = jw_acked w"
  "jw_threads (read_flag j p w) = jw_threads w"
  "jw_consumed (start_job_scan j x w) = jw_consumed w" "jw_acked (start_job_scan j x w) = jw_acked w"
  "jw_threads (start_job_scan j x w) = jw_threads w"
  "jw_consumed (commit_scan j x w) = jw_consumed w" "jw_acked (commit_scan j x w) = jw_acked w"
  "jw_threads (commit_scan j x w) = jw_threads w"
  "jw_consumed (judge_job j e w) = jw_consumed w" "jw_acked (judge_job j e w) = jw_acked w"
  "jw_threads (judge_job j e w) = jw_threads w"
  "jw_consumed (end_job j e b x w) = jw_consumed w" "jw_acked (end_job j e b x w) = jw_acked w"
  "jw_threads (end_job j e b x w) = jw_threads w"
  "jw_consumed (retry_after j u raw x w) = jw_consumed w" "jw_acked (retry_after j u raw x w) = jw_acked w"
  "jw_threads (retry_after j u raw x w) = jw_threads w"
  "jw_consumed (clear_active j w) = jw_consumed w" "jw_acked (clear_active j w) = jw_acked w"
  "jw_threads (clear_active j w) = jw_threads w"
  by (simp_all add: claim_scan_job_def begin_job_def read_flag_def start_job_scan_def commit_scan_def judge_job_def
      end_job_def retry_after_def clear_active_def Let_def split: option.split prod.split sum.split)

lemma runner_keeps:
  assumes s: "jobs_safe w"
  shows "jobs_safe (runner_step x w (jw_phase w))"
proof -
  note w = jobs_safeD(1) [OF s]
  show ?thesis
  proof (cases "jw_phase w")
    case RunIdle
    with s claim_keeps [OF w RunIdle] show ?thesis by (auto simp: runner_frame intro: safe_same)
  next
    case (RunClaimed j)
    then have "jobs_safe (begin_job j w)"
      using begin_keeps [OF w RunClaimed] by (intro safe_advances [OF s]) (auto simp: runner_frame)
    with RunClaimed show ?thesis by simp
  next
    case (RunBegun j p)
    with s read_flag_keeps [OF w RunBegun] show ?thesis by (auto simp: runner_frame intro: safe_same)
  next
    case (RunStarting j)
    with s start_keeps [OF w RunStarting] show ?thesis by (auto simp: runner_frame intro: safe_same)
  next
    case (RunScanning j)
    with s commit_keeps [OF w RunScanning] show ?thesis by (auto simp: runner_frame intro: safe_same)
  next
    case (RunOver j e)
    with s judge_keeps [OF w RunOver] show ?thesis by (auto simp: runner_frame intro: safe_same)
  next
    case (RunJudged j e b)
    with s end_keeps [OF w RunJudged] show ?thesis by (auto simp: runner_frame intro: safe_same)
  next
    case (RunFinished j u raw)
    with s retry_keeps [OF w RunFinished] show ?thesis by (auto simp: runner_frame intro: safe_same)
  next
    case (RunPruning j)
    let ?v = "w\<lparr>jw_jobs := prune_history (sj_library j) (jw_jobs w), jw_phase := RunClearing j\<rparr>"
    have "runs_ok ?v \<and> advances w ?v" by (rule prune_step [OF w]) (simp_all add: RunPruning)
    with s RunPruning show ?thesis by (auto intro: safe_same)
  next
    case (RunClearing j)
    with s clear_keeps [OF w RunClearing] show ?thesis by (auto simp: runner_frame intro: safe_same)
  qed
qed

lemma restart_keeps:
  assumes s: "jobs_safe w"
  shows "jobs_safe (restart_scheduler now w)"
proof -
  note w = jobs_safeD(1) [OF s]
  let ?v = "restart_scheduler now w"
  have rows: "scan_job_of (jw_jobs ?v) k = map_option (interrupted_row now) (scan_job_of (jw_jobs w) k)" for k
    by (simp add: restart_scheduler_def row_map)
  have i: "\<not> running (interrupted_row now r)" "queued (interrupted_row now r) \<Longrightarrow> queued r"
    "won (interrupted_row now r) \<Longrightarrow> won r" "job_active (interrupted_row now r) \<Longrightarrow> job_active r" for r
    by (simp_all add: interrupted_row_def running_def queued_def won_def job_active_def split: if_splits)
  have run: "\<not> row_is running ?v k" for k by (auto simp: row_is_def rows i)
  have que: "row_is queued ?v k \<Longrightarrow> row_is queued w k" for k using i(2) by (auto simp: row_is_def rows)
  have table: "scan_table_ok (jw_jobs ?v)"
  proof -
    have "map sj_library (filter job_active (map (interrupted_row now) xs)) =
        map sj_library (filter (\<lambda>r. job_active (interrupted_row now r) \<and> job_active r) xs)" for xs
      using i(4) by (induction xs) auto
    with runs_okD(1) [OF w] show ?thesis
      by (auto simp: scan_table_ok_def restart_scheduler_def distinct_filtered row_writes_ok comp_def)
  qed
  have fields: "jw_phase ?v = RunIdle" "jw_active ?v = None" "jw_used ?v = jw_used w" "jw_stored ?v = jw_stored w"
    "sj_id ` set (jw_jobs ?v) = sj_id ` set (jw_jobs w)"
    by (simp_all add: restart_scheduler_def image_image)
  have "i \<in> set (jw_used w) \<and> \<not> row_is queued ?v i" if "i \<in> set (jw_stored w)" for i
    using runs_okD(6) [OF w that] que by blast
  then have ok: "runs_ok ?v"
    using table run runs_okD(2) [OF w] unfolding runs_ok_def fields by simp
  have "killed ?v k" if k: "killed w k" for k
  proof -
    have "\<not> row_is job_active ?v k \<and> \<not> row_is won ?v k"
    proof (cases "condemned w k")
      case True
      then have "row_is running w k" using runs_okD(3) [OF w, of k] by (simp add: condemned_def)
      then show ?thesis using interrupted_status(1) by (auto simp: row_is_def rows)
    next
      case False
      with k show ?thesis using i(3, 4) by (auto simp: killed_def row_is_def rows)
    qed
    with k show ?thesis by (simp add: killed_def) (simp add: restart_scheduler_def)
  qed
  with ok s show ?thesis by (simp add: jobs_safe_def) (simp add: restart_scheduler_def)
qed

lemma job_step_keeps:
  assumes s: "jobs_safe w"
  shows "jobs_safe (job_step ck w e)"
proof -
  note w = jobs_safeD(1) [OF s]
  have plain: "runs_ok (w\<lparr>jw_policies := p\<rparr>) \<and> advances w (w\<lparr>jw_policies := p\<rparr>)" for p
  proof -
    have "condemned_in (w\<lparr>jw_policies := p\<rparr>) ph = condemned_in w ph" for ph by (cases ph) simp_all
    then show ?thesis using runs_okD(1, 2, 7) [OF w] by (intro table_step [OF w]) (auto simp: row_is_def)
  qed
  show ?thesis
  proof (cases e)
    case (JvQueue lib trigger i now)
    with queue_scan_effect [OF runs_okD(1) [OF w]] add_row [OF w] s show ?thesis by (auto intro: safe_same)
  next
    case (JvRetry i ks new now)
    with retry_scan_effect [OF runs_okD(1) [OF w]] add_row [OF w] s show ?thesis by (auto intro: safe_same)
  next
    case (JvCancel t i)
    with s cancel_begin_keeps [OF safe_used [OF s], of i i t] show ?thesis by simp
  next
    case (JvCancelStep t now)
    show ?thesis
    proof (cases "jw_threads w t")
      case None
      with s JvCancelStep show ?thesis by simp
    next
      case (Some c)
      with s JvCancelStep show ?thesis
        by (cases c) (auto intro: mark_active_keeps mark_row_keeps close_cancel_keeps tidy_keeps)
    qed
  next
    case (JvEnqueue now ids)
    obtain p js where q: "enqueue_due ck now ids (jw_policies w, jw_jobs w) = (p, js)" by fastforce
    show ?thesis
    proof (cases "set ids \<inter> set (jw_used w) \<noteq> {} \<or> \<not> distinct ids \<or> jw_phase w \<noteq> RunIdle \<or> jw_stopping w")
      case True
      with s JvEnqueue show ?thesis by auto
    next
      case False
      let ?u = "w\<lparr>jw_jobs := js, jw_used := ids @ jw_used w\<rparr>" and ?v = "w\<lparr>jw_policies := p, jw_jobs := js, jw_used := ids @ jw_used w\<rparr>"
      have u: "runs_ok ?u \<and> advances w ?u" using False by (intro enqueue_due_keeps [OF w _ _ q]) auto
      have "condemned_in ?v ph = condemned_in ?u ph" for ph by (cases ph) simp_all
      then have "runs_ok ?v \<and> advances w ?v"
        using u unfolding runs_ok_def advances_def killed_def condemned_def row_is_def by simp
      with s JvEnqueue False q show ?thesis by (auto intro: safe_same)
    qed
  next
    case (JvRun x)
    with s runner_keeps show ?thesis by simp
  next
    case (JvPolicy lib p now)
    with s plain show ?thesis by (auto intro: safe_same split: option.split prod.split)
  next
    case (JvOverride spec now)
    with s plain show ?thesis by (auto intro: safe_same split: option.split prod.split)
  next
    case JvOtherScan
    show ?thesis
    proof (cases "jw_active w")
      case None
      with s JvOtherScan show ?thesis by simp
    next
      case (Some i)
      let ?v = "w\<lparr>jw_committed := True\<rparr>"
      have "condemned_in ?v ph = condemned_in w ph" for ph by (cases ph) simp_all
      then have "runs_ok ?v \<and> advances w ?v" by (intro memory_step [OF w]) auto
      with s JvOtherScan Some show ?thesis by (auto intro: safe_same)
    qed
  next
    case JvStop
    let ?v = "w\<lparr>jw_stopping := True, jw_ctx := True\<rparr>"
    have "condemned_in w ph \<Longrightarrow> condemned_in ?v ph" for ph by (cases ph) auto
    then have "runs_ok ?v \<and> advances w ?v" using runs_okD(1, 2, 7) [OF w] by (intro table_step [OF w]) (auto simp: row_is_def)
    with s JvStop show ?thesis by (auto intro: safe_same)
  next
    case (JvRestart now)
    with s restart_keeps show ?thesis by simp
  qed
qed

interpretation jm: machine "first_jobs p" "job_step ck" jobs_safe for p ck
proof
  show "jobs_safe (first_jobs p)"
    by (simp add: jobs_safe_def runs_ok_def first_jobs_def scan_table_ok_def row_is_def scan_job_of_def)
qed (rule job_step_keeps)

section \<open>Properties\<close>

text \<open>
  C14: The table of scan jobs is well formed in every state of every run: identifiers are distinct,
  every row has a trigger, a status and an attempt that the schema allows and names each of its
  files once, no library has two jobs that are queued or running, and a row says running exactly
  when the runner executes that job.
\<close>

theorem scan_jobs_well_formed:
  "let w = run_steps (job_step ck) (first_jobs p) es; js = jw_jobs w in
   distinct (map sj_id js) \<and> distinct (map sj_library (filter job_active js)) \<and> list_all job_row_ok js \<and>
   list_all (\<lambda>j. (sj_status j = ''running'') = (executing (jw_phase w) = Some (sj_id j))) js"
proof -
  define w where "w = run_steps (job_step ck) (first_jobs p) es"
  have ok: "runs_ok w" unfolding w_def by (rule jobs_safeD(1)) (rule jm.ok_reachable)
  have "sj_status j = ''running'' \<longleftrightarrow> executing (jw_phase w) = Some (sj_id j)" if "j \<in> set (jw_jobs w)" for j
    using runs_okD(3) [OF ok, of "sj_id j"] row_member [OF runs_ok_distinct [OF ok] that] by (simp add: row_is_def running_def)
  with runs_okD(1) [OF ok] show ?thesis by (simp add: Let_def scan_table_ok_def list_all_iff flip: w_def)
qed

lemma killed_loses: "killed w i \<Longrightarrow> runs_ok w \<Longrightarrow> i \<notin> set (jw_stored w) \<and> \<not> row_is won w i"
proof -
  assume k: "killed w i" and ok: "runs_ok w"
  have "\<not> row_is won w i" if "condemned w i"
  proof -
    from that have "row_is running w i" using runs_okD(3) [OF ok, of i] by (simp add: condemned_def)
    with status_apart(2) show ?thesis by (fastforce simp: row_is_def job_active_iff)
  qed
  with k show ?thesis by (auto simp: killed_def)
qed

lemma killed_run: "jobs_safe w \<Longrightarrow> killed w i \<Longrightarrow> i \<in> set (jw_acked w) \<Longrightarrow> i \<in> set (jw_acked (run_steps (job_step ck) w es))"
proof (induction es arbitrary: w)
  case (Cons e es)
  have "i \<in> set (jw_acked (job_step ck w e))"
  proof (cases e)
    case (JvCancel t k)
    with Cons.prems(3) show ?thesis by (auto simp: cancel_begin_def set_thread_def split: option.splits)
  next
    case (JvCancelStep t now)
    with Cons.prems(3) show ?thesis
      by (cases "jw_threads w t"; cases "the (jw_threads w t)")
        (auto simp: mark_active_def mark_row_def close_cancel_def tidy_cancelled_def set_thread_def Let_def split: option.splits)
  next
    case (JvRun x)
    with Cons.prems(3) show ?thesis by (cases "jw_phase w") (auto simp: runner_frame)
  qed (use Cons.prems(3) in \<open>auto simp: restart_scheduler_def Let_def split: prod.splits option.splits\<close>)
  moreover have "jobs_safe (job_step ck w e)" by (rule job_step_keeps [OF Cons.prems(1)])
  ultimately show ?case using Cons.IH [of "job_step ck w e"] jobs_safeD(3) by simp
qed simp

text \<open>
  C2: A cancellation that was acknowledged is kept. Once the request to cancel a scan job has been
  answered without an error, nothing that job's scan found is or will be stored in the catalog, and
  the job is and will never be recorded as succeeded, however the request interleaved with the
  queue, the claim and the stages of the run, with other requests, retries and restarts.
\<close>

theorem acknowledged_cancel_holds:
  assumes "i \<in> set (jw_acked (run_steps (job_step ck) (first_jobs p) es))"
  shows "let w = run_steps (job_step ck) (first_jobs p) (es @ es') in
    i \<notin> set (jw_stored w) \<and> (\<forall>j \<in> set (jw_jobs w). sj_id j = i \<longrightarrow> sj_status j \<noteq> ''succeeded'')"
proof -
  define v where "v = run_steps (job_step ck) (first_jobs p) es"
  define w where "w = run_steps (job_step ck) v es'"
  have v: "jobs_safe v" and w: "jobs_safe w" unfolding v_def w_def by (rule jm.ok_reachable jm.ok_run)+
  from assms have a: "i \<in> set (jw_acked v)" by (simp add: v_def)
  from killed_run [OF v jobs_safeD(3) [OF v a] a] have "i \<in> set (jw_acked w)" by (simp add: w_def)
  from killed_loses [OF jobs_safeD(3) [OF w this] jobs_safeD(1) [OF w]]
  have "i \<notin> set (jw_stored w)" and lost: "\<not> row_is won w i" by simp_all
  moreover have "sj_status j \<noteq> ''succeeded''" if "j \<in> set (jw_jobs w)" "sj_id j = i" for j
    using row_member [OF runs_ok_distinct [OF jobs_safeD(1) [OF w]] that(1)] that(2) lost by (auto simp: row_is_def won_def)
  ultimately show ?thesis by (simp add: run_steps_append w_def v_def Let_def)
qed

definition sample_store :: policy_store where
  "sample_store = \<lparr>py_libraries = [''f''], py_rows = [], py_exclusions = [], py_override = ''''\<rparr>"

definition sample_clock :: clockwork where
  "sample_clock = \<lparr>ck_zones = (\<lambda>_. None), ck_duration = (\<lambda>_. None)\<rparr>"

definition sample_input :: run_input where
  "sample_input = \<lparr>ri_now = 5, ri_id = ''r'', ri_error = NoScanError, ri_commits = True,
     ri_status = \<lparr>ss_status = ''complete'', ss_total = None, ss_scanned = 1, ss_skipped = 0, ss_failed = 0, ss_unmatched = 0,
       ss_message = ''''\<rparr>, ri_rows = [], ri_location = '''', ri_db_ok = True\<rparr>"

text \<open>A job is claimed; the cancellation puts down its intent; the run begins, and takes it.\<close>

definition sample_cancel :: "job_event list" where
  "sample_cancel = [JvQueue ''f'' ''manual'' ''i'' 1, JvRun sample_input, JvCancel 0 ''i'', JvRun sample_input,
     JvCancelStep 0 6, JvCancelStep 0 7]"

lemma sample_acked: "''i'' \<in> set (jw_acked (run_steps (job_step sample_clock) (first_jobs sample_store) sample_cancel))"
  by (simp add: sample_cancel_def sample_store_def sample_input_def first_jobs_def queue_scan_def scan_triggers_def
      active_job_of_def insert_scan_job_def scan_job_of_def new_job_def claim_scan_job_def first_due_def Let_def
      change_job_def cancel_begin_def begin_job_def set_thread_def mark_row_def close_cancel_def is_active_def job_active_def)

theorem acknowledged_cancel_holds_witness:
  "''i'' \<notin> set (jw_stored (run_steps (job_step sample_clock) (first_jobs sample_store)
     (sample_cancel @ [JvRun sample_input, JvRun sample_input, JvRun sample_input, JvRun sample_input])))"
  using acknowledged_cancel_holds [OF sample_acked, where es' = "[JvRun sample_input, JvRun sample_input, JvRun sample_input, JvRun sample_input]"]
  by (simp add: Let_def)

text \<open>
  A scan that needs a review ends its job as failed, and has it retried: the branch of the code
  that calls it partial comes after the one for errors, and the scan answers the review as an error.
\<close>

lemma review_counts_as_failure:
  "fst (job_verdict False ReviewNeeded st) = ''failed''"
  by (simp add: job_verdict_def)

end
