(* ===== verification/Viewer.thy ===== *)
theory Viewer
  imports Access Base64 Libraries
begin

text \<open>
  Browsing the catalog (backend/catalog/viewer.go, viewer_policy_sql.go, and the policy inputs of
  access.go): the shelf of films and series a profile sees, its sections, its pages and their
  cursors, and what a profile keeps on its titles. The tables are lists of rows; a query is a
  function on them, its ORDER BY a sort by the key of its columns. SHA-256 and JSON are arguments.
  The titles the catalog keeps in memory, which the policy inputs of a single title are taken from,
  are those of the tables, and titles are valid UTF-8.
\<close>

datatype viewer_error = NotInCatalog | InvalidViewerMode | InvalidViewerPage | ViewDenied | PolicyUnreadable

text \<open>
  A row of the items or of the series; a film has no series, a series row neither series nor
  season. The columns that are only shown (synopsis, artwork, provider) are left out.
\<close>

record title_row =
  tr_id :: string
  tr_kind :: string
  tr_title :: string
  tr_year :: int
  tr_genres :: "string list"
  tr_added :: int
  tr_playable :: bool
  tr_series :: string
  tr_season :: int
  tr_merged :: string

record view_preference =
  vp_view :: string
  vp_sort :: string

record viewer_db =
  vd_items :: "title_row list"
  vd_series :: "title_row list"
  vd_film_members :: "string list"
  vd_series_members :: "string list"
  vd_progress :: "(string \<times> string, int \<times> bool) gomap"
  vd_film_list :: "(string \<times> string, int) gomap"
  vd_series_list :: "(string \<times> string, int) gomap"
  vd_dismissed :: "(string \<times> string \<times> string, int) gomap"
  vd_preferences :: "(string \<times> string, view_preference) gomap"
  vd_physical :: "physical_row list"
  vd_locations :: "location_row list"
  vd_fields :: "(string \<times> string \<times> string, string) gomap"

record viewer_item =
  vi_id :: string
  vi_kind :: string
  vi_title :: string
  vi_year :: int
  vi_genres :: "string list"
  vi_added :: int
  vi_playable :: bool
  vi_last :: int
  vi_listed :: int
  vi_completed :: bool
  vi_dismissed :: bool

record viewer_cursor =
  vc_version :: int
  vc_profile :: string
  vc_policy :: string
  vc_media :: string
  vc_section :: string
  vc_view :: string
  vc_sort :: string
  vc_text :: string
  vc_number :: int
  vc_id :: string
  vc_kind :: string
  vc_start :: bool

text \<open>SHA-256 in hexadecimal, the JSON of a policy and of a cursor, and their readers.\<close>

record viewer_env =
  vn_hash :: "string \<Rightarrow> string"
  vn_policy_json :: "policy \<Rightarrow> string"
  vn_policy_of :: "string \<Rightarrow> policy option"
  vn_marshal :: "viewer_cursor \<Rightarrow> string"
  vn_unmarshal :: "string \<Rightarrow> viewer_cursor option"

section \<open>Preferences and lists\<close>

definition valid_media :: "string \<Rightarrow> bool" where
  "valid_media m \<longleftrightarrow> m = ''all'' \<or> m = ''film'' \<or> m = ''series''"

definition valid_preference :: "view_preference \<Rightarrow> bool" where
  "valid_preference p \<longleftrightarrow> (vp_view p = ''rows'' \<or> vp_view p = ''grid'') \<and>
     (vp_sort p = ''title'' \<or> vp_sort p = ''year'' \<or> vp_sort p = ''added'' \<or> vp_sort p = ''watched'')"

definition plain_preference :: view_preference where
  "plain_preference = \<lparr>vp_view = ''rows'', vp_sort = ''title''\<rparr>"

text \<open>Asking for a preference stores the default one when there is none.\<close>

definition preference :: "string \<Rightarrow> string \<Rightarrow> viewer_db \<Rightarrow> viewer_db \<times> (viewer_error, view_preference) result" where
  "preference profile m d =
    (if profile = '''' \<or> \<not> valid_media m then (d, Inl InvalidViewerMode)
     else (case map_of (vd_preferences d) (profile, m) of
         Some p \<Rightarrow> (d, Inr p)
       | None \<Rightarrow> (d\<lparr>vd_preferences := AList.update (profile, m) plain_preference (vd_preferences d)\<rparr>, Inr plain_preference)))"

definition save_preference :: "string \<Rightarrow> string \<Rightarrow> view_preference \<Rightarrow> viewer_db \<Rightarrow>
    viewer_db \<times> (viewer_error, view_preference) result" where
  "save_preference profile m p d =
    (if profile = '''' \<or> \<not> valid_media m \<or> \<not> valid_preference p then (d, Inl InvalidViewerMode)
     else (d\<lparr>vd_preferences := AList.update (profile, m) p (vd_preferences d)\<rparr>, Inr p))"

definition title_kind :: "string \<Rightarrow> bool" where
  "title_kind k \<longleftrightarrow> k = ''film'' \<or> k = ''series''"

definition set_listed :: "int \<Rightarrow> string \<Rightarrow> string \<Rightarrow> string \<Rightarrow> bool \<Rightarrow> viewer_db \<Rightarrow> viewer_db \<times> viewer_error option" where
  "set_listed now profile kind i listed d =
    (if profile = '''' \<or> i = '''' \<or> \<not> title_kind kind then (d, Some NotInCatalog)
     else if kind = ''series''
     then (if i \<notin> tr_id ` set (vd_series d) then (d, Some NotInCatalog)
           else (d\<lparr>vd_series_list := (if \<not> listed then AList.delete (profile, i) (vd_series_list d)
             else if has_key (vd_series_list d) (profile, i) then vd_series_list d
             else AList.update (profile, i) now (vd_series_list d))\<rparr>, None))
     else (if \<not> (\<exists>r \<in> set (vd_items d). tr_id r = i \<and> tr_kind r = ''film'' \<and> tr_series r = '''') then (d, Some NotInCatalog)
           else (d\<lparr>vd_film_list := (if \<not> listed then AList.delete (profile, i) (vd_film_list d)
             else if has_key (vd_film_list d) (profile, i) then vd_film_list d
             else AList.update (profile, i) now (vd_film_list d))\<rparr>, None)))"

definition set_dismissed :: "int \<Rightarrow> string \<Rightarrow> string \<Rightarrow> string \<Rightarrow> bool \<Rightarrow> viewer_db \<Rightarrow> viewer_db \<times> viewer_error option" where
  "set_dismissed now profile kind i dismissed d =
    (if profile = '''' \<or> i = '''' \<or> \<not> title_kind kind then (d, Some NotInCatalog)
     else if \<not> (if kind = ''series'' then (\<exists>r \<in> set (vd_series d). tr_id r = i \<and> tr_merged r = '''')
          else (\<exists>r \<in> set (vd_items d). tr_id r = i \<and> tr_kind r = ''film'' \<and> tr_series r = '''' \<and> tr_merged r = ''''))
     then (d, Some NotInCatalog)
     else (d\<lparr>vd_dismissed := (if dismissed then AList.update (profile, kind, i) now (vd_dismissed d)
             else AList.delete (profile, kind, i) (vd_dismissed d))\<rparr>, None))"

definition accept_continue_watching :: "string \<Rightarrow> string \<Rightarrow> bool \<Rightarrow> viewer_db \<Rightarrow> viewer_db \<times> viewer_error option" where
  "accept_continue_watching profile i initiated d =
    (if \<not> initiated then (d, None)
     else if profile = '''' \<or> i = '''' then (d, Some NotInCatalog)
     else (case find (\<lambda>r. tr_id r = i \<and> tr_merged r = '''') (vd_items d) of
         None \<Rightarrow> (d, Some NotInCatalog)
       | Some r \<Rightarrow>
          if tr_kind r = ''episode'' \<and> tr_series r \<noteq> ''''
          then (d\<lparr>vd_dismissed := AList.delete (profile, ''series'', tr_series r) (vd_dismissed d)\<rparr>, None)
          else if tr_kind r \<noteq> ''film'' \<or> tr_series r \<noteq> '''' then (d, Some NotInCatalog)
          else (d\<lparr>vd_dismissed := AList.delete (profile, ''film'', i) (vd_dismissed d)\<rparr>, None)))"

definition watched_items :: "string \<Rightarrow> string \<Rightarrow> int \<Rightarrow> viewer_db \<Rightarrow> (viewer_error, string list) result" where
  "watched_items kind i season d =
    (let found = (if kind = ''film'' \<or> kind = ''episode'' then filter (\<lambda>r. tr_id r = i \<and> tr_kind r = kind) (vd_items d)
         else if kind = ''series'' then filter (\<lambda>r. tr_series r = i) (vd_items d)
         else if kind = ''season'' \<and> 1 \<le> season then filter (\<lambda>r. tr_series r = i \<and> tr_season r = season) (vd_items d)
         else [])
     in if i = '''' \<or> found = [] then Inl NotInCatalog else Inr (map tr_id found))"

section \<open>The shelf of a profile\<close>

definition film_item :: "viewer_db \<Rightarrow> string \<Rightarrow> title_row \<Rightarrow> viewer_item" where
  "film_item d profile r =
    (let (at, completed) = get_or (0, False) (vd_progress d) (profile, tr_id r) in
     \<lparr>vi_id = tr_id r, vi_kind = ''film'', vi_title = tr_title r, vi_year = tr_year r, vi_genres = tr_genres r,
      vi_added = tr_added r, vi_playable = tr_playable r, vi_last = at,
      vi_listed = get_or 0 (vd_film_list d) (profile, tr_id r), vi_completed = completed,
      vi_dismissed = has_key (vd_dismissed d) (profile, ''film'', tr_id r)\<rparr>)"

text \<open>A series was watched last when any of its episodes was, and is completed when all of them are.\<close>

definition series_progress :: "viewer_db \<Rightarrow> string \<Rightarrow> string \<Rightarrow> int \<times> bool" where
  "series_progress d profile i =
    (case map (\<lambda>r. get_or (0, False) (vd_progress d) (profile, tr_id r)) (filter (\<lambda>r. tr_series r = i \<and> i \<noteq> '''') (vd_items d)) of
       [] \<Rightarrow> (0, False)
     | p # ps \<Rightarrow> (fold (\<lambda>q n. max (fst q) n) ps (fst p), list_all snd (p # ps)))"

definition series_item :: "viewer_db \<Rightarrow> string \<Rightarrow> title_row \<Rightarrow> viewer_item" where
  "series_item d profile r =
    (let (at, completed) = series_progress d profile (tr_id r) in
     \<lparr>vi_id = tr_id r, vi_kind = ''series'', vi_title = tr_title r, vi_year = tr_year r, vi_genres = tr_genres r,
      vi_added = tr_added r, vi_playable = tr_playable r, vi_last = at,
      vi_listed = get_or 0 (vd_series_list d) (profile, tr_id r), vi_completed = completed,
      vi_dismissed = has_key (vd_dismissed d) (profile, ''series'', tr_id r)\<rparr>)"

definition shelf_films :: "viewer_db \<Rightarrow> title_row list" where
  "shelf_films d = filter (\<lambda>r. tr_series r = '''' \<and> tr_merged r = '''' \<and> tr_id r \<notin> set (vd_film_members d)) (vd_items d)"

definition shelf_series :: "viewer_db \<Rightarrow> title_row list" where
  "shelf_series d = filter (\<lambda>r. tr_merged r = '''' \<and> tr_id r \<notin> set (vd_series_members d)) (vd_series d)"

definition shelf :: "viewer_db \<Rightarrow> string \<Rightarrow> viewer_item list" where
  "shelf d profile = map (film_item d profile) (shelf_films d) @ map (series_item d profile) (shelf_series d)"

section \<open>The policy\<close>

definition locations_of :: "viewer_db \<Rightarrow> (string \<Rightarrow> bool) \<Rightarrow> string list" where
  "locations_of d P =
    remdups (concat (map (\<lambda>f. map lr_library (filter (\<lambda>l. lr_id l = pf_location f) (vd_locations d)))
      (filter (\<lambda>f. P (pf_catalog f) \<and> pf_present f) (vd_physical d))))"

definition title_libraries :: "viewer_db \<Rightarrow> string \<Rightarrow> string \<Rightarrow> string list" where
  "title_libraries d kind i =
    (if kind = ''series''
     then locations_of d (\<lambda>c. \<exists>r \<in> set (vd_items d). tr_id r = c \<and> tr_series r = i \<and> tr_merged r = '''')
     else locations_of d (\<lambda>c. c = i))"

definition tag_list :: "string \<Rightarrow> string list" where
  "tag_list value = filter (\<lambda>t. t \<noteq> '''') (map trim_space (split_at (CHR 0x2C) value))"

definition field_of :: "viewer_db \<Rightarrow> string \<Rightarrow> string \<Rightarrow> string \<Rightarrow> string" where
  "field_of d kind i field = get_or '''' (vd_fields d) (kind, i, field)"

text \<open>What the function that SQL calls gets for a row, and its answer.\<close>

definition viewer_content :: "viewer_db \<Rightarrow> viewer_item \<Rightarrow> content" where
  "viewer_content d v =
    \<lparr>co_library_ids = title_libraries d (vi_kind v) (vi_id v), co_rating = field_of d (vi_kind v) (vi_id v) ''content_rating'',
     co_tags = vi_genres v @ tag_list (field_of d (vi_kind v) (vi_id v) ''tags'')\<rparr>"

definition viewer_allowed :: "viewer_env \<Rightarrow> viewer_db \<Rightarrow> string \<Rightarrow> viewer_item \<Rightarrow> bool" where
  "viewer_allowed env d encoded v =
    (case vn_policy_of env encoded of None \<Rightarrow> False | Some p \<Rightarrow> allows p (viewer_content d v))"

definition policy_admits :: "viewer_env \<Rightarrow> viewer_db \<Rightarrow> policy \<Rightarrow> viewer_item \<Rightarrow> bool" where
  "policy_admits env d p v \<longleftrightarrow> \<not> restricted p \<or> viewer_allowed env d (vn_policy_json env p) v"

text \<open>\<open>AccessContent\<close>: the policy inputs of a single title, which playback is decided by.\<close>

definition access_content :: "viewer_db \<Rightarrow> string \<Rightarrow> string \<Rightarrow> content option" where
  "access_content d kind i =
    (case (if i = '''' then None
           else if kind = ''series'' then map_option (\<lambda>r. (tr_genres r, ''series'', i)) (find (\<lambda>r. tr_id r = i) (vd_series d))
           else if kind = ''film'' \<or> kind = ''episode''
           then (case find (\<lambda>r. tr_id r = i) (vd_items d) of
               None \<Rightarrow> None
             | Some r \<Rightarrow> if tr_kind r \<noteq> kind then None
                 else Some (tr_genres r, if kind = ''episode'' then (''series'', tr_series r) else (kind, i)))
           else None) of
       None \<Rightarrow> None
     | Some (genres, mkind, mid) \<Rightarrow>
        Some (if mid = '''' then \<lparr>co_library_ids = sort (title_libraries d kind i), co_rating = '''', co_tags = genres\<rparr>
          else \<lparr>co_library_ids = sort (title_libraries d kind i), co_rating = trim_space (field_of d mkind mid ''content_rating''),
                co_tags = genres @ tag_list (field_of d mkind mid ''tags'')\<rparr>))"

definition viewer_item_state :: "viewer_db \<Rightarrow> string \<Rightarrow> string \<Rightarrow> string \<Rightarrow> policy \<Rightarrow> (viewer_error, bool \<times> bool) result" where
  "viewer_item_state d profile kind i p =
    (if profile = '''' \<or> i = '''' \<or> \<not> title_kind kind then Inl NotInCatalog
     else (case access_content d kind i of
         None \<Rightarrow> Inl NotInCatalog
       | Some c \<Rightarrow>
          if \<not> allows p c then Inl ViewDenied
          else Inr (has_key (if kind = ''series'' then vd_series_list d else vd_film_list d) (profile, i),
                    has_key (vd_dismissed d) (profile, kind, i))))"

section \<open>Sections and pages\<close>

definition section_sort :: "string \<Rightarrow> string" where
  "section_sort name =
    (if name = ''Continue Watching'' then ''watched'' else if name = ''New'' then ''added''
     else if name = ''My List'' then ''list'' else ''title'')"

definition in_section :: "string \<Rightarrow> viewer_item \<Rightarrow> bool" where
  "in_section name v \<longleftrightarrow>
     (if name = '''' \<or> name = ''New'' then True
      else if name = ''Continue Watching'' then 0 < vi_last v \<and> \<not> vi_completed v \<and> \<not> vi_dismissed v
      else if name = ''My List'' then 0 < vi_listed v
      else name \<in> set (vi_genres v))"

definition title_key :: "string \<Rightarrow> string" where
  "title_key t = to_lower t"

definition order_number :: "string \<Rightarrow> viewer_item \<Rightarrow> int" where
  "order_number mode v =
    (if mode = ''year'' then vi_year v else if mode = ''added'' then vi_added v else if mode = ''list'' then vi_listed v
     else if mode = ''watched'' then vi_last v else 0)"

definition order_text :: "string \<Rightarrow> viewer_item \<Rightarrow> string" where
  "order_text mode v = (if mode = ''added'' \<or> mode = ''list'' \<or> mode = ''watched'' then '''' else title_key (vi_title v))"

text \<open>The condition that a cursor adds to the query; numbers go down, texts and identifiers up.\<close>

definition past_cursor :: "string \<Rightarrow> viewer_cursor \<Rightarrow> viewer_item \<Rightarrow> bool" where
  "past_cursor mode c v \<longleftrightarrow>
     (let n = order_number mode v; t = order_text mode v; i = vi_id v;
          same = vc_id c < i \<or> i = vc_id c \<and> vc_kind c < vi_kind v in
      if mode = ''title'' then vc_text c < t \<or> t = vc_text c \<and> same
      else if mode = ''year'' then n < vc_number c \<or> n = vc_number c \<and> (vc_text c < t \<or> t = vc_text c \<and> same)
      else n < vc_number c \<or> n = vc_number c \<and> same)"

text \<open>The ORDER BY of the query.\<close>

definition page_key :: "string \<Rightarrow> viewer_item \<Rightarrow> int \<times> string \<times> string \<times> string" where
  "page_key mode v = (- order_number mode v, order_text mode v, vi_id v, vi_kind v)"

definition empty_cursor :: viewer_cursor where
  "empty_cursor = \<lparr>vc_version = 0, vc_profile = '''', vc_policy = '''', vc_media = '''', vc_section = '''', vc_view = '''',
     vc_sort = '''', vc_text = '''', vc_number = 0, vc_id = '''', vc_kind = '''', vc_start = False\<rparr>"

definition next_cursor :: "string \<Rightarrow> viewer_cursor \<Rightarrow> viewer_item \<Rightarrow> viewer_cursor" where
  "next_cursor mode binding v =
    binding\<lparr>vc_id := vi_id v, vc_kind := vi_kind v,
      vc_number := (if mode = ''title'' then vc_number binding else order_number mode v),
      vc_text := (if mode = ''title'' \<or> mode = ''year'' then title_key (vi_title v) else vc_text binding)\<rparr>"

definition encode_cursor :: "viewer_env \<Rightarrow> viewer_cursor \<Rightarrow> string" where
  "encode_cursor env c = b64_encode (vn_marshal env c)"

definition same_binding :: "viewer_cursor \<Rightarrow> viewer_cursor \<Rightarrow> bool" where
  "same_binding c b \<longleftrightarrow> vc_version c = vc_version b \<and> vc_profile c = vc_profile b \<and> vc_policy c = vc_policy b \<and>
     vc_media c = vc_media b \<and> vc_section c = vc_section b \<and> vc_view c = vc_view b \<and> vc_sort c = vc_sort b"

definition decode_viewer_cursor :: "viewer_env \<Rightarrow> string \<Rightarrow> viewer_cursor \<Rightarrow> (viewer_error, viewer_cursor) result" where
  "decode_viewer_cursor env encoded binding =
    (if encoded = '''' then Inr empty_cursor
     else (case Option.bind (b64_decode encoded) (vn_unmarshal env) of
         None \<Rightarrow> Inl InvalidViewerPage
       | Some c \<Rightarrow>
          if \<not> same_binding c binding \<or> \<not> vc_start c \<and> (vc_id c = '''' \<or> \<not> title_kind (vc_kind c))
          then Inl InvalidViewerPage else Inr c))"

definition page_rows :: "viewer_env \<Rightarrow> viewer_db \<Rightarrow> string \<Rightarrow> string \<Rightarrow> string \<Rightarrow> policy \<Rightarrow> viewer_item list" where
  "page_rows env d profile m name p =
    filter (\<lambda>v. (m = ''all'' \<or> vi_kind v = m) \<and> policy_admits env d p v \<and> in_section name v) (shelf d profile)"

definition page_items :: "viewer_env \<Rightarrow> viewer_db \<Rightarrow> string \<Rightarrow> string \<Rightarrow> string \<Rightarrow> string \<Rightarrow> viewer_cursor \<Rightarrow> viewer_cursor \<Rightarrow>
    nat \<Rightarrow> policy \<Rightarrow> viewer_item list \<times> string" where
  "page_items env d profile m name mode c binding limit p =
    (let rows = filter (\<lambda>v. vc_id c = '''' \<or> past_cursor mode c v) (page_rows env d profile m name p);
         items = take (limit + 1) (sort_key (page_key mode) rows)
     in if length items \<le> limit then (items, '''')
        else (take limit items, encode_cursor env (next_cursor mode binding (items ! (limit - 1)))))"

definition maxViewerPageSize :: nat where "maxViewerPageSize = 100"

definition genre_key :: "string \<Rightarrow> string \<times> string" where
  "genre_key g = (to_lower g, g)"

definition viewer_genres :: "viewer_env \<Rightarrow> viewer_db \<Rightarrow> string \<Rightarrow> string \<Rightarrow> policy \<Rightarrow> string list" where
  "viewer_genres env d profile m p =
    take maxViewerPageSize (sort_key genre_key
      (remdups (filter (\<lambda>g. g \<noteq> '''') (concat (map vi_genres (page_rows env d profile m '''' p))))))"

record viewer_section =
  vs_name :: string
  vs_items :: "viewer_item list"
  vs_next :: string

record viewer_model =
  vm_preference :: view_preference
  vm_sections :: "viewer_section list"
  vm_items :: "viewer_item list"
  vm_next :: string

definition page_binding :: "viewer_env \<Rightarrow> string \<Rightarrow> string \<Rightarrow> string \<Rightarrow> view_preference \<Rightarrow> policy \<Rightarrow> viewer_cursor" where
  "page_binding env profile m name pref p =
    empty_cursor\<lparr>vc_version := 1, vc_profile := vn_hash env profile, vc_policy := vn_hash env (vn_policy_json env p),
      vc_media := m, vc_section := name, vc_view := vp_view pref, vc_sort := vp_sort pref\<rparr>"

definition row_section :: "viewer_env \<Rightarrow> viewer_db \<Rightarrow> string \<Rightarrow> string \<Rightarrow> view_preference \<Rightarrow> nat \<Rightarrow> policy \<Rightarrow> string \<Rightarrow> viewer_section" where
  "row_section env d profile m pref limit p name =
    (let (items, more) = page_items env d profile m name (section_sort name) empty_cursor (page_binding env profile m name pref p) limit p
     in \<lparr>vs_name = name, vs_items = items, vs_next = more\<rparr>)"

definition genre_section :: "viewer_env \<Rightarrow> string \<Rightarrow> string \<Rightarrow> view_preference \<Rightarrow> policy \<Rightarrow> string \<Rightarrow> viewer_section" where
  "genre_section env profile m pref p name =
    \<lparr>vs_name = name, vs_items = [], vs_next = encode_cursor env ((page_binding env profile m name pref p)\<lparr>vc_start := True\<rparr>)\<rparr>"

definition page_model :: "viewer_env \<Rightarrow> viewer_db \<Rightarrow> string \<Rightarrow> string \<Rightarrow> string \<Rightarrow> view_preference \<Rightarrow> viewer_cursor \<Rightarrow> nat \<Rightarrow> policy \<Rightarrow> viewer_model" where
  "page_model env d profile m name pref c limit p =
    (let binding = page_binding env profile m name pref p in
     if vp_view pref = ''grid''
     then (let (items, more) = page_items env d profile m '''' (vp_sort pref) c binding limit p
       in \<lparr>vm_preference = pref, vm_sections = [], vm_items = items, vm_next = more\<rparr>)
     else if name \<noteq> ''''
     then (let (items, more) = page_items env d profile m name (section_sort name) c binding limit p
       in \<lparr>vm_preference = pref, vm_sections = [\<lparr>vs_name = name, vs_items = items, vs_next = more\<rparr>], vm_items = [], vm_next = more\<rparr>)
     else \<lparr>vm_preference = pref,
         vm_sections = map (row_section env d profile m pref limit p) [''Continue Watching'', ''New'', ''My List''] @
           map (genre_section env profile m pref p) (viewer_genres env d profile m p),
         vm_items = [], vm_next = ''''\<rparr>)"

text \<open>The function that the query calls fails when it cannot read the policy, and the query with it.\<close>

definition unreadable :: "viewer_env \<Rightarrow> viewer_db \<Rightarrow> string \<Rightarrow> string \<Rightarrow> policy \<Rightarrow> bool" where
  "unreadable env d profile m p \<longleftrightarrow> restricted p \<and> vn_policy_of env (vn_policy_json env p) = None \<and>
     (\<exists>v \<in> set (shelf d profile). m = ''all'' \<or> vi_kind v = m)"

definition viewer_page :: "viewer_env \<Rightarrow> viewer_db \<Rightarrow> string \<Rightarrow> string \<Rightarrow> string \<Rightarrow> string \<Rightarrow> int \<Rightarrow> policy \<Rightarrow>
    viewer_db \<times> (viewer_error, viewer_model) result" where
  "viewer_page env d profile m name encoded limit p =
    (if profile = '''' \<or> \<not> valid_media m \<or> limit < 1 \<or> int maxViewerPageSize < limit then (d, Inl InvalidViewerPage)
     else (case preference profile m d of
         (d', Inl e) \<Rightarrow> (d', Inl e)
       | (d', Inr pref) \<Rightarrow>
          (d', (case decode_viewer_cursor env encoded (page_binding env profile m name pref p) of
             Inl e \<Rightarrow> Inl e
           | Inr c \<Rightarrow>
              if unreadable env d' profile m p then Inl PolicyUnreadable
              else Inr (page_model env d' profile m name pref c (nat limit) p)))))"

section \<open>The listing decides as playback does\<close>

lemma allows_cong:
  assumes "set (co_library_ids c) = set (co_library_ids c')" and "trim_space (co_rating c) = trim_space (co_rating c')"
    and "co_tags c = co_tags c'"
  shows "allows p c = allows p c'"
  unfolding allows_def rating_allowed_def by (simp add: assms intersects_iff)

text \<open>A catalog as the scanner keeps it: distinct identifiers, none of them empty, and a title without a series is a film.\<close>

definition shelf_ok :: "viewer_db \<Rightarrow> bool" where
  "shelf_ok d \<longleftrightarrow> distinct (map tr_id (vd_items d)) \<and> distinct (map tr_id (vd_series d)) \<and>
     '''' \<notin> tr_id ` set (vd_items d) \<union> tr_id ` set (vd_series d) \<and>
     (\<forall>r \<in> set (vd_items d). tr_series r = '''' \<longrightarrow> tr_kind r = ''film'')"

lemma find_row: "distinct (map tr_id rs) \<Longrightarrow> r \<in> set rs \<Longrightarrow> find (\<lambda>x. tr_id x = tr_id r) rs = Some r"
  by (induction rs) (auto simp: image_iff)

lemma shelf_content:
  assumes ok: "shelf_ok d" and v: "v \<in> set (shelf d profile)"
  shows "\<exists>c. access_content d (vi_kind v) (vi_id v) = Some c \<and> (\<forall>p. allows p c = allows p (viewer_content d v))"
proof -
  let ?c = "\<lambda>kind r. \<lparr>co_library_ids = sort (title_libraries d kind (tr_id r)),
      co_rating = trim_space (field_of d kind (tr_id r) ''content_rating''),
      co_tags = tr_genres r @ tag_list (field_of d kind (tr_id r) ''tags'')\<rparr>"
  from v consider r where "r \<in> set (shelf_films d)" "v = film_item d profile r"
    | r where "r \<in> set (shelf_series d)" "v = series_item d profile r"
    by (auto simp: shelf_def)
  then show ?thesis
  proof cases
    case 1
    then have r: "r \<in> set (vd_items d)" "tr_series r = ''''" by (auto simp: shelf_films_def)
    with ok have kind: "tr_kind r = ''film''" and row: "find (\<lambda>x. tr_id x = tr_id r) (vd_items d) = Some r"
      by (simp_all add: shelf_ok_def find_row)
    have "tr_id r \<in> tr_id ` set (vd_items d)" using r(1) by (rule imageI)
    with ok have "tr_id r \<noteq> ''''" by (auto simp: shelf_ok_def simp del: image_iff)
    with kind row have "access_content d ''film'' (tr_id r) = Some (?c ''film'' r)" by (simp add: access_content_def)
    moreover have "allows p (?c ''film'' r) = allows p (viewer_content d v)" for p
      by (rule allows_cong) (simp_all add: 1 viewer_content_def film_item_def trim_space_fix split: prod.split)
    ultimately show ?thesis by (intro exI [of _ "?c ''film'' r"]) (simp add: 1 film_item_def split: prod.split)
  next
    case 2
    then have r: "r \<in> set (vd_series d)" by (auto simp: shelf_series_def)
    with ok have row: "find (\<lambda>x. tr_id x = tr_id r) (vd_series d) = Some r" by (simp add: shelf_ok_def find_row)
    have "tr_id r \<in> tr_id ` set (vd_series d)" using r by (rule imageI)
    with ok have "tr_id r \<noteq> ''''" by (auto simp: shelf_ok_def simp del: image_iff)
    with row have "access_content d ''series'' (tr_id r) = Some (?c ''series'' r)" by (simp add: access_content_def)
    moreover have "allows p (?c ''series'' r) = allows p (viewer_content d v)" for p
      by (rule allows_cong) (simp_all add: 2 viewer_content_def series_item_def trim_space_fix split: prod.split)
    ultimately show ?thesis by (intro exI [of _ "?c ''series'' r"]) (simp add: 2 series_item_def split: prod.split)
  qed
qed

end
