(* ===== verification/ViewerProps.thy ===== *)
theory ViewerProps
  imports Viewer Paging
begin

text \<open>
  What browsing shows. The pages of the grid and of a section are an instance of the pager
  interface, their cursors the sealed keys of their last titles, and the condition that a cursor
  adds to the query is the order of those keys.
\<close>

section \<open>Pages as cuts\<close>

definition title_slice :: "string \<Rightarrow> viewer_item list \<Rightarrow> nat \<Rightarrow> (int \<times> string \<times> string \<times> string) option \<Rightarrow>
    viewer_item list \<times> (int \<times> string \<times> string \<times> string) option" where
  "title_slice mode rows limit c =
    (let items = take (limit + 1) (sort_key (page_key mode)
           (filter (\<lambda>v. case c of None \<Rightarrow> True | Some k \<Rightarrow> k < page_key mode v) rows))
     in if length items \<le> limit then (items, None) else (take limit items, Some (page_key mode (items ! (limit - 1)))))"

lemma title_slice_cut:
  assumes "0 < limit"
  shows "title_slice mode rows limit c = cut_page (page_key mode) limit
    (filter (\<lambda>v. case c of None \<Rightarrow> True | Some k \<Rightarrow> k < page_key mode v) (sort_key (page_key mode) rows))"
  using assms by (auto simp: title_slice_def cut_page_def filter_sort Let_def)

interpretation title_pages: pager "page_key mode" "(<)" "sort_key (page_key mode)" "\<lambda>_. True" "title_slice mode" for mode
proof
  show "k < l \<Longrightarrow> \<not> l < k" for k l :: "int \<times> string \<times> string \<times> string" by simp
  show "sorted_wrt (\<lambda>x y. page_key mode x < page_key mode y) (sort_key (page_key mode) xs)"
    if "distinct (map (page_key mode) xs)" for xs
  proof -
    have "distinct (map (page_key mode) (sort_key (page_key mode) xs))" using that by (simp add: distinct_map)
    then have "sorted_wrt (<) (map (page_key mode) (sort_key (page_key mode) xs))" by (simp add: strict_sorted_iff)
    then show ?thesis by (simp add: sorted_wrt_map)
  qed
qed (simp_all add: title_slice_cut)

section \<open>Cursors as keys\<close>

text \<open>The cursor of a key, for the bindings a page has: no number, no text, no title.\<close>

definition seal_key :: "string \<Rightarrow> viewer_cursor \<Rightarrow> int \<times> string \<times> string \<times> string \<Rightarrow> viewer_cursor" where
  "seal_key mode b k = (case k of (n, t, i, kind) \<Rightarrow> b\<lparr>vc_id := i, vc_kind := kind, vc_number := - n, vc_text := t\<rparr>)"

definition sort_modes :: "string list" where
  "sort_modes = [''title'', ''year'', ''added'', ''list'', ''watched'']"

lemma next_cursor_key:
  assumes "mode \<in> set sort_modes" and "vc_number b = 0" and "vc_text b = ''''"
  shows "next_cursor mode b v = seal_key mode b (page_key mode v)"
  using assms by (auto simp: sort_modes_def next_cursor_def seal_key_def page_key_def order_number_def order_text_def)

lemma past_cursor_modes:
  assumes "mode \<in> set sort_modes"
  shows "past_cursor mode c v =
    (let n = order_number mode v; t = order_text mode v; same = vc_id c < vi_id v \<or> vi_id v = vc_id c \<and> vc_kind c < vi_kind v
     in if mode = ''title'' \<or> mode = ''year''
        then (mode = ''year'' \<and> n < vc_number c) \<or> (mode = ''year'' \<longrightarrow> n = vc_number c) \<and> (vc_text c < t \<or> t = vc_text c \<and> same)
        else n < vc_number c \<or> n = vc_number c \<and> same)"
  unfolding past_cursor_def by (cases "mode = ''title''"; cases "mode = ''year''") (simp_all add: Let_def)

lemma order_title: "order_number ''title'' v = 0"
  by (simp add: order_number_def)

lemma order_untitled: "mode \<in> set sort_modes \<Longrightarrow> \<not> (mode = ''title'' \<or> mode = ''year'') \<Longrightarrow> order_text mode v = ''''"
  by (auto simp: order_text_def sort_modes_def)

lemma past_cursor_key:
  assumes "mode \<in> set sort_modes"
  shows "past_cursor mode (seal_key mode b (page_key mode w)) v \<longleftrightarrow> page_key mode w < page_key mode v"
proof (cases "mode = ''title'' \<or> mode = ''year''")
  case True
  have title: "mode \<noteq> ''year'' \<Longrightarrow> order_number mode x = 0" for x using True order_title by blast
  show ?thesis
    unfolding past_cursor_modes [OF assms] seal_key_def page_key_def Let_def
    using True title [of v] title [of w] by (cases "mode = ''year''") auto
next
  case False
  then show ?thesis
    unfolding past_cursor_modes [OF assms] seal_key_def page_key_def Let_def
    using order_untitled [OF assms False] by auto
qed

text \<open>The keys of a shelf tell its titles apart.\<close>

lemma vi_of_items [simp]:
  "vi_id (film_item d profile r) = tr_id r" "vi_kind (film_item d profile r) = ''film''"
  "vi_id (series_item d profile r) = tr_id r" "vi_kind (series_item d profile r) = ''series''"
  by (simp_all add: film_item_def series_item_def split: prod.split)

lemma shelf_distinct:
  assumes "shelf_ok d"
  shows "distinct (map (\<lambda>v. (vi_id v, vi_kind v)) (shelf d profile))"
proof -
  have "distinct (map tr_id (shelf_films d))" "distinct (map tr_id (shelf_series d))"
    using assms by (simp_all add: shelf_ok_def shelf_films_def shelf_series_def distinct_map_filter)
  then show ?thesis by (auto simp: shelf_def distinct_map inj_on_def comp_def)
qed

lemma page_keys_distinct:
  assumes "shelf_ok d"
  shows "distinct (map (page_key mode) (filter P (shelf d profile)))"
proof -
  have "distinct (map (\<lambda>v. (vi_id v, vi_kind v)) (filter P (shelf d profile)))"
    using shelf_distinct [OF assms] by (rule distinct_map_filter)
  then show ?thesis by (auto simp: distinct_map inj_on_def page_key_def)
qed

lemma shelf_titles:
  assumes "shelf_ok d" and "v \<in> set (shelf d profile)"
  shows "vi_id v \<noteq> ''''" and "title_kind (vi_kind v)"
proof -
  from assms(2) consider r where "r \<in> set (vd_items d)" "v = film_item d profile r"
    | r where "r \<in> set (vd_series d)" "v = series_item d profile r"
    by (auto simp: shelf_def shelf_films_def shelf_series_def)
  then have "(vi_id v \<in> tr_id ` set (vd_items d) \<or> vi_id v \<in> tr_id ` set (vd_series d)) \<and> title_kind (vi_kind v)"
    by cases (simp_all add: title_kind_def)
  moreover have "'''' \<notin> tr_id ` set (vd_items d)" "'''' \<notin> tr_id ` set (vd_series d)"
    using assms(1) unfolding shelf_ok_def by simp_all
  ultimately show "vi_id v \<noteq> ''''" and "title_kind (vi_kind v)" by metis+
qed

section \<open>Browsing\<close>

text \<open>
  A client asks for the grid, or for one section, and follows the cursors: what it fetches is the
  items of the grid, or of the section, and the next cursor.
\<close>

definition browse :: "viewer_env \<Rightarrow> viewer_db \<Rightarrow> string \<Rightarrow> string \<Rightarrow> string \<Rightarrow> int \<Rightarrow> policy \<Rightarrow> string \<Rightarrow>
    (viewer_error, viewer_item list \<times> string) result" where
  "browse env d profile m name limit p c =
    map_sum id (\<lambda>mo. (if vp_view (vm_preference mo) = ''grid'' then vm_items mo else concat (map vs_items (vm_sections mo)), vm_next mo))
      (snd (viewer_page env d profile m name c limit p))"

definition browse_mode :: "view_preference \<Rightarrow> string \<Rightarrow> string" where
  "browse_mode pref name = (if vp_view pref = ''grid'' then vp_sort pref else section_sort name)"

definition browse_section :: "view_preference \<Rightarrow> string \<Rightarrow> string" where
  "browse_section pref name = (if vp_view pref = ''grid'' then '''' else name)"

text \<open>The titles a profile may see, as playback decides it for each of them.\<close>

definition allowed_titles :: "viewer_db \<Rightarrow> string \<Rightarrow> string \<Rightarrow> string \<Rightarrow> policy \<Rightarrow> viewer_item list" where
  "allowed_titles d profile m name p =
    filter (\<lambda>v. (m = ''all'' \<or> vi_kind v = m) \<and> in_section name v \<and>
      (case access_content d (vi_kind v) (vi_id v) of None \<Rightarrow> False | Some c \<Rightarrow> allows p c)) (shelf d profile)"

lemma page_rows_allowed:
  assumes "shelf_ok d" and "vn_policy_of env (vn_policy_json env p) = Some p"
  shows "page_rows env d profile m name p = allowed_titles d profile m name p"
  unfolding page_rows_def allowed_titles_def
proof (rule filter_cong [OF refl])
  fix v
  assume "v \<in> set (shelf d profile)"
  then obtain c where c: "access_content d (vi_kind v) (vi_id v) = Some c" "allows p c = allows p (viewer_content d v)"
    using shelf_content [OF assms(1)] by blast
  have "policy_admits env d p v = allows p (viewer_content d v)"
    using assms(2) by (auto simp: policy_admits_def viewer_allowed_def allows_def)
  with c show "((m = ''all'' \<or> vi_kind v = m) \<and> policy_admits env d p v \<and> in_section name v) =
      ((m = ''all'' \<or> vi_kind v = m) \<and> in_section name v \<and>
        (case access_content d (vi_kind v) (vi_id v) of None \<Rightarrow> False | Some c \<Rightarrow> allows p c))"
    by auto
qed

lemma browse_page:
  assumes "profile \<noteq> ''''" and "valid_media m" and "1 \<le> limit" and "limit \<le> int maxViewerPageSize"
    and "map_of (vd_preferences d) (profile, m) = Some pref" and "vp_view pref = ''grid'' \<or> name \<noteq> ''''"
    and "vn_policy_of env (vn_policy_json env p) = Some p"
  shows "browse env d profile m name limit p encoded =
    (case decode_viewer_cursor env encoded (page_binding env profile m name pref p) of
       Inl e \<Rightarrow> Inl e
     | Inr c \<Rightarrow> Inr (page_items env d profile m (browse_section pref name) (browse_mode pref name) c
         (page_binding env profile m name pref p) (nat limit) p))"
  using assms by (cases "decode_viewer_cursor env encoded (page_binding env profile m name pref p)")
    (auto simp: browse_def viewer_page_def preference_def unreadable_def page_model_def browse_section_def browse_mode_def Let_def
      split: prod.split)

lemma page_items_slice:
  assumes "mode \<in> set sort_modes" and "vc_number b = 0" and "vc_text b = ''''" and "0 < limit"
    and c: "case k of None \<Rightarrow> vc_id c = '''' | Some k \<Rightarrow> vc_id c \<noteq> '''' \<and> (\<exists>w. k = page_key mode w \<and> c = seal_key mode b k)"
  shows "page_items env d profile m name mode c b limit p =
    (fst (title_slice mode (page_rows env d profile m name p) limit k),
     sealed (\<lambda>k. encode_cursor env (seal_key mode b k)) (snd (title_slice mode (page_rows env d profile m name p) limit k)))"
proof -
  have "(\<lambda>v. vc_id c = '''' \<or> past_cursor mode c v) = (\<lambda>v. case k of None \<Rightarrow> True | Some k \<Rightarrow> k < page_key mode v)"
    using c past_cursor_key [OF assms(1)] by (cases k) auto
  then show ?thesis
    using next_cursor_key [OF assms(1-3)] by (simp add: page_items_def title_slice_def sealed_def Let_def)
qed

lemma decode_next:
  assumes "vn_unmarshal env (vn_marshal env c) = Some c" and "vn_marshal env c \<noteq> ''''" and "same_binding c b"
    and "vc_id c \<noteq> ''''" and "title_kind (vc_kind c)"
  shows "encode_cursor env c \<noteq> ''''" and "decode_viewer_cursor env (encode_cursor env c) b = Inr c"
proof -
  show "encode_cursor env c \<noteq> ''''"
  proof
    assume "encode_cursor env c = ''''"
    then have "b64_encode (vn_marshal env c) = b64_encode ''''" by (simp add: encode_cursor_def b64_encode_def codes_def)
    with assms(2) show False using b64_encode_inj by blast
  qed
  then show "decode_viewer_cursor env (encode_cursor env c) b = Inr c"
    using assms by (simp add: decode_viewer_cursor_def encode_cursor_def b64_round_trip)
qed

lemma next_opens:
  assumes "shelf_ok d" and v: "v \<in> set (shelf d profile)" and "mode \<in> set sort_modes" and "vc_number b = 0" and "vc_text b = ''''"
    and "let c = next_cursor mode b v in vn_unmarshal env (vn_marshal env c) = Some c \<and> vn_marshal env c \<noteq> ''''"
  shows "encode_cursor env (seal_key mode b (page_key mode v)) \<noteq> ''''"
    and "decode_viewer_cursor env (encode_cursor env (seal_key mode b (page_key mode v))) b =
      Inr (seal_key mode b (page_key mode v))"
proof -
  let ?c = "seal_key mode b (page_key mode v)"
  have "vn_unmarshal env (vn_marshal env ?c) = Some ?c" "vn_marshal env ?c \<noteq> ''''"
    using assms(6) unfolding next_cursor_key [OF assms(3-5), where v = v] Let_def by simp_all
  moreover have "same_binding ?c b" "vc_id ?c \<noteq> ''''" "title_kind (vc_kind ?c)"
    using shelf_titles [OF assms(1) v] by (simp_all add: same_binding_def seal_key_def page_key_def)
  ultimately show "encode_cursor env ?c \<noteq> ''''" and "decode_viewer_cursor env (encode_cursor env ?c) b = Inr ?c"
    by (rule decode_next)+
qed

lemma browse_mode_sorts: "valid_preference pref \<Longrightarrow> browse_mode pref name \<in> set sort_modes"
  by (auto simp: browse_mode_def valid_preference_def section_sort_def sort_modes_def)


text \<open>Two films, one of them with a tag that the policy denies, and a series; a page has one title.\<close>

definition sample_row :: "string \<Rightarrow> string \<Rightarrow> string \<Rightarrow> string list \<Rightarrow> title_row" where
  "sample_row i kind title genres = \<lparr>tr_id = i, tr_kind = kind, tr_title = title, tr_year = 1999, tr_genres = genres,
     tr_added = 5, tr_playable = True, tr_series = '''', tr_season = 0, tr_merged = ''''\<rparr>"

definition sample_view :: view_preference where
  "sample_view = \<lparr>vp_view = ''grid'', vp_sort = ''title''\<rparr>"

definition sample_shelf_db :: viewer_db where
  "sample_shelf_db = \<lparr>vd_items = [sample_row ''f'' ''film'' ''Up'' [''family''], sample_row ''g'' ''film'' ''Alien'' [''gore'']],
     vd_series = [sample_row ''s'' ''series'' ''Lost'' []], vd_film_members = [], vd_series_members = [],
     vd_progress = [], vd_film_list = [], vd_series_list = [], vd_dismissed = [],
     vd_preferences = [((''ann'', ''all''), sample_view)], vd_physical = [], vd_locations = [], vd_fields = []\<rparr>"

definition sample_deny :: policy where
  "sample_deny = zero_policy\<lparr>po_unrated := ''allow'', po_deny_tags := [''gore'']\<rparr>"

text \<open>The cursors of this catalog differ in the title they stand at, which is all this encoding writes.\<close>

definition sample_viewer_env :: viewer_env where
  "sample_viewer_env =
    (let e = \<lparr>vn_hash = (\<lambda>s. s), vn_policy_json = (\<lambda>_. ''deny''), vn_policy_of = (\<lambda>s. Some sample_deny),
           vn_marshal = vc_id, vn_unmarshal = (\<lambda>_. None)\<rparr>
     in e\<lparr>vn_unmarshal := (\<lambda>s. map_option (next_cursor ''title'' (page_binding e ''ann'' ''all'' '''' sample_view sample_deny))
          (find (\<lambda>v. vi_id v = s) (shelf sample_shelf_db ''ann'')))\<rparr>)"


end
