(* ===== verification/Identity.thy ===== *)
theory Identity
  imports GoPath
begin

text \<open>
  Which title a file belongs to (backend/catalog/identity.go). A scan gives the items it inspected,
  in the order of their paths; the reconciliation gives each of them the identifier of a title,
  chooses the file each title is played from, and lists the pairs an owner has to look at. Of an
  item only what the decision uses is kept. The hash behind new identifiers and the lookup at the
  provider are arguments; a Go map is a list in the order it is iterated.
\<close>

record scan_item =
  si_ID :: string
  si_Title :: string
  si_Kind :: string
  si_Season :: int
  si_Episode :: int
  si_EpisodeEnd :: int
  si_AbsoluteEpisode :: int
  si_SeriesID :: string
  si_ProviderID :: string
  si_Provider :: string
  si_AddedAt :: int
  si_Playable :: bool
  si_path :: string
  si_rootKind :: string
  si_digest :: string
  si_sourceLocationID :: string
  si_sourceSeriesID :: string
  si_fingerprint :: string

type_synonym place_key = "string \<times> string \<times> string"

definition scan_key :: "scan_item \<Rightarrow> place_key" where
  "scan_key i = (si_sourceLocationID i, si_rootKind i, si_path i)"

text \<open>Only a positive number of TMDB is an identity; its zeros in front do not matter.\<close>

definition provider_identity :: "string \<Rightarrow> string \<Rightarrow> string \<Rightarrow> string" where
  "provider_identity provider kind v =
    (if provider \<noteq> ''tmdb'' \<or> kind \<noteq> ''film'' \<and> kind \<noteq> ''series'' \<or> v = '''' then ''''
     else (case digits_val 0 v of
         None \<Rightarrow> ''''
       | Some n \<Rightarrow> if 2 ^ 64 \<le> n \<or> n = 0 then '''' else provider @ '':'' @ kind @ '':'' @ show_nat n))"

definition item_identity :: "scan_item \<Rightarrow> string" where
  "item_identity i = provider_identity (si_Provider i) (si_Kind i) (si_ProviderID i)"

definition contradictory :: "scan_item \<Rightarrow> scan_item \<Rightarrow> bool" where
  "contradictory old i =
    (if si_Kind old \<noteq> si_Kind i then True
     else if si_Kind old = ''episode'' \<and> (si_Season old \<noteq> si_Season i \<or> si_Episode old \<noteq> si_Episode i \<or>
         si_EpisodeEnd old \<noteq> si_EpisodeEnd i \<or> si_AbsoluteEpisode old \<noteq> si_AbsoluteEpisode i \<or>
         si_sourceSeriesID old \<noteq> si_sourceSeriesID i) then True
     else item_identity old \<noteq> '''' \<and> item_identity i \<noteq> '''' \<and> item_identity old \<noteq> item_identity i)"

text \<open>A pair of titles that an owner should look at: kind, reason and the two identifiers.\<close>

type_synonym identity_pair = "string \<times> string \<times> string \<times> string"

datatype lookup_answer = LookupCancelled | LookupFailed | LookupFound string

text \<open>
  What the reconciliation reads: the hash, the provider (absent without a token), the items in
  memory, the known series, and the sources on record, by place and as proof.
\<close>

record identity_env =
  ie_hash :: "string \<Rightarrow> string"
  ie_lookup :: "(string \<Rightarrow> string \<Rightarrow> lookup_answer) option"
  ie_items :: "(string, scan_item) gomap"
  ie_series :: "string list"
  ie_previous :: "(place_key, scan_item) gomap"
  ie_proof :: "scan_item list"

record identity_work =
  iw_next :: "(string, scan_item) gomap"
  iw_sources :: "(place_key, scan_item) gomap"
  iw_conflicts :: "identity_pair list"

definition fresh_identity :: "identity_env \<Rightarrow> scan_item \<Rightarrow> string" where
  "fresh_identity env i =
    ie_hash env (si_Kind i @ [CHR 0x00] @ si_fingerprint i @ [CHR 0x00] @ si_path i @ [CHR 0x00] @ si_digest i)"

definition keep_candidate :: "string \<Rightarrow> scan_item \<Rightarrow> (string, scan_item) gomap \<Rightarrow> (string, scan_item) gomap" where
  "keep_candidate digest c m =
    (case map_of m (si_ID c) of
       None \<Rightarrow> AList.update (si_ID c) c m
     | Some e \<Rightarrow> if si_digest c = digest \<or> si_digest e \<noteq> digest then AList.update (si_ID c) c m else m)"

definition known_sources :: "identity_env \<Rightarrow> identity_work \<Rightarrow> scan_item list" where
  "known_sources env w = ie_proof env @ map snd (ie_items env) @ map snd (ie_previous env) @ map snd (iw_next w)"

definition candidates_for :: "identity_env \<Rightarrow> identity_work \<Rightarrow> scan_item \<Rightarrow> (string, scan_item) gomap" where
  "candidates_for env w i =
    fold (keep_candidate (si_digest i))
      (filter (\<lambda>c. si_rootKind c = si_rootKind i \<and> si_fingerprint c = si_fingerprint i) (known_sources env w)) []"

text \<open>
  A proven move may rename the folder of the series, unless the candidate was found in this scan
  too, or the item is in a series that is known.
\<close>

definition evidence_for :: "identity_env \<Rightarrow> place_key list \<Rightarrow> scan_item \<Rightarrow> scan_item \<Rightarrow> scan_item" where
  "evidence_for env discovered i c =
    (if si_Kind i = ''episode'' \<and> scan_key c \<notin> set discovered \<and> si_SeriesID i \<notin> set (ie_series env)
     then i\<lparr>si_sourceSeriesID := si_sourceSeriesID c\<rparr> else i)"

definition is_proven :: "identity_env \<Rightarrow> place_key list \<Rightarrow> scan_item \<Rightarrow> scan_item \<Rightarrow> bool" where
  "is_proven env discovered i c \<longleftrightarrow>
     si_digest c \<noteq> '''' \<and> si_digest c = si_digest i \<and> \<not> contradictory c (evidence_for env discovered i c)"

text \<open>What the provider says of a file whose contents changed in place.\<close>

definition looked_up :: "identity_env \<Rightarrow> scan_item \<Rightarrow> scan_item option" where
  "looked_up env i =
    (case (map_of (ie_previous env) (scan_key i), ie_lookup env) of
       (Some old, Some lookup) \<Rightarrow>
         if si_digest old \<noteq> si_digest i \<and> item_identity old \<noteq> ''''
         then (case lookup (si_Kind i) (si_Title i) of
             LookupCancelled \<Rightarrow> None
           | LookupFailed \<Rightarrow> Some i
           | LookupFound provider \<Rightarrow> Some (i\<lparr>si_Provider := ''tmdb'', si_ProviderID := provider\<rparr>))
         else Some i
     | _ \<Rightarrow> Some i)"

text \<open>The title of an item that does not simply keep the one of its place.\<close>

definition adopt_identity :: "identity_env \<Rightarrow> place_key list \<Rightarrow> identity_work \<Rightarrow> scan_item \<Rightarrow> scan_item \<times> identity_pair list" where
  "adopt_identity env discovered w i =
    (let i = i\<lparr>si_ID := fresh_identity env i\<rparr>;
         candidates = candidates_for env w i;
         proven = filter (is_proven env discovered i) (map snd candidates) in
     case proven of
       [c] \<Rightarrow> (i\<lparr>si_ID := si_ID c, si_AddedAt := si_AddedAt c, si_SeriesID := si_SeriesID c\<rparr>, [])
     | _ \<Rightarrow> (i, map (\<lambda>(cid, _). (si_Kind i, ''ambiguous_duplicate'', cid, si_ID i))
         (filter (\<lambda>(cid, c). cid \<noteq> si_ID i \<and> (si_digest c = '''' \<or> si_digest c = si_digest i)) candidates)))"

definition identify_item :: "identity_env \<Rightarrow> place_key list \<Rightarrow> identity_work \<Rightarrow> scan_item \<Rightarrow> scan_item \<times> identity_pair list" where
  "identify_item env discovered w i =
    (case map_of (ie_previous env) (scan_key i) of
       None \<Rightarrow> adopt_identity env discovered w i
     | Some old \<Rightarrow>
        if \<not> contradictory old i
        then (i\<lparr>si_ID := si_ID old, si_AddedAt := si_AddedAt old, si_SeriesID := si_SeriesID old, si_Playable := True\<rparr>, [])
        else (let (j, pairs) = adopt_identity env discovered w i in
              (j\<lparr>si_ID := fresh_identity env j\<rparr>,
               pairs @ [(si_Kind j, ''replacement_evidence'', si_ID old, fresh_identity env j)])))"

text \<open>A title is played from its primary file while a scan finds it, and else from the first by place.\<close>

definition primary_key :: "identity_env \<Rightarrow> string \<Rightarrow> place_key" where
  "primary_key env i = (case map_of (ie_items env) i of None \<Rightarrow> ('''', '''', '''') | Some x \<Rightarrow> scan_key x)"

definition place_name :: "scan_item \<Rightarrow> string" where
  "place_name i = si_sourceLocationID i @ ''/'' @ si_path i"

definition prefer_item :: "identity_env \<Rightarrow> scan_item \<Rightarrow> (string, scan_item) gomap \<Rightarrow> (string, scan_item) gomap" where
  "prefer_item env i m =
    (case map_of m (si_ID i) of
       None \<Rightarrow> AList.update (si_ID i) i m
     | Some p \<Rightarrow>
        if scan_key i = primary_key env (si_ID i) \<or> scan_key p \<noteq> primary_key env (si_ID i) \<and> place_name i < place_name p
        then AList.update (si_ID i) i m else m)"

fun reconcile_loop :: "identity_env \<Rightarrow> place_key list \<Rightarrow> scan_item list \<Rightarrow> identity_work \<Rightarrow> identity_work option" where
  "reconcile_loop env discovered [] w = Some w"
| "reconcile_loop env discovered (r # rs) w =
    (case looked_up env r of
       None \<Rightarrow> None
     | Some i \<Rightarrow>
        (let (j, pairs) = identify_item env discovered w i in
         reconcile_loop env discovered rs
           \<lparr>iw_next = prefer_item env j (iw_next w), iw_sources = AList.update (scan_key j) j (iw_sources w),
            iw_conflicts = iw_conflicts w @ pairs\<rparr>))"

definition reconcile_identity :: "identity_env \<Rightarrow> scan_item list \<Rightarrow> identity_work option" where
  "reconcile_identity env results =
    reconcile_loop env (map scan_key results) results \<lparr>iw_next = [], iw_sources = [], iw_conflicts = []\<rparr>"

section \<open>Identities are proven\<close>

text \<open>What ties an item to a title on record: the same bytes, and nothing that speaks against it but the folder of the series.\<close>

definition same_contents :: "scan_item \<Rightarrow> scan_item \<Rightarrow> bool" where
  "same_contents c j \<longleftrightarrow> si_rootKind c = si_rootKind j \<and> si_fingerprint c = si_fingerprint j \<and>
     si_digest c \<noteq> '''' \<and> si_digest c = si_digest j \<and> \<not> contradictory c (j\<lparr>si_sourceSeriesID := si_sourceSeriesID c\<rparr>)"

definition identity_reason :: "identity_env \<Rightarrow> scan_item set \<Rightarrow> scan_item \<Rightarrow> bool" where
  "identity_reason env found j \<longleftrightarrow>
     (\<exists>old. map_of (ie_previous env) (scan_key j) = Some old \<and> \<not> contradictory old j \<and> si_ID j = si_ID old) \<or>
     si_ID j = fresh_identity env j \<or>
     (\<exists>c. c \<in> set (ie_proof env @ map snd (ie_items env) @ map snd (ie_previous env)) \<union> found \<and> si_ID j = si_ID c \<and> same_contents c j)"

text \<open>What the decisions read of an item does not change with the title it is given.\<close>

definition titled :: "string \<Rightarrow> int \<Rightarrow> string \<Rightarrow> scan_item \<Rightarrow> scan_item" where
  "titled t added series i = i\<lparr>si_ID := t, si_AddedAt := added, si_SeriesID := series\<rparr>"

lemma identity_updates [simp]:
  "item_identity (i\<lparr>si_ID := t\<rparr>) = item_identity i" "item_identity (i\<lparr>si_AddedAt := a\<rparr>) = item_identity i"
  "item_identity (i\<lparr>si_SeriesID := s\<rparr>) = item_identity i" "item_identity (i\<lparr>si_Playable := b\<rparr>) = item_identity i"
  "item_identity (i\<lparr>si_sourceSeriesID := s\<rparr>) = item_identity i"
  "fresh_identity env (i\<lparr>si_ID := t\<rparr>) = fresh_identity env i" "fresh_identity env (i\<lparr>si_AddedAt := a\<rparr>) = fresh_identity env i"
  "fresh_identity env (i\<lparr>si_SeriesID := s\<rparr>) = fresh_identity env i"
  "scan_key (i\<lparr>si_ID := t\<rparr>) = scan_key i" "scan_key (i\<lparr>si_AddedAt := a\<rparr>) = scan_key i"
  "scan_key (i\<lparr>si_SeriesID := s\<rparr>) = scan_key i" "scan_key (i\<lparr>si_Playable := b\<rparr>) = scan_key i"
  by (simp_all add: item_identity_def fresh_identity_def scan_key_def)

lemma contradictory_updates [simp]:
  "contradictory old (i\<lparr>si_ID := t\<rparr>) = contradictory old i" "contradictory old (i\<lparr>si_AddedAt := a\<rparr>) = contradictory old i"
  "contradictory old (i\<lparr>si_SeriesID := s\<rparr>) = contradictory old i" "contradictory old (i\<lparr>si_Playable := b\<rparr>) = contradictory old i"
  by (cases i, simp only: contradictory_def item_identity_def scan_item.simps)+

lemma candidates_known:
  "(t, c) \<in> set (candidates_for env w i) \<Longrightarrow>
     c \<in> set (known_sources env w) \<and> si_ID c = t \<and> si_rootKind c = si_rootKind i \<and> si_fingerprint c = si_fingerprint i"
proof -
  have "set (fold (keep_candidate digest) cs m) \<subseteq> set m \<union> {(si_ID c, c) | c. c \<in> set cs}" for digest cs m
  proof (induction cs arbitrary: m)
    case (Cons c cs)
    have "set (keep_candidate digest c m) \<subseteq> set m \<union> {(si_ID c, c)}"
      using set_update_subset [of "si_ID c" c m] by (auto simp: keep_candidate_def split: option.split)
    with Cons [of "keep_candidate digest c m"] show ?case by auto
  qed simp
  from this [of "si_digest i" _ "[]"] show "(t, c) \<in> set (candidates_for env w i) \<Longrightarrow> ?thesis"
    unfolding candidates_for_def by fastforce
qed

lemma proven_same: "is_proven env discovered i c \<Longrightarrow> si_rootKind c = si_rootKind i \<Longrightarrow> si_fingerprint c = si_fingerprint i \<Longrightarrow> same_contents c i"
  by (cases "si_Kind i = ''episode''") (auto simp: is_proven_def same_contents_def evidence_for_def contradictory_def split: if_splits)

lemma same_contents_updates [simp]:
  "same_contents c (i\<lparr>si_ID := t\<rparr>) = same_contents c i" "same_contents c (i\<lparr>si_AddedAt := a\<rparr>) = same_contents c i"
  "same_contents c (i\<lparr>si_SeriesID := s\<rparr>) = same_contents c i"
  by (cases i, simp only: same_contents_def contradictory_def item_identity_def scan_item.simps)+

lemma single_cases: "(case xs of [c] \<Rightarrow> (f c, []) | _ \<Rightarrow> (y, z)) = (j, ps) \<Longrightarrow> (\<exists>c. xs = [c] \<and> j = f c) \<or> j = y"
  by (auto split: list.splits)

lemma adopt_reason:
  assumes "adopt_identity env discovered w i = (j, pairs)"
  shows "scan_key j = scan_key i \<and> (\<forall>old. contradictory old j = contradictory old i) \<and> fresh_identity env j = fresh_identity env i \<and>
    (si_ID j = fresh_identity env j \<or> (\<exists>c \<in> set (known_sources env w). si_ID j = si_ID c \<and> same_contents c j))"
proof -
  let ?i = "i\<lparr>si_ID := fresh_identity env i\<rparr>"
  let ?proven = "filter (is_proven env discovered ?i) (map snd (candidates_for env w ?i))"
  from single_cases [OF assms [unfolded adopt_identity_def Let_def]]
  consider c where "?proven = [c]" "j = ?i\<lparr>si_ID := si_ID c, si_AddedAt := si_AddedAt c, si_SeriesID := si_SeriesID c\<rparr>" | "j = ?i"
    by blast
  then show ?thesis
  proof cases
    case 1
    from 1(1) have "c \<in> set ?proven" by simp
    then obtain t where t: "(t, c) \<in> set (candidates_for env w ?i)" and p: "is_proven env discovered ?i c" by auto
    have "same_contents c ?i" using proven_same [OF p] candidates_known [OF t] by blast
    then show ?thesis using candidates_known [OF t] by (auto simp: 1(2))
  qed simp
qed

lemma known_sources_set:
  "set (known_sources env w) = set (ie_proof env @ map snd (ie_items env) @ map snd (ie_previous env)) \<union> snd ` set (iw_next w)"
  by (simp add: known_sources_def Un_assoc)

lemma identify_reason:
  assumes "identify_item env discovered w i = (j, pairs)"
  shows "scan_key j = scan_key i \<and> identity_reason env (snd ` set (iw_next w)) j"
proof (cases "map_of (ie_previous env) (scan_key i)")
  case None
  with assms have "adopt_identity env discovered w i = (j, pairs)" by (simp add: identify_item_def)
  from adopt_reason [OF this] show ?thesis unfolding identity_reason_def known_sources_set by blast
next
  case (Some old)
  show ?thesis
  proof (cases "contradictory old i")
    case False
    then show ?thesis using assms Some by (auto simp: identify_item_def identity_reason_def)
  next
    case True
    obtain k ps where k: "adopt_identity env discovered w i = (k, ps)" by fastforce
    then have "j = k\<lparr>si_ID := fresh_identity env k\<rparr>" using assms Some True by (simp add: identify_item_def)
    then show ?thesis using adopt_reason [OF k] by (simp add: identity_reason_def)
  qed
qed

lemma looked_up_key: "looked_up env r = Some i \<Longrightarrow> scan_key i = scan_key r"
  by (auto simp: looked_up_def scan_key_def split: option.splits if_splits lookup_answer.splits)

lemma update_new: "map_of m k = None \<Longrightarrow> AList.update k v m = m @ [(k, v)]"
  by (induction m) auto

lemma identity_reason_mono: "identity_reason env A j \<Longrightarrow> A \<subseteq> B \<Longrightarrow> identity_reason env B j"
  unfolding identity_reason_def by blast

lemma prefer_set: "set (prefer_item env i m) \<subseteq> set m \<union> {(si_ID i, i)}"
  using set_update_subset [of "si_ID i" i m] by (auto simp: prefer_item_def split: option.split)

definition work_reasons :: "identity_env \<Rightarrow> identity_work \<Rightarrow> bool" where
  "work_reasons env w \<longleftrightarrow> snd ` set (iw_next w) \<subseteq> snd ` set (iw_sources w) \<and>
     (\<forall>n < length (iw_sources w). (case iw_sources w ! n of (k, j) \<Rightarrow>
        k = scan_key j \<and> identity_reason env (snd ` set (take n (iw_sources w))) j))"

lemma work_reasons_step:
  assumes "work_reasons env w" and "identity_reason env (snd ` set (iw_next w)) j"
    and src: "AList.update (scan_key j) j (iw_sources w) = iw_sources w @ [(scan_key j, j)]"
  shows "work_reasons env \<lparr>iw_next = prefer_item env j (iw_next w), iw_sources = AList.update (scan_key j) j (iw_sources w),
    iw_conflicts = ps\<rparr>"
proof -
  note both = assms(1) [unfolded work_reasons_def]
  note olds = conjunct1 [OF both] and why = conjunct2 [OF both, rule_format]
  have "snd ` set (prefer_item env j (iw_next w)) \<subseteq> snd ` set (iw_sources w @ [(scan_key j, j)])"
    using image_mono [OF prefer_set, of snd env j "iw_next w"] olds by auto
  moreover have "identity_reason env (snd ` set (iw_sources w)) j" using identity_reason_mono [OF assms(2) olds] .
  moreover have "case (iw_sources w @ [(scan_key j, j)]) ! n of (k, i) \<Rightarrow>
      k = scan_key i \<and> identity_reason env (snd ` set (take n (iw_sources w @ [(scan_key j, j)]))) i"
    if "n < length (iw_sources w @ [(scan_key j, j)])" for n
  proof (cases "n < length (iw_sources w)")
    case True
    then show ?thesis using why [OF True] by (simp only: nth_append take_append if_True) simp
  next
    case False
    with that have "n = length (iw_sources w)" by simp
    then show ?thesis by (simp add: nth_append calculation(2))
  qed
  ultimately show ?thesis unfolding work_reasons_def identity_work.simps src by blast
qed

lemma reconcile_reasons:
  assumes "reconcile_loop env discovered rs w = Some w'" and "work_reasons env w"
    and "distinct (map fst (iw_sources w) @ map scan_key rs)"
  shows "work_reasons env w' \<and> map fst (iw_sources w') = map fst (iw_sources w) @ map scan_key rs"
  using assms
proof (induction rs arbitrary: w)
  case (Cons r rs)
  obtain i where i: "looked_up env r = Some i" using Cons.prems(1) by (cases "looked_up env r") simp_all
  obtain j ps where j: "identify_item env discovered w i = (j, ps)" by fastforce
  have rest: "reconcile_loop env discovered rs \<lparr>iw_next = prefer_item env j (iw_next w),
      iw_sources = AList.update (scan_key j) j (iw_sources w), iw_conflicts = iw_conflicts w @ ps\<rparr> = Some w'"
    using Cons.prems(1) i j by simp
  have key: "scan_key j = scan_key r" and why: "identity_reason env (snd ` set (iw_next w)) j"
    using identify_reason [OF j] looked_up_key [OF i] by simp_all
  from Cons.prems(3) key have "map_of (iw_sources w) (scan_key j) = None" by (simp add: map_of_eq_None_iff)
  then have src: "AList.update (scan_key j) j (iw_sources w) = iw_sources w @ [(scan_key j, j)]"
    by (rule update_new)
  note work = work_reasons_step [OF Cons.prems(2) why src]
  have "map fst (AList.update (scan_key j) j (iw_sources w)) = map fst (iw_sources w) @ [scan_key r]" unfolding src by (simp add: key)
  with Cons.IH [OF rest work] Cons.prems(3) show ?case by simp
qed simp

lemma identity_needs_proof_keys:
  assumes "reconcile_identity env results = Some w" and "distinct (map scan_key results)" and "(k, j) \<in> set (iw_sources w)"
  shows "k = scan_key j"
proof -
  let ?w = "\<lparr>iw_next = [], iw_sources = [], iw_conflicts = []\<rparr> :: identity_work"
  have "work_reasons env ?w" by (simp add: work_reasons_def)
  from reconcile_reasons [OF assms(1) [unfolded reconcile_identity_def] this] assms(2)
  have "work_reasons env w" by simp
  with assms(3) show ?thesis unfolding work_reasons_def by (auto simp: in_set_conv_nth)
qed


text \<open>A film on record is found again in another place, next to a new one.\<close>

definition sample_film :: "string \<Rightarrow> string \<Rightarrow> string \<Rightarrow> scan_item" where
  "sample_film t path digest = \<lparr>si_ID = t, si_Title = ''Up'', si_Kind = ''film'', si_Season = 0, si_Episode = 0,
     si_EpisodeEnd = 0, si_AbsoluteEpisode = 0, si_SeriesID = '''', si_ProviderID = '''', si_Provider = '''',
     si_AddedAt = 1, si_Playable = True, si_path = path, si_rootKind = ''film'', si_digest = digest,
     si_sourceLocationID = ''films'', si_sourceSeriesID = '''', si_fingerprint = ''f''\<rparr>"

definition sample_identities :: identity_env where
  "sample_identities = \<lparr>ie_hash = (\<lambda>s. drop 6 s), ie_lookup = None, ie_items = [(''up'', sample_film ''up'' ''a.mkv'' ''d'')],
     ie_series = [], ie_previous = [((''films'', ''film'', ''a.mkv''), sample_film ''up'' ''a.mkv'' ''d'')], ie_proof = []\<rparr>"


section \<open>The file a title is played from\<close>

definition preferred :: "identity_env \<Rightarrow> scan_item \<Rightarrow> scan_item \<Rightarrow> bool" where
  "preferred env p j \<longleftrightarrow> si_ID p = si_ID j \<and>
     (scan_key p = primary_key env (si_ID j) \<or> scan_key j \<noteq> primary_key env (si_ID j) \<and> place_name p \<le> place_name j)"

definition next_preferred :: "identity_env \<Rightarrow> (string, scan_item) gomap \<Rightarrow> scan_item set \<Rightarrow> bool" where
  "next_preferred env m js \<longleftrightarrow>
     (\<forall>t p. map_of m t = Some p \<longrightarrow> p \<in> js \<and> si_ID p = t) \<and> (\<forall>j \<in> js. \<exists>p. map_of m (si_ID j) = Some p \<and> preferred env p j)"

lemma preferred_trans: "preferred env p q \<Longrightarrow> preferred env q j \<Longrightarrow> preferred env p j"
  by (auto simp: preferred_def)

lemma preferred_refl: "preferred env p p"
  by (simp add: preferred_def)

lemma next_preferred_step:
  assumes "next_preferred env m js"
  shows "next_preferred env (prefer_item env i m) (insert i js)"
proof -
  have old: "\<And>t p. map_of m t = Some p \<Longrightarrow> p \<in> js \<and> si_ID p = t"
    and best: "\<And>j. j \<in> js \<Longrightarrow> \<exists>p. map_of m (si_ID j) = Some p \<and> preferred env p j"
    using assms unfolding next_preferred_def by blast+
  obtain q where q: "map_of (prefer_item env i m) = (map_of m)(si_ID i \<mapsto> q)" "preferred env q i" "q = i \<or> q \<in> js"
    and over: "\<And>p. map_of m (si_ID i) = Some p \<Longrightarrow> preferred env q p"
  proof (cases "map_of m (si_ID i)")
    case None
    with that [of i] show thesis by (simp add: prefer_item_def preferred_refl)
  next
    case (Some p)
    have p: "si_ID p = si_ID i" "p \<in> js" using old [OF Some] by simp_all
    show thesis
    proof (cases "scan_key i = primary_key env (si_ID i) \<or> scan_key p \<noteq> primary_key env (si_ID i) \<and> place_name i < place_name p")
      case True
      then have "preferred env i p" using p by (auto simp: preferred_def)
      with that [of i] Some True show thesis by (simp add: prefer_item_def preferred_refl)
    next
      case False
      then have "preferred env p i" using p by (auto simp: preferred_def)
      with that [of p] Some False p show thesis by (simp add: prefer_item_def preferred_refl fun_upd_idem)
    qed
  qed
  have qid: "si_ID q = si_ID i" using q(2) by (simp add: preferred_def)
  have "\<exists>p. map_of (prefer_item env i m) (si_ID j) = Some p \<and> preferred env p j" if "j \<in> insert i js" for j
  proof (cases "si_ID j = si_ID i")
    case True
    show ?thesis
    proof (cases "j = i")
      case False
      with that obtain p where "map_of m (si_ID j) = Some p" "preferred env p j" using best by auto
      then show ?thesis using over [of p] preferred_trans True q(1) by fastforce
    qed (use q in simp)
  next
    case False
    then have "j \<in> js" using that by auto
    with best [OF this] False q(1) show ?thesis by simp
  qed
  moreover have "p \<in> insert i js \<and> si_ID p = t" if "map_of (prefer_item env i m) t = Some p" for t p
    using that old [of t p] q qid by (auto split: if_splits)
  ultimately show ?thesis unfolding next_preferred_def by blast
qed

lemma reconcile_preferred:
  assumes "reconcile_loop env discovered rs w = Some w'" and "next_preferred env (iw_next w) (snd ` set (iw_sources w))"
    and "distinct (map fst (iw_sources w) @ map scan_key rs)"
  shows "next_preferred env (iw_next w') (snd ` set (iw_sources w'))"
  using assms
proof (induction rs arbitrary: w)
  case (Cons r rs)
  obtain i where i: "looked_up env r = Some i" using Cons.prems(1) by (cases "looked_up env r") simp_all
  obtain j ps where j: "identify_item env discovered w i = (j, ps)" by fastforce
  have rest: "reconcile_loop env discovered rs \<lparr>iw_next = prefer_item env j (iw_next w),
      iw_sources = AList.update (scan_key j) j (iw_sources w), iw_conflicts = iw_conflicts w @ ps\<rparr> = Some w'"
    using Cons.prems(1) i j by simp
  have key: "scan_key j = scan_key r" using identify_reason [OF j] looked_up_key [OF i] by simp
  from Cons.prems(3) key have "map_of (iw_sources w) (scan_key j) = None" by (simp add: map_of_eq_None_iff)
  then have src: "AList.update (scan_key j) j (iw_sources w) = iw_sources w @ [(scan_key j, j)]"
    by (rule update_new)
  have "next_preferred env (prefer_item env j (iw_next w)) (snd ` set (AList.update (scan_key j) j (iw_sources w)))"
    using next_preferred_step [OF Cons.prems(2)] unfolding src by simp
  moreover have "map fst (AList.update (scan_key j) j (iw_sources w)) = map fst (iw_sources w) @ [scan_key r]"
    unfolding src by (simp add: key)
  ultimately show ?case using Cons.IH [OF rest] Cons.prems(3) by simp
qed simp

text \<open>
  A title is played from a file of its own, the same as before when it can be. For every file
  a scan found, the title it belongs to gets one file of this scan, which belongs to it: its
  primary file, when that is among them, and else the one whose place comes first.
\<close>

theorem primary_is_kept:
  assumes "reconcile_identity env results = Some w" and "distinct (map scan_key results)" and "j \<in> snd ` set (iw_sources w)"
  shows "\<exists>p. map_of (iw_next w) (si_ID j) = Some p \<and> p \<in> snd ` set (iw_sources w) \<and> si_ID p = si_ID j \<and>
    (scan_key p = primary_key env (si_ID j) \<or> scan_key j \<noteq> primary_key env (si_ID j) \<and> place_name p \<le> place_name j)"
proof -
  have "next_preferred env (iw_next w) (snd ` set (iw_sources w))"
    using reconcile_preferred [OF assms(1) [unfolded reconcile_identity_def]] assms(2) by (simp add: next_preferred_def)
  with assms(3) show ?thesis unfolding next_preferred_def preferred_def by blast
qed

theorem primary_is_kept_witness:
  "\<exists>w. reconcile_identity sample_identities [sample_film '''' ''0.mkv'' ''d'', sample_film '''' ''a.mkv'' ''d''] = Some w \<and>
    (\<exists>p. map_of (iw_next w) ''up'' = Some p \<and> scan_key p = (''films'', ''film'', ''a.mkv''))"
proof -
  have "map_option (\<lambda>w. map (\<lambda>(k, i). (k, si_ID i)) (iw_sources w))
      (reconcile_identity sample_identities [sample_film '''' ''0.mkv'' ''d'', sample_film '''' ''a.mkv'' ''d'']) =
    Some [((''films'', ''film'', ''0.mkv''), ''up''), ((''films'', ''film'', ''a.mkv''), ''up'')]"
    by code_simp
  then obtain w where w: "reconcile_identity sample_identities [sample_film '''' ''0.mkv'' ''d'', sample_film '''' ''a.mkv'' ''d''] = Some w"
    and s: "map (\<lambda>(k, i). (k, si_ID i)) (iw_sources w) = [((''films'', ''film'', ''0.mkv''), ''up''), ((''films'', ''film'', ''a.mkv''), ''up'')]"
    by auto
  have d: "distinct (map scan_key [sample_film '''' ''0.mkv'' ''d'', sample_film '''' ''a.mkv'' ''d''])" by code_simp
  obtain k j where j: "(k, j) \<in> set (iw_sources w)" "k = (''films'', ''film'', ''a.mkv'')" "si_ID j = ''up''"
    using s by (cases "iw_sources w"; cases "tl (iw_sources w)") auto
  have key: "scan_key j = (''films'', ''film'', ''a.mkv'')"
    using identity_needs_proof_keys [OF w d j(1)] j(2) by simp
  have prim: "primary_key sample_identities ''up'' = (''films'', ''film'', ''a.mkv'')" by code_simp
  have "j \<in> snd ` set (iw_sources w)" using j(1) by force
  from primary_is_kept [OF w d this] show ?thesis unfolding j(3) key prim using w by auto
qed

section \<open>Pairs for the owner\<close>

record conflict_row =
  cf_kind :: string
  cf_reason :: string
  cf_left :: string
  cf_right :: string
  cf_state :: string
  cf_created :: int
  cf_resolved :: int

text \<open>A pair is stored in the order of its identifiers, once while it is open.\<close>

definition ordered_pair :: "identity_pair \<Rightarrow> identity_pair" where
  "ordered_pair p = (case p of (kind, reason, left, right) \<Rightarrow> if right < left then (kind, reason, right, left) else p)"

definition open_pair :: "conflict_row \<Rightarrow> identity_pair" where
  "open_pair c = (cf_kind c, cf_reason c, cf_left c, cf_right c)"

definition open_pairs :: "conflict_row list \<Rightarrow> identity_pair list" where
  "open_pairs cs = map open_pair (filter (\<lambda>c. cf_state c = ''open'') cs)"

definition persist_pair :: "int \<Rightarrow> identity_pair \<Rightarrow> conflict_row list \<Rightarrow> conflict_row list" where
  "persist_pair now p cs =
    (case ordered_pair p of (kind, reason, left, right) \<Rightarrow>
       if left = right \<or> (kind, reason, left, right) \<in> set (open_pairs cs) then cs
       else cs @ [\<lparr>cf_kind = kind, cf_reason = reason, cf_left = left, cf_right = right, cf_state = ''open'',
         cf_created = now, cf_resolved = 0\<rparr>])"

definition persist_identity_conflicts :: "int \<Rightarrow> identity_pair list \<Rightarrow> conflict_row list \<Rightarrow> conflict_row list" where
  "persist_identity_conflicts now ps cs = fold (persist_pair now) ps cs"

text \<open>Titles by their provider identity: kind and identifier of the titles that are not merged.\<close>

fun provider_pairs :: "(string, string list) gomap \<Rightarrow> (string \<times> string \<times> string \<times> string) list \<Rightarrow> identity_pair list" where
  "provider_pairs seen [] = []"
| "provider_pairs seen ((i, kind, provider, v) # rows) =
    (let key = provider_identity provider kind v in
     if key = '''' then provider_pairs seen rows
     else (let others = get_or [] seen key in
       map (\<lambda>other. (kind, ''provider_identity'', other, i)) others @ provider_pairs (AList.update key (others @ [i]) seen) rows))"

definition detect_provider_conflicts :: "int \<Rightarrow> (string \<times> string \<times> string \<times> string) list \<Rightarrow> conflict_row list \<Rightarrow> conflict_row list" where
  "detect_provider_conflicts now rows cs = persist_identity_conflicts now (provider_pairs [] rows) cs"

definition conflicts_ok :: "conflict_row list \<Rightarrow> bool" where
  "conflicts_ok cs \<longleftrightarrow> distinct (open_pairs cs) \<and> (\<forall>c \<in> set cs. cf_left c < cf_right c)"

lemma open_pairs_append: "open_pairs (cs @ ds) = open_pairs cs @ open_pairs ds"
  by (simp add: open_pairs_def)

lemma open_persist:
  "open_pairs (persist_pair now p cs) =
    (case ordered_pair p of (kind, reason, left, right) \<Rightarrow>
       if left = right \<or> (kind, reason, left, right) \<in> set (open_pairs cs) then open_pairs cs
       else open_pairs cs @ [(kind, reason, left, right)])"
proof (cases "ordered_pair p")
  case (fields kind reason left right)
  then show ?thesis unfolding persist_pair_def by (simp add: open_pairs_append) (simp add: open_pairs_def open_pair_def)
qed

lemma persist_pair_ok:
  assumes "conflicts_ok cs"
  shows "conflicts_ok (persist_pair now p cs)"
proof -
  have "\<forall>c \<in> set (persist_pair now p cs). cf_left c < cf_right c"
    using assms by (auto simp: conflicts_ok_def persist_pair_def ordered_pair_def split: prod.splits if_splits)
  then show ?thesis using assms by (auto simp: conflicts_ok_def open_persist split: prod.split)
qed

lemma persist_pairs_ok: "conflicts_ok cs \<Longrightarrow> conflicts_ok (persist_identity_conflicts now ps cs)"
  unfolding persist_identity_conflicts_def by (induction ps arbitrary: cs) (simp_all add: persist_pair_ok)

lemma persist_pair_lists:
  "set (open_pairs cs) \<subseteq> set (open_pairs (persist_pair now p cs))"
  "fst (snd (snd p)) \<noteq> snd (snd (snd p)) \<Longrightarrow> ordered_pair p \<in> set (open_pairs (persist_pair now p cs))"
proof -
  obtain k r a b where q: "ordered_pair p = (k, r, a, b)" by (cases "ordered_pair p")
  show "set (open_pairs cs) \<subseteq> set (open_pairs (persist_pair now p cs))" by (simp add: open_persist q subset_insertI)
  assume "fst (snd (snd p)) \<noteq> snd (snd (snd p))"
  then have "a \<noteq> b" using q by (cases p) (auto simp: ordered_pair_def split: if_splits)
  then show "ordered_pair p \<in> set (open_pairs (persist_pair now p cs))" by (simp add: open_persist q)
qed

lemma persist_lists:
  "set (open_pairs cs) \<subseteq> set (open_pairs (persist_identity_conflicts now ps cs))"
  "p \<in> set ps \<Longrightarrow> fst (snd (snd p)) \<noteq> snd (snd (snd p)) \<Longrightarrow> ordered_pair p \<in> set (open_pairs (persist_identity_conflicts now ps cs))"
proof -
  show mono: "set (open_pairs cs) \<subseteq> set (open_pairs (persist_identity_conflicts now ps cs))" for ps cs
    unfolding persist_identity_conflicts_def
    by (induction ps arbitrary: cs) (auto dest: subsetD [OF persist_pair_lists(1)])
  assume "p \<in> set ps" and p: "fst (snd (snd p)) \<noteq> snd (snd (snd p))"
  then obtain xs ys where "ps = xs @ p # ys" by (auto simp: in_set_conv_decomp)
  then have "persist_identity_conflicts now ps cs =
      persist_identity_conflicts now ys (persist_pair now p (persist_identity_conflicts now xs cs))"
    by (simp add: persist_identity_conflicts_def)
  with persist_pair_lists(2) [OF p] mono show "ordered_pair p \<in> set (open_pairs (persist_identity_conflicts now ps cs))" by fastforce
qed

lemma provider_pairs_complete:
  assumes "rows = xs @ (i, k, v, n) # ys" and "key = provider_identity v k n" and "key \<noteq> ''''"
    and "other \<in> set (get_or [] seen key) \<or> (\<exists>k' v' n'. (other, k', v', n') \<in> set xs \<and> provider_identity v' k' n' = key)"
  shows "(k, ''provider_identity'', other, i) \<in> set (provider_pairs seen rows)"
  using assms
proof (induction xs arbitrary: rows seen)
  case Nil
  then show ?case by (simp add: Let_def)
next
  case (Cons x xs)
  obtain i' k' v' n' where x: "x = (i', k', v', n')" by (cases x)
  let ?key = "provider_identity v' k' n'"
  let ?seen = "if ?key = '''' then seen else AList.update ?key (get_or [] seen ?key @ [i']) seen"
  have "other \<in> set (get_or [] ?seen key) \<or> (\<exists>k' v' n'. (other, k', v', n') \<in> set xs \<and> provider_identity v' k' n' = key)"
    using Cons.prems(3,4) x by (auto simp: get_or_def)
  from Cons.IH [OF refl Cons.prems(2,3) this] show ?case
    unfolding Cons.prems(1) x by (auto simp: Let_def)
qed

text \<open>
  C27: Titles that a provider calls the same are brought before the owner. After a scan looked for
  them, any two titles that are not merged and have the same positive number at the provider, of
  the same kind, are an open pair, whatever was on the list; and no pair is open twice.
\<close>

theorem provider_duplicates_listed:
  assumes "conflicts_ok cs" and "(i, k, p, v) \<in> set rows" and "(i', k', p', v') \<in> set rows" and "i < i'"
    and "provider_identity p k v = provider_identity p' k' v'" and "provider_identity p k v \<noteq> ''''"
  shows "distinct (open_pairs (detect_provider_conflicts now rows cs)) \<and>
    (\<exists>kind \<in> {k, k'}. (kind, ''provider_identity'', i, i') \<in> set (open_pairs (detect_provider_conflicts now rows cs)))"
proof -
  let ?cs = "detect_provider_conflicts now rows cs"
  have listed: "ordered_pair (c, ''provider_identity'', a, b) \<in> set (open_pairs ?cs)"
    if "rows = xs @ (b, c, q, n) # ys" "(a, c', q', n') \<in> set xs" "provider_identity q c n = provider_identity q' c' n'"
      "provider_identity q c n \<noteq> ''''" "a \<noteq> b" for a b c c' q q' n n' xs ys
  proof -
    have "(c, ''provider_identity'', a, b) \<in> set (provider_pairs [] rows)"
      by (rule provider_pairs_complete [OF that(1) refl that(4)]) (use that(2,3) in auto)
    from persist_lists(2) [OF this] that(5) show ?thesis unfolding detect_provider_conflicts_def by simp
  qed
  have apart: "\<not> i' < i" "i \<noteq> i'" using assms(4) by auto
  obtain xs ys where rows: "rows = xs @ (i', k', p', v') # ys" using assms(3) by (auto simp: in_set_conv_decomp)
  have "\<exists>kind \<in> {k, k'}. (kind, ''provider_identity'', i, i') \<in> set (open_pairs ?cs)"
  proof (cases "(i, k, p, v) \<in> set xs")
    case True
    from listed [OF rows True] assms(4-6) apart show ?thesis by (auto simp: ordered_pair_def)
  next
    case False
    then have "(i, k, p, v) \<in> set ys" using assms(2,4) rows by auto
    then obtain us vs where "rows = (xs @ (i', k', p', v') # us) @ (i, k, p, v) # vs" using rows by (auto simp: in_set_conv_decomp)
    from listed [OF this, of i' k' p' v'] assms(4-6) apart show ?thesis by (auto simp: ordered_pair_def)
  qed
  moreover have "conflicts_ok ?cs" unfolding detect_provider_conflicts_def by (rule persist_pairs_ok [OF assms(1)])
  ultimately show ?thesis by (simp add: conflicts_ok_def)
qed

theorem provider_duplicates_listed_witness:
  "distinct (open_pairs (detect_provider_conflicts 5 [(''b'', ''film'', ''tmdb'', ''007''), (''a'', ''film'', ''tmdb'', ''7'')] [])) \<and>
   (''film'', ''provider_identity'', ''a'', ''b'') \<in> set (open_pairs (detect_provider_conflicts 5
     [(''b'', ''film'', ''tmdb'', ''007''), (''a'', ''film'', ''tmdb'', ''7'')] []))"
proof -
  have "digits_val 0 ''7'' = Some 7" "digits_val 0 ''007'' = Some 7" by code_simp+
  then have "provider_identity ''tmdb'' ''film'' ''7'' = provider_identity ''tmdb'' ''film'' ''007''"
    "provider_identity ''tmdb'' ''film'' ''7'' \<noteq> ''''" by (simp_all add: provider_identity_def)
  moreover have "(''a'' :: string) < ''b''" by code_simp
  moreover have "conflicts_ok []" by (simp add: conflicts_ok_def open_pairs_def)
  ultimately show ?thesis
    using provider_duplicates_listed [of "[]" "''a''" "''film''" "''tmdb''" "''7''"
        "[(''b'', ''film'', ''tmdb'', ''007''), (''a'', ''film'', ''tmdb'', ''7'')]" "''b''" "''film''" "''tmdb''" "''007''" 5]
    by simp
qed

end
