(* ===== verification/IdentityMerge.thy ===== *)
theory IdentityMerge
  imports Progress Identity
begin

text \<open>
  Merging two titles that are the same, and undoing it (backend/catalog/identity_merge.go). Each
  operation is one transaction under the catalog's mutex. The tables are lists of rows; the titles
  in memory, which the code refreshes from the tables when it commits, are the rows. Viewing
  progress is that of the household. The rows that only artwork reads are left out.
\<close>

datatype identity_error = MetadataBusy | MetadataNotFound | IdentityConflict | NoMergeId | IdentityDatabase

record identity_item =
  ii_id :: string
  ii_kind :: string
  ii_title :: string
  ii_series :: string
  ii_season_id :: string
  ii_season :: int
  ii_episode :: int
  ii_available :: bool
  ii_playable :: bool
  ii_merged :: string
  ii_provider :: string
  ii_provider_id :: string

record identity_series =
  is_id :: string
  is_demo :: bool
  is_playable :: bool
  is_merged :: string
  is_provider :: string
  is_provider_id :: string

datatype merge_state = MergeActive | Unmerged | MergeConflicted

record title_merge =
  im_id :: string
  im_kind :: string
  im_survivor :: string
  im_source :: string
  im_state :: merge_state
  im_created :: int
  im_unmerged :: int
  im_decisions :: "string list"

datatype snapshot_phase = Before | After

text \<open>
  The snapshots of a merge: progress by profile and title, dismissals by profile, kind and title,
  and the series and season of episodes. A version membership has the kind, the canonical title
  and the member; \<open>id_ordered\<close> is the series of each row of a saved viewing order.
\<close>

record identity_db =
  id_scanning :: bool
  id_items :: "identity_item list"
  id_series :: "identity_series list"
  id_house :: household
  id_dismissed :: "(string \<times> string \<times> string, int) gomap"
  id_merges :: "title_merge list"
  id_conflicts :: "conflict_row list"
  id_progress_snaps :: "(string \<times> snapshot_phase \<times> string \<times> string, progress_row) gomap"
  id_dismissed_snaps :: "(string \<times> snapshot_phase \<times> string \<times> string \<times> string, int) gomap"
  id_episode_snaps :: "(string \<times> string, string \<times> string) gomap"
  id_versions :: "(string \<times> string \<times> string) list"
  id_ordered :: "string list"

section \<open>What active merges do to the rows\<close>

definition active_merges :: "title_merge list \<Rightarrow> title_merge list" where
  "active_merges ms = filter (\<lambda>m. im_state m = MergeActive) ms"

definition merge_survivor :: "bool \<Rightarrow> title_merge list \<Rightarrow> string \<Rightarrow> string option" where
  "merge_survivor series ms i =
    map_option im_survivor (find (\<lambda>m. im_source m = i \<and> (im_kind m = ''series'') = series) ms)"

definition or_blank :: "string option \<Rightarrow> string" where
  "or_blank s = (case s of None \<Rightarrow> '''' | Some x \<Rightarrow> x)"

text \<open>A title is played from its own files, and a survivor from those of its source.\<close>

definition source_available :: "title_merge list \<Rightarrow> identity_item list \<Rightarrow> string \<Rightarrow> bool" where
  "source_available ms items i \<longleftrightarrow>
     (\<exists>m \<in> set ms. im_survivor m = i \<and> im_kind m \<noteq> ''series'' \<and> (\<exists>r \<in> set items. ii_id r = im_source m \<and> ii_available r))"

definition place_item :: "title_merge list \<Rightarrow> identity_item list \<Rightarrow> identity_item \<Rightarrow> identity_item" where
  "place_item ms items r =
    (let merged = or_blank (merge_survivor False ms (ii_id r)) in
     r\<lparr>ii_merged := merged,
       ii_playable := (if merged \<noteq> '''' then False else if ii_available r then True else source_available ms items (ii_id r)),
       ii_series := (case merge_survivor True ms (ii_series r) of None \<Rightarrow> ii_series r | Some s \<Rightarrow> s)\<rparr>)"

definition place_series :: "title_merge list \<Rightarrow> identity_item list \<Rightarrow> identity_series \<Rightarrow> identity_series" where
  "place_series ms items s =
    s\<lparr>is_merged := or_blank (merge_survivor True ms (is_id s)),
      is_playable := (if is_demo s then is_playable s else \<exists>r \<in> set items. ii_series r = is_id s \<and> ii_playable r)\<rparr>"

text \<open>Episodes that a scan found after their series was merged get the snapshot the others have.\<close>

definition snap_episode :: "string \<Rightarrow> identity_item \<Rightarrow> (string \<times> string, string \<times> string) gomap \<Rightarrow> (string \<times> string, string \<times> string) gomap" where
  "snap_episode mid r snaps =
    (if has_key snaps (mid, ii_id r) then snaps else AList.update (mid, ii_id r) (ii_series r, ii_season_id r) snaps)"

definition snap_episodes :: "title_merge list \<Rightarrow> identity_item list \<Rightarrow> (string \<times> string, string \<times> string) gomap \<Rightarrow>
    (string \<times> string, string \<times> string) gomap" where
  "snap_episodes ms items =
    fold (\<lambda>(m, r). snap_episode (im_id m) r)
      (concat (map (\<lambda>m. map (Pair m) (filter (\<lambda>r. ii_series r = im_source m \<and> im_kind m = ''series'') items)) ms))"

text \<open>The dismissals of a source move to its survivor, the later one wins.\<close>

definition dismissal_target :: "title_merge list \<Rightarrow> string \<Rightarrow> string \<Rightarrow> string option" where
  "dismissal_target ms kind i = map_option im_survivor (find (\<lambda>m. im_source m = i \<and> im_kind m = kind) ms)"

definition move_dismissal :: "title_merge list \<Rightarrow> (string \<times> string \<times> string) \<times> int \<Rightarrow>
    (string \<times> string \<times> string, int) gomap \<Rightarrow> (string \<times> string \<times> string, int) gomap" where
  "move_dismissal ms e d =
    (case e of ((p, k, i), at) \<Rightarrow>
      (case dismissal_target ms k i of
         None \<Rightarrow> d
       | Some s \<Rightarrow> AList.update (p, k, s) (max (get_or at d (p, k, s)) at) d))"

definition move_dismissals :: "title_merge list \<Rightarrow> (string \<times> string \<times> string, int) gomap \<Rightarrow>
    (string \<times> string \<times> string, int) gomap" where
  "move_dismissals ms d =
    filter (\<lambda>((p, k, i), _). dismissal_target ms k i = None) (fold (move_dismissal ms) d d)"

definition merged_map :: "title_merge list \<Rightarrow> (string, string) gomap" where
  "merged_map ms = map (\<lambda>m. (im_source m, im_survivor m)) ms"

definition apply_mappings :: "identity_db \<Rightarrow> identity_db" where
  "apply_mappings d =
    (let ms = active_merges (id_merges d);
         items = map (place_item ms (id_items d)) (id_items d) in
     d\<lparr>id_episode_snaps := snap_episodes ms (id_items d) (id_episode_snaps d),
       id_dismissed := move_dismissals ms (id_dismissed d),
       id_items := items,
       id_series := map (place_series ms items) (id_series d),
       id_house := (id_house d)\<lparr>hh_merged := merged_map ms\<rparr>\<rparr>)"

section \<open>Merging\<close>

text \<open>The title an identifier stands for: of films and episodes the kind has to agree.\<close>

definition identity_target :: "identity_db \<Rightarrow> string \<Rightarrow> string \<Rightarrow> identity_item option" where
  "identity_target d kind i =
    (if kind = ''film'' \<or> kind = ''episode'' then find (\<lambda>r. ii_id r = i \<and> ii_kind r = kind) (id_items d)
     else if kind = ''series''
     then map_option (\<lambda>s. \<lparr>ii_id = i, ii_kind = ''series'', ii_title = '''', ii_series = '''', ii_season_id = '''', ii_season = 0, ii_episode = 0,
        ii_available = False, ii_playable = is_playable s, ii_merged = is_merged s,
        ii_provider = is_provider s, ii_provider_id = is_provider_id s\<rparr>) (find (\<lambda>s. is_id s = i) (id_series d))
     else None)"

definition in_versions :: "identity_db \<Rightarrow> string \<Rightarrow> string \<Rightarrow> string \<Rightarrow> bool" where
  "in_versions d kind a b \<longleftrightarrow>
     (kind = ''film'' \<or> kind = ''series'') \<and>
     (\<exists>(k, canonical, member) \<in> set (id_versions d). k = kind \<and> (canonical = a \<or> canonical = b \<or> member = a \<or> member = b))"

definition in_active_merge :: "title_merge list \<Rightarrow> string \<Rightarrow> string \<Rightarrow> bool" where
  "in_active_merge ms a b \<longleftrightarrow>
     (\<exists>m \<in> set (active_merges ms). im_survivor m = a \<or> im_survivor m = b \<or> im_source m = a \<or> im_source m = b)"

definition affected_line :: "identity_item \<Rightarrow> string" where
  "affected_line r = ''Affected episode: '' @ ii_title r @ '' (S'' @ pad_int 2 (ii_season r) @ ''E'' @ pad_int 2 (ii_episode r) @ '', '' @ ii_id r @ '').''"

definition affected_decisions :: "identity_db \<Rightarrow> string \<Rightarrow> string \<Rightarrow> string \<Rightarrow> string list" where
  "affected_decisions d kind survivor src =
    (if kind \<noteq> ''series'' then []
     else sort (map affected_line (filter (\<lambda>r. ii_series r = survivor \<or> ii_series r = src) (id_items d))))"

definition merge_decision :: string where
  "merge_decision = ''Both original title records are retained. Existing survivor progress is kept; source-only progress is copied.''"

fun tag_dismissals :: "string \<Rightarrow> snapshot_phase \<Rightarrow> string \<Rightarrow> string \<Rightarrow> string \<Rightarrow> (string \<times> string \<times> string, int) gomap \<Rightarrow>
    (string \<times> snapshot_phase \<times> string \<times> string \<times> string, int) gomap" where
  "tag_dismissals mid phase kind survivor src [] = []"
| "tag_dismissals mid phase kind survivor src (((p, k, i), at) # d) =
    (if k = kind \<and> (i = survivor \<or> i = src) then ((mid, phase, p, k, i), at) # tag_dismissals mid phase kind survivor src d
     else tag_dismissals mid phase kind survivor src d)"

definition snap_dismissals :: "string \<Rightarrow> snapshot_phase \<Rightarrow> string \<Rightarrow> string \<Rightarrow> string \<Rightarrow> identity_db \<Rightarrow> identity_db" where
  "snap_dismissals mid phase kind survivor src d =
    (if kind \<noteq> ''film'' \<and> kind \<noteq> ''series'' then d
     else d\<lparr>id_dismissed_snaps := id_dismissed_snaps d @ tag_dismissals mid phase kind survivor src (id_dismissed d)\<rparr>)"

fun tag_progress :: "string \<Rightarrow> snapshot_phase \<Rightarrow> string \<Rightarrow> string \<Rightarrow> (string \<times> string, progress_row) gomap \<Rightarrow>
    (string \<times> snapshot_phase \<times> string \<times> string, progress_row) gomap" where
  "tag_progress mid phase survivor src [] = []"
| "tag_progress mid phase survivor src (((p, i), row) # rows) =
    (if i = survivor \<or> i = src then ((mid, phase, p, i), row) # tag_progress mid phase survivor src rows
     else tag_progress mid phase survivor src rows)"

definition snap_progress :: "string \<Rightarrow> snapshot_phase \<Rightarrow> string \<Rightarrow> string \<Rightarrow> identity_db \<Rightarrow> identity_db" where
  "snap_progress mid phase survivor src d =
    d\<lparr>id_progress_snaps := id_progress_snaps d @ tag_progress mid phase survivor src (hh_progress (id_house d))\<rparr>"

definition with_progress :: "((string \<times> string, progress_row) gomap \<Rightarrow> (string \<times> string, progress_row) gomap) \<Rightarrow>
    identity_db \<Rightarrow> identity_db" where
  "with_progress f d = d\<lparr>id_house := (id_house d)\<lparr>hh_progress := f (hh_progress (id_house d))\<rparr>\<rparr>"

text \<open>Progress that only the source has is copied; the rows of both are fenced.\<close>

fun copied_rows :: "(string \<times> string, progress_row) gomap \<Rightarrow> string \<Rightarrow> string \<Rightarrow> (string \<times> string, progress_row) gomap \<Rightarrow>
    (string \<times> string, progress_row) gomap" where
  "copied_rows known survivor src [] = []"
| "copied_rows known survivor src (((p, i), row) # rows) =
    (if i = src \<and> \<not> has_key known (p, survivor) then ((p, survivor), row) # copied_rows known survivor src rows
     else copied_rows known survivor src rows)"

definition copy_progress :: "string \<Rightarrow> string \<Rightarrow> (string \<times> string, progress_row) gomap \<Rightarrow> (string \<times> string, progress_row) gomap" where
  "copy_progress survivor src rows = rows @ copied_rows rows survivor src rows"

definition fence_row :: "progress_row \<Rightarrow> progress_row" where
  "fence_row row = row\<lparr>pr_generation := pr_generation row + 1, pr_observation := 0\<rparr>"

definition fence_progress :: "string \<Rightarrow> string \<Rightarrow> (string \<times> string, progress_row) gomap \<Rightarrow> (string \<times> string, progress_row) gomap" where
  "fence_progress survivor src rows =
    map (\<lambda>((p, i), row). ((p, i), if i = survivor \<or> i = src then fence_row row else row)) rows"

definition snap_series :: "string \<Rightarrow> string \<Rightarrow> identity_db \<Rightarrow> identity_db" where
  "snap_series mid src d =
    d\<lparr>id_episode_snaps := id_episode_snaps d @
      map (\<lambda>r. ((mid, ii_id r), (ii_series r, ii_season_id r))) (filter (\<lambda>r. ii_series r = src) (id_items d))\<rparr>"

definition resolve_conflicts :: "int \<Rightarrow> string \<Rightarrow> string \<Rightarrow> string \<Rightarrow> conflict_row list \<Rightarrow> conflict_row list" where
  "resolve_conflicts now kind a b =
    map (\<lambda>c. if cf_kind c = kind \<and> (cf_left c = a \<and> cf_right c = b \<or> cf_left c = b \<and> cf_right c = a) \<and> cf_state c = ''open''
      then c\<lparr>cf_state := ''merged'', cf_resolved := now\<rparr> else c)"

definition merge_rows :: "int \<Rightarrow> string \<Rightarrow> string \<Rightarrow> string \<Rightarrow> string \<Rightarrow> identity_db \<Rightarrow> identity_db" where
  "merge_rows now mid kind survivor src d =
    (let decisions = affected_decisions d kind survivor src @ [merge_decision];
         d1 = d\<lparr>id_merges := id_merges d @ [\<lparr>im_id = mid, im_kind = kind, im_survivor = survivor, im_source = src,
           im_state = MergeActive, im_created = now, im_unmerged = 0, im_decisions = decisions\<rparr>]\<rparr>;
         d2 = snap_dismissals mid Before kind survivor src d1;
         d3 = (if kind = ''series'' then snap_series mid src d2
           else snap_progress mid After survivor src
             (with_progress (fence_progress survivor src \<circ> copy_progress survivor src)
               (snap_progress mid Before survivor src d2)))
     in d3\<lparr>id_conflicts := resolve_conflicts now kind survivor src (id_conflicts d3)\<rparr>)"

definition merge_transaction :: "int \<Rightarrow> string \<Rightarrow> string \<Rightarrow> string \<Rightarrow> string \<Rightarrow> identity_db \<Rightarrow> identity_db" where
  "merge_transaction now mid kind survivor src d =
    snap_dismissals mid After kind survivor src (apply_mappings (merge_rows now mid kind survivor src d))"

definition merge_identity :: "bool \<Rightarrow> string option \<Rightarrow> int \<Rightarrow> string \<Rightarrow> string \<Rightarrow> string \<Rightarrow> identity_db \<Rightarrow>
    identity_db \<times> (identity_error, string) result" where
  "merge_identity up token now kind survivorID sourceID d =
    (if id_scanning d then (d, Inl MetadataBusy)
     else (case (identity_target d kind survivorID, identity_target d kind sourceID) of
         (Some survivor, Some src) \<Rightarrow>
           (if survivorID = sourceID then (d, Inl IdentityConflict)
            else case token of None \<Rightarrow> (d, Inl NoMergeId) | Some mid \<Rightarrow>
             (let (k, a, b) = (if kind = ''episode'' then (''series'', ii_series survivor, ii_series src) else (kind, survivorID, sourceID)) in
              if \<not> up then (d, Inl IdentityDatabase)
              else if in_versions d k a b then (d, Inl IdentityConflict)
              else if in_active_merge (id_merges d) survivorID sourceID then (d, Inl IdentityConflict)
              else if kind = ''series'' \<and> (survivorID \<in> set (id_ordered d) \<or> sourceID \<in> set (id_ordered d)) then (d, Inl IdentityConflict)
              else if mid \<in> im_id ` set (id_merges d) then (d, Inl IdentityDatabase)
              else (merge_transaction now mid kind survivorID sourceID d, Inr mid)))
       | _ \<Rightarrow> (d, Inl MetadataNotFound)))"

section \<open>Undoing a merge\<close>

text \<open>
  A row of progress that is as the merge left it goes back to what it was; one that was not there
  becomes an empty row with a newer generation, so that old players stay fenced.
\<close>

definition restored_progress :: "progress_row option \<Rightarrow> progress_row \<Rightarrow> progress_row" where
  "restored_progress before row =
    (case before of
       None \<Rightarrow> row\<lparr>pr_position_ms := 0, pr_updated_at := 0, pr_completed := False, pr_completed_at := 0,
          pr_completion_id := '''', pr_generation := pr_generation row + 1, pr_observation := 0\<rparr>
     | Some b \<Rightarrow> row\<lparr>pr_position_ms := pr_position_ms b, pr_updated_at := pr_updated_at b, pr_completed := pr_completed b,
          pr_completed_at := pr_completed_at b, pr_completion_id := pr_completion_id b,
          pr_generation := pr_generation row + 1, pr_observation := 0\<rparr>)"

fun after_rows :: "string \<Rightarrow> (string \<times> snapshot_phase \<times> string \<times> string, progress_row) gomap \<Rightarrow> ((string \<times> string) \<times> progress_row) list" where
  "after_rows mid [] = []"
| "after_rows mid (((m, phase, p, i), row) # rows) =
    (if m = mid \<and> phase = After then ((p, i), row) # after_rows mid rows else after_rows mid rows)"

definition kept_line :: "string \<times> string \<Rightarrow> string" where
  "kept_line pi = ''Retained newer viewing state for profile '' @ fst pi @ '' on title '' @ snd pi @ ''.''"

fun restore_loop :: "string \<Rightarrow> ((string \<times> string) \<times> progress_row) list \<Rightarrow> string list \<Rightarrow> identity_db \<Rightarrow> string list \<times> identity_db" where
  "restore_loop mid [] decisions d = (decisions, d)"
| "restore_loop mid ((pi, row) # rows) decisions d =
    (if map_of (hh_progress (id_house d)) pi \<noteq> Some row then restore_loop mid rows (decisions @ [kept_line pi]) d
     else restore_loop mid rows decisions
       (with_progress (AList.update pi (restored_progress (map_of (id_progress_snaps d) (mid, Before, fst pi, snd pi)) row)) d))"

definition restore_episodes :: "string \<Rightarrow> (string \<times> string, string \<times> string) gomap \<Rightarrow> identity_item list \<Rightarrow> identity_item list" where
  "restore_episodes mid snaps =
    map (\<lambda>r. case map_of snaps (mid, ii_id r) of None \<Rightarrow> r | Some (s, n) \<Rightarrow> r\<lparr>ii_series := s, ii_season_id := n\<rparr>)"

text \<open>One profile's dismissals: what changed since the merge counts for both, and else what was before.\<close>

definition put_if :: "'k \<Rightarrow> 'v option \<Rightarrow> ('k, 'v) gomap \<Rightarrow> ('k, 'v) gomap" where
  "put_if k v m = (case v of None \<Rightarrow> m | Some x \<Rightarrow> AList.update k x m)"

definition reconcile_profile :: "string \<Rightarrow> string \<Rightarrow> string \<Rightarrow> string \<Rightarrow>
    (string \<times> snapshot_phase \<times> string \<times> string \<times> string, int) gomap \<Rightarrow> string \<Rightarrow>
    (string \<times> string \<times> string, int) gomap \<Rightarrow> (string \<times> string \<times> string, int) gomap" where
  "reconcile_profile mid kind survivor src snaps p d =
    (let before = (\<lambda>i. map_of snaps (mid, Before, p, kind, i));
         after = map_of snaps (mid, After, p, kind, survivor);
         current = map_of d (p, kind, survivor);
         d' = AList.delete (p, kind, src) (AList.delete (p, kind, survivor) d)
     in if current \<noteq> after then put_if (p, kind, src) current (put_if (p, kind, survivor) current d')
        else put_if (p, kind, src) (before src) (put_if (p, kind, survivor) (before survivor) d'))"

definition reconcile_dismissals :: "string \<Rightarrow> string \<Rightarrow> string \<Rightarrow> string \<Rightarrow> identity_db \<Rightarrow> identity_db" where
  "reconcile_dismissals mid kind survivor src d =
    (if kind \<noteq> ''film'' \<and> kind \<noteq> ''series'' then d
     else (let profiles = remdups (map (\<lambda>((m, phase, p, k, i), _). p) (filter (\<lambda>((m, _), _). m = mid) (id_dismissed_snaps d)) @
             map (\<lambda>((p, k, i), _). p) (filter (\<lambda>((p, k, i), _). k = kind \<and> (i = survivor \<or> i = src)) (id_dismissed d)))
       in d\<lparr>id_dismissed := fold (reconcile_profile mid kind survivor src (id_dismissed_snaps d)) profiles (id_dismissed d)\<rparr>))"

definition close_merge :: "int \<Rightarrow> string \<Rightarrow> string list \<Rightarrow> title_merge list \<Rightarrow> title_merge list" where
  "close_merge now mid decisions =
    map (\<lambda>m. if im_id m = mid then m\<lparr>im_state := Unmerged, im_unmerged := now, im_decisions := decisions\<rparr> else m)"

definition release_titles :: "string \<Rightarrow> string \<Rightarrow> string \<Rightarrow> identity_db \<Rightarrow> identity_db" where
  "release_titles kind survivor src d =
    (if kind = ''series'' then d\<lparr>id_series := map (\<lambda>s. if is_id s = src then s\<lparr>is_merged := ''''\<rparr> else s) (id_series d)\<rparr>
     else d\<lparr>id_items := map (\<lambda>r. let r = (if ii_id r = src then r\<lparr>ii_merged := ''''\<rparr> else r) in
         if ii_id r = src \<or> ii_id r = survivor then r\<lparr>ii_playable := ii_available r\<rparr> else r) (id_items d)\<rparr>)"

definition unmerge_rows :: "int \<Rightarrow> title_merge \<Rightarrow> identity_db \<Rightarrow> identity_db" where
  "unmerge_rows now m d =
    (let mid = im_id m; kind = im_kind m; survivor = im_survivor m; src = im_source m;
         (decisions, d1) = restore_loop mid (after_rows mid (id_progress_snaps d)) (affected_decisions d kind survivor src) d;
         d2 = (if kind = ''series'' then d1\<lparr>id_items := restore_episodes mid (id_episode_snaps d1) (id_items d1)\<rparr> else d1);
         d3 = reconcile_dismissals mid kind survivor src d2;
         d4 = d3\<lparr>id_merges := close_merge now mid decisions (id_merges d3)\<rparr>
     in release_titles kind survivor src d4)"

definition unmerge_transaction :: "int \<Rightarrow> title_merge \<Rightarrow> identity_db \<Rightarrow> identity_db" where
  "unmerge_transaction now m d = apply_mappings (unmerge_rows now m d)"

definition unmerge_identity :: "bool \<Rightarrow> int \<Rightarrow> string \<Rightarrow> identity_db \<Rightarrow> identity_db \<times> (identity_error, unit) result" where
  "unmerge_identity up now mid d =
    (if id_scanning d then (d, Inl MetadataBusy)
     else if \<not> up then (d, Inl IdentityDatabase)
     else (case find (\<lambda>m. im_id m = mid) (id_merges d) of
         None \<Rightarrow> (d, Inl MetadataNotFound)
       | Some m \<Rightarrow>
          if im_state m \<noteq> MergeActive then (d, Inl IdentityConflict)
          else (unmerge_transaction now m d, Inr ())))"

section \<open>Runs\<close>

text \<open>
  Merges and their undoing, with what else changes the rows: players, the owner's dismissals, other
  repairs of versions and orders, and scans, which leave new rows and look for duplicates before
  they apply the active merges. The check that a title is shown and the change of its dismissal,
  two statements in the code, are one step.
\<close>

datatype identity_call =
    MergeTitles bool "string option" int string string string
  | UnmergeTitles bool int string
  | PlayerCall progress_call
  | DismissTitle string string string "int option"
  | ChangeVersions "(string \<times> string \<times> string) list" "string list"
  | ScanBegins
  | ScanCommits int "identity_item list" "identity_series list" "identity_pair list"
  | ScanFails

definition title_shown :: "identity_db \<Rightarrow> string \<Rightarrow> string \<Rightarrow> bool" where
  "title_shown d kind i \<longleftrightarrow>
     (kind = ''film'' \<and> (\<exists>r \<in> set (id_items d). ii_id r = i \<and> ii_kind r = ''film'' \<and> ii_series r = '''' \<and> ii_merged r = '''')) \<or>
     (kind = ''series'' \<and> (\<exists>s \<in> set (id_series d). is_id s = i \<and> is_merged s = ''''))"

definition provider_rows :: "identity_db \<Rightarrow> (string \<times> string \<times> string \<times> string) list" where
  "provider_rows d =
    map (\<lambda>r. (ii_id r, ii_kind r, ii_provider r, ii_provider_id r)) (filter (\<lambda>r. ii_merged r = '''') (id_items d)) @
    map (\<lambda>s. (is_id s, ''series'', is_provider s, is_provider_id s)) (filter (\<lambda>s. is_merged s = '''') (id_series d))"

definition valid_rows :: "identity_item list \<Rightarrow> identity_series list \<Rightarrow> bool" where
  "valid_rows items series \<longleftrightarrow> distinct (map ii_id items) \<and> '''' \<notin> ii_id ` set items \<and> '''' \<notin> is_id ` set series"

fun identity_step :: "identity_db \<Rightarrow> identity_call \<Rightarrow> identity_db" where
  "identity_step d (MergeTitles up token now kind survivor src) = fst (merge_identity up token now kind survivor src d)"
| "identity_step d (UnmergeTitles up now mid) = fst (unmerge_identity up now mid d)"
| "identity_step d (PlayerCall c) = d\<lparr>id_house := progress_step (id_house d) c\<rparr>"
| "identity_step d (DismissTitle p kind i at) =
    (if title_shown d kind i
     then d\<lparr>id_dismissed := (case at of None \<Rightarrow> AList.delete (p, kind, i) (id_dismissed d)
        | Some t \<Rightarrow> AList.update (p, kind, i) t (id_dismissed d))\<rparr>
     else d)"
| "identity_step d (ChangeVersions versions ordered) = d\<lparr>id_versions := versions, id_ordered := ordered\<rparr>"
| "identity_step d ScanBegins = d\<lparr>id_scanning := True\<rparr>"
| "identity_step d (ScanCommits now items series pairs) =
    (if id_scanning d \<and> valid_rows items series
     then (let d1 = d\<lparr>id_items := items, id_series := series\<rparr>;
               d2 = d1\<lparr>id_conflicts := detect_provider_conflicts now (provider_rows d1)
                 (persist_identity_conflicts now pairs (id_conflicts d1))\<rparr>
           in (apply_mappings d2)\<lparr>id_scanning := False\<rparr>)
     else d)"
| "identity_step d ScanFails = d\<lparr>id_scanning := False\<rparr>"

definition empty_identities :: "string list \<Rightarrow> identity_db" where
  "empty_identities profiles =
    \<lparr>id_scanning = False, id_items = [], id_series = [], id_house = empty_household profiles, id_dismissed = [], id_merges = [],
     id_conflicts = [], id_progress_snaps = [], id_dismissed_snaps = [], id_episode_snaps = [], id_versions = [], id_ordered = []\<rparr>"

end
