(* ===== verification/MergeProps.thy ===== *)
theory MergeProps
  imports IdentityMerge
begin

text \<open>
  What merging keeps: active merges never share a title, the rows always show what the active
  merges say, the players of both titles are fenced, and undoing a merge gives everything back.
\<close>

section \<open>Rows under the active merges\<close>

text \<open>Active merges share no title, so a survivor is never a source.\<close>

definition merges_apart :: "title_merge list \<Rightarrow> bool" where
  "merges_apart ms \<longleftrightarrow> distinct (concat (map (\<lambda>m. [im_survivor m, im_source m]) ms))"

lemma merge_survivor_mem:
  "merge_survivor series ms i = Some s \<Longrightarrow> \<exists>m \<in> set ms. im_source m = i \<and> im_survivor m = s \<and> (im_kind m = ''series'') = series"
  by (auto simp: merge_survivor_def find_Some_iff)

lemma merge_survivor_None: "i \<notin> im_source ` set ms \<Longrightarrow> merge_survivor series ms i = None"
  by (auto simp: merge_survivor_def find_None_iff)

lemma dismissal_target_None: "i \<notin> im_source ` set ms \<Longrightarrow> dismissal_target ms k i = None"
  by (auto simp: dismissal_target_def find_None_iff)

lemma merges_apart_Cons:
  "merges_apart (m # ms) \<longleftrightarrow> im_survivor m \<noteq> im_source m \<and> merges_apart ms \<and>
     (\<forall>x \<in> {im_survivor m, im_source m}. x \<notin> im_survivor ` set ms \<and> x \<notin> im_source ` set ms)"
  by (auto simp: merges_apart_def)

lemma survivor_not_source:
  "merges_apart ms \<Longrightarrow> m \<in> set ms \<Longrightarrow> im_survivor m \<notin> im_source ` set ms"
  by (induction ms) (auto simp: merges_apart_Cons, metis imageI)

lemma survivor_unmerged:
  "merges_apart ms \<Longrightarrow> merge_survivor series ms i = Some s \<Longrightarrow> merge_survivor series' ms s = None"
  using merge_survivor_mem survivor_not_source merge_survivor_None by metis

lemma find_append_single: "find P (xs @ [x]) = (case find P xs of None \<Rightarrow> if P x then Some x else None | Some y \<Rightarrow> Some y)"
  by (induction xs) auto

lemma merge_survivor_append:
  "merge_survivor series (ms @ [m]) i =
    (case merge_survivor series ms i of None \<Rightarrow> if im_source m = i \<and> (im_kind m = ''series'') = series then Some (im_survivor m) else None
     | Some s \<Rightarrow> Some s)"
  by (simp add: merge_survivor_def find_append_single split: option.split)

lemma dismissal_target_append:
  "dismissal_target (ms @ [m]) k i =
    (case dismissal_target ms k i of None \<Rightarrow> if im_source m = i \<and> im_kind m = k then Some (im_survivor m) else None
     | Some s \<Rightarrow> Some s)"
  by (simp add: dismissal_target_def find_append_single split: option.split)

text \<open>What a scan knows of an item; the rest of its row follows from it and the active merges.\<close>

definition core_of :: "identity_item \<Rightarrow> identity_item" where
  "core_of r = r\<lparr>ii_playable := False, ii_merged := ''''\<rparr>"

lemma core_of_fields:
  "core_of r = core_of r' \<longleftrightarrow> ii_id r = ii_id r' \<and> ii_kind r = ii_kind r' \<and> ii_title r = ii_title r' \<and> ii_series r = ii_series r' \<and>
     ii_season_id r = ii_season_id r' \<and> ii_season r = ii_season r' \<and> ii_episode r = ii_episode r' \<and> ii_available r = ii_available r' \<and>
     ii_provider r = ii_provider r' \<and> ii_provider_id r = ii_provider_id r'"
  by (cases r; cases r') (auto simp: core_of_def)

lemma source_available_core:
  assumes "map (\<lambda>r. (ii_id r, ii_available r)) items = map (\<lambda>r. (ii_id r, ii_available r)) items'"
  shows "source_available ms items i = source_available ms items' i"
proof -
  have mem: "(\<exists>r \<in> set xs. ii_id r = j \<and> ii_available r) \<longleftrightarrow> (j, True) \<in> set (map (\<lambda>r. (ii_id r, ii_available r)) xs)" for xs j
    by force
  show ?thesis unfolding source_available_def mem assms ..
qed

lemma place_item_core:
  assumes "core_of r = core_of r'"
    and "map (\<lambda>r. (ii_id r, ii_available r)) items = map (\<lambda>r. (ii_id r, ii_available r)) items'"
  shows "place_item ms items r = place_item ms items' r'"
  using assms(1) source_available_core [OF assms(2), of ms]
  by (cases r; cases r') (simp add: core_of_fields place_item_def Let_def split: option.split)

lemma place_item_keeps [simp]:
  "ii_id (place_item ms items r) = ii_id r" "ii_available (place_item ms items r) = ii_available r"
  "ii_kind (place_item ms items r) = ii_kind r" "ii_title (place_item ms items r) = ii_title r"
  "ii_season_id (place_item ms items r) = ii_season_id r" "ii_season (place_item ms items r) = ii_season r" "ii_episode (place_item ms items r) = ii_episode r"
  "ii_provider (place_item ms items r) = ii_provider r" "ii_provider_id (place_item ms items r) = ii_provider_id r"
  by (simp_all add: place_item_def Let_def)

lemma place_item_series:
  "ii_series (place_item ms items r) = (case merge_survivor True ms (ii_series r) of None \<Rightarrow> ii_series r | Some s \<Rightarrow> s)"
  by (simp add: place_item_def Let_def)

lemma place_again:
  assumes "merges_apart ms"
  shows "map (place_item ms (map (place_item ms items) items)) (map (place_item ms items) items) = map (place_item ms items) items"
proof -
  have "place_item ms (map (place_item ms items) items) (place_item ms items r) = place_item ms items r" for r
  proof -
    have src: "source_available ms (map (place_item ms items) items) i = source_available ms items i" for i
      by (rule source_available_core) (simp add: comp_def)
    have "merge_survivor True ms (ii_series (place_item ms items r)) = None"
      using survivor_unmerged [OF assms] by (auto simp: place_item_series split: option.split)
    then show ?thesis by (simp add: place_item_def [of _ "map _ _"] src Let_def) (simp add: place_item_def Let_def)
  qed
  then show ?thesis by simp
qed

lemma place_series_again: "place_series ms items (place_series ms items s) = place_series ms items s"
  by (simp add: place_series_def)

lemma place_series_keeps [simp]: "is_id (place_series ms items s) = is_id s" "is_demo (place_series ms items s) = is_demo s"
  by (simp_all add: place_series_def)

section \<open>Dismissals under the active merges\<close>

definition dismissals_clear :: "title_merge list \<Rightarrow> (string \<times> string \<times> string, int) gomap \<Rightarrow> bool" where
  "dismissals_clear ms d \<longleftrightarrow> (\<forall>((p, k, i), _) \<in> set d. dismissal_target ms k i = None)"

lemma dismissals_clear_map: "dismissals_clear ms d \<longleftrightarrow> (\<forall>p k i. map_of d (p, k, i) \<noteq> None \<longrightarrow> dismissal_target ms k i = None)"
proof -
  have "(\<exists>v. ((p, k, i), v) \<in> set d) \<longleftrightarrow> map_of d (p, k, i) \<noteq> None" for p k i
    by (metis map_of_eq_None_iff not_None_eq map_of_SomeD imageI fst_conv weak_map_of_SomeI)
  then show ?thesis by (fastforce simp: dismissals_clear_def)
qed

lemma move_dismissals_id:
  assumes "dismissals_clear ms d"
  shows "move_dismissals ms d = d"
proof -
  have "fold (move_dismissal ms) es acc = acc" if "dismissals_clear ms es" for es acc
    using that by (induction es arbitrary: acc) (auto simp: dismissals_clear_def move_dismissal_def)
  with assms show ?thesis by (auto simp: move_dismissals_def dismissals_clear_def intro!: filter_True)
qed

lemma move_dismissals_clear: "dismissals_clear ms (move_dismissals ms d)"
  by (auto simp: dismissals_clear_def move_dismissals_def)

section \<open>The invariant\<close>

lemma snap_episodes_none:
  "(\<And>m r. m \<in> set ms \<Longrightarrow> r \<in> set items \<Longrightarrow> \<not> (ii_series r = im_source m \<and> im_kind m = ''series'')) \<Longrightarrow>
   snap_episodes ms items snaps = snaps"
proof -
  assume none: "\<And>m r. m \<in> set ms \<Longrightarrow> r \<in> set items \<Longrightarrow> \<not> (ii_series r = im_source m \<and> im_kind m = ''series'')"
  then have "concat (map (\<lambda>m. map (Pair m) (filter (\<lambda>r. ii_series r = im_source m \<and> im_kind m = ''series'') items)) ms) = []"
    by (auto simp: filter_empty_conv)
  then show ?thesis by (simp only: snap_episodes_def fold_simps)
qed

lemma placed_series_free:
  assumes "merges_apart ms" and "m \<in> set ms"
  shows "\<not> (ii_series (place_item ms items r) = im_source m \<and> im_kind m = ''series'')"
proof -
  have "merge_survivor True ms (ii_series (place_item ms items r)) = None"
    using survivor_unmerged [OF assms(1)] by (auto simp: place_item_series split: option.split)
  then show ?thesis using assms(2) by (auto simp: merge_survivor_def find_None_iff)
qed

text \<open>The rows show what the active merges say.\<close>

definition rows_settled :: "identity_db \<Rightarrow> bool" where
  "rows_settled d \<longleftrightarrow>
    (let ms = active_merges (id_merges d) in
     map (place_item ms (id_items d)) (id_items d) = id_items d \<and>
     map (place_series ms (id_items d)) (id_series d) = id_series d \<and>
     dismissals_clear ms (id_dismissed d) \<and> hh_merged (id_house d) = merged_map ms)"

lemma apply_mappings_fields:
  "id_merges (apply_mappings d) = id_merges d"
  "id_items (apply_mappings d) = map (place_item (active_merges (id_merges d)) (id_items d)) (id_items d)"
  "id_series (apply_mappings d) =
    map (place_series (active_merges (id_merges d)) (map (place_item (active_merges (id_merges d)) (id_items d)) (id_items d))) (id_series d)"
  "id_dismissed (apply_mappings d) = move_dismissals (active_merges (id_merges d)) (id_dismissed d)"
  "hh_merged (id_house (apply_mappings d)) = merged_map (active_merges (id_merges d))"
  "hh_progress (id_house (apply_mappings d)) = hh_progress (id_house d)"
  "id_episode_snaps (apply_mappings d) = snap_episodes (active_merges (id_merges d)) (id_items d) (id_episode_snaps d)"
  "id_progress_snaps (apply_mappings d) = id_progress_snaps d" "id_dismissed_snaps (apply_mappings d) = id_dismissed_snaps d"
  "id_conflicts (apply_mappings d) = id_conflicts d" "id_scanning (apply_mappings d) = id_scanning d"
  by (simp_all add: apply_mappings_def Let_def)

lemma apply_mappings_settled:
  assumes "merges_apart (active_merges (id_merges d))"
  shows "rows_settled (apply_mappings d)"
proof -
  let ?ms = "active_merges (id_merges d)" and ?items = "map (place_item (active_merges (id_merges d)) (id_items d)) (id_items d)"
  have "map (place_series ?ms ?items) (map (place_series ?ms ?items) (id_series d)) = map (place_series ?ms ?items) (id_series d)"
    by (simp add: place_series_again)
  then show ?thesis
    unfolding rows_settled_def Let_def apply_mappings_fields using place_again [OF assms] move_dismissals_clear by blast
qed

lemma settled_apply:
  assumes "rows_settled d" and "merges_apart (active_merges (id_merges d))"
  shows "apply_mappings d = d"
proof -
  let ?ms = "active_merges (id_merges d)"
  have items: "map (place_item ?ms (id_items d)) (id_items d) = id_items d"
    and series: "map (place_series ?ms (id_items d)) (id_series d) = id_series d"
    and dismissed: "dismissals_clear ?ms (id_dismissed d)" and house: "hh_merged (id_house d) = merged_map ?ms"
    using assms(1) by (simp_all add: rows_settled_def Let_def)
  have "snap_episodes ?ms (id_items d) (id_episode_snaps d) = id_episode_snaps d"
  proof (rule snap_episodes_none)
    fix m r
    assume m: "m \<in> set ?ms" and "r \<in> set (id_items d)"
    then obtain r' where "r = place_item ?ms (id_items d) r'" using items by (metis (no_types, lifting) image_iff image_set)
    then show "\<not> (ii_series r = im_source m \<and> im_kind m = ''series'')" using placed_series_free [OF assms(2) m] by simp
  qed
  with items series move_dismissals_id [OF dismissed] house show ?thesis
    unfolding apply_mappings_def Let_def by (cases d; cases "id_house d") simp
qed

definition snaps_known :: "identity_db \<Rightarrow> bool" where
  "snaps_known d \<longleftrightarrow>
     fst ` fst ` set (id_progress_snaps d) \<subseteq> im_id ` set (id_merges d) \<and>
     fst ` fst ` set (id_dismissed_snaps d) \<subseteq> im_id ` set (id_merges d) \<and>
     fst ` fst ` set (id_episode_snaps d) \<subseteq> im_id ` set (id_merges d)"

definition dismissals_typed :: "(string \<times> string \<times> string, int) gomap \<Rightarrow> bool" where
  "dismissals_typed d \<longleftrightarrow> (\<forall>p k i t. ((p, k, i), t) \<in> set d \<longrightarrow> k = ''film'' \<or> k = ''series'')"

definition tables_ok :: "identity_db \<Rightarrow> bool" where
  "tables_ok d \<longleftrightarrow>
     valid_rows (id_items d) (id_series d) \<and> distinct (map im_id (id_merges d)) \<and>
     merges_apart (active_merges (id_merges d)) \<and> '''' \<notin> im_survivor ` set (active_merges (id_merges d)) \<and>
     snaps_known d \<and> wf_map (hh_progress (id_house d)) \<and> generations_ok (id_house d) \<and>
     dismissals_typed (id_dismissed d)"

definition identity_ok :: "identity_db \<Rightarrow> bool" where
  "identity_ok d \<longleftrightarrow> tables_ok d \<and> rows_settled d"

text \<open>Players leave the merged titles and the shape of the table alone.\<close>

lemma record_event_keeps [simp]:
  "hh_merged (fst (record_event_row up t n p e h)) = hh_merged h" "hh_progress (fst (record_event_row up t n p e h)) = hh_progress h"
  by (auto simp: record_event_row_def insert_event_def split: option.split)

definition keeps_table :: "household \<Rightarrow> household \<Rightarrow> bool" where
  "keeps_table h h' \<longleftrightarrow> hh_merged h' = hh_merged h \<and> (wf_map (hh_progress h) \<longrightarrow> wf_map (hh_progress h'))"

lemma keeps_table_refl [simp]: "keeps_table h h"
  by (simp add: keeps_table_def)

lemma keeps_table_trans: "keeps_table h i \<Longrightarrow> keeps_table i j \<Longrightarrow> keeps_table h j"
  by (simp add: keeps_table_def)

lemma put_keeps [simp]: "keeps_table h (put_progress p c row h)"
  by (simp add: keeps_table_def put_progress_def)

lemma opening_keeps: "keeps_table h (fst (begin_playback up p c e h))"
  by (auto simp: begin_playback_def Let_def split: option.split)

lemma event_keeps: "record_event_row a b n q e (put_progress p c row h) = (h2, r) \<Longrightarrow> keeps_table h h2"
  using record_event_keeps [of a b n q e "put_progress p c row h"] put_keeps [of h p c row] by (simp add: keeps_table_def)

lemma record_keeps: "keeps_table h (fst (record_playback_progress up t et n en p c pos g ob d v h))"
  unfolding record_playback_progress_def Let_def
  by (simp add: event_keeps split: option.split sum.split prod.split)

lemma progress_step_keeps: "keeps_table h (progress_step h c)"
proof (cases c)
  case (ProgressForProfile up up' n p i pos)
  have "keeps_table h (fst (progress_for_profile up up' n p i pos h))"
  proof -
    obtain h1 r where b: "begin_playback up p i None h = (h1, r)" by fastforce
    have h1: "keeps_table h h1" using opening_keeps [of h up p i None] b by simp
    show ?thesis
    proof (cases r)
      case (Inr gp)
      obtain h2 r2 where w: "record_playback_progress up' None None n n p i pos (fst gp) 1 False None h1 = (h2, r2)" by fastforce
      have "keeps_table h1 h2" using record_keeps [of h1 up' None None n n p i pos "fst gp" 1 False None] w by simp
      then have "keeps_table h h2" using keeps_table_trans [OF h1] by blast
      then show ?thesis using b Inr w by (cases gp; cases r2) (simp_all add: progress_for_profile_def)
    qed (use b h1 in \<open>simp add: progress_for_profile_def\<close>)
  qed
  with ProgressForProfile show ?thesis by simp
next
  case (SetWatched up n p cs w)
  have "keeps_table h (fold (\<lambda>c h. put_progress p c (watched_row n w (progress_of p c h)) h) cs h)"
  proof (induction cs arbitrary: h)
    case (Cons i cs)
    show ?case using keeps_table_trans [OF put_keeps Cons] by simp
  qed simp
  with SetWatched show ?thesis by (simp add: set_watched_def)
qed (auto simp: opening_keeps record_keeps record_progress_def Let_def split: option.split)

section \<open>Every step keeps it\<close>

lemma generations_ok_same: "hh_progress h' = hh_progress h \<Longrightarrow> generations_ok h' = generations_ok h"
  by (simp add: generations_ok_def generation_of_def progress_of_def)

lemma keys_update: "fst ` set (AList.update k v m) = insert k (fst ` set m)"
  by (induction m) auto

lemma snap_episodes_keys:
  "k \<in> fst ` set (snap_episodes ms items snaps) \<Longrightarrow> k \<in> fst ` set snaps \<or> fst k \<in> im_id ` set ms"
proof -
  have "k \<in> fst ` set (fold (\<lambda>(m, r). snap_episode (im_id m) r) es snaps) \<Longrightarrow>
      k \<in> fst ` set snaps \<or> (\<exists>m \<in> fst ` set es. fst k = im_id m)" for es snaps
  proof (induction es arbitrary: snaps)
    case (Cons e es)
    obtain m r where e: "e = (m, r)" by fastforce
    have "fst ` set (snap_episode (im_id m) r snaps) \<subseteq> insert (im_id m, ii_id r) (fst ` set snaps)"
      by (simp add: snap_episode_def keys_update subset_insertI)
    with Cons.IH [of "snap_episode (im_id m) r snaps"] Cons.prems show ?case by (auto simp: e)
  qed simp
  then show "k \<in> fst ` set (snap_episodes ms items snaps) \<Longrightarrow> ?thesis"
    unfolding snap_episodes_def by fastforce
qed

lemma typed_update:
  assumes "dismissals_typed d" and "k = ''film'' \<or> k = ''series''"
  shows "dismissals_typed (AList.update (p, k, i) t d)"
  unfolding dismissals_typed_def
proof (intro allI impI)
  fix p' k' i' t'
  assume "((p', k', i'), t') \<in> set (AList.update (p, k, i) t d)"
  then have "((p', k', i'), t') \<in> set d \<or> ((p', k', i'), t') = ((p, k, i), t)" using set_update_subset [of "(p, k, i)" t d] by blast
  then show "k' = ''film'' \<or> k' = ''series''" using assms unfolding dismissals_typed_def by blast
qed

lemma typed_subset: "dismissals_typed d \<Longrightarrow> set d' \<subseteq> set d \<Longrightarrow> dismissals_typed d'"
  unfolding dismissals_typed_def by blast

lemma typed_moved:
  assumes "dismissals_typed d"
  shows "dismissals_typed (move_dismissals ms d)"
proof -
  have "dismissals_typed es \<Longrightarrow> dismissals_typed acc \<Longrightarrow> dismissals_typed (fold (move_dismissal ms) es acc)" for es acc
  proof (induction es arbitrary: acc)
    case (Cons x es)
    obtain p k j t where x: "x = ((p, k, j), t)" by (metis surj_pair)
    have "k = ''film'' \<or> k = ''series''" "dismissals_typed es" using Cons.prems(1) by (simp_all add: dismissals_typed_def x)
    moreover from this(1) have "dismissals_typed (move_dismissal ms x acc)"
      unfolding x move_dismissal_def using Cons.prems(2) by (simp add: typed_update split: option.split)
    ultimately show ?case using Cons.IH by simp
  qed simp
  from this [OF assms assms] show ?thesis
    unfolding move_dismissals_def by (rule typed_subset) (rule filter_is_subset)
qed

lemma active_subset: "set (active_merges ms) \<subseteq> set ms"
  by (auto simp: active_merges_def)

lemma apply_mappings_ok:
  assumes "tables_ok d"
  shows "identity_ok (apply_mappings d)"
proof -
  have "fst k \<in> im_id ` set (id_merges d)" if "k \<in> fst ` set (id_episode_snaps (apply_mappings d))" for k
    using snap_episodes_keys [OF that [unfolded apply_mappings_fields]]
  proof
    assume "k \<in> fst ` set (id_episode_snaps d)"
    then show ?thesis using assms unfolding tables_ok_def snaps_known_def by (meson imageI subsetD)
  next
    assume "fst k \<in> im_id ` set (active_merges (id_merges d))"
    then show ?thesis by (rule subsetD [OF image_mono [OF active_subset]])
  qed
  then have "fst ` fst ` set (id_episode_snaps (apply_mappings d)) \<subseteq> im_id ` set (id_merges d)" by (rule image_subsetI)
  then have "snaps_known (apply_mappings d)"
    using assms unfolding tables_ok_def snaps_known_def by (simp only: apply_mappings_fields)
  moreover have "dismissals_typed (id_dismissed (apply_mappings d))"
    using assms unfolding tables_ok_def apply_mappings_fields by (simp add: typed_moved)
  moreover have "generations_ok (id_house (apply_mappings d))"
    using assms generations_ok_same [of "id_house (apply_mappings d)" "id_house d"] by (simp add: tables_ok_def apply_mappings_fields)
  moreover have "valid_rows (id_items (apply_mappings d)) (id_series (apply_mappings d))"
    using assms by (auto simp: tables_ok_def valid_rows_def apply_mappings_fields comp_def image_image)
  ultimately show ?thesis
    using assms apply_mappings_settled [of d] by (simp add: identity_ok_def tables_ok_def apply_mappings_fields)
qed

lemma active_append: "active_merges (ms @ [m]) = active_merges ms @ (if im_state m = MergeActive then [m] else [])"
  by (simp add: active_merges_def)

lemma merges_apart_append:
  "merges_apart (ms @ [m]) \<longleftrightarrow> merges_apart ms \<and> im_survivor m \<noteq> im_source m \<and>
     (\<forall>x \<in> {im_survivor m, im_source m}. x \<notin> im_survivor ` set ms \<and> x \<notin> im_source ` set ms)"
  by (auto simp: merges_apart_def)

lemma not_in_active:
  "\<not> in_active_merge ms a b \<longleftrightarrow>
     (\<forall>x \<in> {a, b}. x \<notin> im_survivor ` set (active_merges ms) \<and> x \<notin> im_source ` set (active_merges ms))"
  by (auto simp: in_active_merge_def)

lemma map_of_fence:
  "map_of (fence_progress a b rows) (p, i) = map_option (\<lambda>r. if i = a \<or> i = b then fence_row r else r) (map_of rows (p, i))"
  unfolding fence_progress_def by (induction rows) auto

lemma map_of_copied:
  "map_of (copied_rows known a b rows) (p, i) = (if i = a \<and> \<not> has_key known (p, a) then map_of rows (p, b) else None)"
  by (induction known a b rows rule: copied_rows.induct) auto

lemma map_of_copy:
  "map_of (copy_progress a b rows) (p, i) =
    (case map_of rows (p, i) of Some r \<Rightarrow> Some r | None \<Rightarrow> if i = a then map_of rows (p, b) else None)"
  by (simp add: copy_progress_def map_of_copied map_add_def has_key_def split: option.split)

lemma fst_fence [simp]: "map fst (fence_progress a b rows) = map fst rows"
  by (induction rows) (auto simp: fence_progress_def)

lemma keys_of_copied:
  "(p, i) \<in> fst ` set (copied_rows known a b es) \<Longrightarrow> i = a \<and> \<not> has_key known (p, a) \<and> (p, b) \<in> fst ` set es"
  by (induction known a b es rule: copied_rows.induct) (auto split: if_splits)

lemma wf_copied:
  assumes "wf_map rows"
  shows "wf_map (copy_progress a b rows)"
proof -
  have "distinct (map fst (copied_rows known a b es))" if "distinct (map fst es)" for known es
    using that
  proof (induction known a b es rule: copied_rows.induct)
    case (2 known a b p i row rows)
    then have "(p, a) \<notin> fst ` set (copied_rows known a b rows)" if "i = b" using that keys_of_copied [of p a known a b rows] by auto
    with 2 show ?case by auto
  qed simp
  moreover have "fst ` set rows \<inter> fst ` set (copied_rows rows a b rows) = {}"
  proof (rule equals0I)
    fix k
    assume k: "k \<in> fst ` set rows \<inter> fst ` set (copied_rows rows a b rows)"
    obtain p i where pi: "k = (p, i)" by (cases k)
    with k keys_of_copied [of p i rows a b rows] have "i = a" "map_of rows (p, a) = None" by (simp_all add: has_key_def)
    with k pi show False by (simp add: map_of_eq_None_iff)
  qed
  ultimately show ?thesis using assms unfolding wf_map_def copy_progress_def map_append distinct_append set_map by blast
qed

section \<open>Merging\<close>

text \<open>The row a merge adds.\<close>

definition new_merge :: "int \<Rightarrow> string \<Rightarrow> string \<Rightarrow> string \<Rightarrow> string \<Rightarrow> identity_db \<Rightarrow> title_merge" where
  "new_merge now mid kind a b d = \<lparr>im_id = mid, im_kind = kind, im_survivor = a, im_source = b, im_state = MergeActive,
     im_created = now, im_unmerged = 0, im_decisions = affected_decisions d kind a b @ [merge_decision]\<rparr>"

lemma snap_fields [simp]:
  "id_items (snap_dismissals mid ph kind a b d) = id_items d" "id_series (snap_dismissals mid ph kind a b d) = id_series d"
  "id_house (snap_dismissals mid ph kind a b d) = id_house d" "id_dismissed (snap_dismissals mid ph kind a b d) = id_dismissed d"
  "id_merges (snap_dismissals mid ph kind a b d) = id_merges d" "id_conflicts (snap_dismissals mid ph kind a b d) = id_conflicts d"
  "id_progress_snaps (snap_dismissals mid ph kind a b d) = id_progress_snaps d"
  "id_episode_snaps (snap_dismissals mid ph kind a b d) = id_episode_snaps d"
  "id_scanning (snap_dismissals mid ph kind a b d) = id_scanning d"
  by (simp_all add: snap_dismissals_def)

lemma tagged_dismissals: "fst ` fst ` set (tag_dismissals mid ph kind a b xs) \<subseteq> insert mid A"
  by (induction mid ph kind a b xs rule: tag_dismissals.induct) auto

lemma snap_dismissals_mids:
  "fst ` fst ` set (id_dismissed_snaps (snap_dismissals mid ph kind a b d)) \<subseteq> insert mid (fst ` fst ` set (id_dismissed_snaps d))"
proof (cases "kind \<noteq> ''film'' \<and> kind \<noteq> ''series''")
  case False
  then have "id_dismissed_snaps (snap_dismissals mid ph kind a b d) = id_dismissed_snaps d @ tag_dismissals mid ph kind a b (id_dismissed d)"
    by (auto simp: snap_dismissals_def)
  then show ?thesis by (simp only: set_append image_Un) (intro Un_least tagged_dismissals subset_insertI)
qed (simp add: snap_dismissals_def subset_insertI)

definition merged_progress :: "string \<Rightarrow> string \<Rightarrow> string \<Rightarrow> (string \<times> string, progress_row) gomap \<Rightarrow> (string \<times> string, progress_row) gomap" where
  "merged_progress kind a b rows = (if kind = ''series'' then rows else fence_progress a b (copy_progress a b rows))"

lemma merge_rows_fields:
  "id_items (merge_rows now mid kind a b d) = id_items d" "id_series (merge_rows now mid kind a b d) = id_series d"
  "id_dismissed (merge_rows now mid kind a b d) = id_dismissed d"
  "id_merges (merge_rows now mid kind a b d) = id_merges d @ [new_merge now mid kind a b d]"
  "id_house (merge_rows now mid kind a b d) = (id_house d)\<lparr>hh_progress := merged_progress kind a b (hh_progress (id_house d))\<rparr>"
  "id_scanning (merge_rows now mid kind a b d) = id_scanning d"
  by (simp_all add: merge_rows_def new_merge_def merged_progress_def Let_def snap_series_def snap_progress_def with_progress_def)

lemma merge_rows_snaps:
  "id_episode_snaps (merge_rows now mid kind a b d) = id_episode_snaps d @
    (if kind = ''series'' then map (\<lambda>r. ((mid, ii_id r), (ii_series r, ii_season_id r))) (filter (\<lambda>r. ii_series r = b) (id_items d)) else [])"
  "id_progress_snaps (merge_rows now mid kind a b d) = id_progress_snaps d @
    (if kind = ''series'' then [] else
      tag_progress mid Before a b (hh_progress (id_house d)) @
      tag_progress mid After a b (merged_progress kind a b (hh_progress (id_house d))))"
  "id_dismissed_snaps (merge_rows now mid kind a b d) = id_dismissed_snaps (snap_dismissals mid Before kind a b d)"
  by (simp_all add: merge_rows_def merged_progress_def Let_def snap_series_def snap_progress_def with_progress_def snap_dismissals_def)

lemma tagged_mid: "fst ` fst ` set (tag_progress mid ph a b xs) \<subseteq> insert mid A"
  by (induction mid ph a b xs rule: tag_progress.induct) auto

lemma merge_rows_known:
  assumes "snaps_known d"
  shows "snaps_known (merge_rows now mid kind a b d)"
proof -
  have ids: "im_id ` set (id_merges (merge_rows now mid kind a b d)) = insert mid (im_id ` set (id_merges d))"
    by (simp add: merge_rows_fields new_merge_def)
  have "fst ` fst ` set (id_episode_snaps (merge_rows now mid kind a b d)) \<subseteq> insert mid (fst ` fst ` set (id_episode_snaps d))"
    by (auto simp: merge_rows_snaps)
  moreover have "fst ` fst ` set (id_progress_snaps (merge_rows now mid kind a b d)) \<subseteq> insert mid (fst ` fst ` set (id_progress_snaps d))"
  proof (cases "kind = ''series''")
    case False
    show ?thesis
      unfolding merge_rows_snaps set_append image_Un if_not_P [OF False] by (intro Un_least tagged_mid subset_insertI)
  qed (simp add: merge_rows_snaps subset_insertI)
  moreover have "fst ` fst ` set (id_dismissed_snaps (merge_rows now mid kind a b d)) \<subseteq> insert mid (fst ` fst ` set (id_dismissed_snaps d))"
    unfolding merge_rows_snaps by (rule snap_dismissals_mids)
  ultimately show ?thesis using assms unfolding snaps_known_def ids by (meson insert_mono subset_trans)
qed

lemma merged_progress_row:
  "map_of (merged_progress kind a b rows) (p, i) =
    (if kind = ''series'' \<or> i \<noteq> a \<and> i \<noteq> b then map_of rows (p, i)
     else map_option fence_row (case map_of rows (p, i) of Some r \<Rightarrow> Some r | None \<Rightarrow> if i = a then map_of rows (p, b) else None))"
  by (auto simp: merged_progress_def map_of_fence map_of_copy option.map_comp comp_def map_option.id [unfolded id_def] split: option.split)

lemma wf_merged: "wf_map rows \<Longrightarrow> wf_map (merged_progress kind a b rows)"
  using wf_copied [of rows a b] by (simp add: merged_progress_def wf_map_def)

lemma find_mem: "find P xs = Some x \<Longrightarrow> x \<in> set xs \<and> P x"
  by (induction xs) (auto split: if_splits)

lemma identity_target_named:
  assumes "identity_target d kind a = Some t" and "valid_rows (id_items d) (id_series d)"
  shows "a \<noteq> ''''"
proof -
  have "(\<exists>r \<in> set (id_items d). ii_id r = a) \<or> (\<exists>s \<in> set (id_series d). is_id s = a)"
    using assms(1) by (auto simp: identity_target_def dest!: find_mem split: if_splits)
  then show ?thesis using assms(2) unfolding valid_rows_def by (metis imageI)
qed

lemma identity_target_kind: "identity_target d kind a = Some t \<Longrightarrow> kind = ''film'' \<or> kind = ''episode'' \<or> kind = ''series''"
  by (auto simp: identity_target_def split: if_splits)

lemma merge_accepts:
  assumes "merge_identity up token now kind a b d = (d', Inr mid)"
  shows "d' = merge_transaction now mid kind a b d \<and> a \<noteq> b \<and> \<not> in_active_merge (id_merges d) a b \<and> mid \<notin> im_id ` set (id_merges d) \<and>
    (\<exists>s t. identity_target d kind a = Some s \<and> identity_target d kind b = Some t)"
proof -
  obtain s t where st: "identity_target d kind a = Some s" "identity_target d kind b = Some t"
    using assms by (auto simp: merge_identity_def split: if_splits option.splits)
  obtain k x y where "(if kind = ''episode'' then (''series'', ii_series s, ii_series t) else (kind, a, b)) = (k, x, y)"
    by (metis surj_pair)
  with assms st show ?thesis
    unfolding merge_identity_def Let_def by (simp split: if_splits option.splits)
qed

lemma merge_refuses:
  assumes "merge_identity up token now kind a b d = (d', Inl e)"
  shows "d' = d"
proof (cases "(identity_target d kind a, identity_target d kind b)")
  case (Pair s t)
  obtain k x y where "(if kind = ''episode'' then (''series'', ii_series (the s), ii_series (the t)) else (kind, a, b)) = (k, x, y)"
    by (metis surj_pair)
  with assms Pair show ?thesis
    unfolding merge_identity_def Let_def by (cases s; cases t; cases token) (simp_all split: if_splits)
qed

lemma fence_progress_generations:
  assumes "generations_ok h" and "hh_progress h' = merged_progress kind a b (hh_progress h)"
  shows "generations_ok h'" and "generation_of p i h \<le> generation_of p i h'"
proof -
  have all: "generation_of p i h' \<ge> (if map_of (hh_progress h) (p, i) = None then 0 else generation_of p i h)" for p i
  proof -
    have pos: "map_of (hh_progress h) (p, b) = Some r \<Longrightarrow> 0 \<le> pr_generation r" for r
      using assms(1) [unfolded generations_ok_def, rule_format, of p b] by (simp add: generation_of_def progress_of_def)
    show ?thesis
      using pos by (auto simp: generation_of_def progress_of_def assms(2) merged_progress_row fence_row_def split: option.split)
  qed
  have pos: "0 \<le> generation_of p i h" for p i using assms(1) by (simp add: generations_ok_def)
  show "generations_ok h'" unfolding generations_ok_def using all pos by (smt (verit))
  show "generation_of p i h \<le> generation_of p i h'"
    using all [of p i] by (cases "map_of (hh_progress h) (p, i)") (simp_all add: generation_of_def progress_of_def split: option.splits)
qed

lemma merge_rows_ok:
  assumes "tables_ok d" and "a \<noteq> b" and "\<not> in_active_merge (id_merges d) a b" and "mid \<notin> im_id ` set (id_merges d)" and "a \<noteq> ''''"
  shows "tables_ok (merge_rows now mid kind a b d)"
proof -
  let ?d = "merge_rows now mid kind a b d"
  have active: "active_merges (id_merges ?d) = active_merges (id_merges d) @ [new_merge now mid kind a b d]"
    by (simp add: merge_rows_fields active_append new_merge_def)
  have new: "im_id (new_merge now mid kind a b d) = mid" "im_survivor (new_merge now mid kind a b d) = a"
    "im_source (new_merge now mid kind a b d) = b" by (simp_all add: new_merge_def)
  have "merges_apart (active_merges (id_merges ?d))"
    using assms(1,2) iffD1 [OF not_in_active assms(3)] unfolding active merges_apart_append new tables_ok_def by simp
  moreover have "'''' \<notin> im_survivor ` set (active_merges (id_merges ?d))"
    using assms(1,5) unfolding active by (simp add: new tables_ok_def)
  moreover have "distinct (map im_id (id_merges ?d))" using assms(1,4) by (simp add: merge_rows_fields new tables_ok_def)
  moreover have "snaps_known ?d" using assms(1) by (intro merge_rows_known) (simp add: tables_ok_def)
  moreover have "generations_ok (id_house ?d)"
    by (rule fence_progress_generations(1) [of "id_house d" _ kind a b]) (use assms(1) in \<open>simp_all add: tables_ok_def merge_rows_fields\<close>)
  ultimately show ?thesis
    using assms(1) by (simp add: tables_ok_def merge_rows_fields wf_merged)
qed

lemma snap_dismissals_ok:
  assumes "identity_ok d" and "mid \<in> im_id ` set (id_merges d)"
  shows "identity_ok (snap_dismissals mid ph kind a b d)"
proof -
  have "snaps_known (snap_dismissals mid ph kind a b d)"
    using assms snap_dismissals_mids [of mid ph kind a b d] unfolding snaps_known_def identity_ok_def tables_ok_def snap_fields
    by (meson insert_subset subset_trans)
  then show ?thesis using assms(1) by (simp add: identity_ok_def tables_ok_def rows_settled_def)
qed

lemma merge_ok:
  assumes "identity_ok d"
  shows "identity_ok (fst (merge_identity up token now kind a b d))"
proof (cases "merge_identity up token now kind a b d")
  case (Pair d' r)
  show ?thesis
  proof (cases r)
    case (Inl e)
    then show ?thesis using Pair merge_refuses assms by fastforce
  next
    case (Inr mid)
    from merge_accepts [OF Pair [unfolded Inr]] obtain s where
      d': "d' = merge_transaction now mid kind a b d" "a \<noteq> b" "\<not> in_active_merge (id_merges d) a b" "mid \<notin> im_id ` set (id_merges d)"
      and "identity_target d kind a = Some s" by blast
    then have "a \<noteq> ''''" using assms identity_target_named by (auto simp: identity_ok_def tables_ok_def)
    then have "identity_ok (apply_mappings (merge_rows now mid kind a b d))"
      using assms d' by (intro apply_mappings_ok merge_rows_ok) (simp_all add: identity_ok_def)
    then show ?thesis
      unfolding Pair d'(1) merge_transaction_def fst_conv
      by (rule snap_dismissals_ok) (simp add: apply_mappings_fields merge_rows_fields new_merge_def)
  qed
qed

section \<open>Undoing\<close>

text \<open>Restoring touches the rows of progress only, and raises their generations.\<close>

definition only_progress :: "identity_db \<Rightarrow> identity_db \<Rightarrow> bool" where
  "only_progress d d' \<longleftrightarrow> (\<exists>rows. d' = with_progress (\<lambda>_. rows) d)"

lemma only_progress_fields:
  assumes "only_progress d d'"
  shows "id_items d' = id_items d" "id_series d' = id_series d" "id_dismissed d' = id_dismissed d" "id_merges d' = id_merges d"
    "id_episode_snaps d' = id_episode_snaps d" "id_progress_snaps d' = id_progress_snaps d"
    "id_dismissed_snaps d' = id_dismissed_snaps d" "hh_merged (id_house d') = hh_merged (id_house d)" "id_scanning d' = id_scanning d"
  using assms by (auto simp: only_progress_def with_progress_def)

lemma only_progress_refl: "only_progress d d"
  unfolding only_progress_def by (rule exI [of _ "hh_progress (id_house d)"]) (simp add: with_progress_def)

lemma only_progress_step: "only_progress d d' \<Longrightarrow> only_progress d (with_progress f d')"
  by (auto simp: only_progress_def with_progress_def)

lemma with_progress_rows [simp]: "hh_progress (id_house (with_progress f d)) = f (hh_progress (id_house d))"
  by (simp add: with_progress_def)

lemma restored_generation [simp]: "pr_generation (restored_progress b row) = pr_generation row + 1"
  by (simp add: restored_progress_def split: option.split)

lemma restore_loop_keeps:
  assumes "restore_loop mid rows ds d = (ds', d')"
  shows "only_progress d d'" and "wf_map (hh_progress (id_house d)) \<longrightarrow> wf_map (hh_progress (id_house d'))"
    and "generation_of p i (id_house d) \<le> generation_of p i (id_house d')"
proof -
  have "restore_loop mid rows ds e = (ds', d') \<Longrightarrow> only_progress d e \<Longrightarrow>
      only_progress d d' \<and> (wf_map (hh_progress (id_house e)) \<longrightarrow> wf_map (hh_progress (id_house d'))) \<and>
      generation_of p i (id_house e) \<le> generation_of p i (id_house d')" for e
  proof (induction mid rows ds e rule: restore_loop.induct)
    case (2 mid pi row rows ds e)
    show ?case
    proof (cases "map_of (hh_progress (id_house e)) pi = Some row")
      case False
      with 2 show ?thesis by simp
    next
      case True
      let ?new = "restored_progress (map_of (id_progress_snaps e) (mid, Before, fst pi, snd pi)) row"
      let ?e = "with_progress (AList.update pi ?new) e"
      have "generation_of p i (id_house e) \<le> generation_of p i (id_house ?e)"
        using True by (auto simp: generation_of_def progress_of_def split: option.split)
      with 2 True only_progress_step show ?thesis by fastforce
    qed
  qed simp
  from this [OF assms only_progress_refl] show "only_progress d d'"
    "wf_map (hh_progress (id_house d)) \<longrightarrow> wf_map (hh_progress (id_house d'))"
    "generation_of p i (id_house d) \<le> generation_of p i (id_house d')" by blast+
qed

lemma close_merge_active:
  "distinct (map im_id ms) \<Longrightarrow> active_merges (close_merge now mid ds ms) = filter (\<lambda>m. im_id m \<noteq> mid) (active_merges ms)"
  unfolding active_merges_def close_merge_def by (induction ms) auto

lemma close_merge_ids [simp]: "map im_id (close_merge now mid ds ms) = map im_id ms"
  by (simp add: close_merge_def)

lemma merges_apart_filter: "merges_apart ms \<Longrightarrow> merges_apart (filter P ms)"
  by (induction ms) (auto simp: merges_apart_Cons)

lemma typed_put: "dismissals_typed d \<Longrightarrow> k = ''film'' \<or> k = ''series'' \<Longrightarrow> dismissals_typed (put_if (p, k, i) v d)"
  by (simp add: put_if_def typed_update split: option.split)

lemma typed_delete: "dismissals_typed d \<Longrightarrow> dismissals_typed (AList.delete key d)"
  by (erule typed_subset) (rule set_delete_subset)

lemma typed_reconciled:
  assumes "dismissals_typed (id_dismissed d)"
  shows "dismissals_typed (id_dismissed (reconcile_dismissals mid kind a b d))"
proof (cases "kind \<noteq> ''film'' \<and> kind \<noteq> ''series''")
  case False
  then have kind: "kind = ''film'' \<or> kind = ''series''" by blast
  have "dismissals_typed m \<Longrightarrow> dismissals_typed (reconcile_profile mid kind a b snaps p m)" for snaps p m
    unfolding reconcile_profile_def Let_def by (simp add: typed_put [OF _ kind] typed_delete)
  then have "dismissals_typed m \<Longrightarrow> dismissals_typed (fold (reconcile_profile mid kind a b snaps) ps m)" for snaps ps m
    by (induction ps arbitrary: m) simp_all
  then show ?thesis using assms unfolding reconcile_dismissals_def if_not_P [OF False] Let_def by simp
qed (use assms in \<open>simp add: reconcile_dismissals_def\<close>)

lemma reconcile_fields [simp]:
  "id_items (reconcile_dismissals mid kind a b d) = id_items d" "id_series (reconcile_dismissals mid kind a b d) = id_series d"
  "id_house (reconcile_dismissals mid kind a b d) = id_house d" "id_merges (reconcile_dismissals mid kind a b d) = id_merges d"
  "id_progress_snaps (reconcile_dismissals mid kind a b d) = id_progress_snaps d"
  "id_dismissed_snaps (reconcile_dismissals mid kind a b d) = id_dismissed_snaps d"
  "id_episode_snaps (reconcile_dismissals mid kind a b d) = id_episode_snaps d"
  by (simp_all add: reconcile_dismissals_def Let_def)

lemma reconcile_same:
  "id_dismissed d = id_dismissed e \<Longrightarrow> id_dismissed_snaps d = id_dismissed_snaps e \<Longrightarrow>
   id_dismissed (reconcile_dismissals mid kind a b d) = id_dismissed (reconcile_dismissals mid kind a b e)"
  by (simp add: reconcile_dismissals_def Let_def)

lemma release_fields [simp]:
  "id_house (release_titles kind a b d) = id_house d" "id_merges (release_titles kind a b d) = id_merges d"
  "id_dismissed (release_titles kind a b d) = id_dismissed d"
  "id_progress_snaps (release_titles kind a b d) = id_progress_snaps d"
  "id_dismissed_snaps (release_titles kind a b d) = id_dismissed_snaps d"
  "id_episode_snaps (release_titles kind a b d) = id_episode_snaps d"
  "map is_id (id_series (release_titles kind a b d)) = map is_id (id_series d)"
  "map core_of (id_items (release_titles kind a b d)) = map core_of (id_items d)"
  by (simp_all add: release_titles_def comp_def core_of_def Let_def)

lemma ids_of_core: "map core_of xs = map core_of ys \<Longrightarrow> map ii_id xs = map ii_id ys"
proof -
  assume "map core_of xs = map core_of ys"
  then have "map ii_id (map core_of xs) = map ii_id (map core_of ys)" by (rule arg_cong)
  then show ?thesis by (simp add: comp_def core_of_def)
qed

lemma restore_episodes_ids [simp]: "map ii_id (restore_episodes mid snaps items) = map ii_id items"
  by (simp add: restore_episodes_def comp_def) (auto split: option.split)

definition unmerged_items :: "title_merge \<Rightarrow> identity_db \<Rightarrow> identity_item list" where
  "unmerged_items m d =
    (if im_kind m = ''series'' then restore_episodes (im_id m) (id_episode_snaps d) (id_items d) else id_items d)"

lemma unmerge_rows_facts:
  assumes "restore_loop (im_id m) (after_rows (im_id m) (id_progress_snaps d)) (affected_decisions d (im_kind m) (im_survivor m) (im_source m)) d = (ds, d1)"
  shows "id_merges (unmerge_rows now m d) = close_merge now (im_id m) ds (id_merges d)"
    and "id_house (unmerge_rows now m d) = id_house d1"
    and "id_dismissed (unmerge_rows now m d) = id_dismissed (reconcile_dismissals (im_id m) (im_kind m) (im_survivor m) (im_source m) d)"
    and "map core_of (id_items (unmerge_rows now m d)) = map core_of (unmerged_items m d)"
    and "map is_id (id_series (unmerge_rows now m d)) = map is_id (id_series d)"
    and "id_progress_snaps (unmerge_rows now m d) = id_progress_snaps d"
    and "id_dismissed_snaps (unmerge_rows now m d) = id_dismissed_snaps d"
    and "id_episode_snaps (unmerge_rows now m d) = id_episode_snaps d"
  using only_progress_fields [OF restore_loop_keeps(1) [OF assms]]
  by (simp_all add: unmerge_rows_def assms unmerged_items_def Let_def cong: reconcile_same)

lemma valid_rows_ids:
  "map ii_id items = map ii_id items' \<Longrightarrow> map is_id series = map is_id series' \<Longrightarrow> valid_rows items series = valid_rows items' series'"
  unfolding valid_rows_def by (metis list.set_map)

lemma unmerge_rows_ok:
  assumes "tables_ok d"
  shows "tables_ok (unmerge_rows now m d)" and "generation_of p i (id_house d) \<le> generation_of p i (id_house (unmerge_rows now m d))"
proof -
  let ?d = "unmerge_rows now m d"
  obtain ds d1 where r: "restore_loop (im_id m) (after_rows (im_id m) (id_progress_snaps d))
      (affected_decisions d (im_kind m) (im_survivor m) (im_source m)) d = (ds, d1)" by fastforce
  note facts = unmerge_rows_facts [OF r, of now]
  have raise: "generation_of p i (id_house d) \<le> generation_of p i (id_house ?d)" for p i
    using restore_loop_keeps(3) [OF r] by (simp add: facts)
  then show "generation_of p i (id_house d) \<le> generation_of p i (id_house ?d)" .
  have active: "active_merges (id_merges ?d) = filter (\<lambda>x. im_id x \<noteq> im_id m) (active_merges (id_merges d))"
    using assms close_merge_active by (simp add: facts tables_ok_def)
  have "map ii_id (id_items ?d) = map ii_id (id_items d)"
    using ids_of_core [OF facts(4)] by (simp add: unmerged_items_def split: if_splits)
  then have "valid_rows (id_items ?d) (id_series ?d)"
    using assms valid_rows_ids [OF _ facts(5)] by (simp add: tables_ok_def)
  moreover have "merges_apart (active_merges (id_merges ?d))" "'''' \<notin> im_survivor ` set (active_merges (id_merges ?d))"
    using assms unfolding active tables_ok_def by (auto intro: merges_apart_filter)
  moreover have "snaps_known ?d"
  proof -
    have "im_id ` set (id_merges ?d) = im_id ` set (id_merges d)"
      using arg_cong [OF close_merge_ids, of set now "im_id m" ds "id_merges d"] unfolding facts(1) set_map .
    then show ?thesis using assms unfolding tables_ok_def snaps_known_def facts(6-8) by simp
  qed
  moreover have "generations_ok (id_house ?d)"
    using assms raise unfolding tables_ok_def generations_ok_def by (meson order_trans)
  moreover have "dismissals_typed (id_dismissed ?d)"
    using assms typed_reconciled by (simp add: facts(3) tables_ok_def)
  moreover have "wf_map (hh_progress (id_house ?d))"
    using assms restore_loop_keeps(2) [OF r] by (simp add: facts(2) tables_ok_def)
  moreover have "distinct (map im_id (id_merges ?d))" using assms by (simp add: facts(1) tables_ok_def)
  ultimately show "tables_ok ?d" by (simp add: tables_ok_def)
qed

section \<open>Runs\<close>

lemma unmerge_accepts:
  assumes "unmerge_identity up now mid d = (d', Inr ())"
  shows "\<exists>m \<in> set (id_merges d). im_id m = mid \<and> im_state m = MergeActive \<and> d' = unmerge_transaction now m d"
  using assms by (auto simp: unmerge_identity_def dest: find_mem split: if_splits option.splits)

lemma unmerge_refuses: "unmerge_identity up now mid d = (d', Inl e) \<Longrightarrow> d' = d"
  by (auto simp: unmerge_identity_def split: if_splits option.splits)

lemma unmerge_ok:
  assumes "identity_ok d"
  shows "identity_ok (fst (unmerge_identity up now mid d))"
proof (cases "unmerge_identity up now mid d")
  case (Pair d' r)
  show ?thesis
  proof (cases r)
    case (Inr u)
    then obtain m where "d' = unmerge_transaction now m d" using unmerge_accepts Pair by fastforce
    then show ?thesis
      using Pair assms apply_mappings_ok [OF unmerge_rows_ok(1)] by (simp add: unmerge_transaction_def identity_ok_def)
  qed (use Pair unmerge_refuses assms in fastforce)
qed

lemma shown_target:
  assumes "title_shown d kind i" and "identity_ok d"
  shows "dismissal_target (active_merges (id_merges d)) kind i = None" and "kind = ''film'' \<or> kind = ''series''"
proof -
  let ?ms = "active_merges (id_merges d)"
  have items: "map (place_item ?ms (id_items d)) (id_items d) = id_items d"
    and series: "map (place_series ?ms (id_items d)) (id_series d) = id_series d"
    and named: "'''' \<notin> im_survivor ` set ?ms"
    using assms(2) by (simp_all add: identity_ok_def tables_ok_def rows_settled_def Let_def)
  show "kind = ''film'' \<or> kind = ''series''" using assms(1) by (auto simp: title_shown_def)
  have empty: "or_blank (merge_survivor s ?ms j) = '''' \<longleftrightarrow> merge_survivor s ?ms j = None" for s j
    using named merge_survivor_mem [of s ?ms j] by (cases "merge_survivor s ?ms j") (auto simp: or_blank_def image_iff)
  have fixed_item: "place_item ?ms (id_items d) r = r" if "r \<in> set (id_items d)" for r
    using items that by (metis map_idI map_eq_conv id_apply list.map_id)
  have fixed_series: "place_series ?ms (id_items d) s = s" if "s \<in> set (id_series d)" for s
    using series that by (metis map_eq_conv id_apply list.map_id)
  have "merge_survivor (kind = ''series'') ?ms i = None"
  proof (cases "kind = ''series''")
    case True
    with assms(1) obtain s where s: "s \<in> set (id_series d)" "is_id s = i" "is_merged s = ''''" by (auto simp: title_shown_def)
    have "is_merged s = or_blank (merge_survivor True ?ms (is_id s))"
      using arg_cong [OF fixed_series [OF s(1)], of is_merged] by (simp add: place_series_def)
    with s True empty show ?thesis by simp
  next
    case False
    with assms(1) obtain r where r: "r \<in> set (id_items d)" "ii_id r = i" "ii_merged r = ''''" by (auto simp: title_shown_def)
    have "ii_merged r = or_blank (merge_survivor False ?ms (ii_id r))"
      using arg_cong [OF fixed_item [OF r(1)], of ii_merged] by (simp add: place_item_def Let_def)
    with r False empty show ?thesis by simp
  qed
  then show "dismissal_target ?ms kind i = None"
    by (auto simp: merge_survivor_def dismissal_target_def find_None_iff)
qed

lemma clear_update: "dismissals_clear ms d \<Longrightarrow> dismissal_target ms k i = None \<Longrightarrow> dismissals_clear ms (AList.update (p, k, i) t d)"
  by (auto simp: dismissals_clear_map)

lemma clear_delete: "dismissals_clear ms d \<Longrightarrow> dismissals_clear ms (AList.delete key d)"
  by (auto simp: dismissals_clear_map)

lemma identity_ok_dismissed:
  assumes "identity_ok d" and "dismissals_typed m" and "dismissals_clear (active_merges (id_merges d)) m"
  shows "identity_ok (d\<lparr>id_dismissed := m\<rparr>)"
  using assms by (simp add: identity_ok_def tables_ok_def rows_settled_def snaps_known_def Let_def)

lemma identity_step_ok:
  assumes "identity_ok d"
  shows "identity_ok (identity_step d c)"
proof (cases c)
  case (PlayerCall pc)
  have "keeps_table (id_house d) (progress_step (id_house d) pc)" by (rule progress_step_keeps)
  moreover have "generations_ok (progress_step (id_house d) pc)"
    using assms progress.ok_step [of "id_house d" pc] by (simp add: identity_ok_def tables_ok_def)
  ultimately show ?thesis
    using assms PlayerCall by (simp add: identity_ok_def tables_ok_def rows_settled_def snaps_known_def keeps_table_def Let_def)
next
  case (DismissTitle p kind i at)
  show ?thesis
  proof (cases "title_shown d kind i")
    case True
    note shown = shown_target [OF True assms]
    have ok: "dismissals_typed (id_dismissed d)" "dismissals_clear (active_merges (id_merges d)) (id_dismissed d)"
      using assms by (simp_all add: identity_ok_def tables_ok_def rows_settled_def Let_def)
    show ?thesis
      using True DismissTitle identity_ok_dismissed [OF assms] ok shown typed_update [OF ok(1) shown(2)] clear_update [OF ok(2) shown(1)]
        typed_delete [OF ok(1)] clear_delete [OF ok(2)]
      by (simp split: option.split)
  qed (use assms DismissTitle in simp)
next
  case (ScanCommits now items series pairs)
  show ?thesis
  proof (cases "id_scanning d \<and> valid_rows items series")
    case True
    let ?d = "d\<lparr>id_items := items, id_series := series, id_conflicts := detect_provider_conflicts now
      (provider_rows (d\<lparr>id_items := items, id_series := series\<rparr>)) (persist_identity_conflicts now pairs (id_conflicts d))\<rparr>"
    have "tables_ok ?d" using assms True by (simp add: identity_ok_def tables_ok_def snaps_known_def)
    then have "identity_ok ((apply_mappings ?d)\<lparr>id_scanning := False\<rparr>)"
      using apply_mappings_ok by (simp add: identity_ok_def tables_ok_def rows_settled_def snaps_known_def Let_def)
    with True ScanCommits show ?thesis by (simp add: Let_def)
  qed (use assms ScanCommits in auto)
qed (use assms merge_ok unmerge_ok in \<open>auto simp: identity_ok_def tables_ok_def rows_settled_def snaps_known_def Let_def\<close>)

lemma merge_generations:
  assumes "identity_ok d"
  shows "generation_of p i (id_house d) \<le> generation_of p i (id_house (fst (merge_identity up token now kind a b d)))"
proof (cases "merge_identity up token now kind a b d")
  case (Pair d' r)
  show ?thesis
  proof (cases r)
    case (Inl e)
    then show ?thesis using Pair merge_refuses by fastforce
  next
    case (Inr mid)
    have "hh_progress (id_house d') = merged_progress kind a b (hh_progress (id_house d))"
      using merge_accepts [OF Pair [unfolded Inr]] by (simp add: merge_transaction_def apply_mappings_fields merge_rows_fields)
    then show ?thesis
      unfolding Pair fst_conv by (rule fence_progress_generations(2) [rotated]) (use assms in \<open>simp add: identity_ok_def tables_ok_def\<close>)
  qed
qed

lemma same_generation: "hh_progress h = hh_progress h' \<Longrightarrow> generation_of p i h = generation_of p i h'"
  by (simp add: generation_of_def progress_of_def)

lemma unmerge_generations:
  assumes "identity_ok d"
  shows "generation_of p i (id_house d) \<le> generation_of p i (id_house (fst (unmerge_identity up now mid d)))"
proof (cases "unmerge_identity up now mid d")
  case (Pair d' r)
  show ?thesis
  proof (cases r)
    case (Inr u)
    then obtain m where m: "d' = apply_mappings (unmerge_rows now m d)" using unmerge_accepts Pair by (fastforce simp: unmerge_transaction_def)
    have "generation_of p i (id_house d') = generation_of p i (id_house (unmerge_rows now m d))"
      by (rule same_generation) (simp add: m apply_mappings_fields)
    then show ?thesis
      using Pair unmerge_rows_ok(2) [of d p i now m] assms by (simp add: identity_ok_def)
  qed (use Pair unmerge_refuses in fastforce)
qed

lemma identity_step_generations:
  assumes "identity_ok d"
  shows "generation_of p i (id_house d) \<le> generation_of p i (id_house (identity_step d c))"
proof (cases c)
  case (ScanCommits now items series pairs)
  have "generation_of p i (id_house (identity_step d c)) = generation_of p i (id_house d)"
    by (rule same_generation) (simp add: ScanCommits apply_mappings_def Let_def)
  then show ?thesis by simp
next
  case (PlayerCall pc)
  then show ?thesis using progress_step_raises [of "id_house d" pc] by (simp add: raises_def)
qed (simp_all add: merge_generations unmerge_generations assms)

lemma empty_identities_ok: "identity_ok (empty_identities profiles)"
  using progress.ok_start [of profiles]
  by (simp add: identity_ok_def tables_ok_def rows_settled_def empty_identities_def valid_rows_def merges_apart_def active_merges_def
      snaps_known_def dismissals_typed_def dismissals_clear_def merged_map_def empty_household_def wf_map_def)

interpretation identities: monotone_machine "empty_identities profiles" identity_step identity_ok
    "\<lambda>d. generation_of p i (id_house d)"
  for profiles p i
  by unfold_locales (simp_all add: empty_identities_ok identity_step_ok identity_step_generations)


text \<open>
  C24: A merge stops the players of both titles for good. Whoever held the generation of a row of
  progress of the survivor or of the source before the merge is refused afterwards, whatever merges,
  undoings, scans and playbacks follow: the write reports so or fails, and changes nothing.
\<close>

theorem merge_fences_players:
  assumes "identity_ok d" and "merge_identity up token now kind a b d = (d', Inr mid)" and "kind \<noteq> ''series''"
    and "i = a \<or> i = b" and "progress_of p i (id_house d) = Some row" and "g \<le> pr_generation row"
    and "h = id_house (run_steps identity_step d' calls)"
  shows "(\<exists>r. record_playback_progress up' t et n en p i pos g ob fin v h = (h, r) \<and> r \<noteq> Inr True) \<and>
    (\<exists>err. record_progress up' n p i pos fin (Some g) h = (h, Inl err))"
proof -
  have d': "d' = fst (merge_identity up token now kind a b d)" by (simp add: assms(2))
  have "hh_progress (id_house d') = merged_progress kind a b (hh_progress (id_house d))"
    using merge_accepts [OF assms(2)] by (simp add: merge_transaction_def apply_mappings_fields merge_rows_fields)
  then have "generation_of p i (id_house d') = pr_generation row + 1"
    using assms(3-5) by (auto simp: generation_of_def progress_of_def merged_progress_row fence_row_def)
  moreover have "generation_of p i (id_house d') \<le> generation_of p i h"
    using identities.level_run [of d' p i calls] merge_ok [OF assms(1)] by (simp add: d' assms(7))
  moreover have "0 \<le> pr_generation row"
  proof -
    have "generations_ok (id_house d)" using assms(1) by (simp add: identity_ok_def tables_ok_def)
    from this [unfolded generations_ok_def, rule_format, of p i] show ?thesis using assms(5) by (simp add: generation_of_def)
  qed
  ultimately have "0 \<le> generation_of p i h" "g < generation_of p i h" using assms(6) by auto
  then show ?thesis
    by (auto simp: generation_of_def record_playback_progress_def record_progress_def has_authority_def Let_def split: option.splits)
qed

text \<open>Two films found by a scan; the second one is being played.\<close>

definition sample_title_item :: "string \<Rightarrow> identity_item" where
  "sample_title_item i = \<lparr>ii_id = i, ii_kind = ''film'', ii_title = ''Up'', ii_series = '''', ii_season_id = '''', ii_season = 0, ii_episode = 0,
     ii_available = True, ii_playable = True, ii_merged = '''', ii_provider = '''', ii_provider_id = ''''\<rparr>"

definition sample_titles :: identity_db where
  "sample_titles = run_steps identity_step (empty_identities [''p''])
     [ScanBegins, ScanCommits 1 [sample_title_item ''f'', sample_title_item ''g''] [] [],
      PlayerCall (BeginPlayback True ''p'' ''g'' None), DismissTitle ''p'' ''film'' ''g'' (Some 3)]"

lemma sample_titles_ok: "identity_ok sample_titles"
  unfolding sample_titles_def by (rule identities.ok_reachable)

theorem merge_fences_players_witness:
  "let h = id_house (fst (merge_identity True (Some ''m'') 5 ''film'' ''f'' ''g'' sample_titles)) in
   \<exists>r. record_playback_progress True None None 5 5 ''p'' ''g'' 60000 1 1 False None h = (h, r) \<and> r \<noteq> Inr True"
proof -
  have "snd (merge_identity True (Some ''m'') 5 ''film'' ''f'' ''g'' sample_titles) = Inr ''m''" by code_simp
  then have m: "merge_identity True (Some ''m'') 5 ''film'' ''f'' ''g'' sample_titles =
      (fst (merge_identity True (Some ''m'') 5 ''film'' ''f'' ''g'' sample_titles), Inr ''m'')"
    by (simp add: prod_eq_iff)
  have row: "map_option pr_generation (progress_of ''p'' ''g'' (id_house sample_titles)) = Some 1" by code_simp
  then obtain x where x: "progress_of ''p'' ''g'' (id_house sample_titles) = Some x" "1 \<le> pr_generation x" by auto
  have "''film'' \<noteq> ''series''" by simp
  from merge_fences_players [OF sample_titles_ok m this _ x, where calls = "[]" and up' = True and t = None and et = None and n = 5
      and en = 5 and pos = 60000 and ob = 1 and fin = False and v = None]
  show ?thesis by (simp add: Let_def)
qed

end
