(* ===== verification/MergeUndo.thy ===== *)
theory MergeUndo
  imports MergeProps
begin

text \<open>
  A merge that is undone at once gives everything back: the rows of the titles, the dismissals, and
  for every profile what it had watched, with newer generations.
\<close>

section \<open>Items and series\<close>

lemma place_all_core:
  assumes "map core_of xs = map core_of ys"
  shows "map (place_item ms xs) xs = map (place_item ms ys) ys"
proof (rule nth_equalityI)
  show len: "length (map (place_item ms xs) xs) = length (map (place_item ms ys) ys)"
    using arg_cong [OF assms, of length] by simp
  have "map (\<lambda>r. (ii_id r, ii_available r)) (map core_of xs) = map (\<lambda>r. (ii_id r, ii_available r)) (map core_of ys)"
    by (simp add: assms)
  then have pairs: "map (\<lambda>r. (ii_id r, ii_available r)) xs = map (\<lambda>r. (ii_id r, ii_available r)) ys"
    by (simp add: comp_def core_of_def)
  fix n
  assume n: "n < length (map (place_item ms xs) xs)"
  with len have "core_of (xs ! n) = core_of (ys ! n)" using assms by (metis length_map nth_map)
  from place_item_core [OF this pairs] show "map (place_item ms xs) xs ! n = map (place_item ms ys) ys ! n"
    using n len by simp
qed

lemma place_series_core:
  assumes "is_id s = is_id t" and "is_demo s = is_demo t" and "is_provider s = is_provider t" and "is_provider_id s = is_provider_id t"
    and "is_demo s \<longrightarrow> is_playable s = is_playable t"
  shows "place_series ms items s = place_series ms items t"
  using assms by (cases s; cases t) (simp add: place_series_def)

text \<open>A snapshot, once there, stays; a new one is of an episode of the source.\<close>

lemma snap_episodes_old:
  assumes "map_of snaps k = Some v"
  shows "map_of (snap_episodes ms items snaps) k = Some v"
proof -
  have "map_of snaps k = Some v \<Longrightarrow> map_of (fold (\<lambda>(m, r). snap_episode (im_id m) r) es snaps) k = Some v" for es snaps
  proof (induction es arbitrary: snaps)
    case (Cons e es)
    obtain m r where e: "e = (m, r)" by fastforce
    have "map_of (snap_episode (im_id m) r snaps) k = Some v"
      using Cons.prems by (cases v) (auto simp: snap_episode_def has_key_def)
    with Cons.IH show ?case by (simp add: e)
  qed simp
  then show ?thesis unfolding snap_episodes_def using assms by blast
qed

lemma snap_episodes_new:
  assumes "map_of snaps (mid, i) = None" and "\<And>m r. m \<in> set ms \<Longrightarrow> im_id m = mid \<Longrightarrow> r \<in> set items \<Longrightarrow> ii_id r = i \<Longrightarrow>
      \<not> (ii_series r = im_source m \<and> im_kind m = ''series'')"
  shows "map_of (snap_episodes ms items snaps) (mid, i) = None"
proof -
  have "map_of (fold (\<lambda>(m, r). snap_episode (im_id m) r) es snaps) (mid, i) = None"
    if "map_of snaps (mid, i) = None" "\<And>m r. (m, r) \<in> set es \<Longrightarrow> (im_id m, ii_id r) \<noteq> (mid, i)" for es snaps
    using that
  proof (induction es arbitrary: snaps)
    case (Cons e es)
    obtain m r where e: "e = (m, r)" by fastforce
    have "map_of (snap_episode (im_id m) r snaps) (mid, i) = None"
      using Cons.prems(1) Cons.prems(2) [of m r] e by (auto simp: snap_episode_def has_key_def)
    then have "map_of (fold (\<lambda>(m, r). snap_episode (im_id m) r) es (snap_episode (im_id m) r snaps)) (mid, i) = None"
      by (rule Cons.IH) (use Cons.prems(2) in auto)
    then show ?case by (simp add: e)
  qed simp
  note step = this
  show ?thesis unfolding snap_episodes_def
    by (rule step [OF assms(1)]) (use assms(2) in auto)
qed

text \<open>The rows of the episodes, before and after the merge.\<close>

lemma core_moved:
  assumes "place_item ms items r = r" and "merge_survivor True (ms @ [m]) (ii_series r) = merge_survivor True ms (ii_series r)"
  shows "core_of (place_item (ms @ [m]) items r) = core_of r"
proof -
  have "ii_series r = (case merge_survivor True ms (ii_series r) of None \<Rightarrow> ii_series r | Some s \<Rightarrow> s)"
    using arg_cong [OF assms(1), of ii_series] by (simp add: place_item_series)
  then show ?thesis unfolding core_of_fields by (simp add: place_item_series assms(2))
qed

lemma core_restored:
  assumes "core_of r' = core_of (r\<lparr>ii_series := s\<rparr>)"
  shows "core_of (r'\<lparr>ii_series := ii_series r, ii_season_id := ii_season_id r\<rparr>) = core_of r"
  using assms unfolding core_of_fields by simp

lemma restored_items:
  assumes distinct: "distinct (map ii_id items)" and fixed: "map (place_item ms items) items = items"
    and free: "merge_survivor True ms (im_source m) = None" and kind: "im_kind m = ''series''"
    and snaps: "\<And>r. r \<in> set items \<Longrightarrow> map_of snaps (im_id m, ii_id r) =
      (if ii_series r = im_source m then Some (ii_series r, ii_season_id r) else None)"
  shows "map core_of (restore_episodes (im_id m) snaps (map (place_item (ms @ [m]) items) items)) = map core_of items"
proof -
  have "core_of (case map_of snaps (im_id m, ii_id r) of None \<Rightarrow> place_item (ms @ [m]) items r
      | Some (s, n) \<Rightarrow> (place_item (ms @ [m]) items r)\<lparr>ii_series := s, ii_season_id := n\<rparr>) = core_of r" if "r \<in> set items" for r
  proof (cases "ii_series r = im_source m")
    case True
    then show ?thesis using snaps [OF that] by (simp add: core_of_fields)
  next
    case False
    have "place_item ms items r = r" using fixed that by (metis map_eq_conv id_apply list.map_id)
    then show ?thesis using snaps [OF that] False by (simp add: core_moved merge_survivor_append split: option.split)
  qed
  then show ?thesis by (simp add: restore_episodes_def comp_def)
qed

section \<open>Dismissals\<close>

lemma map_of_filter_keys: "map_of (filter (\<lambda>x. P (fst x)) m) k = (if P k then map_of m k else None)"
  by (induction m) auto

lemma moved_other:
  assumes "dismissals_clear ms es" and "im_kind m \<noteq> k \<or> im_survivor m \<noteq> i"
  shows "map_of (fold (move_dismissal (ms @ [m])) es acc) (p, k, i) = map_of acc (p, k, i)"
  using assms(1)
proof (induction es arbitrary: acc)
  case (Cons e es)
  obtain q l j t where e: "e = ((q, l, j), t)" by (metis surj_pair)
  have none: "dismissal_target ms l j = None" "dismissals_clear ms es" using Cons.prems by (simp_all add: dismissals_clear_def e)
  have "map_of (move_dismissal (ms @ [m]) e acc) (p, k, i) = map_of acc (p, k, i)"
  proof (cases "im_source m = j \<and> im_kind m = l")
    case True
    then have "dismissal_target (ms @ [m]) l j = Some (im_survivor m)" by (simp add: dismissal_target_append none(1))
    then have "map_of (move_dismissal (ms @ [m]) e acc) =
        (map_of acc)((q, l, im_survivor m) \<mapsto> max (get_or t acc (q, l, im_survivor m)) t)"
      unfolding e move_dismissal_def by simp
    then show ?thesis using True assms(2) by auto
  next
    case False
    then have "dismissal_target (ms @ [m]) l j = None" by (simp add: dismissal_target_append none(1))
    then show ?thesis unfolding e move_dismissal_def by simp
  qed
  with Cons.IH [OF none(2)] show ?case by simp
qed simp

text \<open>What a merge leaves of the dismissals, apart from those of the survivor.\<close>

lemma moved_dismissals:
  assumes "dismissals_clear ms d" and "im_survivor m \<noteq> im_source m"
  shows "im_kind m \<noteq> k \<or> i \<noteq> im_survivor m \<and> i \<noteq> im_source m \<Longrightarrow> map_of (move_dismissals (ms @ [m]) d) (p, k, i) = map_of d (p, k, i)"
    and "map_of (move_dismissals (ms @ [m]) d) (p, im_kind m, im_source m) = None"
proof -
  have keys: "(\<lambda>((p, k, i), _). dismissal_target ms k i = None) = (\<lambda>x. (\<lambda>(p, k, i). dismissal_target ms k i = None) (fst x))" for ms
    by (simp add: fun_eq_iff)
  have moved: "map_of (move_dismissals (ms @ [m]) d) (p, k, i) =
      (if dismissal_target (ms @ [m]) k i = None then map_of (fold (move_dismissal (ms @ [m])) d d) (p, k, i) else None)" for p k i
    unfolding move_dismissals_def keys map_of_filter_keys by simp
  show "map_of (move_dismissals (ms @ [m]) d) (p, im_kind m, im_source m) = None"
    unfolding moved by (auto simp: dismissal_target_append split: option.splits)
  assume other: "im_kind m \<noteq> k \<or> i \<noteq> im_survivor m \<and> i \<noteq> im_source m"
  have "map_of (fold (move_dismissal (ms @ [m])) d d) (p, k, i) = map_of d (p, k, i)"
    by (rule moved_other [OF assms(1)]) (use other in blast)
  moreover have "map_of d (p, k, i) = None" if "dismissal_target (ms @ [m]) k i \<noteq> None"
  proof -
    have "dismissal_target ms k i \<noteq> None"
      using that other by (auto simp: dismissal_target_append split: option.splits if_splits)
    then show ?thesis using assms(1) [unfolded dismissals_clear_map, rule_format, of p k i] by (cases "map_of d (p, k, i)") auto
  qed
  ultimately show "map_of (move_dismissals (ms @ [m]) d) (p, k, i) = map_of d (p, k, i)" unfolding moved by auto
qed

lemma map_of_tagged:
  "map_of (tag_dismissals mid ph kind a b d) (mid', ph', p, k, i) =
    (if mid' = mid \<and> ph' = ph \<and> k = kind \<and> (i = a \<or> i = b) then map_of d (p, k, i) else None)"
proof (induction d)
  case (Cons x d)
  obtain q l j t where "x = ((q, l, j), t)" by (metis surj_pair)
  with Cons show ?case by (cases "l = kind \<and> (j = a \<or> j = b)") auto
qed simp

lemma map_of_put_if: "map_of (put_if k v m) x = (if x = k \<and> v \<noteq> None then v else map_of m x)"
  by (auto simp: put_if_def split: option.split)

lemma reconciled_profile:
  assumes "a \<noteq> b"
  shows "map_of (reconcile_profile mid kind a b snaps p m) (q, k, i) =
    (if q = p \<and> k = kind \<and> (i = a \<or> i = b)
     then (if map_of m (p, kind, a) \<noteq> map_of snaps (mid, After, p, kind, a) then map_of m (p, kind, a)
           else map_of snaps (mid, Before, p, kind, i))
     else map_of m (q, k, i))"
  using assms by (auto simp: reconcile_profile_def map_of_put_if Let_def)

lemma reconciled_profiles:
  assumes "a \<noteq> b" and "distinct ps"
  shows "map_of (fold (reconcile_profile mid kind a b snaps) ps m) (q, k, i) =
    (if q \<in> set ps \<and> k = kind \<and> (i = a \<or> i = b)
     then (if map_of m (q, kind, a) \<noteq> map_of snaps (mid, After, q, kind, a) then map_of m (q, kind, a)
           else map_of snaps (mid, Before, q, kind, i))
     else map_of m (q, k, i))"
  using assms(2)
proof (induction ps arbitrary: m)
  case (Cons p ps)
  then show ?case using assms(1) by (auto simp: reconciled_profile)
qed simp

text \<open>The profiles whose dismissals are looked at.\<close>

lemma profile_of_snap:
  "((mid, ph, p, k, i), t) \<in> set snaps \<Longrightarrow> p \<in> set (map (\<lambda>((m, phase, p, k, i), _). p) (filter (\<lambda>((m, _), _). m = mid) snaps))"
  by (induction snaps) auto

lemma profile_of_row:
  "((p, kind, i), t) \<in> set d \<Longrightarrow> i = a \<or> i = b \<Longrightarrow>
   p \<in> set (map (\<lambda>((p, k, i), _). p) (filter (\<lambda>((p, k, i), _). k = kind \<and> (i = a \<or> i = b)) d))"
  by (induction d) auto

lemma reconciled_dismissals:
  assumes clear: "dismissals_clear ms d" and ab: "im_survivor m \<noteq> im_source m"
    and free: "\<And>k. dismissal_target ms k (im_survivor m) = None \<and> dismissal_target ms k (im_source m) = None"
    and kind: "im_kind m = ''film'' \<or> im_kind m = ''series''"
    and d: "id_dismissed e = move_dismissals (ms @ [m]) d"
    and snaps: "id_dismissed_snaps e = old @ tag_dismissals (im_id m) Before (im_kind m) (im_survivor m) (im_source m) d @
      tag_dismissals (im_id m) After (im_kind m) (im_survivor m) (im_source m) (id_dismissed e)"
    and old: "im_id m \<notin> fst ` fst ` set old"
  shows "map_of (id_dismissed (reconcile_dismissals (im_id m) (im_kind m) (im_survivor m) (im_source m) e)) = map_of d"
proof
  fix key :: "string \<times> string \<times> string"
  let ?mid = "im_id m" and ?kind = "im_kind m" and ?a = "im_survivor m" and ?b = "im_source m"
  obtain p k i where key: "key = (p, k, i)" by (metis surj_pair)
  define ps where "ps = remdups (map (\<lambda>((m, phase, p, k, i), _). p) (filter (\<lambda>((m, _), _). m = ?mid) (id_dismissed_snaps e)) @
    map (\<lambda>((p, k, i), _). p) (filter (\<lambda>((p, k, i), _). k = ?kind \<and> (i = ?a \<or> i = ?b)) (id_dismissed e)))"
  have none: "map_of old (?mid, ph, q, l, j) = None" for ph q l j
    using old by (force simp: map_of_eq_None_iff)
  have look: "map_of (id_dismissed_snaps e) (?mid, Before, q, ?kind, j) = map_of d (q, ?kind, j)"
    "map_of (id_dismissed_snaps e) (?mid, After, q, ?kind, j) = map_of (id_dismissed e) (q, ?kind, j)"
    if "j = ?a \<or> j = ?b" for q j
    using that by (simp_all add: snaps map_add_def none map_of_tagged split: option.split)
  have rec: "id_dismissed (reconcile_dismissals ?mid ?kind ?a ?b e) =
      fold (reconcile_profile ?mid ?kind ?a ?b (id_dismissed_snaps e)) ps (id_dismissed e)"
    using kind by (auto simp: reconcile_dismissals_def ps_def Let_def)
  have distinct: "distinct ps" by (simp add: ps_def)
  have result: "map_of (id_dismissed (reconcile_dismissals ?mid ?kind ?a ?b e)) (p, k, i) =
      (if p \<in> set ps \<and> k = ?kind \<and> (i = ?a \<or> i = ?b) then map_of d (p, k, i) else map_of (id_dismissed e) (p, k, i))"
    unfolding rec reconciled_profiles [OF ab distinct] by (auto simp: look)
  show "map_of (id_dismissed (reconcile_dismissals ?mid ?kind ?a ?b e)) key = map_of d key"
  proof (cases "k = ?kind \<and> (i = ?a \<or> i = ?b)")
    case False
    then show ?thesis unfolding key result d using moved_dismissals(1) [OF clear ab, of k i p] by auto
  next
    case True
    show ?thesis
    proof (cases "p \<in> set ps")
      case True
      with \<open>k = ?kind \<and> (i = ?a \<or> i = ?b)\<close> show ?thesis unfolding key result by simp
    next
      case False
      have "map_of (id_dismissed e) (p, ?kind, j) = None" if "j = ?a \<or> j = ?b" for j
      proof (rule ccontr)
        assume "map_of (id_dismissed e) (p, ?kind, j) \<noteq> None"
        then obtain t where "((p, ?kind, j), t) \<in> set (id_dismissed e)" by (auto dest: map_of_SomeD)
        from profile_of_row [OF this that] have "p \<in> set ps" unfolding ps_def set_remdups set_append by blast
        with False show False ..
      qed
      moreover have "map_of d (p, ?kind, j) = None" if "j = ?a \<or> j = ?b" for j
      proof (rule ccontr)
        assume "map_of d (p, ?kind, j) \<noteq> None"
        then have "map_of (tag_dismissals ?mid Before ?kind ?a ?b d) (?mid, Before, p, ?kind, j) \<noteq> None"
          using that by (simp add: map_of_tagged)
        then obtain t where "map_of (tag_dismissals ?mid Before ?kind ?a ?b d) (?mid, Before, p, ?kind, j) = Some t" by blast
        then have "((?mid, Before, p, ?kind, j), t) \<in> set (id_dismissed_snaps e)" by (auto simp: snaps dest: map_of_SomeD)
        from profile_of_snap [OF this] have "p \<in> set ps" unfolding ps_def set_remdups set_append by blast
        with False show False ..
      qed
      ultimately show ?thesis using True False unfolding key result by auto
    qed
  qed
qed

section \<open>Progress\<close>

lemma after_append: "after_rows mid (xs @ ys) = after_rows mid xs @ after_rows mid ys"
  by (induction mid xs rule: after_rows.induct) simp_all

lemma after_none: "mid \<notin> fst ` fst ` set xs \<Longrightarrow> after_rows mid xs = []"
  by (induction mid xs rule: after_rows.induct) auto

lemma after_before: "after_rows mid (tag_progress mid Before a b rows) = []"
  by (induction mid Before a b rows rule: tag_progress.induct) simp_all

definition rows_at :: "string \<Rightarrow> string \<Rightarrow> (string \<times> string, progress_row) gomap \<Rightarrow> (string \<times> string, progress_row) gomap" where
  "rows_at a b rows = filter (\<lambda>x. snd (fst x) = a \<or> snd (fst x) = b) rows"

lemma after_after: "after_rows mid (tag_progress mid After a b rows) = rows_at a b rows"
  by (induction mid After a b rows rule: tag_progress.induct) (simp_all add: rows_at_def)

lemma map_of_tag_progress:
  "map_of (tag_progress mid ph a b rows) (mid', ph', p, i) =
    (if mid' = mid \<and> ph' = ph \<and> (i = a \<or> i = b) then map_of rows (p, i) else None)"
proof (induction rows)
  case (Cons x rows)
  obtain q j t where "x = ((q, j), t)" by (metis surj_pair)
  with Cons show ?case by (cases "j = a \<or> j = b") auto
qed simp

lemma restore_loop_rows:
  assumes "restore_loop mid rows ds d = (ds', d')" and "wf_map rows"
    and "\<And>k row. map_of rows k = Some row \<Longrightarrow> map_of (hh_progress (id_house d)) k = Some row"
  shows "map_of (hh_progress (id_house d')) k =
    (case map_of rows k of
       None \<Rightarrow> map_of (hh_progress (id_house d)) k
     | Some row \<Rightarrow> Some (restored_progress (map_of (id_progress_snaps d) (mid, Before, fst k, snd k)) row))"
  using assms
proof (induction mid rows ds d rule: restore_loop.induct)
  case (2 mid pi row rows ds d)
  let ?new = "restored_progress (map_of (id_progress_snaps d) (mid, Before, fst pi, snd pi)) row"
  let ?d = "with_progress (AList.update pi ?new) d"
  have same: "map_of (hh_progress (id_house d)) pi = Some row" using 2(5) [of pi row] by simp
  have fresh: "map_of rows pi = None" "wf_map rows" using 2(4) by (auto simp: wf_map_def map_of_eq_None_iff)
  have snaps: "id_progress_snaps ?d = id_progress_snaps d" by (simp add: with_progress_def)
  have "map_of (hh_progress (id_house ?d)) k = Some r" if "map_of rows k = Some r" for k r
  proof -
    have "k \<noteq> pi" using that fresh(1) by auto
    then show ?thesis using 2(5) [of k r] that by simp
  qed
  from 2(2) [OF _ _ fresh(2) this] same 2(3)
  have "map_of (hh_progress (id_house d')) k =
    (case map_of rows k of
       None \<Rightarrow> map_of (hh_progress (id_house ?d)) k
     | Some row \<Rightarrow> Some (restored_progress (map_of (id_progress_snaps d) (mid, Before, fst k, snd k)) row))"
    unfolding snaps by simp
  then show ?case using fresh(1) by (auto split: option.split)
qed simp

text \<open>What a profile had watched is as before: the same values, or an empty row that fences.\<close>

definition same_viewing :: "progress_row option \<Rightarrow> progress_row option \<Rightarrow> bool" where
  "same_viewing old new =
    (case (old, new) of
       (None, None) \<Rightarrow> True
     | (None, Some r) \<Rightarrow> pr_position_ms r = 0 \<and> pr_updated_at r = 0 \<and> \<not> pr_completed r \<and> pr_completed_at r = 0 \<and> pr_completion_id r = ''''
     | (Some r, Some s) \<Rightarrow> pr_position_ms s = pr_position_ms r \<and> pr_updated_at s = pr_updated_at r \<and> pr_completed s = pr_completed r \<and>
         pr_completed_at s = pr_completed_at r \<and> pr_completion_id s = pr_completion_id r \<and> pr_generation r \<le> pr_generation s
     | (Some _, None) \<Rightarrow> False)"

lemma same_viewing_refl [simp]: "same_viewing x x"
  by (cases x) (simp_all add: same_viewing_def)

lemma same_viewing_restored:
  assumes "map_of (merged_progress kind a b rows) (p, i) = Some new" and "kind \<noteq> ''series''" and "i = a \<or> i = b"
  shows "same_viewing (map_of rows (p, i)) (Some (restored_progress (map_of rows (p, i)) new))"
  using assms by (auto simp: merged_progress_row same_viewing_def restored_progress_def fence_row_def split: option.splits if_splits)

lemma same_viewing_none:
  assumes "map_of (merged_progress kind a b rows) (p, i) = None"
  shows "map_of rows (p, i) = None"
  using assms by (auto simp: merged_progress_row split: option.splits if_splits)

section \<open>Merging and undoing\<close>

text \<open>A merge that can be accepted, and the state after it.\<close>

definition mergeable :: "string \<Rightarrow> string \<Rightarrow> string \<Rightarrow> identity_db \<Rightarrow> bool" where
  "mergeable mid a b d \<longleftrightarrow> a \<noteq> b \<and> \<not> in_active_merge (id_merges d) a b \<and> mid \<notin> im_id ` set (id_merges d)"

lemma mergeable_free:
  assumes "mergeable mid a b d" and "x = a \<or> x = b"
  shows "merge_survivor s (active_merges (id_merges d)) x = None" and "dismissal_target (active_merges (id_merges d)) k x = None"
proof -
  have "x \<notin> im_source ` set (active_merges (id_merges d))"
    using assms not_in_active [of "id_merges d" a b] by (auto simp: mergeable_def)
  then show "merge_survivor s (active_merges (id_merges d)) x = None" "dismissal_target (active_merges (id_merges d)) k x = None"
    by (simp_all add: merge_survivor_None dismissal_target_None)
qed

lemma snaps_fresh:
  assumes "tables_ok d" and "mid \<notin> im_id ` set (id_merges d)"
  shows "mid \<notin> fst ` fst ` set (id_progress_snaps d)" and "mid \<notin> fst ` fst ` set (id_dismissed_snaps d)"
    and "mid \<notin> fst ` fst ` set (id_episode_snaps d)"
proof -
  have "snaps_known d" using assms(1) by (simp add: tables_ok_def)
  then show "mid \<notin> fst ` fst ` set (id_progress_snaps d)" "mid \<notin> fst ` fst ` set (id_dismissed_snaps d)"
    "mid \<notin> fst ` fst ` set (id_episode_snaps d)"
    using assms(2) unfolding snaps_known_def by (meson subsetD)+
qed

lemma new_merge_fields [simp]:
  "im_id (new_merge now mid kind a b d) = mid" "im_kind (new_merge now mid kind a b d) = kind"
  "im_survivor (new_merge now mid kind a b d) = a" "im_source (new_merge now mid kind a b d) = b"
  "im_state (new_merge now mid kind a b d) = MergeActive"
  by (simp_all add: new_merge_def)

lemma merged_fields:
  defines "ms \<equiv> \<lambda>d. active_merges (id_merges d)"
  shows "id_merges (merge_transaction now mid kind a b d) = id_merges d @ [new_merge now mid kind a b d]"
    and "ms (merge_transaction now mid kind a b d) = ms d @ [new_merge now mid kind a b d]"
    and "id_items (merge_transaction now mid kind a b d) =
      map (place_item (ms d @ [new_merge now mid kind a b d]) (id_items d)) (id_items d)"
    and "id_series (merge_transaction now mid kind a b d) =
      map (place_series (ms d @ [new_merge now mid kind a b d]) (id_items (merge_transaction now mid kind a b d))) (id_series d)"
    and "id_dismissed (merge_transaction now mid kind a b d) = move_dismissals (ms d @ [new_merge now mid kind a b d]) (id_dismissed d)"
    and "hh_progress (id_house (merge_transaction now mid kind a b d)) = merged_progress kind a b (hh_progress (id_house d))"
    and "id_scanning (merge_transaction now mid kind a b d) = id_scanning d"
    and "id_progress_snaps (merge_transaction now mid kind a b d) = id_progress_snaps (merge_rows now mid kind a b d)"
    and "id_episode_snaps (merge_transaction now mid kind a b d) =
      snap_episodes (ms d @ [new_merge now mid kind a b d]) (id_items d) (id_episode_snaps (merge_rows now mid kind a b d))"
  by (simp_all add: ms_def merge_transaction_def apply_mappings_fields merge_rows_fields active_append)

lemma undo_state:
  assumes "tables_ok d" and "mergeable mid a b d" and "\<not> id_scanning d"
  shows "unmerge_identity True now' mid (merge_transaction now mid kind a b d) =
      (apply_mappings (unmerge_rows now' (new_merge now mid kind a b d) (merge_transaction now mid kind a b d)), Inr ())"
    and "active_merges (id_merges (unmerge_rows now' (new_merge now mid kind a b d) (merge_transaction now mid kind a b d))) =
      active_merges (id_merges d)"
proof -
  let ?m = "new_merge now mid kind a b d" and ?d = "merge_transaction now mid kind a b d"
  have fresh: "mid \<notin> im_id ` set (id_merges d)" using assms(2) by (simp add: mergeable_def)
  then have "find (\<lambda>m. im_id m = mid) (id_merges d) = None" by (auto simp: find_None_iff)
  then have "find (\<lambda>m. im_id m = mid) (id_merges ?d) = Some ?m" by (simp add: merged_fields find_append_single)
  then show "unmerge_identity True now' mid ?d = (apply_mappings (unmerge_rows now' ?m ?d), Inr ())"
    using assms(3) by (simp add: unmerge_identity_def unmerge_transaction_def merged_fields)
  obtain ds e where r: "restore_loop (im_id ?m) (after_rows (im_id ?m) (id_progress_snaps ?d))
      (affected_decisions ?d (im_kind ?m) (im_survivor ?m) (im_source ?m)) ?d = (ds, e)" by fastforce
  have "distinct (map im_id (id_merges ?d))" using assms(1) fresh by (simp add: merged_fields tables_ok_def)
  from close_merge_active [OF this, of now' mid ds]
  have "active_merges (id_merges (unmerge_rows now' ?m ?d)) = filter (\<lambda>m. im_id m \<noteq> mid) (active_merges (id_merges d) @ [?m])"
    unfolding unmerge_rows_facts(1) [OF r] by (simp add: merged_fields active_append)
  moreover have "filter (\<lambda>m. im_id m \<noteq> mid) (active_merges (id_merges d)) = active_merges (id_merges d)"
    using fresh active_subset [of "id_merges d"] by (intro filter_True) blast
  ultimately show "active_merges (id_merges (unmerge_rows now' ?m ?d)) = active_merges (id_merges d)" by simp
qed

lemma tagged_absent:
  "i \<notin> ii_id ` set rs \<Longrightarrow> map_of (map (\<lambda>r. ((mid, ii_id r), (ii_series r, ii_season_id r))) (filter (\<lambda>r. ii_series r = b) rs)) (mid, i) = None"
  by (induction rs) auto

lemma tagged_episodes:
  assumes "distinct (map ii_id rs)" and "r \<in> set rs"
  shows "map_of (map (\<lambda>r. ((mid, ii_id r), (ii_series r, ii_season_id r))) (filter (\<lambda>r. ii_series r = b) rs)) (mid, ii_id r) =
    (if ii_series r = b then Some (ii_series r, ii_season_id r) else None)"
  using assms
proof (induction rs)
  case (Cons x rs)
  show ?case
  proof (cases "r = x")
    case True
    with Cons.prems(1) have "ii_id r \<notin> ii_id ` set rs" by simp
    then have "map_of (map (\<lambda>r. ((mid, ii_id r), (ii_series r, ii_season_id r))) (filter (\<lambda>r. ii_series r = b) rs)) (mid, ii_id r) = None"
      by (rule tagged_absent)
    then show ?thesis unfolding True [symmetric] by simp
  next
    case False
    with Cons.prems have "r \<in> set rs" "ii_id x \<noteq> ii_id r" "distinct (map ii_id rs)" by auto
    then show ?thesis using Cons.IH by simp
  qed
qed simp

lemma undo_cores:
  assumes "identity_ok d" and "mergeable mid a b d"
  shows "map core_of (unmerged_items (new_merge now mid kind a b d) (merge_transaction now mid kind a b d)) = map core_of (id_items d)"
proof -
  let ?m = "new_merge now mid kind a b d" and ?ms = "active_merges (id_merges d)" and ?items = "id_items d"
  have fixed: "map (place_item ?ms ?items) ?items = ?items" and distinct: "distinct (map ii_id ?items)"
    using assms(1) by (simp_all add: identity_ok_def tables_ok_def rows_settled_def valid_rows_def Let_def)
  show ?thesis
  proof (cases "kind = ''series''")
    case False
    have "core_of (place_item (?ms @ [?m]) ?items r) = core_of r" if "r \<in> set ?items" for r
    proof -
      have "place_item ?ms ?items r = r" using fixed that by (metis map_eq_conv id_apply list.map_id)
      then show ?thesis by (rule core_moved) (simp add: merge_survivor_append False split: option.split)
    qed
    then show ?thesis using False by (simp add: unmerged_items_def merged_fields)
  next
    case True
    let ?snaps = "snap_episodes (?ms @ [?m]) ?items (id_episode_snaps (merge_rows now mid kind a b d))"
    have known: "mid \<notin> fst ` fst ` set (id_episode_snaps d)"
      using snaps_fresh(3) [of d mid] assms by (simp add: identity_ok_def mergeable_def)
    have old: "map_of (id_episode_snaps d) (mid, i) = None" for i
      using known by (force simp: map_of_eq_None_iff)
    have start: "map_of (id_episode_snaps (merge_rows now mid kind a b d)) (mid, ii_id r) =
        (if ii_series r = b then Some (ii_series r, ii_season_id r) else None)" if "r \<in> set ?items" for r
      using tagged_episodes [OF distinct that, of mid b] by (simp add: merge_rows_snaps True map_add_def old split: option.split)
    have fresh: "im_id m \<noteq> mid" if "m \<in> set ?ms" for m
      using that active_subset [of "id_merges d"] assms(2) by (auto simp: mergeable_def)
    have snaps: "map_of ?snaps (im_id ?m, ii_id r) = (if ii_series r = im_source ?m then Some (ii_series r, ii_season_id r) else None)"
      if "r \<in> set ?items" for r
    proof (cases "ii_series r = b")
      case True
      then show ?thesis using snap_episodes_old start [OF that] by simp
    next
      case False
      have "r' = r" if "r' \<in> set ?items" "ii_id r' = ii_id r" for r'
        using that \<open>r \<in> set ?items\<close> distinct by (auto simp: distinct_map dest: inj_onD)
      then have "map_of ?snaps (mid, ii_id r) = None"
      proof (intro snap_episodes_new)
        show "map_of (id_episode_snaps (merge_rows now mid kind a b d)) (mid, ii_id r) = None"
          using start [OF that] False by simp
        fix m r'
        assume same: "\<And>r'. r' \<in> set ?items \<Longrightarrow> ii_id r' = ii_id r \<Longrightarrow> r' = r"
          and m: "m \<in> set (?ms @ [?m])" "im_id m = mid" and r': "r' \<in> set ?items" "ii_id r' = ii_id r"
        from m fresh have "m = ?m" by auto
        then have "im_source m = b" by (metis new_merge_fields(4))
        then show "\<not> (ii_series r' = im_source m \<and> im_kind m = ''series'')" using same [OF r'] False by simp
      qed
      then show ?thesis using False by simp
    qed
    have "merge_survivor True ?ms (im_source ?m) = None" using mergeable_free(1) [OF assms(2)] by simp
    from restored_items [OF distinct fixed this _ snaps] show ?thesis
      by (simp add: unmerged_items_def merged_fields True)
  qed
qed

lemma undo_items:
  assumes "identity_ok d" and "mergeable mid a b d" and "\<not> id_scanning d"
  shows "id_items (apply_mappings (unmerge_rows now' (new_merge now mid kind a b d) (merge_transaction now mid kind a b d))) = id_items d"
proof -
  let ?m = "new_merge now mid kind a b d" and ?d = "merge_transaction now mid kind a b d"
  let ?ms = "active_merges (id_merges d)" and ?u = "unmerge_rows now' (new_merge now mid kind a b d) (merge_transaction now mid kind a b d)"
  have ok: "tables_ok d" "rows_settled d" using assms(1) by (simp_all add: identity_ok_def)
  obtain ds e where r: "restore_loop (im_id ?m) (after_rows (im_id ?m) (id_progress_snaps ?d))
      (affected_decisions ?d (im_kind ?m) (im_survivor ?m) (im_source ?m)) ?d = (ds, e)" by fastforce
  have "map core_of (id_items ?u) = map core_of (id_items d)"
    using unmerge_rows_facts(4) [OF r, of now'] undo_cores [OF assms(1,2)] by simp
  from place_all_core [OF this, of ?ms] show ?thesis
    using ok(2) by (simp add: apply_mappings_fields undo_state(2) [OF ok(1) assms(2,3)] rows_settled_def Let_def)
qed

lemma place_series_over:
  "place_series ms items (place_series ms' items' s) = place_series ms items s"
  "place_series ms items ((place_series ms' items' s)\<lparr>is_merged := x\<rparr>) = place_series ms items s"
  by (simp_all add: place_series_def)

lemma unmerge_rows_series:
  "id_series (unmerge_rows now m d) =
    (if im_kind m = ''series'' then map (\<lambda>s. if is_id s = im_source m then s\<lparr>is_merged := ''''\<rparr> else s) (id_series d) else id_series d)"
proof -
  obtain ds e where r: "restore_loop (im_id m) (after_rows (im_id m) (id_progress_snaps d))
      (affected_decisions d (im_kind m) (im_survivor m) (im_source m)) d = (ds, e)" by fastforce
  show ?thesis
    using only_progress_fields(2) [OF restore_loop_keeps(1) [OF r]] by (simp add: unmerge_rows_def r Let_def release_titles_def)
qed

lemma undo_series:
  assumes "identity_ok d" and "mergeable mid a b d" and "\<not> id_scanning d"
  shows "id_series (apply_mappings (unmerge_rows now' (new_merge now mid kind a b d) (merge_transaction now mid kind a b d))) = id_series d"
proof -
  let ?ms = "active_merges (id_merges d)" and ?u = "unmerge_rows now' (new_merge now mid kind a b d) (merge_transaction now mid kind a b d)"
  have ok: "tables_ok d" "rows_settled d" using assms(1) by (simp_all add: identity_ok_def)
  note active = undo_state(2) [OF ok(1) assms(2,3), of now' now kind]
  have items: "map (place_item ?ms (id_items ?u)) (id_items ?u) = id_items d"
    using undo_items [OF assms, of now' now kind] by (simp add: apply_mappings_fields active)
  have "map (place_series ?ms (id_items d)) (id_series ?u) = map (place_series ?ms (id_items d)) (id_series d)"
    by (simp add: unmerge_rows_series merged_fields place_series_over)
  then show ?thesis
    using ok(2) by (simp add: apply_mappings_fields active items rows_settled_def Let_def)
qed

lemma merged_dismissed_snaps:
  "id_dismissed_snaps (merge_transaction now mid kind a b d) = id_dismissed_snaps d @
    (if kind = ''film'' \<or> kind = ''series''
     then tag_dismissals mid Before kind a b (id_dismissed d) @
       tag_dismissals mid After kind a b (id_dismissed (merge_transaction now mid kind a b d))
     else [])"
  by (simp add: merge_transaction_def snap_dismissals_def apply_mappings_fields merge_rows_snaps)

text \<open>The owner dismisses films and series only, so a merge of episodes moves no dismissal.\<close>

lemma typed_clear:
  assumes "dismissals_typed d" and "dismissals_clear ms d" and "im_kind m \<noteq> ''film''" and "im_kind m \<noteq> ''series''"
  shows "dismissals_clear (ms @ [m]) d"
  unfolding dismissals_clear_def
proof (clarify, goal_cases)
  case (1 p k i t)
  then have "dismissal_target ms k i = None" "k = ''film'' \<or> k = ''series''"
    using assms(1,2) by (auto simp: dismissals_clear_def dismissals_typed_def)
  with assms(3,4) show ?case by (auto simp: dismissal_target_append)
qed

lemma undo_dismissals:
  assumes "identity_ok d" and "mergeable mid a b d" and "\<not> id_scanning d" and "kind = ''film'' \<or> kind = ''episode'' \<or> kind = ''series''"
  shows "map_of (id_dismissed (apply_mappings (unmerge_rows now' (new_merge now mid kind a b d) (merge_transaction now mid kind a b d)))) =
    map_of (id_dismissed d)"
proof -
  let ?m = "new_merge now mid kind a b d" and ?d = "merge_transaction now mid kind a b d"
  let ?ms = "active_merges (id_merges d)" and ?u = "unmerge_rows now' (new_merge now mid kind a b d) (merge_transaction now mid kind a b d)"
  have ok: "tables_ok d" and clear: "dismissals_clear ?ms (id_dismissed d)" and typed: "dismissals_typed (id_dismissed d)"
    using assms(1) by (simp_all add: identity_ok_def tables_ok_def rows_settled_def Let_def)
  obtain ds e where r: "restore_loop (im_id ?m) (after_rows (im_id ?m) (id_progress_snaps ?d))
      (affected_decisions ?d (im_kind ?m) (im_survivor ?m) (im_source ?m)) ?d = (ds, e)" by fastforce
  note rows = unmerge_rows_facts(3) [OF r, of now']
  have same: "map_of (id_dismissed ?u) = map_of (id_dismissed d)"
  proof (cases "kind = ''film'' \<or> kind = ''series''")
    case True
    show ?thesis unfolding rows
      by (rule reconciled_dismissals [OF clear, where old = "id_dismissed_snaps d"])
        (use True mergeable_free(2) [OF assms(2)] snaps_fresh(2) [OF ok] assms(2) in
          \<open>simp_all add: merged_fields(5) merged_dismissed_snaps mergeable_def\<close>)
  next
    case False
    have "dismissals_clear (?ms @ [?m]) (id_dismissed d)"
      by (rule typed_clear [OF typed clear]) (use False in simp_all)
    from move_dismissals_id [OF this] have "id_dismissed ?d = id_dismissed d" by (simp add: merged_fields)
    then show ?thesis unfolding rows using False by (simp add: reconcile_dismissals_def)
  qed
  then have "dismissals_clear ?ms (id_dismissed ?u)" using clear unfolding dismissals_clear_map by simp
  from move_dismissals_id [OF this] same show ?thesis
    by (simp add: apply_mappings_fields undo_state(2) [OF ok assms(2,3)])
qed

lemma map_of_rows_at: "map_of (rows_at a b rows) (p, i) = (if i = a \<or> i = b then map_of rows (p, i) else None)"
  unfolding rows_at_def map_of_filter_keys [where P = "\<lambda>k. snd k = a \<or> snd k = b"] by simp

lemma wf_rows_at: "wf_map rows \<Longrightarrow> wf_map (rows_at a b rows)"
  by (simp add: wf_map_def rows_at_def distinct_map_filter)

lemma merged_outside: "i \<noteq> a \<Longrightarrow> i \<noteq> b \<Longrightarrow> map_of (merged_progress kind a b rows) (p, i) = map_of rows (p, i)"
  by (auto simp: merged_progress_row split: option.splits)

lemma undo_progress:
  assumes "identity_ok d" and "mergeable mid a b d"
  shows "same_viewing (progress_of p i (id_house d))
    (progress_of p i (id_house (apply_mappings (unmerge_rows now' (new_merge now mid kind a b d) (merge_transaction now mid kind a b d)))))"
proof -
  let ?m = "new_merge now mid kind a b d" and ?d = "merge_transaction now mid kind a b d"
  let ?old = "hh_progress (id_house d)"
  let ?new = "merged_progress kind a b ?old"
  have ok: "tables_ok d" using assms(1) by (simp add: identity_ok_def)
  note fresh = snaps_fresh(1) [OF ok, of mid]
  obtain ds e where r: "restore_loop (im_id ?m) (after_rows (im_id ?m) (id_progress_snaps ?d))
      (affected_decisions ?d (im_kind ?m) (im_survivor ?m) (im_source ?m)) ?d = (ds, e)" by fastforce
  have result: "progress_of p i (id_house (apply_mappings (unmerge_rows now' ?m ?d))) = map_of (hh_progress (id_house e)) (p, i)"
    by (simp add: progress_of_def apply_mappings_fields unmerge_rows_facts(2) [OF r])
  have mid: "mid \<notin> fst ` fst ` set (id_progress_snaps d)" using fresh assms(2) by (simp add: mergeable_def)
  have snaps: "id_progress_snaps ?d = id_progress_snaps d @
      (if kind = ''series'' then [] else tag_progress mid Before a b ?old @ tag_progress mid After a b ?new)"
    by (simp add: merged_fields(8) merge_rows_snaps)
  show ?thesis
  proof (cases "kind = ''series''")
    case True
    then have "after_rows mid (id_progress_snaps ?d) = []" unfolding snaps by (simp add: after_append after_none [OF mid])
    then have "e = ?d" using r by simp
    then show ?thesis using True unfolding result by (simp add: progress_of_def merged_fields(6) merged_progress_def)
  next
    case False
    then have rows: "after_rows mid (id_progress_snaps ?d) = rows_at a b ?new"
      by (simp add: snaps after_append after_none [OF mid] after_before after_after)
    have none: "map_of (id_progress_snaps d) (mid, Before, p, i) = None" using mid by (force simp: map_of_eq_None_iff)
    have before: "map_of (id_progress_snaps ?d) (mid, Before, p, i) = (if i = a \<or> i = b then map_of ?old (p, i) else None)"
      using False by (simp add: snaps map_add_def map_of_tag_progress none split: option.split)
    have "wf_map ?new" using ok wf_merged by (simp add: tables_ok_def)
    note wf = wf_rows_at [OF this, of a b]
    have sub: "map_of (hh_progress (id_house ?d)) k = Some row" if "map_of (rows_at a b ?new) k = Some row" for k row
      using that by (cases k) (simp add: map_of_rows_at merged_fields(6) split: if_splits)
    have loop: "restore_loop mid (rows_at a b ?new) (affected_decisions ?d kind a b) ?d = (ds, e)"
      using r unfolding new_merge_fields rows .
    have step: "map_of (hh_progress (id_house e)) k =
        (case map_of (rows_at a b ?new) k of
           None \<Rightarrow> map_of (hh_progress (id_house ?d)) k
         | Some row \<Rightarrow> Some (restored_progress (map_of (id_progress_snaps ?d) (mid, Before, fst k, snd k)) row))" for k
      by (rule restore_loop_rows [OF loop wf]) (rule sub)
    have now: "map_of (hh_progress (id_house e)) (p, i) =
        (if i = a \<or> i = b then map_option (restored_progress (map_of ?old (p, i))) (map_of ?new (p, i)) else map_of ?new (p, i))"
      unfolding step map_of_rows_at merged_fields(6) fst_conv snd_conv before
      by (cases "i = a \<or> i = b"; cases "map_of ?new (p, i)") simp_all
    show ?thesis
    proof (cases "i = a \<or> i = b")
      case True
      then show ?thesis
        using same_viewing_restored [where kind = kind and a = a and b = b and i = i and p = p and rows = ?old]
          same_viewing_none [of kind a b ?old p i] False
        unfolding result now by (cases "map_of ?new (p, i)") (simp_all add: progress_of_def)
    next
      case False
      then show ?thesis unfolding result now by (simp add: progress_of_def merged_outside)
    qed
  qed
qed



end
