(* ===== verification/Spec2Isabelle.thy ===== *)
theory Spec2Isabelle
  imports Access PlanProps Screens Generation PlaybackProps Activity Retention Captions Progress Restore
    AccountProps RestoreRun NextEpisode LibraryRuns ScanRunProps ViewerProps MergeUndo
begin

text \<open>
  FlixR is a media server for one household, written in Go (\<open>src/backend\<close>). An HTTP layer
  (\<open>web\<close>) calls the packages that hold the logic: \<open>access\<close> decides what a profile may see,
  \<open>household\<close> keeps the owner, the profiles, the sessions and what was watched, \<open>catalog\<close> the
  library, \<open>playback\<close> plans and runs the delivery of a title, \<open>screens\<close> lets one device control
  another, \<open>captions\<close> converts subtitles, \<open>schedule\<close> says when jobs run, \<open>backup\<close> makes, verifies,
  rotates and restores archives. All state that must survive a restart is in SQLite (\<open>sqlite\<close>).

  Theories and code. Each theory names the Go file it translates; a Go struct is a record with
  the fields in the order of the source and a prefix of two letters, an error is a constructor of
  the package's error type, a function that can fail returns \<open>error + value\<close>, a Go map is an
  association list whose order stands for the open iteration order. Code that gives up its lock is
  cut into its critical sections, so that other calls may run in between.

  Shared ground: \<open>Prelude\<close> (64-bit integers, Go maps, results, the locales \<open>machine\<close>,
  \<open>monotone_machine\<close> and \<open>normalizer\<close>), \<open>GoText\<close> and \<open>GoPath\<close> (strings, white space, paths,
  numbers), \<open>Rounding\<close> (double precision), \<open>Base64\<close>, \<open>Paging\<close> (the locale \<open>pager\<close>: following
  the cursors of a paged listing gives every entry once).

  \<^item> \<open>Access\<close>: access/policy.go. A policy in normal form, and the decision about a title.
  \<^item> \<open>Plan\<close>, \<open>PlanProps\<close>: playback/plan.go. What a client can play, what the server makes of it.
  \<^item> \<open>Screens\<close>: screens/screens.go. Receivers, tickets, control sessions, queues and channels.
  \<^item> \<open>PlaySettings\<close>: playback/settings.go. Limits, the segment directory, the sidecar file.
  \<^item> \<open>Generation\<close>: FFmpeg generations in playback/manager.go: keys, manifests, logs, assets.
  \<^item> \<open>Sessions\<close>, \<open>SessionOps\<close>, \<open>Creation\<close>, \<open>Playback\<close>: the state of playback/manager.go, its
    control calls, create, seek, prepare and replace as sequences of critical sections, and the
    machine that interleaves all calls. \<open>ManagerFrame\<close> says what each section leaves alone,
    \<open>PlaybackSafety\<close> and \<open>PlaybackFence\<close> carry the invariants, \<open>PlaybackProps\<close> the properties.
  \<^item> \<open>Activity\<close>: the status report and the activity page of playback/manager.go.
  \<^item> \<open>Accounts\<close>, \<open>AccountRuns\<close>, \<open>AccountProps\<close>: household/household.go and policy.go: owner,
    profiles, PINs, sessions, preferences, policies; all interleavings of the calls, with restarts.
  \<^item> \<open>History\<close>, \<open>Progress\<close>: household/history.go and progress.go, with SetWatched and
    ProgressState of household.go. The statements of SQL are functions on lists of rows.
  \<^item> \<open>Captions\<close>: captions/captions.go. \<open>Schedule\<close>: schedule/next.go.
  \<^item> \<open>Retention\<close>: backup/retention.go. \<open>Destination\<close>, \<open>Copying\<close>, \<open>Archive\<close>, \<open>Backups\<close>,
    \<open>BackupErrors\<close>: backup/archive.go and verify.go: where an archive may be written, the bounded
    copy, the verification of an archive against its manifest, and making and publishing one, with
    every message a failure ends in. \<open>BackupJobs\<close>: backup/manager.go, the jobs and the policy, one
    step per statement or critical section.
  \<^item> \<open>Restore\<close>, \<open>Staging\<close>, \<open>RestoreRun\<close>: backup/restore.go: the publication of a stage and its
    recovery with a crash at any point, the preparation of the stage from an archive, and a whole
    restore, with what is rolled back when a step fails.
  \<^item> \<open>Exclusions\<close>, \<open>ScanRoots\<close>: which paths a scan leaves out, what the walk over a location
    finds and what it may conclude from it (catalog/scan_scheduler.go, scan_safety.go, catalog.go).
  \<^item> \<open>Libraries\<close>, \<open>LibraryProps\<close>, \<open>LibraryRuns\<close>: catalog/libraries.go: libraries, their locations,
    the previews of a move, the reviews of a removal, and their interleavings with scans.
  \<^item> \<open>ScanPolicy\<close>, \<open>ScanJobs\<close>, \<open>ScanRuns\<close>, \<open>ScanRunProps\<close>: catalog/scan_scheduler.go: when a
    library is scanned, the queue of jobs, and the machine of requests, cancellations, restarts
    and the runner.
  \<^item> \<open>EpisodeOrder\<close>, \<open>NextEpisode\<close>: catalog/episode_order.go and next_episode.go.
  \<^item> \<open>Identity\<close>: catalog/identity.go: the title a scanned file belongs to, and duplicate titles.
  \<^item> \<open>IdentityMerge\<close>, \<open>MergeProps\<close>, \<open>MergeUndo\<close>: catalog/identity_merge.go: merging two titles
    that are the same, what the active merges do to the rows, and undoing a merge; one step per
    transaction, with players, dismissals and scans in between. \<open>merge_identity\<close> is MergeIdentity,
    \<open>unmerge_identity\<close> UnmergeIdentity, \<open>apply_mappings\<close> applyIdentityMappings.
  \<^item> \<open>Viewer\<close>, \<open>ViewerProps\<close>: catalog/viewer.go, viewer_policy_sql.go and the policy inputs of
    access.go: what a profile browses, page by page, and what it keeps on its titles.

  The components meet where the code makes them meet. The policy of \<open>Access\<close> decides in \<open>Accounts\<close>
  what a profile is given, in \<open>NextEpisode\<close> what follows, and in \<open>Viewer\<close> what is listed, which is
  shown to be what playback allows. What \<open>Backups\<close> writes is what \<open>Archive\<close> accepts and \<open>Staging\<close>
  unpacks; \<open>RestoreRun\<close> publishes it with the operations of \<open>Restore\<close>. \<open>Schedule\<close> times both
  \<open>BackupJobs\<close> and \<open>ScanPolicy\<close>, \<open>GoPath\<close> carries every decision about folders. A merge in
  \<open>IdentityMerge\<close> raises the generations that \<open>Progress\<close> checks, which fences the players.

  What the lemmas show. Invariants of every interleaving: capacity, counters, fences and shutdown
  of playback; bounds and channel discipline of the screens; the ties between memory and tables of
  the accounts; one active backup, well-formed scan jobs, locations that stay apart, titles that
  follow their files, rows that show the active merges. Safety: stale writers, spent tickets,
  revoked sessions and outdated PINs stay refused; a scan whose cancellation was acknowledged
  stores nothing, and a scan removes only what is gone from a location it could read; an archive
  is accepted only if it is what its manifest says, and staged only as it was verified; a restore
  that fails or crashes leaves one whole installation. Functional behaviour: plans obey the
  request and the client, rotations the policy, schedules the clock, exclusions their patterns,
  the next episode its order. Round trips: settings, timestamps, clearing and undoing, merging and
  undoing, backup and stage. Liveness: paged listings end and miss nothing, a fenced call returns.
  Where the code does something else than it says, the theorem states what it does.

  Bounds and fuel. The only loop that could run for ever, the catching up of an interval schedule,
  is a partial function; that it returns is proved for every positive interval whose distances fit
  in 64 bits, and a schedule without a next time answers \<open>None\<close>. Listings are followed with as many
  requests as there are entries, and one more. Everything else recurs on its data. Integers are
  64-bit where the code computes with them, with the wrap-around written out; times are in
  nanoseconds.

  Arguments of the model are the clock, random tokens, whether the database executes a call, what
  the file system and processes answer, the hash functions, a time zone, JSON, and the ends of a
  sealed cursor (JSON and HMAC). Case mapping is that of ASCII.

  Not modelled: managers without a database, which only tests build; opening the database and its
  migrations; running FFmpeg and ffprobe (playback/process.go, playback/commands.go, captions
  Extract, catalog/probe.go), preview and diagnostics; in the catalog, artwork, the TMDB client,
  local metadata files, owner overrides, matching titles to entries of TMDB, the tables of artwork
  that a merge of series rewrites, the versions of a film, and how a scan stores the titles it
  found; the HTTP layer, configuration and start-up, which pass requests on. The rest of the
  catalog is mostly SQL, network and file formats read by libraries.
\<close>

end
